(* ===== verification/Prelude.thy ===== *)
theory Prelude
  imports Main "HOL-Library.Word" "HOL-Library.List_Lexorder" "HOL-Library.Char_ord"
begin

text \<open>
  Shared base of the library: Go's integer operations (truncated division, conversion to
  int32), the shape of fallible results (a Go pair (value, error) is a sum, \<open>Inl\<close> the
  error), and the lemmas on lists that stand for SQL tables.  Every table of the metadata
  store is a list of rows; the four statements the source issues are the four functions of
  the section on tables, so that the lemma collection \<open>tbl\<close> carries the proofs about
  all of them.
\<close>

named_theorems tbl \<open>rewrite rules for selecting from updated tables\<close>

type_synonym byte = "8 word"
type_synonym bytes = "byte list"

section \<open>Go integers\<close>

text \<open>Go's \<open>/\<close> and \<open>%\<close> on int64 truncate toward zero.\<close>

definition go_div :: "int \<Rightarrow> int \<Rightarrow> int" where
  "go_div a b = (if b = 0 then 0 else if (0 \<le> a) = (0 < b) then \<bar>a\<bar> div \<bar>b\<bar> else - (\<bar>a\<bar> div \<bar>b\<bar>))"

definition go_mod :: "int \<Rightarrow> int \<Rightarrow> int" where
  "go_mod a b = a - b * go_div a b"

text \<open>The conversion \<open>int32(x)\<close> keeps the low 32 bits, read as two's complement.\<close>

definition to_int32 :: "int \<Rightarrow> int" where
  "to_int32 x = (x + 2 ^ 31) mod 2 ^ 32 - 2 ^ 31"

text \<open>int64 arithmetic that can leave the range wraps the same way.\<close>

definition to_int64 :: "int \<Rightarrow> int" where
  "to_int64 x = (x + 2 ^ 63) mod 2 ^ 64 - 2 ^ 63"

lemma to_int64_id: "- (2 ^ 63) \<le> x \<Longrightarrow> x < 2 ^ 63 \<Longrightarrow> to_int64 x = x"
  by (simp add: to_int64_def)

lemma go_div_nonneg [simp]: "0 \<le> a \<Longrightarrow> 0 < b \<Longrightarrow> go_div a b = a div b"
  by (simp add: go_div_def)

lemma go_mod_nonneg [simp]: "0 \<le> a \<Longrightarrow> 0 < b \<Longrightarrow> go_mod a b = a mod b"
  by (simp add: go_mod_def minus_mult_div_eq_mod)

lemma to_int32_id: "- (2 ^ 31) \<le> x \<Longrightarrow> x < 2 ^ 31 \<Longrightarrow> to_int32 x = x"
  by (simp add: to_int32_def)

lemma to_int32_range: "- (2 ^ 31) \<le> to_int32 x \<and> to_int32 x < 2 ^ 31"
  using pos_mod_bound [of "2 ^ 32" "x + 2 ^ 31"] pos_mod_sign [of "2 ^ 32" "x + 2 ^ 31"]
  by (simp add: to_int32_def)

text \<open>The definition is the reading of a word of 32 bits.\<close>

lemma to_int32_word: "to_int32 x = sint (word_of_int x :: 32 word)"
  by (simp add: to_int32_def sint_uint uint_word_of_int signed_take_bit_eq_take_bit_shift
      take_bit_eq_mod mod_simps)

section \<open>Results\<close>

definition is_ok :: "'e + 'a \<Rightarrow> bool" where
  "is_ok r = (case r of Inl _ \<Rightarrow> False | Inr _ \<Rightarrow> True)"

lemma is_ok_simps [simp]: "is_ok (Inr x)" "\<not> is_ok (Inl e)"
  by (simp_all add: is_ok_def)

lemma is_okE: assumes "is_ok r" obtains x where "r = Inr x"
  using assms by (cases r) auto

section \<open>Tables as lists of rows\<close>

text \<open>
  \<open>SELECT ... LIMIT 1\<close> is \<open>find\<close> and \<open>SELECT ...\<close> is \<open>filter\<close>;
  DELETE, UPDATE and the upsert INSERT ... ON CONFLICT DO UPDATE are these.
\<close>

definition del_where :: "('r \<Rightarrow> bool) \<Rightarrow> 'r list \<Rightarrow> 'r list" where
  "del_where p t = filter (\<lambda>r. \<not> p r) t"

definition upd_where :: "('r \<Rightarrow> bool) \<Rightarrow> ('r \<Rightarrow> 'r) \<Rightarrow> 'r list \<Rightarrow> 'r list" where
  "upd_where p f t = map (\<lambda>r. if p r then f r else r) t"

definition cnt_where :: "('r \<Rightarrow> bool) \<Rightarrow> 'r list \<Rightarrow> nat" where
  "cnt_where p t = length (filter p t)"

definition upsert :: "('r \<Rightarrow> 'k) \<Rightarrow> 'r \<Rightarrow> 'r list \<Rightarrow> 'r list" where
  "upsert key r t = (if \<exists>x\<in>set t. key x = key r
     then map (\<lambda>x. if key x = key r then r else x) t else t @ [r])"

text \<open>A table whose primary key is unique, and the finite map it stands for.\<close>

definition keyed :: "('r \<Rightarrow> 'k) \<Rightarrow> 'r list \<Rightarrow> bool" where
  "keyed key t = distinct (map key t)"

definition row_at :: "('r \<Rightarrow> 'k) \<Rightarrow> 'r list \<Rightarrow> 'k \<Rightarrow> 'r option" where
  "row_at key t k = find (\<lambda>r. key r = k) t"

lemma row_at_Nil [simp]: "row_at key [] k = None"
  by (simp add: row_at_def)

lemma row_at_Cons: "row_at key (r # t) k = (if key r = k then Some r else row_at key t k)"
  by (simp add: row_at_def)

lemma row_at_SomeD: "row_at key t k = Some r \<Longrightarrow> r \<in> set t \<and> key r = k"
  by (auto simp: row_at_def find_Some_iff)

lemma row_at_None_iff: "row_at key t k = None \<longleftrightarrow> (\<forall>r\<in>set t. key r \<noteq> k)"
  by (auto simp: row_at_def find_None_iff)

lemma row_at_eq_Some: "keyed key t \<Longrightarrow> row_at key t k = Some r \<longleftrightarrow> r \<in> set t \<and> key r = k"
  by (induction t) (auto simp: row_at_Cons keyed_def)

lemma row_at_append: "row_at key (t @ u) k = (case row_at key t k of None \<Rightarrow> row_at key u k | Some r \<Rightarrow> Some r)"
  by (induction t) (auto simp: row_at_Cons)

lemma row_at_del [tbl]: "row_at key (del_where (\<lambda>r. key r = k) t) k' = (if k = k' then None else row_at key t k')"
  by (induction t) (auto simp: row_at_Cons del_where_def)

lemma row_at_del_key: "row_at key (del_where (\<lambda>r. P (key r)) t) k' = (if P k' then None else row_at key t k')"
  by (induction t) (auto simp: row_at_Cons del_where_def)

lemma row_at_upd [tbl]:
  assumes "\<And>r. key (f r) = key r" "\<And>r. p r = P (key r)"
  shows "row_at key (upd_where p f t) k = (if P k then map_option f (row_at key t k) else row_at key t k)"
  by (induction t) (auto simp: row_at_Cons upd_where_def assms)

lemma row_at_upsert [tbl]: "row_at key (upsert key r t) k = (if k = key r then Some r else row_at key t k)"
proof (cases "\<exists>x\<in>set t. key x = key r")
  case True
  have gen: "row_at key (map (\<lambda>x. if key x = key r then r else x) t) k =
    (if k = key r then (if \<exists>x\<in>set t. key x = key r then Some r else None) else row_at key t k)"
    by (cases "k = key r"; induction t) (auto simp: row_at_Cons)
  show ?thesis unfolding upsert_def using True gen by simp
next
  case False
  then show ?thesis
    by (auto simp: upsert_def row_at_append row_at_Cons split: option.splits dest: row_at_SomeD)
qed

lemma set_del_where [simp]: "set (del_where p t) = {r \<in> set t. \<not> p r}"
  by (auto simp: del_where_def)

lemma set_upd_where: "set (upd_where p f t) = (\<lambda>r. if p r then f r else r) ` set t"
  by (simp add: upd_where_def)

lemma ball_upd_where: "(\<forall>x\<in>set (upd_where p f t). Q x) \<longleftrightarrow> (\<forall>r\<in>set t. Q (if p r then f r else r))"
  by (auto simp: upd_where_def)

lemma bex_upd_where: "(\<exists>x\<in>set (upd_where p f t). Q x) \<longleftrightarrow> (\<exists>r\<in>set t. Q (if p r then f r else r))"
  by (auto simp: upd_where_def)

lemma map_upd_where: "(\<And>r. g (f r) = g r) \<Longrightarrow> map g (upd_where p f t) = map g t"
  by (simp add: upd_where_def)

lemma length_upd_where [simp]: "length (upd_where p f t) = length t"
  by (simp add: upd_where_def)

lemma cnt_where_0: "cnt_where p t = 0 \<longleftrightarrow> (\<forall>r\<in>set t. \<not> p r)"
  by (auto simp: cnt_where_def filter_empty_conv)

lemma cnt_where_append [simp]: "cnt_where p (t @ u) = cnt_where p t + cnt_where p u"
  by (simp add: cnt_where_def)

lemma cnt_where_Cons: "cnt_where p (r # t) = (if p r then 1 else 0) + cnt_where p t"
  by (simp add: cnt_where_def)

lemma cnt_where_Nil [simp]: "cnt_where p [] = 0"
  by (simp add: cnt_where_def)

lemma cnt_where_le: "cnt_where p t \<le> length t"
  by (simp add: cnt_where_def)

lemma cnt_where_pos: "0 < cnt_where p t \<longleftrightarrow> (\<exists>r\<in>set t. p r)"
  by (metis cnt_where_0 gr0I less_numeral_extra(3))

lemma cnt_where_cong: "(\<And>r. r \<in> set t \<Longrightarrow> p r = q r) \<Longrightarrow> cnt_where p t = cnt_where q t"
  by (simp add: cnt_where_def cong: filter_cong)

lemma cnt_where_del: "cnt_where p (del_where q t) + cnt_where (\<lambda>r. p r \<and> q r) t = cnt_where p t"
  by (induction t) (auto simp: cnt_where_Cons del_where_def)

lemma keyed_del [intro]: "keyed key t \<Longrightarrow> keyed key (del_where p t)"
  by (simp add: keyed_def del_where_def distinct_map_filter)

lemma keyed_upd: "(\<And>r. key (f r) = key r) \<Longrightarrow> keyed key (upd_where p f t) = keyed key t"
  by (simp add: keyed_def map_upd_where)

text \<open>Giving the row at key k a key that no row has.\<close>

lemma keyed_rekey:
  assumes "keyed key t" "row_at key t k' = None" "\<And>r. key r = k \<Longrightarrow> key (f r) = k'"
  shows "keyed key (upd_where (\<lambda>r. key r = k) f t)"
proof -
  let ?g = "\<lambda>x. if x = k then k' else x"
  have "map key (upd_where (\<lambda>r. key r = k) f t) = map ?g (map key t)"
    using assms(3) by (simp add: upd_where_def)
  moreover have "inj_on ?g (set (map key t))"
    using assms(2) by (auto simp: row_at_None_iff inj_on_def)
  ultimately show ?thesis using assms(1) by (simp add: keyed_def distinct_map del: map_map)
qed

lemma row_at_rekey:
  assumes "keyed key t" "row_at key t k' = None" "\<And>r. key r = k \<Longrightarrow> key (f r) = k'" "k \<noteq> k'"
  shows "row_at key (upd_where (\<lambda>r. key r = k) f t) x =
    (if x = k' then map_option f (row_at key t k) else if x = k then None else row_at key t x)"
  using assms(1,2)
proof (induction t)
  case Nil
  then show ?case by (simp add: upd_where_def)
next
  case (Cons a t)
  have cons: "upd_where (\<lambda>r. key r = k) f (a # t) = (if key a = k then f a else a) # upd_where (\<lambda>r. key r = k) f t"
    by (simp add: upd_where_def)
  have "keyed key t" "row_at key t k' = None" "key a \<noteq> k'" "key a \<notin> key ` set t"
    using Cons.prems by (auto simp: keyed_def row_at_Cons split: if_splits)
  moreover have "row_at key t (key a) = None"
    using \<open>key a \<notin> key ` set t\<close> by (simp add: row_at_None_iff image_iff) metis
  ultimately show ?case
    using Cons.IH assms(3,4) unfolding cons by (auto simp: row_at_Cons)
qed

lemma keyed_append1: "keyed key (t @ [r]) \<longleftrightarrow> keyed key t \<and> (\<forall>x\<in>set t. key x \<noteq> key r)"
  by (auto simp: keyed_def image_iff)

lemma keyed_upsert [intro]:
  assumes "keyed key t" shows "keyed key (upsert key r t)"
proof (cases "\<exists>x\<in>set t. key x = key r")
  case True
  have "map key (map (\<lambda>x. if key x = key r then r else x) t) = map key t"
    by simp
  with True assms show ?thesis by (simp add: upsert_def keyed_def del: map_map)
next
  case False
  with assms show ?thesis by (simp add: upsert_def keyed_append1)
qed

lemma set_upsert_sub: "set (upsert key r t) \<subseteq> insert r (set t)"
  by (auto simp: upsert_def)

lemma set_upsert: "set (upsert key r t) = insert r {x \<in> set t. key x \<noteq> key r}"
  by (auto simp: upsert_def)

lemma keyed_unique: "keyed key t \<Longrightarrow> r \<in> set t \<Longrightarrow> r' \<in> set t \<Longrightarrow> key r = key r' \<Longrightarrow> r = r'"
  by (auto simp: keyed_def distinct_map dest: inj_onD)

lemma cnt_where_key: "keyed key t \<Longrightarrow> cnt_where (\<lambda>r. key r = k \<and> p r) t = (case row_at key t k of None \<Rightarrow> 0 | Some r \<Rightarrow> if p r then 1 else 0)"
proof (induction t)
  case (Cons a t)
  then have *: "row_at key t (key a) = None"
    by (simp add: keyed_def row_at_None_iff image_iff) metis
  show ?case using Cons *
    by (auto simp: cnt_where_Cons row_at_Cons keyed_def split: option.splits)
qed simp

lemma cnt_where_le1_unique:
  "cnt_where p t \<le> 1 \<Longrightarrow> r \<in> set t \<Longrightarrow> r' \<in> set t \<Longrightarrow> p r \<Longrightarrow> p r' \<Longrightarrow> r = r'"
  by (induction t) (auto simp: cnt_where_Cons cnt_where_0 split: if_splits)

lemma distinct_map_sort_key: "distinct (map g (sort_key f xs)) = distinct (map g xs)"
  by (simp add: distinct_map)

lemma sorted_sort_key_strict: "distinct (map f xs) \<Longrightarrow> sorted_wrt (<) (map f (sort_key f xs))"
  for f :: "'r \<Rightarrow> 'k::linorder"
  by (simp add: strict_sorted_iff distinct_map_sort_key)

section \<open>The key-value contract\<close>

text \<open>
  What every keyed table promises to its clients: a lookup after an upsert, a lookup after a
  delete.  The components that only read and write slots (settings, extended attributes,
  chunk slots, dedup index) rest on the lemmas of this locale.
\<close>

locale slot_store =
  fixes get :: "'t \<Rightarrow> 'k \<Rightarrow> 'v option"
    and put :: "'k \<Rightarrow> 'v \<Rightarrow> 't \<Rightarrow> 't"
    and del :: "'k \<Rightarrow> 't \<Rightarrow> 't"
    and inv :: "'t \<Rightarrow> bool"
  assumes get_put: "inv t \<Longrightarrow> get (put k v t) k' = (if k' = k then Some v else get t k')"
    and get_del: "inv t \<Longrightarrow> get (del k t) k' = (if k' = k then None else get t k')"
    and inv_put: "inv t \<Longrightarrow> inv (put k v t)"
    and inv_del: "inv t \<Longrightarrow> inv (del k t)"
begin

lemma put_put_same: "inv t \<Longrightarrow> get (put k v (put k w t)) = get (put k v t)"
  by (rule ext) (simp add: get_put inv_put)

lemma put_commute: "inv t \<Longrightarrow> k \<noteq> k' \<Longrightarrow> get (put k v (put k' w t)) = get (put k' w (put k v t))"
  by (rule ext) (simp add: get_put inv_put)

lemma del_put: "inv t \<Longrightarrow> get (del k (put k v t)) = get (del k t)"
  by (rule ext) (simp add: get_put get_del inv_put)

lemma get_puts:
  "inv t \<Longrightarrow> get (fold (\<lambda>(k, v). put k v) kvs t) k' =
     (case map_of (rev kvs) k' of Some v \<Rightarrow> Some v | None \<Rightarrow> get t k')"
  by (induction kvs arbitrary: t)
     (auto simp: get_put inv_put map_add_def split: option.splits)

lemma inv_puts: "inv t \<Longrightarrow> inv (fold (\<lambda>(k, v). put k v) kvs t)"
  by (induction kvs arbitrary: t) (auto simp: inv_put)

end

end
