(* ===== verification/Strconv.thy ===== *)
theory Strconv
  imports Prelude
begin

text \<open>
  The decimal conversions of Go's \<open>strconv\<close> package and \<open>strings.TrimSpace\<close>, which the
  settings of the metadata store, the pending-file names, the channel ids and the captions of
  channel messages go through.  A Go string is a list of bytes, that is a HOL \<open>string\<close>.
  The theorems are the round trips and that a formatted number is made of digits only.
\<close>

definition is_digit :: "char \<Rightarrow> bool" where
  "is_digit c = (48 \<le> (of_char c :: int) \<and> (of_char c :: int) \<le> 57)"

definition digit_char :: "int \<Rightarrow> char" where
  "digit_char d = char_of (48 + d)"

definition digit_val :: "char \<Rightarrow> int" where
  "digit_val c = of_char c - 48"

text \<open>The digits of a number that is not negative.\<close>

function fmt_nat :: "int \<Rightarrow> string" where
  "fmt_nat n = (if n < 10 then [digit_char n] else fmt_nat (n div 10) @ [digit_char (n mod 10)])"
  by pat_completeness auto
termination by (relation "measure nat") auto

declare fmt_nat.simps [simp del]

definition fmt_int :: "int \<Rightarrow> string" where
  "fmt_int i = (if i < 0 then CHR ''-'' # fmt_nat (- i) else fmt_nat i)"

definition digits_val :: "string \<Rightarrow> int" where
  "digits_val s = foldl (\<lambda>a c. 10 * a + digit_val c) 0 s"

definition parse_digits :: "string \<Rightarrow> int option" where
  "parse_digits s = (if s \<noteq> [] \<and> list_all is_digit s then Some (digits_val s) else None)"

text \<open>
  \<open>strconv.ParseInt(s, 10, 64)\<close>, which is also \<open>strconv.Atoi\<close> on a 64-bit platform: an
  optional sign, at least one digit, the value within int64.
\<close>

definition parse_int :: "string \<Rightarrow> int option" where
  "parse_int s =
     (case s of
        [] \<Rightarrow> None
      | c # cs \<Rightarrow>
          let neg = (c = CHR ''-'');
              ds = (if c = CHR ''-'' \<or> c = CHR ''+'' then cs else s) in
          (case parse_digits ds of
             None \<Rightarrow> None
           | Some n \<Rightarrow>
               let v = (if neg then - n else n) in
               if - (2 ^ 63) \<le> v \<and> v < 2 ^ 63 then Some v else None))"

definition is_space :: "char \<Rightarrow> bool" where
  "is_space c = ((of_char c :: int) \<in> {9, 10, 11, 12, 13, 32})"

definition trim_space :: "string \<Rightarrow> string" where
  "trim_space s = rev (dropWhile is_space (rev (dropWhile is_space s)))"

lemma of_char_of_int: "0 \<le> n \<Longrightarrow> n < 256 \<Longrightarrow> of_char (char_of n :: char) = (n :: int)"
  by (simp add: take_bit_eq_mod)

lemma is_digit_digit_char [simp]: "0 \<le> d \<Longrightarrow> d < 10 \<Longrightarrow> is_digit (digit_char d)"
  by (simp add: is_digit_def digit_char_def of_char_of_int del: of_char_of)

lemma digit_val_digit_char [simp]: "0 \<le> d \<Longrightarrow> d < 10 \<Longrightarrow> digit_val (digit_char d) = d"
  by (simp add: digit_val_def digit_char_def of_char_of_int del: of_char_of)

lemma fmt_nat_nonempty [simp]: "fmt_nat n \<noteq> []"
  by (subst fmt_nat.simps) simp

lemma fmt_nat_digits: "0 \<le> n \<Longrightarrow> list_all is_digit (fmt_nat n)"
proof (induction n rule: fmt_nat.induct)
  case (1 n)
  then show ?case by (subst fmt_nat.simps) auto
qed

lemma digits_val_fmt_nat [simp]: "0 \<le> n \<Longrightarrow> digits_val (fmt_nat n) = n"
proof (induction n rule: fmt_nat.induct)
  case (1 n)
  show ?case
  proof (cases "n < 10")
    case True
    then show ?thesis using 1(2) by (subst fmt_nat.simps) (simp add: digits_val_def)
  next
    case False
    then have "digits_val (fmt_nat n) = 10 * digits_val (fmt_nat (n div 10)) + n mod 10"
      by (subst fmt_nat.simps) (simp add: digits_val_def)
    with 1 False show ?thesis by simp
  qed
qed

lemma parse_digits_fmt_nat [simp]: "0 \<le> n \<Longrightarrow> parse_digits (fmt_nat n) = Some n"
  by (simp add: parse_digits_def fmt_nat_digits)

lemma parse_digits_None: "c \<in> set s \<Longrightarrow> \<not> is_digit c \<Longrightarrow> parse_digits s = None"
  by (auto simp: parse_digits_def list_all_iff)

lemma sign_not_digit [simp]: "\<not> is_digit (CHR ''-'')" "\<not> is_digit (CHR ''+'')" "\<not> is_digit (CHR ''_'')"
  by (simp_all add: is_digit_def)

lemma fmt_nat_hd_digit: "0 \<le> n \<Longrightarrow> fmt_nat n = c # cs \<Longrightarrow> is_digit c"
  using fmt_nat_digits [of n] by simp

theorem parse_fmt_int:
  assumes "- (2 ^ 63) \<le> i" "i < 2 ^ 63"
  shows "parse_int (fmt_int i) = Some i"
proof (cases "i < 0")
  case True
  then show ?thesis using assms by (simp add: fmt_int_def parse_int_def Let_def)
next
  case False
  then have nonneg: "0 \<le> i" by simp
  obtain c cs where c: "fmt_nat i = c # cs" by (meson fmt_nat_nonempty list.exhaust)
  then have "c \<noteq> CHR ''-''" "c \<noteq> CHR ''+''"
    using fmt_nat_hd_digit [OF nonneg c] by auto
  moreover have "parse_digits (c # cs) = Some i"
    using parse_digits_fmt_nat [OF nonneg] c by simp
  ultimately show ?thesis using False assms c
    by (simp add: fmt_int_def parse_int_def Let_def)
qed

lemma digit_not_space: "is_digit c \<Longrightarrow> \<not> is_space c"
  by (auto simp: is_digit_def is_space_def)

lemma trim_space_id: "(\<forall>c\<in>set s. \<not> is_space c) \<Longrightarrow> trim_space s = s"
proof -
  assume a: "\<forall>c\<in>set s. \<not> is_space c"
  then have "dropWhile is_space s = s" by (cases s) auto
  moreover have "dropWhile is_space (rev s) = rev s" using a by (cases s rule: rev_cases) auto
  ultimately show ?thesis by (simp add: trim_space_def)
qed

lemma fmt_int_chars: "c \<in> set (fmt_int i) \<Longrightarrow> is_digit c \<or> c = CHR ''-''"
  using fmt_nat_digits [of i] fmt_nat_digits [of "- i"]
  by (auto simp: fmt_int_def list_all_iff split: if_splits)

lemma fmt_int_no_space: "c \<in> set (fmt_int i) \<Longrightarrow> \<not> is_space c"
  by (drule fmt_int_chars) (auto simp: digit_not_space, simp add: is_space_def)

lemma trim_fmt_int [simp]: "trim_space (fmt_int i) = fmt_int i"
  by (rule trim_space_id) (simp add: fmt_int_no_space)

lemma fmt_int_inj: "fmt_int i = fmt_int j \<Longrightarrow> - (2 ^ 63) \<le> i \<Longrightarrow> i < 2 ^ 63 \<Longrightarrow> - (2 ^ 63) \<le> j \<Longrightarrow> j < 2 ^ 63 \<Longrightarrow> i = j"
  by (metis option.inject parse_fmt_int)

end
