(* ===== verification/MetaStore.thy ===== *)
theory MetaStore
  imports Strconv
begin

text \<open>
  The metadata store of \<open>internal/meta\<close>: the rows of its SQLite tables (types.go, the schema
  in store.go, the entries of journal.go and journal_ops.go), the store itself, the transaction
  wrapper \<open>WithTx\<close>, the statement wrapper \<open>execWithRetry\<close>, and the key-value table of kv.go.

  A table is the list of its rows.  AUTOINCREMENT keeps the largest rowid ever assigned in
  \<open>sqlite_sequence\<close>; here that is \<open>st_ino_seq\<close> and \<open>st_jnl_seq\<close>.  A symlink target that is SQL
  NULL is the empty string, as the Go code reads it.  \<open>time.Now().Unix()\<close> is the argument \<open>now\<close>
  of the operations that call it.  Values of type int64 are integers without a bound.
\<close>

section \<open>Rows\<close>

datatype kind = KindFile | KindDir | KindSymlink

record inode =
  i_ino :: int
  i_kind :: kind
  i_mode :: "32 word"
  i_uid :: "32 word"
  i_gid :: "32 word"
  i_size :: int
  i_nlink :: int
  i_mtime :: int
  i_ctime :: int
  i_target :: string
  i_chunk_size :: int
  i_sparse :: bool

record dirent =
  d_parent :: int
  d_name :: string
  d_child :: int

text \<open>A row of chunk_map: \<open>c_pack\<close> is None when pack_offset and pack_size are SQL NULL.\<close>

record chunk_row =
  c_ino :: int
  c_idx :: int
  c_msg :: int
  c_size :: int
  c_pack :: "(int \<times> int) option"

record xattr =
  x_ino :: int
  x_name :: string
  x_value :: string

record kv_row =
  kv_key :: string
  kv_val :: string

record blob_row =
  b_hash :: string
  b_msg :: int
  b_size :: int

datatype op_kind = OpCreateChild | OpLink | OpUnlink | OpRename | OpSetSize | OpSetSparse

text \<open>
  A journal op; the JSON text of a row of the journal table is represented by the op it
  encodes (\<open>DecodeOp\<close> of a marshalled op gives the op back for names that are valid UTF-8).
\<close>

record journal_op =
  jo_op :: op_kind
  jo_parent :: int
  jo_name :: string
  jo_new_parent :: int
  jo_new_name :: string
  jo_ino :: int
  jo_target :: int
  jo_kind :: kind
  jo_mode :: "32 word"
  jo_uid :: "32 word"
  jo_gid :: "32 word"
  jo_size :: int
  jo_mtime :: int
  jo_symlink :: string
  jo_chunk_size :: int
  jo_sparse :: bool

definition zero_op :: "op_kind \<Rightarrow> journal_op" where
  "zero_op k = \<lparr>jo_op = k, jo_parent = 0, jo_name = [], jo_new_parent = 0, jo_new_name = [],
     jo_ino = 0, jo_target = 0, jo_kind = KindFile, jo_mode = 0, jo_uid = 0, jo_gid = 0,
     jo_size = 0, jo_mtime = 0, jo_symlink = [], jo_chunk_size = 0, jo_sparse = False\<rparr>"

record journal_row =
  j_seq :: int
  j_op :: journal_op
  j_posted :: "int option"

section \<open>The store\<close>

record store =
  st_inodes :: "inode list"
  st_ino_seq :: int
  st_dirents :: "dirent list"
  st_chunks :: "chunk_row list"
  st_xattrs :: "xattr list"
  st_journal :: "journal_row list"
  st_jnl_seq :: int
  st_kv :: "kv_row list"
  st_blobs :: "blob_row list"
  st_write_ctr :: int
  st_replaying :: bool

text \<open>The errors of the store, one constructor per sentinel or message.\<close>

datatype meta_err =
    ErrNotFound | ErrExists | ErrNotEmpty | ErrIsDir | ErrNotDir | ErrCycle
  | ErrForeignKey | ErrUnique | ErrScan | ErrHasChunks | ErrMalformed | ErrInvalid
  | ErrEmptyHash | ErrDiverges

definition RootIno :: int where "RootIno = 1"
definition DefaultChunkSize :: int where "DefaultChunkSize = 4194304"

abbreviation dkey :: "dirent \<Rightarrow> int \<times> string" where "dkey d \<equiv> (d_parent d, d_name d)"
abbreviation ckey :: "chunk_row \<Rightarrow> int \<times> int" where "ckey c \<equiv> (c_ino c, c_idx c)"
abbreviation xkey :: "xattr \<Rightarrow> int \<times> string" where "xkey x \<equiv> (x_ino x, x_name x)"

section \<open>Transactions and statements\<close>

text \<open>
  \<open>WithTx\<close>: the body runs on the store; an error rolls every change back, a success commits
  and advances the write counter.  A single statement run through \<open>execWithRetry\<close> returns the
  number of rows it affected and also advances the counter, whatever that number is; the
  uncounted variant does not.  The retries on SQLITE_BUSY are the subject of the theory Retry.
\<close>

definition with_tx :: "(store \<Rightarrow> meta_err + ('a \<times> store)) \<Rightarrow> store \<Rightarrow> (meta_err + 'a) \<times> store" where
  "with_tx fn s =
     (case fn s of
        Inl e \<Rightarrow> (Inl e, s)
      | Inr (a, s') \<Rightarrow> (Inr a, s'\<lparr>st_write_ctr := st_write_ctr s' + 1\<rparr>))"

definition exec_with_retry :: "(store \<Rightarrow> meta_err + (nat \<times> store)) \<Rightarrow> store \<Rightarrow> (meta_err + nat) \<times> store" where
  "exec_with_retry stmt s =
     (case stmt s of
        Inl e \<Rightarrow> (Inl e, s)
      | Inr (n, s') \<Rightarrow> (Inr n, s'\<lparr>st_write_ctr := st_write_ctr s' + 1\<rparr>))"

definition exec_uncounted :: "(store \<Rightarrow> meta_err + (nat \<times> store)) \<Rightarrow> store \<Rightarrow> (meta_err + nat) \<times> store" where
  "exec_uncounted stmt s =
     (case stmt s of
        Inl e \<Rightarrow> (Inl e, s)
      | Inr (n, s') \<Rightarrow> (Inr n, s'))"

text \<open>The two ways the callers read the affected-row count.\<close>

definition ignore_count :: "(meta_err + nat) \<times> store \<Rightarrow> (meta_err + unit) \<times> store" where
  "ignore_count r = (case r of (Inl e, s) \<Rightarrow> (Inl e, s) | (Inr _, s) \<Rightarrow> (Inr (), s))"

definition require_rows :: "(meta_err + nat) \<times> store \<Rightarrow> (meta_err + unit) \<times> store" where
  "require_rows r = (case r of (Inl e, s) \<Rightarrow> (Inl e, s)
     | (Inr n, s) \<Rightarrow> (if n = 0 then (Inl ErrNotFound, s) else (Inr (), s)))"

lemma with_tx_Inl: "with_tx fn s = (Inl e, s') \<Longrightarrow> s' = s"
  by (auto simp: with_tx_def split: sum.splits)

lemma with_tx_cases:
  assumes "with_tx fn s = (r, s')"
  obtains e where "r = Inl e" "s' = s" "fn s = Inl e"
  | a t where "r = Inr a" "fn s = Inr (a, t)" "s' = t\<lparr>st_write_ctr := st_write_ctr t + 1\<rparr>"
  using assms by (auto simp: with_tx_def split: sum.splits)

lemma with_tx_preserves:
  assumes "P s" and "\<And>a t. fn s = Inr (a, t) \<Longrightarrow> P (t\<lparr>st_write_ctr := st_write_ctr t + 1\<rparr>)"
  shows "P (snd (with_tx fn s))"
  using assms by (auto simp: with_tx_def split: sum.splits)

lemma exec_with_retry_preserves:
  assumes "P s" and "\<And>a t. fn s = Inr (a, t) \<Longrightarrow> P (t\<lparr>st_write_ctr := st_write_ctr t + 1\<rparr>)"
  shows "P (snd (exec_with_retry fn s))"
  using assms by (auto simp: exec_with_retry_def split: sum.splits)

lemma snd_ignore_count [simp]: "snd (ignore_count r) = snd r"
  by (auto simp: ignore_count_def split: prod.splits sum.splits)

lemma snd_require_rows [simp]: "snd (require_rows r) = snd r"
  by (auto simp: require_rows_def split: prod.splits sum.splits)

section \<open>Row existence and foreign keys\<close>

definition has_inode :: "store \<Rightarrow> int \<Rightarrow> bool" where
  "has_inode s ino = (row_at i_ino (st_inodes s) ino \<noteq> None)"

definition has_dir :: "store \<Rightarrow> int \<Rightarrow> bool" where
  "has_dir s ino = (case row_at i_ino (st_inodes s) ino of None \<Rightarrow> False | Some i \<Rightarrow> i_kind i = KindDir)"

text \<open>DELETE FROM inodes WHERE ino = ?: ON DELETE CASCADE empties the rows that refer to it.\<close>

definition delete_inode_row :: "int \<Rightarrow> store \<Rightarrow> store" where
  "delete_inode_row ino s = s\<lparr>
     st_inodes := del_where (\<lambda>i. i_ino i = ino) (st_inodes s),
     st_dirents := del_where (\<lambda>d. d_parent d = ino \<or> d_child d = ino) (st_dirents s),
     st_chunks := del_where (\<lambda>c. c_ino c = ino) (st_chunks s),
     st_xattrs := del_where (\<lambda>x. x_ino x = ino) (st_xattrs s)\<rparr>"

text \<open>INSERT INTO dirents: the primary key (parent_ino, name), both foreign keys.\<close>

definition insert_dirent :: "int \<Rightarrow> string \<Rightarrow> int \<Rightarrow> store \<Rightarrow> meta_err + store" where
  "insert_dirent parent name child s =
     (if row_at dkey (st_dirents s) (parent, name) \<noteq> None then Inl ErrUnique
      else if \<not> has_inode s parent \<or> \<not> has_inode s child then Inl ErrForeignKey
      else Inr (s\<lparr>st_dirents := st_dirents s @ [\<lparr>d_parent = parent, d_name = name, d_child = child\<rparr>]\<rparr>))"

section \<open>The key-value table (kv.go)\<close>

definition get_kv :: "string \<Rightarrow> store \<Rightarrow> meta_err + string" where
  "get_kv k s = (case row_at kv_key (st_kv s) k of None \<Rightarrow> Inl ErrNotFound | Some r \<Rightarrow> Inr (kv_val r))"

definition kv_upsert_stmt :: "string \<Rightarrow> string \<Rightarrow> store \<Rightarrow> meta_err + (nat \<times> store)" where
  "kv_upsert_stmt k v s = Inr (1, s\<lparr>st_kv := upsert kv_key \<lparr>kv_key = k, kv_val = v\<rparr> (st_kv s)\<rparr>)"

definition put_kv :: "string \<Rightarrow> string \<Rightarrow> store \<Rightarrow> (meta_err + unit) \<times> store" where
  "put_kv k v s = ignore_count (exec_with_retry (kv_upsert_stmt k v) s)"

definition put_kv_uncounted :: "string \<Rightarrow> string \<Rightarrow> store \<Rightarrow> (meta_err + unit) \<times> store" where
  "put_kv_uncounted k v s = ignore_count (exec_uncounted (kv_upsert_stmt k v) s)"

definition delete_kv :: "string \<Rightarrow> store \<Rightarrow> (meta_err + unit) \<times> store" where
  "delete_kv k s = require_rows (exec_with_retry
     (\<lambda>s. Inr (cnt_where (\<lambda>r. kv_key r = k) (st_kv s),
               s\<lparr>st_kv := del_where (\<lambda>r. kv_key r = k) (st_kv s)\<rparr>)) s)"

text \<open>The table as a slot store; \<open>kv_opt\<close> is what a client of \<open>GetKV\<close> sees.\<close>

definition kv_opt :: "store \<Rightarrow> string \<Rightarrow> string option" where
  "kv_opt s k = map_option kv_val (row_at kv_key (st_kv s) k)"

lemma get_kv_opt: "get_kv k s = (case kv_opt s k of None \<Rightarrow> Inl ErrNotFound | Some v \<Rightarrow> Inr v)"
  by (simp add: get_kv_def kv_opt_def split: option.splits)

lemma put_kv_result [simp]: "fst (put_kv k v s) = Inr ()"
  by (simp add: put_kv_def exec_with_retry_def kv_upsert_stmt_def ignore_count_def)

lemma put_kv_state: "snd (put_kv k v s) =
  s\<lparr>st_kv := upsert kv_key \<lparr>kv_key = k, kv_val = v\<rparr> (st_kv s), st_write_ctr := st_write_ctr s + 1\<rparr>"
  by (simp add: put_kv_def exec_with_retry_def kv_upsert_stmt_def ignore_count_def)

lemma delete_kv_state: "snd (delete_kv k s) =
  s\<lparr>st_kv := del_where (\<lambda>r. kv_key r = k) (st_kv s), st_write_ctr := st_write_ctr s + 1\<rparr>"
  by (simp add: delete_kv_def exec_with_retry_def)

lemma delete_kv_result: "fst (delete_kv k s) = (if kv_opt s k = None then Inl ErrNotFound else Inr ())"
  by (auto simp: delete_kv_def exec_with_retry_def require_rows_def kv_opt_def cnt_where_0 row_at_None_iff)

lemma kv_opt_put: "kv_opt (snd (put_kv k v s)) k' = (if k' = k then Some v else kv_opt s k')"
  by (simp add: kv_opt_def put_kv_state tbl)

lemma kv_opt_delete: "kv_opt (snd (delete_kv k s)) k' = (if k' = k then None else kv_opt s k')"
  by (auto simp: kv_opt_def delete_kv_state tbl)

interpretation kvs: slot_store kv_opt "\<lambda>k v s. snd (put_kv k v s)" "\<lambda>k s. snd (delete_kv k s)"
    "\<lambda>s. keyed kv_key (st_kv s)"
  by unfold_locales (simp_all only: kv_opt_put kv_opt_delete, auto simp: put_kv_state delete_kv_state)

lemma get_kv_after_put: "get_kv k (snd (put_kv k v s)) = Inr v"
  by (simp add: get_kv_opt kv_opt_put)

end
