(* ===== verification/InodeOps.thy ===== *)
theory InodeOps
  imports MetaStore
begin

text \<open>
  The inode operations of \<open>internal/meta/inode.go\<close> and the append to the journal of
  \<open>journal.go\<close> that the mutations run inside their transaction.  A field of the patch of
  \<open>SetAttrs\<close> that is nil in Go is None here.
\<close>

section \<open>Journal append\<close>

definition append_journal_tx :: "journal_op \<Rightarrow> store \<Rightarrow> store" where
  "append_journal_tx op s =
     (if st_replaying s then s
      else s\<lparr>st_journal := st_journal s @ [\<lparr>j_seq = st_jnl_seq s + 1, j_op = op, j_posted = None\<rparr>],
             st_jnl_seq := st_jnl_seq s + 1\<rparr>)"

lemma append_journal_simps [simp]:
  "st_inodes (append_journal_tx op s) = st_inodes s"
  "st_ino_seq (append_journal_tx op s) = st_ino_seq s"
  "st_dirents (append_journal_tx op s) = st_dirents s"
  "st_chunks (append_journal_tx op s) = st_chunks s"
  "st_xattrs (append_journal_tx op s) = st_xattrs s"
  "st_kv (append_journal_tx op s) = st_kv s"
  "st_blobs (append_journal_tx op s) = st_blobs s"
  "st_write_ctr (append_journal_tx op s) = st_write_ctr s"
  "st_replaying (append_journal_tx op s) = st_replaying s"
  by (simp_all add: append_journal_tx_def)

section \<open>Reading and creating inodes\<close>

definition get_inode :: "int \<Rightarrow> store \<Rightarrow> meta_err + inode" where
  "get_inode ino s = (case row_at i_ino (st_inodes s) ino of None \<Rightarrow> Inl ErrNotFound | Some i \<Rightarrow> Inr i)"

text \<open>\<open>createInode\<close>: zero times default to now, a zero nlink to 1, a chunk size that is not
  positive to the column default; the row gets the next AUTOINCREMENT rowid.\<close>

definition create_inode :: "int \<Rightarrow> inode \<Rightarrow> store \<Rightarrow> int \<times> store" where
  "create_inode now child s =
     (let ino = st_ino_seq s + 1;
          row = child\<lparr>i_ino := ino,
            i_mtime := (if i_mtime child = 0 then now else i_mtime child),
            i_ctime := (if i_ctime child = 0 then now else i_ctime child),
            i_nlink := (if i_nlink child = 0 then 1 else i_nlink child),
            i_chunk_size := (if i_chunk_size child > 0 then i_chunk_size child else DefaultChunkSize)\<rparr>
      in (ino, s\<lparr>st_inodes := st_inodes s @ [row], st_ino_seq := ino\<rparr>))"

section \<open>Flags, chunk size and attributes\<close>

definition upd_inode :: "int \<Rightarrow> (inode \<Rightarrow> inode) \<Rightarrow> store \<Rightarrow> store" where
  "upd_inode ino f s = s\<lparr>st_inodes := upd_where (\<lambda>i. i_ino i = ino) f (st_inodes s)\<rparr>"

abbreviation inode_rows :: "int \<Rightarrow> store \<Rightarrow> nat" where
  "inode_rows ino s \<equiv> cnt_where (\<lambda>i. i_ino i = ino) (st_inodes s)"

definition set_inode_sparse :: "int \<Rightarrow> store \<Rightarrow> (meta_err + unit) \<times> store" where
  "set_inode_sparse ino = with_tx (\<lambda>s.
     let s1 = upd_inode ino (\<lambda>i. i\<lparr>i_sparse := True\<rparr>) s in
     if inode_rows ino s = 0 then Inl ErrNotFound
     else Inr ((), append_journal_tx ((zero_op OpSetSparse)\<lparr>jo_ino := ino, jo_sparse := True\<rparr>) s1))"

definition set_inode_chunk_size :: "int \<Rightarrow> int \<Rightarrow> store \<Rightarrow> (meta_err + unit) \<times> store" where
  "set_inode_chunk_size ino sz = with_tx (\<lambda>s.
     if cnt_where (\<lambda>c. c_ino c = ino) (st_chunks s) > 0 then Inl ErrHasChunks
     else Inr ((), upd_inode ino (\<lambda>i. i\<lparr>i_chunk_size := sz\<rparr>) s))"

record attrs_patch =
  p_mode :: "32 word option"
  p_uid :: "32 word option"
  p_gid :: "32 word option"
  p_size :: "int option"
  p_mtime :: "int option"

definition opt_set :: "'a option \<Rightarrow> 'a \<Rightarrow> 'a" where
  "opt_set o' old = (case o' of None \<Rightarrow> old | Some v \<Rightarrow> v)"

definition apply_patch :: "int \<Rightarrow> attrs_patch \<Rightarrow> inode \<Rightarrow> inode" where
  "apply_patch now p i = i\<lparr>i_ctime := now,
     i_mode := opt_set (p_mode p) (i_mode i),
     i_uid := opt_set (p_uid p) (i_uid i),
     i_gid := opt_set (p_gid p) (i_gid i),
     i_size := opt_set (p_size p) (i_size i),
     i_mtime := opt_set (p_mtime p) (i_mtime i)\<rparr>"

definition set_attrs :: "int \<Rightarrow> int \<Rightarrow> attrs_patch \<Rightarrow> store \<Rightarrow> (meta_err + unit) \<times> store" where
  "set_attrs now ino p s = require_rows (exec_with_retry
     (\<lambda>s. Inr (inode_rows ino s, upd_inode ino (apply_patch now p) s)) s)"

text \<open>\<open>SetSize\<close> is two commits: the attribute update, then the journal op.\<close>

definition set_size :: "int \<Rightarrow> int \<Rightarrow> int \<Rightarrow> store \<Rightarrow> (meta_err + unit) \<times> store" where
  "set_size now ino sz s =
     (case set_attrs now ino \<lparr>p_mode = None, p_uid = None, p_gid = None, p_size = Some sz, p_mtime = Some now\<rparr> s of
        (Inl e, s1) \<Rightarrow> (Inl e, s1)
      | (Inr _, s1) \<Rightarrow> with_tx (\<lambda>s. Inr ((), append_journal_tx
          ((zero_op OpSetSize)\<lparr>jo_ino := ino, jo_size := sz, jo_mtime := now\<rparr>) s)) s1)"

section \<open>Lemmas\<close>

lemma get_inode_Inr: "get_inode ino s = Inr i \<longleftrightarrow> row_at i_ino (st_inodes s) ino = Some i"
  by (auto simp: get_inode_def split: option.splits)

lemma get_inode_Inl: "get_inode ino s = Inl e \<longleftrightarrow> e = ErrNotFound \<and> \<not> has_inode s ino"
  by (auto simp: get_inode_def has_inode_def split: option.splits)

lemma inode_rows_0: "inode_rows ino s = 0 \<longleftrightarrow> \<not> has_inode s ino"
  by (auto simp: cnt_where_0 has_inode_def row_at_None_iff)

lemma upd_inode_simps [simp]:
  "st_dirents (upd_inode ino f s) = st_dirents s"
  "st_chunks (upd_inode ino f s) = st_chunks s"
  "st_xattrs (upd_inode ino f s) = st_xattrs s"
  "st_journal (upd_inode ino f s) = st_journal s"
  "st_jnl_seq (upd_inode ino f s) = st_jnl_seq s"
  "st_ino_seq (upd_inode ino f s) = st_ino_seq s"
  "st_kv (upd_inode ino f s) = st_kv s"
  "st_blobs (upd_inode ino f s) = st_blobs s"
  "st_write_ctr (upd_inode ino f s) = st_write_ctr s"
  "st_replaying (upd_inode ino f s) = st_replaying s"
  by (simp_all add: upd_inode_def)

lemma row_at_upd_inode [tbl]:
  assumes "\<And>i. i_ino (f i) = i_ino i"
  shows "row_at i_ino (st_inodes (upd_inode ino f s)) k =
    (if k = ino then map_option f (row_at i_ino (st_inodes s) k) else row_at i_ino (st_inodes s) k)"
  unfolding upd_inode_def
  using row_at_upd [where P = "\<lambda>k. k = ino" and key = i_ino and f = f and p = "\<lambda>i. i_ino i = ino"] assms
  by simp

lemma apply_patch_simps [simp]:
  "i_ino (apply_patch now p i) = i_ino i" "i_kind (apply_patch now p i) = i_kind i"
  "i_nlink (apply_patch now p i) = i_nlink i" "i_target (apply_patch now p i) = i_target i"
  "i_chunk_size (apply_patch now p i) = i_chunk_size i" "i_sparse (apply_patch now p i) = i_sparse i"
  by (simp_all add: apply_patch_def)

lemma set_attrs_state: "snd (set_attrs now ino p s) =
   (upd_inode ino (apply_patch now p) s)\<lparr>st_write_ctr := st_write_ctr s + 1\<rparr>"
  by (simp add: set_attrs_def exec_with_retry_def)

lemma set_attrs_result: "fst (set_attrs now ino p s) = (if has_inode s ino then Inr () else Inl ErrNotFound)"
  by (simp add: set_attrs_def exec_with_retry_def require_rows_def inode_rows_0)

end
