(* ===== verification/Namespace.thy ===== *)
theory Namespace
  imports InodeOps
begin

text \<open>
  The directory tree: the operations of \<open>internal/meta/dirent.go\<close>.  An operation that may
  remove an inode returns the number it hands to the \<open>onInodeDeleted\<close> callback, 0 when it
  calls nothing.
\<close>

section \<open>Reading\<close>

text \<open>\<open>lookup\<close> is one JOIN of dirents and inodes on (parent_ino, name).\<close>

definition lookup :: "int \<Rightarrow> string \<Rightarrow> store \<Rightarrow> meta_err + inode" where
  "lookup parent name s =
     (case row_at dkey (st_dirents s) (parent, name) of
        None \<Rightarrow> Inl ErrNotFound
      | Some d \<Rightarrow> (case row_at i_ino (st_inodes s) (d_child d) of
                     None \<Rightarrow> Inl ErrNotFound
                   | Some i \<Rightarrow> Inr i))"

definition readdir :: "int \<Rightarrow> store \<Rightarrow> dirent list" where
  "readdir parent s = filter (\<lambda>d. d_parent d = parent) (st_dirents s)"

record dirent_info =
  di_name :: string
  di_ino :: int
  di_kind :: kind
  di_mode :: "32 word"
  di_size :: int

definition dirent_info_of :: "store \<Rightarrow> dirent \<Rightarrow> dirent_info list" where
  "dirent_info_of s d =
     (case row_at i_ino (st_inodes s) (d_child d) of
        None \<Rightarrow> []
      | Some i \<Rightarrow> [\<lparr>di_name = d_name d, di_ino = i_ino i, di_kind = i_kind i,
                   di_mode = i_mode i, di_size = i_size i\<rparr>])"

definition readdir_info :: "int \<Rightarrow> store \<Rightarrow> dirent_info list" where
  "readdir_info parent s = sort_key di_name (concat (map (dirent_info_of s) (readdir parent s)))"

definition dir_children :: "int \<Rightarrow> store \<Rightarrow> nat" where
  "dir_children ino s = cnt_where (\<lambda>d. d_parent d = ino) (st_dirents s)"

section \<open>Create\<close>

definition normalize_child :: "int \<Rightarrow> inode \<Rightarrow> inode" where
  "normalize_child now child = child\<lparr>
     i_mtime := (if i_mtime child = 0 then now else i_mtime child),
     i_ctime := (if i_ctime child = 0 then now else i_ctime child),
     i_chunk_size := (if i_chunk_size child \<le> 0 then DefaultChunkSize else i_chunk_size child)\<rparr>"

definition create_op :: "int \<Rightarrow> string \<Rightarrow> int \<Rightarrow> inode \<Rightarrow> journal_op" where
  "create_op parent name ino child = (zero_op OpCreateChild)\<lparr>
     jo_parent := parent, jo_name := name, jo_ino := ino, jo_kind := i_kind child,
     jo_mode := i_mode child, jo_uid := i_uid child, jo_gid := i_gid child,
     jo_mtime := i_mtime child, jo_symlink := i_target child,
     jo_chunk_size := i_chunk_size child, jo_sparse := i_sparse child\<rparr>"

definition create_child_tx :: "int \<Rightarrow> int \<Rightarrow> string \<Rightarrow> inode \<Rightarrow> store \<Rightarrow> meta_err + (int \<times> store)" where
  "create_child_tx now parent name child s =
     (case get_inode parent s of
        Inl e \<Rightarrow> Inl e
      | Inr pin \<Rightarrow>
          if i_kind pin \<noteq> KindDir then Inl ErrNotDir
          else (case lookup parent name s of
             Inr _ \<Rightarrow> Inl ErrExists
           | Inl e \<Rightarrow>
               if e \<noteq> ErrNotFound then Inl e
               else let (ino, s1) = create_inode now child s in
                 (case insert_dirent parent name ino s1 of
                    Inl e \<Rightarrow> Inl e
                  | Inr s2 \<Rightarrow> Inr (ino, append_journal_tx (create_op parent name ino child) s2))))"

definition create_child :: "int \<Rightarrow> int \<Rightarrow> string \<Rightarrow> inode \<Rightarrow> store \<Rightarrow> (meta_err + int) \<times> store" where
  "create_child now parent name child = with_tx (create_child_tx now parent name (normalize_child now child))"

text \<open>\<open>createChildAt\<close>, the replay variant: the inode number is given.\<close>

definition create_child_at_tx :: "int \<Rightarrow> string \<Rightarrow> inode \<Rightarrow> int \<Rightarrow> store \<Rightarrow> meta_err + (unit \<times> store)" where
  "create_child_at_tx parent name child ino s =
     (case get_inode parent s of
        Inl e \<Rightarrow> Inl e
      | Inr pin \<Rightarrow>
          if i_kind pin \<noteq> KindDir then Inl ErrNotDir
          else (case lookup parent name s of
             Inr _ \<Rightarrow> Inl ErrExists
           | Inl e \<Rightarrow>
               if e \<noteq> ErrNotFound then Inl e
               else (case get_inode ino s of
                  Inr _ \<Rightarrow> Inl ErrExists
                | Inl e \<Rightarrow>
                    if e \<noteq> ErrNotFound then Inl e
                    else let row = child\<lparr>i_ino := ino,
                               i_chunk_size := (if i_chunk_size child \<le> 0 then DefaultChunkSize else i_chunk_size child),
                               i_nlink := (if i_nlink child = 0 then 1 else i_nlink child)\<rparr>;
                             s1 = s\<lparr>st_inodes := st_inodes s @ [row], st_ino_seq := max (st_ino_seq s) ino\<rparr> in
                      (case insert_dirent parent name ino s1 of
                         Inl e \<Rightarrow> Inl e
                       | Inr s2 \<Rightarrow> Inr ((), s2)))))"

definition create_child_at :: "int \<Rightarrow> string \<Rightarrow> inode \<Rightarrow> int \<Rightarrow> store \<Rightarrow> (meta_err + unit) \<times> store" where
  "create_child_at parent name child ino = with_tx (create_child_at_tx parent name child ino)"

section \<open>Link and unlink\<close>

definition link_tx :: "int \<Rightarrow> string \<Rightarrow> int \<Rightarrow> store \<Rightarrow> meta_err + (unit \<times> store)" where
  "link_tx parent name target s =
     (case get_inode parent s of
        Inl e \<Rightarrow> Inl e
      | Inr pin \<Rightarrow>
          if i_kind pin \<noteq> KindDir then Inl ErrNotDir
          else (case get_inode target s of
             Inl e \<Rightarrow> Inl e
           | Inr tin \<Rightarrow>
               if i_kind tin = KindDir then Inl ErrIsDir
               else (case lookup parent name s of
                  Inr _ \<Rightarrow> Inl ErrExists
                | Inl e \<Rightarrow>
                    if e \<noteq> ErrNotFound then Inl e
                    else (case insert_dirent parent name target s of
                       Inl e \<Rightarrow> Inl e
                     | Inr s1 \<Rightarrow> Inr ((), append_journal_tx
                         ((zero_op OpLink)\<lparr>jo_parent := parent, jo_name := name, jo_target := target\<rparr>)
                         (upd_inode target (\<lambda>i. i\<lparr>i_nlink := i_nlink i + 1\<rparr>) s1))))))"

definition link :: "int \<Rightarrow> string \<Rightarrow> int \<Rightarrow> store \<Rightarrow> (meta_err + unit) \<times> store" where
  "link parent name target = with_tx (link_tx parent name target)"

text \<open>\<open>unlinkInTx\<close>: a negative link count fails to scan into the uint32 of the Go code.\<close>

definition unlink_in_tx :: "int \<Rightarrow> string \<Rightarrow> store \<Rightarrow> meta_err + ((int \<times> bool) \<times> store)" where
  "unlink_in_tx parent name s =
     (case lookup parent name s of
        Inl e \<Rightarrow> Inl e
      | Inr child \<Rightarrow>
          if i_kind child = KindDir \<and> dir_children (i_ino child) s > 0 then Inl ErrNotEmpty
          else
            let s1 = s\<lparr>st_dirents := del_where (\<lambda>d. dkey d = (parent, name)) (st_dirents s)\<rparr>;
                s2 = upd_inode (i_ino child) (\<lambda>i. i\<lparr>i_nlink := i_nlink i - 1\<rparr>) s1 in
            (case get_inode (i_ino child) s2 of
               Inl e \<Rightarrow> Inl ErrNotFound
             | Inr i \<Rightarrow>
                 if i_nlink i < 0 then Inl ErrScan
                 else if i_nlink i = 0 then Inr ((i_ino child, True), delete_inode_row (i_ino child) s2)
                 else Inr ((i_ino child, False), s2)))"

definition unlink_tx :: "int \<Rightarrow> string \<Rightarrow> store \<Rightarrow> meta_err + (int \<times> store)" where
  "unlink_tx parent name s =
     (case unlink_in_tx parent name s of
        Inl e \<Rightarrow> Inl e
      | Inr ((ino, deleted), s1) \<Rightarrow>
          Inr (if deleted then ino else 0,
               append_journal_tx ((zero_op OpUnlink)\<lparr>jo_parent := parent, jo_name := name\<rparr>) s1))"

definition unlink :: "int \<Rightarrow> string \<Rightarrow> store \<Rightarrow> (meta_err + int) \<times> store" where
  "unlink parent name = with_tx (unlink_tx parent name)"

section \<open>Rename\<close>

text \<open>
  \<open>isAncestor\<close> walks parent links upward.  The Go loop has no bound; the fuel is the number of
  dirents plus one, and None stands for a walk that is still running then, which can only be a
  walk that never ends.
\<close>

fun is_ancestor_fuel :: "nat \<Rightarrow> store \<Rightarrow> int \<Rightarrow> int \<Rightarrow> bool option" where
  "is_ancestor_fuel 0 s anc cur = None"
| "is_ancestor_fuel (Suc n) s anc cur =
     (if cur \<noteq> 0 \<and> cur \<noteq> RootIno then
        if cur = anc then Some True
        else (case row_at d_child (st_dirents s) cur of
                None \<Rightarrow> Some False
              | Some d \<Rightarrow> is_ancestor_fuel n s anc (d_parent d))
      else Some (cur = anc))"

definition is_ancestor :: "store \<Rightarrow> int \<Rightarrow> int \<Rightarrow> bool option" where
  "is_ancestor s anc start = is_ancestor_fuel (length (st_dirents s) + 2) s anc start"

text \<open>UPDATE dirents SET parent_ino = ?, name = ? WHERE parent_ino = ? AND name = ?.\<close>

definition move_dirent :: "int \<Rightarrow> string \<Rightarrow> int \<Rightarrow> string \<Rightarrow> store \<Rightarrow> meta_err + store" where
  "move_dirent old_parent old_name new_parent new_name s =
     (if row_at dkey (st_dirents s) (old_parent, old_name) = None then Inr s
      else if row_at dkey (st_dirents s) (new_parent, new_name) \<noteq> None
              \<and> (old_parent, old_name) \<noteq> (new_parent, new_name) then Inl ErrUnique
      else if \<not> has_inode s new_parent then Inl ErrForeignKey
      else Inr (s\<lparr>st_dirents := upd_where (\<lambda>d. dkey d = (old_parent, old_name))
                  (\<lambda>d. d\<lparr>d_parent := new_parent, d_name := new_name\<rparr>) (st_dirents s)\<rparr>))"

definition rename_finish :: "int \<Rightarrow> string \<Rightarrow> int \<Rightarrow> string \<Rightarrow> int \<Rightarrow> store \<Rightarrow> meta_err + (int \<times> store)" where
  "rename_finish old_parent old_name new_parent new_name deleted_ino s =
     (case move_dirent old_parent old_name new_parent new_name s of
        Inl e \<Rightarrow> Inl e
      | Inr s1 \<Rightarrow> Inr (deleted_ino, append_journal_tx
          ((zero_op OpRename)\<lparr>jo_parent := old_parent, jo_name := old_name,
             jo_new_parent := new_parent, jo_new_name := new_name\<rparr>) s1))"

definition rename_over :: "int \<Rightarrow> string \<Rightarrow> int \<Rightarrow> string \<Rightarrow> inode \<Rightarrow> inode \<Rightarrow> store \<Rightarrow> meta_err + (int \<times> store)" where
  "rename_over old_parent old_name new_parent new_name src dst s =
     (if i_ino dst = i_ino src then Inr (0, s)
      else if i_kind dst = KindDir \<and> i_kind src \<noteq> KindDir then Inl ErrIsDir
      else if i_kind dst = KindDir \<and> dir_children (i_ino dst) s > 0 then Inl ErrNotEmpty
      else if i_kind dst \<noteq> KindDir \<and> i_kind src = KindDir then Inl ErrNotDir
      else (case unlink_in_tx new_parent new_name s of
              Inl e \<Rightarrow> Inl e
            | Inr ((ino, deleted), s1) \<Rightarrow>
                rename_finish old_parent old_name new_parent new_name (if deleted then ino else 0) s1))"

definition rename_tx :: "int \<Rightarrow> string \<Rightarrow> int \<Rightarrow> string \<Rightarrow> store \<Rightarrow> meta_err + (int \<times> store)" where
  "rename_tx old_parent old_name new_parent new_name s =
     (case lookup old_parent old_name s of
        Inl e \<Rightarrow> Inl e
      | Inr src \<Rightarrow>
          (case get_inode new_parent s of
             Inl e \<Rightarrow> Inl e
           | Inr np \<Rightarrow>
               if i_kind np \<noteq> KindDir then Inl ErrNotDir
               else if i_kind src = KindDir \<and> is_ancestor s (i_ino src) new_parent = None then Inl ErrDiverges
               else if i_kind src = KindDir \<and> is_ancestor s (i_ino src) new_parent = Some True then Inl ErrCycle
               else (case lookup new_parent new_name s of
                  Inr dst \<Rightarrow> rename_over old_parent old_name new_parent new_name src dst s
                | Inl e \<Rightarrow>
                    if e \<noteq> ErrNotFound then Inl e
                    else rename_finish old_parent old_name new_parent new_name 0 s)))"

definition rename :: "int \<Rightarrow> string \<Rightarrow> int \<Rightarrow> string \<Rightarrow> store \<Rightarrow> (meta_err + int) \<times> store" where
  "rename old_parent old_name new_parent new_name s =
     (if old_parent = new_parent \<and> old_name = new_name then (Inr 0, s)
      else with_tx (rename_tx old_parent old_name new_parent new_name) s)"

end
