(* ===== verification/TreeInv.thy ===== *)
theory TreeInv
  imports Namespace
begin

text \<open>
  The invariant of the directory tree and what each elementary change of the two tables
  (inodes and dirents) does to it.  \<open>tree_ok\<close> says: inode numbers and (parent, name) pairs are
  unique; the root is a directory; a dirent goes from a directory to an existing inode that is
  not the root; the link count of an inode is the number of its dirents and positive; a
  directory has one dirent; no directory is inside itself.
\<close>

definition refs :: "dirent list \<Rightarrow> int \<Rightarrow> nat" where
  "refs D c = cnt_where (\<lambda>d. d_child d = c) D"

definition tree_rel :: "dirent list \<Rightarrow> (int \<times> int) set" where
  "tree_rel D = (\<lambda>d. (d_parent d, d_child d)) ` set D"

definition ino_in :: "inode list \<Rightarrow> int \<Rightarrow> bool" where
  "ino_in I k = (\<exists>i\<in>set I. i_ino i = k)"

definition dir_in :: "inode list \<Rightarrow> int \<Rightarrow> bool" where
  "dir_in I k = (\<exists>i\<in>set I. i_ino i = k \<and> i_kind i = KindDir)"

definition links_ok :: "inode list \<Rightarrow> dirent list \<Rightarrow> bool" where
  "links_ok I D = (\<forall>i\<in>set I. i_ino i \<noteq> RootIno \<longrightarrow>
     i_nlink i = int (refs D (i_ino i)) \<and> 0 < refs D (i_ino i) \<and>
     (i_kind i = KindDir \<longrightarrow> refs D (i_ino i) \<le> 1))"

definition tree_ok :: "inode list \<Rightarrow> int \<Rightarrow> dirent list \<Rightarrow> bool" where
  "tree_ok I q D \<longleftrightarrow>
     keyed i_ino I \<and> (\<forall>i\<in>set I. 1 \<le> i_ino i \<and> i_ino i \<le> q) \<and> dir_in I RootIno \<and>
     keyed dkey D \<and>
     (\<forall>d\<in>set D. dir_in I (d_parent d) \<and> ino_in I (d_child d) \<and> d_child d \<noteq> RootIno) \<and>
     links_ok I D \<and> acyclic (tree_rel D)"

lemma refs_append [simp]: "refs (D @ [d]) c = refs D c + (if d_child d = c then 1 else 0)"
  by (simp add: refs_def cnt_where_Cons)

lemma tree_rel_append [simp]: "tree_rel (D @ [d]) = insert (d_parent d, d_child d) (tree_rel D)"
  by (simp add: tree_rel_def)

lemma refs_0: "refs D c = 0 \<longleftrightarrow> (\<forall>d\<in>set D. d_child d \<noteq> c)"
  by (simp add: refs_def cnt_where_0)

lemma dir_in_ino_in: "dir_in I k \<Longrightarrow> ino_in I k"
  by (auto simp: dir_in_def ino_in_def)

lemma ino_in_append [simp]: "ino_in (I @ [i]) k \<longleftrightarrow> ino_in I k \<or> i_ino i = k"
  by (auto simp: ino_in_def)

lemma dir_in_append [simp]: "dir_in (I @ [i]) k \<longleftrightarrow> dir_in I k \<or> (i_ino i = k \<and> i_kind i = KindDir)"
  by (auto simp: dir_in_def)

lemma ino_in_upd: "(\<And>i. i_ino (f i) = i_ino i) \<Longrightarrow> ino_in (upd_where p f I) k = ino_in I k"
  by (simp add: ino_in_def bex_upd_where)

lemma dir_in_upd: "(\<And>i. i_ino (f i) = i_ino i) \<Longrightarrow> (\<And>i. i_kind (f i) = i_kind i) \<Longrightarrow>
    dir_in (upd_where p f I) k = dir_in I k"
  by (simp add: dir_in_def bex_upd_where)

lemma ino_in_del: "ino_in (del_where (\<lambda>i. i_ino i = c) I) k \<longleftrightarrow> ino_in I k \<and> k \<noteq> c"
  by (auto simp: ino_in_def)

lemma dir_in_del: "dir_in (del_where (\<lambda>i. i_ino i = c) I) k \<longleftrightarrow> dir_in I k \<and> k \<noteq> c"
  by (auto simp: dir_in_def)

lemma dir_in_unique: "keyed i_ino I \<Longrightarrow> dir_in I (i_ino i) \<Longrightarrow> i \<in> set I \<Longrightarrow> i_kind i = KindDir"
  by (metis dir_in_def keyed_unique)

lemma has_inode_in: "has_inode s k = ino_in (st_inodes s) k"
  by (auto simp: has_inode_def ino_in_def row_at_None_iff)

lemma tree_ok_inode_range: "tree_ok I q D \<Longrightarrow> ino_in I k \<Longrightarrow> 1 \<le> k \<and> k \<le> q"
  by (auto simp: tree_ok_def ino_in_def)

lemma tree_okD:
  assumes "tree_ok I q D"
  shows "keyed i_ino I" "keyed dkey D" "links_ok I D" "acyclic (tree_rel D)" "dir_in I RootIno"
    "\<And>d. d \<in> set D \<Longrightarrow> dir_in I (d_parent d)" "\<And>d. d \<in> set D \<Longrightarrow> ino_in I (d_child d)"
    "\<And>d. d \<in> set D \<Longrightarrow> d_child d \<noteq> RootIno"
  using assms by (auto simp: tree_ok_def)

lemma tree_okI:
  assumes "keyed i_ino I" "\<forall>i\<in>set I. 1 \<le> i_ino i \<and> i_ino i \<le> q" "dir_in I RootIno" "keyed dkey D"
    "\<forall>d\<in>set D. dir_in I (d_parent d) \<and> ino_in I (d_child d) \<and> d_child d \<noteq> RootIno"
    "links_ok I D" "acyclic (tree_rel D)"
  shows "tree_ok I q D"
  using assms by (simp add: tree_ok_def)

lemma tree_ok_range: "tree_ok I q D \<Longrightarrow> \<forall>i\<in>set I. 1 \<le> i_ino i \<and> i_ino i \<le> q"
  by (simp add: tree_ok_def)

lemma tree_ok_edges: "tree_ok I q D \<Longrightarrow>
    \<forall>d\<in>set D. dir_in I (d_parent d) \<and> ino_in I (d_child d) \<and> d_child d \<noteq> RootIno"
  by (simp add: tree_ok_def)

text \<open>A new edge into a node without outgoing edges closes no cycle.\<close>

lemma acyclic_into_leaf:
  assumes "acyclic R" "c \<noteq> p" "\<And>y. (c, y) \<notin> R"
  shows "acyclic (insert (p, c) R)"
proof -
  have "(c, p) \<notin> R\<^sup>*"
    using assms(2,3) by (metis converse_rtranclE)
  then show ?thesis using assms(1) by (simp add: acyclic_insert)
qed

lemma no_out_edge: "(\<And>d. d \<in> set D \<Longrightarrow> d_parent d \<noteq> c) \<Longrightarrow> (c, y) \<notin> tree_rel D"
  by (auto simp: tree_rel_def)

section \<open>Adding an inode with its dirent\<close>

lemma tree_ok_create:
  assumes ok: "tree_ok I q D" and fresh: "\<not> ino_in I (i_ino r)" and pos: "1 \<le> i_ino r"
    and nl: "i_nlink r = 1" and p: "dir_in I p" and k: "row_at dkey D (p, n) = None"
  shows "tree_ok (I @ [r]) (max q (i_ino r)) (D @ [\<lparr>d_parent = p, d_name = n, d_child = i_ino r\<rparr>])"
proof -
  have noref: "\<forall>d\<in>set D. d_child d \<noteq> i_ino r" "\<forall>d\<in>set D. d_parent d \<noteq> i_ino r" "i_ino r \<noteq> p"
    using tree_okD(6,7) [OF ok] fresh p dir_in_ino_in by metis+
  have root: "i_ino r \<noteq> RootIno"
    using tree_okD(5) [OF ok] fresh dir_in_ino_in by metis
  have "acyclic (insert (p, i_ino r) (tree_rel D))"
    by (rule acyclic_into_leaf) (use tree_okD(4) [OF ok] noref in \<open>auto simp: tree_rel_def\<close>)
  moreover have "links_ok (I @ [r]) (D @ [\<lparr>d_parent = p, d_name = n, d_child = i_ino r\<rparr>])"
  proof -
    have "refs D (i_ino r) = 0" using noref by (simp add: refs_0)
    moreover have "\<And>i. i \<in> set I \<Longrightarrow> i_ino i \<noteq> i_ino r" using fresh by (auto simp: ino_in_def)
    ultimately show ?thesis using tree_okD(3) [OF ok] nl by (auto simp: links_ok_def)
  qed
  ultimately show ?thesis
    using tree_okD(1,2,5) [OF ok] tree_ok_range [OF ok] tree_ok_edges [OF ok] fresh pos root p k
    by (intro tree_okI) (auto simp: keyed_append1 row_at_None_iff ino_in_def)
qed

section \<open>Adding a hard link\<close>

lemma tree_ok_link:
  assumes ok: "tree_ok I q D" and t: "row_at i_ino I tgt = Some i" "i_kind i \<noteq> KindDir"
    and p: "dir_in I p" and k: "row_at dkey D (p, n) = None"
  shows "tree_ok (upd_where (\<lambda>i. i_ino i = tgt) (\<lambda>i. i\<lparr>i_nlink := i_nlink i + 1\<rparr>) I) q
           (D @ [\<lparr>d_parent = p, d_name = n, d_child = tgt\<rparr>])"
proof -
  have i: "i \<in> set I" "i_ino i = tgt" using t row_at_SomeD by metis+
  have notdir: "\<not> dir_in I tgt" using dir_in_unique tree_okD(1) [OF ok] i t(2) by metis
  have root: "tgt \<noteq> RootIno" using notdir tree_okD(5) [OF ok] by metis
  have "acyclic (insert (p, tgt) (tree_rel D))"
    by (rule acyclic_into_leaf)
       (use tree_okD(4,6) [OF ok] notdir p in \<open>auto simp: tree_rel_def\<close>)
  moreover have "links_ok (upd_where (\<lambda>i. i_ino i = tgt) (\<lambda>i. i\<lparr>i_nlink := i_nlink i + 1\<rparr>) I)
           (D @ [\<lparr>d_parent = p, d_name = n, d_child = tgt\<rparr>])"
    using tree_okD(3) [OF ok] notdir by (auto simp: links_ok_def ball_upd_where dir_in_def)
  moreover have "ino_in I tgt" using i by (auto simp: ino_in_def)
  ultimately show ?thesis
    using tree_okD(1,2,5) [OF ok] tree_ok_range [OF ok] tree_ok_edges [OF ok] p k root
    by (intro tree_okI) (auto simp: keyed_append1 row_at_None_iff keyed_upd dir_in_upd ino_in_upd ball_upd_where)
qed

section \<open>Removing a dirent\<close>

lemma refs_del_key:
  assumes "keyed dkey D" "row_at dkey D k = Some d"
  shows "refs D c = refs (del_where (\<lambda>d. dkey d = k) D) c + (if d_child d = c then 1 else 0)"
proof -
  have "cnt_where (\<lambda>d. d_child d = c \<and> dkey d = k) D = cnt_where (\<lambda>d. dkey d = k \<and> d_child d = c) D"
    by (rule cnt_where_cong) auto
  then show ?thesis
    using cnt_where_del [of "\<lambda>d. d_child d = c" "\<lambda>d. dkey d = k" D]
      cnt_where_key [OF assms(1), of k "\<lambda>d. d_child d = c"] assms(2)
    by (simp add: refs_def split: if_splits)
qed

lemma tree_rel_del: "tree_rel (del_where P D) \<subseteq> tree_rel D"
  by (auto simp: tree_rel_def)

definition unlinked_inodes :: "int \<Rightarrow> inode list \<Rightarrow> inode list" where
  "unlinked_inodes c I = upd_where (\<lambda>i. i_ino i = c) (\<lambda>i. i\<lparr>i_nlink := i_nlink i - 1\<rparr>) I"

lemma row_at_unlinked: "row_at i_ino (unlinked_inodes c I) k =
    (if k = c then map_option (\<lambda>i. i\<lparr>i_nlink := i_nlink i - 1\<rparr>) (row_at i_ino I k) else row_at i_ino I k)"
  unfolding unlinked_inodes_def
  by (rule row_at_upd [where P = "\<lambda>k. k = c"]) simp_all

lemma unlinked_dir_in [simp]: "dir_in (unlinked_inodes c I) k = dir_in I k"
  "ino_in (unlinked_inodes c I) k = ino_in I k" "keyed i_ino (unlinked_inodes c I) = keyed i_ino I"
  by (simp_all add: unlinked_inodes_def dir_in_upd ino_in_upd keyed_upd)

text \<open>The inode stays: another dirent refers to it.\<close>

lemma tree_ok_unlink_keep:
  assumes ok: "tree_ok I q D" and d: "row_at dkey D k = Some d" and c: "row_at i_ino I (d_child d) = Some i"
    and more: "i_nlink i \<noteq> 1"
  shows "tree_ok (unlinked_inodes (d_child d) I) q (del_where (\<lambda>d. dkey d = k) D)"
proof -
  let ?D = "del_where (\<lambda>d. dkey d = k) D"
  note kd = refs_del_key [OF tree_okD(2) [OF ok] d]
  have "links_ok (unlinked_inodes (d_child d) I) ?D"
  proof -
    have "\<And>j. j \<in> set I \<Longrightarrow> i_ino j = d_child d \<Longrightarrow> j = i"
      using c tree_okD(1) [OF ok] by (simp add: row_at_eq_Some keyed_unique)
    then show ?thesis
      using tree_okD(3) [OF ok] more
      unfolding links_ok_def unlinked_inodes_def ball_upd_where kd by fastforce
  qed
  moreover have "acyclic (tree_rel ?D)"
    using tree_okD(4) [OF ok] tree_rel_del acyclic_subset by metis
  moreover have "\<forall>i\<in>set (unlinked_inodes (d_child d) I). 1 \<le> i_ino i \<and> i_ino i \<le> q"
    using tree_ok_range [OF ok] by (auto simp: unlinked_inodes_def ball_upd_where)
  ultimately show ?thesis
    using tree_okD(1,2,5) [OF ok] tree_ok_edges [OF ok] by (intro tree_okI) auto
qed

text \<open>The last dirent goes: the inode row is deleted; nothing else referred to it.\<close>

lemma unlink_last_no_refs:
  assumes ok: "tree_ok I q D" and d: "row_at dkey D k = Some d" and c: "row_at i_ino I (d_child d) = Some i"
    and last: "i_nlink i = 1" and empty: "i_kind i = KindDir \<longrightarrow> cnt_where (\<lambda>e. d_parent e = d_child d) D = 0"
    and e: "e \<in> set (del_where (\<lambda>d. dkey d = k) D)"
  shows "d_parent e \<noteq> d_child d \<and> d_child e \<noteq> d_child d"
proof
  have i: "i \<in> set I" "i_ino i = d_child d" using c row_at_SomeD by metis+
  have dD: "d \<in> set D" using d row_at_SomeD by metis
  have eD: "e \<in> set D" using e by simp
  have "refs D (d_child d) = 1"
    using tree_okD(3) [OF ok] i last tree_okD(8) [OF ok dD] unfolding links_ok_def by fastforce
  then have "refs (del_where (\<lambda>d. dkey d = k) D) (d_child d) = 0"
    using refs_del_key [OF tree_okD(2) [OF ok] d, of "d_child d"] by simp
  then show "d_child e \<noteq> d_child d" using e unfolding refs_0 by blast
  show "d_parent e \<noteq> d_child d"
  proof
    assume eq: "d_parent e = d_child d"
    then have "i_kind i = KindDir"
      using tree_okD(6) [OF ok eD] i dir_in_unique [OF tree_okD(1) [OF ok]] by simp
    with empty have "\<forall>e\<in>set D. d_parent e \<noteq> d_child d" by (simp add: cnt_where_0)
    with eq eD show False by blast
  qed
qed

lemma tree_ok_unlink_last:
  assumes ok: "tree_ok I q D" and d: "row_at dkey D k = Some d" and c: "row_at i_ino I (d_child d) = Some i"
    and last: "i_nlink i = 1" and empty: "i_kind i = KindDir \<longrightarrow> cnt_where (\<lambda>e. d_parent e = d_child d) D = 0"
  shows "tree_ok (del_where (\<lambda>i. i_ino i = d_child d) (unlinked_inodes (d_child d) I)) q
           (del_where (\<lambda>e. d_parent e = d_child d \<or> d_child e = d_child d) (del_where (\<lambda>d. dkey d = k) D))"
proof -
  let ?c = "d_child d" let ?D = "del_where (\<lambda>d. dkey d = k) D"
  let ?I = "del_where (\<lambda>i. i_ino i = ?c) (unlinked_inodes ?c I)"
  have D: "del_where (\<lambda>e. d_parent e = ?c \<or> d_child e = ?c) ?D = ?D"
    unfolding del_where_def [of "\<lambda>e. d_parent e = ?c \<or> d_child e = ?c"]
    by (rule filter_True) (use unlink_last_no_refs [OF ok d c last empty] in blast)
  have I: "set ?I = {j \<in> set I. i_ino j \<noteq> ?c}"
    by (auto simp: unlinked_inodes_def upd_where_def)
  have dir_iff: "dir_in ?I k \<longleftrightarrow> dir_in I k \<and> k \<noteq> ?c" for k unfolding dir_in_def I by blast
  have ino_iff: "ino_in ?I k \<longleftrightarrow> ino_in I k \<and> k \<noteq> ?c" for k unfolding ino_in_def I by blast
  have nroot: "?c \<noteq> RootIno" using tree_okD(8) [OF ok] d row_at_SomeD by metis
  have "links_ok ?I ?D"
    using tree_okD(3) [OF ok] I refs_del_key [OF tree_okD(2) [OF ok] d] by (auto simp: links_ok_def)
  moreover have "acyclic (tree_rel ?D)"
    using tree_okD(4) [OF ok] tree_rel_del acyclic_subset by metis
  moreover have "\<forall>e\<in>set ?D. dir_in ?I (d_parent e) \<and> ino_in ?I (d_child e) \<and> d_child e \<noteq> RootIno"
  proof
    fix e assume e: "e \<in> set ?D"
    then have "e \<in> set D" by simp
    then show "dir_in ?I (d_parent e) \<and> ino_in ?I (d_child e) \<and> d_child e \<noteq> RootIno"
      using unlink_last_no_refs [OF ok d c last empty e] tree_ok_edges [OF ok]
      by (simp add: dir_iff ino_iff)
  qed
  moreover have "dir_in ?I RootIno" using tree_okD(5) [OF ok] nroot by (simp add: dir_iff)
  moreover have "keyed i_ino ?I" using tree_okD(1) [OF ok] by auto
  moreover have "keyed dkey ?D" using tree_okD(2) [OF ok] by auto
  moreover have "\<forall>i\<in>set ?I. 1 \<le> i_ino i \<and> i_ino i \<le> q" using tree_ok_range [OF ok] I by blast
  ultimately show ?thesis unfolding D by (intro tree_okI)
qed

section \<open>Moving a dirent\<close>

lemma tree_ok_move:
  assumes ok: "tree_ok I q D" and d: "row_at dkey D k = Some d" and free: "row_at dkey D (np, nn) = None"
    and np: "dir_in I np" and nocyc: "(d_child d, np) \<notin> (tree_rel D)\<^sup>*"
  shows "tree_ok I q (upd_where (\<lambda>d. dkey d = k) (\<lambda>d. d\<lparr>d_parent := np, d_name := nn\<rparr>) D)"
proof -
  let ?D = "upd_where (\<lambda>d. dkey d = k) (\<lambda>d. d\<lparr>d_parent := np, d_name := nn\<rparr>) D"
  have uniq: "\<And>e. e \<in> set D \<Longrightarrow> dkey e = k \<Longrightarrow> e = d"
    using d tree_okD(2) [OF ok] by (simp add: row_at_eq_Some keyed_unique)
  have refs: "refs ?D c = refs D c" for c
    by (induction D) (simp_all add: refs_def upd_where_def cnt_where_Cons)
  have "tree_rel ?D \<subseteq> insert (np, d_child d) (tree_rel D)"
    unfolding tree_rel_def upd_where_def using uniq by fastforce
  moreover have "acyclic (insert (np, d_child d) (tree_rel D))"
    using tree_okD(4) [OF ok] nocyc by (simp add: acyclic_insert)
  ultimately have "acyclic (tree_rel ?D)" by (rule acyclic_subset [rotated])
  moreover have "keyed dkey ?D" using tree_okD(2) [OF ok] free by (intro keyed_rekey) simp_all
  moreover have "links_ok I ?D" using tree_okD(3) [OF ok] by (simp add: links_ok_def refs)
  ultimately show ?thesis
    using tree_okD(1,5) [OF ok] tree_ok_range [OF ok] tree_ok_edges [OF ok] np
    by (intro tree_okI) (simp_all add: ball_upd_where)
qed

section \<open>Changing attributes\<close>

lemma tree_ok_attrs:
  assumes ok: "tree_ok I q D"
    and f: "\<And>i. i_ino (f i) = i_ino i" "\<And>i. i_kind (f i) = i_kind i" "\<And>i. i_nlink (f i) = i_nlink i"
  shows "tree_ok (upd_where p f I) q D"
  using tree_okD [OF ok] tree_ok_range [OF ok] tree_ok_edges [OF ok] f
  by (intro tree_okI) (simp_all add: keyed_upd dir_in_upd ino_in_upd ball_upd_where links_ok_def)

section \<open>The ancestor walk\<close>

text \<open>The ancestors of a node, and why the walk ends: each parent has fewer of them.\<close>

definition ancestors :: "dirent list \<Rightarrow> int \<Rightarrow> int set" where
  "ancestors D c = {a. (a, c) \<in> (tree_rel D)\<^sup>+}"

lemma ancestors_sub: "ancestors D c \<subseteq> d_parent ` set D"
  by (auto simp: ancestors_def tree_rel_def dest!: tranclD)

lemma finite_ancestors: "finite (ancestors D c)"
  by (rule finite_subset [OF ancestors_sub]) simp

lemma card_ancestors_le: "card (ancestors D c) \<le> length D"
proof -
  have "card (ancestors D c) \<le> card (d_parent ` set D)" by (intro card_mono ancestors_sub) simp
  also have "\<dots> \<le> length D" by (meson card_image_le card_length finite_set le_trans)
  finally show ?thesis .
qed

lemma ancestors_parent:
  assumes "acyclic (tree_rel D)" "(p, c) \<in> tree_rel D"
  shows "card (ancestors D p) < card (ancestors D c)"
proof (rule psubset_card_mono [OF finite_ancestors])
  have "ancestors D p \<subseteq> ancestors D c"
    using assms(2) by (auto simp: ancestors_def intro: trancl_into_trancl)
  moreover have "p \<in> ancestors D c" "p \<notin> ancestors D p"
    using assms by (auto simp: ancestors_def acyclic_def)
  ultimately show "ancestors D p \<subset> ancestors D c" by blast
qed

text \<open>A directory has one parent, so the walk meets every ancestor of it.\<close>

lemma is_ancestor_fuel_correct:
  assumes ok: "tree_ok (st_inodes s) (st_ino_seq s) (st_dirents s)"
    and dir: "dir_in (st_inodes s) cur" and fuel: "card (ancestors (st_dirents s) cur) < n"
  shows "is_ancestor_fuel n s anc cur = Some ((anc, cur) \<in> (tree_rel (st_dirents s))\<^sup>*)"
  using dir fuel
proof (induction n arbitrary: cur)
  case (Suc n)
  let ?R = "tree_rel (st_dirents s)"
  have into_root: "(a, RootIno) \<notin> ?R" for a
    using tree_okD(8) [OF ok] by (fastforce simp: tree_rel_def)
  have pos: "cur \<noteq> 0" using tree_ok_inode_range [OF ok dir_in_ino_in] Suc.prems(1) by fastforce
  show ?case
  proof (cases "cur = RootIno \<or> cur = anc")
    case True
    then show ?thesis using pos into_root
      by (auto simp: RootIno_def dest: rtranclD tranclD2)
  next
    case False
    then have nr: "cur \<noteq> RootIno" "cur \<noteq> anc" by auto
    obtain i where i: "i \<in> set (st_inodes s)" "i_ino i = cur" "i_kind i = KindDir"
      using Suc.prems(1) by (auto simp: dir_in_def)
    then have one: "refs (st_dirents s) cur = 1"
      using tree_okD(3) [OF ok] nr(1) by (fastforce simp: links_ok_def)
    then obtain d where d: "row_at d_child (st_dirents s) cur = Some d"
      by (cases "row_at d_child (st_dirents s) cur") (auto simp: row_at_None_iff refs_0 [symmetric])
    then have dD: "d \<in> set (st_dirents s)" "d_child d = cur" by (auto dest: row_at_SomeD)
    have edge: "(a, cur) \<in> ?R \<longleftrightarrow> a = d_parent d" for a
    proof
      assume "(a, cur) \<in> ?R"
      then obtain e where e: "e \<in> set (st_dirents s)" "d_child e = cur" "a = d_parent e"
        by (auto simp: tree_rel_def)
      have "e = d"
        by (rule cnt_where_le1_unique [of "\<lambda>d. d_child d = cur" "st_dirents s"])
           (use one dD e in \<open>auto simp: refs_def\<close>)
      then show "a = d_parent d" using e by simp
    qed (use dD in \<open>auto simp: tree_rel_def\<close>)
    have step: "(anc, cur) \<in> ?R\<^sup>* \<longleftrightarrow> (anc, d_parent d) \<in> ?R\<^sup>*"
      using nr(2) edge by (metis rtrancl.simps)
    have "is_ancestor_fuel n s anc (d_parent d) = Some ((anc, d_parent d) \<in> ?R\<^sup>*)"
    proof (rule Suc.IH)
      show "dir_in (st_inodes s) (d_parent d)" using tree_okD(6) [OF ok dD(1)] .
      have "(d_parent d, cur) \<in> ?R" using edge by simp
      from ancestors_parent [OF tree_okD(4) [OF ok] this] Suc.prems(2)
      show "card (ancestors (st_dirents s) (d_parent d)) < n" by simp
    qed
    then show ?thesis using nr pos d step by simp
  qed
qed simp

lemma is_ancestor_correct:
  assumes "tree_ok (st_inodes s) (st_ino_seq s) (st_dirents s)" "dir_in (st_inodes s) start"
  shows "is_ancestor s anc start = Some ((anc, start) \<in> (tree_rel (st_dirents s))\<^sup>*)"
  unfolding is_ancestor_def
  by (rule is_ancestor_fuel_correct [OF assms]) (use card_ancestors_le [of "st_dirents s" start] in simp)

text \<open>With the invariant every inode hangs from the root: no orphans.\<close>

lemma tree_ok_reachable:
  assumes ok: "tree_ok I q D" and i: "ino_in I k"
  shows "(RootIno, k) \<in> (tree_rel D)\<^sup>*"
  using i
proof (induction "card (ancestors D k)" arbitrary: k rule: less_induct)
  case less
  show ?case
  proof (cases "k = RootIno")
    case False
    obtain i where "i \<in> set I" "i_ino i = k" using less.prems by (auto simp: ino_in_def)
    then have "refs D k \<noteq> 0" using tree_okD(3) [OF ok] False by (fastforce simp: links_ok_def)
    then obtain d where d: "d \<in> set D" "d_child d = k" by (auto simp: refs_0)
    then have e: "(d_parent d, k) \<in> tree_rel D" by (auto simp: tree_rel_def)
    have "(RootIno, d_parent d) \<in> (tree_rel D)\<^sup>*"
      using less.hyps [OF ancestors_parent [OF tree_okD(4) [OF ok] e]]
        dir_in_ino_in [OF tree_okD(6) [OF ok d(1)]] .
    then show ?thesis using e by (rule rtrancl_into_rtrancl)
  qed simp
qed

end
