(* ===== verification/MetaInv.thy ===== *)
theory MetaInv
  imports TreeInv
begin

text \<open>
  The invariant of the metadata store, \<open>store_wf\<close>: the directory tree is well formed
  (\<open>tree_ok\<close>) and the other tables have unique keys, rows that refer to existing inodes and a
  journal in increasing sequence order.  Every operation on the namespace preserves it.
\<close>

definition rows_ok :: "store \<Rightarrow> bool" where
  "rows_ok s \<longleftrightarrow>
     keyed ckey (st_chunks s) \<and> (\<forall>c\<in>set (st_chunks s). ino_in (st_inodes s) (c_ino c)) \<and>
     keyed xkey (st_xattrs s) \<and> (\<forall>x\<in>set (st_xattrs s). ino_in (st_inodes s) (x_ino x)) \<and>
     sorted_wrt (<) (map j_seq (st_journal s)) \<and>
     (\<forall>j\<in>set (st_journal s). j_seq j \<le> st_jnl_seq s) \<and>
     keyed kv_key (st_kv s) \<and> keyed b_hash (st_blobs s)"

definition store_wf :: "store \<Rightarrow> bool" where
  "store_wf s \<longleftrightarrow> tree_ok (st_inodes s) (st_ino_seq s) (st_dirents s) \<and> rows_ok s"

lemma store_wf_ctr [simp]: "store_wf (s\<lparr>st_write_ctr := n\<rparr>) = store_wf s"
  by (simp add: store_wf_def rows_ok_def)

lemma store_wf_replaying [simp]: "store_wf (s\<lparr>st_replaying := b\<rparr>) = store_wf s"
  by (simp add: store_wf_def rows_ok_def)

lemma store_wf_tree: "store_wf s \<Longrightarrow> tree_ok (st_inodes s) (st_ino_seq s) (st_dirents s)"
  by (simp add: store_wf_def)

lemma rows_ok_journal: "rows_ok s \<Longrightarrow> rows_ok (append_journal_tx op s)"
  by (auto simp: rows_ok_def append_journal_tx_def sorted_wrt_append)

lemma store_wf_journal: "store_wf s \<Longrightarrow> store_wf (append_journal_tx op s)"
  by (simp add: store_wf_def rows_ok_journal)

text \<open>Rows of the dependent tables survive when the inodes they refer to do.\<close>

lemma rows_ok_mono:
  assumes "rows_ok s" "\<And>k. ino_in (st_inodes s) k \<Longrightarrow> ino_in (st_inodes t) k"
    "st_chunks t = st_chunks s" "st_xattrs t = st_xattrs s" "st_journal t = st_journal s"
    "st_jnl_seq t = st_jnl_seq s" "st_kv t = st_kv s" "st_blobs t = st_blobs s"
  shows "rows_ok t"
  using assms by (simp add: rows_ok_def)

lemma with_tx_wf:
  assumes "store_wf s" "\<And>a t. fn s = Inr (a, t) \<Longrightarrow> store_wf t"
  shows "store_wf (snd (with_tx fn s))"
  by (rule with_tx_preserves) (use assms in auto)

lemma exec_wf:
  assumes "store_wf s" "\<And>a t. fn s = Inr (a, t) \<Longrightarrow> store_wf t"
  shows "store_wf (snd (exec_with_retry fn s))"
  by (rule exec_with_retry_preserves) (use assms in auto)

section \<open>What the reads return\<close>

lemma lookup_Inr: "lookup p n s = Inr i \<longleftrightarrow>
    (\<exists>d. row_at dkey (st_dirents s) (p, n) = Some d \<and> row_at i_ino (st_inodes s) (d_child d) = Some i)"
  by (auto simp: lookup_def split: option.splits)

lemma lookup_Inl_NotFound: "lookup p n s = Inl e \<Longrightarrow> e = ErrNotFound"
  by (auto simp: lookup_def split: option.splits)

lemma lookup_Inl:
  assumes "tree_ok (st_inodes s) (st_ino_seq s) (st_dirents s)"
  shows "lookup p n s = Inl e \<longleftrightarrow> e = ErrNotFound \<and> row_at dkey (st_dirents s) (p, n) = None"
proof -
  have "row_at i_ino (st_inodes s) (d_child d) \<noteq> None"
    if "row_at dkey (st_dirents s) (p, n) = Some d" for d
    using tree_okD(7) [OF assms, of d] row_at_SomeD [OF that]
    by (simp add: row_at_None_iff ino_in_def)
  then show ?thesis by (auto simp: lookup_def split: option.splits)
qed

lemma lookup_ino: "lookup p n s = Inr i \<Longrightarrow> \<exists>d. row_at dkey (st_dirents s) (p, n) = Some d \<and> d_child d = i_ino i"
  by (auto simp: lookup_Inr dest: row_at_SomeD)

lemma get_inode_dir: "get_inode p s = Inr pin \<Longrightarrow> i_kind pin = KindDir \<Longrightarrow> dir_in (st_inodes s) p"
  by (auto simp: get_inode_Inr dir_in_def dest!: row_at_SomeD)

lemma insert_dirent_Inr: "insert_dirent p n c s = Inr t \<longleftrightarrow>
    row_at dkey (st_dirents s) (p, n) = None \<and> ino_in (st_inodes s) p \<and> ino_in (st_inodes s) c \<and>
    t = s\<lparr>st_dirents := st_dirents s @ [\<lparr>d_parent = p, d_name = n, d_child = c\<rparr>]\<rparr>"
  by (auto simp: insert_dirent_def has_inode_in)

section \<open>Create\<close>

definition created_row :: "int \<Rightarrow> inode \<Rightarrow> store \<Rightarrow> inode" where
  "created_row now child s = child\<lparr>i_ino := st_ino_seq s + 1,
     i_mtime := (if i_mtime child = 0 then now else i_mtime child),
     i_ctime := (if i_ctime child = 0 then now else i_ctime child),
     i_nlink := (if i_nlink child = 0 then 1 else i_nlink child),
     i_chunk_size := (if i_chunk_size child > 0 then i_chunk_size child else DefaultChunkSize)\<rparr>"

lemma created_row_simps [simp]:
  "i_ino (created_row now child s) = st_ino_seq s + 1" "i_kind (created_row now child s) = i_kind child"
  by (simp_all add: created_row_def)

lemma create_child_tx_Inr:
  assumes "create_child_tx now p n child s = Inr (ino, t)"
  shows "dir_in (st_inodes s) p" "row_at dkey (st_dirents s) (p, n) = None" "ino = st_ino_seq s + 1"
    "t = append_journal_tx (create_op p n ino child)
       (s\<lparr>st_inodes := st_inodes s @ [created_row now child s], st_ino_seq := ino,
          st_dirents := st_dirents s @ [\<lparr>d_parent = p, d_name = n, d_child = ino\<rparr>]\<rparr>)"
  using assms get_inode_dir [of p s]
  by (auto simp: create_child_tx_def create_inode_def Let_def created_row_def insert_dirent_Inr
      split: sum.splits if_splits)

lemma create_child_tx_wf:
  assumes wf: "store_wf s" and nl: "i_nlink child = 0 \<or> i_nlink child = 1"
    and r: "create_child_tx now p n child s = Inr (ino, t)"
  shows "store_wf t"
proof -
  note c = create_child_tx_Inr [OF r]
  let ?row = "created_row now child s"
  have fresh: "\<not> ino_in (st_inodes s) (i_ino ?row)"
    using tree_ok_inode_range [OF store_wf_tree [OF wf]] by fastforce
  have seq: "0 \<le> st_ino_seq s"
    using tree_ok_inode_range [OF store_wf_tree [OF wf] dir_in_ino_in [OF c(1)]] by simp
  have "tree_ok (st_inodes s @ [?row]) (max (st_ino_seq s) (i_ino ?row))
      (st_dirents s @ [\<lparr>d_parent = p, d_name = n, d_child = i_ino ?row\<rparr>])"
    by (rule tree_ok_create [OF store_wf_tree [OF wf] fresh _ _ c(1,2)])
       (use seq nl in \<open>auto simp: created_row_def\<close>)
  moreover have "max (st_ino_seq s) (i_ino ?row) = ino" using c(3) by simp
  moreover have "rows_ok (s\<lparr>st_inodes := st_inodes s @ [?row], st_ino_seq := ino,
          st_dirents := st_dirents s @ [\<lparr>d_parent = p, d_name = n, d_child = ino\<rparr>]\<rparr>)"
    by (rule rows_ok_mono [of s]) (use wf in \<open>auto simp: store_wf_def\<close>)
  ultimately show ?thesis unfolding c(4)
    by (intro store_wf_journal) (simp add: store_wf_def c(3))
qed

lemma create_child_wf:
  assumes "store_wf s" "i_nlink child = 0 \<or> i_nlink child = 1"
  shows "store_wf (snd (create_child now p n child s))"
  unfolding create_child_def
  by (rule with_tx_wf [OF assms(1)], rule create_child_tx_wf [OF assms(1)])
     (use assms(2) in \<open>auto simp: normalize_child_def\<close>)

definition row_at_ino :: "inode \<Rightarrow> int \<Rightarrow> inode" where
  "row_at_ino child ino = child\<lparr>i_ino := ino,
     i_chunk_size := (if i_chunk_size child \<le> 0 then DefaultChunkSize else i_chunk_size child),
     i_nlink := (if i_nlink child = 0 then 1 else i_nlink child)\<rparr>"

lemma create_child_at_tx_Inr:
  assumes "create_child_at_tx p n child ino s = Inr (u, t)"
  shows "dir_in (st_inodes s) p" "row_at dkey (st_dirents s) (p, n) = None" "\<not> ino_in (st_inodes s) ino"
    "t = s\<lparr>st_inodes := st_inodes s @ [row_at_ino child ino], st_ino_seq := max (st_ino_seq s) ino,
          st_dirents := st_dirents s @ [\<lparr>d_parent = p, d_name = n, d_child = ino\<rparr>]\<rparr>"
  using assms get_inode_dir [of p s]
  by (auto simp: create_child_at_tx_def Let_def row_at_ino_def insert_dirent_Inr get_inode_Inl has_inode_in
      split: sum.splits if_splits)

lemma create_child_at_wf:
  assumes wf: "store_wf s" and nl: "i_nlink child = 0 \<or> i_nlink child = 1" and pos: "1 \<le> ino"
  shows "store_wf (snd (create_child_at p n child ino s))"
  unfolding create_child_at_def
proof (rule with_tx_wf [OF wf])
  fix u t assume r: "create_child_at_tx p n child ino s = Inr (u, t)"
  note c = create_child_at_tx_Inr [OF r]
  let ?row = "row_at_ino child ino"
  have row: "i_ino ?row = ino" "i_nlink ?row = 1" using nl by (auto simp: row_at_ino_def)
  have "tree_ok (st_inodes s @ [?row]) (max (st_ino_seq s) (i_ino ?row))
      (st_dirents s @ [\<lparr>d_parent = p, d_name = n, d_child = i_ino ?row\<rparr>])"
    by (rule tree_ok_create [OF store_wf_tree [OF wf] _ _ _ c(1,2)]) (use pos row c(3) in auto)
  moreover have "rows_ok t"
    by (rule rows_ok_mono [of s]) (use wf in \<open>auto simp: store_wf_def c(4)\<close>)
  ultimately show "store_wf t" unfolding c(4) store_wf_def by (simp add: row)
qed

section \<open>Link\<close>

lemma link_tx_Inr:
  assumes "link_tx p n tgt s = Inr (u, t)"
  obtains i where "dir_in (st_inodes s) p" "row_at dkey (st_dirents s) (p, n) = None"
    "row_at i_ino (st_inodes s) tgt = Some i" "i_kind i \<noteq> KindDir"
    "t = append_journal_tx ((zero_op OpLink)\<lparr>jo_parent := p, jo_name := n, jo_target := tgt\<rparr>)
       (upd_inode tgt (\<lambda>i. i\<lparr>i_nlink := i_nlink i + 1\<rparr>)
         (s\<lparr>st_dirents := st_dirents s @ [\<lparr>d_parent = p, d_name = n, d_child = tgt\<rparr>]\<rparr>))"
  using assms get_inode_dir [of p s]
  by (auto simp: link_tx_def insert_dirent_Inr get_inode_Inr split: sum.splits if_splits)

lemma link_wf:
  assumes wf: "store_wf s" shows "store_wf (snd (link p n tgt s))"
  unfolding link_def
proof (rule with_tx_wf [OF wf])
  fix u t assume r: "link_tx p n tgt s = Inr (u, t)"
  then show "store_wf t"
  proof (rule link_tx_Inr)
    fix i
    let ?s = "upd_inode tgt (\<lambda>i. i\<lparr>i_nlink := i_nlink i + 1\<rparr>)
         (s\<lparr>st_dirents := st_dirents s @ [\<lparr>d_parent = p, d_name = n, d_child = tgt\<rparr>]\<rparr>)"
    assume a: "dir_in (st_inodes s) p" "row_at dkey (st_dirents s) (p, n) = None"
      "row_at i_ino (st_inodes s) tgt = Some i" "i_kind i \<noteq> KindDir"
      and t: "t = append_journal_tx ((zero_op OpLink)\<lparr>jo_parent := p, jo_name := n, jo_target := tgt\<rparr>) ?s"
    have "tree_ok (st_inodes ?s) (st_ino_seq ?s) (st_dirents ?s)"
      using tree_ok_link [OF store_wf_tree [OF wf] a(3,4,1,2)] by (simp add: upd_inode_def)
    moreover have "rows_ok ?s"
      by (rule rows_ok_mono [of s])
         (use wf in \<open>auto simp: store_wf_def upd_inode_def ino_in_upd\<close>)
    ultimately show ?thesis unfolding t by (intro store_wf_journal) (simp add: store_wf_def)
  qed
qed

section \<open>Unlink\<close>

text \<open>What a successful \<open>unlinkInTx\<close> did: \<open>unlinked\<close> is the state after the dirent is gone and
  the count decremented.\<close>

definition unlinked :: "int \<Rightarrow> string \<Rightarrow> int \<Rightarrow> store \<Rightarrow> store" where
  "unlinked p n c s = s\<lparr>st_inodes := unlinked_inodes c (st_inodes s),
     st_dirents := del_where (\<lambda>d. dkey d = (p, n)) (st_dirents s)\<rparr>"

lemma unlink_in_tx_Inr:
  assumes "unlink_in_tx p n s = Inr ((c, del), t)"
  obtains d i where "row_at dkey (st_dirents s) (p, n) = Some d" "d_child d = c"
    "row_at i_ino (st_inodes s) c = Some i"
    "i_kind i = KindDir \<longrightarrow> dir_children c s = 0" "1 \<le> i_nlink i" "del \<longleftrightarrow> i_nlink i = 1"
    "t = (if del then delete_inode_row c (unlinked p n c s) else unlinked p n c s)"
proof -
  obtain i where i: "lookup p n s = Inr i" "\<not> (i_kind i = KindDir \<and> dir_children (i_ino i) s > 0)"
    using assms by (auto simp: unlink_in_tx_def split: sum.splits if_splits)
  obtain d where d: "row_at dkey (st_dirents s) (p, n) = Some d" "row_at i_ino (st_inodes s) (d_child d) = Some i"
    using i(1) by (auto simp: lookup_Inr)
  then have ino: "i_ino i = d_child d" by (auto dest: row_at_SomeD)
  let ?s2 = "unlinked p n (d_child d) s"
  have s2: "upd_inode (i_ino i) (\<lambda>i. i\<lparr>i_nlink := i_nlink i - 1\<rparr>)
      (s\<lparr>st_dirents := del_where (\<lambda>d. dkey d = (p, n)) (st_dirents s)\<rparr>) = ?s2"
    by (simp add: unlinked_def unlinked_inodes_def upd_inode_def ino)
  have row: "get_inode (d_child d) ?s2 = Inr (i\<lparr>i_nlink := i_nlink i - 1\<rparr>)"
    using d(2) by (simp add: get_inode_def unlinked_def row_at_unlinked)
  have "unlink_in_tx p n s = (if i_nlink i - 1 < 0 then Inl ErrScan
      else if i_nlink i - 1 = 0 then Inr ((d_child d, True), delete_inode_row (d_child d) ?s2)
      else Inr ((d_child d, False), ?s2))"
    using i(2) row unfolding unlink_in_tx_def i(1) sum.case Let_def s2 by (simp add: ino)
  then show ?thesis using assms that [OF d(1) _ _] i(2) d(2) ino
    by (auto split: if_splits)
qed

lemma unlinked_simps [simp]:
  "st_chunks (unlinked p n c s) = st_chunks s" "st_xattrs (unlinked p n c s) = st_xattrs s"
  "st_ino_seq (unlinked p n c s) = st_ino_seq s" "st_journal (unlinked p n c s) = st_journal s"
  "st_jnl_seq (unlinked p n c s) = st_jnl_seq s" "st_kv (unlinked p n c s) = st_kv s"
  "st_blobs (unlinked p n c s) = st_blobs s" "st_replaying (unlinked p n c s) = st_replaying s"
  by (simp_all add: unlinked_def)

lemma rows_ok_delete_inode:
  assumes "rows_ok s" shows "rows_ok (delete_inode_row c s)"
  using assms by (auto simp: rows_ok_def delete_inode_row_def ino_in_del)

lemma unlink_in_tx_wf:
  assumes wf: "store_wf s" and r: "unlink_in_tx p n s = Inr ((c, del), t)"
  shows "store_wf t"
  using r
proof (rule unlink_in_tx_Inr)
  fix d i
  assume a: "row_at dkey (st_dirents s) (p, n) = Some d" "d_child d = c"
    "row_at i_ino (st_inodes s) c = Some i" "i_kind i = KindDir \<longrightarrow> dir_children c s = 0"
    "1 \<le> i_nlink i" "del = (i_nlink i = 1)"
    and t: "t = (if del then delete_inode_row c (unlinked p n c s) else unlinked p n c s)"
  note tree = store_wf_tree [OF wf]
  have rows: "rows_ok (unlinked p n c s)"
    by (rule rows_ok_mono [of s]) (use wf in \<open>auto simp: store_wf_def unlinked_def\<close>)
  show ?thesis
  proof (cases del)
    case True
    then have last: "i_nlink i = 1" using a(6) by simp
    have "tree_ok (st_inodes t) (st_ino_seq t) (st_dirents t)"
      using tree_ok_unlink_last [OF tree a(1) _ last] a(2-4) True
      by (simp add: t delete_inode_row_def unlinked_def dir_children_def)
    then show ?thesis using True rows_ok_delete_inode [OF rows] by (simp add: store_wf_def t)
  next
    case False
    then have more: "i_nlink i \<noteq> 1" using a(6) by simp
    have "tree_ok (st_inodes t) (st_ino_seq t) (st_dirents t)"
      using tree_ok_unlink_keep [OF tree a(1) _ more] a(2,3) False by (simp add: t unlinked_def)
    then show ?thesis using False rows by (simp add: store_wf_def t)
  qed
qed

text \<open>Its effect on the two tables: exactly one dirent goes, its parent stays a directory.\<close>

lemma unlink_in_tx_effect:
  assumes wf: "store_wf s" and r: "unlink_in_tx p n s = Inr ((c, del), t)"
  shows "st_dirents t = del_where (\<lambda>d. dkey d = (p, n)) (st_dirents s)"
    "\<exists>d. row_at dkey (st_dirents s) (p, n) = Some d \<and> d_child d = c"
    "row_at i_ino (st_inodes t) k =
       (if k = c then (if del then None else map_option (\<lambda>i. i\<lparr>i_nlink := i_nlink i - 1\<rparr>) (row_at i_ino (st_inodes s) c))
        else row_at i_ino (st_inodes s) k)"
    "dir_in (st_inodes t) p" "c \<noteq> p" "ino_in (st_inodes s) k \<Longrightarrow> k \<noteq> c \<Longrightarrow> ino_in (st_inodes t) k"
    "st_replaying t = st_replaying s" "st_ino_seq t = st_ino_seq s"
    "st_journal t = st_journal s" "st_jnl_seq t = st_jnl_seq s"
    "st_chunks t = (if del then del_where (\<lambda>x. c_ino x = c) (st_chunks s) else st_chunks s)"
    "st_xattrs t = (if del then del_where (\<lambda>x. x_ino x = c) (st_xattrs s) else st_xattrs s)"
    "del \<longleftrightarrow> \<not> ino_in (st_inodes t) c" "st_kv t = st_kv s" "st_blobs t = st_blobs s"
proof -
  obtain d i where a: "row_at dkey (st_dirents s) (p, n) = Some d" "d_child d = c"
    "row_at i_ino (st_inodes s) c = Some i" "i_kind i = KindDir \<longrightarrow> dir_children c s = 0"
    "1 \<le> i_nlink i" "del = (i_nlink i = 1)"
    and t: "t = (if del then delete_inode_row c (unlinked p n c s) else unlinked p n c s)"
    using r by (rule unlink_in_tx_Inr)
  note tree = store_wf_tree [OF wf]
  have d: "d \<in> set (st_dirents s)" "d_parent d = p" "d_name d = n" using row_at_SomeD [OF a(1)] by auto
  have pdir: "dir_in (st_inodes s) p" using tree_okD(6) [OF tree d(1)] d(2) by simp
  have i: "i \<in> set (st_inodes s)" "i_ino i = c" using row_at_SomeD [OF a(3)] by auto
  show cp: "c \<noteq> p"
  proof
    assume "c = p"
    then have "i_kind i = KindDir" using pdir dir_in_unique [OF tree_okD(1) [OF tree]] i by metis
    then have "\<forall>e\<in>set (st_dirents s). d_parent e \<noteq> c" using a(4) by (simp add: dir_children_def cnt_where_0)
    then show False using d \<open>c = p\<close> by blast
  qed
  have D: "del_where (\<lambda>e. d_parent e = c \<or> d_child e = c) (del_where (\<lambda>d. dkey d = (p, n)) (st_dirents s))
      = del_where (\<lambda>d. dkey d = (p, n)) (st_dirents s)" if del
    unfolding del_where_def [of "\<lambda>e. d_parent e = c \<or> d_child e = c"]
    by (rule filter_True)
       (use unlink_last_no_refs [OF tree a(1), of i] a that in \<open>simp add: dir_children_def\<close>)
  show "st_dirents t = del_where (\<lambda>d. dkey d = (p, n)) (st_dirents s)"
    using D by (simp add: t unlinked_def delete_inode_row_def del: set_del_where)
  show "\<exists>d. row_at dkey (st_dirents s) (p, n) = Some d \<and> d_child d = c" using a by blast
  show "row_at i_ino (st_inodes t) k =
       (if k = c then (if del then None else map_option (\<lambda>i. i\<lparr>i_nlink := i_nlink i - 1\<rparr>) (row_at i_ino (st_inodes s) c))
        else row_at i_ino (st_inodes s) k)"
    by (simp add: t unlinked_def delete_inode_row_def row_at_unlinked tbl)
  show "dir_in (st_inodes t) p" using pdir cp by (simp add: t unlinked_def delete_inode_row_def dir_in_del)
  show "ino_in (st_inodes s) k \<Longrightarrow> k \<noteq> c \<Longrightarrow> ino_in (st_inodes t) k"
    by (simp add: t unlinked_def delete_inode_row_def ino_in_del)
  show "del \<longleftrightarrow> \<not> ino_in (st_inodes t) c"
    using i by (auto simp: t unlinked_def delete_inode_row_def ino_in_del) (auto simp: ino_in_def)
  show "st_replaying t = st_replaying s" "st_ino_seq t = st_ino_seq s"
    "st_journal t = st_journal s" "st_jnl_seq t = st_jnl_seq s" "st_kv t = st_kv s" "st_blobs t = st_blobs s"
    "st_chunks t = (if del then del_where (\<lambda>x. c_ino x = c) (st_chunks s) else st_chunks s)"
    "st_xattrs t = (if del then del_where (\<lambda>x. x_ino x = c) (st_xattrs s) else st_xattrs s)"
    by (simp_all add: t delete_inode_row_def)
qed

lemma unlink_wf:
  assumes wf: "store_wf s" shows "store_wf (snd (unlink p n s))"
  unfolding unlink_def
proof (rule with_tx_wf [OF wf])
  fix a t assume "unlink_tx p n s = Inr (a, t)"
  then obtain c del s1 where "unlink_in_tx p n s = Inr ((c, del), s1)"
    "t = append_journal_tx ((zero_op OpUnlink)\<lparr>jo_parent := p, jo_name := n\<rparr>) s1"
    by (auto simp: unlink_tx_def split: sum.splits prod.splits)
  then show "store_wf t" using unlink_in_tx_wf [OF wf] store_wf_journal by metis
qed

section \<open>Rename\<close>

lemma move_dirent_Inr:
  assumes "move_dirent op on np nn s = Inr t" "row_at dkey (st_dirents s) (op, on) \<noteq> None"
    "(op, on) \<noteq> (np, nn)"
  shows "row_at dkey (st_dirents s) (np, nn) = None" "ino_in (st_inodes s) np"
    "t = s\<lparr>st_dirents := upd_where (\<lambda>d. dkey d = (op, on)) (\<lambda>d. d\<lparr>d_parent := np, d_name := nn\<rparr>) (st_dirents s)\<rparr>"
  using assms by (auto simp: move_dirent_def has_inode_in split: if_splits)

text \<open>The cycle check makes the move safe: the source does not reach the new parent.\<close>

lemma no_cycle:
  assumes wf: "store_wf s" and src: "row_at i_ino (st_inodes s) c = Some i" and np: "dir_in (st_inodes s) np"
    and chk: "i_kind i = KindDir \<Longrightarrow> is_ancestor s c np = Some False"
  shows "(c, np) \<notin> (tree_rel (st_dirents s))\<^sup>*"
proof (cases "i_kind i = KindDir")
  case True
  then show ?thesis using chk is_ancestor_correct [OF store_wf_tree [OF wf] np] by simp
next
  case False
  note tree = store_wf_tree [OF wf]
  have i: "i \<in> set (st_inodes s)" "i_ino i = c" using row_at_SomeD [OF src] by auto
  then have nd: "\<not> dir_in (st_inodes s) c"
    using False dir_in_unique [OF tree_okD(1) [OF tree]] by metis
  then have "(c, y) \<notin> tree_rel (st_dirents s)" for y
    using tree_okD(6) [OF tree] by (auto simp: tree_rel_def)
  moreover have "c \<noteq> np" using nd np by auto
  ultimately show ?thesis by (metis converse_rtranclE)
qed

lemma rename_finish_wf:
  assumes wf: "store_wf s" and d: "row_at dkey (st_dirents s) (op, on) = Some d"
    and ne: "(op, on) \<noteq> (np, nn)" and np: "dir_in (st_inodes s) np"
    and nc: "(d_child d, np) \<notin> (tree_rel (st_dirents s))\<^sup>*"
    and r: "rename_finish op on np nn del s = Inr (a, t)"
  shows "store_wf t"
proof -
  obtain s1 where m: "move_dirent op on np nn s = Inr s1"
    and t: "t = append_journal_tx ((zero_op OpRename)\<lparr>jo_parent := op, jo_name := on,
             jo_new_parent := np, jo_new_name := nn\<rparr>) s1"
    using r by (auto simp: rename_finish_def split: sum.splits)
  have "row_at dkey (st_dirents s) (op, on) \<noteq> None" using d by simp
  note mv = move_dirent_Inr [OF m this ne]
  have "tree_ok (st_inodes s1) (st_ino_seq s1) (st_dirents s1)"
    using tree_ok_move [OF store_wf_tree [OF wf] d mv(1) np nc] by (simp add: mv(3))
  moreover have "rows_ok s1"
    by (rule rows_ok_mono [of s]) (use wf in \<open>auto simp: store_wf_def mv(3)\<close>)
  ultimately show ?thesis unfolding t by (intro store_wf_journal) (simp add: store_wf_def)
qed

text \<open>The ways a rename transaction can commit.\<close>

lemma rename_tx_Inr:
  assumes "rename_tx op on np nn s = Inr (a, t)"
  obtains (same) src dst where "lookup op on s = Inr src" "lookup np nn s = Inr dst"
      "i_ino dst = i_ino src" "a = 0" "t = s"
  | (free) src where "lookup op on s = Inr src" "lookup np nn s = Inl ErrNotFound"
      "dir_in (st_inodes s) np" "i_kind src = KindDir \<Longrightarrow> is_ancestor s (i_ino src) np = Some False"
      "rename_finish op on np nn 0 s = Inr (a, t)"
  | (over) src dst c del s1 where "lookup op on s = Inr src" "lookup np nn s = Inr dst"
      "i_ino dst \<noteq> i_ino src" "dir_in (st_inodes s) np"
      "i_kind src = KindDir \<Longrightarrow> is_ancestor s (i_ino src) np = Some False"
      "i_kind dst = KindDir \<longleftrightarrow> i_kind src = KindDir"
      "i_kind dst = KindDir \<Longrightarrow> dir_children (i_ino dst) s = 0"
      "unlink_in_tx np nn s = Inr ((c, del), s1)"
      "rename_finish op on np nn (if del then c else 0) s1 = Inr (a, t)"
proof -
  obtain src pin where src: "lookup op on s = Inr src" and pin: "get_inode np s = Inr pin" "i_kind pin = KindDir"
    and anc: "i_kind src = KindDir \<Longrightarrow> is_ancestor s (i_ino src) np = Some False"
    and rest: "(case lookup np nn s of Inr dst \<Rightarrow> rename_over op on np nn src dst s
       | Inl e \<Rightarrow> if e \<noteq> ErrNotFound then Inl e else rename_finish op on np nn 0 s) = Inr (a, t)"
    using assms by (auto simp: rename_tx_def split: sum.splits if_splits)
  note np = get_inode_dir [OF pin]
  show thesis
  proof (cases "lookup np nn s")
    case (Inl e)
    then have "e = ErrNotFound" "rename_finish op on np nn 0 s = Inr (a, t)"
      using rest by (auto split: if_splits)
    then show ?thesis using free [OF src _ np anc] Inl by simp
  next
    case (Inr dst)
    then have ov: "rename_over op on np nn src dst s = Inr (a, t)" using rest by simp
    show ?thesis
    proof (cases "i_ino dst = i_ino src")
      case True
      then show ?thesis using ov same [OF src Inr] by (simp add: rename_over_def)
    next
      case False
      then obtain c del s1 where "unlink_in_tx np nn s = Inr ((c, del), s1)"
        "rename_finish op on np nn (if del then c else 0) s1 = Inr (a, t)"
        using ov by (auto simp: rename_over_def split: if_splits sum.splits prod.splits)
      moreover have "i_kind dst = KindDir \<longleftrightarrow> i_kind src = KindDir"
        "i_kind dst = KindDir \<Longrightarrow> dir_children (i_ino dst) s = 0"
        using ov False by (auto simp: rename_over_def split: if_splits)
      ultimately show ?thesis using over [OF src Inr False np anc] by blast
    qed
  qed
qed

lemma rename_tx_wf:
  assumes wf: "store_wf s" and ne: "(op, on) \<noteq> (np, nn)" and r: "rename_tx op on np nn s = Inr (a, t)"
  shows "store_wf t"
  using r
proof (cases rule: rename_tx_Inr)
  case same
  then show ?thesis using wf by simp
next
  case (free src)
  then obtain d where d: "row_at dkey (st_dirents s) (op, on) = Some d" "row_at i_ino (st_inodes s) (d_child d) = Some src"
    by (auto simp: lookup_Inr)
  then have "i_ino src = d_child d" by (auto dest: row_at_SomeD)
  then have "(d_child d, np) \<notin> (tree_rel (st_dirents s))\<^sup>*"
    using no_cycle [OF wf d(2) free(3)] free(4) by simp
  then show ?thesis using rename_finish_wf [OF wf d(1) ne free(3) _ free(5)] by simp
next
  case (over src dst c del s1)
  then obtain d where d: "row_at dkey (st_dirents s) (op, on) = Some d" "row_at i_ino (st_inodes s) (d_child d) = Some src"
    by (auto simp: lookup_Inr)
  then have "i_ino src = d_child d" by (auto dest: row_at_SomeD)
  then have nc: "(d_child d, np) \<notin> (tree_rel (st_dirents s))\<^sup>*"
    using no_cycle [OF wf d(2) over(4)] over(5) by simp
  note eff = unlink_in_tx_effect [OF wf over(8)]
  have "(d_child d, np) \<notin> (tree_rel (st_dirents s1))\<^sup>*"
    using nc tree_rel_del rtrancl_mono unfolding eff(1) by blast
  moreover have "row_at dkey (st_dirents s1) (op, on) = Some d"
    unfolding eff(1) using d(1) ne by (simp add: row_at_del del: prod.inject)
  ultimately show ?thesis
    using rename_finish_wf [OF unlink_in_tx_wf [OF wf over(8)] _ ne eff(4) _ over(9)] by blast
qed

lemma rename_wf:
  assumes wf: "store_wf s" shows "store_wf (snd (rename op on np nn s))"
proof (cases "op = np \<and> on = nn")
  case True
  then show ?thesis using wf by (simp add: rename_def)
next
  case False
  then have "(op, on) \<noteq> (np, nn)" by simp
  then have "store_wf (snd (with_tx (rename_tx op on np nn) s))"
    by (intro with_tx_wf [OF wf] rename_tx_wf [OF wf])
  then show ?thesis using wf by (simp add: rename_def)
qed

end
