(* ===== verification/NamespaceSpec.thy ===== *)
theory NamespaceSpec
  imports MetaInv
begin

text \<open>
  What the namespace operations promise, as functions on the abstract directory: a finite map
  from (directory, name) to inode number, with the kind of each inode beside it.  Each
  operation of \<open>dirent.go\<close> refines its abstract counterpart, errors included: on a well-formed
  store no other error than the ones the specification names can be returned.
\<close>

type_synonym ns_map = "int \<times> string \<Rightarrow> int option"
type_synonym kind_map = "int \<Rightarrow> kind option"

definition ns :: "store \<Rightarrow> ns_map" where
  "ns s k = map_option d_child (row_at dkey (st_dirents s) k)"

definition kinds :: "store \<Rightarrow> kind_map" where
  "kinds s c = map_option i_kind (row_at i_ino (st_inodes s) c)"

definition ns_edges :: "ns_map \<Rightarrow> (int \<times> int) set" where
  "ns_edges m = {(p, c). \<exists>n. m (p, n) = Some c}"

section \<open>The specification\<close>

definition need_dir :: "kind_map \<Rightarrow> int \<Rightarrow> meta_err option" where
  "need_dir K p = (case K p of None \<Rightarrow> Some ErrNotFound
     | Some k \<Rightarrow> if k \<noteq> KindDir then Some ErrNotDir else None)"

definition spec_create :: "ns_map \<Rightarrow> kind_map \<Rightarrow> int \<Rightarrow> int \<Rightarrow> string \<Rightarrow> meta_err + ns_map" where
  "spec_create m K new p n =
     (case need_dir K p of Some e \<Rightarrow> Inl e
      | None \<Rightarrow> if m (p, n) \<noteq> None then Inl ErrExists else Inr (m((p, n) \<mapsto> new)))"

definition spec_link :: "ns_map \<Rightarrow> kind_map \<Rightarrow> int \<Rightarrow> string \<Rightarrow> int \<Rightarrow> meta_err + ns_map" where
  "spec_link m K p n tgt =
     (case need_dir K p of Some e \<Rightarrow> Inl e
      | None \<Rightarrow> (case K tgt of None \<Rightarrow> Inl ErrNotFound
         | Some k \<Rightarrow> if k = KindDir then Inl ErrIsDir
             else if m (p, n) \<noteq> None then Inl ErrExists else Inr (m((p, n) \<mapsto> tgt))))"

definition spec_unlink :: "ns_map \<Rightarrow> kind_map \<Rightarrow> int \<Rightarrow> string \<Rightarrow> meta_err + ns_map" where
  "spec_unlink m K p n =
     (case m (p, n) of None \<Rightarrow> Inl ErrNotFound
      | Some c \<Rightarrow> if K c = Some KindDir \<and> (\<exists>x. m (c, x) \<noteq> None) then Inl ErrNotEmpty
          else Inr (m((p, n) := None)))"

definition spec_rename :: "ns_map \<Rightarrow> kind_map \<Rightarrow> int \<Rightarrow> string \<Rightarrow> int \<Rightarrow> string \<Rightarrow> meta_err + ns_map" where
  "spec_rename m K op on np nn =
     (if (op, on) = (np, nn) then Inr m
      else (case m (op, on) of None \<Rightarrow> Inl ErrNotFound
       | Some src \<Rightarrow> (case need_dir K np of Some e \<Rightarrow> Inl e
       | None \<Rightarrow> if K src = Some KindDir \<and> (src, np) \<in> (ns_edges m)\<^sup>* then Inl ErrCycle
         else (case m (np, nn) of None \<Rightarrow> Inr (m((op, on) := None, (np, nn) \<mapsto> src))
          | Some dst \<Rightarrow> if dst = src then Inr m
              else if K dst = Some KindDir \<and> K src \<noteq> Some KindDir then Inl ErrIsDir
              else if K dst = Some KindDir \<and> (\<exists>x. m (dst, x) \<noteq> None) then Inl ErrNotEmpty
              else if K dst \<noteq> Some KindDir \<and> K src = Some KindDir then Inl ErrNotDir
              else Inr (m((op, on) := None, (np, nn) \<mapsto> src))))))"

definition ns_result :: "(meta_err + 'a) \<times> store \<Rightarrow> meta_err + ns_map" where
  "ns_result r = (case r of (Inl e, _) \<Rightarrow> Inl e | (Inr _, t) \<Rightarrow> Inr (ns t))"

section \<open>Connecting lemmas\<close>

lemma ns_ctr [simp]: "ns (s\<lparr>st_write_ctr := n\<rparr>) = ns s"
  by (rule ext) (simp add: ns_def)

lemma ns_journal [simp]: "ns (append_journal_tx op s) = ns s"
  by (rule ext) (simp add: ns_def)

lemma ns_result_with_tx: "ns_result (with_tx f s) = (case f s of Inl e \<Rightarrow> Inl e | Inr (a, t) \<Rightarrow> Inr (ns t))"
  by (auto simp: ns_result_def with_tx_def split: sum.splits prod.splits)

lemma ns_lookup:
  assumes "store_wf s"
  shows "lookup p n s = (case ns s (p, n) of None \<Rightarrow> Inl ErrNotFound | Some c \<Rightarrow> get_inode c s)"
  using lookup_Inl [OF store_wf_tree [OF assms], of p n]
  by (auto simp: lookup_def ns_def get_inode_def split: option.splits)

lemma get_inode_kinds: "get_inode c s = Inr i \<Longrightarrow> kinds s c = Some (i_kind i) \<and> i_ino i = c"
  by (auto simp: get_inode_Inr kinds_def dest: row_at_SomeD)

lemma get_inode_None: "get_inode c s = Inl e \<longleftrightarrow> e = ErrNotFound \<and> kinds s c = None"
  by (auto simp: get_inode_Inl has_inode_def kinds_def)

lemma ns_child: assumes "store_wf s" "ns s (p, n) = Some c"
  obtains i where "get_inode c s = Inr i" "lookup p n s = Inr i" "i_ino i = c" "kinds s c = Some (i_kind i)"
proof -
  have "lookup p n s \<noteq> Inl e" for e
    using assms lookup_Inl [OF store_wf_tree [OF assms(1)], of p n] by (auto simp: ns_def)
  then obtain i where "lookup p n s = Inr i" by (cases "lookup p n s") auto
  moreover then have "get_inode c s = Inr i" using ns_lookup [OF assms(1), of p n] assms(2) by simp
  ultimately show ?thesis using that get_inode_kinds by blast
qed

lemma ns_no_child: "store_wf s \<Longrightarrow> ns s (p, n) = None \<Longrightarrow> lookup p n s = Inl ErrNotFound"
  by (simp add: ns_lookup)

lemma need_dir_get: "need_dir (kinds s) p =
    (case get_inode p s of Inl e \<Rightarrow> Some e | Inr i \<Rightarrow> if i_kind i \<noteq> KindDir then Some ErrNotDir else None)"
  by (auto simp: need_dir_def kinds_def get_inode_def split: option.splits)

lemma dir_children_ns: "keyed dkey (st_dirents s) \<Longrightarrow> 0 < dir_children c s \<longleftrightarrow> (\<exists>x. ns s (c, x) \<noteq> None)"
proof -
  have "0 < dir_children c s \<longleftrightarrow> (\<exists>d\<in>set (st_dirents s). d_parent d = c)"
    by (simp add: dir_children_def cnt_where_pos)
  also have "\<dots> \<longleftrightarrow> (\<exists>x. row_at dkey (st_dirents s) (c, x) \<noteq> None)"
    by (auto simp: row_at_None_iff)
  finally show ?thesis by (simp add: ns_def)
qed

lemma ns_edges_tree: "keyed dkey (st_dirents s) \<Longrightarrow> ns_edges (ns s) = tree_rel (st_dirents s)"
  by (force simp: ns_edges_def ns_def tree_rel_def row_at_eq_Some)

lemma kinds_dir_in: "keyed i_ino (st_inodes s) \<Longrightarrow> dir_in (st_inodes s) p \<longleftrightarrow> kinds s p = Some KindDir"
  by (auto simp: dir_in_def kinds_def row_at_eq_Some)

lemma kinds_ino_in: "ino_in (st_inodes s) p \<longleftrightarrow> kinds s p \<noteq> None"
  by (auto simp: ino_in_def kinds_def row_at_None_iff)

section \<open>Refinement of each operation\<close>

text \<open>The dirents after an insertion, a deletion, a move.\<close>

lemma ns_append: "row_at dkey (st_dirents s) (p, n) = None \<Longrightarrow>
   ns (s\<lparr>st_inodes := I, st_ino_seq := q, st_dirents := st_dirents s @ [\<lparr>d_parent = p, d_name = n, d_child = c\<rparr>]\<rparr>)
     = (ns s)((p, n) \<mapsto> c)"
  by (rule ext) (auto simp: ns_def row_at_append row_at_Cons split: option.splits)

lemma ns_unlink:
  assumes "st_dirents t = del_where (\<lambda>d. dkey d = k) (st_dirents s)"
  shows "ns t = (ns s)(k := None)"
  by (rule ext) (simp only: ns_def assms row_at_del, simp add: ns_def)

lemma create_child_refines:
  assumes wf: "store_wf s"
  shows "ns_result (create_child now p n child s) = spec_create (ns s) (kinds s) (st_ino_seq s + 1) p n"
proof -
  let ?tx = "create_child_tx now p n (normalize_child now child) s"
  have ok: "\<exists>t. ?tx = Inr (st_ino_seq s + 1, t)"
    if "get_inode p s = Inr pin" "i_kind pin = KindDir" "ns s (p, n) = None" for pin
  proof -
    have "row_at dkey (st_dirents s) (p, n) = None" using that(3) by (simp add: ns_def)
    moreover have "row_at i_ino (st_inodes s) p \<noteq> None" using that(1) by (simp add: get_inode_Inr)
    ultimately show ?thesis
      using that ns_no_child [OF wf that(3)]
      by (simp add: create_child_tx_def create_inode_def Let_def insert_dirent_def has_inode_def row_at_append row_at_Cons
          split: option.splits) auto
  qed
  have "(case ?tx of Inl e \<Rightarrow> Inl e | Inr (a, t) \<Rightarrow> Inr (ns t)) = spec_create (ns s) (kinds s) (st_ino_seq s + 1) p n"
  proof (cases "\<exists>pin. get_inode p s = Inr pin \<and> i_kind pin = KindDir \<and> ns s (p, n) = None")
    case True
    then obtain pin t where 1: "get_inode p s = Inr pin" "i_kind pin = KindDir" "ns s (p, n) = None"
      and t: "?tx = Inr (st_ino_seq s + 1, t)" using ok by blast
    have "ns t = (ns s)((p, n) \<mapsto> st_ino_seq s + 1)"
      using create_child_tx_Inr [OF t] by (simp add: ns_append)
    then show ?thesis using 1 t by (simp add: spec_create_def need_dir_get)
  next
    case False
    then show ?thesis
      by (cases "get_inode p s"; cases "ns s (p, n)")
         (auto simp: create_child_tx_def spec_create_def need_dir_get elim: ns_child [OF wf])
  qed
  then show ?thesis by (simp add: create_child_def ns_result_with_tx)
qed

lemma link_refines:
  assumes wf: "store_wf s"
  shows "ns_result (link p n tgt s) = spec_link (ns s) (kinds s) p n tgt"
proof -
  let ?res = "\<lambda>r. case r of Inl e \<Rightarrow> Inl e | Inr (a, t) \<Rightarrow> Inr (ns t)"
  have "?res (link_tx p n tgt s) = spec_link (ns s) (kinds s) p n tgt"
  proof (cases "get_inode p s")
    case (Inl e)
    then show ?thesis by (simp add: link_tx_def spec_link_def need_dir_get)
  next
    case p: (Inr pin)
    then have pk: "kinds s p = Some (i_kind pin)" "has_inode s p"
      using get_inode_kinds by (auto simp: get_inode_Inr has_inode_def)
    show ?thesis
    proof (cases "get_inode tgt s")
      case (Inl e)
      then have "kinds s tgt = None" "e = ErrNotFound" by (simp_all add: get_inode_None)
      then show ?thesis using p Inl by (simp add: link_tx_def spec_link_def need_dir_get)
    next
      case t: (Inr tin)
      then have tk: "kinds s tgt = Some (i_kind tin)" "has_inode s tgt"
        using get_inode_kinds by (auto simp: get_inode_Inr has_inode_def)
      show ?thesis
      proof (cases "ns s (p, n)")
        case (Some c)
        then obtain i where "lookup p n s = Inr i" using ns_child [OF wf] by blast
        then show ?thesis using p t pk tk Some by (simp add: link_tx_def spec_link_def need_dir_def)
      next
        case None
        then have free: "row_at dkey (st_dirents s) (p, n) = None" by (simp add: ns_def)
        have "ns (upd_inode tgt f (s\<lparr>st_dirents := st_dirents s @ [\<lparr>d_parent = p, d_name = n, d_child = tgt\<rparr>]\<rparr>))
            = (ns s)((p, n) \<mapsto> tgt)" for f
          using free by (intro ext) (auto simp: ns_def row_at_append row_at_Cons split: option.splits)
        then show ?thesis using p t pk tk None ns_no_child [OF wf None] free
          by (simp add: link_tx_def spec_link_def need_dir_def insert_dirent_def)
      qed
    qed
  qed
  then show ?thesis by (simp add: link_def ns_result_with_tx)
qed

text \<open>\<open>unlinkInTx\<close> succeeds exactly when the name exists and is no directory with entries.\<close>

lemma unlink_in_tx_total:
  assumes wf: "store_wf s"
  shows "(case unlink_in_tx p n s of Inl e \<Rightarrow> Some e | Inr _ \<Rightarrow> None) =
    (case ns s (p, n) of None \<Rightarrow> Some ErrNotFound
     | Some c \<Rightarrow> if kinds s c = Some KindDir \<and> 0 < dir_children c s then Some ErrNotEmpty else None)"
proof (cases "ns s (p, n)")
  case None
  then show ?thesis using ns_no_child [OF wf None] by (simp add: unlink_in_tx_def)
next
  case (Some c)
  then obtain i where i: "get_inode c s = Inr i" "lookup p n s = Inr i" "i_ino i = c" "kinds s c = Some (i_kind i)"
    using ns_child [OF wf] by blast
  have row: "row_at i_ino (st_inodes s) c = Some i" using i(1) by (simp add: get_inode_Inr)
  have mem: "i \<in> set (st_inodes s)" using row row_at_SomeD by metis
  obtain d where d: "row_at dkey (st_dirents s) (p, n) = Some d" "d_child d = c"
    using Some by (auto simp: ns_def)
  then have "c \<noteq> RootIno" using tree_okD(8) [OF store_wf_tree [OF wf]] row_at_SomeD by metis
  then have "1 \<le> i_nlink i"
    using tree_okD(3) [OF store_wf_tree [OF wf]] mem i(3) unfolding links_ok_def by fastforce
  then show ?thesis using i row Some
    by (auto simp: unlink_in_tx_def Let_def get_inode_def row_at_upd_inode split: option.splits)
qed

lemma unlink_refines:
  assumes wf: "store_wf s"
  shows "ns_result (unlink p n s) = spec_unlink (ns s) (kinds s) p n"
proof (cases "unlink_in_tx p n s")
  case (Inl e)
  then show ?thesis
    using unlink_in_tx_total [OF wf, of p n] dir_children_ns [of s] tree_okD(2) [OF store_wf_tree [OF wf]]
    by (auto simp: unlink_def ns_result_with_tx unlink_tx_def spec_unlink_def split: option.splits if_splits)
next
  case (Inr a)
  then obtain c del t where r: "unlink_in_tx p n s = Inr ((c, del), t)" by (cases a) auto
  have "ns t = (ns s)((p, n) := None)" by (rule ns_unlink [OF unlink_in_tx_effect(1) [OF wf r]])
  then show ?thesis
    using r unlink_in_tx_total [OF wf, of p n] dir_children_ns [of s] tree_okD(2) [OF store_wf_tree [OF wf]]
    by (auto simp: unlink_def ns_result_with_tx unlink_tx_def spec_unlink_def split: option.splits if_splits)
qed

text \<open>A move on the store is a move on the map.\<close>

lemma rename_finish_ns:
  assumes "keyed dkey (st_dirents s)" "ns s (op, on) = Some c" "ns s (np, nn) = None"
    "(op, on) \<noteq> (np, nn)" "has_inode s np"
  shows "\<exists>t. rename_finish op on np nn del s = Inr (del, t) \<and> ns t = (ns s)((op, on) := None, (np, nn) \<mapsto> c)"
proof -
  let ?s = "s\<lparr>st_dirents := upd_where (\<lambda>d. dkey d = (op, on)) (\<lambda>d. d\<lparr>d_parent := np, d_name := nn\<rparr>) (st_dirents s)\<rparr>"
  have none: "row_at dkey (st_dirents s) (np, nn) = None" using assms(3) by (simp add: ns_def)
  have some: "row_at dkey (st_dirents s) (op, on) \<noteq> None" using assms(2) by (auto simp: ns_def)
  have "move_dirent op on np nn s = Inr ?s"
    unfolding move_dirent_def using none some assms(5) by (auto simp del: prod.inject)
  moreover have "ns ?s = (ns s)((op, on) := None, (np, nn) \<mapsto> c)"
  proof
    fix x
    have "row_at dkey (upd_where (\<lambda>d. dkey d = (op, on)) (\<lambda>d. d\<lparr>d_parent := np, d_name := nn\<rparr>) (st_dirents s)) x =
      (if x = (np, nn) then map_option (\<lambda>d. d\<lparr>d_parent := np, d_name := nn\<rparr>) (row_at dkey (st_dirents s) (op, on))
       else if x = (op, on) then None else row_at dkey (st_dirents s) x)"
      by (rule row_at_rekey [OF assms(1) none]) (use assms(4) in simp_all)
    then show "ns ?s x = ((ns s)((op, on) := None, (np, nn) \<mapsto> c)) x"
      using assms(2) by (auto simp: ns_def)
  qed
  ultimately show ?thesis by (simp add: rename_finish_def)
qed

lemma rename_over_refines:
  assumes wf: "store_wf s" and ne: "(op, on) \<noteq> (np, nn)" and np: "kinds s np = Some KindDir"
    and src: "ns s (op, on) = Some (i_ino src)" "kinds s (i_ino src) = Some (i_kind src)"
    and dst: "ns s (np, nn) = Some (i_ino dst)" "kinds s (i_ino dst) = Some (i_kind dst)"
  shows "(case rename_over op on np nn src dst s of Inl e \<Rightarrow> Inl e | Inr (a, t) \<Rightarrow> Inr (ns t)) =
     (if i_ino dst = i_ino src then Inr (ns s)
      else if i_kind dst = KindDir \<and> i_kind src \<noteq> KindDir then Inl ErrIsDir
      else if i_kind dst = KindDir \<and> (\<exists>x. ns s (i_ino dst, x) \<noteq> None) then Inl ErrNotEmpty
      else if i_kind dst \<noteq> KindDir \<and> i_kind src = KindDir then Inl ErrNotDir
      else Inr ((ns s)((op, on) := None, (np, nn) \<mapsto> i_ino src)))"
proof -
  have kd: "keyed dkey (st_dirents s)" using tree_okD(2) [OF store_wf_tree [OF wf]] .
  note ch = dir_children_ns [OF kd, of "i_ino dst"]
  show ?thesis
  proof (cases "i_ino dst = i_ino src \<or> i_kind dst = KindDir \<and> i_kind src \<noteq> KindDir \<or>
      i_kind dst = KindDir \<and> 0 < dir_children (i_ino dst) s \<or> i_kind dst \<noteq> KindDir \<and> i_kind src = KindDir")
    case True
    then show ?thesis using ch by (auto simp: rename_over_def)
  next
    case False
    then have "(case unlink_in_tx np nn s of Inl e \<Rightarrow> Some e | Inr _ \<Rightarrow> None) = None"
      using unlink_in_tx_total [OF wf, of np nn] dst by auto
    then obtain c del s1 where u: "unlink_in_tx np nn s = Inr ((c, del), s1)"
      by (auto split: sum.splits)
    note eff = unlink_in_tx_effect [OF wf u]
    have ns1: "ns s1 = (ns s)((np, nn) := None)" by (rule ns_unlink [OF eff(1)])
    have "\<exists>t. rename_finish op on np nn (if del then c else 0) s1 = Inr (if del then c else 0, t) \<and>
        ns t = (ns s1)((op, on) := None, (np, nn) \<mapsto> i_ino src)"
    proof (rule rename_finish_ns)
      show "keyed dkey (st_dirents s1)" unfolding eff(1) using kd by auto
      show "has_inode s1 np" using eff(4) dir_in_ino_in by (simp add: has_inode_in)
    qed (use ns1 src ne in auto)
    then obtain t where "rename_finish op on np nn (if del then c else 0) s1 = Inr (if del then c else 0, t)"
      and "ns t = (ns s)((op, on) := None, (np, nn) \<mapsto> i_ino src)"
      using ns1 ne by (auto simp: fun_upd_twist)
    then show ?thesis using False u ch by (auto simp: rename_over_def)
  qed
qed

lemma rename_refines:
  assumes wf: "store_wf s"
  shows "ns_result (rename op on np nn s) = spec_rename (ns s) (kinds s) op on np nn"
proof (cases "(op, on) = (np, nn)")
  case True
  then show ?thesis by (simp add: rename_def ns_result_def spec_rename_def)
next
  case ne: False
  note tree = store_wf_tree [OF wf]
  let ?res = "\<lambda>r. case r of Inl e \<Rightarrow> Inl e | Inr (a, t) \<Rightarrow> Inr (ns t)"
  have "?res (rename_tx op on np nn s) = spec_rename (ns s) (kinds s) op on np nn"
  proof (cases "ns s (op, on)")
    case None
    then show ?thesis using ne ns_no_child [OF wf None] by (auto simp: rename_tx_def spec_rename_def)
  next
    case (Some c)
    then obtain src where src: "lookup op on s = Inr src" "i_ino src = c" "kinds s c = Some (i_kind src)"
      using ns_child [OF wf] by blast
    show ?thesis
    proof (cases "\<exists>pin. get_inode np s = Inr pin \<and> i_kind pin = KindDir")
      case False
      then show ?thesis using ne Some src
        by (cases "get_inode np s") (auto simp: rename_tx_def spec_rename_def need_dir_get)
    next
      case True
      then obtain pin where pin: "get_inode np s = Inr pin" "i_kind pin = KindDir" by blast
      have npk: "kinds s np = Some KindDir" using get_inode_kinds [OF pin(1)] pin(2) by simp
      have anc: "is_ancestor s c np = Some ((c, np) \<in> (ns_edges (ns s))\<^sup>*)"
        using is_ancestor_correct [OF tree get_inode_dir [OF pin]] ns_edges_tree tree_okD(2) [OF tree] by simp
      have nd: "need_dir (kinds s) np = None" using npk by (simp add: need_dir_def)
      show ?thesis
      proof (cases "ns s (np, nn)")
        case None
        have "\<exists>t. rename_finish op on np nn 0 s = Inr (0, t) \<and> ns t = (ns s)((op, on) := None, (np, nn) \<mapsto> c)"
          by (rule rename_finish_ns [OF tree_okD(2) [OF tree] Some None ne])
             (use pin in \<open>simp add: has_inode_def get_inode_Inr\<close>)
        then show ?thesis using ne Some src pin anc nd ns_no_child [OF wf None] None
          by (auto simp: rename_tx_def spec_rename_def)
      next
        case (Some d)
        then obtain dst where dst: "lookup np nn s = Inr dst" "i_ino dst = d" "kinds s d = Some (i_kind dst)"
          using ns_child [OF wf] by blast
        show ?thesis
          using rename_over_refines [OF wf ne npk, of src dst] ne Some src pin anc nd dst \<open>ns s (op, on) = Some c\<close>
          by (auto simp: rename_tx_def spec_rename_def)
      qed
    qed
  qed
  then show ?thesis using ne by (auto simp: rename_def ns_result_with_tx)
qed

end
