(* ===== verification/MetaTables.thy ===== *)
theory MetaTables
  imports MetaInv
begin

text \<open>
  The tables beside the directory tree: extended attributes (\<open>xattr.go\<close>), the chunk map and
  the dedup index (\<open>chunk.go\<close>), and the journal (\<open>journal.go\<close>).  The Go type \<open>Chunk\<close> has two
  integers where a row of chunk_map has two nullable columns; \<open>chunk_of_row\<close> and
  \<open>nullable_pack_fields\<close> are the conversions.  A list with ORDER BY is a sort by that key.
\<close>

section \<open>Extended attributes\<close>

definition set_xattr :: "int \<Rightarrow> string \<Rightarrow> string \<Rightarrow> store \<Rightarrow> (meta_err + unit) \<times> store" where
  "set_xattr ino name v s = ignore_count (exec_with_retry
     (\<lambda>s. if \<not> has_inode s ino then Inl ErrForeignKey
          else Inr (1, s\<lparr>st_xattrs := upsert xkey \<lparr>x_ino = ino, x_name = name, x_value = v\<rparr> (st_xattrs s)\<rparr>)) s)"

definition get_xattr :: "int \<Rightarrow> string \<Rightarrow> store \<Rightarrow> meta_err + string" where
  "get_xattr ino name s = (case row_at xkey (st_xattrs s) (ino, name) of
     None \<Rightarrow> Inl ErrNotFound | Some x \<Rightarrow> Inr (x_value x))"

definition list_xattrs :: "int \<Rightarrow> store \<Rightarrow> string list" where
  "list_xattrs ino s = sort (map x_name (filter (\<lambda>x. x_ino x = ino) (st_xattrs s)))"

definition remove_xattr :: "int \<Rightarrow> string \<Rightarrow> store \<Rightarrow> (meta_err + unit) \<times> store" where
  "remove_xattr ino name s = require_rows (exec_with_retry
     (\<lambda>s. Inr (cnt_where (\<lambda>x. xkey x = (ino, name)) (st_xattrs s),
               s\<lparr>st_xattrs := del_where (\<lambda>x. xkey x = (ino, name)) (st_xattrs s)\<rparr>)) s)"

section \<open>The chunk map\<close>

record chunk =
  ch_ino :: int
  ch_idx :: int
  ch_msg :: int
  ch_size :: int
  ch_pack_offset :: int
  ch_pack_size :: int

definition is_packed :: "chunk \<Rightarrow> bool" where
  "is_packed c = (ch_pack_size c > 0)"

definition nullable_pack_fields :: "chunk \<Rightarrow> (int \<times> int) option" where
  "nullable_pack_fields c = (if ch_pack_size c = 0 then None else Some (ch_pack_offset c, ch_pack_size c))"

definition row_of_chunk :: "chunk \<Rightarrow> chunk_row" where
  "row_of_chunk c = \<lparr>c_ino = ch_ino c, c_idx = ch_idx c, c_msg = ch_msg c, c_size = ch_size c,
     c_pack = nullable_pack_fields c\<rparr>"

definition chunk_of_row :: "chunk_row \<Rightarrow> chunk" where
  "chunk_of_row r = \<lparr>ch_ino = c_ino r, ch_idx = c_idx r, ch_msg = c_msg r, ch_size = c_size r,
     ch_pack_offset = (case c_pack r of None \<Rightarrow> 0 | Some (off, _) \<Rightarrow> off),
     ch_pack_size = (case c_pack r of None \<Rightarrow> 0 | Some (_, sz) \<Rightarrow> sz)\<rparr>"

definition put_chunk_stmt :: "chunk_row \<Rightarrow> store \<Rightarrow> meta_err + (nat \<times> store)" where
  "put_chunk_stmt r s =
     (if \<not> has_inode s (c_ino r) then Inl ErrForeignKey
      else Inr (1, s\<lparr>st_chunks := upsert ckey r (st_chunks s)\<rparr>))"

definition put_chunk :: "chunk \<Rightarrow> store \<Rightarrow> (meta_err + unit) \<times> store" where
  "put_chunk c s = ignore_count (exec_with_retry (put_chunk_stmt (row_of_chunk c)) s)"

definition get_chunk :: "int \<Rightarrow> int \<Rightarrow> store \<Rightarrow> meta_err + chunk" where
  "get_chunk ino idx s = (case row_at ckey (st_chunks s) (ino, idx) of
     None \<Rightarrow> Inl ErrNotFound | Some r \<Rightarrow> Inr (chunk_of_row r))"

definition packed_extents_from :: "int \<Rightarrow> int \<Rightarrow> nat \<Rightarrow> store \<Rightarrow> chunk list" where
  "packed_extents_from msg from_off lim s =
     take lim (sort_key ch_pack_offset (map chunk_of_row
       (filter (\<lambda>r. c_msg r = msg \<and> (case c_pack r of None \<Rightarrow> False | Some (off, _) \<Rightarrow> from_off \<le> off)) (st_chunks s))))"

definition list_chunks :: "int \<Rightarrow> store \<Rightarrow> chunk list" where
  "list_chunks ino s = sort_key ch_idx (map chunk_of_row (filter (\<lambda>r. c_ino r = ino) (st_chunks s)))"

definition get_chunks_range :: "int \<Rightarrow> int \<Rightarrow> int \<Rightarrow> store \<Rightarrow> chunk list" where
  "get_chunks_range ino from_idx n s =
     (if n \<le> 0 then []
      else sort_key ch_idx (map chunk_of_row
        (filter (\<lambda>r. c_ino r = ino \<and> from_idx \<le> c_idx r \<and> c_idx r < from_idx + n) (st_chunks s))))"

definition delete_chunk :: "int \<Rightarrow> int \<Rightarrow> store \<Rightarrow> (meta_err + unit) \<times> store" where
  "delete_chunk ino idx s = require_rows (exec_with_retry
     (\<lambda>s. Inr (cnt_where (\<lambda>c. ckey c = (ino, idx)) (st_chunks s),
               s\<lparr>st_chunks := del_where (\<lambda>c. ckey c = (ino, idx)) (st_chunks s)\<rparr>)) s)"

definition all_chunks :: "store \<Rightarrow> chunk list" where
  "all_chunks s = sort_key ch_ino (sort_key ch_idx (map chunk_of_row (st_chunks s)))"

definition has_any_chunks :: "store \<Rightarrow> bool" where
  "has_any_chunks s = (st_chunks s \<noteq> [])"

definition count_chunks :: "store \<Rightarrow> nat" where
  "count_chunks s = length (st_chunks s)"

definition all_chunk_message_ids :: "store \<Rightarrow> int list" where
  "all_chunk_message_ids s = remdups (map c_msg (st_chunks s))"

definition delete_chunks_above :: "int \<Rightarrow> int \<Rightarrow> store \<Rightarrow> (meta_err + nat) \<times> store" where
  "delete_chunks_above ino start_idx = exec_with_retry
     (\<lambda>s. let p = (\<lambda>c. c_ino c = ino \<and> start_idx \<le> c_idx c) in
          Inr (cnt_where p (st_chunks s), s\<lparr>st_chunks := del_where p (st_chunks s)\<rparr>))"

section \<open>The dedup index\<close>

text \<open>\<open>ReuseChunkByHash\<close>: the result is (reused, message id, size).\<close>

definition reuse_chunk_tx :: "int \<Rightarrow> int \<Rightarrow> string \<Rightarrow> store \<Rightarrow> meta_err + ((bool \<times> int \<times> int) \<times> store)" where
  "reuse_chunk_tx ino idx hash s =
     (case row_at b_hash (st_blobs s) hash of
        None \<Rightarrow> Inr ((False, 0, 0), s)
      | Some b \<Rightarrow>
          if find (\<lambda>c. c_msg c = b_msg b) (st_chunks s) = None then Inr ((False, 0, 0), s)
          else (case put_chunk_stmt \<lparr>c_ino = ino, c_idx = idx, c_msg = b_msg b, c_size = b_size b, c_pack = None\<rparr> s of
                  Inl e \<Rightarrow> Inl e
                | Inr (_, s1) \<Rightarrow> Inr ((True, b_msg b, b_size b), s1)))"

definition reuse_chunk_by_hash :: "int \<Rightarrow> int \<Rightarrow> string \<Rightarrow> store \<Rightarrow> (meta_err + (bool \<times> int \<times> int)) \<times> store" where
  "reuse_chunk_by_hash ino idx hash = with_tx (reuse_chunk_tx ino idx hash)"

definition record_chunk_blob :: "string \<Rightarrow> int \<Rightarrow> int \<Rightarrow> store \<Rightarrow> (meta_err + unit) \<times> store" where
  "record_chunk_blob hash msg sz s =
     (if hash = [] then (Inl ErrEmptyHash, s)
      else ignore_count (exec_with_retry
        (\<lambda>s. Inr (1, s\<lparr>st_blobs := upsert b_hash \<lparr>b_hash = hash, b_msg = msg, b_size = sz\<rparr> (st_blobs s)\<rparr>)) s))"

definition prune_stale_chunk_blobs :: "store \<Rightarrow> (meta_err + nat) \<times> store" where
  "prune_stale_chunk_blobs = exec_with_retry
     (\<lambda>s. let p = (\<lambda>b. b_msg b \<notin> set (map c_msg (st_chunks s))) in
          Inr (cnt_where p (st_blobs s), s\<lparr>st_blobs := del_where p (st_blobs s)\<rparr>))"

definition count_chunk_blobs :: "store \<Rightarrow> nat" where
  "count_chunk_blobs s = length (st_blobs s)"

section \<open>The journal table\<close>

definition append_journal :: "journal_op \<Rightarrow> store \<Rightarrow> (meta_err + int) \<times> store" where
  "append_journal op s =
     (case exec_with_retry (\<lambda>s. Inr (1, s\<lparr>st_journal := st_journal s @ [\<lparr>j_seq = st_jnl_seq s + 1, j_op = op, j_posted = None\<rparr>],
             st_jnl_seq := st_jnl_seq s + 1\<rparr>)) s of
        (Inl e, s1) \<Rightarrow> (Inl e, s1)
      | (Inr _, s1) \<Rightarrow> (Inr (st_jnl_seq s1), s1))"

definition pending_journal :: "store \<Rightarrow> journal_row list" where
  "pending_journal s = sort_key j_seq (filter (\<lambda>j. j_posted j = None) (st_journal s))"

definition mark_journal_posted :: "int \<Rightarrow> int \<Rightarrow> store \<Rightarrow> (meta_err + unit) \<times> store" where
  "mark_journal_posted sq posted_at s = require_rows (exec_with_retry
     (\<lambda>s. Inr (cnt_where (\<lambda>j. j_seq j = sq) (st_journal s),
               s\<lparr>st_journal := upd_where (\<lambda>j. j_seq j = sq) (\<lambda>j. j\<lparr>j_posted := Some posted_at\<rparr>) (st_journal s)\<rparr>)) s)"

definition mark_posted_stmt :: "int list \<Rightarrow> int \<Rightarrow> store \<Rightarrow> meta_err + (nat \<times> store)" where
  "mark_posted_stmt seqs posted_at s = Inr (cnt_where (\<lambda>j. j_seq j \<in> set seqs) (st_journal s),
     s\<lparr>st_journal := upd_where (\<lambda>j. j_seq j \<in> set seqs) (\<lambda>j. j\<lparr>j_posted := Some posted_at\<rparr>) (st_journal s)\<rparr>)"

text \<open>\<open>BatchMarkJournalPosted\<close>: one UPDATE per 800 sequence numbers.\<close>

definition batch_chunk_sz :: nat where "batch_chunk_sz = 800"

function batch_mark_loop :: "int list \<Rightarrow> int \<Rightarrow> store \<Rightarrow> (meta_err + unit) \<times> store" where
  "batch_mark_loop seqs posted_at s =
     (if seqs = [] then (Inr (), s)
      else (case exec_with_retry (mark_posted_stmt (take batch_chunk_sz seqs) posted_at) s of
              (Inl e, s1) \<Rightarrow> (Inl e, s1)
            | (Inr _, s1) \<Rightarrow> batch_mark_loop (drop batch_chunk_sz seqs) posted_at s1))"
  by pat_completeness auto
termination
  by (relation "measure (\<lambda>(seqs, _, _). length seqs)") (auto simp: batch_chunk_sz_def)

declare batch_mark_loop.simps [simp del]

definition batch_mark_journal_posted :: "int list \<Rightarrow> int \<Rightarrow> store \<Rightarrow> (meta_err + unit) \<times> store" where
  "batch_mark_journal_posted seqs posted_at s =
     (if seqs = [] then (Inr (), s) else batch_mark_loop seqs posted_at s)"

definition delete_journal_up_to :: "int \<Rightarrow> store \<Rightarrow> (meta_err + nat) \<times> store" where
  "delete_journal_up_to up_to = exec_with_retry
     (\<lambda>s. let p = (\<lambda>j. j_seq j \<le> up_to \<and> j_posted j \<noteq> None) in
          Inr (cnt_where p (st_journal s), s\<lparr>st_journal := del_where p (st_journal s)\<rparr>))"

definition last_journal_seq :: "store \<Rightarrow> int" where
  "last_journal_seq s = st_jnl_seq s"

section \<open>The tables as slot stores\<close>

interpretation xattr_tbl: slot_store "\<lambda>t k. map_option x_value (row_at xkey t k)"
    "\<lambda>k v. upsert xkey \<lparr>x_ino = fst k, x_name = snd k, x_value = v\<rparr>"
    "\<lambda>k. del_where (\<lambda>x. xkey x = k)" "keyed xkey"
  by unfold_locales (simp_all only: row_at_upsert row_at_del, auto)

interpretation chunk_tbl: slot_store "\<lambda>t k. map_option (\<lambda>r. (c_msg r, c_size r, c_pack r)) (row_at ckey t k)"
    "\<lambda>k v. upsert ckey \<lparr>c_ino = fst k, c_idx = snd k, c_msg = fst v, c_size = fst (snd v), c_pack = snd (snd v)\<rparr>"
    "\<lambda>k. del_where (\<lambda>x. ckey x = k)" "keyed ckey"
  by unfold_locales (simp_all only: row_at_upsert row_at_del, auto)

interpretation blob_tbl: slot_store "\<lambda>t k. map_option (\<lambda>r. (b_msg r, b_size r)) (row_at b_hash t k)"
    "\<lambda>k v. upsert b_hash \<lparr>b_hash = k, b_msg = fst v, b_size = snd v\<rparr>"
    "\<lambda>k. del_where (\<lambda>x. b_hash x = k)" "keyed b_hash"
  by unfold_locales (simp_all only: row_at_upsert row_at_del, auto)

section \<open>Preservation of the invariant\<close>

lemma store_wf_chunks:
  "store_wf s \<Longrightarrow> keyed ckey C \<Longrightarrow> \<forall>c\<in>set C. ino_in (st_inodes s) (c_ino c) \<Longrightarrow> store_wf (s\<lparr>st_chunks := C\<rparr>)"
  by (simp add: store_wf_def rows_ok_def)

lemma store_wf_inodes:
  assumes "store_wf s" "\<And>i. i_ino (f i) = i_ino i" "\<And>i. i_kind (f i) = i_kind i" "\<And>i. i_nlink (f i) = i_nlink i"
  shows "store_wf (s\<lparr>st_inodes := upd_where p f (st_inodes s)\<rparr>)"
  using assms tree_ok_attrs [OF store_wf_tree [OF assms(1)], of f p]
  by (simp add: store_wf_def rows_ok_def ino_in_upd)

lemma store_wf_xattrs:
  "store_wf s \<Longrightarrow> keyed xkey X \<Longrightarrow> \<forall>x\<in>set X. ino_in (st_inodes s) (x_ino x) \<Longrightarrow> store_wf (s\<lparr>st_xattrs := X\<rparr>)"
  by (simp add: store_wf_def rows_ok_def)

lemma store_wf_blobs: "store_wf s \<Longrightarrow> keyed b_hash B \<Longrightarrow> store_wf (s\<lparr>st_blobs := B\<rparr>)"
  by (simp add: store_wf_def rows_ok_def)

lemma store_wf_kv: "store_wf s \<Longrightarrow> keyed kv_key K \<Longrightarrow> store_wf (s\<lparr>st_kv := K\<rparr>)"
  by (simp add: store_wf_def rows_ok_def)

lemma store_wfD:
  assumes "store_wf s"
  shows "keyed ckey (st_chunks s)" "keyed xkey (st_xattrs s)" "keyed kv_key (st_kv s)" "keyed b_hash (st_blobs s)"
    "c \<in> set (st_chunks s) \<Longrightarrow> ino_in (st_inodes s) (c_ino c)" "x \<in> set (st_xattrs s) \<Longrightarrow> ino_in (st_inodes s) (x_ino x)"
    "sorted_wrt (<) (map j_seq (st_journal s))" "j \<in> set (st_journal s) \<Longrightarrow> j_seq j \<le> st_jnl_seq s"
  using assms by (auto simp: store_wf_def rows_ok_def)

lemma set_xattr_wf: "store_wf s \<Longrightarrow> store_wf (snd (set_xattr i n v s))"
  unfolding set_xattr_def snd_ignore_count
  by (rule exec_wf) (auto simp: has_inode_in store_wfD split: if_splits
      intro!: store_wf_xattrs dest: subsetD [OF set_upsert_sub])

lemma remove_xattr_wf: "store_wf s \<Longrightarrow> store_wf (snd (remove_xattr i n s))"
  unfolding remove_xattr_def snd_require_rows
  by (rule exec_wf) (auto simp: store_wfD intro!: store_wf_xattrs)

lemma put_chunk_stmt_wf: "store_wf s \<Longrightarrow> put_chunk_stmt r s = Inr (n, t) \<Longrightarrow> store_wf t"
  by (auto simp: put_chunk_stmt_def has_inode_in store_wfD split: if_splits
      intro!: store_wf_chunks dest: subsetD [OF set_upsert_sub])

lemma put_chunk_wf: "store_wf s \<Longrightarrow> store_wf (snd (put_chunk c s))"
  unfolding put_chunk_def snd_ignore_count by (rule exec_wf) (auto intro: put_chunk_stmt_wf)

lemma delete_chunk_wf: "store_wf s \<Longrightarrow> store_wf (snd (delete_chunk i j s))"
  unfolding delete_chunk_def snd_require_rows
  by (rule exec_wf) (auto simp: store_wfD intro!: store_wf_chunks)

lemma delete_chunks_above_wf: "store_wf s \<Longrightarrow> store_wf (snd (delete_chunks_above i j s))"
  unfolding delete_chunks_above_def
  by (rule exec_wf) (auto simp: store_wfD Let_def intro!: store_wf_chunks)

lemma reuse_chunk_wf: "store_wf s \<Longrightarrow> store_wf (snd (reuse_chunk_by_hash i j h s))"
  unfolding reuse_chunk_by_hash_def
  by (rule with_tx_wf) (auto simp: reuse_chunk_tx_def split: option.splits sum.splits if_splits intro: put_chunk_stmt_wf)

lemma record_chunk_blob_wf: "store_wf s \<Longrightarrow> store_wf (snd (record_chunk_blob h m z s))"
  unfolding record_chunk_blob_def
  by (auto simp: store_wfD intro!: exec_wf store_wf_blobs)

lemma prune_wf: "store_wf s \<Longrightarrow> store_wf (snd (prune_stale_chunk_blobs s))"
  unfolding prune_stale_chunk_blobs_def
  by (rule exec_wf) (auto simp: Let_def store_wfD intro!: store_wf_blobs)

lemma put_kv_wf: "store_wf s \<Longrightarrow> store_wf (snd (put_kv k v s))"
  by (simp add: put_kv_state store_wf_kv store_wfD keyed_upsert)

lemma delete_kv_wf: "store_wf s \<Longrightarrow> store_wf (snd (delete_kv k s))"
  by (simp add: delete_kv_state store_wf_kv store_wfD keyed_del)

lemma store_wf_posted:
  assumes "store_wf s"
  shows "store_wf (s\<lparr>st_journal := upd_where p (\<lambda>j. j\<lparr>j_posted := v\<rparr>) (st_journal s)\<rparr>)"
  using assms by (auto simp: store_wf_def rows_ok_def map_upd_where ball_upd_where)

lemma sorted_wrt_del: "sorted_wrt (<) (map f t) \<Longrightarrow> sorted_wrt (<) (map f (del_where p t))"
  for f :: "'r \<Rightarrow> int"
  by (simp add: del_where_def sorted_wrt_map sorted_wrt_filter)

lemma delete_journal_wf: "store_wf s \<Longrightarrow> store_wf (snd (delete_journal_up_to n s))"
  unfolding delete_journal_up_to_def
  by (rule exec_wf) (auto simp: Let_def store_wf_def rows_ok_def sorted_wrt_del)

lemma append_journal_wf: "store_wf s \<Longrightarrow> store_wf (snd (append_journal op s))"
  by (auto simp: append_journal_def exec_with_retry_def store_wf_def rows_ok_def sorted_wrt_append)

section \<open>Chunk slots\<close>

text \<open>What a chunk reads back as: without a pack size the pack offset is not stored.\<close>

definition stored_chunk :: "chunk \<Rightarrow> chunk" where
  "stored_chunk c = (if ch_pack_size c = 0 then c\<lparr>ch_pack_offset := 0\<rparr> else c)"

lemma chunk_of_row_of_chunk [simp]: "chunk_of_row (row_of_chunk c) = stored_chunk c"
  by (simp add: chunk_of_row_def row_of_chunk_def nullable_pack_fields_def stored_chunk_def)

lemma put_chunk_effect:
  assumes "has_inode s (ch_ino c)"
  shows "put_chunk c s = (Inr (), s\<lparr>st_chunks := upsert ckey (row_of_chunk c) (st_chunks s), st_write_ctr := st_write_ctr s + 1\<rparr>)"
  using assms by (simp add: put_chunk_def exec_with_retry_def put_chunk_stmt_def row_of_chunk_def ignore_count_def)

lemma put_chunk_no_inode:
  "\<not> has_inode s (ch_ino c) \<Longrightarrow> put_chunk c s = (Inl ErrForeignKey, s)"
  by (simp add: put_chunk_def exec_with_retry_def put_chunk_stmt_def row_of_chunk_def ignore_count_def)

lemma get_chunk_after_put:
  assumes "has_inode s (ch_ino c)"
  shows "get_chunk i j (snd (put_chunk c s)) =
    (if (i, j) = (ch_ino c, ch_idx c) then Inr (stored_chunk c) else get_chunk i j s)"
  using assms by (simp add: put_chunk_effect get_chunk_def row_at_upsert row_of_chunk_def chunk_of_row_def
      nullable_pack_fields_def stored_chunk_def del: prod.inject)

text \<open>A range query is the part of the full list in the range; the list is strictly ascending.\<close>

lemma ch_idx_of_row [simp]: "ch_idx (chunk_of_row r) = c_idx r" "ch_ino (chunk_of_row r) = c_ino r"
  "ch_msg (chunk_of_row r) = c_msg r" "ch_size (chunk_of_row r) = c_size r"
  by (simp_all add: chunk_of_row_def)

lemma get_chunks_range_list:
  "get_chunks_range ino a n s = filter (\<lambda>c. a \<le> ch_idx c \<and> ch_idx c < a + n) (list_chunks ino s)"
proof (cases "n \<le> 0")
  case True
  then show ?thesis by (auto simp: get_chunks_range_def filter_empty_conv)
next
  case False
  then show ?thesis
    by (simp add: get_chunks_range_def list_chunks_def filter_sort filter_map o_def conj_commute conj_left_commute)
qed

lemma get_chunk_Inr: "get_chunk i j s = Inr c \<longleftrightarrow> (\<exists>r. row_at ckey (st_chunks s) (i, j) = Some r \<and> chunk_of_row r = c)"
  by (auto simp: get_chunk_def split: option.splits)

lemma list_chunks_set: "set (list_chunks ino s) = chunk_of_row ` {r \<in> set (st_chunks s). c_ino r = ino}"
  by (auto simp: list_chunks_def)

lemma list_chunks_ascending:
  assumes "keyed ckey (st_chunks s)"
  shows "sorted_wrt (<) (map ch_idx (list_chunks ino s))"
proof -
  have "distinct (map c_idx (filter (\<lambda>r. c_ino r = ino) (st_chunks s)))"
    using assms unfolding keyed_def
    by (induction "st_chunks s" arbitrary: s rule: list.induct)
       (auto simp: distinct_map inj_on_def)
  then have "distinct (map ch_idx (map chunk_of_row (filter (\<lambda>r. c_ino r = ino) (st_chunks s))))"
    by (simp add: o_def)
  then show ?thesis unfolding list_chunks_def by (rule sorted_sort_key_strict)
qed

section \<open>Dedup\<close>

lemma find_msg_live: "find (\<lambda>c. c_msg c = m) (st_chunks s) = None \<longleftrightarrow> m \<notin> set (all_chunk_message_ids s)"
  by (auto simp: find_None_iff all_chunk_message_ids_def)

lemma upsert_msgs: "m \<in> set (map c_msg t) \<Longrightarrow> c_msg r = m \<Longrightarrow> set (map c_msg (upsert ckey r t)) \<subseteq> set (map c_msg t)"
  using set_upsert_sub [of ckey r t] by (auto dest!: subsetD)

section \<open>Posting the journal\<close>

lemma upd_where_twice:
  assumes "\<And>r. p (f r) = p r" "\<And>r. q (f r) = q r" "\<And>r. f (f r) = f r"
  shows "upd_where q f (upd_where p f t) = upd_where (\<lambda>r. p r \<or> q r) f t"
  using assms by (auto simp: upd_where_def)

lemma mark_posted_exec: "exec_with_retry (mark_posted_stmt q v) s =
   (Inr (cnt_where (\<lambda>j. j_seq j \<in> set q) (st_journal s)),
    s\<lparr>st_journal := upd_where (\<lambda>j. j_seq j \<in> set q) (\<lambda>j. j\<lparr>j_posted := Some v\<rparr>) (st_journal s),
      st_write_ctr := st_write_ctr s + 1\<rparr>)"
  by (simp add: exec_with_retry_def mark_posted_stmt_def)

lemma batch_mark_loop_effect:
  "\<exists>n. batch_mark_loop q v s = (Inr (),
     s\<lparr>st_journal := upd_where (\<lambda>j. j_seq j \<in> set q) (\<lambda>j. j\<lparr>j_posted := Some v\<rparr>) (st_journal s),
       st_write_ctr := st_write_ctr s + n\<rparr>)"
proof (induction q v s rule: batch_mark_loop.induct)
  case (1 q v s)
  show ?case
  proof (cases "q = []")
    case True
    then show ?thesis by (intro exI [of _ 0]) (simp add: batch_mark_loop.simps upd_where_def)
  next
    case False
    let ?f = "\<lambda>j. j\<lparr>j_posted := Some v\<rparr>"
    let ?s1 = "s\<lparr>st_journal := upd_where (\<lambda>j. j_seq j \<in> set (take batch_chunk_sz q)) ?f (st_journal s),
                 st_write_ctr := st_write_ctr s + 1\<rparr>"
    obtain n where n: "batch_mark_loop (drop batch_chunk_sz q) v ?s1 = (Inr (),
       ?s1\<lparr>st_journal := upd_where (\<lambda>j. j_seq j \<in> set (drop batch_chunk_sz q)) ?f (st_journal ?s1),
         st_write_ctr := st_write_ctr ?s1 + n\<rparr>)"
      using 1 [OF False mark_posted_exec [symmetric] refl] by blast
    have "set q = set (take batch_chunk_sz q) \<union> set (drop batch_chunk_sz q)"
      by (metis append_take_drop_id set_append)
    then have "upd_where (\<lambda>j. j_seq j \<in> set (drop batch_chunk_sz q)) ?f
        (upd_where (\<lambda>j. j_seq j \<in> set (take batch_chunk_sz q)) ?f (st_journal s))
      = upd_where (\<lambda>j. j_seq j \<in> set q) ?f (st_journal s)"
      by (subst upd_where_twice) auto
    then show ?thesis
      using n False by (intro exI [of _ "1 + n"]) (subst batch_mark_loop.simps, simp add: mark_posted_exec)
  qed
qed

lemma batch_mark_wf: "store_wf s \<Longrightarrow> store_wf (snd (batch_mark_journal_posted q v s))"
  using batch_mark_loop_effect [of q v s]
  by (auto simp: batch_mark_journal_posted_def store_wf_posted)

lemma mark_journal_posted_wf: "store_wf s \<Longrightarrow> store_wf (snd (mark_journal_posted q v s))"
  unfolding mark_journal_posted_def snd_require_rows
  by (rule exec_wf) (auto intro: store_wf_posted)

lemma pending_unsorted: "sorted_wrt (<) (map j_seq (st_journal s)) \<Longrightarrow>
    pending_journal s = filter (\<lambda>j. j_posted j = None) (st_journal s)"
proof -
  assume "sorted_wrt (<) (map j_seq (st_journal s))"
  then have "sorted (map j_seq (filter (\<lambda>j. j_posted j = None) (st_journal s)))"
    by (simp add: sorted_wrt_map sorted_wrt_filter sorted_wrt_mono_rel [of _ "\<lambda>x y. j_seq x < j_seq y"])
  then show ?thesis by (simp add: pending_journal_def sorted_sort_id sort_key_id_if_sorted)
qed

end
