(* ===== verification/Settings.thy ===== *)
theory Settings
  imports MetaTables
begin

text \<open>
  The per-filesystem settings that \<open>internal/meta/store.go\<close> keeps in the key-value table: chunk
  size, codec, rate limits and their mode, trash switch and retention, with the validation of
  the chunk size and the seeding of a new store (\<open>initSchema\<close>).  Durations are nanoseconds, as
  in \<open>time.Duration\<close>.
\<close>

unbundle bit_operations_syntax

definition KVFSUUID :: string where "KVFSUUID = ''fs_uuid''"
definition KVChunkSize :: string where "KVChunkSize = ''chunk_size''"
definition KVCompressionCodec :: string where "KVCompressionCodec = ''compression_codec''"
definition KVTGRateLimitPerMin :: string where "KVTGRateLimitPerMin = ''tg_rate_limit_per_min''"
definition KVTGDownloadRateLimitPerMin :: string where "KVTGDownloadRateLimitPerMin = ''tg_download_rate_limit_per_min''"
definition KVTGRateLimitMode :: string where "KVTGRateLimitMode = ''tg_rate_limit_mode''"
definition KVTrashEnabled :: string where "KVTrashEnabled = ''trash_enabled''"
definition KVTrashTTLSecs :: string where "KVTrashTTLSecs = ''trash_ttl_secs''"

definition MinChunkSize :: int where "MinChunkSize = 65536"
definition MaxChunkSize :: int where "MaxChunkSize = 1610612736"
definition DefaultTrashTTLSecs :: int where "DefaultTrashTTLSecs = 604800"
definition time_second :: int where "time_second = 1000000000"

section \<open>Seeding a store\<close>

text \<open>
  \<open>initSchema\<close> after the DDL: the root inode is inserted if it is missing (owner: the mounting
  user), then the uuid and the chunk size are seeded if their keys are missing.  The random
  uuid is an argument.
\<close>

definition root_inode :: "32 word \<Rightarrow> 32 word \<Rightarrow> int \<Rightarrow> inode" where
  "root_inode uid gid now = \<lparr>i_ino = RootIno, i_kind = KindDir, i_mode = 0x41ED, i_uid = uid, i_gid = gid,
     i_size = 0, i_nlink = 1, i_mtime = now, i_ctime = now, i_target = [],
     i_chunk_size = DefaultChunkSize, i_sparse = False\<rparr>"

definition init_schema :: "32 word \<Rightarrow> 32 word \<Rightarrow> int \<Rightarrow> string \<Rightarrow> store \<Rightarrow> store" where
  "init_schema uid gid now uuid s =
     (let s1 = (if has_inode s RootIno then s
                else s\<lparr>st_inodes := st_inodes s @ [root_inode uid gid now],
                       st_ino_seq := max (st_ino_seq s) RootIno\<rparr>);
          s2 = (case get_kv KVFSUUID s1 of Inl _ \<Rightarrow> snd (put_kv KVFSUUID uuid s1) | Inr _ \<Rightarrow> s1)
      in (case get_kv KVChunkSize s2 of
            Inl _ \<Rightarrow> snd (put_kv KVChunkSize (fmt_int DefaultChunkSize) s2) | Inr _ \<Rightarrow> s2))"

definition empty_store :: store where
  "empty_store = \<lparr>st_inodes = [], st_ino_seq = 0, st_dirents = [], st_chunks = [], st_xattrs = [],
     st_journal = [], st_jnl_seq = 0, st_kv = [], st_blobs = [], st_write_ctr = 0, st_replaying = False\<rparr>"

section \<open>Accessors\<close>

definition fs_uuid :: "store \<Rightarrow> meta_err + string" where
  "fs_uuid s = get_kv KVFSUUID s"

definition chunk_size_setting :: "store \<Rightarrow> meta_err + int" where
  "chunk_size_setting s =
     (case get_kv KVChunkSize s of
        Inl e \<Rightarrow> if e = ErrNotFound then Inr DefaultChunkSize else Inl e
      | Inr v \<Rightarrow> (case parse_int v of None \<Rightarrow> Inl ErrMalformed | Some n \<Rightarrow> Inr n))"

definition validate_chunk_size :: "int \<Rightarrow> meta_err option" where
  "validate_chunk_size n =
     (if n < MinChunkSize \<or> MaxChunkSize < n then Some ErrInvalid
      else if n AND (n - 1) \<noteq> 0 then Some ErrInvalid
      else None)"

definition set_chunk_size :: "int \<Rightarrow> store \<Rightarrow> (meta_err + unit) \<times> store" where
  "set_chunk_size n s =
     (case validate_chunk_size n of Some e \<Rightarrow> (Inl e, s) | None \<Rightarrow> put_kv KVChunkSize (fmt_int n) s)"

definition compression_codec :: "store \<Rightarrow> meta_err + string" where
  "compression_codec s =
     (case get_kv KVCompressionCodec s of
        Inl e \<Rightarrow> if e = ErrNotFound then Inr ''none'' else Inl e
      | Inr v \<Rightarrow> Inr v)"

definition set_compression_codec :: "string \<Rightarrow> store \<Rightarrow> (meta_err + unit) \<times> store" where
  "set_compression_codec name s =
     (if name \<noteq> ''none'' \<and> name \<noteq> ''zstd'' then (Inl ErrInvalid, s) else put_kv KVCompressionCodec name s)"

definition rate_of_key :: "string \<Rightarrow> store \<Rightarrow> meta_err + int" where
  "rate_of_key key s =
     (case get_kv key s of
        Inl e \<Rightarrow> if e = ErrNotFound then Inr 0 else Inl e
      | Inr v \<Rightarrow> (case parse_int (trim_space v) of None \<Rightarrow> Inl ErrMalformed | Some n \<Rightarrow> Inr n))"

definition clear_key :: "string \<Rightarrow> store \<Rightarrow> (meta_err + unit) \<times> store" where
  "clear_key key s =
     (case delete_kv key s of
        (Inl e, s1) \<Rightarrow> if e \<noteq> ErrNotFound then (Inl e, s1) else (Inr (), s1)
      | (Inr _, s1) \<Rightarrow> (Inr (), s1))"

definition tg_rate_limit :: "store \<Rightarrow> meta_err + int" where
  "tg_rate_limit s = rate_of_key KVTGRateLimitPerMin s"

definition set_tg_rate_limit :: "int \<Rightarrow> store \<Rightarrow> (meta_err + unit) \<times> store" where
  "set_tg_rate_limit n s =
     (if n < 0 then (Inl ErrInvalid, s)
      else if n = 0 then clear_key KVTGRateLimitPerMin s
      else put_kv KVTGRateLimitPerMin (fmt_int n) s)"

definition tg_download_rate_limit :: "store \<Rightarrow> meta_err + int" where
  "tg_download_rate_limit s = rate_of_key KVTGDownloadRateLimitPerMin s"

definition set_tg_download_rate_limit :: "int \<Rightarrow> store \<Rightarrow> (meta_err + unit) \<times> store" where
  "set_tg_download_rate_limit n s =
     (if n < 0 then (Inl ErrInvalid, s)
      else if n = 0 then clear_key KVTGDownloadRateLimitPerMin s
      else put_kv KVTGDownloadRateLimitPerMin (fmt_int n) s)"

definition tg_rate_limit_mode :: "store \<Rightarrow> meta_err + string" where
  "tg_rate_limit_mode s =
     (case get_kv KVTGRateLimitMode s of
        Inl e \<Rightarrow> if e = ErrNotFound then Inr ''adaptive'' else Inl e
      | Inr v \<Rightarrow> (let mode = trim_space v in
          if mode \<noteq> ''adaptive'' \<and> mode \<noteq> ''manual'' then Inr ''adaptive'' else Inr mode))"

definition set_tg_rate_limit_mode :: "string \<Rightarrow> store \<Rightarrow> (meta_err + unit) \<times> store" where
  "set_tg_rate_limit_mode mode s =
     (if mode = ''adaptive'' then clear_key KVTGRateLimitMode s
      else if mode = ''manual'' then put_kv KVTGRateLimitMode mode s
      else (Inl ErrInvalid, s))"

definition trash_enabled :: "store \<Rightarrow> meta_err + bool" where
  "trash_enabled s =
     (case get_kv KVTrashEnabled s of
        Inl e \<Rightarrow> if e = ErrNotFound then Inr False else Inl e
      | Inr v \<Rightarrow> Inr (v = ''1''))"

definition set_trash_enabled :: "bool \<Rightarrow> store \<Rightarrow> (meta_err + unit) \<times> store" where
  "set_trash_enabled on s = (if on then put_kv KVTrashEnabled ''1'' s else delete_kv KVTrashEnabled s)"

definition trash_ttl :: "store \<Rightarrow> meta_err + int" where
  "trash_ttl s =
     (case get_kv KVTrashTTLSecs s of
        Inl e \<Rightarrow> if e = ErrNotFound then Inr (DefaultTrashTTLSecs * time_second) else Inl e
      | Inr v \<Rightarrow> (case parse_int v of
            None \<Rightarrow> Inl ErrMalformed
          | Some n \<Rightarrow> if n < 0 then Inl ErrMalformed else Inr (to_int64 (n * time_second))))"

definition set_trash_ttl :: "int \<Rightarrow> store \<Rightarrow> (meta_err + unit) \<times> store" where
  "set_trash_ttl d s =
     (if d < 0 then (Inl ErrInvalid, s)
      else let secs = go_div d time_second;
               secs' = (if secs = 0 then DefaultTrashTTLSecs else secs)
           in put_kv KVTrashTTLSecs (fmt_int secs') s)"

section \<open>Lemmas\<close>

lemma clear_key_opt: "kv_opt (snd (clear_key k s)) k' = (if k' = k then None else kv_opt s k')"
  using kv_opt_delete [of k s k']
  by (auto simp: clear_key_def split: prod.splits sum.splits if_splits)

lemma clear_key_ok: "fst (clear_key k s) = Inr ()"
  using delete_kv_result [of k s]
  by (auto simp: clear_key_def split: prod.splits sum.splits if_splits)

lemma clear_key_wf: "store_wf s \<Longrightarrow> store_wf (snd (clear_key k s))"
  using delete_kv_wf [of s k] by (auto simp: clear_key_def split: prod.splits sum.splits)

text \<open>A number is a power of two exactly when clearing its lowest bit gives zero.\<close>

lemma and_pred_double: "(2 * m) AND (2 * m - 1) = 2 * (m AND (m - 1))" for m :: int
proof -
  have "(2 * m) div 2 = m" "(2 * m - 1) div 2 = m - 1" by simp_all
  then show ?thesis by (subst and_int_rec) simp
qed

lemma and_pred_odd: "odd m \<Longrightarrow> m AND (m - 1) = m - 1" for m :: int
proof -
  assume "odd m"
  then obtain k where m: "m = 2 * k + 1" by (elim oddE)
  have "m div 2 = k" "(m - 1) div 2 = k" using m by simp_all
  then show ?thesis using m by (subst and_int_rec) simp
qed

lemma power_of_two_and_pred: "(2 :: int) ^ k AND (2 ^ k - 1) = 0"
  by (induction k) (simp_all add: and_pred_double)

lemma and_pred_power_of_two:
  assumes "0 < n" "n AND (n - 1) = 0"
  shows "\<exists>k. n = (2 :: int) ^ k"
  using assms
proof (induction "nat n" arbitrary: n rule: less_induct)
  case less
  show ?case
  proof (cases "odd n")
    case True
    then have "n = 1" using and_pred_odd less.prems by fastforce
    then show ?thesis by (intro exI [of _ 0]) simp
  next
    case False
    then have "even n" by simp
    then obtain m where m: "n = 2 * m" by (elim evenE)
    then have "0 < m" "m AND (m - 1) = 0" using less.prems and_pred_double [of m] by simp_all
    moreover have "nat m < nat n" using m \<open>0 < m\<close> by simp
    ultimately obtain k where "m = 2 ^ k" using less.hyps by blast
    then show ?thesis using m by (intro exI [of _ "Suc k"]) simp
  qed
qed

lemma validate_chunk_size_ok:
  "validate_chunk_size n = None \<longleftrightarrow> (\<exists>k. 16 \<le> k \<and> k \<le> 30 \<and> n = 2 ^ k)"
proof
  assume v: "validate_chunk_size n = None"
  then have r: "MinChunkSize \<le> n" "n \<le> MaxChunkSize" "n AND (n - 1) = 0"
    by (auto simp: validate_chunk_size_def split: if_splits)
  then obtain k where k: "n = 2 ^ k" using and_pred_power_of_two [of n] by (auto simp: MinChunkSize_def)
  have "(2 :: int) ^ 16 \<le> 2 ^ k" "(2 :: int) ^ k < 2 ^ 31"
    using r(1,2) k by (simp_all add: MinChunkSize_def MaxChunkSize_def)
  then have "16 \<le> k" "k < 31" by (simp_all del: power_numeral add: power_increasing_iff power_strict_increasing_iff)
  then show "\<exists>k. 16 \<le> k \<and> k \<le> 30 \<and> n = 2 ^ k" using k by (intro exI [of _ k]) simp
next
  assume "\<exists>k. 16 \<le> k \<and> k \<le> 30 \<and> n = 2 ^ k"
  then obtain k where k: "16 \<le> k" "k \<le> 30" "n = 2 ^ k" by blast
  have "(2 :: int) ^ 16 \<le> n" "n \<le> 2 ^ 30"
    unfolding k(3) by (rule power_increasing; use k in simp)+
  then show "validate_chunk_size n = None"
    using power_of_two_and_pred [of k] k(3)
    by (simp add: validate_chunk_size_def MinChunkSize_def MaxChunkSize_def)
qed

lemma init_schema_wf:
  "store_wf (init_schema uid gid now uuid empty_store)"
proof -
  let ?s = "empty_store\<lparr>st_inodes := [root_inode uid gid now], st_ino_seq := RootIno\<rparr>"
  have "tree_ok [root_inode uid gid now] RootIno []"
    by (simp add: tree_ok_def keyed_def root_inode_def RootIno_def dir_in_def links_ok_def tree_rel_def acyclic_def)
  then have wf: "store_wf ?s" by (simp add: store_wf_def rows_ok_def empty_store_def keyed_def)
  have "init_schema uid gid now uuid empty_store =
    snd (put_kv KVChunkSize (fmt_int DefaultChunkSize) (snd (put_kv KVFSUUID uuid ?s)))"
    by (simp add: init_schema_def Let_def has_inode_def empty_store_def RootIno_def put_kv_state get_kv_def
        upsert_def row_at_Cons KVChunkSize_def KVFSUUID_def)
  then show ?thesis using put_kv_wf [OF put_kv_wf [OF wf]] by simp
qed

end
