(* ===== verification/Replay.thy ===== *)
theory Replay
  imports NamespaceSpec Settings
begin

text \<open>
  Channel-side recovery: \<open>ReplayOp\<close> of \<open>internal/meta/replay.go\<close>, which applies one journaled op
  to a restored store, and the loop of \<open>replayJournalSince\<close> in \<open>cmd/telfs/main.go\<close>, which
  applies the ops of the channel in sequence order and stops at the first failure.
\<close>

definition tolerate :: "meta_err \<Rightarrow> (meta_err + 'a) \<times> store \<Rightarrow> (meta_err + unit) \<times> store" where
  "tolerate err r = (case r of (Inl e, s) \<Rightarrow> if e = err then (Inr (), s) else (Inl e, s)
     | (Inr _, s) \<Rightarrow> (Inr (), s))"

definition replay_child :: "journal_op \<Rightarrow> inode" where
  "replay_child op = \<lparr>i_ino = 0, i_kind = jo_kind op, i_mode = jo_mode op, i_uid = jo_uid op,
     i_gid = jo_gid op, i_size = 0, i_nlink = 1, i_mtime = jo_mtime op, i_ctime = jo_mtime op,
     i_target = jo_symlink op, i_chunk_size = jo_chunk_size op, i_sparse = jo_sparse op\<rparr>"

definition replay_body :: "int \<Rightarrow> journal_op \<Rightarrow> store \<Rightarrow> (meta_err + unit) \<times> store" where
  "replay_body now op s =
     (case jo_op op of
        OpCreateChild \<Rightarrow>
          if jo_ino op > 0
          then tolerate ErrExists (create_child_at (jo_parent op) (jo_name op) (replay_child op) (jo_ino op) s)
          else tolerate ErrExists (create_child now (jo_parent op) (jo_name op) (replay_child op) s)
      | OpSetSparse \<Rightarrow> tolerate ErrNotFound (set_inode_sparse (jo_ino op) s)
      | OpLink \<Rightarrow> tolerate ErrExists (link (jo_parent op) (jo_name op) (jo_target op) s)
      | OpUnlink \<Rightarrow> tolerate ErrNotFound (unlink (jo_parent op) (jo_name op) s)
      | OpRename \<Rightarrow>
          (case rename (jo_parent op) (jo_name op) (jo_new_parent op) (jo_new_name op) s of
             (Inl e, s1) \<Rightarrow>
               if e = ErrNotFound \<and> is_ok (lookup (jo_new_parent op) (jo_new_name op) s1)
               then (Inr (), s1) else (Inl e, s1)
           | (Inr _, s1) \<Rightarrow> (Inr (), s1))
      | OpSetSize \<Rightarrow> tolerate ErrNotFound (set_size now (jo_ino op) (jo_size op) s))"

text \<open>Journaling is suppressed for the whole call.\<close>

definition replay_op :: "int \<Rightarrow> journal_op \<Rightarrow> store \<Rightarrow> (meta_err + unit) \<times> store" where
  "replay_op now op s =
     (let (r, s1) = replay_body now op (s\<lparr>st_replaying := True\<rparr>)
      in (r, s1\<lparr>st_replaying := False\<rparr>))"

fun replay_all :: "int \<Rightarrow> journal_op list \<Rightarrow> store \<Rightarrow> (meta_err + unit) \<times> store" where
  "replay_all now [] s = (Inr (), s)"
| "replay_all now (op # ops) s =
     (case replay_op now op s of
        (Inl e, s1) \<Rightarrow> (Inl e, s1)
      | (Inr _, s1) \<Rightarrow> replay_all now ops s1)"

section \<open>Replay keeps the invariant\<close>

lemma snd_tolerate [simp]: "snd (tolerate e r) = snd r"
  by (auto simp: tolerate_def split: prod.splits sum.splits)

lemma set_inode_sparse_wf: "store_wf s \<Longrightarrow> store_wf (snd (set_inode_sparse i s))"
  unfolding set_inode_sparse_def
  by (rule with_tx_wf)
     (auto simp: Let_def upd_inode_def split: if_splits intro!: store_wf_journal store_wf_inodes)

lemma set_attrs_wf: "store_wf s \<Longrightarrow> store_wf (snd (set_attrs now i p s))"
  by (auto simp: set_attrs_state upd_inode_def intro!: store_wf_inodes)

lemma set_inode_chunk_size_wf: "store_wf s \<Longrightarrow> store_wf (snd (set_inode_chunk_size i z s))"
  unfolding set_inode_chunk_size_def
  by (rule with_tx_wf) (auto simp: upd_inode_def split: if_splits intro!: store_wf_inodes)

lemma set_size_wf: "store_wf s \<Longrightarrow> store_wf (snd (set_size now i z s))"
  using set_attrs_wf [of s now i "\<lparr>p_mode = None, p_uid = None, p_gid = None, p_size = Some z, p_mtime = Some now\<rparr>"]
  by (auto simp: set_size_def with_tx_def split: prod.splits sum.splits intro!: store_wf_journal)

lemma replay_body_wf:
  assumes wf: "store_wf s" shows "store_wf (snd (replay_body now op s))"
proof -
  have nl: "i_nlink (replay_child op) = 0 \<or> i_nlink (replay_child op) = 1"
    by (simp add: replay_child_def)
  have rn: "store_wf (snd (rename (jo_parent op) (jo_name op) (jo_new_parent op) (jo_new_name op) s))"
    by (rule rename_wf [OF wf])
  show ?thesis
    using rn create_child_at_wf [OF wf nl] create_child_wf [OF wf nl] set_inode_sparse_wf [OF wf]
      link_wf [OF wf] unlink_wf [OF wf] set_size_wf [OF wf]
    by (cases "jo_op op") (auto simp: replay_body_def split: prod.splits sum.splits)
qed

lemma replay_op_wf: "store_wf s \<Longrightarrow> store_wf (snd (replay_op now op s))"
  using replay_body_wf [of "s\<lparr>st_replaying := True\<rparr>" now op]
  by (auto simp: replay_op_def split: prod.splits)

lemma replay_all_wf: "store_wf s \<Longrightarrow> store_wf (snd (replay_all now ops s))"
proof (induction ops arbitrary: s)
  case (Cons op ops)
  then show ?case using replay_op_wf [OF Cons.prems, of now op]
    by (auto split: prod.splits sum.splits)
qed simp

end
