(* ===== verification/ReplaySim.thy ===== *)
theory ReplaySim
  imports Replay
begin

text \<open>
  Replay reproduces the live run.  \<open>er\<close> forgets what the journal does not carry: times, chunk
  rows, extended attributes, the journal itself.  Each transaction commutes with \<open>er\<close>, so a
  store that agrees with another up to \<open>er\<close> takes the same steps; replaying the journal rows
  that a sequence of live operations appended then gives the live result up to \<open>er\<close>.
\<close>

section \<open>Forgetting\<close>

definition erase_times :: "inode \<Rightarrow> inode" where
  "erase_times i = i\<lparr>i_mtime := 0, i_ctime := 0\<rparr>"

definition er :: "store \<Rightarrow> store" where
  "er s = s\<lparr>st_inodes := map erase_times (st_inodes s), st_chunks := [], st_xattrs := [],
     st_journal := [], st_jnl_seq := 0, st_kv := [], st_blobs := [], st_write_ctr := 0, st_replaying := True\<rparr>"

definition erf :: "meta_err + ('a \<times> store) \<Rightarrow> meta_err + ('a \<times> store)" where
  "erf r = (case r of Inl e \<Rightarrow> Inl e | Inr (a, t) \<Rightarrow> Inr (a, er t))"

definition ers :: "meta_err + store \<Rightarrow> meta_err + store" where
  "ers r = (case r of Inl e \<Rightarrow> Inl e | Inr t \<Rightarrow> Inr (er t))"

lemma erase_times_simps [simp]:
  "i_ino (erase_times i) = i_ino i" "i_kind (erase_times i) = i_kind i" "i_nlink (erase_times i) = i_nlink i"
  "erase_times (erase_times i) = erase_times i"
  by (simp_all add: erase_times_def)

lemma er_simps [simp]:
  "st_dirents (er s) = st_dirents s" "st_ino_seq (er s) = st_ino_seq s" "st_replaying (er s)"
  "st_inodes (er s) = map erase_times (st_inodes s)" "er (er s) = er s"
  by (simp_all add: er_def o_def)

lemma er_indep [simp]:
  "er (s\<lparr>st_write_ctr := n\<rparr>) = er s" "er (s\<lparr>st_replaying := b\<rparr>) = er s"
  "er (append_journal_tx op s) = er s" "er (s\<lparr>st_journal := j\<rparr>) = er s"
  by (simp_all add: er_def append_journal_tx_def)

lemma er_iff: "er s = er t \<longleftrightarrow>
   map erase_times (st_inodes s) = map erase_times (st_inodes t) \<and> st_ino_seq s = st_ino_seq t \<and>
   st_dirents s = st_dirents t"
  by (cases s; cases t) (auto simp: er_def)

lemma erf_simps [simp]: "erf (Inl e) = Inl e" "erf (Inr (a, t)) = Inr (a, er t)"
  "ers (Inl e) = Inl e" "ers (Inr t) = Inr (er t)"
  by (simp_all add: erf_def ers_def)

lemma erf_Inr: "erf r = Inr (a, u) \<longleftrightarrow> (\<exists>t. r = Inr (a, t) \<and> er t = u)"
  by (cases r) (auto simp: erf_def split: prod.splits)

lemma erf_eq_cases: "erf r = erf r' \<Longrightarrow> (\<exists>e. r = Inl e \<and> r' = Inl e) \<or>
    (\<exists>a t t'. r = Inr (a, t) \<and> r' = Inr (a, t') \<and> er t = er t')"
  by (auto simp: erf_def split: sum.splits prod.splits)

lemma row_at_erase: "row_at i_ino (map erase_times I) k = map_option erase_times (row_at i_ino I k)"
  by (induction I) (auto simp: row_at_Cons)

lemma get_inode_er [simp]: "get_inode p (er s) = map_sum id erase_times (get_inode p s)"
  by (simp add: get_inode_def row_at_erase split: option.splits)

lemma lookup_er [simp]: "lookup p n (er s) = map_sum id erase_times (lookup p n s)"
  by (simp add: lookup_def row_at_erase split: option.splits)

lemma has_inode_er [simp]: "has_inode (er s) p = has_inode s p"
  by (simp add: has_inode_def row_at_erase)

lemma dir_children_er [simp]: "dir_children c (er s) = dir_children c s"
  by (simp add: dir_children_def)

lemma is_ancestor_fuel_er [simp]: "is_ancestor_fuel n (er s) a c = is_ancestor_fuel n s a c"
  by (induction n arbitrary: c) (auto split: option.splits)

lemma is_ancestor_er [simp]: "is_ancestor (er s) a c = is_ancestor s a c"
  by (simp add: is_ancestor_def)

section \<open>Each transaction commutes with forgetting\<close>

lemma er_upd_inode: "(\<And>i. i_ino i = k \<Longrightarrow> erase_times (f i) = erase_times (g (erase_times i))) \<Longrightarrow>
    er (upd_inode k f s) = er (upd_inode k g (er s))"
  by (simp add: er_iff upd_inode_def upd_where_def o_def)

lemma insert_dirent_er: "ers (insert_dirent p n c s) = ers (insert_dirent p n c (er s))"
  by (simp add: insert_dirent_def er_iff)

lemma link_tx_er: "erf (link_tx p n t s) = erf (link_tx p n t (er s))"
proof -
  have "erf (case insert_dirent p n t s of Inl e \<Rightarrow> Inl e
      | Inr s1 \<Rightarrow> Inr ((), append_journal_tx op (upd_inode t (\<lambda>i. i\<lparr>i_nlink := i_nlink i + 1\<rparr>) s1)))
    = erf (case insert_dirent p n t (er s) of Inl e \<Rightarrow> Inl e
      | Inr s1 \<Rightarrow> Inr ((), append_journal_tx op (upd_inode t (\<lambda>i. i\<lparr>i_nlink := i_nlink i + 1\<rparr>) s1)))" for op
    by (auto simp: insert_dirent_def er_iff upd_inode_def upd_where_def erase_times_def)
  then show ?thesis
    by (cases "get_inode p s"; cases "get_inode t s"; cases "lookup p n s") (simp_all add: link_tx_def)
qed

lemma unlink_in_tx_er: "erf (unlink_in_tx p n s) = erf (unlink_in_tx p n (er s))"
proof (cases "lookup p n s")
  case (Inl e)
  then show ?thesis by (simp add: unlink_in_tx_def)
next
  case (Inr i)
  let ?D = "\<lambda>s. s\<lparr>st_dirents := del_where (\<lambda>d. dkey d = (p, n)) (st_dirents s)\<rparr>"
  let ?U = "\<lambda>s. upd_inode (i_ino i) (\<lambda>i. i\<lparr>i_nlink := i_nlink i - 1\<rparr>) (?D s)"
  have U: "er (?U s) = er (?U (er s))"
    by (simp add: er_iff upd_inode_def upd_where_def erase_times_def)
  have "get_inode c (?U (er s)) = map_sum id erase_times (get_inode c (?U s))" for c
    by (simp add: get_inode_def row_at_upd_inode row_at_erase option.map_comp o_def erase_times_def split: option.splits)
  moreover have "er (delete_inode_row c t) = er (delete_inode_row c u)" if "er t = er u" for c t u
  proof -
    have "map erase_times (del_where (\<lambda>i. i_ino i = c) I) = del_where (\<lambda>i. i_ino i = c) (map erase_times I)" for I
      by (simp add: del_where_def filter_map o_def)
    then show ?thesis using that by (simp add: er_iff delete_inode_row_def)
  qed
  note del = this [OF U]
  ultimately show ?thesis using Inr U del
    by (cases "get_inode (i_ino i) (?U s)") (simp_all add: unlink_in_tx_def Let_def)
qed

lemma unlink_tx_er: "erf (unlink_tx p n s) = erf (unlink_tx p n (er s))"
  using unlink_in_tx_er [of p n s]
  by (auto simp: unlink_tx_def erf_def split: sum.splits prod.splits)

lemma move_dirent_er: "ers (move_dirent op on np nn s) = ers (move_dirent op on np nn (er s))"
  by (simp add: move_dirent_def er_iff)

lemma rename_finish_er: "er s = er t \<Longrightarrow> erf (rename_finish op on np nn d s) = erf (rename_finish op on np nn d t)"
  using move_dirent_er [of op on np nn s] move_dirent_er [of op on np nn t]
  by (auto simp: rename_finish_def erf_def ers_def split: sum.splits)

lemma rename_over_er: "erf (rename_over op on np nn a b s) =
    erf (rename_over op on np nn (erase_times a) (erase_times b) (er s))"
  using erf_eq_cases [OF unlink_in_tx_er [of np nn s]]
proof (elim disjE exE conjE)
  fix e assume "unlink_in_tx np nn s = Inl e" "unlink_in_tx np nn (er s) = Inl e"
  then show ?thesis by (simp add: rename_over_def)
next
  fix r t t' assume u: "unlink_in_tx np nn s = Inr (r, t)" "unlink_in_tx np nn (er s) = Inr (r, t')" and e: "er t = er t'"
  obtain c del where "r = (c, del)" by (cases r)
  then show ?thesis using u rename_finish_er [OF e] by (simp add: rename_over_def)
qed

lemma rename_tx_er: "erf (rename_tx op on np nn s) = erf (rename_tx op on np nn (er s))"
  using rename_over_er [of op on np nn _ _ s] rename_finish_er [of s "er s" op on np nn 0]
  by (cases "lookup op on s"; cases "get_inode np s"; cases "lookup np nn s") (simp_all add: rename_tx_def)

text \<open>Hence stores that agree take the same step.\<close>

lemma erf_same:
  assumes "\<And>s. erf (f s) = erf (f (er s))" "er s = er s'" "f s = Inr (a, t)"
  obtains t' where "f s' = Inr (a, t')" "er t' = er t"
  using assms by (metis erf_Inr erf_simps(2))

section \<open>Live operations\<close>

datatype live_op =
    LCreate int string inode
  | LLink int string int
  | LUnlink int string
  | LRename int string int string
  | LSetSize int int
  | LSetSparse int

fun run_live :: "int \<Rightarrow> live_op \<Rightarrow> store \<Rightarrow> store" where
  "run_live now (LCreate p n child) s = snd (create_child now p n child s)"
| "run_live now (LLink p n t) s = snd (link p n t s)"
| "run_live now (LUnlink p n) s = snd (unlink p n s)"
| "run_live now (LRename op on np nn) s = snd (rename op on np nn s)"
| "run_live now (LSetSize i z) s = snd (set_size now i z s)"
| "run_live now (LSetSparse i) s = snd (set_inode_sparse i s)"

text \<open>As every caller of \<open>CreateChild\<close> does: no size and no link count in the new inode.\<close>

fun live_ok :: "live_op \<Rightarrow> bool" where
  "live_ok (LCreate p n child) = (i_size child = 0 \<and> i_nlink child = 0)"
| "live_ok _ = True"

fun run_live_all :: "int \<Rightarrow> live_op list \<Rightarrow> store \<Rightarrow> store" where
  "run_live_all now [] s = s"
| "run_live_all now (op # ops) s = run_live_all now ops (run_live now op s)"

lemma run_live_wf: "store_wf s \<Longrightarrow> live_ok op \<Longrightarrow> store_wf (run_live now op s)"
  by (cases op) (auto intro: create_child_wf link_wf unlink_wf rename_wf set_size_wf set_inode_sparse_wf)

section \<open>One live operation and its replay\<close>

text \<open>A live operation either appends one journal row, whose replay on an agreeing store gives an
  agreeing store, or appends nothing and changes nothing that is not forgotten.\<close>

definition replays_as :: "int \<Rightarrow> store \<Rightarrow> store \<Rightarrow> store \<Rightarrow> bool" where
  "replays_as now s t s' \<longleftrightarrow>
     (st_journal t = st_journal s \<and> er t = er s) \<or>
     (\<exists>row t'. st_journal t = st_journal s @ [row] \<and> replay_op now (j_op row) s' = (Inr (), t') \<and>
        er t' = er t \<and> \<not> st_replaying t')"

lemma with_tx_failed: "f s = Inl e \<Longrightarrow> snd (with_tx f s) = s"
  by (simp add: with_tx_def)

lemma with_tx_done: "f s = Inr (a, t) \<Longrightarrow> with_tx f s = (Inr a, t\<lparr>st_write_ctr := st_write_ctr t + 1\<rparr>)"
  by (simp add: with_tx_def)

lemma journal_appended: "\<not> st_replaying s \<Longrightarrow> \<exists>row. st_journal (append_journal_tx op s) = st_journal s @ [row] \<and> j_op row = op"
  by (simp add: append_journal_tx_def)

lemma zero_op_simps [simp]: "jo_op (zero_op k) = k"
  by (simp add: zero_op_def)

lemma replay_create:
  assumes wf: "store_wf s" and live: "live_ok (LCreate p n child)" "\<not> st_replaying s"
    and e: "er s' = er s" "\<not> st_replaying s'"
  shows "replays_as now s (run_live now0 (LCreate p n child) s) s'"
proof (cases "create_child_tx now0 p n (normalize_child now0 child) s")
  case (Inl x)
  then show ?thesis by (simp add: replays_as_def create_child_def with_tx_def)
next
  case (Inr at)
  let ?c = "normalize_child now0 child"
  obtain ino t where r: "create_child_tx now0 p n ?c s = Inr (ino, t)" using Inr by (cases at) auto
  note c = create_child_tx_Inr [OF r]
  let ?op = "create_op p n ino ?c"
  have fresh: "\<not> ino_in (st_inodes s) ino"
    using tree_ok_inode_range [OF store_wf_tree [OF wf]] c(3) by fastforce
  have pos: "0 < ino" using tree_ok_inode_range [OF store_wf_tree [OF wf] dir_in_ino_in [OF c(1)]] c(3) by simp
  have es: "map erase_times (st_inodes s') = map erase_times (st_inodes s)" "st_ino_seq s' = st_ino_seq s"
    "st_dirents s' = st_dirents s" using e(1) by (simp_all add: er_iff)
  let ?s2 = "s'\<lparr>st_replaying := True\<rparr>"
  have sum: "map_sum id erase_times (get_inode k ?s2) = map_sum id erase_times (get_inode k s)"
    "map_sum id erase_times (lookup p n ?s2) = map_sum id erase_times (lookup p n s)" for k
    using e(1) get_inode_er [of k ?s2] get_inode_er [of k s] lookup_er [of p n ?s2] lookup_er [of p n s] by simp_all
  obtain pin where pin: "get_inode p s = Inr pin" "i_kind pin = KindDir" "lookup p n s = Inl ErrNotFound"
    using r by (auto simp: create_child_tx_def split: sum.splits if_splits)
  obtain pin' where pin': "get_inode p ?s2 = Inr pin'" "i_kind pin' = KindDir"
    using sum(1) [of p] pin by (cases "get_inode p ?s2") (auto, metis erase_times_simps(2))
  have l': "lookup p n ?s2 = Inl ErrNotFound" using sum(2) pin by (cases "lookup p n ?s2") auto
  have "get_inode ino s = Inl ErrNotFound" using fresh by (simp add: get_inode_Inl has_inode_in)
  then have g': "get_inode ino ?s2 = Inl ErrNotFound" using sum(1) [of ino] by (cases "get_inode ino ?s2") auto
  let ?t' = "?s2\<lparr>st_inodes := st_inodes ?s2 @ [row_at_ino (replay_child ?op) ino], st_ino_seq := max (st_ino_seq ?s2) ino,
          st_dirents := st_dirents ?s2 @ [\<lparr>d_parent = p, d_name = n, d_child = ino\<rparr>]\<rparr>"
  have hp: "has_inode ?s2 p" using pin'(1) by (simp add: get_inode_Inr has_inode_def)
  have free: "row_at dkey (st_dirents ?s2) (p, n) = None" using c(2) es(3) by simp
  have "create_child_at_tx p n (replay_child ?op) ino ?s2 = Inr ((), ?t')"
    using pin' l' g' hp free
    by (auto simp: create_child_at_tx_def Let_def row_at_ino_def insert_dirent_def has_inode_def row_at_append row_at_Cons
        split: option.splits)
  then have rep: "replay_op now ?op s' = (Inr (), ?t'\<lparr>st_write_ctr := st_write_ctr ?t' + 1, st_replaying := False\<rparr>)"
    using pos by (simp add: replay_op_def replay_body_def create_op_def create_child_at_def with_tx_done tolerate_def)
  have "erase_times (row_at_ino (replay_child ?op) ino) = erase_times (created_row now0 ?c s)"
    using live(1) c(3)
    by (simp add: row_at_ino_def replay_child_def created_row_def normalize_child_def create_op_def erase_times_def
        zero_op_def DefaultChunkSize_def)
  then have er1: "er (?t'\<lparr>st_write_ctr := st_write_ctr ?t' + 1, st_replaying := False\<rparr>) = er t"
    using es c(3) unfolding c(4) by (simp add: er_iff)
  obtain row where row: "st_journal t = st_journal s @ [row]" "j_op row = ?op"
    unfolding c(4) using live(2) by (simp add: append_journal_tx_def)
  have run: "run_live now0 (LCreate p n child) s = t\<lparr>st_write_ctr := st_write_ctr t + 1\<rparr>"
    using r by (simp add: create_child_def with_tx_done)
  define u where "u = ?t'\<lparr>st_write_ctr := st_write_ctr ?t' + 1, st_replaying := False\<rparr>"
  have "replay_op now ?op s' = (Inr (), u)" unfolding u_def by (rule rep)
  moreover have "er u = er t" unfolding u_def by (rule er1)
  moreover have "\<not> st_replaying u" by (simp add: u_def)
  ultimately show ?thesis unfolding replays_as_def run using row by auto
qed

text \<open>Operations whose replay is the operation itself.\<close>

lemma replay_same_tx:
  assumes com: "\<And>s. erf (f s) = erf (f (er s))" and e: "er s' = er s" and nr: "\<not> st_replaying s"
    and run: "f s = Inr (a, t)" and jn: "st_journal t = st_journal s @ [row]"
    and rep: "\<And>s1 t1. f s1 = Inr (a, t1) \<Longrightarrow> replay_body now (j_op row) s1 = (Inr (), t1\<lparr>st_write_ctr := st_write_ctr t1 + 1\<rparr>)"
  shows "replays_as now s (t\<lparr>st_write_ctr := st_write_ctr t + 1\<rparr>) s'"
proof -
  obtain t' where t': "f (s'\<lparr>st_replaying := True\<rparr>) = Inr (a, t')" "er t' = er t"
    by (rule erf_same [where f = f and s = s and s' = "s'\<lparr>st_replaying := True\<rparr>", OF com _ run]) (simp_all add: e)
  show ?thesis unfolding replays_as_def using jn rep [OF t'(1)] t'(2)
    by (intro disjI2 exI [of _ row]) (simp add: replay_op_def)
qed

lemma replay_link:
  assumes nr: "\<not> st_replaying s" and e: "er s' = er s"
  shows "replays_as now s (run_live now0 (LLink p n tgt) s) s'"
proof (cases "link_tx p n tgt s")
  case (Inl x)
  then show ?thesis by (simp add: replays_as_def link_def with_tx_def)
next
  case (Inr ut)
  then obtain u t where r: "link_tx p n tgt s = Inr (u, t)" by (cases ut) auto
  let ?op = "(zero_op OpLink)\<lparr>jo_parent := p, jo_name := n, jo_target := tgt\<rparr>"
  obtain row where row: "st_journal t = st_journal s @ [row]" "j_op row = ?op"
    using r nr by (auto simp: append_journal_tx_def elim!: link_tx_Inr)
  have "replays_as now s (t\<lparr>st_write_ctr := st_write_ctr t + 1\<rparr>) s'"
    by (rule replay_same_tx [OF link_tx_er e nr r row(1)])
       (simp add: row(2) replay_body_def link_def with_tx_done tolerate_def)
  then show ?thesis using r by (simp add: link_def with_tx_done)
qed

lemma replay_unlink:
  assumes wf: "store_wf s" and nr: "\<not> st_replaying s" and e: "er s' = er s"
  shows "replays_as now s (run_live now0 (LUnlink p n) s) s'"
proof (cases "unlink_tx p n s")
  case (Inl x)
  then show ?thesis by (simp add: replays_as_def unlink_def with_tx_def)
next
  case (Inr ut)
  then obtain u t where r: "unlink_tx p n s = Inr (u, t)" by (cases ut) auto
  let ?op = "(zero_op OpUnlink)\<lparr>jo_parent := p, jo_name := n\<rparr>"
  obtain c del s1 where s1: "unlink_in_tx p n s = Inr ((c, del), s1)" "t = append_journal_tx ?op s1"
    using r by (auto simp: unlink_tx_def split: sum.splits prod.splits)
  obtain row where row: "st_journal t = st_journal s @ [row]" "j_op row = ?op"
    using unlink_in_tx_effect(7,9) [OF wf s1(1)] nr by (simp add: s1(2) append_journal_tx_def)
  have "replays_as now s (t\<lparr>st_write_ctr := st_write_ctr t + 1\<rparr>) s'"
    by (rule replay_same_tx [OF unlink_tx_er e nr r row(1)])
       (simp add: row(2) replay_body_def unlink_def with_tx_done tolerate_def)
  then show ?thesis using r by (simp add: unlink_def with_tx_done)
qed

lemma rename_finish_journal:
  assumes "rename_finish op on np nn d s = Inr (a, t)" "\<not> st_replaying s"
  shows "\<exists>row. st_journal t = st_journal s @ [row] \<and> j_op row = (zero_op OpRename)\<lparr>jo_parent := op, jo_name := on,
             jo_new_parent := np, jo_new_name := nn\<rparr>"
  using assms by (auto simp: rename_finish_def move_dirent_def append_journal_tx_def split: sum.splits if_splits)

lemma replay_rename:
  assumes wf: "store_wf s" and nr: "\<not> st_replaying s" and e: "er s' = er s"
  shows "replays_as now s (run_live now0 (LRename op on np nn) s) s'"
proof (cases "op = np \<and> on = nn")
  case True
  then show ?thesis by (simp add: replays_as_def rename_def)
next
  case ne: False
  show ?thesis
  proof (cases "rename_tx op on np nn s")
    case (Inl x)
    then show ?thesis using ne by (auto simp: replays_as_def rename_def with_tx_def)
  next
    case (Inr ut)
    then obtain a t where r: "rename_tx op on np nn s = Inr (a, t)" by (cases ut) auto
    let ?op = "(zero_op OpRename)\<lparr>jo_parent := op, jo_name := on, jo_new_parent := np, jo_new_name := nn\<rparr>"
    have run: "run_live now0 (LRename op on np nn) s = t\<lparr>st_write_ctr := st_write_ctr t + 1\<rparr>"
      using r ne by (auto simp: rename_def with_tx_done)
    have "t = s \<or> (\<exists>row. st_journal t = st_journal s @ [row] \<and> j_op row = ?op)"
      using r
    proof (cases rule: rename_tx_Inr)
      case (over src dst c del s1)
      then show ?thesis
        using rename_finish_journal [OF over(9)] unlink_in_tx_effect(7,9) [OF wf over(8)] nr by simp
    qed (use rename_finish_journal nr in auto)
    then show ?thesis
    proof
      assume "t = s"
      then show ?thesis using run by (simp add: replays_as_def)
    next
      assume "\<exists>row. st_journal t = st_journal s @ [row] \<and> j_op row = ?op"
      then obtain row where row: "st_journal t = st_journal s @ [row]" "j_op row = ?op" by blast
      have "replays_as now s (t\<lparr>st_write_ctr := st_write_ctr t + 1\<rparr>) s'"
        by (rule replay_same_tx [OF rename_tx_er e nr r row(1)])
           (use ne in \<open>auto simp: row(2) replay_body_def rename_def with_tx_done\<close>)
      then show ?thesis using run by simp
    qed
  qed
qed

lemma replay_set_sparse:
  assumes nr: "\<not> st_replaying s" and e: "er s' = er s"
  shows "replays_as now s (run_live now0 (LSetSparse i) s) s'"
proof -
  define f where "f = (\<lambda>s. let s1 = upd_inode i (\<lambda>i. i\<lparr>i_sparse := True\<rparr>) s in
     if inode_rows i s = 0 then Inl ErrNotFound
     else Inr ((), append_journal_tx ((zero_op OpSetSparse)\<lparr>jo_ino := i, jo_sparse := True\<rparr>) s1))"
  have sp: "set_inode_sparse i = with_tx f" by (simp add: set_inode_sparse_def f_def)
  have com: "erf (f s) = erf (f (er s))" for s
    using er_upd_inode [of i "\<lambda>i. i\<lparr>i_sparse := True\<rparr>" "\<lambda>i. i\<lparr>i_sparse := True\<rparr>" s]
    by (simp add: f_def inode_rows_0 Let_def erase_times_def)
  show ?thesis
  proof (cases "f s")
    case (Inl x)
    then show ?thesis by (simp add: replays_as_def sp with_tx_def)
  next
    case (Inr ut)
    then obtain u t where r: "f s = Inr (u, t)" by (cases ut) auto
    obtain row where row: "st_journal t = st_journal s @ [row]"
      "j_op row = (zero_op OpSetSparse)\<lparr>jo_ino := i, jo_sparse := True\<rparr>"
      using r nr by (auto simp: f_def Let_def append_journal_tx_def split: if_splits)
    have "replays_as now s (t\<lparr>st_write_ctr := st_write_ctr t + 1\<rparr>) s'"
      by (rule replay_same_tx [OF com e nr r row(1)])
         (simp add: row(2) replay_body_def sp with_tx_done tolerate_def)
    then show ?thesis using r by (simp add: sp with_tx_done)
  qed
qed

definition size_patch :: "int \<Rightarrow> int \<Rightarrow> attrs_patch" where
  "size_patch now z = \<lparr>p_mode = None, p_uid = None, p_gid = None, p_size = Some z, p_mtime = Some now\<rparr>"

lemma set_size_closed: "set_size now i z s =
   (if has_inode s i
    then (Inr (), (append_journal_tx ((zero_op OpSetSize)\<lparr>jo_ino := i, jo_size := z, jo_mtime := now\<rparr>)
           (upd_inode i (apply_patch now (size_patch now z)) s))\<lparr>st_write_ctr := st_write_ctr s + 2\<rparr>)
    else (Inl ErrNotFound, (upd_inode i (apply_patch now (size_patch now z)) s)\<lparr>st_write_ctr := st_write_ctr s + 1\<rparr>))"
proof -
  have "set_attrs now i (size_patch now z) s = (if has_inode s i then Inr () else Inl ErrNotFound,
     (upd_inode i (apply_patch now (size_patch now z)) s)\<lparr>st_write_ctr := st_write_ctr s + 1\<rparr>)"
    using set_attrs_state [of now i "size_patch now z" s] set_attrs_result [of now i "size_patch now z" s]
    by (simp add: prod_eq_iff)
  then show ?thesis
    by (simp add: set_size_def size_patch_def [symmetric] with_tx_def append_journal_tx_def)
qed

lemma upd_inode_none: "\<not> has_inode s i \<Longrightarrow> upd_inode i f s = s"
  by (cases s) (auto simp: upd_inode_def upd_where_def has_inode_def row_at_None_iff intro!: map_idI)

lemma replay_set_size:
  assumes nr: "\<not> st_replaying s" and e: "er s' = er s"
  shows "replays_as now s (run_live now0 (LSetSize i z) s) s'"
proof (cases "has_inode s i")
  case False
  then show ?thesis by (simp add: replays_as_def set_size_closed upd_inode_none)
next
  case True
  let ?op = "(zero_op OpSetSize)\<lparr>jo_ino := i, jo_size := z, jo_mtime := now0\<rparr>"
  let ?u = "\<lambda>now s. upd_inode i (apply_patch now (size_patch now z)) s"
  have h': "has_inode (s'\<lparr>st_replaying := True\<rparr>) i"
    using True has_inode_er [of s i] has_inode_er [of "s'\<lparr>st_replaying := True\<rparr>" i] e by simp
  have er_u: "er (?u now0 s) = er (?u now (er s))" "er (?u now (s'\<lparr>st_replaying := True\<rparr>)) = er (?u now (er s))"
    using e er_upd_inode [of i "apply_patch now0 (size_patch now0 z)" "apply_patch now (size_patch now z)" s]
      er_upd_inode [of i "apply_patch now (size_patch now z)" "apply_patch now (size_patch now z)" "s'\<lparr>st_replaying := True\<rparr>"]
    by (simp_all add: apply_patch_def size_patch_def opt_set_def erase_times_def)
  have rep: "replay_op now ?op s' = (Inr (), (append_journal_tx ((zero_op OpSetSize)\<lparr>jo_ino := i, jo_size := z, jo_mtime := now\<rparr>)
      (?u now (s'\<lparr>st_replaying := True\<rparr>)))\<lparr>st_write_ctr := st_write_ctr s' + 2, st_replaying := False\<rparr>)"
    using h' by (simp add: replay_op_def replay_body_def set_size_closed tolerate_def)
  obtain row where row: "st_journal (run_live now0 (LSetSize i z) s) = st_journal s @ [row]" "j_op row = ?op"
    using True nr by (simp add: set_size_closed append_journal_tx_def)
  show ?thesis unfolding replays_as_def
    using True row rep er_u
    by (intro disjI2 exI [of _ row]) (simp add: set_size_closed)
qed

theorem replay_one:
  assumes "store_wf s" "live_ok op" "\<not> st_replaying s" "er s' = er s" "\<not> st_replaying s'"
  shows "replays_as now s (run_live now0 op s) s'"
  using assms
  by (cases op) (auto simp del: run_live.simps live_ok.simps
      intro: replay_create replay_link replay_unlink replay_rename replay_set_size replay_set_sparse)

section \<open>A whole run\<close>

lemma append_journal_not_replaying: "st_replaying (append_journal_tx op s) = st_replaying s"
  by simp

lemma run_live_not_replaying:
  assumes "store_wf s" "\<not> st_replaying s" shows "\<not> st_replaying (run_live now op s)"
proof (cases op)
  case (LRename op on np nn)
  have "st_replaying t = st_replaying s" if "rename_tx op on np nn s = Inr (a, t)" for a t
    using that
  proof (cases rule: rename_tx_Inr)
    case (over src dst c del s1)
    then show ?thesis using unlink_in_tx_effect(7) [OF assms(1) over(8)]
      by (auto simp: rename_finish_def move_dirent_def split: sum.splits if_splits)
  qed (auto simp: rename_finish_def move_dirent_def split: sum.splits if_splits)
  then show ?thesis using LRename assms by (auto simp: rename_def with_tx_def split: sum.splits)
next
  case (LUnlink p n)
  have "st_replaying t = st_replaying s" if "unlink_tx p n s = Inr (a, t)" for a t
    using that unlink_in_tx_effect(7) [OF assms(1)] by (auto simp: unlink_tx_def split: sum.splits prod.splits)
  then show ?thesis using LUnlink assms by (auto simp: unlink_def with_tx_def split: sum.splits)
next
  case (LCreate p n c)
  then show ?thesis using assms
    by (auto simp: create_child_def with_tx_def split: sum.splits dest!: create_child_tx_Inr(4))
next
  case (LLink p n t)
  then show ?thesis using assms
    by (auto simp: link_def with_tx_def split: sum.splits elim!: link_tx_Inr)
qed (use assms in \<open>auto simp: set_size_closed set_inode_sparse_def with_tx_def Let_def split: sum.splits\<close>)

lemma replay_run:
  assumes "store_wf s" "\<forall>op\<in>set ops. live_ok op" "\<not> st_replaying s" "er s' = er s" "\<not> st_replaying s'"
  shows "\<exists>rows t'. st_journal (run_live_all now0 ops s) = st_journal s @ rows \<and>
     replay_all now (map j_op rows) s' = (Inr (), t') \<and> er t' = er (run_live_all now0 ops s)"
  using assms
proof (induction ops arbitrary: s s')
  case Nil
  then show ?case by (intro exI [of _ "[]"]) simp
next
  case (Cons op ops)
  let ?t = "run_live now0 op s"
  have ok: "live_ok op" using Cons.prems(2) by simp
  have wf: "store_wf ?t" by (rule run_live_wf [OF Cons.prems(1) ok])
  have nr: "\<not> st_replaying ?t" by (rule run_live_not_replaying [OF Cons.prems(1,3)])
  have IH: "\<exists>rows t'. st_journal (run_live_all now0 ops ?t) = st_journal ?t @ rows \<and>
     replay_all now (map j_op rows) u' = (Inr (), t') \<and> er t' = er (run_live_all now0 ops ?t)"
    if "er u' = er ?t" "\<not> st_replaying u'" for u'
    using Cons.IH [OF wf _ nr that] Cons.prems(2) by simp
  from replay_one [OF Cons.prems(1) ok Cons.prems(3,4,5), of now now0]
  show ?case unfolding replays_as_def
  proof (elim disjE exE conjE)
    assume "st_journal ?t = st_journal s" "er ?t = er s"
    then show ?thesis using IH [of s'] Cons.prems(4,5) by simp
  next
    fix row t' assume a: "st_journal ?t = st_journal s @ [row]" "replay_op now (j_op row) s' = (Inr (), t')"
      "er t' = er ?t" "\<not> st_replaying t'"
    from IH [OF a(3,4)] obtain rows u where "st_journal (run_live_all now0 ops ?t) = st_journal ?t @ rows"
      "replay_all now (map j_op rows) t' = (Inr (), u)" "er u = er (run_live_all now0 ops ?t)" by blast
    then show ?thesis using a by (intro exI [of _ "row # rows"] exI [of _ u]) simp
  qed
qed

end
