(* ===== verification/Repair.thy ===== *)
theory Repair
  imports Replay
begin

text \<open>
  The startup repair of \<open>internal/meta/repair.go\<close>: it finds the non-sparse files whose chunk rows
  disagree with their size and truncates them to what can be read.  A staged checker is a
  function from (inode, chunk index) to bool, absent when Go passes nil.
\<close>

record repair_report =
  rr_ino :: int
  rr_old_size :: int
  rr_new_size :: int
  rr_old_chunks :: int
  rr_new_chunks :: int
  rr_first_gap :: int

type_synonym staged_checker = "(int \<Rightarrow> int \<Rightarrow> bool) option"

section \<open>One inode\<close>

text \<open>The rows of one file in ascending order, as (index, size).\<close>

definition file_rows :: "int \<Rightarrow> store \<Rightarrow> (int \<times> int) list" where
  "file_rows ino s = sort_key fst (map (\<lambda>r. (c_idx r, c_size r)) (filter (\<lambda>r. c_ino r = ino) (st_chunks s)))"

definition expected_chunks :: "int \<Rightarrow> int \<Rightarrow> int" where
  "expected_chunks sz cs = go_div (sz + cs - 1) cs"

text \<open>Some slot the size implies is missing from the rows but staged on disk.\<close>

definition staged_shield :: "staged_checker \<Rightarrow> int \<Rightarrow> int \<Rightarrow> (int \<times> int) list \<Rightarrow> bool" where
  "staged_shield staged ino expected rows =
     (case staged of
        None \<Rightarrow> False
      | Some f \<Rightarrow> list_ex (\<lambda>idx. to_int32 idx \<notin> set (map fst rows) \<and> f ino (to_int32 idx)) [0..expected - 1])"

text \<open>The first position whose row does not carry that index; -1 when there is none.\<close>

fun first_gap :: "nat \<Rightarrow> (int \<times> int) list \<Rightarrow> int" where
  "first_gap i [] = -1"
| "first_gap i ((idx, _) # rows) = (if idx \<noteq> to_int32 (int i) then to_int32 (int i) else first_gap (Suc i) rows)"

definition set_size_row :: "int \<Rightarrow> int \<Rightarrow> store \<Rightarrow> store" where
  "set_size_row ino sz s = upd_inode ino (\<lambda>i. i\<lparr>i_size := sz\<rparr>) s"

definition delete_rows_from :: "int \<Rightarrow> int \<Rightarrow> store \<Rightarrow> store" where
  "delete_rows_from ino k s = s\<lparr>st_chunks := del_where (\<lambda>c. c_ino c = ino \<and> k \<le> c_idx c) (st_chunks s)\<rparr>"

definition sum_sizes :: "(int \<times> int) list \<Rightarrow> int" where
  "sum_sizes rows = sum_list (map snd rows)"

definition repair_rows :: "int \<Rightarrow> int \<Rightarrow> int \<Rightarrow> (int \<times> int) list \<Rightarrow> bool \<Rightarrow> store \<Rightarrow> repair_report option \<times> store" where
  "repair_rows ino old_size expected rows dry s =
     (if rows = [] then
        (if old_size = 0 then (None, s)
         else (Some \<lparr>rr_ino = ino, rr_old_size = old_size, rr_new_size = 0, rr_old_chunks = 0, rr_new_chunks = 0, rr_first_gap = -1\<rparr>,
               if dry then s else set_size_row ino 0 s))
      else let gap = first_gap 0 rows in
        if 0 \<le> gap then
          (let new_size = sum_sizes (take (nat gap) rows) in
           (Some \<lparr>rr_ino = ino, rr_old_size = old_size, rr_new_size = new_size,
                  rr_old_chunks = int (length rows), rr_new_chunks = gap, rr_first_gap = gap\<rparr>,
            if dry then s else delete_rows_from ino gap (set_size_row ino new_size s)))
        else let n = int (length rows) in
          if expected < n then
            (Some \<lparr>rr_ino = ino, rr_old_size = old_size, rr_new_size = old_size,
                   rr_old_chunks = n, rr_new_chunks = expected, rr_first_gap = -1\<rparr>,
             if dry then s else delete_rows_from ino expected s)
          else if n < expected then
            (let covered = sum_sizes rows in
             if old_size \<le> covered then (None, s)
             else (Some \<lparr>rr_ino = ino, rr_old_size = old_size, rr_new_size = covered,
                         rr_old_chunks = n, rr_new_chunks = n, rr_first_gap = -1\<rparr>,
                   if dry then s else set_size_row ino covered s))
          else (None, s))"

definition repair_tx :: "int \<Rightarrow> staged_checker \<Rightarrow> bool \<Rightarrow> store \<Rightarrow> meta_err + (repair_report option \<times> store)" where
  "repair_tx ino staged dry s =
     (case row_at i_ino (st_inodes s) ino of
        None \<Rightarrow> Inr (None, if dry then s else s\<lparr>st_chunks := del_where (\<lambda>c. c_ino c = ino) (st_chunks s)\<rparr>)
      | Some i \<Rightarrow>
          if i_sparse i then Inr (None, s)
          else
            let cs = (if i_chunk_size i \<le> 0 then DefaultChunkSize else i_chunk_size i);
                rows = file_rows ino s;
                expected = expected_chunks (i_size i) cs in
            if staged_shield staged ino expected rows then Inr (None, s)
            else Inr (repair_rows ino (i_size i) expected rows dry s))"

definition repair_one_inode :: "int \<Rightarrow> staged_checker \<Rightarrow> bool \<Rightarrow> store \<Rightarrow> (meta_err + repair_report option) \<times> store" where
  "repair_one_inode ino staged dry = with_tx (repair_tx ino staged dry)"

section \<open>Candidates and the two passes\<close>

definition max_idx :: "int \<Rightarrow> store \<Rightarrow> int" where
  "max_idx ino s = foldr max (map c_idx (filter (\<lambda>c. c_ino c = ino) (st_chunks s))) (- (2 ^ 31))"

definition mismatch :: "store \<Rightarrow> int \<Rightarrow> bool" where
  "mismatch s ino =
     (case row_at i_ino (st_inodes s) ino of
        None \<Rightarrow> False
      | Some i \<Rightarrow> i_kind i = KindFile \<and> \<not> i_sparse i \<and>
          (max_idx ino s + 1 \<noteq> int (cnt_where (\<lambda>c. c_ino c = ino) (st_chunks s)) \<or>
           i_chunk_size i \<noteq> 0 \<and> max_idx ino s + 1 \<noteq> go_div (i_size i + i_chunk_size i - 1) (i_chunk_size i)))"

definition repair_candidates :: "store \<Rightarrow> int list" where
  "repair_candidates s =
     filter (mismatch s) (sort (remdups (map c_ino (st_chunks s)))) @
     map i_ino (filter (\<lambda>i. i_kind i = KindFile \<and> \<not> i_sparse i \<and> i_size i > 0 \<and>
        cnt_where (\<lambda>c. c_ino c = i_ino i) (st_chunks s) = 0) (st_inodes s))"

fun repair_each :: "staged_checker \<Rightarrow> bool \<Rightarrow> int list \<Rightarrow> store \<Rightarrow> (meta_err + repair_report list) \<times> store" where
  "repair_each staged dry [] s = (Inr [], s)"
| "repair_each staged dry (ino # inos) s =
     (case repair_one_inode ino staged dry s of
        (Inl e, s1) \<Rightarrow> (Inl e, s1)
      | (Inr r, s1) \<Rightarrow>
          (case repair_each staged dry inos s1 of
             (Inl e, s2) \<Rightarrow> (Inl e, s2)
           | (Inr rs, s2) \<Rightarrow> (Inr (case r of None \<Rightarrow> rs | Some x \<Rightarrow> x # rs), s2)))"

definition scan_partial_files :: "staged_checker \<Rightarrow> store \<Rightarrow> (meta_err + repair_report list) \<times> store" where
  "scan_partial_files staged s = repair_each staged True (repair_candidates s) s"

definition repair_partial_files :: "staged_checker \<Rightarrow> store \<Rightarrow> (meta_err + repair_report list) \<times> store" where
  "repair_partial_files staged s = repair_each staged False (repair_candidates s) s"

section \<open>The rows of a file\<close>

text \<open>Rows without a gap: the row at position i has index i.\<close>

definition contiguous :: "(int \<times> int) list \<Rightarrow> bool" where
  "contiguous rows = (\<forall>i<length rows. fst (rows ! i) = int i)"

lemma first_gap_none:
  assumes "\<forall>i<length rows. fst (rows ! i) = int (k + i)" "int (k + length rows) \<le> 2 ^ 31"
  shows "first_gap k rows = -1"
  using assms
proof (induction rows arbitrary: k)
  case (Cons r rows)
  obtain idx z where r: "r = (idx, z)" by (cases r)
  have "idx = int k" using Cons.prems(1) r by fastforce
  moreover have "to_int32 (int k) = int k" using Cons.prems(2) by (intro to_int32_id) simp_all
  moreover have "first_gap (Suc k) rows = -1"
    using Cons.prems by (intro Cons.IH) (fastforce, simp)
  ultimately show ?case by (simp add: r)
qed simp

lemma first_gap_ge:
  assumes "int (k + length rows) \<le> 2 ^ 31" "first_gap k rows \<noteq> -1"
  shows "int k \<le> first_gap k rows \<and> first_gap k rows < int (k + length rows) \<and>
     (\<forall>i. int (k + i) < first_gap k rows \<longrightarrow> fst (rows ! i) = int (k + i)) \<and>
     fst (rows ! nat (first_gap k rows - int k)) \<noteq> first_gap k rows"
  using assms
proof (induction rows arbitrary: k)
  case (Cons r rows)
  obtain idx z where r: "r = (idx, z)" by (cases r)
  have t: "to_int32 (int k) = int k" using Cons.prems(1) by (intro to_int32_id) simp_all
  show ?case
  proof (cases "idx = int k")
    case True
    then have g: "first_gap k (r # rows) = first_gap (Suc k) rows" by (simp add: r t)
    have IH: "int (Suc k) \<le> first_gap (Suc k) rows \<and> first_gap (Suc k) rows < int (Suc k + length rows) \<and>
     (\<forall>i. int (Suc k + i) < first_gap (Suc k) rows \<longrightarrow> fst (rows ! i) = int (Suc k + i)) \<and>
     fst (rows ! nat (first_gap (Suc k) rows - int (Suc k))) \<noteq> first_gap (Suc k) rows"
      using Cons.prems g by (intro Cons.IH) simp_all
    have "fst ((r # rows) ! i) = int (k + i)" if "int (k + i) < first_gap (Suc k) rows" for i
      using IH that True by (cases i) (auto simp: r)
    moreover have "nat (first_gap (Suc k) rows - int k) = Suc (nat (first_gap (Suc k) rows - int (Suc k)))"
      by (subst Suc_nat_eq_nat_zadd1) (use IH in auto)
    ultimately show ?thesis using IH unfolding g by simp
  next
    case False
    then show ?thesis by (simp add: r t)
  qed
qed simp

lemma sum_sizes_bound: "\<forall>x\<in>set rows. snd x \<le> cs \<Longrightarrow> sum_sizes rows \<le> int (length rows) * cs"
  by (induction rows) (auto simp: sum_sizes_def algebra_simps)

lemma file_rows_set: "set (file_rows ino s) = (\<lambda>r. (c_idx r, c_size r)) ` {r \<in> set (st_chunks s). c_ino r = ino}"
  by (auto simp: file_rows_def)

lemma file_rows_strict:
  assumes "keyed ckey (st_chunks s)" shows "sorted_wrt (<) (map fst (file_rows ino s))"
proof -
  have "distinct (map c_idx (filter (\<lambda>r. c_ino r = ino) (st_chunks s)))"
    using assms unfolding keyed_def
    by (induction "st_chunks s" arbitrary: s rule: list.induct)
       (auto simp: distinct_map inj_on_def)
  then show ?thesis unfolding file_rows_def
    by (intro sorted_sort_key_strict) (simp add: o_def)
qed

text \<open>In a strictly ascending list of indices from 0 up, position i holds an index of at least i.\<close>

lemma strict_pos_le:
  assumes "sorted_wrt (<) xs" "i < length xs" "\<forall>x\<in>set xs. (0 :: int) \<le> x"
  shows "int i \<le> xs ! i"
  using assms(2)
proof (induction i)
  case 0
  then show ?case using assms(3) by simp
next
  case (Suc i)
  then have "xs ! i < xs ! Suc i" using assms(1) by (simp add: sorted_wrt_iff_nth_less)
  with Suc show ?case by simp
qed

lemma filter_lt_take:
  assumes "g \<le> length rows" "\<forall>i<g. fst (rows ! i) < int g" "\<forall>i<length rows. g \<le> i \<longrightarrow> int g \<le> fst (rows ! i)"
  shows "filter (\<lambda>x. fst x < int g) rows = take g rows"
proof -
  have "filter (\<lambda>x. fst x < int g) (take g rows) = take g rows"
    by (rule filter_True) (use assms(1,2) in \<open>auto simp: in_set_conv_nth, metis fst_conv\<close>)
  moreover have "filter (\<lambda>x. fst x < int g) (drop g rows) = []"
  proof -
    have "int g \<le> fst x" if "x \<in> set (drop g rows)" for x
    proof -
      obtain i where "i < length (drop g rows)" "x = drop g rows ! i" using \<open>x \<in> _\<close> by (metis in_set_conv_nth)
      then show ?thesis using assms(1,3) by simp
    qed
    then show ?thesis by (auto simp: filter_empty_conv not_less)
  qed
  ultimately show ?thesis by (metis append_Nil2 append_take_drop_id filter_append)
qed

text \<open>What the writer leaves: indices from 0 up, no row longer than a chunk, and a row that has a
  successor is full.\<close>

definition rows_sane :: "int \<Rightarrow> (int \<times> int) list \<Rightarrow> bool" where
  "rows_sane cs rows \<longleftrightarrow> 0 < cs \<and> sorted_wrt (<) (map fst rows) \<and> int (length rows) \<le> 2 ^ 31 \<and>
     (\<forall>x\<in>set rows. 0 \<le> fst x \<and> 0 < snd x \<and> snd x \<le> cs) \<and>
     (\<forall>x\<in>set rows. \<forall>y\<in>set rows. fst y = fst x + 1 \<longrightarrow> snd x = cs)"

lemma rows_sane_pos:
  assumes "rows_sane cs rows" "i < length rows" shows "int i \<le> fst (rows ! i)"
  using strict_pos_le [of "map fst rows" i] assms by (auto simp: rows_sane_def)

lemma rows_sane_take: "rows_sane cs rows \<Longrightarrow> rows_sane cs (take k rows)"
proof -
  assume "rows_sane cs rows"
  moreover have "set (take k rows) \<subseteq> set rows" by (rule set_take_subset)
  moreover have "int (length (take k rows)) \<le> int (length rows)" by simp
  ultimately show ?thesis unfolding rows_sane_def
    by (intro conjI) (simp, simp add: take_map [symmetric] sorted_wrt_take, linarith, blast, blast)
qed

lemma rows_sane_gap:
  assumes sane: "rows_sane cs rows" and gap: "0 \<le> first_gap 0 rows"
  defines "g \<equiv> nat (first_gap 0 rows)"
  shows "g < length rows" "int g = first_gap 0 rows" "contiguous (take g rows)"
    "filter (\<lambda>x. fst x < int g) rows = take g rows" "int g < fst (rows ! g)"
proof -
  have b: "int (0 + length rows) \<le> 2 ^ 31" using sane by (simp add: rows_sane_def)
  have "first_gap 0 rows \<noteq> -1" using gap by simp
  note fg = first_gap_ge [OF b this]
  show g: "int g = first_gap 0 rows" using gap by (simp add: g_def)
  show len: "g < length rows" using fg g by simp
  have pre: "\<forall>i<g. fst (rows ! i) = int i" using fg g by simp
  then show "contiguous (take g rows)" using len by (simp add: contiguous_def)
  have ne: "fst (rows ! g) \<noteq> int g" using fg g by (simp add: g_def)
  then show "int g < fst (rows ! g)" using rows_sane_pos [OF sane len] by simp
  have "\<forall>i<length rows. g \<le> i \<longrightarrow> int g \<le> fst (rows ! i)"
    using rows_sane_pos [OF sane] by (meson of_nat_mono order_trans)
  then show "filter (\<lambda>x. fst x < int g) rows = take g rows"
    by (intro filter_lt_take) (use len pre in auto)
qed

lemma first_gap_neg:
  assumes "first_gap k rows < 0" "int (k + length rows) \<le> 2 ^ 31" "i < length rows"
  shows "fst (rows ! i) = int (k + i)"
  using assms
proof (induction rows arbitrary: k i)
  case (Cons r rows)
  have t: "to_int32 (int k) = int k" using Cons.prems by (intro to_int32_id) simp_all
  obtain idx z where r: "r = (idx, z)" by (cases r)
  then have "idx = int k" "first_gap (Suc k) rows < 0" using Cons.prems(1) t by (auto split: if_splits)
  then show ?case using Cons.IH [of "Suc k"] Cons.prems r by (cases i) auto
qed simp

lemma rows_sane_no_gap:
  assumes sane: "rows_sane cs rows" and gap: "first_gap 0 rows < 0"
  shows "contiguous rows"
  using first_gap_neg [OF gap] sane by (simp add: rows_sane_def contiguous_def)

text \<open>A contiguous sane file covers all but the end of its last chunk.\<close>

lemma sum_sizes_append: "sum_sizes (xs @ ys) = sum_sizes xs + sum_sizes ys"
  by (simp add: sum_sizes_def)

lemma contiguous_sum:
  assumes sane: "rows_sane cs rows" and con: "contiguous rows" and ne: "rows \<noteq> []"
  shows "sum_sizes rows = (int (length rows) - 1) * cs + snd (last rows)"
proof -
  let ?n = "length rows - 1"
  have len: "0 < length rows" using ne by simp
  have full: "snd (rows ! i) = cs" if "i < ?n" for i
  proof -
    have "fst (rows ! Suc i) = fst (rows ! i) + 1" using con that by (simp add: contiguous_def)
    moreover have "rows ! i \<in> set rows" "rows ! Suc i \<in> set rows" using that by auto
    ultimately show ?thesis using sane unfolding rows_sane_def by blast
  qed
  have "map snd (butlast rows) = replicate ?n cs"
    by (rule nth_equalityI) (auto simp: nth_butlast full)
  then have "sum_sizes (butlast rows) = int ?n * cs" by (simp add: sum_sizes_def sum_list_replicate)
  moreover have "sum_sizes rows = sum_sizes (butlast rows) + snd (last rows)"
    using sum_sizes_append [of "butlast rows" "[last rows]"] ne by (simp add: sum_sizes_def)
  moreover have "int ?n = int (length rows) - 1" using len by (simp add: of_nat_diff Suc_leI)
  ultimately show ?thesis by simp
qed

lemma expected_of_cover: "0 < cs \<Longrightarrow> 0 < l \<Longrightarrow> l \<le> cs \<Longrightarrow> 0 \<le> m \<Longrightarrow> expected_chunks (m * cs + l) cs = m + 1"
proof -
  assume a: "0 < cs" "0 < l" "l \<le> cs" "0 \<le> m"
  have "(m * cs + l + cs - 1) div cs = (l - 1 + (m + 1) * cs) div cs" by (simp add: algebra_simps)
  also have "\<dots> = m + 1"
    using a div_mult_self1 [of cs "l - 1" "m + 1"] div_pos_pos_trivial [of "l - 1" cs] by simp
  finally have "(m * cs + l + cs - 1) div cs = m + 1" .
  moreover have "0 \<le> m * cs" using a by simp
  then have "0 \<le> m * cs + l + cs - 1" using a by linarith
  ultimately show ?thesis using a by (simp add: expected_chunks_def)
qed

lemma contiguous_expected:
  assumes sane: "rows_sane cs rows" and con: "contiguous rows" and ne: "rows \<noteq> []"
  shows "expected_chunks (sum_sizes rows) cs = int (length rows)"
proof -
  have "last rows \<in> set rows" using ne by simp
  then have l: "0 < snd (last rows)" "snd (last rows) \<le> cs" "0 < cs"
    using sane by (auto simp: rows_sane_def)
  have "0 \<le> int (length rows) - 1" using ne by (simp add: Suc_leI)
  from expected_of_cover [OF l(3,1,2) this] show ?thesis using contiguous_sum [OF assms] by simp
qed

text \<open>A clean file: nothing to report, nothing to change.\<close>

definition file_clean :: "int \<Rightarrow> int \<Rightarrow> (int \<times> int) list \<Rightarrow> bool" where
  "file_clean sz cs rows \<longleftrightarrow> contiguous rows \<and> int (length rows) = expected_chunks sz cs \<and> (rows = [] \<longrightarrow> sz = 0)"

lemma file_clean_no_repair:
  assumes "file_clean sz cs rows" "int (length rows) \<le> 2 ^ 31"
  shows "repair_rows ino sz (expected_chunks sz cs) rows dry s = (None, s)"
proof -
  have "first_gap 0 rows = -1"
    using assms by (intro first_gap_none) (auto simp: file_clean_def contiguous_def)
  then show ?thesis using assms(1) by (simp add: repair_rows_def Let_def file_clean_def)
qed

section \<open>What a repair does to the store\<close>

lemma file_rows_delete_from:
  "file_rows k (delete_rows_from ino g s) = (if k = ino then filter (\<lambda>x. fst x < g) (file_rows ino s) else file_rows k s)"
proof -
  have F: "filter (\<lambda>r. c_ino r = k) (del_where (\<lambda>c. c_ino c = ino \<and> g \<le> c_idx c) C) =
      (if k = ino then filter (\<lambda>r. c_idx r < g) (filter (\<lambda>r. c_ino r = ino) C) else filter (\<lambda>r. c_ino r = k) C)" for C
    unfolding del_where_def filter_filter by (auto intro!: filter_cong)
  then show ?thesis
    by (simp add: file_rows_def delete_rows_from_def F filter_sort filter_map o_def)
qed

lemma set_size_row_simps [simp]:
  "st_chunks (set_size_row ino z s) = st_chunks s" "st_dirents (set_size_row ino z s) = st_dirents s"
  "st_ino_seq (set_size_row ino z s) = st_ino_seq s"
  "row_at i_ino (st_inodes (set_size_row ino z s)) k =
     (if k = ino then map_option (\<lambda>i. i\<lparr>i_size := z\<rparr>) (row_at i_ino (st_inodes s) k) else row_at i_ino (st_inodes s) k)"
  by (simp_all add: set_size_row_def row_at_upd_inode)

lemma delete_rows_from_simps [simp]: "st_inodes (delete_rows_from ino g s) = st_inodes s"
  by (simp add: delete_rows_from_def)

lemma file_rows_chunks [simp]: "file_rows k (set_size_row ino z s) = file_rows k s"
  by (simp add: file_rows_def)

text \<open>The states a repair can leave.\<close>

lemma repair_rows_states:
  assumes "repair_rows ino sz e rows dry s = (r, t)"
  shows "t = s \<or> (\<exists>z. t = set_size_row ino z s) \<or> (\<exists>g. t = delete_rows_from ino g s) \<or>
    (\<exists>g z. t = delete_rows_from ino g (set_size_row ino z s))"
proof -
  have "snd (repair_rows ino sz e rows dry s) = t" using assms by simp
  then show ?thesis unfolding repair_rows_def Let_def
    by (cases dry) (simp_all only: if_True if_False if_cancel snd_conv split: if_splits, blast+)
qed

lemma repair_tx_states:
  assumes "repair_tx ino staged dry s = Inr (r, t)"
  shows "t = s \<or> (\<exists>z. t = set_size_row ino z s) \<or> (\<exists>g. t = delete_rows_from ino g s) \<or>
    (\<exists>g z. t = delete_rows_from ino g (set_size_row ino z s)) \<or>
    t = s\<lparr>st_chunks := del_where (\<lambda>c. c_ino c = ino) (st_chunks s)\<rparr>"
proof (cases "row_at i_ino (st_inodes s) ino")
  case None
  then show ?thesis using assms by (cases dry) (simp_all add: repair_tx_def)
next
  case (Some i)
  then have "t = s \<or> (\<exists>sz e rows. repair_rows ino sz e rows dry s = (r, t))"
    using assms by (auto simp: repair_tx_def Let_def split: if_splits)
  then show ?thesis using repair_rows_states by blast
qed

text \<open>Other files keep their rows and attributes.\<close>

lemma repair_tx_other:
  assumes "repair_tx ino staged dry s = Inr (r, t)" "k \<noteq> ino"
  shows "file_rows k t = file_rows k s" "row_at i_ino (st_inodes t) k = row_at i_ino (st_inodes s) k"
proof -
  have nf: "file_rows k (s\<lparr>st_chunks := del_where (\<lambda>c. c_ino c = ino) (st_chunks s)\<rparr>) = file_rows k s"
    unfolding file_rows_def del_where_def using assms(2)
    by (auto intro!: arg_cong [where f = "sort_key fst"] arg_cong [where f = "map (\<lambda>r. (c_idx r, c_size r))"] filter_cong)
  show "file_rows k t = file_rows k s" "row_at i_ino (st_inodes t) k = row_at i_ino (st_inodes s) k"
    using repair_tx_states [OF assms(1)] nf assms(2)
    by (auto simp: file_rows_delete_from)
qed

lemma set_size_row_wf: "store_wf s \<Longrightarrow> store_wf (set_size_row ino z s)"
  by (simp add: set_size_row_def upd_inode_def store_wf_inodes)

lemma delete_rows_from_wf: "store_wf s \<Longrightarrow> store_wf (delete_rows_from ino g s)"
  by (auto simp: delete_rows_from_def store_wfD intro!: store_wf_chunks)

lemma repair_one_inode_wf: "store_wf s \<Longrightarrow> store_wf (snd (repair_one_inode ino staged dry s))"
  unfolding repair_one_inode_def
proof (rule with_tx_wf, assumption)
  fix r t assume wf: "store_wf s" and r: "repair_tx ino staged dry s = Inr (r, t)"
  have "store_wf (s\<lparr>st_chunks := del_where (\<lambda>c. c_ino c = ino) (st_chunks s)\<rparr>)"
    by (rule store_wf_chunks [OF wf]) (use store_wfD [OF wf] in auto)
  then show "store_wf t"
    using repair_tx_states [OF r] wf set_size_row_wf delete_rows_from_wf by metis
qed

lemma repair_tx_ok: "\<exists>r t. repair_tx ino staged dry s = Inr (r, t)"
  by (auto simp: repair_tx_def Let_def split: option.splits)

lemma repair_one_run:
  assumes "repair_tx ino staged dry s = Inr (r, t)"
  shows "repair_one_inode ino staged dry s = (Inr r, t\<lparr>st_write_ctr := st_write_ctr t + 1\<rparr>)"
  using assms by (simp add: repair_one_inode_def with_tx_def)

lemma repair_tx_dry: "repair_tx ino staged True s = Inr (r, t) \<Longrightarrow> t = s"
  by (auto simp: repair_tx_def repair_rows_def Let_def split: option.splits if_splits)

text \<open>The report depends on the file's own row and rows only, not on the dry flag.\<close>

lemma repair_tx_report:
  assumes "row_at i_ino (st_inodes t) ino = row_at i_ino (st_inodes s) ino" "file_rows ino t = file_rows ino s"
    "repair_tx ino staged dry s = Inr (r, s')" "repair_tx ino staged dry' t = Inr (r', t')"
  shows "r' = r"
  using assms by (auto simp: repair_tx_def repair_rows_def Let_def split: option.splits if_splits)

section \<open>A repaired file is clean\<close>

lemma expected_bounds:
  assumes "0 < cs" "0 \<le> sz" "e = expected_chunks sz cs"
  shows "0 \<le> e" "sz \<le> e * cs" "e = 0 \<longleftrightarrow> sz = 0" "0 < sz \<Longrightarrow> (e - 1) * cs < sz"
proof -
  have e: "e = (sz + cs - 1) div cs" using assms by (simp add: expected_chunks_def)
  have m: "(sz + cs - 1) = e * cs + (sz + cs - 1) mod cs" using e by simp
  have b: "0 \<le> (sz + cs - 1) mod cs" "(sz + cs - 1) mod cs < cs" using assms(1) by simp_all
  show "0 \<le> e" using e assms by (simp add: pos_imp_zdiv_nonneg_iff)
  show up: "sz \<le> e * cs" using m b by linarith
  show low: "0 < sz \<Longrightarrow> (e - 1) * cs < sz" using m b by (simp add: algebra_simps)
  show "e = 0 \<longleftrightarrow> sz = 0"
  proof
    show "sz = 0" if "e = 0" using up that assms(2) by simp
    show "e = 0" if "sz = 0" using that e assms(1) by simp
  qed
qed

lemma repair_rows_clean:
  assumes sane: "rows_sane cs (file_rows ino s)" and sz: "0 \<le> sz" and row: "row_at i_ino (st_inodes s) ino = Some i" "i_size i = sz"
    and r: "repair_rows ino sz (expected_chunks sz cs) (file_rows ino s) False s = (rep, t)"
  shows "\<exists>i'. row_at i_ino (st_inodes t) ino = Some i' \<and> i_sparse i' = i_sparse i \<and> i_chunk_size i' = i_chunk_size i \<and>
      file_clean (i_size i') cs (file_rows ino t)"
proof -
  let ?rows = "file_rows ino s" let ?e = "expected_chunks sz cs"
  have cs: "0 < cs" using sane by (simp add: rows_sane_def)
  note eb = expected_bounds [OF cs sz refl]
  have clean0: "file_clean 0 cs []"
    using expected_bounds(3) [of cs 0, OF cs _ refl] by (simp add: file_clean_def contiguous_def)
  consider (empty) "?rows = []" | (gap) "?rows \<noteq> []" "0 \<le> first_gap 0 ?rows"
    | (con) "?rows \<noteq> []" "first_gap 0 ?rows < 0" by linarith
  then show ?thesis
  proof cases
    case empty
    have t: "t = (if sz = 0 then s else set_size_row ino 0 s)" using r empty by (auto simp: repair_rows_def)
    then have rows: "file_rows ino t = []" using empty by simp
    show ?thesis
    proof (cases "sz = 0")
      case True
      then show ?thesis using t row rows clean0 by simp
    next
      case False
      then show ?thesis using t row rows clean0 by simp
    qed
  next
    case gap
    define g where "g = nat (first_gap 0 ?rows)"
    note gp = rows_sane_gap [OF sane gap(2), folded g_def]
    have t: "t = delete_rows_from ino (int g) (set_size_row ino (sum_sizes (take g ?rows)) s)"
      using r gap gp(2) by (simp add: repair_rows_def Let_def g_def)
    have rows: "file_rows ino t = take g ?rows"
      using gp(4) by (simp add: t file_rows_delete_from)
    have "file_clean (sum_sizes (take g ?rows)) cs (take g ?rows)"
    proof (cases "take g ?rows = []")
      case True
      show ?thesis unfolding True using clean0 by (simp add: sum_sizes_def)
    next
      case False
      then show ?thesis
        using contiguous_expected [OF rows_sane_take [OF sane] gp(3) False] gp(3) by (simp add: file_clean_def)
    qed
    then show ?thesis using row rows by (simp add: t)
  next
    case con
    have c: "contiguous ?rows" by (rule rows_sane_no_gap [OF sane con(2)])
    let ?n = "int (length ?rows)"
    consider (more) "?e < ?n" | (less) "?n < ?e" | (eq) "?n = ?e" by linarith
    then show ?thesis
    proof cases
      case more
      have t: "t = delete_rows_from ino ?e s" using r con more by (simp add: repair_rows_def Let_def)
      have "filter (\<lambda>x. fst x < int (nat ?e)) ?rows = take (nat ?e) ?rows"
        by (rule filter_lt_take) (use c more eb(1) in \<open>auto simp: contiguous_def\<close>)
      then have rows: "file_rows ino t = take (nat ?e) ?rows" using eb(1) by (simp add: t file_rows_delete_from)
      have "file_clean sz cs (take (nat ?e) ?rows)"
        using c more eb(1,3) con(1) by (auto simp: file_clean_def contiguous_def)
      then show ?thesis using row rows by (simp add: t)
    next
      case less
      have "0 < sz" using less eb(3) sz by (cases "sz = 0") auto
      then have lt: "(?e - 1) * cs < sz" using eb(4) by simp
      have "sum_sizes ?rows \<le> ?n * cs" using sane by (intro sum_sizes_bound) (simp add: rows_sane_def)
      also have "\<dots> \<le> (?e - 1) * cs" using less cs by (intro mult_right_mono) simp_all
      finally have cov: "sum_sizes ?rows < sz" using lt by simp
      have t: "t = set_size_row ino (sum_sizes ?rows) s"
        using r con less cov by (simp add: repair_rows_def Let_def)
      have "file_clean (sum_sizes ?rows) cs ?rows"
        using c contiguous_expected [OF sane c con(1)] con(1) by (simp add: file_clean_def)
      then show ?thesis using row by (simp add: t)
    next
      case eq
      then have "t = s" using r con by (simp add: repair_rows_def Let_def)
      moreover have "file_clean sz cs ?rows" using c eq con(1) by (simp add: file_clean_def)
      ultimately show ?thesis using row by simp
    qed
  qed
qed

text \<open>Without rows past the end of the file a repair never makes the file longer.\<close>

lemma repair_rows_shrinks:
  assumes sane: "rows_sane cs rows" and sz: "0 \<le> sz"
    and inside: "\<forall>x\<in>set rows. fst x < expected_chunks sz cs"
    and r: "repair_rows ino sz (expected_chunks sz cs) rows dry s = (Some rep, t)"
  shows "rr_new_size rep \<le> sz"
proof -
  have cs: "0 < cs" using sane by (simp add: rows_sane_def)
  note eb = expected_bounds [OF cs sz refl]
  show ?thesis
  proof (cases "rows \<noteq> [] \<and> 0 \<le> first_gap 0 rows")
    case True
    define g where "g = nat (first_gap 0 rows)"
    have gap: "0 \<le> first_gap 0 rows" using True by simp
    note gp = rows_sane_gap [OF sane gap, folded g_def]
    have rep: "rr_new_size rep = sum_sizes (take g rows)"
      using r True by (auto simp: repair_rows_def Let_def g_def)
    have "int g < fst (rows ! g)" "fst (rows ! g) < expected_chunks sz cs"
      using gp(5) inside nth_mem [OF gp(1)] by auto
    then have ge: "int g \<le> expected_chunks sz cs - 1" by linarith
    then have "0 < sz" using eb(3) sz by (cases "sz = 0") auto
    have "sum_sizes (take g rows) \<le> int (length (take g rows)) * cs"
      using rows_sane_take [OF sane, of g] by (intro sum_sizes_bound) (simp add: rows_sane_def)
    also have "\<dots> \<le> int g * cs" using cs by (intro mult_right_mono) simp_all
    also have "\<dots> \<le> (expected_chunks sz cs - 1) * cs" using ge cs by (intro mult_right_mono) simp_all
    also have "\<dots> < sz" using eb(4) \<open>0 < sz\<close> .
    finally show ?thesis using rep by simp
  next
    case False
    then show ?thesis using r sz by (auto simp: repair_rows_def Let_def split: if_splits)
  qed
qed

section \<open>Scanning reports what repairing does\<close>

lemma distinct_candidates:
  assumes "store_wf s" shows "distinct (repair_candidates s)"
proof -
  have "distinct (map i_ino (st_inodes s))"
    using tree_okD(1) [OF store_wf_tree [OF assms]] by (simp add: keyed_def)
  then show ?thesis
    by (auto simp: repair_candidates_def distinct_map_filter cnt_where_0)
qed

lemma file_rows_ctr [simp]: "file_rows k (s\<lparr>st_write_ctr := n\<rparr>) = file_rows k s"
  by (simp add: file_rows_def)

lemma repair_each_reports:
  assumes "distinct inos" "\<forall>k\<in>set inos. file_rows k t = file_rows k s \<and> row_at i_ino (st_inodes t) k = row_at i_ino (st_inodes s) k"
  shows "fst (repair_each staged True inos s) = fst (repair_each staged False inos t)"
  using assms
proof (induction inos arbitrary: s t)
  case (Cons ino inos)
  obtain r s1 where a: "repair_tx ino staged True s = Inr (r, s1)" using repair_tx_ok by blast
  obtain r' t1 where b: "repair_tx ino staged False t = Inr (r', t1)" using repair_tx_ok by blast
  have s1: "s1 = s" by (rule repair_tx_dry [OF a])
  have rr: "r' = r"
    by (rule repair_tx_report [OF _ _ a b]) (use Cons.prems(2) in auto)
  have "\<forall>k\<in>set inos. file_rows k t1 = file_rows k s \<and> row_at i_ino (st_inodes t1) k = row_at i_ino (st_inodes s) k"
  proof
    fix k assume k: "k \<in> set inos"
    then have "k \<noteq> ino" using Cons.prems(1) by auto
    from repair_tx_other [OF b this] k Cons.prems(2)
    show "file_rows k t1 = file_rows k s \<and> row_at i_ino (st_inodes t1) k = row_at i_ino (st_inodes s) k" by simp
  qed
  then have "fst (repair_each staged True inos (s\<lparr>st_write_ctr := st_write_ctr s + 1\<rparr>)) =
      fst (repair_each staged False inos (t1\<lparr>st_write_ctr := st_write_ctr t1 + 1\<rparr>))"
    using Cons.prems(1) by (intro Cons.IH) simp_all
  then show ?case using repair_one_run [OF a] repair_one_run [OF b] s1 rr
    by (auto split: prod.splits sum.splits)
qed simp

lemma repair_each_wf: "store_wf s \<Longrightarrow> store_wf (snd (repair_each staged dry inos s))"
proof (induction inos arbitrary: s)
  case (Cons ino inos)
  show ?case
    using repair_one_inode_wf [OF Cons.prems, of ino staged dry] Cons.IH
    by (auto split: prod.splits sum.splits) (metis snd_conv)+
qed simp

lemma repair_each_dry_state:
  "\<exists>n. snd (repair_each staged True inos s) = s\<lparr>st_write_ctr := n\<rparr>"
proof (induction inos arbitrary: s)
  case Nil
  then show ?case by (intro exI [of _ "st_write_ctr s"]) simp
next
  case (Cons ino inos)
  obtain r s1 where a: "repair_tx ino staged True s = Inr (r, s1)" using repair_tx_ok by blast
  have s1: "s1 = s" by (rule repair_tx_dry [OF a])
  obtain n where "snd (repair_each staged True inos (s\<lparr>st_write_ctr := st_write_ctr s + 1\<rparr>)) =
      (s\<lparr>st_write_ctr := st_write_ctr s + 1\<rparr>)\<lparr>st_write_ctr := n\<rparr>" using Cons.IH by blast
  then show ?case using repair_one_run [OF a] s1
    by (intro exI [of _ n]) (auto split: prod.splits sum.splits)
qed

end
