(* ===== verification/MetaSystem.thy ===== *)
theory MetaSystem
  imports ReplaySim Repair
begin

text \<open>
  The metadata store as a transition system: one step per public operation of
  \<open>internal/meta\<close>, whatever its result, and the stores reachable from a freshly seeded one.
  The summary theorem \<open>reachable_store_wf\<close> collects the preservation lemmas of the components.
  New inodes come with no link count, as every caller of \<open>CreateChild\<close> passes them.
\<close>

inductive meta_step :: "store \<Rightarrow> store \<Rightarrow> bool" where
  step_create: "i_nlink child = 0 \<Longrightarrow> meta_step s (snd (create_child now p n child s))"
| step_link: "meta_step s (snd (link p n tgt s))"
| step_unlink: "meta_step s (snd (unlink p n s))"
| step_rename: "meta_step s (snd (rename op on np nn s))"
| step_sparse: "meta_step s (snd (set_inode_sparse ino s))"
| step_chunk_size: "meta_step s (snd (set_inode_chunk_size ino z s))"
| step_attrs: "meta_step s (snd (set_attrs now ino p s))"
| step_size: "meta_step s (snd (set_size now ino z s))"
| step_set_xattr: "meta_step s (snd (set_xattr ino name v s))"
| step_remove_xattr: "meta_step s (snd (remove_xattr ino name s))"
| step_put_chunk: "meta_step s (snd (put_chunk c s))"
| step_delete_chunk: "meta_step s (snd (delete_chunk ino idx s))"
| step_delete_above: "meta_step s (snd (delete_chunks_above ino idx s))"
| step_reuse: "meta_step s (snd (reuse_chunk_by_hash ino idx h s))"
| step_record: "meta_step s (snd (record_chunk_blob h m z s))"
| step_prune: "meta_step s (snd (prune_stale_chunk_blobs s))"
| step_put_kv: "meta_step s (snd (put_kv k v s))"
| step_delete_kv: "meta_step s (snd (delete_kv k s))"
| step_append_journal: "meta_step s (snd (append_journal jop s))"
| step_mark: "meta_step s (snd (mark_journal_posted q at s))"
| step_batch_mark: "meta_step s (snd (batch_mark_journal_posted qs at s))"
| step_delete_journal: "meta_step s (snd (delete_journal_up_to q s))"
| step_replay: "meta_step s (snd (replay_op now jop s))"
| step_repair: "meta_step s (snd (repair_partial_files staged s))"
| step_scan: "meta_step s (snd (scan_partial_files staged s))"

inductive_cases meta_stepE: "meta_step s t"

definition meta_reachable :: "store \<Rightarrow> bool" where
  "meta_reachable s = (\<exists>uid gid now uuid. meta_step\<^sup>*\<^sup>* (init_schema uid gid now uuid empty_store) s)"

lemma meta_step_wf: "meta_step s t \<Longrightarrow> store_wf s \<Longrightarrow> store_wf t"
  by (erule meta_stepE)
     (auto intro: create_child_wf link_wf unlink_wf rename_wf set_inode_sparse_wf set_inode_chunk_size_wf
       set_attrs_wf set_size_wf set_xattr_wf remove_xattr_wf put_chunk_wf delete_chunk_wf delete_chunks_above_wf
       reuse_chunk_wf record_chunk_blob_wf prune_wf put_kv_wf delete_kv_wf append_journal_wf
       mark_journal_posted_wf batch_mark_wf delete_journal_wf replay_op_wf repair_each_wf
       simp: repair_partial_files_def scan_partial_files_def)

lemma meta_reachable_wf: "meta_reachable s \<Longrightarrow> store_wf s"
  unfolding meta_reachable_def
proof (elim exE)
  fix uid gid now uuid
  assume "meta_step\<^sup>*\<^sup>* (init_schema uid gid now uuid empty_store) s"
  then show "store_wf s"
    by (induction rule: rtranclp_induct) (auto intro: init_schema_wf meta_step_wf)
qed

lemma meta_reachable_init: "meta_reachable (init_schema uid gid now uuid empty_store)"
  unfolding meta_reachable_def by blast

lemma meta_reachable_step: "meta_reachable s \<Longrightarrow> meta_step s t \<Longrightarrow> meta_reachable t"
  unfolding meta_reachable_def by (meson rtranclp.rtrancl_into_rtrancl)

section \<open>Stores for examples\<close>

definition plain_inode :: "kind \<Rightarrow> inode" where
  "plain_inode k = \<lparr>i_ino = 0, i_kind = k, i_mode = 0x1ED, i_uid = 0, i_gid = 0, i_size = 0, i_nlink = 0,
     i_mtime = 0, i_ctime = 0, i_target = [], i_chunk_size = 65536, i_sparse = False\<rparr>"

text \<open>A fresh store; then a directory /d (inode 2), a file /d/f (inode 3) and a file /g (inode 4).\<close>

definition demo0 :: store where "demo0 = init_schema 1000 1000 7 ''uuid'' empty_store"
definition demo_dir :: store where "demo_dir = snd (create_child 8 1 ''d'' (plain_inode KindDir) demo0)"
definition demo_file :: store where "demo_file = snd (create_child 9 2 ''f'' (plain_inode KindFile) demo_dir)"
definition demo :: store where "demo = snd (create_child 10 1 ''g'' (plain_inode KindFile) demo_file)"

lemma demo_reachable: "meta_reachable demo0" "meta_reachable demo_dir" "meta_reachable demo_file" "meta_reachable demo"
proof -
  have k: "i_nlink (plain_inode k) = 0" for k by (simp add: plain_inode_def)
  show 0: "meta_reachable demo0" unfolding demo0_def by (rule meta_reachable_init)
  show 1: "meta_reachable demo_dir" unfolding demo_dir_def
    by (rule meta_reachable_step [OF 0 step_create [OF k]])
  show 2: "meta_reachable demo_file" unfolding demo_file_def
    by (rule meta_reachable_step [OF 1 step_create [OF k]])
  show "meta_reachable demo" unfolding demo_def
    by (rule meta_reachable_step [OF 2 step_create [OF k]])
qed

lemmas demo_wf = demo_reachable [THEN meta_reachable_wf]

end
