(* ===== verification/MetaProps.thy ===== *)
theory MetaProps
  imports MetaSystem
begin

text \<open>
  The properties of the metadata store: the invariant of every reachable store, the refinement
  of the namespace operations, what an unlink removes, the chunk map and dedup index, the
  journal, repair and the write counter.  Each rests on the lemmas of its component; the
  witnesses run on the small stores of MetaSystem.
\<close>

section \<open>The write counter\<close>

definition ctr_ok :: "store \<Rightarrow> store \<Rightarrow> bool" where
  "ctr_ok s t = (t = s \<or> st_write_ctr s < st_write_ctr t)"

lemma ctr_refl [simp]: "ctr_ok s s"
  by (simp add: ctr_ok_def)

lemma ctr_trans: "ctr_ok s t \<Longrightarrow> ctr_ok t u \<Longrightarrow> ctr_ok s u"
  by (auto simp: ctr_ok_def)

lemma ctr_with_tx:
  assumes "\<And>a t. fn s = Inr (a, t) \<Longrightarrow> st_write_ctr t = st_write_ctr s"
  shows "ctr_ok s (snd (with_tx fn s))"
  using assms by (auto simp: ctr_ok_def with_tx_def split: sum.splits)

lemma ctr_exec:
  assumes "\<And>a t. fn s = Inr (a, t) \<Longrightarrow> st_write_ctr t = st_write_ctr s"
  shows "ctr_ok s (snd (exec_with_retry fn s))"
  using assms by (auto simp: ctr_ok_def exec_with_retry_def split: sum.splits)

lemma unlink_in_tx_ctr: "unlink_in_tx p n s = Inr (r, t) \<Longrightarrow> st_write_ctr t = st_write_ctr s"
  by (cases r) (auto elim!: unlink_in_tx_Inr simp: unlinked_def delete_inode_row_def split: if_splits)

lemma rename_finish_ctr: "rename_finish op on np nn d s = Inr (a, t) \<Longrightarrow> st_write_ctr t = st_write_ctr s"
  by (auto simp: rename_finish_def move_dirent_def split: sum.splits if_splits)

lemma put_chunk_stmt_ctr: "put_chunk_stmt r s = Inr (n, t) \<Longrightarrow> st_write_ctr t = st_write_ctr s"
  by (auto simp: put_chunk_stmt_def split: if_splits)

lemma ctr_create: "ctr_ok s (snd (create_child now p n c s))"
  unfolding create_child_def by (rule ctr_with_tx) (auto dest!: create_child_tx_Inr(4))

lemma ctr_create_at: "ctr_ok s (snd (create_child_at p n c i s))"
  unfolding create_child_at_def by (rule ctr_with_tx) (auto dest!: create_child_at_tx_Inr(4))

lemma ctr_link: "ctr_ok s (snd (link p n tgt s))"
  unfolding link_def by (rule ctr_with_tx) (auto elim!: link_tx_Inr)

lemma ctr_unlink: "ctr_ok s (snd (unlink p n s))"
  unfolding unlink_def
  by (rule ctr_with_tx) (auto simp: unlink_tx_def dest: unlink_in_tx_ctr split: sum.splits)

lemma ctr_rename: "ctr_ok s (snd (rename op on np nn s))"
proof -
  have "ctr_ok s (snd (with_tx (rename_tx op on np nn) s))"
    by (rule ctr_with_tx) (auto elim!: rename_tx_Inr dest!: rename_finish_ctr unlink_in_tx_ctr)
  then show ?thesis by (simp add: rename_def)
qed

lemma ctr_sparse: "ctr_ok s (snd (set_inode_sparse i s))"
  unfolding set_inode_sparse_def by (rule ctr_with_tx) (auto simp: Let_def split: if_splits)

lemma ctr_set_size: "ctr_ok s (snd (set_size now i z s))"
  by (simp add: set_size_closed ctr_ok_def)

lemma ctr_batch: "ctr_ok s (snd (batch_mark_loop q v s))"
proof (induction q v s rule: batch_mark_loop.induct)
  case (1 q v s)
  show ?case
  proof (cases "q = []")
    case False
    have "ctr_ok s (snd (exec_with_retry (mark_posted_stmt (take batch_chunk_sz q) v) s))"
      by (rule ctr_exec) (auto simp: mark_posted_stmt_def)
    then show ?thesis using False 1 [OF False]
      by (subst batch_mark_loop.simps) (auto split: prod.splits sum.splits intro: ctr_trans)
  qed (simp add: batch_mark_loop.simps)
qed

lemma ctr_set_size_row: "st_write_ctr (set_size_row i z s) = st_write_ctr s"
  "st_write_ctr (delete_rows_from i g s) = st_write_ctr s"
  by (simp_all add: set_size_row_def delete_rows_from_def)

lemma ctr_repair_each: "ctr_ok s (snd (repair_each staged dry inos s))"
proof (induction inos arbitrary: s)
  case (Cons ino inos)
  have "ctr_ok s (snd (repair_one_inode ino staged dry s))"
    unfolding repair_one_inode_def
  proof (rule ctr_with_tx)
    fix a t assume "repair_tx ino staged dry s = Inr (a, t)"
    from repair_tx_states [OF this] show "st_write_ctr t = st_write_ctr s"
      by (auto simp: ctr_set_size_row)
  qed
  then show ?case using Cons.IH
    by (auto split: prod.splits sum.splits) (metis ctr_trans snd_conv)+
qed simp

lemma ctr_replay_body: "ctr_ok s (snd (replay_body now op s))"
  using ctr_create_at ctr_create ctr_sparse ctr_link ctr_unlink ctr_set_size
    ctr_rename [of s "jo_parent op" "jo_name op" "jo_new_parent op" "jo_new_name op"]
  by (cases "jo_op op") (auto simp: replay_body_def split: prod.splits sum.splits)

definition same_content :: "store \<Rightarrow> store \<Rightarrow> bool" where
  "same_content s t = (s\<lparr>st_replaying := False\<rparr> = t\<lparr>st_replaying := False\<rparr>)"

lemma ctr_ok_content: "ctr_ok s t \<Longrightarrow> same_content s t \<or> st_write_ctr s < st_write_ctr t"
  by (auto simp: ctr_ok_def same_content_def)

lemma ctr_replay: "same_content s (snd (replay_op now op s)) \<or> st_write_ctr s < st_write_ctr (snd (replay_op now op s))"
  using ctr_replay_body [of "s\<lparr>st_replaying := True\<rparr>" now op]
  by (auto simp: replay_op_def ctr_ok_def same_content_def split: prod.splits)

lemma ctr_append_journal: "ctr_ok s (snd (append_journal jop s))"
  by (simp add: append_journal_def exec_with_retry_def ctr_ok_def)

lemma ctr_step: "meta_step s t \<Longrightarrow> ctr_ok s t \<or> (\<exists>now jop. t = snd (replay_op now jop s))"
proof (erule meta_stepE, goal_cases)
  case 23
  then show ?case by blast
qed (auto simp: ctr_create ctr_link ctr_unlink ctr_rename ctr_sparse ctr_set_size set_attrs_state ctr_ok_def [of _ "_\<lparr>st_write_ctr := _\<rparr>"]
    set_inode_chunk_size_def set_xattr_def remove_xattr_def put_chunk_def delete_chunk_def delete_chunks_above_def
    reuse_chunk_by_hash_def reuse_chunk_tx_def record_chunk_blob_def prune_stale_chunk_blobs_def put_kv_state delete_kv_state
    ctr_append_journal mark_journal_posted_def batch_mark_journal_posted_def delete_journal_up_to_def Let_def
    repair_partial_files_def scan_partial_files_def
    intro!: ctr_with_tx ctr_exec ctr_batch ctr_repair_each dest: put_chunk_stmt_ctr split: if_splits option.splits sum.splits prod.splits)

lemma get_inode_nlink_demo: "get_inode 4 demo = Inr i \<Longrightarrow> i_nlink i = 1"
proof -
  have "map_sum id i_nlink (get_inode 4 demo) = Inr 1" by code_simp
  then show "get_inode 4 demo = Inr i \<Longrightarrow> i_nlink i = 1" by simp
qed

section \<open>Properties of the namespace\<close>

text \<open>C6. Every store reachable from a freshly seeded one by any sequence of operations is well formed:
  unique keys, foreign keys that resolve, link counts equal to the number of dirents, one
  parent per directory, no directory inside itself, a journal in sequence order.\<close>

theorem reachable_store_wf: "meta_reachable s \<Longrightarrow> store_wf s"
  by (rule meta_reachable_wf)

theorem reachable_store_wf_witness: "store_wf demo \<and> length (st_dirents demo) = 3"
proof
  show "store_wf demo" by (rule reachable_store_wf [OF demo_reachable(4)])
  show "length (st_dirents demo) = 3" by code_simp
qed

text \<open>C8. Rename refines its specification on the abstract directory, error for error: on a well-formed
  store the result and the new (directory, name) map are those of POSIX rename with the cycle
  check on the true ancestor relation, and no internal error (unique or foreign key violation,
  endless ancestor walk) can come out.\<close>

theorem rename_meets_spec:
  assumes "store_wf s"
  shows "ns_result (rename op on np nn s) = spec_rename (ns s) (kinds s) op on np nn"
  by (rule rename_refines [OF assms])

theorem rename_meets_spec_witness:
  "ns_result (rename 1 ''g'' 2 ''f'' demo) = spec_rename (ns demo) (kinds demo) 1 ''g'' 2 ''f'' \<and>
   fst (rename 1 ''g'' 2 ''f'' demo) = Inr 3 \<and> fst (rename 1 ''d'' 2 ''x'' demo) = Inl ErrCycle"
proof (intro conjI)
  show "ns_result (rename 1 ''g'' 2 ''f'' demo) = spec_rename (ns demo) (kinds demo) 1 ''g'' 2 ''f''"
    by (rule rename_meets_spec [OF demo_wf(4)])
  show "fst (rename 1 ''g'' 2 ''f'' demo) = Inr 3" "fst (rename 1 ''d'' 2 ''x'' demo) = Inl ErrCycle"
    by code_simp+
qed

text \<open>Create, link and unlink refine their specifications on the abstract directory, errors
  included; a created inode gets the number after the largest one ever assigned.\<close>

theorem create_link_unlink_meet_spec:
  assumes "store_wf s"
  shows "ns_result (create_child now p n child s) = spec_create (ns s) (kinds s) (st_ino_seq s + 1) p n \<and>
    ns_result (link p n' tgt s) = spec_link (ns s) (kinds s) p n' tgt \<and>
    ns_result (unlink p n'' s) = spec_unlink (ns s) (kinds s) p n''"
  by (simp add: create_child_refines [OF assms] link_refines [OF assms] unlink_refines [OF assms])

theorem create_link_unlink_meet_spec_witness:
  "ns_result (unlink 1 ''d'' demo) = spec_unlink (ns demo) (kinds demo) 1 ''d'' \<and>
   fst (unlink 1 ''d'' demo) = Inl ErrNotEmpty \<and> fst (link 2 ''h'' 4 demo) = Inr ()"
proof (intro conjI)
  show "ns_result (unlink 1 ''d'' demo) = spec_unlink (ns demo) (kinds demo) 1 ''d''"
    using create_link_unlink_meet_spec [OF demo_wf(4), of _ 1 _ _ _ _ "''d''"] by blast
  show "fst (unlink 1 ''d'' demo) = Inl ErrNotEmpty" "fst (link 2 ''h'' 4 demo) = Inr ()"
    by code_simp+
qed

text \<open>C33. The ancestor walk of rename, which has no bound in the code, terminates on every
  well-formed store within the number of dirents plus one steps, and answers exactly whether
  the first directory is an ancestor of (or the same as) the second.\<close>

theorem ancestor_walk_decides:
  assumes "store_wf s" "kinds s start = Some KindDir"
  shows "is_ancestor s anc start = Some ((anc, start) \<in> (ns_edges (ns s))\<^sup>*)"
  using is_ancestor_correct [OF store_wf_tree [OF assms(1)], of start anc] assms(2)
    kinds_dir_in [OF tree_okD(1) [OF store_wf_tree [OF assms(1)]], of start]
    ns_edges_tree [OF tree_okD(2) [OF store_wf_tree [OF assms(1)]]] by simp

theorem ancestor_walk_decides_witness:
  "is_ancestor demo 2 2 = Some ((2, 2) \<in> (ns_edges (ns demo))\<^sup>*) \<and> is_ancestor demo 2 2 = Some True \<and>
   is_ancestor demo 4 2 = Some False"
proof (intro conjI)
  have "kinds demo 2 = Some KindDir" by code_simp
  then show "is_ancestor demo 2 2 = Some ((2, 2) \<in> (ns_edges (ns demo))\<^sup>*)"
    by (rule ancestor_walk_decides [OF demo_wf(4)])
  show "is_ancestor demo 2 2 = Some True" "is_ancestor demo 4 2 = Some False" by code_simp+
qed

text \<open>No inode of a reachable store is an orphan: each hangs from the root by a chain of
  dirents, and the directory relation has no cycle.\<close>

theorem no_orphans:
  assumes "meta_reachable s" "has_inode s k"
  shows "(RootIno, k) \<in> (ns_edges (ns s))\<^sup>* \<and> acyclic (ns_edges (ns s))"
proof -
  note tree = store_wf_tree [OF meta_reachable_wf [OF assms(1)]]
  show ?thesis
    using tree_ok_reachable [OF tree, of k] assms(2) tree_okD(4) [OF tree] ns_edges_tree [OF tree_okD(2) [OF tree]]
    by (simp add: has_inode_in)
qed

theorem no_orphans_witness: "(RootIno, 3) \<in> (ns_edges (ns demo))\<^sup>* \<and> acyclic (ns_edges (ns demo))"
proof -
  have "has_inode demo 3" by code_simp
  from no_orphans [OF demo_reachable(4) this] show ?thesis .
qed

text \<open>Removing the last link of an inode deletes its row and every chunk and xattr row that refers to
  it, tells the deletion callback its number, and frees nothing else; removing another link
  only lowers the count.  Directories with entries are refused before any change.\<close>

theorem unlink_removes:
  assumes wf: "store_wf s" and r: "unlink p n s = (Inr d, t)" and c: "ns s (p, n) = Some c"
    and i: "get_inode c s = Inr i"
  shows "(i_nlink i = 1 \<longrightarrow> d = c \<and> \<not> has_inode t c \<and>
            st_chunks t = del_where (\<lambda>x. c_ino x = c) (st_chunks s) \<and>
            st_xattrs t = del_where (\<lambda>x. x_ino x = c) (st_xattrs s)) \<and>
         (i_nlink i \<noteq> 1 \<longrightarrow> d = 0 \<and> get_inode c t = Inr (i\<lparr>i_nlink := i_nlink i - 1\<rparr>) \<and>
            st_chunks t = st_chunks s \<and> st_xattrs t = st_xattrs s) \<and>
         (\<forall>k. k \<noteq> c \<longrightarrow> get_inode k t = get_inode k s)"
proof -
  obtain c' del s1 where u: "unlink_in_tx p n s = Inr ((c', del), s1)" and d: "d = (if del then c' else 0)"
    and t: "t = (append_journal_tx ((zero_op OpUnlink)\<lparr>jo_parent := p, jo_name := n\<rparr>) s1)\<lparr>st_write_ctr := st_write_ctr s1 + 1\<rparr>"
    using r by (auto simp: unlink_def with_tx_def unlink_tx_def split: sum.splits prod.splits if_splits)
  note eff = unlink_in_tx_effect [OF wf u]
  have "c' = c" using eff(2) c by (auto simp: ns_def)
  moreover have "del \<longleftrightarrow> i_nlink i = 1"
    using u i \<open>c' = c\<close> by (auto elim!: unlink_in_tx_Inr simp: get_inode_Inr)
  moreover have "row_at i_ino (st_inodes s) c = Some i" using i by (simp add: get_inode_Inr)
  ultimately show ?thesis using eff(3,11,12) d t
    by (auto simp: get_inode_def has_inode_def)
qed

theorem unlink_removes_witness:
  "\<not> has_inode (snd (unlink 1 ''g'' demo)) 4 \<and> fst (unlink 1 ''g'' demo) = Inr 4"
proof -
  have 1: "fst (unlink 1 ''g'' demo) = Inr 4" "ns demo (1, ''g'') = Some 4" by code_simp+
  obtain i where i: "get_inode 4 demo = Inr i" using ns_child [OF demo_wf(4) 1(2)] by blast
  have "i_nlink i = 1"
    using i by (rule get_inode_nlink_demo)
  with unlink_removes [OF demo_wf(4) prod.collapse [symmetric, of "unlink 1 ''g'' demo", unfolded 1(1)] 1(2) i] 1(1)
  show ?thesis by simp
qed

section \<open>Properties of recovery\<close>

text \<open>C9. Replay reproduces the live run.  Run any sequence of journaled operations (creates, links,
  unlinks, renames, size changes, sparse flags; failing ones included) on a well-formed store:
  then replaying the journal rows they appended, in order, on a store that agreed with the
  first one beforehand succeeds and ends in agreement with it.  Agreement (er) covers every
  inode with its number, kind, owner, mode, size, link count, target, chunk size and sparse
  flag, every dirent and the inode sequence; the times are what the journal does not restore.\<close>

theorem replay_reproduces:
  assumes "store_wf s" "\<forall>op\<in>set ops. live_ok op" "\<not> st_replaying s" "er s' = er s" "\<not> st_replaying s'"
    and "st_journal (run_live_all now0 ops s) = st_journal s @ rows"
  shows "fst (replay_all now (map j_op rows) s') = Inr () \<and>
     er (snd (replay_all now (map j_op rows) s')) = er (run_live_all now0 ops s)"
  using replay_run [OF assms(1-5), of now0 now] assms(6) by auto

definition demo_ops :: "live_op list" where
  "demo_ops = [LCreate 2 ''h'' (plain_inode KindFile), LSetSize 5 100, LRename 2 ''h'' 1 ''k'',
     LLink 2 ''l'' 5, LUnlink 1 ''g'', LRename 1 ''d'' 2 ''x'']"

definition demo_rows :: "journal_row list" where
  "demo_rows = drop 3 (st_journal (run_live_all 20 demo_ops demo))"

theorem replay_reproduces_witness:
  "fst (replay_all 99 (map j_op demo_rows) demo) = Inr () \<and>
   er (snd (replay_all 99 (map j_op demo_rows) demo)) = er (run_live_all 20 demo_ops demo) \<and> length demo_rows = 5"
proof -
  have 1: "list_all live_ok demo_ops" "\<not> st_replaying demo" "length demo_rows = 5" by code_simp+
  have "take 3 (st_journal (run_live_all 20 demo_ops demo)) = st_journal demo" by code_simp
  then have 2: "st_journal (run_live_all 20 demo_ops demo) = st_journal demo @ demo_rows"
    unfolding demo_rows_def by (metis append_take_drop_id)
  have "fst (replay_all 99 (map j_op demo_rows) demo) = Inr () \<and>
     er (snd (replay_all 99 (map j_op demo_rows) demo)) = er (run_live_all 20 demo_ops demo)"
    by (rule replay_reproduces [OF demo_wf(4) _ 1(2) refl 1(2) 2]) (use 1(1) in \<open>simp add: list_all_iff\<close>)
  with 1(3) show ?thesis by simp
qed

text \<open>Replaying ops that the store already contains is not harmless: after create, unlink and
  create again of one name, and a chunk written to the new file, replaying these very ops
  succeeds but removes the chunk.  A snapshot whose recorded sequence number is older than its
  content (the number is read before the copy is taken) is recovered this way.\<close>

definition recreated :: store where
  "recreated = snd (put_chunk \<lparr>ch_ino = 3, ch_idx = 0, ch_msg = 77, ch_size = 10, ch_pack_offset = 0, ch_pack_size = 0\<rparr>
     (snd (create_child 13 1 ''f'' (plain_inode KindFile)
       (snd (unlink 1 ''f'' (snd (create_child 11 1 ''f'' (plain_inode KindFile) demo0)))))))"

theorem replay_over_newer_store_drops_chunks:
  "meta_reachable recreated \<and>
   fst (replay_all 99 (map j_op (st_journal recreated)) recreated) = Inr () \<and>
   map ch_msg (list_chunks 3 recreated) = [77] \<and>
   list_chunks 3 (snd (replay_all 99 (map j_op (st_journal recreated)) recreated)) = []"
proof (intro conjI)
  have k: "i_nlink (plain_inode k) = 0" for k by (simp add: plain_inode_def)
  show "meta_reachable recreated" unfolding recreated_def
    by (rule meta_reachable_step [OF meta_reachable_step [OF meta_reachable_step [OF meta_reachable_step
      [OF demo_reachable(1) step_create [OF k]] step_unlink] step_create [OF k]] step_put_chunk])
  show "fst (replay_all 99 (map j_op (st_journal recreated)) recreated) = Inr ()"
    "map ch_msg (list_chunks 3 recreated) = [77]"
    "list_chunks 3 (snd (replay_all 99 (map j_op (st_journal recreated)) recreated)) = []"
    by code_simp+
qed

text \<open>The write counter detects every change: a store operation leaves the content as it was or
  advances the counter, so equal counters mean equal content for the snapshot manager.\<close>

theorem write_counter_detects_change:
  assumes "meta_step s t"
  shows "same_content s t \<or> st_write_ctr s < st_write_ctr t"
  using ctr_step [OF assms] ctr_ok_content ctr_replay by blast

theorem write_counter_detects_change_witness:
  "same_content demo (snd (unlink 1 ''g'' demo)) \<or> st_write_ctr demo < st_write_ctr (snd (unlink 1 ''g'' demo))"
  by (rule write_counter_detects_change [OF step_unlink])

section \<open>Properties of the chunk map\<close>

text \<open>A chunk written to a slot is read back, normalised (the pack offset of an unpacked chunk is
  not stored), every other slot keeps its content, and a chunk of an inode that is gone is
  refused without any change.\<close>

theorem put_chunk_slot:
  "(has_inode s (ch_ino c) \<longrightarrow> fst (put_chunk c s) = Inr () \<and>
     (\<forall>i j. get_chunk i j (snd (put_chunk c s)) =
        (if (i, j) = (ch_ino c, ch_idx c) then Inr (stored_chunk c) else get_chunk i j s))) \<and>
   (\<not> has_inode s (ch_ino c) \<longrightarrow> put_chunk c s = (Inl ErrForeignKey, s))"
  using get_chunk_after_put [of s c] put_chunk_effect [of s c] put_chunk_no_inode [of s c] by auto

definition demo_chunk :: chunk where
  "demo_chunk = \<lparr>ch_ino = 4, ch_idx = 2, ch_msg = 55, ch_size = 9, ch_pack_offset = 30, ch_pack_size = 12\<rparr>"

theorem put_chunk_slot_witness:
  "get_chunk 4 2 (snd (put_chunk demo_chunk demo)) = Inr demo_chunk"
proof -
  have "has_inode demo (ch_ino demo_chunk)" by code_simp
  then have "get_chunk 4 2 (snd (put_chunk demo_chunk demo)) =
     (if (4, 2) = (ch_ino demo_chunk, ch_idx demo_chunk) then Inr (stored_chunk demo_chunk) else get_chunk 4 2 demo)"
    using put_chunk_slot [of demo demo_chunk] by blast
  then show ?thesis by (simp add: demo_chunk_def stored_chunk_def)
qed

text \<open>A range query returns, in strictly ascending index order, exactly the stored chunks of the file whose
  index lies in [from, from+count); an empty or negative count gives nothing.\<close>

theorem get_chunks_range_exact:
  assumes "store_wf s"
  shows "sorted_wrt (<) (map ch_idx (get_chunks_range ino a n s)) \<and>
    (\<forall>c. c \<in> set (get_chunks_range ino a n s) \<longleftrightarrow>
       get_chunk (ch_ino c) (ch_idx c) s = Inr c \<and> ch_ino c = ino \<and> a \<le> ch_idx c \<and> ch_idx c < a + n)"
proof (intro conjI allI)
  have k: "keyed ckey (st_chunks s)" by (rule store_wfD [OF assms])
  show "sorted_wrt (<) (map ch_idx (get_chunks_range ino a n s))"
    using list_chunks_ascending [OF k, of ino] by (simp add: get_chunks_range_list sorted_wrt_map sorted_wrt_filter)
  fix c
  have "get_chunk (ch_ino c) (ch_idx c) s = Inr c \<longleftrightarrow> c \<in> chunk_of_row ` set (st_chunks s)"
    unfolding get_chunk_Inr row_at_eq_Some [OF k] by auto
  then show "c \<in> set (get_chunks_range ino a n s) \<longleftrightarrow>
       get_chunk (ch_ino c) (ch_idx c) s = Inr c \<and> ch_ino c = ino \<and> a \<le> ch_idx c \<and> ch_idx c < a + n"
    by (auto simp: get_chunks_range_list list_chunks_set)
qed

theorem get_chunks_range_exact_witness:
  "sorted_wrt (<) (map ch_idx (get_chunks_range 4 0 5 (snd (put_chunk demo_chunk demo)))) \<and>
   length (get_chunks_range 4 0 5 (snd (put_chunk demo_chunk demo))) = 1"
proof
  show "sorted_wrt (<) (map ch_idx (get_chunks_range 4 0 5 (snd (put_chunk demo_chunk demo))))"
    using get_chunks_range_exact [OF put_chunk_wf [OF demo_wf(4)]] by blast
  show "length (get_chunks_range 4 0 5 (snd (put_chunk demo_chunk demo))) = 1" by code_simp
qed

end
