(* ===== verification/MetaProps2.thy ===== *)
theory MetaProps2
  imports MetaSystem
begin

text \<open>
  The properties of the dedup index, the journal table, the startup repair and the settings.
\<close>

section \<open>Dedup\<close>

text \<open>Content dedup never points a slot at a message that nothing references: when a reuse is
  reported, the slot then holds an unpacked chunk with the size recorded for the hash, in a
  message that some row already referenced, and the set of referenced messages has not grown;
  when it is not reported, no row has changed.\<close>

theorem reuse_only_live:
  assumes "reuse_chunk_by_hash ino idx h s = (Inr (reused, msg, sz), t)"
  shows "(reused \<longrightarrow> msg \<in> set (all_chunk_message_ids s) \<and>
            get_chunk ino idx t = Inr \<lparr>ch_ino = ino, ch_idx = idx, ch_msg = msg, ch_size = sz,
               ch_pack_offset = 0, ch_pack_size = 0\<rparr> \<and>
            set (all_chunk_message_ids t) \<subseteq> set (all_chunk_message_ids s)) \<and>
         (\<not> reused \<longrightarrow> st_chunks t = st_chunks s)"
proof -
  obtain u where r: "reuse_chunk_tx ino idx h s = Inr ((reused, msg, sz), u)"
    and t: "t = u\<lparr>st_write_ctr := st_write_ctr u + 1\<rparr>"
    using assms by (auto simp: reuse_chunk_by_hash_def with_tx_def split: sum.splits)
  show ?thesis
  proof (cases "row_at b_hash (st_blobs s) h")
    case None
    then show ?thesis using r t by (auto simp: reuse_chunk_tx_def)
  next
    case (Some b)
    show ?thesis
    proof (cases "find (\<lambda>c. c_msg c = b_msg b) (st_chunks s)")
      case None
      then show ?thesis using r t Some by (auto simp: reuse_chunk_tx_def)
    next
      case (Some x)
      then have live: "b_msg b \<in> set (all_chunk_message_ids s)"
        using find_msg_live [of "b_msg b" s] by auto
      let ?row = "\<lparr>c_ino = ino, c_idx = idx, c_msg = b_msg b, c_size = b_size b, c_pack = None\<rparr>"
      have eq: "reused" "msg = b_msg b" "sz = b_size b" "st_chunks u = upsert ckey ?row (st_chunks s)"
        using r Some \<open>row_at b_hash (st_blobs s) h = Some b\<close>
        by (auto simp: reuse_chunk_tx_def put_chunk_stmt_def split: if_splits)
      have "get_chunk ino idx t = Inr (chunk_of_row ?row)"
        by (simp add: get_chunk_def t eq(4) row_at_upsert)
      moreover have "set (all_chunk_message_ids t) \<subseteq> set (all_chunk_message_ids s)"
        using upsert_msgs [of "b_msg b" "st_chunks s" ?row] live by (simp add: all_chunk_message_ids_def t eq(4))
      ultimately show ?thesis using eq live by (simp add: chunk_of_row_def)
    qed
  qed
qed

definition dedup_demo :: store where
  "dedup_demo = snd (record_chunk_blob ''hash'' 55 9 (snd (put_chunk
     \<lparr>ch_ino = 4, ch_idx = 2, ch_msg = 55, ch_size = 9, ch_pack_offset = 0, ch_pack_size = 0\<rparr> demo)))"

theorem reuse_only_live_witness:
  "(55 :: int) \<in> set (all_chunk_message_ids dedup_demo)"
proof -
  have "fst (reuse_chunk_by_hash 3 0 ''hash'' dedup_demo) = Inr (True, 55, 9)" by code_simp
  then have "reuse_chunk_by_hash 3 0 ''hash'' dedup_demo =
     (Inr (True, 55, 9), snd (reuse_chunk_by_hash 3 0 ''hash'' dedup_demo))" by (metis prod.collapse)
  from reuse_only_live [OF this] show ?thesis by blast
qed

text \<open>Pruning the dedup index removes exactly the entries whose message no row references, and no
  lookup can tell: what a reuse reports is the same before and after.\<close>

theorem prune_keeps_live:
  assumes "keyed b_hash (st_blobs s)"
  shows "(\<forall>b. b \<in> set (st_blobs (snd (prune_stale_chunk_blobs s))) \<longleftrightarrow>
            b \<in> set (st_blobs s) \<and> b_msg b \<in> set (all_chunk_message_ids s)) \<and>
         fst (reuse_chunk_by_hash ino idx h (snd (prune_stale_chunk_blobs s))) = fst (reuse_chunk_by_hash ino idx h s)"
proof
  let ?t = "snd (prune_stale_chunk_blobs s)"
  have t: "?t = s\<lparr>st_blobs := del_where (\<lambda>b. b_msg b \<notin> set (map c_msg (st_chunks s))) (st_blobs s),
      st_write_ctr := st_write_ctr s + 1\<rparr>"
    by (simp add: prune_stale_chunk_blobs_def exec_with_retry_def Let_def)
  show "\<forall>b. b \<in> set (st_blobs ?t) \<longleftrightarrow> b \<in> set (st_blobs s) \<and> b_msg b \<in> set (all_chunk_message_ids s)"
    by (simp add: t all_chunk_message_ids_def)
  have row: "row_at b_hash (st_blobs ?t) h = (case row_at b_hash (st_blobs s) h of None \<Rightarrow> None
      | Some b \<Rightarrow> if b_msg b \<in> set (map c_msg (st_chunks s)) then Some b else None)"
  proof (cases "row_at b_hash (st_blobs s) h")
    case None
    then have "row_at b_hash (st_blobs ?t) h = None" by (auto simp: t row_at_None_iff)
    then show ?thesis using None by simp
  next
    case (Some b)
    then have b: "b \<in> set (st_blobs s)" "b_hash b = h" by (auto dest: row_at_SomeD)
    have "row_at b_hash (st_blobs ?t) h = (if b_msg b \<in> set (map c_msg (st_chunks s)) then Some b else None)"
    proof (cases "b_msg b \<in> set (map c_msg (st_chunks s))")
      case True
      have "keyed b_hash (st_blobs ?t)" using assms by (simp add: t keyed_del)
      then show ?thesis using True b by (simp add: row_at_eq_Some t)
    next
      case False
      have "\<forall>x\<in>set (st_blobs ?t). b_hash x \<noteq> h"
        using False b keyed_unique [OF assms] by (auto simp: t)
      then show ?thesis using False by (simp add: row_at_None_iff)
    qed
    then show ?thesis using Some by simp
  qed
  have live: "find (\<lambda>c. c_msg c = m) (st_chunks s) = None \<longleftrightarrow> m \<notin> set (map c_msg (st_chunks s))" for m
    using find_msg_live [of m s] by (simp add: all_chunk_message_ids_def)
  have ct: "st_chunks ?t = st_chunks s" "has_inode ?t i = has_inode s i" for i
    by (simp_all add: t has_inode_def)
  show "fst (reuse_chunk_by_hash ino idx h ?t) = fst (reuse_chunk_by_hash ino idx h s)"
    unfolding reuse_chunk_by_hash_def with_tx_def reuse_chunk_tx_def row put_chunk_stmt_def ct
    using live by (cases "row_at b_hash (st_blobs s) h") (auto simp del: set_map)
qed

theorem prune_keeps_live_witness:
  "fst (reuse_chunk_by_hash 3 0 ''hash'' (snd (prune_stale_chunk_blobs dedup_demo))) = Inr (True, 55, 9)"
proof -
  have "keyed b_hash (st_blobs dedup_demo)" by code_simp
  then have "fst (reuse_chunk_by_hash 3 0 ''hash'' (snd (prune_stale_chunk_blobs dedup_demo)))
     = fst (reuse_chunk_by_hash 3 0 ''hash'' dedup_demo)"
    using prune_keeps_live [of dedup_demo 3 0 "''hash''"] by blast
  also have "\<dots> = Inr (True, 55, 9)" by code_simp
  finally show ?thesis .
qed

section \<open>The journal table\<close>

lemma pending_upd: "filter (\<lambda>j. j_posted j = None) (upd_where (\<lambda>j. j_seq j \<in> Q) (\<lambda>j. j\<lparr>j_posted := Some v\<rparr>) J) =
    filter (\<lambda>j. j_seq j \<notin> Q) (filter (\<lambda>j. j_posted j = None) J)"
  by (induction J) (auto simp: upd_where_def)

text \<open>Marking a batch of journal rows as posted, done 800 at a time, has the effect of one update: the
  rows still pending afterwards are those that were pending and are not in the batch, in
  order, and nothing else in the store changes but the write counter.\<close>

theorem batch_mark_is_one_update:
  assumes "store_wf s"
  shows "\<exists>n. batch_mark_journal_posted seqs at s =
      (Inr (), s\<lparr>st_journal := upd_where (\<lambda>j. j_seq j \<in> set seqs) (\<lambda>j. j\<lparr>j_posted := Some at\<rparr>) (st_journal s),
                st_write_ctr := st_write_ctr s + n\<rparr>) \<and>
    pending_journal (snd (batch_mark_journal_posted seqs at s)) =
      filter (\<lambda>j. j_seq j \<notin> set seqs) (pending_journal s)"
proof -
  let ?J = "upd_where (\<lambda>j. j_seq j \<in> set seqs) (\<lambda>j. j\<lparr>j_posted := Some at\<rparr>) (st_journal s)"
  have "batch_mark_journal_posted seqs at s = batch_mark_loop seqs at s"
    by (simp add: batch_mark_journal_posted_def batch_mark_loop.simps)
  then obtain n where n: "batch_mark_journal_posted seqs at s =
      (Inr (), s\<lparr>st_journal := ?J, st_write_ctr := st_write_ctr s + n\<rparr>)"
    using batch_mark_loop_effect [of seqs at s] by auto
  have srt: "sorted_wrt (<) (map j_seq (st_journal s))" by (rule store_wfD [OF assms])
  have "sorted_wrt (<) (map j_seq ?J)" using srt by (simp add: map_upd_where)
  then have "pending_journal (snd (batch_mark_journal_posted seqs at s)) = filter (\<lambda>j. j_posted j = None) ?J"
    using pending_unsorted [of "snd (batch_mark_journal_posted seqs at s)"] n by simp
  also have "\<dots> = filter (\<lambda>j. j_seq j \<notin> set seqs) (filter (\<lambda>j. j_posted j = None) (st_journal s))"
    by (rule pending_upd)
  finally show ?thesis using n pending_unsorted [OF srt] by auto
qed

theorem batch_mark_is_one_update_witness:
  "map j_seq (pending_journal demo) = [1, 2, 3] \<and>
   pending_journal (snd (batch_mark_journal_posted [1, 3] 50 demo)) = filter (\<lambda>j. j_seq j \<notin> set [1, 3]) (pending_journal demo)"
proof
  show "map j_seq (pending_journal demo) = [1, 2, 3]" by code_simp
  show "pending_journal (snd (batch_mark_journal_posted [1, 3] 50 demo)) = filter (\<lambda>j. j_seq j \<notin> set [1, 3]) (pending_journal demo)"
    using batch_mark_is_one_update [OF demo_wf(4), of "[1, 3]" 50] by blast
qed

text \<open>Deleting the journal up to a sequence number removes only rows that were posted: what is pending
  stays pending, and the next sequence number is still larger than every one ever assigned.\<close>

theorem delete_journal_keeps_pending:
  assumes "store_wf s"
  shows "pending_journal (snd (delete_journal_up_to q s)) = pending_journal s \<and>
    last_journal_seq (snd (delete_journal_up_to q s)) = last_journal_seq s \<and>
    (\<forall>j\<in>set (st_journal s). j_seq j \<le> last_journal_seq s)"
proof (intro conjI)
  let ?t = "snd (delete_journal_up_to q s)"
  have J: "st_journal ?t = del_where (\<lambda>j. j_seq j \<le> q \<and> j_posted j \<noteq> None) (st_journal s)"
    "st_jnl_seq ?t = st_jnl_seq s"
    by (simp_all add: delete_journal_up_to_def exec_with_retry_def Let_def)
  show "pending_journal ?t = pending_journal s"
    unfolding pending_journal_def J del_where_def filter_filter
    by (intro arg_cong [where f = "sort_key j_seq"] filter_cong) auto
  show "last_journal_seq ?t = last_journal_seq s" by (simp add: last_journal_seq_def J)
  show "\<forall>j\<in>set (st_journal s). j_seq j \<le> last_journal_seq s"
    using store_wfD(8) [OF assms] by (simp add: last_journal_seq_def)
qed

theorem delete_journal_keeps_pending_witness:
  "pending_journal (snd (delete_journal_up_to 2 demo)) = pending_journal demo"
  using delete_journal_keeps_pending [OF demo_wf(4), of 2] by blast

section \<open>Repair\<close>

lemma repair_one_effect:
  assumes "row_at i_ino (st_inodes s) ino = Some i" "\<not> i_sparse i" "0 < i_chunk_size i"
    "\<not> staged_shield staged ino (expected_chunks (i_size i) (i_chunk_size i)) (file_rows ino s)"
  shows "repair_tx ino staged dry s =
    Inr (repair_rows ino (i_size i) (expected_chunks (i_size i) (i_chunk_size i)) (file_rows ino s) dry s)"
  using assms by (simp add: repair_tx_def Let_def)

text \<open>C34. Repair converges: repairing a non-sparse file whose rows are as the writer leaves them (indices
  from 0, no row over a chunk, a row with a successor full) leaves its rows without a gap and
  exactly as many as its size implies, so that repairing the result again, whatever is
  staged, reports nothing and changes nothing but the write counter.\<close>

theorem repair_converges:
  assumes i: "row_at i_ino (st_inodes s) ino = Some i" "\<not> i_sparse i" "0 \<le> i_size i"
    and sane: "rows_sane (i_chunk_size i) (file_rows ino s)"
    and nost: "\<not> staged_shield staged ino (expected_chunks (i_size i) (i_chunk_size i)) (file_rows ino s)"
    and t: "t = snd (repair_one_inode ino staged False s)"
  shows "(\<exists>i'. row_at i_ino (st_inodes t) ino = Some i' \<and> file_clean (i_size i') (i_chunk_size i) (file_rows ino t)) \<and>
    repair_one_inode ino staged' dry t = (Inr None, t\<lparr>st_write_ctr := st_write_ctr t + 1\<rparr>)"
proof -
  let ?cs = "i_chunk_size i"
  have cs: "0 < ?cs" using sane by (simp add: rows_sane_def)
  obtain rep u where u: "repair_rows ino (i_size i) (expected_chunks (i_size i) ?cs) (file_rows ino s) False s = (rep, u)"
    by (cases "repair_rows ino (i_size i) (expected_chunks (i_size i) ?cs) (file_rows ino s) False s")
  have "repair_tx ino staged False s = Inr (rep, u)" using repair_one_effect [OF i(1,2) cs nost] u by simp
  then have tu: "t = u\<lparr>st_write_ctr := st_write_ctr u + 1\<rparr>" using repair_one_run t by simp
  obtain i' where i': "row_at i_ino (st_inodes u) ino = Some i'" "i_sparse i' = i_sparse i"
    "i_chunk_size i' = ?cs" "file_clean (i_size i') ?cs (file_rows ino u)"
    using repair_rows_clean [OF sane i(3,1) refl u] by blast
  have "length (file_rows ino u) \<le> length (file_rows ino s)"
  proof -
    have "u = s \<or> (\<exists>z. u = set_size_row ino z s) \<or> (\<exists>g. u = delete_rows_from ino g s) \<or>
      (\<exists>g z. u = delete_rows_from ino g (set_size_row ino z s))" by (rule repair_rows_states [OF u])
    then show ?thesis by (auto simp: file_rows_delete_from)
  qed
  then have len: "int (length (file_rows ino u)) \<le> 2 ^ 31" using sane by (simp add: rows_sane_def)
  have "repair_tx ino staged' dry t = Inr (None, t)"
    using i' i(2) cs file_clean_no_repair [OF i'(4) len, of ino dry t]
    by (simp add: tu repair_tx_def Let_def)
  then show ?thesis using repair_one_run i' by (auto simp: tu)
qed

definition broken_file :: store where
  "broken_file = snd (put_chunk \<lparr>ch_ino = 4, ch_idx = 3, ch_msg = 53, ch_size = 65536, ch_pack_offset = 0, ch_pack_size = 0\<rparr>
     (snd (put_chunk \<lparr>ch_ino = 4, ch_idx = 1, ch_msg = 51, ch_size = 65536, ch_pack_offset = 0, ch_pack_size = 0\<rparr>
       (snd (put_chunk \<lparr>ch_ino = 4, ch_idx = 0, ch_msg = 50, ch_size = 65536, ch_pack_offset = 0, ch_pack_size = 0\<rparr>
         (snd (set_size 30 4 300000 demo)))))))"

lemma broken_file_row: "map_option (\<lambda>i. (i_sparse i, i_size i, i_chunk_size i)) (row_at i_ino (st_inodes broken_file) 4)
    = Some (False, 300000, 65536)"
  by code_simp

lemma broken_file_rows: "file_rows 4 broken_file = [(0, 65536), (1, 65536), (3, 65536)]"
  by code_simp

theorem repair_converges_witness:
  "repair_one_inode 4 None True (snd (repair_one_inode 4 None False broken_file)) =
     (Inr None, (snd (repair_one_inode 4 None False broken_file))\<lparr>st_write_ctr :=
        st_write_ctr (snd (repair_one_inode 4 None False broken_file)) + 1\<rparr>)"
proof -
  obtain i where i: "row_at i_ino (st_inodes broken_file) 4 = Some i" "\<not> i_sparse i" "i_size i = 300000" "i_chunk_size i = 65536"
    using broken_file_row by auto
  have sane: "rows_sane (i_chunk_size i) (file_rows 4 broken_file)"
    by (simp add: rows_sane_def i(4) broken_file_rows)
  have "0 \<le> i_size i" "\<not> staged_shield None 4 (expected_chunks (i_size i) (i_chunk_size i)) (file_rows 4 broken_file)"
    using i by (simp_all add: staged_shield_def)
  from repair_converges [OF i(1,2) this(1) sane this(2) refl] show ?thesis by blast
qed

text \<open>A repair never makes a file longer when none of its rows lies past its end: the reported new
  size is at most the old one.\<close>

theorem repair_never_grows:
  assumes "row_at i_ino (st_inodes s) ino = Some i" "\<not> i_sparse i" "0 \<le> i_size i"
    and "rows_sane (i_chunk_size i) (file_rows ino s)"
    and "\<forall>x\<in>set (file_rows ino s). fst x < expected_chunks (i_size i) (i_chunk_size i)"
    and "fst (repair_one_inode ino staged dry s) = Inr (Some rep)"
  shows "rr_new_size rep \<le> rr_old_size rep \<and> rr_old_size rep = i_size i"
proof -
  have cs: "0 < i_chunk_size i" using assms(4) by (simp add: rows_sane_def)
  let ?e = "expected_chunks (i_size i) (i_chunk_size i)"
  obtain r t where r: "repair_tx ino staged dry s = Inr (r, t)" using repair_tx_ok by blast
  then have rr: "r = Some rep" using assms(6) repair_one_run [OF r] by simp
  have ns: "\<not> staged_shield staged ino ?e (file_rows ino s)"
    using r rr assms(1,2) cs by (auto simp: repair_tx_def Let_def)
  have eq: "repair_rows ino (i_size i) ?e (file_rows ino s) dry s = (Some rep, t)"
    using repair_one_effect [OF assms(1,2) cs ns, of dry] r rr by simp
  have "rr_old_size rep = i_size i"
    using eq by (auto simp: repair_rows_def Let_def split: if_splits)
  then show ?thesis using repair_rows_shrinks [OF assms(4,3,5) eq] by simp
qed

theorem repair_never_grows_witness:
  "\<exists>rep. fst (repair_one_inode 4 None True broken_file) = Inr (Some rep) \<and>
     rr_new_size rep \<le> rr_old_size rep \<and> rr_new_size rep = 131072"
proof -
  obtain i where i: "row_at i_ino (st_inodes broken_file) 4 = Some i" "\<not> i_sparse i" "i_size i = 300000" "i_chunk_size i = 65536"
    using broken_file_row by auto
  let ?rep = "\<lparr>rr_ino = 4, rr_old_size = 300000, rr_new_size = 131072, rr_old_chunks = 3, rr_new_chunks = 2, rr_first_gap = 2\<rparr>"
  have rep: "fst (repair_one_inode 4 None True broken_file) = Inr (Some ?rep)" by code_simp
  have "rows_sane (i_chunk_size i) (file_rows 4 broken_file)"
    "\<forall>x\<in>set (file_rows 4 broken_file). fst x < expected_chunks (i_size i) (i_chunk_size i)" "0 \<le> i_size i"
    by (simp_all add: rows_sane_def i broken_file_rows expected_chunks_def)
  from repair_never_grows [OF i(1,2) this(3,1,2) rep] rep show ?thesis by auto
qed

text \<open>But when a gap is followed only by rows past the end of the file, the repair of the gap makes
  the file longer: a one-chunk file with rows 0, 1 and 3 is \<open>truncated\<close> to two chunks, and the
  stale bytes of row 1 become readable.\<close>

definition stray_file :: store where
  "stray_file = snd (set_size 40 4 65536 broken_file)"

theorem repair_can_grow:
  "meta_reachable stray_file \<and>
   (\<exists>rep. fst (repair_partial_files None stray_file) = Inr [rep] \<and> rr_ino rep = 4 \<and>
      rr_old_size rep = 65536 \<and> rr_new_size rep = 131072) \<and>
   map_sum id i_size (get_inode 4 (snd (repair_partial_files None stray_file))) = Inr 131072"
proof (intro conjI)
  show "meta_reachable stray_file" unfolding stray_file_def broken_file_def
    by (rule meta_reachable_step [OF meta_reachable_step [OF meta_reachable_step [OF meta_reachable_step
      [OF meta_reachable_step [OF demo_reachable(4) step_size] step_put_chunk] step_put_chunk] step_put_chunk] step_size])
  have "fst (repair_partial_files None stray_file) = Inr
     [\<lparr>rr_ino = 4, rr_old_size = 65536, rr_new_size = 131072, rr_old_chunks = 3, rr_new_chunks = 2, rr_first_gap = 2\<rparr>]"
    by code_simp
  then show "\<exists>rep. fst (repair_partial_files None stray_file) = Inr [rep] \<and> rr_ino rep = 4 \<and>
      rr_old_size rep = 65536 \<and> rr_new_size rep = 131072" by simp
  show "map_sum id i_size (get_inode 4 (snd (repair_partial_files None stray_file))) = Inr 131072" by code_simp
qed

text \<open>The dry-run scan reports exactly what a repair at that moment would report, and changes nothing
  but the write counter.\<close>

theorem scan_predicts_repair:
  assumes "store_wf s"
  shows "fst (scan_partial_files staged s) = fst (repair_partial_files staged s) \<and>
    (\<exists>n. snd (scan_partial_files staged s) = s\<lparr>st_write_ctr := n\<rparr>)"
  unfolding scan_partial_files_def repair_partial_files_def
  using repair_each_reports [OF distinct_candidates [OF assms], of s s staged] repair_each_dry_state by simp

theorem scan_predicts_repair_witness:
  "fst (scan_partial_files None demo) = fst (repair_partial_files None demo)"
  using scan_predicts_repair [OF demo_wf(4), of None] by blast

section \<open>Settings\<close>

text \<open>The chunk sizes \<open>telfs init\<close> accepts are exactly the powers of two from 64 KiB to 1 GiB: the
  upper bound of 1.5 GiB is itself never reached.\<close>

theorem chunk_size_valid_iff:
  "validate_chunk_size n = None \<longleftrightarrow> (\<exists>k. 16 \<le> k \<and> k \<le> 30 \<and> n = 2 ^ k)"
  by (rule validate_chunk_size_ok)

text \<open>What a setter stores its getter returns: chunk size, both rate limits (zero clears the key), the
  governance mode and the trash retention, which is kept in whole seconds with anything under
  a second read as the default.\<close>

theorem settings_round_trip:
  "(validate_chunk_size n = None \<longrightarrow> chunk_size_setting (snd (set_chunk_size n s)) = Inr n) \<and>
   (0 \<le> n \<and> n < 2 ^ 63 \<longrightarrow> tg_rate_limit (snd (set_tg_rate_limit n s)) = Inr n \<and>
      tg_download_rate_limit (snd (set_tg_download_rate_limit n s)) = Inr n) \<and>
   (m = ''adaptive'' \<or> m = ''manual'' \<longrightarrow> tg_rate_limit_mode (snd (set_tg_rate_limit_mode m s)) = Inr m) \<and>
   (0 \<le> d \<and> d < 2 ^ 63 \<longrightarrow> trash_ttl (snd (set_trash_ttl d s)) =
      Inr (if d < time_second then DefaultTrashTTLSecs * time_second else d - d mod time_second))"
proof (intro conjI impI)
  assume v: "validate_chunk_size n = None"
  then have "- (2 ^ 63) \<le> n" "n < 2 ^ 63"
    by (auto simp: validate_chunk_size_def MinChunkSize_def MaxChunkSize_def split: if_splits)
  from parse_fmt_int [OF this] show "chunk_size_setting (snd (set_chunk_size n s)) = Inr n"
    using v by (simp add: set_chunk_size_def chunk_size_setting_def get_kv_after_put)
next
  assume n: "0 \<le> n \<and> n < 2 ^ 63"
  then have "- (2 ^ 63) \<le> n" by simp
  with n have p: "parse_int (fmt_int n) = Some n" by (intro parse_fmt_int) auto
  show "tg_rate_limit (snd (set_tg_rate_limit n s)) = Inr n"
    using n p by (auto simp: tg_rate_limit_def rate_of_key_def set_tg_rate_limit_def get_kv_after_put get_kv_opt [of _ "snd (clear_key _ _)"] clear_key_opt)
  show "tg_download_rate_limit (snd (set_tg_download_rate_limit n s)) = Inr n"
    using n p by (auto simp: tg_download_rate_limit_def rate_of_key_def set_tg_download_rate_limit_def get_kv_after_put
        get_kv_opt [of _ "snd (clear_key _ _)"] clear_key_opt)
next
  assume "m = ''adaptive'' \<or> m = ''manual''"
  then show "tg_rate_limit_mode (snd (set_tg_rate_limit_mode m s)) = Inr m"
    by (auto simp: tg_rate_limit_mode_def set_tg_rate_limit_mode_def get_kv_after_put
        get_kv_opt [of _ "snd (clear_key _ _)"] clear_key_opt trim_space_def is_space_def)
next
  assume d: "0 \<le> d \<and> d < 2 ^ 63"
  let ?q = "d div time_second"
  have s: "0 < time_second" by (simp add: time_second_def)
  have q: "0 \<le> ?q" "?q * time_second = d - d mod time_second"
    using d s by (simp_all add: pos_imp_zdiv_nonneg_iff minus_mod_eq_div_mult)
  have "0 \<le> d mod time_second" using s by simp
  then have "?q * 1000000000 \<le> d" using q(2) by (simp add: time_second_def)
  then have q2: "?q = 0 \<longleftrightarrow> d < time_second" "?q \<le> d" using d s q(1) by (auto simp: zdiv_eq_0_iff)
  note q = q q2
  let ?secs = "if ?q = 0 then DefaultTrashTTLSecs else ?q"
  have r: "- (2 ^ 63) \<le> ?secs" "?secs < 2 ^ 63" "0 \<le> ?secs"
    using q d by (auto simp: DefaultTrashTTLSecs_def)
  have w: "to_int64 (?secs * time_second) = ?secs * time_second"
    using q d s by (intro to_int64_id) (auto simp: DefaultTrashTTLSecs_def time_second_def)
  show "trash_ttl (snd (set_trash_ttl d s)) =
      Inr (if d < time_second then DefaultTrashTTLSecs * time_second else d - d mod time_second)"
    using d s q r w parse_fmt_int [OF r(1,2)]
    by (auto simp: trash_ttl_def set_trash_ttl_def get_kv_after_put Let_def split: if_splits)
qed

theorem settings_round_trip_witness:
  "chunk_size_setting (snd (set_chunk_size 4194304 demo)) = Inr 4194304"
proof -
  have "validate_chunk_size 4194304 = None" by code_simp
  then show ?thesis using settings_round_trip [of 4194304 demo] by blast
qed

end
