(* ===== verification/Retry.thy ===== *)
theory Retry
  imports MetaSystem
begin

text \<open>
  The retry loops around the database and the uploader: \<open>WithTx\<close> and \<open>execWithRetry\<close> of
  \<open>internal/meta/store.go\<close> and \<open>uploadWithRetry\<close> of \<open>internal/chunk/upload_retry.go\<close>, and the
  chunk-size tiers of \<open>tier.go\<close>.  What each attempt meets (a busy database, a failed upload) and
  whether the context is cancelled are functions of the attempt number; a loop returns its
  result together with the list of the pauses it made, in milliseconds.
\<close>

section \<open>Database retries\<close>

datatype ('e, 'a) attempt = Succeeded 'a | Busy | Refused 'e

datatype ('e, 'a) loop_result = LoopOk 'a | LoopErr 'e | LoopBusy | LoopCancelled

definition next_backoff :: "int \<Rightarrow> int \<Rightarrow> int" where
  "next_backoff cap backoff = (let b = 2 * backoff in if b > cap then cap else b)"

function retry_loop :: "nat \<Rightarrow> int \<Rightarrow> (nat \<Rightarrow> ('e, 'a) attempt) \<Rightarrow> (nat \<Rightarrow> bool) \<Rightarrow> nat \<Rightarrow> int
    \<Rightarrow> ('e, 'a) loop_result \<times> int list" where
  "retry_loop max_attempts cap run cancelled attempt backoff =
     (case run attempt of
        Succeeded a \<Rightarrow> (LoopOk a, [])
      | Refused e \<Rightarrow> (LoopErr e, [])
      | Busy \<Rightarrow>
          if attempt \<ge> max_attempts then (LoopBusy, [])
          else if cancelled attempt then (LoopCancelled, [backoff])
          else (let (r, ws) = retry_loop max_attempts cap run cancelled (attempt + 1) (next_backoff cap backoff)
                in (r, backoff # ws)))"
  by pat_completeness auto
termination by (relation "measure (\<lambda>(m, _, _, _, a, _). m - a)") auto

declare retry_loop.simps [simp del]

text \<open>One attempt of a transaction on the store: BUSY leaves it as it was.\<close>

definition tx_attempt :: "(nat \<Rightarrow> bool) \<Rightarrow> (store \<Rightarrow> meta_err + ('a \<times> store)) \<Rightarrow> store \<Rightarrow> nat \<Rightarrow> (meta_err, 'a \<times> store) attempt" where
  "tx_attempt busy fn s n = (if busy n then Busy else (case fn s of Inl e \<Rightarrow> Refused e | Inr r \<Rightarrow> Succeeded r))"

definition counted :: "store \<Rightarrow> store" where
  "counted s = s\<lparr>st_write_ctr := st_write_ctr s + 1\<rparr>"

definition with_tx_retry :: "(nat \<Rightarrow> bool) \<Rightarrow> (nat \<Rightarrow> bool) \<Rightarrow> (store \<Rightarrow> meta_err + ('a \<times> store)) \<Rightarrow> store
    \<Rightarrow> (meta_err, 'a) loop_result \<times> store \<times> int list" where
  "with_tx_retry busy cancelled fn s =
     (case retry_loop 10 2000 (tx_attempt busy fn s) cancelled 1 10 of
        (LoopOk (a, t), ws) \<Rightarrow> (LoopOk a, counted t, ws)
      | (LoopErr e, ws) \<Rightarrow> (LoopErr e, s, ws)
      | (LoopBusy, ws) \<Rightarrow> (LoopBusy, s, ws)
      | (LoopCancelled, ws) \<Rightarrow> (LoopCancelled, s, ws))"

definition exec_with_retry_opt :: "bool \<Rightarrow> (nat \<Rightarrow> bool) \<Rightarrow> (nat \<Rightarrow> bool) \<Rightarrow> (store \<Rightarrow> meta_err + ('a \<times> store)) \<Rightarrow> store
    \<Rightarrow> (meta_err, 'a) loop_result \<times> store \<times> int list" where
  "exec_with_retry_opt count busy cancelled stmt s =
     (case retry_loop 5 500 (tx_attempt busy stmt s) cancelled 1 10 of
        (LoopOk (a, t), ws) \<Rightarrow> (LoopOk a, if count then counted t else t, ws)
      | (LoopErr e, ws) \<Rightarrow> (LoopErr e, s, ws)
      | (LoopBusy, ws) \<Rightarrow> (LoopBusy, s, ws)
      | (LoopCancelled, ws) \<Rightarrow> (LoopCancelled, s, ws))"

section \<open>Upload retries\<close>

datatype ('e, 'a) upload_result = UploadOk 'a | UploadFailed 'e | UploadCancelled

text \<open>
  \<open>up n\<close> is the outcome of attempt n; the context is checked before an attempt, after a failed
  one and during the pause.
\<close>

record ctx_view =
  cx_before :: "nat \<Rightarrow> bool"
  cx_after :: "nat \<Rightarrow> bool"
  cx_pause :: "nat \<Rightarrow> bool"

function upload_loop :: "(nat \<Rightarrow> 'e + 'a) \<Rightarrow> ctx_view \<Rightarrow> nat \<Rightarrow> int \<Rightarrow> ('e, 'a) upload_result \<times> int list" where
  "upload_loop up cx attempt backoff =
     (if cx_before cx attempt then (UploadCancelled, [])
      else (case up attempt of
        Inr a \<Rightarrow> (UploadOk a, [])
      | Inl e \<Rightarrow>
          if cx_after cx attempt then (UploadCancelled, [])
          else if attempt < 5 then
            (if cx_pause cx attempt then (UploadCancelled, [backoff])
             else (let (r, ws) = upload_loop up cx (attempt + 1) (next_backoff 8000 backoff)
                   in (r, backoff # ws)))
          else (UploadFailed e, [])))"
  by pat_completeness auto
termination by (relation "measure (\<lambda>(_, _, a, _). 5 - a)") auto

declare upload_loop.simps [simp del]

definition upload_with_retry :: "(nat \<Rightarrow> 'e + 'a) \<Rightarrow> ctx_view \<Rightarrow> ('e, 'a) upload_result \<times> int list" where
  "upload_with_retry up cx = upload_loop up cx 1 500"

section \<open>Tiers\<close>

definition TierSmallChunkSize :: int where "TierSmallChunkSize = 4194304"
definition TierMidChunkSize :: int where "TierMidChunkSize = 16777216"
definition TierBigChunkSize :: int where "TierBigChunkSize = 33554432"
definition TierVeryBigChunkSize :: int where "TierVeryBigChunkSize = 67108864"
definition TierMidThreshold :: int where "TierMidThreshold = 67108864"
definition TierBigThreshold :: int where "TierBigThreshold = 536870912"
definition TierVeryBigThreshold :: int where "TierVeryBigThreshold = 4294967296"

definition pick_tier_chunk_size :: "int \<Rightarrow> int" where
  "pick_tier_chunk_size dirty =
     (if dirty \<ge> TierVeryBigThreshold then TierVeryBigChunkSize
      else if dirty \<ge> TierBigThreshold then TierBigChunkSize
      else if dirty \<ge> TierMidThreshold then TierMidChunkSize
      else TierSmallChunkSize)"

lemmas tier_defs = TierSmallChunkSize_def TierMidChunkSize_def TierBigChunkSize_def TierVeryBigChunkSize_def
  TierMidThreshold_def TierBigThreshold_def TierVeryBigThreshold_def

section \<open>Lemmas\<close>

text \<open>The first attempt that is not busy decides; before it the loop has paused each time.\<close>

lemma retry_loop_busy_until:
  assumes "\<forall>n. a \<le> n \<and> n < k \<longrightarrow> run n = Busy \<and> \<not> cancelled n" "a \<le> k" "k \<le> m"
  shows "\<exists>ws b. length ws = k - a \<and>
    retry_loop m cap run cancelled a backoff =
      (fst (retry_loop m cap run cancelled k b), ws @ snd (retry_loop m cap run cancelled k b))"
  using assms
proof (induction "k - a" arbitrary: a backoff)
  case 0
  then have "a = k" by simp
  then show ?case by (intro exI [of _ "[]"] exI [of _ backoff]) simp
next
  case (Suc d)
  then have lt: "a < k" by simp
  let ?b = "next_backoff cap backoff"
  have "\<exists>ws b. length ws = k - (a + 1) \<and> retry_loop m cap run cancelled (a + 1) ?b =
      (fst (retry_loop m cap run cancelled k b), ws @ snd (retry_loop m cap run cancelled k b))"
    using Suc lt by (intro Suc.hyps(1)) auto
  then obtain ws b where IH: "length ws = k - (a + 1)" "retry_loop m cap run cancelled (a + 1) ?b =
      (fst (retry_loop m cap run cancelled k b), ws @ snd (retry_loop m cap run cancelled k b))" by blast
  have "run a = Busy" "\<not> cancelled a" "\<not> m \<le> a" using Suc.prems lt by auto
  then have "retry_loop m cap run cancelled a backoff =
      (fst (retry_loop m cap run cancelled k b), (backoff # ws) @ snd (retry_loop m cap run cancelled k b))"
    using IH(2) by (subst retry_loop.simps) (simp add: case_prod_unfold)
  then show ?case using IH(1) lt by (intro exI [of _ "backoff # ws"] exI [of _ b]) simp
qed

text \<open>Bounds on the pauses: never above the cap, never more than the attempts left.\<close>

lemma retry_loop_pauses:
  assumes "0 < backoff" "backoff \<le> cap"
  shows "length (snd (retry_loop m cap run cancelled a backoff)) \<le> m - a \<and>
    (\<forall>w\<in>set (snd (retry_loop m cap run cancelled a backoff)). backoff \<le> w \<and> w \<le> cap)"
  using assms
proof (induction m cap run cancelled a backoff rule: retry_loop.induct)
  case (1 m cap run cancelled a backoff)
  let ?b = "next_backoff cap backoff"
  show ?case
  proof (cases "run a = Busy \<and> \<not> m \<le> a \<and> \<not> cancelled a")
    case True
    have b: "backoff \<le> ?b" "0 < ?b" "?b \<le> cap" using 1(2,3) by (auto simp: next_backoff_def Let_def)
    have IH: "length (snd (retry_loop m cap run cancelled (a + 1) ?b)) \<le> m - (a + 1) \<and>
        (\<forall>w\<in>set (snd (retry_loop m cap run cancelled (a + 1) ?b)). ?b \<le> w \<and> w \<le> cap)"
      by (rule 1(1)) (use True b in auto)
    have "snd (retry_loop m cap run cancelled a backoff) = backoff # snd (retry_loop m cap run cancelled (a + 1) ?b)"
      using True by (subst retry_loop.simps) (simp add: Let_def case_prod_unfold)
    moreover have "\<forall>w\<in>set (snd (retry_loop m cap run cancelled (a + 1) ?b)). backoff \<le> w \<and> w \<le> cap"
      using IH b(1) order_trans by blast
    ultimately show ?thesis using IH True 1(3) by auto
  next
    case False
    then show ?thesis using 1(2,3) by (subst retry_loop.simps, subst (2) retry_loop.simps) (auto split: attempt.splits)
  qed
qed

lemma tx_attempt_not_busy: "\<not> busy n \<Longrightarrow> tx_attempt busy fn s n = (case fn s of Inl e \<Rightarrow> Refused e | Inr r \<Rightarrow> Succeeded r)"
  by (simp add: tx_attempt_def)

section \<open>Properties\<close>

text \<open>Retrying is invisible: if the database is busy for at most nine attempts and the context stays
  alive, the transaction ends as the fault-free \<open>with_tx\<close> does, with its body applied once and
  the write counter advanced once; if all ten attempts meet a busy database, the store is
  untouched and the caller gets the busy error.\<close>

definition loop_of :: "meta_err + 'a \<Rightarrow> (meta_err, 'a) loop_result" where
  "loop_of r = (case r of Inl e \<Rightarrow> LoopErr e | Inr a \<Rightarrow> LoopOk a)"

theorem with_tx_retry_refines:
  assumes "\<forall>n. \<not> cancelled n"
  shows "(k \<le> 10 \<and> 1 \<le> k \<and> (\<forall>n. 1 \<le> n \<and> n < k \<longrightarrow> busy n) \<and> \<not> busy k \<longrightarrow>
      (\<exists>ws. length ws = k - 1 \<and>
        with_tx_retry busy cancelled fn s = (loop_of (fst (with_tx fn s)), snd (with_tx fn s), ws))) \<and>
    ((\<forall>n. 1 \<le> n \<and> n \<le> 10 \<longrightarrow> busy n) \<longrightarrow>
      (\<exists>ws. length ws = 9 \<and> with_tx_retry busy cancelled fn s = (LoopBusy, s, ws)))"
proof (intro conjI impI)
  assume k: "k \<le> 10 \<and> 1 \<le> k \<and> (\<forall>n. 1 \<le> n \<and> n < k \<longrightarrow> busy n) \<and> \<not> busy k"
  let ?run = "tx_attempt busy fn s"
  have "\<exists>ws b. length ws = k - 1 \<and> retry_loop 10 2000 ?run cancelled 1 10 =
      (fst (retry_loop 10 2000 ?run cancelled k b), ws @ snd (retry_loop 10 2000 ?run cancelled k b))"
    by (rule retry_loop_busy_until) (use k assms in \<open>auto simp: tx_attempt_def\<close>)
  then obtain ws b where ws: "length ws = k - 1" "retry_loop 10 2000 ?run cancelled 1 10 =
      (fst (retry_loop 10 2000 ?run cancelled k b), ws @ snd (retry_loop 10 2000 ?run cancelled k b))" by blast
  have last: "retry_loop 10 2000 ?run cancelled k b =
      (case fn s of Inl e \<Rightarrow> (LoopErr e, []) | Inr r \<Rightarrow> (LoopOk r, []))"
    using k by (subst retry_loop.simps) (simp add: tx_attempt_not_busy split: sum.splits)
  show "\<exists>ws. length ws = k - 1 \<and>
        with_tx_retry busy cancelled fn s = (loop_of (fst (with_tx fn s)), snd (with_tx fn s), ws)"
    using ws last by (intro exI [of _ ws])
      (auto simp: with_tx_retry_def with_tx_def loop_of_def counted_def split: sum.splits)
next
  assume b: "\<forall>n. 1 \<le> n \<and> n \<le> 10 \<longrightarrow> busy n"
  let ?run = "tx_attempt busy fn s"
  have "\<exists>ws c. length ws = 10 - 1 \<and> retry_loop 10 2000 ?run cancelled 1 10 =
      (fst (retry_loop 10 2000 ?run cancelled 10 c), ws @ snd (retry_loop 10 2000 ?run cancelled 10 c))"
    by (rule retry_loop_busy_until) (use b assms in \<open>auto simp: tx_attempt_def\<close>)
  then obtain ws c where ws: "length ws = 9" "retry_loop 10 2000 ?run cancelled 1 10 =
      (fst (retry_loop 10 2000 ?run cancelled 10 c), ws @ snd (retry_loop 10 2000 ?run cancelled 10 c))" by auto
  have "retry_loop 10 2000 ?run cancelled 10 c = (LoopBusy, [])"
    using b by (subst retry_loop.simps) (simp add: tx_attempt_def)
  then show "\<exists>ws. length ws = 9 \<and> with_tx_retry busy cancelled fn s = (LoopBusy, s, ws)"
    using ws by (intro exI [of _ ws]) (simp add: with_tx_retry_def)
qed

theorem with_tx_retry_refines_witness:
  "\<exists>ws. length ws = 3 \<and> with_tx_retry (\<lambda>n. n < 4) (\<lambda>_. False) (unlink_tx 1 ''g'') demo =
     (loop_of (fst (unlink 1 ''g'' demo)), snd (unlink 1 ''g'' demo), ws)"
  using with_tx_retry_refines [of "\<lambda>_. False" 4 "\<lambda>n. n < 4" "unlink_tx 1 ''g''" demo]
  by (auto simp: unlink_def)

text \<open>The pauses of the retry loops are bounded: at most nine of at most two seconds for a transaction,
  at most four of at most half a second for a statement, whatever the database does.\<close>

theorem retry_pauses_bounded:
  "length (snd (snd (with_tx_retry busy cancelled fn s))) \<le> 9 \<and>
   (\<forall>w\<in>set (snd (snd (with_tx_retry busy cancelled fn s))). 10 \<le> w \<and> w \<le> 2000) \<and>
   length (snd (snd (exec_with_retry_opt count busy cancelled fn s))) \<le> 4 \<and>
   (\<forall>w\<in>set (snd (snd (exec_with_retry_opt count busy cancelled fn s))). 10 \<le> w \<and> w \<le> 500)"
proof -
  have w: "snd (snd (with_tx_retry busy cancelled fn s)) = snd (retry_loop 10 2000 (tx_attempt busy fn s) cancelled 1 10)"
    by (auto simp: with_tx_retry_def split: prod.splits loop_result.splits)
  have e: "snd (snd (exec_with_retry_opt count busy cancelled fn s)) = snd (retry_loop 5 500 (tx_attempt busy fn s) cancelled 1 10)"
    by (auto simp: exec_with_retry_opt_def split: prod.splits loop_result.splits)
  show ?thesis
    unfolding w e
    using retry_loop_pauses [of 10 2000 10 "tx_attempt busy fn s" cancelled 1]
      retry_loop_pauses [of 10 500 5 "tx_attempt busy fn s" cancelled 1] by simp
qed

theorem retry_pauses_bounded_witness:
  "snd (snd (with_tx_retry (\<lambda>_. True) (\<lambda>_. False) (unlink_tx 1 ''g'') demo)) =
     [10, 20, 40, 80, 160, 320, 640, 1280, 2000] \<and>
   length (snd (snd (with_tx_retry (\<lambda>_. True) (\<lambda>_. False) (unlink_tx 1 ''g'') demo))) \<le> 9"
proof
  show "length (snd (snd (with_tx_retry (\<lambda>_. True) (\<lambda>_. False) (unlink_tx 1 ''g'') demo))) \<le> 9"
    using retry_pauses_bounded [of "\<lambda>_. True" "\<lambda>_. False" "unlink_tx 1 ''g''" demo] by blast
  show "snd (snd (with_tx_retry (\<lambda>_. True) (\<lambda>_. False) (unlink_tx 1 ''g'') demo)) =
     [10, 20, 40, 80, 160, 320, 640, 1280, 2000]"
    by (simp add: with_tx_retry_def retry_loop.simps tx_attempt_def next_backoff_def)
qed

text \<open>An upload under a live context makes at most five attempts: the first attempt that succeeds
  gives the message id after the pauses 0.5, 1, 2 and 4 seconds of the failures before it, and
  five failures surface the fifth error after 7.5 seconds of waiting.\<close>

lemma upload_loop_step:
  assumes "\<not> cx_before cx n" "\<not> cx_after cx n" "\<not> cx_pause cx n"
  shows "upload_loop up cx n b =
    (case up n of Inr a \<Rightarrow> (UploadOk a, [])
     | Inl e \<Rightarrow> if n < 5 then (fst (upload_loop up cx (n + 1) (next_backoff 8000 b)),
                             b # snd (upload_loop up cx (n + 1) (next_backoff 8000 b)))
               else (UploadFailed e, []))"
  using assms by (subst upload_loop.simps) (auto simp: case_prod_unfold Let_def split: sum.splits)

lemma upload_loop_fails:
  assumes "\<forall>n. \<not> cx_before cx n \<and> \<not> cx_after cx n \<and> \<not> cx_pause cx n" "up n = Inl e" "n < 5"
  shows "upload_loop up cx n b = (fst (upload_loop up cx (Suc n) (next_backoff 8000 b)),
                             b # snd (upload_loop up cx (Suc n) (next_backoff 8000 b)))"
  using assms by (subst upload_loop_step) auto

theorem upload_with_retry_outcome:
  assumes "\<forall>n. \<not> cx_before cx n \<and> \<not> cx_after cx n \<and> \<not> cx_pause cx n"
  shows "(k \<in> {1..5} \<and> (\<forall>n. 1 \<le> n \<and> n < k \<longrightarrow> (\<exists>e. up n = Inl e)) \<and> up k = Inr a \<longrightarrow>
      upload_with_retry up cx = (UploadOk a, take (k - 1) [500, 1000, 2000, 4000])) \<and>
    ((\<forall>n. 1 \<le> n \<and> n \<le> 4 \<longrightarrow> (\<exists>e. up n = Inl e)) \<and> up 5 = Inl d \<longrightarrow>
      upload_with_retry up cx = (UploadFailed d, [500, 1000, 2000, 4000]))"
proof (intro conjI impI)
  have hit: "up n = Inr a \<Longrightarrow> upload_loop up cx n b = (UploadOk a, [])" for n b
    using assms by (subst upload_loop_step) auto
  have last: "up 5 = Inl d \<Longrightarrow> upload_loop up cx 5 b = (UploadFailed d, [])" for b
    using assms by (subst upload_loop_step) auto
  have miss: "(\<exists>e. up n = Inl e) \<Longrightarrow> n < 5 \<Longrightarrow> upload_loop up cx n b =
      (fst (upload_loop up cx (Suc n) (next_backoff 8000 b)), b # snd (upload_loop up cx (Suc n) (next_backoff 8000 b)))" for n b
    by (elim exE) (rule upload_loop_fails [OF assms])
  have step1: "\<exists>e. up 1 = Inl e \<Longrightarrow> upload_loop up cx 1 500 = (fst (upload_loop up cx 2 1000), 500 # snd (upload_loop up cx 2 1000))"
    using miss [of 1 500] by (simp add: next_backoff_def numeral_2_eq_2)
  have step2: "\<exists>e. up 2 = Inl e \<Longrightarrow> upload_loop up cx 2 1000 = (fst (upload_loop up cx 3 2000), 1000 # snd (upload_loop up cx 3 2000))"
    using miss [of 2 1000] by (simp add: next_backoff_def)
  have step3: "\<exists>e. up 3 = Inl e \<Longrightarrow> upload_loop up cx 3 2000 = (fst (upload_loop up cx 4 4000), 2000 # snd (upload_loop up cx 4 4000))"
    using miss [of 3 2000] by (simp add: next_backoff_def)
  have step4: "\<exists>e. up 4 = Inl e \<Longrightarrow> upload_loop up cx 4 4000 = (fst (upload_loop up cx 5 8000), 4000 # snd (upload_loop up cx 5 8000))"
    using miss [of 4 4000] by (simp add: next_backoff_def)
  {
    assume k: "k \<in> {1..5} \<and> (\<forall>n. 1 \<le> n \<and> n < k \<longrightarrow> (\<exists>e. up n = Inl e)) \<and> up k = Inr a"
    then have "k = 1 \<or> k = 2 \<or> k = 3 \<or> k = 4 \<or> k = 5" by auto
    then show "upload_with_retry up cx = (UploadOk a, take (k - 1) [500, 1000, 2000, 4000])"
      using k hit [of k] by (elim disjE) (simp_all add: upload_with_retry_def step1 step2 step3 step4 del: One_nat_def)
  }
  assume "(\<forall>n. 1 \<le> n \<and> n \<le> 4 \<longrightarrow> (\<exists>e. up n = Inl e)) \<and> up 5 = Inl d"
  then show "upload_with_retry up cx = (UploadFailed d, [500, 1000, 2000, 4000])"
    by (simp add: upload_with_retry_def step1 step2 step3 step4 last del: One_nat_def)
qed

theorem upload_with_retry_outcome_witness:
  "upload_with_retry (\<lambda>n. if n < 3 then Inl ''FLOOD'' else Inr (7 :: int))
     \<lparr>cx_before = \<lambda>_. False, cx_after = \<lambda>_. False, cx_pause = \<lambda>_. False\<rparr> = (UploadOk 7, [500, 1000])"
  using upload_with_retry_outcome [of "\<lparr>cx_before = \<lambda>_. False, cx_after = \<lambda>_. False, cx_pause = \<lambda>_. False\<rparr>"
      3 "\<lambda>n. if n < 3 then Inl ''FLOOD'' else Inr 7" 7]
  by (simp add: eval_nat_numeral)

text \<open>The tier of a file never shrinks as more of it accumulates, is one of the four chunk sizes
  \<open>PromoteTier\<close> accepts, and keeps a file of up to 4 GiB within 128 chunks.\<close>

theorem tier_monotone_and_bounded:
  "(d \<le> d' \<longrightarrow> pick_tier_chunk_size d \<le> pick_tier_chunk_size d') \<and>
   pick_tier_chunk_size d \<in> {4194304, 16777216, 33554432, 67108864} \<and>
   (d \<le> 4294967296 \<longrightarrow> (d + pick_tier_chunk_size d - 1) div pick_tier_chunk_size d \<le> 128)"
  unfolding pick_tier_chunk_size_def tier_defs by auto

theorem tier_monotone_and_bounded_witness:
  "pick_tier_chunk_size 1000 \<le> pick_tier_chunk_size 536870912 \<and> pick_tier_chunk_size 536870912 = 33554432"
  using tier_monotone_and_bounded [of 1000 536870912] by (simp add: pick_tier_chunk_size_def tier_defs)

end
