(* ===== verification/Lru.thy ===== *)
theory Lru
  imports Prelude "HOL-Library.Word"
begin

text \<open>
  The least-recently-used lists of \<open>internal/chunk\<close>: \<open>MemCache\<close> of \<open>memcache.go\<close> and the index of
  the disk cache of \<open>cache.go\<close>.  A Go list with its map of elements is an association list from
  the most to the least recently used entry; the total is a field kept by the operations, as
  in the code.  \<open>lru_index\<close> is the contract both tiers meet.
\<close>

type_synonym bytes = "8 word list"
datatype ckey = Key (key_ino: int) (key_idx: int)

section \<open>Lists in order of use\<close>

definition without :: "'k \<Rightarrow> ('k \<times> 'v) list \<Rightarrow> ('k \<times> 'v) list" where
  "without k es = filter (\<lambda>e. fst e \<noteq> k) es"

definition move_to_front :: "'k \<Rightarrow> ('k \<times> 'v) list \<Rightarrow> ('k \<times> 'v) list" where
  "move_to_front k es = (case map_of es k of None \<Rightarrow> es | Some v \<Rightarrow> (k, v) # without k es)"

text \<open>The eviction loop, on the list from its back: what is left, the new total, the evicted keys.\<close>

fun evict_rev :: "('v \<Rightarrow> int) \<Rightarrow> int \<Rightarrow> ('k \<times> 'v) list \<Rightarrow> int \<Rightarrow> ('k \<times> 'v) list \<times> int \<times> 'k list" where
  "evict_rev w cap [] tot = ([], tot, [])"
| "evict_rev w cap (e # es) tot =
     (if tot > cap then
        (case evict_rev w cap es (tot - w (snd e)) of (left, t, ks) \<Rightarrow> (left, t, fst e # ks))
      else (e # es, tot, []))"

definition evict_back :: "('v \<Rightarrow> int) \<Rightarrow> int \<Rightarrow> ('k \<times> 'v) list \<Rightarrow> int \<Rightarrow> ('k \<times> 'v) list \<times> int \<times> 'k list" where
  "evict_back w cap es tot = (case evict_rev w cap (rev es) tot of (left, t, ks) \<Rightarrow> (rev left, t, ks))"

definition weight :: "('v \<Rightarrow> int) \<Rightarrow> ('k \<times> 'v) list \<Rightarrow> int" where
  "weight w es = sum_list (map (w \<circ> snd) es)"

section \<open>MemCache\<close>

definition DefaultMemCacheCapBytes :: int where "DefaultMemCacheCapBytes = 134217728"

record memcache =
  mc_cap :: int
  mc_order :: "(ckey \<times> bytes) list"
  mc_total :: int

definition new_mem_cache :: "int \<Rightarrow> memcache" where
  "new_mem_cache cap = \<lparr>mc_cap = (if cap \<le> 0 then DefaultMemCacheCapBytes else cap), mc_order = [], mc_total = 0\<rparr>"

definition blen :: "'b list \<Rightarrow> int" where
  "blen d = int (length d)"

text \<open>A nil \<open>*MemCache\<close> is None: its methods do nothing.\<close>

definition mc_get :: "ckey \<Rightarrow> memcache option \<Rightarrow> bytes option \<times> memcache option" where
  "mc_get k om = (case om of None \<Rightarrow> (None, None)
     | Some m \<Rightarrow> (case map_of (mc_order m) k of
         None \<Rightarrow> (None, om)
       | Some d \<Rightarrow> (Some d, Some (m\<lparr>mc_order := move_to_front k (mc_order m)\<rparr>))))"

definition mc_store :: "ckey \<Rightarrow> bytes \<Rightarrow> memcache \<Rightarrow> memcache" where
  "mc_store k d m =
     (case map_of (mc_order m) k of
        Some old \<Rightarrow> m\<lparr>mc_order := (k, d) # without k (mc_order m), mc_total := mc_total m - blen old + blen d\<rparr>
      | None \<Rightarrow> m\<lparr>mc_order := (k, d) # mc_order m, mc_total := mc_total m + blen d\<rparr>)"

definition mc_evict :: "memcache \<Rightarrow> memcache" where
  "mc_evict m = (case evict_back blen (mc_cap m) (mc_order m) (mc_total m) of
     (es, t, _) \<Rightarrow> m\<lparr>mc_order := es, mc_total := t\<rparr>)"

definition mc_put :: "ckey \<Rightarrow> bytes \<Rightarrow> memcache option \<Rightarrow> memcache option" where
  "mc_put k d om = (case om of None \<Rightarrow> None
     | Some m \<Rightarrow> if d = [] then om else Some (mc_evict (mc_store k d m)))"

definition mc_invalidate :: "ckey \<Rightarrow> memcache option \<Rightarrow> bool \<times> memcache option" where
  "mc_invalidate k om = (case om of None \<Rightarrow> (False, None)
     | Some m \<Rightarrow> (case map_of (mc_order m) k of
         None \<Rightarrow> (False, om)
       | Some d \<Rightarrow> (True, Some (m\<lparr>mc_order := without k (mc_order m), mc_total := mc_total m - blen d\<rparr>))))"

section \<open>The index of the disk cache\<close>

record disk_index =
  di_cap :: int
  di_order :: "(ckey \<times> int) list"
  di_total :: int

definition di_touch :: "ckey \<Rightarrow> disk_index \<Rightarrow> disk_index" where
  "di_touch k i = i\<lparr>di_order := move_to_front k (di_order i)\<rparr>"

definition di_drop :: "ckey \<Rightarrow> disk_index \<Rightarrow> disk_index" where
  "di_drop k i = (case map_of (di_order i) k of None \<Rightarrow> i
     | Some n \<Rightarrow> i\<lparr>di_order := without k (di_order i), di_total := di_total i - n\<rparr>)"

definition di_evict :: "disk_index \<Rightarrow> disk_index \<times> ckey list" where
  "di_evict i = (case evict_back id (di_cap i) (di_order i) (di_total i) of
     (es, t, ks) \<Rightarrow> (i\<lparr>di_order := es, di_total := t\<rparr>, ks))"

text \<open>The insertion both \<open>fetchAndStore\<close> and \<open>PutDecoded\<close> end with; the flag says the key was new.\<close>

definition di_insert :: "ckey \<Rightarrow> int \<Rightarrow> disk_index \<Rightarrow> bool \<times> disk_index \<times> ckey list" where
  "di_insert k n i =
     (case map_of (di_order i) k of
        Some _ \<Rightarrow> (False, di_touch k i, [])
      | None \<Rightarrow>
          (case di_evict (i\<lparr>di_order := (k, n) # di_order i, di_total := di_total i + n\<rparr>) of
             (i', ks) \<Rightarrow> (True, i', ks)))"

section \<open>Lemmas on the lists\<close>

lemma map_of_without [simp]: "map_of (without k es) j = (if j = k then None else map_of es j)"
  by (induction es) (auto simp: without_def)

lemma keys_without [simp]: "fst ` set (without k es) = fst ` set es - {k}"
  by (auto simp: without_def)

lemma distinct_without: "distinct (map fst es) \<Longrightarrow> distinct (map fst (without k es))"
  by (induction es) (auto simp: without_def)

lemma map_of_move [simp]: "map_of (move_to_front k es) j = map_of es j"
  by (auto simp: move_to_front_def split: option.splits)

lemma distinct_move: "distinct (map fst es) \<Longrightarrow> distinct (map fst (move_to_front k es))"
  by (auto simp: move_to_front_def distinct_without split: option.splits)

lemma weight_simps [simp]: "weight w [] = 0" "weight w (e # es) = w (snd e) + weight w es"
  "weight w (es @ fs) = weight w es + weight w fs" "weight w (rev es) = weight w es"
  by (simp_all add: weight_def rev_map [symmetric])

lemma without_id: "k \<notin> fst ` set es \<Longrightarrow> without k es = es"
  by (force simp: without_def filter_id_conv)

lemma weight_without:
  "distinct (map fst es) \<Longrightarrow> map_of es k = Some v \<Longrightarrow> weight w (without k es) = weight w es - w v"
proof (induction es)
  case (Cons e es)
  show ?case
  proof (cases "fst e = k")
    case True
    then show ?thesis using Cons.prems without_id [of k es] by (auto simp: without_def)
  next
    case False
    then show ?thesis using Cons by (auto simp: without_def)
  qed
qed simp

lemma weight_move: "distinct (map fst es) \<Longrightarrow> weight w (move_to_front k es) = weight w es"
  by (auto simp: move_to_front_def weight_without split: option.splits)

lemma weight_nonneg: "\<forall>e\<in>set es. 0 \<le> w (snd e) \<Longrightarrow> 0 \<le> weight w es"
  by (induction es) auto

text \<open>What the eviction loop leaves: a suffix of the reversed list that fits, and no shorter than needed.\<close>

lemma evict_rev_spec:
  assumes "evict_rev w cap es tot = (left, t, ks)" "tot = weight w es" "0 \<le> cap"
  shows "\<exists>gone. es = gone @ left \<and> ks = map fst gone \<and> t = weight w left \<and> t \<le> cap \<and>
    (gone \<noteq> [] \<longrightarrow> cap < weight w (last gone # left))"
  using assms
proof (induction w cap es tot arbitrary: left t ks rule: evict_rev.induct)
  case (2 w cap e es tot)
  show ?case
  proof (cases "tot > cap")
    case True
    obtain left' t' ks' where r: "evict_rev w cap es (tot - w (snd e)) = (left', t', ks')"
      by (cases "evict_rev w cap es (tot - w (snd e))")
    then obtain gone where g: "es = gone @ left'" "ks' = map fst gone" "t' = weight w left'" "t' \<le> cap"
        "gone \<noteq> [] \<longrightarrow> cap < weight w (last gone # left')"
      using 2(1) [OF True r] 2(3,4) by auto
    have "left = left'" "t = t'" "ks = fst e # ks'" using 2(2) True r by auto
    then show ?thesis using g True 2(3) by (intro exI [of _ "e # gone"]) auto
  qed (use 2 in auto)
qed simp

lemma evict_back_spec:
  assumes "evict_back w cap es tot = (left, t, ks)" "tot = weight w es" "0 \<le> cap"
  shows "\<exists>gone. es = left @ gone \<and> set ks = fst ` set gone \<and> t = weight w left \<and> t \<le> cap \<and>
    (gone \<noteq> [] \<longrightarrow> cap < weight w (left @ [hd gone]))"
proof -
  obtain left' where r: "evict_rev w cap (rev es) tot = (left', t, ks)" "left = rev left'"
    using assms(1) by (auto simp: evict_back_def split: prod.splits)
  obtain gone where g: "rev es = gone @ left'" "ks = map fst gone" "t = weight w left'" "t \<le> cap"
      "gone \<noteq> [] \<longrightarrow> cap < weight w (last gone # left')"
    using evict_rev_spec [OF r(1)] assms(2,3) by auto
  have "es = left @ rev gone" using arg_cong [OF g(1), of rev] r(2) by simp
  then show ?thesis using g r(2) by (intro exI [of _ "rev gone"]) (auto simp: hd_rev)
qed

lemma evict_none: "tot \<le> cap \<Longrightarrow> evict_back w cap es tot = (es, tot, [])"
  by (cases "rev es") (auto simp: evict_back_def)

section \<open>The contract of a bounded index\<close>

datatype ('k, 'v) lru_op = Touch 'k | Add 'k 'v | Del 'k

locale lru_index =
  fixes inv :: "'s \<Rightarrow> bool" and cap foot :: "'s \<Rightarrow> int" and keys :: "'s \<Rightarrow> 'k set" and okv :: "'v \<Rightarrow> bool"
    and touch :: "'k \<Rightarrow> 's \<Rightarrow> 's" and add :: "'k \<Rightarrow> 'v \<Rightarrow> 's \<Rightarrow> 's" and del :: "'k \<Rightarrow> 's \<Rightarrow> 's"
  assumes bounded: "inv s \<Longrightarrow> foot s \<le> cap s"
    and touch_law: "inv s \<Longrightarrow> inv (touch k s) \<and> keys (touch k s) = keys s \<and> cap (touch k s) = cap s"
    and add_law: "inv s \<Longrightarrow> okv v \<Longrightarrow> inv (add k v s) \<and> keys (add k v s) \<subseteq> insert k (keys s) \<and> cap (add k v s) = cap s"
    and del_law: "inv s \<Longrightarrow> inv (del k s) \<and> keys (del k s) = keys s - {k} \<and> cap (del k s) = cap s"
begin

definition apply_op :: "('k, 'v) lru_op \<Rightarrow> 's \<Rightarrow> 's" where
  "apply_op x s = (case x of Touch k \<Rightarrow> touch k s | Add k v \<Rightarrow> add k v s | Del k \<Rightarrow> del k s)"

definition ok_ops :: "('k, 'v) lru_op list \<Rightarrow> bool" where
  "ok_ops xs = (\<forall>k v. Add k v \<in> set xs \<longrightarrow> okv v)"

lemma run_inv: "inv s \<Longrightarrow> ok_ops xs \<Longrightarrow> inv (fold apply_op xs s) \<and> cap (fold apply_op xs s) = cap s"
proof (induction xs arbitrary: s)
  case (Cons x xs)
  have "inv (apply_op x s) \<and> cap (apply_op x s) = cap s"
    using Cons.prems touch_law add_law del_law by (cases x) (auto simp: apply_op_def ok_ops_def)
  then show ?case using Cons.IH [of "apply_op x s"] Cons.prems by (auto simp: ok_ops_def)
qed simp

lemma run_bounded: "inv s \<Longrightarrow> ok_ops xs \<Longrightarrow> foot (fold apply_op xs s) \<le> cap s"
  using run_inv [of s xs] bounded [of "fold apply_op xs s"] by simp

lemma run_absent:
  "inv s \<Longrightarrow> ok_ops xs \<Longrightarrow> k \<notin> keys s \<Longrightarrow> (\<forall>v. Add k v \<notin> set xs) \<Longrightarrow> k \<notin> keys (fold apply_op xs s)"
proof (induction xs arbitrary: s)
  case (Cons x xs)
  have "inv (apply_op x s) \<and> k \<notin> keys (apply_op x s)"
  proof (cases x)
    case (Add j v)
    then have "okv v" "j \<noteq> k" using Cons.prems by (auto simp: ok_ops_def)
    then show ?thesis using add_law [OF Cons.prems(1), of v j] Cons.prems Add by (auto simp: apply_op_def)
  qed (use Cons.prems touch_law del_law in \<open>auto simp: apply_op_def\<close>)
  then show ?case using Cons.IH [of "apply_op x s"] Cons.prems by (auto simp: ok_ops_def)
qed simp

lemma run_deleted:
  assumes "inv s" "ok_ops xs" "\<forall>v. Add k v \<notin> set xs"
  shows "k \<notin> keys (fold apply_op xs (del k s))"
  using run_absent [of "del k s" xs k] del_law [OF assms(1), of k] assms by auto

end

section \<open>Both tiers meet it\<close>

definition mem_ok :: "memcache \<Rightarrow> bool" where
  "mem_ok m \<longleftrightarrow> distinct (map fst (mc_order m)) \<and> mc_total m = weight blen (mc_order m) \<and>
     mc_total m \<le> mc_cap m \<and> 0 < mc_cap m \<and> (\<forall>e\<in>set (mc_order m). snd e \<noteq> [])"

definition disk_ok :: "disk_index \<Rightarrow> bool" where
  "disk_ok i \<longleftrightarrow> distinct (map fst (di_order i)) \<and> di_total i = weight id (di_order i) \<and>
     di_total i \<le> di_cap i \<and> 0 < di_cap i \<and> (\<forall>e\<in>set (di_order i). 0 \<le> snd e)"

definition mem_touch :: "ckey \<Rightarrow> memcache \<Rightarrow> memcache" where
  "mem_touch k m = the (snd (mc_get k (Some m)))"
definition mem_add :: "ckey \<Rightarrow> bytes \<Rightarrow> memcache \<Rightarrow> memcache" where
  "mem_add k d m = the (mc_put k d (Some m))"
definition mem_del :: "ckey \<Rightarrow> memcache \<Rightarrow> memcache" where
  "mem_del k m = the (snd (mc_invalidate k (Some m)))"
definition disk_add :: "ckey \<Rightarrow> int \<Rightarrow> disk_index \<Rightarrow> disk_index" where
  "disk_add k n i = fst (snd (di_insert k n i))"

lemmas mem_op_defs = mem_touch_def mem_add_def mem_del_def

lemma set_move: "fst ` set (move_to_front k es) = fst ` set es"
  by (auto simp: move_to_front_def split: option.splits) (metis map_of_eq_None_iff option.distinct(1) image_iff fst_conv weak_map_of_SomeI)+

lemma snd_move: "e \<in> set (move_to_front k es) \<Longrightarrow> e \<in> set es"
  by (auto simp: move_to_front_def without_def split: option.splits dest: map_of_SomeD)

lemma mem_touch_ok: "mem_ok m \<Longrightarrow> mem_ok (mem_touch k m)"
  by (auto simp: mem_ok_def mem_touch_def mc_get_def distinct_move weight_move dest: snd_move split: option.splits)

lemma mem_del_ok: "mem_ok m \<Longrightarrow> mem_ok (mem_del k m)"
  by (auto simp: mem_ok_def mem_del_def mc_invalidate_def distinct_without weight_without blen_def split: option.splits)
    (auto simp: without_def)

lemma mc_store_order: "mc_order (mc_store k d m) = (k, d) # without k (mc_order m)"
  by (auto simp: mc_store_def map_of_eq_None_iff without_id split: option.splits)

lemma mc_store_total:
  "distinct (map fst (mc_order m)) \<Longrightarrow> mc_total m = weight blen (mc_order m) \<Longrightarrow>
   mc_total (mc_store k d m) = weight blen (mc_order (mc_store k d m))"
  by (auto simp: mc_store_order weight_without without_id map_of_eq_None_iff mc_store_def split: option.splits)

lemma mc_store_cap [simp]: "mc_cap (mc_store k d m) = mc_cap m"
  by (simp add: mc_store_def split: option.splits)

text \<open>The effect of a put: the new entry in front, and a shortest suffix evicted so that the rest fits.\<close>

lemma mem_add_spec:
  assumes "mem_ok m" "d \<noteq> []"
  shows "\<exists>gone. (k, d) # without k (mc_order m) = mc_order (mem_add k d m) @ gone \<and>
    mc_cap (mem_add k d m) = mc_cap m \<and>
    mc_total (mem_add k d m) = weight blen (mc_order (mem_add k d m)) \<and> mc_total (mem_add k d m) \<le> mc_cap m \<and>
    (gone \<noteq> [] \<longrightarrow> mc_cap m < weight blen (mc_order (mem_add k d m) @ [hd gone]))"
proof -
  let ?m = "mc_store k d m"
  obtain es t ks where e: "evict_back blen (mc_cap m) (mc_order ?m) (mc_total ?m) = (es, t, ks)"
    by (cases "evict_back blen (mc_cap m) (mc_order ?m) (mc_total ?m)")
  have "mc_total ?m = weight blen (mc_order ?m)" "0 \<le> mc_cap m" using mc_store_total assms(1) by (auto simp: mem_ok_def)
  from evict_back_spec [OF e this] show ?thesis
    using e assms(2) by (auto simp: mem_add_def mc_put_def mc_evict_def mc_store_order)
qed

lemma mem_add_ok:
  assumes "mem_ok m"
  shows "mem_ok (mem_add k d m)"
proof (cases "d = []")
  case False
  obtain gone where g: "(k, d) # without k (mc_order m) = mc_order (mem_add k d m) @ gone"
    "mc_cap (mem_add k d m) = mc_cap m"
    "mc_total (mem_add k d m) = weight blen (mc_order (mem_add k d m))" "mc_total (mem_add k d m) \<le> mc_cap m"
    using mem_add_spec [OF assms False, of k] by auto
  have "distinct (map fst ((k, d) # without k (mc_order m)))" "\<forall>e\<in>set ((k, d) # without k (mc_order m)). snd e \<noteq> []"
    using assms False by (auto simp: mem_ok_def distinct_without) (auto simp: without_def)
  then have "distinct (map fst (mc_order (mem_add k d m)))" "\<forall>e\<in>set (mc_order (mem_add k d m)). snd e \<noteq> []"
    unfolding g(1) by auto
  then show ?thesis using g assms by (auto simp: mem_ok_def)
qed (use assms in \<open>simp add: mem_add_def mc_put_def\<close>)

lemma mem_add_keys: "mem_ok m \<Longrightarrow> fst ` set (mc_order (mem_add k d m)) \<subseteq> insert k (fst ` set (mc_order m))"
proof (cases "d = []")
  case False
  assume "mem_ok m"
  from mem_add_spec [OF this False, of k] obtain gone
    where "(k, d) # without k (mc_order m) = mc_order (mem_add k d m) @ gone" by auto
  from arg_cong [OF this, of "\<lambda>es. fst ` set es"] show ?thesis by auto
qed (auto simp: mem_add_def mc_put_def)

lemma mem_add_cap: "mc_cap (mem_add k d m) = mc_cap m"
  by (auto simp: mem_add_def mc_put_def mc_evict_def split: prod.splits)

interpretation mem_lru: lru_index mem_ok mc_cap mc_total "\<lambda>m. fst ` set (mc_order m)" "\<lambda>_. True" mem_touch mem_add mem_del
proof (unfold_locales, goal_cases)
  case (1 s)
  then show ?case by (simp add: mem_ok_def)
next
  case (2 s k)
  then show ?case using mem_touch_ok by (auto simp: mem_touch_def mc_get_def set_move split: option.splits)
next
  case (3 s v k)
  then show ?case using mem_add_ok mem_add_keys mem_add_cap by blast
next
  case (4 s k)
  then show ?case using mem_del_ok
    by (auto simp: mem_del_def mc_invalidate_def map_of_eq_None_iff split: option.splits)
qed

lemma di_touch_ok: "disk_ok i \<Longrightarrow> disk_ok (di_touch k i)"
  by (auto simp: disk_ok_def di_touch_def distinct_move weight_move dest: snd_move)

lemma di_drop_ok: "disk_ok i \<Longrightarrow> disk_ok (di_drop k i)"
  by (auto simp: disk_ok_def di_drop_def distinct_without weight_without split: option.splits)
    (force simp: without_def dest: map_of_SomeD)+

lemma di_insert_spec:
  assumes "disk_ok i" "0 \<le> n" "di_insert k n i = (new, j, ks)"
  shows "disk_ok j \<and> di_cap j = di_cap i \<and> fst ` set (di_order j) \<union> set ks = insert k (fst ` set (di_order i)) \<and>
    fst ` set (di_order j) \<inter> set ks = {} \<and> (new \<longleftrightarrow> k \<notin> fst ` set (di_order i)) \<and>
    (\<forall>k'. map_of (di_order j) k' = (if k' \<in> set ks then None else if new \<and> k' = k then Some n else map_of (di_order i) k'))"
proof (cases "map_of (di_order i) k")
  case (Some v)
  then have "insert k (fst ` set (di_order i)) = fst ` set (di_order i)"
    by (metis insert_absorb map_of_eq_None_iff option.distinct(1))
  moreover have "j = di_touch k i" "ks = []" "\<not> new" using assms(3) Some by (simp_all add: di_insert_def)
  moreover have "k \<in> fst ` set (di_order i)" using Some by (metis map_of_eq_None_iff option.distinct(1))
  ultimately show ?thesis using di_touch_ok [OF assms(1), of k] by (simp add: di_touch_def set_move)
next
  case None
  let ?es = "(k, n) # di_order i"
  obtain es t where e: "evict_back id (di_cap i) ?es (di_total i + n) = (es, t, ks)" "j = i\<lparr>di_order := es, di_total := t\<rparr>" "new"
    using assms(3) None by (auto simp: di_insert_def di_evict_def split: prod.splits)
  have d: "distinct (map fst ?es)" "\<forall>e\<in>set ?es. 0 \<le> snd e" using assms(1,2) None by (auto simp: disk_ok_def map_of_eq_None_iff)
  have "di_total i + n = weight id ?es" "0 \<le> di_cap i" using assms(1) by (auto simp: disk_ok_def)
  from evict_back_spec [OF e(1) this] obtain gone where g: "?es = es @ gone" "set ks = fst ` set gone" "t = weight id es" "t \<le> di_cap i"
    by auto
  have dd: "distinct (map fst es)" "\<forall>e\<in>set es. 0 \<le> snd e" "fst ` set es \<inter> fst ` set gone = {}"
    using d unfolding g(1) by auto
  have keys: "fst ` set es \<union> fst ` set gone = insert k (fst ` set (di_order i))"
    using arg_cong [OF g(1), of "\<lambda>es. fst ` set es"] by auto
  have "map_of es k' = (if k' \<in> fst ` set gone then None else map_of ?es k')" for k'
  proof (cases "k' \<in> fst ` set gone")
    case True
    then have "k' \<notin> fst ` set es" using dd(3) by blast
    then show ?thesis using True by (simp add: map_of_eq_None_iff)
  next
    case False
    then have "map_of gone k' = None" by (simp add: map_of_eq_None_iff)
    then have "map_of (es @ gone) k' = map_of es k'" by (simp add: map_add_def split: option.splits)
    then show ?thesis using False g(1) by simp
  qed
  moreover have "k \<notin> fst ` set (di_order i)" using None by (simp add: map_of_eq_None_iff)
  ultimately show ?thesis using e(2,3) dd g(2,3,4) keys assms(1) by (simp add: disk_ok_def)
qed

interpretation disk_lru: lru_index disk_ok di_cap di_total "\<lambda>i. fst ` set (di_order i)" "\<lambda>n. 0 \<le> n" di_touch disk_add di_drop
proof (unfold_locales, goal_cases)
  case (1 s)
  then show ?case by (simp add: disk_ok_def)
next
  case (2 s k)
  then show ?case using di_touch_ok by (auto simp: di_touch_def set_move)
next
  case (3 s v k)
  obtain new j ks where r: "di_insert k v s = (new, j, ks)" by (cases "di_insert k v s")
  then show ?case using di_insert_spec [OF 3 r] by (auto simp: disk_add_def)
next
  case (4 s k)
  then show ?case using di_drop_ok by (auto simp: di_drop_def map_of_eq_None_iff split: option.splits)
qed

section \<open>Properties\<close>

definition mem_do :: "(ckey, bytes) lru_op \<Rightarrow> memcache option \<Rightarrow> memcache option" where
  "mem_do x om = (case x of Touch k \<Rightarrow> snd (mc_get k om) | Add k d \<Rightarrow> mc_put k d om | Del k \<Rightarrow> snd (mc_invalidate k om))"

lemma mem_do_some: "mem_do x (Some m) = Some (mem_lru.apply_op x m)"
  by (cases x) (auto simp: mem_do_def mem_lru.apply_op_def mem_op_defs mc_get_def mc_put_def mc_invalidate_def split: option.splits)

lemma mem_run_some: "fold mem_do ops (Some m) = Some (fold mem_lru.apply_op ops m)"
  by (induction ops arbitrary: m) (simp_all add: mem_do_some)

lemma new_mem_ok: "mem_ok (new_mem_cache cap)"
  by (auto simp: mem_ok_def new_mem_cache_def DefaultMemCacheCapBytes_def)

lemma mem_ops_ok: "mem_lru.ok_ops ops" by (simp add: mem_lru.ok_ops_def)

lemma mc_get_absent: "k \<notin> fst ` set (mc_order m) \<Longrightarrow> fst (mc_get k (Some m)) = None"
  by (auto simp: mc_get_def simp flip: map_of_eq_None_iff)

text \<open>The memory tier stays within its capacity: after any sequence of gets, puts and invalidations on
  a new \<open>MemCache\<close> its byte count is the sum of its entries and at most the cap, no key occurs twice,
  and a key that is invalidated and not put again afterwards is not served.\<close>

theorem mem_cache_bounded:
  assumes "fold mem_do ops (Some (new_mem_cache cap)) = Some m"
  shows "mc_total m = weight blen (mc_order m) \<and> mc_total m \<le> (if cap \<le> 0 then 134217728 else cap) \<and>
    distinct (map fst (mc_order m)) \<and>
    ((\<forall>d. Add k d \<notin> set later) \<longrightarrow> fst (mc_get k (fold mem_do (Del k # later) (Some m))) = None)"
proof -
  have m: "m = fold mem_lru.apply_op ops (new_mem_cache cap)" using assms by (simp add: mem_run_some)
  then have ok: "mem_ok m" and cap: "mc_cap m = (if cap \<le> 0 then 134217728 else cap)"
    using mem_lru.run_inv [OF new_mem_ok mem_ops_ok] by (auto simp: new_mem_cache_def DefaultMemCacheCapBytes_def)
  have "fst (mc_get k (fold mem_do (Del k # later) (Some m))) = None" if "\<forall>d. Add k d \<notin> set later"
    using mc_get_absent [OF mem_lru.run_deleted [OF ok mem_ops_ok that]]
    by (simp add: mem_do_some mem_run_some mem_lru.apply_op_def)
  then show ?thesis using ok cap by (auto simp: mem_ok_def)
qed

theorem mem_cache_bounded_witness:
  "mc_total (the (fold mem_do [Add (Key 1 0) [1, 2], Add (Key 1 1) [3], Add (Key 2 0) [4]] (Some (new_mem_cache 3)))) \<le> 3"
proof -
  obtain m where m: "fold mem_do [Add (Key 1 0) [1, 2], Add (Key 1 1) [3], Add (Key 2 0) [4]] (Some (new_mem_cache 3)) = Some m"
    using mem_run_some by blast
  have "mc_total m \<le> (if (3 :: int) \<le> 0 then 134217728 else 3)" using mem_cache_bounded [OF m] by blast
  then show ?thesis unfolding m by simp
qed

text \<open>A put keeps what fits, in order of use: the new entry comes first, the others keep their order, only
  a least-recently-used tail is evicted, and no more of it than the capacity demands.\<close>

theorem mem_put_evicts_lru:
  assumes "fold mem_do ops (Some (new_mem_cache cap)) = Some m" "d \<noteq> []" "mc_put k d (Some m) = Some m'"
  shows "\<exists>gone. (k, d) # without k (mc_order m) = mc_order m' @ gone \<and>
    weight blen (mc_order m') \<le> mc_cap m \<and>
    (gone \<noteq> [] \<longrightarrow> mc_cap m < weight blen (mc_order m' @ [hd gone])) \<and>
    (blen d \<le> mc_cap m \<longrightarrow> fst (mc_get k (Some m')) = Some d)"
proof -
  have "m = fold mem_lru.apply_op ops (new_mem_cache cap)" using assms(1) by (simp add: mem_run_some)
  then have ok: "mem_ok m" using mem_lru.run_inv [OF new_mem_ok mem_ops_ok] by auto
  have m': "m' = mem_add k d m" using assms(3) by (simp add: mem_add_def)
  obtain gone where g: "(k, d) # without k (mc_order m) = mc_order m' @ gone"
    "mc_total m' = weight blen (mc_order m')" "mc_total m' \<le> mc_cap m"
    "gone \<noteq> [] \<longrightarrow> mc_cap m < weight blen (mc_order m' @ [hd gone])"
    using mem_add_spec [OF ok assms(2), of k] unfolding m' by blast
  have "fst (mc_get k (Some m')) = Some d" if "blen d \<le> mc_cap m"
  proof (cases "mc_order m'")
    case Nil
    then have "hd gone = (k, d)" "gone \<noteq> []" using g(1) by (metis append_Nil list.sel(1), auto)
    then show ?thesis using g(4) that Nil by simp
  next
    case (Cons e es)
    then show ?thesis using g(1) by (auto simp: mc_get_def)
  qed
  then show ?thesis using g by (intro exI [of _ gone]) simp
qed

theorem mem_put_evicts_lru_witness:
  "fst (mc_get (Key 1 1) (mc_put (Key 1 1) [3, 4] (Some (the (fold mem_do [Add (Key 1 0) [1, 2]] (Some (new_mem_cache 3))))))) = Some [3, 4]"
proof -
  let ?m = "the (fold mem_do [Add (Key 1 0) [1, 2]] (Some (new_mem_cache 3)))"
  have "fold mem_do [Add (Key 1 0) [1, 2]] (Some (new_mem_cache 3)) = Some ?m" by (simp only: mem_run_some option.sel)
  moreover have "mc_put (Key 1 1) [3, 4] (Some ?m) = Some (mem_add (Key 1 1) [3, 4] ?m)" by (simp add: mem_add_def mc_put_def)
  moreover have "blen [3 :: 8 word, 4] \<le> mc_cap ?m" by code_simp
  ultimately show ?thesis using mem_put_evicts_lru [of "[Add (Key 1 0) [1, 2]]" 3 ?m "[3, 4]" "(Key 1 1)"] by auto
qed

end
