(* ===== verification/Persist.thy ===== *)
theory Persist
  imports Strconv Lru "HOL-Library.AList" "HOL-Library.Sublist"
begin

text \<open>
  The staging directory of \<open>internal/chunk/persist.go\<close>: wires waiting for their upload, named
  \<open>ino-idx-size.bin\<close>, and the in-process \<open>PendingIndex\<close>.  A directory is the association list of
  its regular files.  \<open>scan_int\<close> is the verb \<open>%d\<close> of \<open>fmt.Sscanf\<close>, which the disk cache's
  \<open>adoptExisting\<close> uses too.
\<close>

section \<open>Sscanf\<close>

definition scan_space :: "char \<Rightarrow> bool" where
  "scan_space c = (is_space c \<and> c \<noteq> CHR 0x0A)"

text \<open>\<open>%d\<close>: spaces, an optional sign, at least one digit, a value within the width; and the rest.\<close>

definition scan_int :: "int \<Rightarrow> string \<Rightarrow> (int \<times> string) option" where
  "scan_int bound s0 =
     (let s = dropWhile scan_space s0;
          sign = (case s of c # _ \<Rightarrow> c = CHR ''-'' \<or> c = CHR ''+'' | [] \<Rightarrow> False);
          neg = (case s of c # _ \<Rightarrow> c = CHR ''-'' | [] \<Rightarrow> False);
          body = (if sign then tl s else s);
          ds = takeWhile is_digit body;
          v = (if neg then - digits_val ds else digits_val ds)
      in if ds = [] \<or> v < - bound \<or> bound \<le> v then None else Some (v, dropWhile is_digit body))"

definition scan_lit :: "string \<Rightarrow> string \<Rightarrow> string option" where
  "scan_lit lit s = (if prefix lit s then Some (drop (length lit) s) else None)"

definition ends_with :: "string \<Rightarrow> string \<Rightarrow> bool" where
  "ends_with s suf = (length s \<ge> length suf \<and> drop (length s - length suf) s = suf)"

section \<open>PendingIndex\<close>

text \<open>A nil index is None.\<close>

type_synonym pindex = "(ckey \<times> string) list option"

definition new_pending_index :: pindex where "new_pending_index = Some []"

definition record_persist :: "int \<Rightarrow> int \<Rightarrow> string \<Rightarrow> pindex \<Rightarrow> pindex" where
  "record_persist ino idx path p = (case p of None \<Rightarrow> None
     | Some m \<Rightarrow> if path = [] then p else Some (AList.update (Key ino idx) path m))"

definition unrecord_persist :: "int \<Rightarrow> int \<Rightarrow> pindex \<Rightarrow> pindex" where
  "unrecord_persist ino idx p = (case p of None \<Rightarrow> None | Some m \<Rightarrow> Some (AList.delete (Key ino idx) m))"

definition pindex_lookup :: "int \<Rightarrow> int \<Rightarrow> pindex \<Rightarrow> string option" where
  "pindex_lookup ino idx p = (case p of None \<Rightarrow> None | Some m \<Rightarrow> map_of m (Key ino idx))"

definition drop_by_ino :: "int \<Rightarrow> pindex \<Rightarrow> pindex" where
  "drop_by_ino ino p = (case p of None \<Rightarrow> None | Some m \<Rightarrow> Some (filter (\<lambda>(k, _). key_ino k \<noteq> ino) m))"

definition pindex_len :: "pindex \<Rightarrow> nat" where
  "pindex_len p = (case p of None \<Rightarrow> 0 | Some m \<Rightarrow> length m)"

section \<open>The staging directory\<close>

type_synonym dirmap = "(string \<times> bytes) list"

record pending_entry =
  pe_ino :: int
  pe_idx :: int
  pe_size :: int
  pe_path :: string

definition pending_name :: "int \<Rightarrow> int \<Rightarrow> int \<Rightarrow> string" where
  "pending_name ino idx plain_size = fmt_int ino @ ''-'' @ fmt_int idx @ ''-'' @ fmt_int plain_size @ ''.bin''"

definition tmp_name :: "int \<Rightarrow> string \<Rightarrow> string" where
  "tmp_name pid name = name @ ''.tmp-'' @ fmt_int pid"

text \<open>
  \<open>PersistPending\<close> writes a temporary file and renames it.  The crash points are separate steps:
  after the first the temporary file holds any prefix of the wire.
\<close>

definition write_tmp :: "int \<Rightarrow> string \<Rightarrow> bytes \<Rightarrow> dirmap \<Rightarrow> dirmap" where
  "write_tmp pid name wire dir = AList.update (tmp_name pid name) wire dir"

definition rename_file :: "string \<Rightarrow> string \<Rightarrow> dirmap \<Rightarrow> dirmap option" where
  "rename_file old new dir = (case map_of dir old of None \<Rightarrow> None
     | Some b \<Rightarrow> Some (AList.update new b (AList.delete old dir)))"

text \<open>\<open>wok\<close> and \<open>rok\<close> say whether the write and the rename succeed.\<close>

definition persist_pending :: "bool \<Rightarrow> bool \<Rightarrow> int \<Rightarrow> int \<Rightarrow> int \<Rightarrow> int \<Rightarrow> bytes \<Rightarrow> dirmap \<Rightarrow> string option \<times> dirmap" where
  "persist_pending wok rok pid ino idx plain_size wire dir =
     (let name = pending_name ino idx plain_size in
      if \<not> wok then (None, dir)
      else
        let d1 = write_tmp pid name wire dir in
        if rok then
          (case rename_file (tmp_name pid name) name d1 of
             Some d2 \<Rightarrow> (Some name, d2)
           | None \<Rightarrow> (None, AList.delete (tmp_name pid name) d1))
        else (None, AList.delete (tmp_name pid name) d1))"

definition delete_pending :: "string \<Rightarrow> dirmap \<Rightarrow> dirmap" where
  "delete_pending path dir = AList.delete path dir"

definition scan_pending_name :: "string \<Rightarrow> pending_entry option" where
  "scan_pending_name name =
     (if \<not> ends_with name ''.bin'' then None
      else
        let stem = take (length name - 4) name in
        case scan_int (2 ^ 63) stem of None \<Rightarrow> None | Some (ino, r1) \<Rightarrow>
        case scan_lit ''-'' r1 of None \<Rightarrow> None | Some r2 \<Rightarrow>
        case scan_int (2 ^ 63) r2 of None \<Rightarrow> None | Some (idx, r3) \<Rightarrow>
        case scan_lit ''-'' r3 of None \<Rightarrow> None | Some r4 \<Rightarrow>
        case scan_int (2 ^ 63) r4 of None \<Rightarrow> None | Some (sz, _) \<Rightarrow>
          Some \<lparr>pe_ino = ino, pe_idx = to_int32 idx, pe_size = to_int32 sz, pe_path = name\<rparr>)"

definition scan_pending :: "dirmap \<Rightarrow> pending_entry list" where
  "scan_pending dir = List.map_filter (\<lambda>(name, _). scan_pending_name name) dir"

text \<open>\<open>indexOfTmpSuffix\<close>: the first position of the marker of an interrupted write.\<close>

fun index_of_tmp :: "string \<Rightarrow> int \<Rightarrow> int option" where
  "index_of_tmp [] i = None"
| "index_of_tmp (c # cs) i = (if prefix ''.tmp-'' (c # cs) then Some i else index_of_tmp cs (i + 1))"

definition cleanup_pending_tmp :: "dirmap \<Rightarrow> dirmap" where
  "cleanup_pending_tmp dir = filter (\<lambda>(name, _). index_of_tmp name 0 = None) dir"

section \<open>Lemmas\<close>

lemma sign_facts: "is_digit c \<Longrightarrow> c \<noteq> CHR ''-'' \<and> c \<noteq> CHR ''+'' \<and> \<not> scan_space c"
  by (auto simp: scan_space_def digit_not_space)

lemma scan_int_fmt:
  assumes "- b \<le> i" "i < b" "rest = [] \<or> \<not> is_digit (hd rest)"
  shows "scan_int b (fmt_int i @ rest) = Some (i, rest)"
proof -
  have stop: "takeWhile is_digit (fmt_nat n @ rest) = fmt_nat n \<and> dropWhile is_digit (fmt_nat n @ rest) = rest" if "0 \<le> n" for n
  proof -
    have "takeWhile is_digit rest = []" "dropWhile is_digit rest = rest" using assms(3) by (cases rest; simp)+
    then show ?thesis using fmt_nat_digits [OF that] by (simp add: list_all_iff takeWhile_append dropWhile_append)
  qed
  have sp: "\<not> scan_space CHR ''-''" by (simp add: scan_space_def is_space_def)
  show ?thesis
  proof (cases "i < 0")
    case True
    then show ?thesis using assms stop [of "- i"] sp by (simp add: scan_int_def fmt_int_def Let_def)
  next
    case False
    obtain c cs where c: "fmt_nat i = c # cs" by (meson fmt_nat_nonempty list.exhaust)
    have "is_digit c" using fmt_nat_hd_digit [OF _ c] False by simp
    then have "c \<noteq> CHR ''-''" "c \<noteq> CHR ''+''" "\<not> scan_space c" using sign_facts by blast+
    moreover have "digits_val (c # cs) = i" using digits_val_fmt_nat [of i] c False by simp
    ultimately show ?thesis using False assms stop [of i] c by (simp add: scan_int_def fmt_int_def Let_def)
  qed
qed

lemma scan_lit_append [simp]: "scan_lit lit (lit @ s) = Some s"
  by (simp add: scan_lit_def)

lemma ends_with_append [simp]: "ends_with (s @ suf) suf"
  by (simp add: ends_with_def)

lemma ends_with_iff: "ends_with s suf \<longleftrightarrow> (\<exists>t. s = t @ suf)"
  by (auto simp: ends_with_def) (metis append_take_drop_id)

lemma scan_pending_name_fmt:
  assumes "- (2 ^ 63) \<le> ino" "ino < 2 ^ 63" "- (2 ^ 31) \<le> idx" "idx < 2 ^ 31" "- (2 ^ 31) \<le> sz" "sz < 2 ^ 31"
  shows "scan_pending_name (pending_name ino idx sz) =
    Some \<lparr>pe_ino = ino, pe_idx = idx, pe_size = sz, pe_path = pending_name ino idx sz\<rparr>"
proof -
  have stem: "take (length (pending_name ino idx sz) - 4) (pending_name ino idx sz) =
      fmt_int ino @ ''-'' @ fmt_int idx @ ''-'' @ fmt_int sz"
    by (simp add: pending_name_def)
  have "ends_with (pending_name ino idx sz) ''.bin''"
    using ends_with_append [of "fmt_int ino @ ''-'' @ fmt_int idx @ ''-'' @ fmt_int sz" "''.bin''"] by (simp add: pending_name_def)
  moreover have "scan_int (2 ^ 63) (fmt_int ino @ ''-'' @ fmt_int idx @ ''-'' @ fmt_int sz) = Some (ino, ''-'' @ fmt_int idx @ ''-'' @ fmt_int sz)"
    by (rule scan_int_fmt) (use assms in auto)
  moreover have "scan_int (2 ^ 63) (fmt_int idx @ ''-'' @ fmt_int sz) = Some (idx, ''-'' @ fmt_int sz)"
    by (rule scan_int_fmt) (use assms in auto)
  moreover have "scan_int (2 ^ 63) (fmt_int sz @ []) = Some (sz, [])"
    by (rule scan_int_fmt) (use assms in auto)
  ultimately show ?thesis
    using to_int32_id assms(3-6) by (simp add: scan_pending_name_def stem scan_lit_append [of "''-''", simplified])
qed

lemma pending_name_inj:
  assumes "- (2 ^ 63) \<le> ino" "ino < 2 ^ 63" "- (2 ^ 31) \<le> idx" "idx < 2 ^ 31" "- (2 ^ 31) \<le> sz" "sz < 2 ^ 31"
    "- (2 ^ 63) \<le> ino'" "ino' < 2 ^ 63" "- (2 ^ 31) \<le> idx'" "idx' < 2 ^ 31" "- (2 ^ 31) \<le> sz'" "sz' < 2 ^ 31"
    "pending_name ino idx sz = pending_name ino' idx' sz'"
  shows "ino = ino' \<and> idx = idx' \<and> sz = sz'"
proof -
  have "scan_pending_name (pending_name ino idx sz) = scan_pending_name (pending_name ino' idx' sz')"
    by (rule arg_cong [OF assms(13)])
  from this [unfolded scan_pending_name_fmt [OF assms(1-6)] scan_pending_name_fmt [OF assms(7-12)]]
  show ?thesis by simp
qed

lemma fmt_int_last: "\<exists>s c. fmt_int i = s @ [c] \<and> is_digit c"
proof -
  have "\<exists>s c. fmt_nat n = s @ [c] \<and> is_digit c" if n: "0 \<le> n" for n
  proof -
    obtain s c where "fmt_nat n = s @ [c]" by (metis fmt_nat_nonempty rev_exhaust)
    then show ?thesis using fmt_nat_digits [OF n] by auto
  qed
  from this [of i] this [of "- i"] show ?thesis by (cases "i < 0") (auto simp: fmt_int_def)
qed

lemma tmp_not_bin: "\<not> ends_with (tmp_name pid name) ''.bin''"
proof
  assume "ends_with (tmp_name pid name) ''.bin''"
  then obtain t where t: "tmp_name pid name = t @ ''.bin''" by (auto simp: ends_with_iff)
  obtain s c where c: "fmt_int pid = s @ [c]" "is_digit c" using fmt_int_last by blast
  have "last (tmp_name pid name) = c" using c(1) by (simp add: tmp_name_def)
  moreover have "last (tmp_name pid name) = CHR ''n''" unfolding t by simp
  moreover have "\<not> is_digit CHR ''n''" by (simp add: is_digit_def)
  ultimately show False using c(2) by simp
qed

lemma scan_tmp_None: "scan_pending_name (tmp_name pid name) = None"
  by (simp add: scan_pending_name_def tmp_not_bin)

lemma tmp_neq_pending: "tmp_name pid n \<noteq> pending_name ino idx sz"
  using tmp_not_bin [of pid n] ends_with_append [of "fmt_int ino @ ''-'' @ fmt_int idx @ ''-'' @ fmt_int sz" "''.bin''"]
  by (auto simp: pending_name_def)

lemma scan_pending_names: "scan_pending dir = List.map_filter scan_pending_name (map fst dir)"
  by (induction dir) (auto simp: scan_pending_def map_filter_simps split: option.splits)

lemma map_filter_append: "List.map_filter f (xs @ ys) = List.map_filter f xs @ List.map_filter f ys"
  by (induction xs) (auto simp: map_filter_simps split: option.splits)

lemma set_map_filter: "set (List.map_filter f xs) = {y. \<exists>x\<in>set xs. f x = Some y}"
  by (induction xs) (auto simp: map_filter_simps split: option.splits)

lemma scan_update_tmp: "scan_pending (AList.update (tmp_name pid n) w dir) = scan_pending dir"
  by (induction dir) (auto simp: scan_pending_names map_filter_simps scan_tmp_None split: option.splits)

lemma scan_delete_tmp: "scan_pending (AList.delete (tmp_name pid n) dir) = scan_pending dir"
  by (induction dir) (auto simp: scan_pending_names map_filter_simps scan_tmp_None split: option.splits)

lemma index_of_tmp_marker: "index_of_tmp (s @ ''.tmp-'' @ t) i \<noteq> None"
  by (induction s arbitrary: i) auto

lemma index_of_tmp_none: "CHR ''t'' \<notin> set s \<Longrightarrow> index_of_tmp s i = None"
  by (induction s arbitrary: i) (auto simp: prefix_def)

lemma index_of_tmp_pending: "index_of_tmp (pending_name ino idx sz) i = None"
proof (rule index_of_tmp_none)
  have "\<not> is_digit CHR ''t''" by (simp add: is_digit_def)
  then have "CHR ''t'' \<notin> set (fmt_int n)" for n using fmt_int_chars by force
  then show "CHR ''t'' \<notin> set (pending_name ino idx sz)" by (simp add: pending_name_def)
qed

lemma index_of_tmp_tmp: "index_of_tmp (tmp_name pid n) 0 \<noteq> None"
  unfolding tmp_name_def by (rule index_of_tmp_marker)

section \<open>Properties\<close>

text \<open>Staging is crash safe and survives a restart: a wire that \<open>PersistPending\<close> has staged is found by
  \<open>ScanPending\<close> under its inode, chunk and size with its bytes intact; a crash between the write
  and the rename, or a failing write or rename, changes nothing of what the scan finds, and the startup clean-up
  removes the half-written file.\<close>

theorem persist_survives_restart:
  assumes "- (2 ^ 63) \<le> ino" "ino < 2 ^ 63" "- (2 ^ 31) \<le> idx" "idx < 2 ^ 31" "- (2 ^ 31) \<le> sz" "sz < 2 ^ 31"
  shows "(let name = pending_name ino idx sz; (r, dir') = persist_pending True True pid ino idx sz wire dir in
      r = Some name \<and> map_of dir' name = Some wire \<and>
      \<lparr>pe_ino = ino, pe_idx = idx, pe_size = sz, pe_path = name\<rparr> \<in> set (scan_pending dir') \<and>
      (\<forall>n. n \<noteq> name \<and> n \<noteq> tmp_name pid name \<longrightarrow> map_of dir' n = map_of dir n)) \<and>
    scan_pending (write_tmp pid (pending_name ino idx sz) part dir) = scan_pending dir \<and>
    map_of (cleanup_pending_tmp (write_tmp pid (pending_name ino idx sz) part dir)) (tmp_name pid (pending_name ino idx sz)) = None \<and>
    (\<forall>n w. (n, w) \<in> set dir \<and> index_of_tmp n 0 = None \<longrightarrow>
       (n, w) \<in> set (cleanup_pending_tmp (write_tmp pid (pending_name ino idx sz) part dir))) \<and>
    (\<forall>wok rok. \<not> (wok \<and> rok) \<longrightarrow> fst (persist_pending wok rok pid ino idx sz wire dir) = None \<and>
       scan_pending (snd (persist_pending wok rok pid ino idx sz wire dir)) = scan_pending dir)"
proof -
  let ?n = "pending_name ino idx sz" and ?t = "tmp_name pid (pending_name ino idx sz)"
  let ?d = "AList.update ?n wire (AList.delete ?t (AList.update ?t wire dir))"
  have ok: "persist_pending True True pid ino idx sz wire dir = (Some ?n, ?d)"
    by (simp add: persist_pending_def rename_file_def write_tmp_def Let_def update_conv')
  have found: "map_of ?d ?n = Some wire" by (simp add: update_conv')
  then have "?n \<in> set (map fst ?d)" by (force dest: map_of_SomeD)
  then have scan: "\<lparr>pe_ino = ino, pe_idx = idx, pe_size = sz, pe_path = ?n\<rparr> \<in> set (scan_pending ?d)"
    unfolding scan_pending_names set_map_filter mem_Collect_eq using scan_pending_name_fmt [OF assms] by blast
  have rest: "map_of ?d n = map_of dir n" if "n \<noteq> ?n" "n \<noteq> ?t" for n
    using that by (simp add: update_conv' delete_conv')
  have tmp_gone: "map_of (cleanup_pending_tmp (write_tmp pid ?n part dir)) ?t = None"
    unfolding map_of_eq_None_iff by (auto simp: cleanup_pending_tmp_def index_of_tmp_tmp simp del: not_None_eq dest: index_of_tmp_tmp [THEN notE])
  have kept: "(n, w) \<in> set (cleanup_pending_tmp (write_tmp pid ?n part dir))"
    if "(n, w) \<in> set dir" "index_of_tmp n 0 = None" for n w
  proof -
    have "n \<noteq> ?t" using that(2) index_of_tmp_tmp by metis
    then have "(n, w) \<in> set (AList.update ?t part dir)" using that(1) by (induction dir) auto
    then show ?thesis using that(2) by (simp add: cleanup_pending_tmp_def write_tmp_def)
  qed
  have fail: "fst (persist_pending wok rok pid ino idx sz wire dir) = None \<and>
       scan_pending (snd (persist_pending wok rok pid ino idx sz wire dir)) = scan_pending dir" if "\<not> (wok \<and> rok)" for wok rok
    using that by (auto simp: persist_pending_def Let_def write_tmp_def scan_delete_tmp scan_update_tmp)
  show ?thesis
    using found scan rest tmp_gone kept fail by (simp add: ok Let_def write_tmp_def scan_update_tmp)
qed

theorem persist_survives_restart_witness:
  "\<lparr>pe_ino = 7, pe_idx = 0, pe_size = 3, pe_path = ''7-0-3.bin''\<rparr> \<in>
     set (scan_pending (snd (persist_pending True True 42 7 0 3 [1, 2, 3] [(''junk.bin'', [])])))"
proof -
  have "pending_name 7 0 3 = ''7-0-3.bin''" by code_simp
  then show ?thesis
    using persist_survives_restart [of 7 0 3 42 "[1, 2, 3]" "[(''junk.bin'', [])]"] by (simp add: Let_def case_prod_unfold)
qed

end
