(* ===== verification/Crypto.thy ===== *)
theory Crypto
  imports Lru
begin

text \<open>
  The payload pipeline between plaintext and the channel: the ciphers of \<open>internal/crypto\<close>
  (\<open>cipher.go\<close>, \<open>aesgcm.go\<close>, \<open>convergent.go\<close>), the wrapped key of \<open>dek.go\<close>, the canary of \<open>state.go\<close>
  and the codecs of \<open>internal/compress\<close>.  AES-GCM, HMAC-SHA256 and zstd are parameters: an \<open>aead\<close>
  record, a function from key and message to the digest and a pair of functions.  What is
  assumed of them is \<open>aead_laws\<close> and \<open>zstd_laws\<close>.
\<close>

section \<open>Primitives\<close>

record aead =
  ae_seal :: "bytes \<Rightarrow> bytes \<Rightarrow> bytes \<Rightarrow> bytes \<Rightarrow> bytes"
  ae_open :: "bytes \<Rightarrow> bytes \<Rightarrow> bytes \<Rightarrow> bytes \<Rightarrow> bytes option"
  ae_overhead :: nat

text \<open>
  The arguments are key, nonce, text and additional data.  Opening inverts sealing, and accepts
  nothing but a sealed text: GCM recomputes the tag of the text it decrypts.
\<close>

definition aead_laws :: "aead \<Rightarrow> bool" where
  "aead_laws A \<longleftrightarrow>
     (\<forall>k n p a. ae_open A k n (ae_seal A k n p a) a = Some p) \<and>
     (\<forall>k n c a p. ae_open A k n c a = Some p \<longrightarrow> c = ae_seal A k n p a) \<and>
     (\<forall>k n p a. length (ae_seal A k n p a) = length p + ae_overhead A)"

record zstd =
  zs_enc :: "bytes \<Rightarrow> bytes"
  zs_dec :: "bytes \<Rightarrow> bytes option"

definition zstd_laws :: "zstd \<Rightarrow> bool" where
  "zstd_laws Z \<longleftrightarrow> (\<forall>b. zs_dec Z (zs_enc Z b) = Some b)"

section \<open>Ciphers\<close>

datatype crypto_err =
  ErrAuth | TooShort int | KeyLength int | DekLength int | RandFailed | UnwrapFailed
| CanaryFailed | CanaryMismatch | UnknownCodec string | DecodeFailed

definition nonceSize :: nat where "nonceSize = 12"
definition DEKLen :: nat where "DEKLen = 32"

fun be_bytes :: "nat \<Rightarrow> int \<Rightarrow> bytes" where
  "be_bytes 0 x = []"
| "be_bytes (Suc n) x = be_bytes n (x div 256) @ [word_of_int x]"

definition makeAAD :: "int \<Rightarrow> int \<Rightarrow> bytes" where
  "makeAAD ino idx = be_bytes 8 ino @ be_bytes 4 idx"

datatype cipher = NoopCipher | AESGCM bytes | AESGCMConvergent bytes

definition new_aesgcm :: "bytes \<Rightarrow> crypto_err + cipher" where
  "new_aesgcm key = (if length key \<noteq> 32 then Inl (KeyLength (blen key)) else Inr (AESGCM key))"

definition new_aesgcm_convergent :: "bytes \<Rightarrow> crypto_err + cipher" where
  "new_aesgcm_convergent key = (if length key \<noteq> 32 then Inl (KeyLength (blen key)) else Inr (AESGCMConvergent key))"

definition ascii :: "string \<Rightarrow> bytes" where
  "ascii s = map (\<lambda>c. word_of_int (of_char c)) s"

definition hmacNonceLabel :: bytes where
  "hmacNonceLabel = ascii ''telfs-v3-nonce'' @ [0]"

definition derive_nonce :: "(bytes \<Rightarrow> bytes \<Rightarrow> bytes) \<Rightarrow> bytes \<Rightarrow> bytes \<Rightarrow> bytes" where
  "derive_nonce hmac key pt = take nonceSize (hmac key (hmacNonceLabel @ pt))"

text \<open>\<open>rnd\<close> is what the system's randomness gives for the nonce, None when it fails.\<close>

definition cipher_seal :: "aead \<Rightarrow> (bytes \<Rightarrow> bytes \<Rightarrow> bytes) \<Rightarrow> bytes option \<Rightarrow> cipher \<Rightarrow> int \<Rightarrow> int \<Rightarrow> bytes
    \<Rightarrow> crypto_err + bytes" where
  "cipher_seal A hmac rnd c ino idx pt =
     (case c of
        NoopCipher \<Rightarrow> Inr pt
      | AESGCM key \<Rightarrow>
          (case rnd of None \<Rightarrow> Inl RandFailed
           | Some nonce \<Rightarrow> Inr (nonce @ ae_seal A key nonce pt (makeAAD ino idx)))
      | AESGCMConvergent key \<Rightarrow>
          (let nonce = derive_nonce hmac key pt in Inr (nonce @ ae_seal A key nonce pt [])))"

definition cipher_open :: "aead \<Rightarrow> cipher \<Rightarrow> int \<Rightarrow> int \<Rightarrow> bytes \<Rightarrow> crypto_err + bytes" where
  "cipher_open A c ino idx ct =
     (case c of
        NoopCipher \<Rightarrow> Inr ct
      | AESGCM key \<Rightarrow>
          if length ct < nonceSize + ae_overhead A then Inl (TooShort (blen ct))
          else (case ae_open A key (take nonceSize ct) (drop nonceSize ct) (makeAAD ino idx) of
                  None \<Rightarrow> Inl ErrAuth | Some pt \<Rightarrow> Inr pt)
      | AESGCMConvergent key \<Rightarrow>
          if length ct < nonceSize + ae_overhead A then Inl (TooShort (blen ct))
          else (case ae_open A key (take nonceSize ct) (drop nonceSize ct) [] of
                  None \<Rightarrow> Inl ErrAuth | Some pt \<Rightarrow> Inr pt))"

text \<open>The \<open>DedupSafe\<close> assertion: which ciphers implement \<open>Deterministic\<close>.\<close>

definition deterministic :: "cipher \<Rightarrow> bool" where
  "deterministic c = (case c of AESGCM _ \<Rightarrow> False | _ \<Rightarrow> True)"

section \<open>The data key and the canary\<close>

definition dekWrapAADConstant :: bytes where
  "dekWrapAADConstant = ascii ''telfs-dek-wrap-v2''"

definition wrap_dek :: "aead \<Rightarrow> bytes option \<Rightarrow> bytes \<Rightarrow> bytes \<Rightarrow> crypto_err + bytes" where
  "wrap_dek A rnd kek dek =
     (if length kek \<noteq> 32 then Inl (KeyLength (blen kek))
      else if length dek \<noteq> DEKLen then Inl (DekLength (blen dek))
      else (case rnd of None \<Rightarrow> Inl RandFailed
            | Some nonce \<Rightarrow> Inr (nonce @ ae_seal A kek nonce dek dekWrapAADConstant)))"

definition unwrap_dek :: "aead \<Rightarrow> bytes \<Rightarrow> bytes \<Rightarrow> crypto_err + bytes" where
  "unwrap_dek A kek wrapped =
     (if length kek \<noteq> 32 then Inl (KeyLength (blen kek))
      else if length wrapped < nonceSize + DEKLen then Inl (TooShort (blen wrapped))
      else (case ae_open A kek (take nonceSize wrapped) (drop nonceSize wrapped) dekWrapAADConstant of
              None \<Rightarrow> Inl UnwrapFailed
            | Some dek \<Rightarrow> if length dek \<noteq> DEKLen then Inl (DekLength (blen dek)) else Inr dek))"

definition canaryPlaintext :: bytes where
  "canaryPlaintext = ascii ''telfs-canary-v1''"

definition seal_canary :: "aead \<Rightarrow> (bytes \<Rightarrow> bytes \<Rightarrow> bytes) \<Rightarrow> bytes option \<Rightarrow> cipher \<Rightarrow> crypto_err + bytes" where
  "seal_canary A hmac rnd c = cipher_seal A hmac rnd c 0 0 canaryPlaintext"

definition verify_canary :: "aead \<Rightarrow> cipher \<Rightarrow> bytes \<Rightarrow> crypto_err + unit" where
  "verify_canary A c encoded =
     (case cipher_open A c 0 0 encoded of
        Inl _ \<Rightarrow> Inl CanaryFailed
      | Inr pt \<Rightarrow> if pt \<noteq> canaryPlaintext then Inl CanaryMismatch else Inr ())"

section \<open>Codecs\<close>

datatype codec = CodecNone | CodecZstd

definition new_codec :: "string \<Rightarrow> crypto_err + codec" where
  "new_codec name =
     (if name = '''' \<or> name = ''none'' then Inr CodecNone
      else if name = ''zstd'' then Inr CodecZstd
      else Inl (UnknownCodec name))"

definition codec_name :: "codec \<Rightarrow> string" where
  "codec_name d = (case d of CodecNone \<Rightarrow> ''none'' | CodecZstd \<Rightarrow> ''zstd'')"

definition compress_chunk :: "zstd \<Rightarrow> codec \<Rightarrow> bytes \<Rightarrow> bytes" where
  "compress_chunk Z d b = (case d of CodecNone \<Rightarrow> b | CodecZstd \<Rightarrow> zs_enc Z b)"

definition decompress_chunk :: "zstd \<Rightarrow> codec \<Rightarrow> bytes \<Rightarrow> crypto_err + bytes" where
  "decompress_chunk Z d b =
     (case d of CodecNone \<Rightarrow> Inr b
      | CodecZstd \<Rightarrow> (case zs_dec Z b of None \<Rightarrow> Inl DecodeFailed | Some x \<Rightarrow> Inr x))"

section \<open>Layers\<close>

text \<open>A payload layer: what it encodes it decodes.  Layers compose.\<close>

locale payload_layer =
  fixes enc :: "bytes \<Rightarrow> 'e + bytes" and dec :: "bytes \<Rightarrow> 'e + bytes"
  assumes decode_encode: "enc p = Inr w \<Longrightarrow> dec w = Inr p"
begin

lemma encode_inj: "enc p = Inr w \<Longrightarrow> enc q = Inr w \<Longrightarrow> p = q"
  using decode_encode [of p w] decode_encode [of q w] by simp

end

locale payload_stack = inner: payload_layer enc1 dec1 + outer: payload_layer enc2 dec2
  for enc1 dec1 enc2 dec2 :: "bytes \<Rightarrow> 'e + bytes"
begin

lemma stack: "enc1 p = Inr c \<Longrightarrow> enc2 c = Inr w \<Longrightarrow> dec2 w = Inr c \<and> dec1 c = Inr p"
  using inner.decode_encode outer.decode_encode by blast

end

interpretation noop: payload_layer "cipher_seal A hmac rnd NoopCipher ino idx" "cipher_open A NoopCipher ino idx"
  for A hmac rnd ino idx
  by unfold_locales (simp add: cipher_seal_def cipher_open_def)

interpretation codec_none: payload_layer "\<lambda>p. Inr (compress_chunk Z CodecNone p)" "decompress_chunk Z CodecNone"
  for Z
  by unfold_locales (simp add: compress_chunk_def decompress_chunk_def)

interpretation plain: payload_stack "\<lambda>p. Inr (compress_chunk Z CodecNone p)" "decompress_chunk Z CodecNone"
    "cipher_seal A hmac rnd NoopCipher ino idx" "cipher_open A NoopCipher ino idx"
  for Z A hmac rnd ino idx
  by unfold_locales

definition good_nonce :: "bytes option \<Rightarrow> bool" where
  "good_nonce rnd = (case rnd of None \<Rightarrow> True | Some n \<Rightarrow> length n = nonceSize)"

definition hmac_len :: "(bytes \<Rightarrow> bytes \<Rightarrow> bytes) \<Rightarrow> bool" where
  "hmac_len hmac \<longleftrightarrow> (\<forall>k m. length (hmac k m) = 32)"

lemma derive_nonce_length: "hmac_len hmac \<Longrightarrow> length (derive_nonce hmac k p) = nonceSize"
  by (simp add: derive_nonce_def hmac_len_def nonceSize_def)

lemma aead_lawsD:
  assumes "aead_laws A"
  shows "ae_open A k n (ae_seal A k n p a) a = Some p"
    "ae_open A k n c a = Some p \<Longrightarrow> c = ae_seal A k n p a"
    "length (ae_seal A k n p a) = length p + ae_overhead A"
  using assms by (auto simp: aead_laws_def)

lemma cipher_layer:
  assumes "aead_laws A" "hmac_len hmac" "good_nonce rnd"
  shows "payload_layer (cipher_seal A hmac rnd c ino idx) (cipher_open A c ino idx)"
proof
  fix p w assume "cipher_seal A hmac rnd c ino idx p = Inr w"
  then show "cipher_open A c ino idx w = Inr p"
    using assms derive_nonce_length [OF assms(2)]
    by (cases c) (auto simp: cipher_seal_def cipher_open_def good_nonce_def Let_def aead_lawsD split: option.splits)
qed

lemma codec_layer: "zstd_laws Z \<Longrightarrow> payload_layer (\<lambda>p. Inr (compress_chunk Z d p)) (decompress_chunk Z d)"
  by unfold_locales (auto simp: compress_chunk_def decompress_chunk_def zstd_laws_def split: codec.splits)

section \<open>Slot binding\<close>

lemma word_of_int_mod: "(word_of_int x :: 8 word) = word_of_int y \<longleftrightarrow> x mod 256 = y mod 256"
  by (simp add: word_of_int_eq_iff take_bit_eq_mod)

lemma be_bytes_length [simp]: "length (be_bytes n x) = n"
  by (induction n arbitrary: x) auto

lemma be_bytes_eq: "be_bytes n x = be_bytes n y \<longleftrightarrow> x mod 256 ^ n = y mod 256 ^ n"
proof (induction n arbitrary: x y)
  case (Suc n)
  have split: "z mod 256 ^ Suc n = 256 * (z div 256 mod 256 ^ n) + z mod 256" for z :: int
    using zmod_zmult2_eq [of "256 ^ n" z 256] by simp
  have "be_bytes (Suc n) x = be_bytes (Suc n) y \<longleftrightarrow>
      x div 256 mod 256 ^ n = y div 256 mod 256 ^ n \<and> x mod 256 = y mod 256"
    using Suc.IH word_of_int_mod by auto
  also have "\<dots> \<longleftrightarrow> x mod 256 ^ Suc n = y mod 256 ^ Suc n"
    unfolding split by (smt (verit) pos_mod_bound pos_mod_sign)
  finally show ?case .
qed simp

text \<open>Reading two's complement back: within the width the encoding is injective.\<close>

lemma mod_inj: "(x :: int) mod m = y mod m \<Longrightarrow> - k \<le> x \<Longrightarrow> x < k \<Longrightarrow> - k \<le> y \<Longrightarrow> y < k \<Longrightarrow> m = 2 * k \<Longrightarrow> x = y"
proof (rule ccontr)
  assume a: "x mod m = y mod m" "- k \<le> x" "x < k" "- k \<le> y" "y < k" "m = 2 * k" "x \<noteq> y"
  then have "m dvd x - y" by (simp add: mod_eq_dvd_iff)
  then have "\<bar>m\<bar> \<le> \<bar>x - y\<bar>" using a(7) by (intro dvd_imp_le_int) auto
  then show False using a by linarith
qed

lemma makeAAD_inj:
  assumes "- (2 ^ 63) \<le> i" "i < 2 ^ 63" "- (2 ^ 63) \<le> j" "j < 2 ^ 63"
    "- (2 ^ 31) \<le> x" "x < 2 ^ 31" "- (2 ^ 31) \<le> y" "y < 2 ^ 31"
  shows "makeAAD i x = makeAAD j y \<longleftrightarrow> i = j \<and> x = y"
proof
  assume "makeAAD i x = makeAAD j y"
  then have "i mod 256 ^ 8 = j mod 256 ^ 8" "x mod 256 ^ 4 = y mod 256 ^ 4"
    by (auto simp: makeAAD_def be_bytes_eq)
  then show "i = j \<and> x = y"
    using mod_inj [of i "256 ^ 8" j "2 ^ 63"] mod_inj [of x "256 ^ 4" y "2 ^ 31"] assms by simp
qed simp

section \<open>Properties\<close>

definition encode_chunk :: "aead \<Rightarrow> (bytes \<Rightarrow> bytes \<Rightarrow> bytes) \<Rightarrow> zstd \<Rightarrow> bytes option \<Rightarrow> cipher \<Rightarrow> codec \<Rightarrow> int \<Rightarrow> int \<Rightarrow> bytes
    \<Rightarrow> crypto_err + bytes" where
  "encode_chunk A hmac Z rnd c d ino idx pt = cipher_seal A hmac rnd c ino idx (compress_chunk Z d pt)"

definition decode_chunk :: "aead \<Rightarrow> zstd \<Rightarrow> cipher \<Rightarrow> codec \<Rightarrow> int \<Rightarrow> int \<Rightarrow> bytes \<Rightarrow> crypto_err + bytes" where
  "decode_chunk A Z c d ino idx wire =
     (case cipher_open A c ino idx wire of Inl e \<Rightarrow> Inl e | Inr b \<Rightarrow> decompress_chunk Z d b)"

lemma decode_encode_chunk:
  assumes "aead_laws A" "hmac_len hmac" "zstd_laws Z" "good_nonce rnd" "encode_chunk A hmac Z rnd c d ino idx pt = Inr w"
  shows "decode_chunk A Z c d ino idx w = Inr pt"
proof -
  have "payload_stack (\<lambda>p. Inr (compress_chunk Z d p)) (decompress_chunk Z d)
      (cipher_seal A hmac rnd c ino idx) (cipher_open A c ino idx)"
    using cipher_layer [OF assms(1,2,4)] codec_layer [OF assms(3)] by (simp add: payload_stack_def)
  from payload_stack.stack [OF this refl, of pt w] show ?thesis
    using assms(5) by (simp add: encode_chunk_def decode_chunk_def)
qed

text \<open>The pipeline round trip: for every cipher mode and codec, a chunk compressed and sealed for a
  slot is what opening the wire for that slot and decompressing gives back; a convergent wire does
  not depend on the slot or on randomness and opens at every slot, which is what deduplication
  rests on.\<close>

theorem pipeline_roundtrip:
  assumes "aead_laws A" "hmac_len hmac" "zstd_laws Z" "good_nonce rnd"
  shows "(\<forall>w. encode_chunk A hmac Z rnd c d ino idx pt = Inr w \<longrightarrow> decode_chunk A Z c d ino idx w = Inr pt) \<and>
    (rnd \<noteq> None \<longrightarrow> (\<exists>w. encode_chunk A hmac Z rnd c d ino idx pt = Inr w)) \<and>
    (deterministic c \<longrightarrow> encode_chunk A hmac Z rnd c d ino idx pt = encode_chunk A hmac Z rnd' c d ino' idx' pt \<and>
      (\<forall>w. encode_chunk A hmac Z rnd c d ino idx pt = Inr w \<longrightarrow> decode_chunk A Z c d ino' idx' w = Inr pt))"
proof (intro conjI allI impI)
  show "decode_chunk A Z c d ino idx w = Inr pt" if "encode_chunk A hmac Z rnd c d ino idx pt = Inr w" for w
    by (rule decode_encode_chunk [OF assms that])
  show "\<exists>w. encode_chunk A hmac Z rnd c d ino idx pt = Inr w" if "rnd \<noteq> None"
    using that by (cases c) (auto simp: encode_chunk_def cipher_seal_def Let_def)
  assume "deterministic c"
  then show eq: "encode_chunk A hmac Z rnd c d ino idx pt = encode_chunk A hmac Z rnd' c d ino' idx' pt"
    by (cases c) (auto simp: encode_chunk_def cipher_seal_def deterministic_def)
  have "encode_chunk A hmac Z rnd c d ino idx pt = encode_chunk A hmac Z rnd c d ino' idx' pt"
    using \<open>deterministic c\<close> by (cases c) (auto simp: encode_chunk_def cipher_seal_def deterministic_def)
  then show "decode_chunk A Z c d ino' idx' w = Inr pt" if "encode_chunk A hmac Z rnd c d ino idx pt = Inr w" for w
    using decode_encode_chunk [OF assms, of c d ino' idx' pt w] that by simp
qed

text \<open>An instance of the primitives for the witnesses: a tag over key, nonce and data; reversal as codec.\<close>

definition demo_tag :: "bytes \<Rightarrow> bytes \<Rightarrow> bytes \<Rightarrow> bytes" where
  "demo_tag k n a = take 16 (rev a @ take 2 k @ n @ replicate 16 0)"

definition demo_aead :: aead where
  "demo_aead = \<lparr>ae_seal = \<lambda>k n p a. p @ demo_tag k n a,
     ae_open = \<lambda>k n c a. if length c < 16 then None
       else if drop (length c - 16) c = demo_tag k n a then Some (take (length c - 16) c) else None,
     ae_overhead = 16\<rparr>"

definition demo_zstd :: zstd where
  "demo_zstd = \<lparr>zs_enc = rev, zs_dec = \<lambda>b. Some (rev b)\<rparr>"

definition demo_hmac :: "bytes \<Rightarrow> bytes \<Rightarrow> bytes" where
  "demo_hmac k m = take 32 (rev m @ k @ replicate 32 0)"

lemma demo_laws: "aead_laws demo_aead" "zstd_laws demo_zstd" "hmac_len demo_hmac"
proof -
  have t: "length (demo_tag k n a) = 16" for k n a by (simp add: demo_tag_def)
  show "aead_laws demo_aead"
    by (auto simp: aead_laws_def demo_aead_def t split: if_splits) (metis append_take_drop_id)
qed (simp_all add: zstd_laws_def demo_zstd_def hmac_len_def demo_hmac_def min_def)

definition demo_key :: bytes where "demo_key = replicate 32 7"

theorem pipeline_roundtrip_witness:
  "\<exists>w. encode_chunk demo_aead demo_hmac demo_zstd None (AESGCMConvergent demo_key) CodecZstd 5 0 [1, 2, 3] = Inr w \<and>
     decode_chunk demo_aead demo_zstd (AESGCMConvergent demo_key) CodecZstd 9 4 w = Inr [1, 2, 3]"
proof -
  have "deterministic (AESGCMConvergent demo_key)" by (simp add: deterministic_def)
  moreover have "\<exists>w. encode_chunk demo_aead demo_hmac demo_zstd None (AESGCMConvergent demo_key) CodecZstd 5 0 [1, 2, 3] = Inr w"
    by (simp add: encode_chunk_def cipher_seal_def Let_def)
  ultimately show ?thesis
    using pipeline_roundtrip [OF demo_laws(1,3,2), of None "AESGCMConvergent demo_key" CodecZstd 5 0 "[1, 2, 3]" None 9 4]
    by (auto simp: good_nonce_def)
qed

text \<open>A wire of the random-nonce cipher is bound to its slot: opening it anywhere succeeds only with a
  text sealed under the additional data of the slot asked for, and different inode or chunk numbers
  never share that data; the convergent and the plain mode carry no such binding.\<close>

theorem slot_binding:
  assumes "aead_laws A" "cipher_open A (AESGCM key) ino idx w = Inr pt"
  shows "w = take 12 w @ ae_seal A key (take 12 w) pt (makeAAD ino idx) \<and>
    (\<forall>ino' idx'. ino \<in> {-(2^63)..<2^63} \<and> ino' \<in> {-(2^63)..<2^63} \<and> idx \<in> {-(2^31)..<2^31} \<and> idx' \<in> {-(2^31)..<2^31} \<longrightarrow>
       (makeAAD ino idx = makeAAD ino' idx' \<longleftrightarrow> ino = ino' \<and> idx = idx'))"
proof (intro conjI allI impI)
  have "ae_open A key (take nonceSize w) (drop nonceSize w) (makeAAD ino idx) = Some pt"
    using assms(2) by (auto simp: cipher_open_def split: if_splits option.splits)
  from aead_lawsD(2) [OF assms(1) this]
  show "w = take 12 w @ ae_seal A key (take 12 w) pt (makeAAD ino idx)"
    by (metis append_take_drop_id nonceSize_def)
qed (use makeAAD_inj in auto)

theorem slot_binding_witness:
  "cipher_open demo_aead (AESGCM demo_key) 5 1 (replicate 12 9 @ ae_seal demo_aead demo_key (replicate 12 9) [1, 2] (makeAAD 5 1)) = Inr [1, 2] \<and>
   makeAAD 5 1 \<noteq> makeAAD 6 1"
proof
  have o: "cipher_open demo_aead (AESGCM demo_key) 5 1 (replicate 12 9 @ ae_seal demo_aead demo_key (replicate 12 9) [1, 2] (makeAAD 5 1)) = Inr [1, 2]"
    by (simp add: cipher_open_def nonceSize_def aead_lawsD [OF demo_laws(1)])
  then show "cipher_open demo_aead (AESGCM demo_key) 5 1 (replicate 12 9 @ ae_seal demo_aead demo_key (replicate 12 9) [1, 2] (makeAAD 5 1)) = Inr [1, 2]" .
  show "makeAAD 5 1 \<noteq> makeAAD 6 1" using slot_binding [OF demo_laws(1) o, THEN conjunct2, rule_format, of 6 1] by simp
qed

text \<open>Rotating the passphrase keeps the data key: a key wrapped under a 32-byte key unwraps under it, so
  unwrapping under the old and wrapping under the new passphrase key preserves it; keys of another
  length are refused, and a mount under a cipher accepts the canary that cipher sealed.\<close>

theorem rotation_keeps_dek:
  assumes "aead_laws A" "hmac_len hmac" "length n = 12" "length n' = 12" "length kek = 32" "length kek' = 32" "length dek = 32"
  shows "(\<exists>w w'. wrap_dek A (Some n) kek dek = Inr w \<and> unwrap_dek A kek w = Inr dek \<and>
        wrap_dek A (Some n') kek' dek = Inr w' \<and> unwrap_dek A kek' w' = Inr dek) \<and>
    (\<forall>k. length k \<noteq> 32 \<longrightarrow> wrap_dek A (Some n) k dek = Inl (KeyLength (blen k))) \<and>
    (\<forall>c w. seal_canary A hmac (Some n) c = Inr w \<longrightarrow> verify_canary A c w = Inr ())"
proof (intro conjI allI impI)
  note l = aead_lawsD [OF assms(1)]
  show "\<exists>w w'. wrap_dek A (Some n) kek dek = Inr w \<and> unwrap_dek A kek w = Inr dek \<and>
        wrap_dek A (Some n') kek' dek = Inr w' \<and> unwrap_dek A kek' w' = Inr dek"
    using assms(3-7) by (simp add: wrap_dek_def unwrap_dek_def DEKLen_def nonceSize_def l)
  show "wrap_dek A (Some n) k dek = Inl (KeyLength (blen k))" if "length k \<noteq> 32" for k
    using that by (simp add: wrap_dek_def)
  show "verify_canary A c w = Inr ()" if "seal_canary A hmac (Some n) c = Inr w" for c w
    using payload_layer.decode_encode [OF cipher_layer [OF assms(1,2)], of "Some n" c 0 0 canaryPlaintext w] that assms(3)
    by (simp add: seal_canary_def verify_canary_def good_nonce_def nonceSize_def)
qed

theorem rotation_keeps_dek_witness:
  "\<exists>w. wrap_dek demo_aead (Some (replicate 12 1)) (replicate 32 2) demo_key = Inr w \<and>
       unwrap_dek demo_aead (replicate 32 2) w = Inr demo_key"
  using rotation_keeps_dek [OF demo_laws(1,3), of "replicate 12 1" "replicate 12 1" "replicate 32 2" "replicate 32 2" demo_key]
  by (auto simp: demo_key_def)

end
