(* ===== verification/Cache.thy ===== *)
theory Cache
  imports Persist Crypto
begin

text \<open>
  The disk-backed chunk cache of \<open>internal/chunk/cache.go\<close>: the adoption of files at start, the
  three-tier \<open>Get\<close> with its single-flighted miss path and its retries, \<open>PutDecoded\<close>, \<open>Invalidate\<close>
  and eviction.  The files of the cache directory are a partial map from chunk keys (a file name
  is a function of its key); the upstream fetcher, the merged flights of other goroutines and
  the errors of the disk are the environment of an attempt.
\<close>

section \<open>State and environment\<close>

definition DefaultCacheCapBytes :: int where "DefaultCacheCapBytes = 1073741824"

record go_err =
  ge_canceled :: bool
  ge_text :: string

datatype cache_err =
  FetchErr go_err | ReadErr go_err | WriteErr go_err | ExtentRange | OpenErr crypto_err | DecodeErr crypto_err | CtxDone

datatype fetcher =
  WholeFetcher "ckey \<Rightarrow> int \<Rightarrow> go_err + bytes"
| RangedFetcher "ckey \<Rightarrow> int \<Rightarrow> go_err + bytes" "ckey \<Rightarrow> int \<Rightarrow> int \<Rightarrow> int \<Rightarrow> go_err + bytes"

record cache =
  dk_index :: disk_index
  dk_files :: "ckey \<Rightarrow> bytes option"
  dk_mem :: "memcache option"

record cache_cfg =
  cg_aead :: aead
  cg_zstd :: zstd
  cg_cipher :: cipher
  cg_codec :: codec

text \<open>
  What attempt n meets: the fetcher, another goroutine's flight this call is merged onto (its
  result and the state it left), the errors of the disk, and the state of the caller's context
  after the call and during the pause.
\<close>

record attempt_env =
  en_fetcher :: fetcher
  en_joined :: "((cache_err + bytes) \<times> cache) option"
  en_read_err :: "ckey \<Rightarrow> go_err option"
  en_write_err :: "ckey \<Rightarrow> go_err option"
  en_ctx_done :: bool
  en_pause_done :: bool

definition file_name :: "ckey \<Rightarrow> string" where
  "file_name k = fmt_int (key_ino k) @ ''-'' @ fmt_int (key_idx k) @ ''.bin''"

section \<open>Adoption of existing files\<close>

definition scan_cache_name :: "string \<Rightarrow> ckey option" where
  "scan_cache_name name =
     (case scan_int (2 ^ 63) name of None \<Rightarrow> None | Some (ino, r1) \<Rightarrow>
      case scan_lit ''-'' r1 of None \<Rightarrow> None | Some r2 \<Rightarrow>
      case scan_int (2 ^ 31) r2 of None \<Rightarrow> None | Some (idx, r3) \<Rightarrow>
      case scan_lit ''.bin'' r3 of None \<Rightarrow> None | Some _ \<Rightarrow> Some (Key ino idx))"

text \<open>A directory entry: name, whether it is a directory, and its size.  The entry map points to the last list element of a key.\<close>

fun adopt_files :: "(string \<times> bool \<times> int) list \<Rightarrow> disk_index \<Rightarrow> disk_index" where
  "adopt_files [] i = i"
| "adopt_files ((name, is_dir, sz) # es) i =
     (if is_dir then adopt_files es i
      else (case scan_cache_name name of
              None \<Rightarrow> adopt_files es i
            | Some k \<Rightarrow>
                if sz = 0 then adopt_files es i
                else adopt_files es (i\<lparr>di_order := di_order i @ [(k, sz)], di_total := di_total i + sz\<rparr>)))"

definition remove_files :: "ckey list \<Rightarrow> (ckey \<Rightarrow> bytes option) \<Rightarrow> (ckey \<Rightarrow> bytes option)" where
  "remove_files ks files = (\<lambda>k. if k \<in> set ks then None else files k)"

definition evict_locked :: "cache \<Rightarrow> cache" where
  "evict_locked c = (case di_evict (dk_index c) of
     (i, ks) \<Rightarrow> c\<lparr>dk_index := i, dk_files := remove_files ks (dk_files c)\<rparr>)"

definition new_cache :: "int \<Rightarrow> (string \<times> bool \<times> int) list \<Rightarrow> (ckey \<Rightarrow> bytes option) \<Rightarrow> cache" where
  "new_cache cap listing files =
     (let i0 = \<lparr>di_cap = (if cap \<le> 0 then DefaultCacheCapBytes else cap), di_order = [], di_total = 0\<rparr>
      in evict_locked \<lparr>dk_index = adopt_files listing i0, dk_files = files, dk_mem = None\<rparr>)"

definition set_mem_cache :: "memcache option \<Rightarrow> cache \<Rightarrow> cache" where
  "set_mem_cache m c = c\<lparr>dk_mem := m\<rparr>"

section \<open>The hit path\<close>

datatype read_outcome = NotExist | ReadFailed go_err | ReadData bytes

definition read_file :: "attempt_env \<Rightarrow> ckey \<Rightarrow> cache \<Rightarrow> read_outcome" where
  "read_file E k c = (case en_read_err E k of Some e \<Rightarrow> ReadFailed e
     | None \<Rightarrow> (case dk_files c k of None \<Rightarrow> NotExist | Some d \<Rightarrow> ReadData d))"

definition cache_has :: "ckey \<Rightarrow> cache \<Rightarrow> bool" where
  "cache_has k c = (map_of (di_order (dk_index c)) k \<noteq> None)"

definition promote :: "ckey \<Rightarrow> bytes \<Rightarrow> cache \<Rightarrow> cache" where
  "promote k d c = c\<lparr>dk_mem := mc_put k d (dk_mem c)\<rparr>"

text \<open>Bump and read; a vanished file drops its entry and counts as a miss.\<close>

definition try_disk :: "attempt_env \<Rightarrow> ckey \<Rightarrow> cache \<Rightarrow> read_outcome \<times> cache" where
  "try_disk E k c =
     (if \<not> cache_has k c then (NotExist, c)
      else
        let c1 = c\<lparr>dk_index := di_touch k (dk_index c)\<rparr> in
        (case read_file E k c1 of
           NotExist \<Rightarrow> (NotExist, c1\<lparr>dk_index := di_drop k (dk_index c1)\<rparr>)
         | r \<Rightarrow> (r, c1)))"

section \<open>The miss path\<close>

definition fetch_wire :: "fetcher \<Rightarrow> ckey \<Rightarrow> int \<Rightarrow> int \<Rightarrow> int \<Rightarrow> cache_err + bytes" where
  "fetch_wire f k msg pack_off pack_size =
     (let fetched = (case f of
            WholeFetcher whole \<Rightarrow> whole k msg
          | RangedFetcher whole ranged \<Rightarrow> if pack_size > 0 then ranged k msg pack_off pack_size else whole k msg);
          base = (case f of WholeFetcher _ \<Rightarrow> (if pack_size > 0 then pack_off else 0) | RangedFetcher _ _ \<Rightarrow> 0)
      in (case fetched of
            Inl e \<Rightarrow> Inl (FetchErr e)
          | Inr b \<Rightarrow>
              if pack_size > 0 then
                (if base + pack_size > blen b then Inl ExtentRange
                 else Inr (take (nat pack_size) (drop (nat base) b)))
              else Inr b))"

definition decode_wire :: "cache_cfg \<Rightarrow> ckey \<Rightarrow> bytes \<Rightarrow> cache_err + bytes" where
  "decode_wire cfg k w =
     (case cipher_open (cg_aead cfg) (cg_cipher cfg) (key_ino k) (key_idx k) w of
        Inl e \<Rightarrow> Inl (OpenErr e)
      | Inr b \<Rightarrow> (case decompress_chunk (cg_zstd cfg) (cg_codec cfg) b of
          Inl e \<Rightarrow> Inl (DecodeErr e)
        | Inr d \<Rightarrow> Inr d))"

text \<open>Writing the file and entering it, shared by \<open>fetchAndStore\<close> and \<open>PutDecoded\<close>.\<close>

definition store_decoded :: "attempt_env \<Rightarrow> ckey \<Rightarrow> bytes \<Rightarrow> cache \<Rightarrow> (cache_err + unit) \<times> cache" where
  "store_decoded E k d c =
     (case en_write_err E k of
        Some e \<Rightarrow> (Inl (WriteErr e), c)
      | None \<Rightarrow>
          let files = (dk_files c)(k := Some d) in
          (case di_insert k (blen d) (dk_index c) of
             (False, i, _) \<Rightarrow> (Inr (), c\<lparr>dk_index := i, dk_files := files\<rparr>)
           | (True, i, ks) \<Rightarrow> (Inr (), promote k d (c\<lparr>dk_index := i, dk_files := remove_files ks files\<rparr>))))"

definition fetch_and_store :: "cache_cfg \<Rightarrow> attempt_env \<Rightarrow> ckey \<Rightarrow> int \<Rightarrow> int \<Rightarrow> int \<Rightarrow> cache \<Rightarrow> (cache_err + bytes) \<times> cache" where
  "fetch_and_store cfg E k msg po ps c =
     (case fetch_wire (en_fetcher E) k msg po ps of
        Inl e \<Rightarrow> (Inl e, c)
      | Inr w \<Rightarrow> (case decode_wire cfg k w of
          Inl e \<Rightarrow> (Inl e, c)
        | Inr d \<Rightarrow> (case store_decoded E k d c of
            (Inl e, c1) \<Rightarrow> (Inl e, c1)
          | (Inr _, c1) \<Rightarrow> (Inr d, c1))))"

definition miss_body :: "cache_cfg \<Rightarrow> attempt_env \<Rightarrow> ckey \<Rightarrow> int \<Rightarrow> int \<Rightarrow> int \<Rightarrow> cache \<Rightarrow> (cache_err + bytes) \<times> cache" where
  "miss_body cfg E k msg po ps c =
     (case try_disk E k c of
        (ReadData d, c1) \<Rightarrow> (Inr d, c1)
      | (ReadFailed e, c1) \<Rightarrow> (Inl (ReadErr e), c1)
      | (NotExist, c1) \<Rightarrow> fetch_and_store cfg E k msg po ps c1)"

definition contains :: "string \<Rightarrow> string \<Rightarrow> bool" where
  "contains s marker = list_ex (prefix marker) (suffixes s)"

definition err_canceled :: "cache_err \<Rightarrow> bool" where
  "err_canceled e = (case e of FetchErr g \<Rightarrow> ge_canceled g | ReadErr g \<Rightarrow> ge_canceled g | WriteErr g \<Rightarrow> ge_canceled g
     | CtxDone \<Rightarrow> True | _ \<Rightarrow> False)"

definition is_transient_conn_err :: "cache_err \<Rightarrow> bool" where
  "is_transient_conn_err e =
     (let text = (case e of FetchErr g \<Rightarrow> ge_text g | ReadErr g \<Rightarrow> ge_text g | WriteErr g \<Rightarrow> ge_text g | _ \<Rightarrow> '''')
      in list_ex (contains text)
           [''connection dead'', ''engine was closed'', ''engine forcibly closed'', ''session not connected''])"

section \<open>Get\<close>

function get_loop :: "cache_cfg \<Rightarrow> (nat \<Rightarrow> attempt_env) \<Rightarrow> ckey \<Rightarrow> int \<Rightarrow> int \<Rightarrow> int \<Rightarrow> nat \<Rightarrow> cache
    \<Rightarrow> (cache_err + bytes) \<times> cache" where
  "get_loop cfg env k msg po ps attempt c =
     (case try_disk (env attempt) k c of
        (ReadData d, c1) \<Rightarrow> (Inr d, promote k d c1)
      | (ReadFailed e, c1) \<Rightarrow> (Inl (ReadErr e), c1)
      | (NotExist, c1) \<Rightarrow>
          (case (case en_joined (env attempt) of
                   Some (r, c2) \<Rightarrow> (r, c2)
                 | None \<Rightarrow> miss_body cfg (env attempt) k msg po ps c1) of
             (Inr d, c2) \<Rightarrow> (Inr d, c2)
           | (Inl e, c2) \<Rightarrow>
               if err_canceled e \<and> \<not> en_ctx_done (env attempt) \<and> attempt < 3
               then get_loop cfg env k msg po ps (attempt + 1) c2
               else if is_transient_conn_err e \<and> \<not> en_ctx_done (env attempt) \<and> attempt < 3 then
                 (if en_pause_done (env attempt) then (Inl CtxDone, c2)
                  else get_loop cfg env k msg po ps (attempt + 1) c2)
               else (Inl e, c2)))"
  by pat_completeness auto
termination by (relation "measure (\<lambda>(_, _, _, _, _, _, a, _). 3 - a)") auto

declare get_loop.simps [simp del]

definition cache_get :: "cache_cfg \<Rightarrow> (nat \<Rightarrow> attempt_env) \<Rightarrow> ckey \<Rightarrow> int \<Rightarrow> int \<Rightarrow> int \<Rightarrow> cache \<Rightarrow> (cache_err + bytes) \<times> cache" where
  "cache_get cfg env k msg po ps c =
     (case mc_get k (dk_mem c) of
        (Some d, m) \<Rightarrow> (Inr d, c\<lparr>dk_mem := m\<rparr>)
      | (None, m) \<Rightarrow> get_loop cfg env k msg po ps 0 (c\<lparr>dk_mem := m\<rparr>))"

section \<open>Insertion and invalidation\<close>

definition put_decoded :: "attempt_env \<Rightarrow> ckey \<Rightarrow> bytes \<Rightarrow> cache \<Rightarrow> (cache_err + unit) \<times> cache" where
  "put_decoded E k d c = (if cache_has k c then (Inr (), c) else store_decoded E k d c)"

definition cache_invalidate :: "ckey \<Rightarrow> cache \<Rightarrow> bool \<times> cache" where
  "cache_invalidate k c =
     (let c1 = c\<lparr>dk_mem := snd (mc_invalidate k (dk_mem c))\<rparr> in
      if \<not> cache_has k c1 then (False, c1)
      else (True, c1\<lparr>dk_index := di_drop k (dk_index c1), dk_files := (dk_files c1)(k := None)\<rparr>))"

section \<open>Coherence\<close>

lemma remove_none [simp]: "remove_files [] files = files"
  by (simp add: remove_files_def)

definition mem_lookup :: "memcache option \<Rightarrow> ckey \<Rightarrow> bytes option" where
  "mem_lookup om k = (case om of None \<Rightarrow> None | Some m \<Rightarrow> map_of (mc_order m) k)"

text \<open>Both tiers hold what the chunk's content is.\<close>

definition coherent :: "(ckey \<Rightarrow> bytes) \<Rightarrow> cache \<Rightarrow> bool" where
  "coherent D c \<longleftrightarrow> (\<forall>k d. mem_lookup (dk_mem c) k = Some d \<longrightarrow> d = D k) \<and>
     (\<forall>k d. cache_has k c \<and> dk_files c k = Some d \<longrightarrow> d = D k)"

definition cache_ok :: "cache \<Rightarrow> bool" where
  "cache_ok c \<longleftrightarrow> disk_ok (dk_index c) \<and> (\<forall>m. dk_mem c = Some m \<longrightarrow> mem_ok m)"

definition upstream :: "(ckey \<Rightarrow> bytes) \<Rightarrow> cache_cfg \<Rightarrow> (nat \<Rightarrow> attempt_env) \<Rightarrow> ckey \<Rightarrow> int \<Rightarrow> int \<Rightarrow> int \<Rightarrow> bool" where
  "upstream D cfg env k msg po ps \<longleftrightarrow>
     (\<forall>n w d. fetch_wire (en_fetcher (env n)) k msg po ps = Inr w \<longrightarrow> decode_wire cfg k w = Inr d \<longrightarrow> d = D k) \<and>
     (\<forall>n r c. en_joined (env n) = Some (r, c) \<longrightarrow> coherent D c \<and> cache_ok c \<and> (\<forall>d. r = Inr d \<longrightarrow> d = D k))"

lemma upstreamD:
  assumes "upstream D cfg env k msg po ps"
  shows "fetch_wire (en_fetcher (env n)) k msg po ps = Inr w \<Longrightarrow> decode_wire cfg k w = Inr d \<Longrightarrow> d = D k"
    "en_joined (env n) = Some (r, c) \<Longrightarrow> coherent D c \<and> cache_ok c"
    "en_joined (env n) = Some (Inr d, c) \<Longrightarrow> d = D k"
  using assms by (auto simp: upstream_def)

lemma mem_lookup_get [simp]: "mem_lookup (snd (mc_get k om)) j = mem_lookup om j"
  by (auto simp: mem_lookup_def mc_get_def split: option.splits)

lemma mc_get_fst: "fst (mc_get k om) = mem_lookup om k"
  by (auto simp: mem_lookup_def mc_get_def split: option.splits)

lemma mem_ok_get: "(\<forall>m. om = Some m \<longrightarrow> mem_ok m) \<Longrightarrow> snd (mc_get k om) = Some m \<Longrightarrow> mem_ok m"
  using mem_touch_ok [of "the om" k] by (cases om) (simp add: mc_get_def, simp add: mem_touch_def)

lemma mc_put_some: "mc_put k d (Some m) = Some (mem_add k d m)"
  by (simp add: mem_add_def mc_put_def)

lemma map_of_prefix: "map_of es j = Some v \<Longrightarrow> map_of (es @ gone) j = Some v"
  by (simp add: map_add_def split: option.splits)

lemma mem_lookup_put:
  assumes "\<forall>m. om = Some m \<longrightarrow> mem_ok m" "mem_lookup (mc_put k d om) j = Some v"
  shows "j = k \<and> v = d \<or> mem_lookup om j = Some v"
proof (cases om)
  case (Some m)
  show ?thesis
  proof (cases "d = []")
    case False
    obtain gone where "(k, d) # without k (mc_order m) = mc_order (mem_add k d m) @ gone"
      using mem_add_spec [of m d k] assms(1) Some False by blast
    then have "map_of ((k, d) # without k (mc_order m)) j = Some v"
      using map_of_prefix [of "mc_order (mem_add k d m)" j v gone] assms(2) Some by (simp add: mem_lookup_def mc_put_some)
    then show ?thesis using Some by (auto simp: mem_lookup_def split: if_splits)
  qed (use assms Some in \<open>simp add: mc_put_def\<close>)
qed (use assms in \<open>simp add: mem_lookup_def mc_put_def\<close>)

lemma promote_ok: "cache_ok c \<Longrightarrow> cache_ok (promote k d c)"
  using mem_add_ok by (cases "dk_mem c") (auto simp: cache_ok_def promote_def mc_put_some, simp add: mc_put_def)

lemma promote_coherent: "coherent D c \<Longrightarrow> cache_ok c \<Longrightarrow> d = D k \<Longrightarrow> coherent D (promote k d c)"
  using mem_lookup_put [of "dk_mem c" k d] by (auto simp: coherent_def promote_def cache_ok_def cache_has_def)

lemma has_keys: "map_of es k \<noteq> None \<longleftrightarrow> k \<in> fst ` set es"
  by (simp add: map_of_eq_None_iff)

lemma try_disk_ok:
  assumes "coherent D c" "cache_ok c" "try_disk E k c = (r, c')"
  shows "coherent D c' \<and> cache_ok c' \<and> (\<forall>d. r = ReadData d \<longrightarrow> d = D k)"
proof (cases "cache_has k c")
  case True
  let ?c = "c\<lparr>dk_index := di_touch k (dk_index c)\<rparr>"
  have has: "cache_has j ?c = cache_has j c" for j by (simp add: cache_has_def di_touch_def)
  have c1: "coherent D ?c" "cache_ok ?c" using assms(1,2) di_touch_ok has by (auto simp: coherent_def cache_ok_def)
  have "cache_has j (?c\<lparr>dk_index := di_drop k (dk_index ?c)\<rparr>) \<Longrightarrow> cache_has j c" for j
    using has [of j] by (auto simp: cache_has_def di_drop_def split: option.splits if_splits)
  then have c2: "coherent D (?c\<lparr>dk_index := di_drop k (dk_index ?c)\<rparr>)" "cache_ok (?c\<lparr>dk_index := di_drop k (dk_index ?c)\<rparr>)"
    using assms(1) c1 di_drop_ok by (auto simp: coherent_def cache_ok_def)
  have data: "d = D k" if "read_file E k ?c = ReadData d" for d
    using that assms(1) True by (auto simp: read_file_def coherent_def split: option.splits)
  show ?thesis
    using assms(3) True c1 c2 data by (auto simp: try_disk_def Let_def split: read_outcome.splits)
qed (use assms in \<open>auto simp: try_disk_def\<close>)

lemma store_decoded_ok:
  assumes "coherent D c" "cache_ok c" "d = D k" "store_decoded E k d c = (r, c')"
  shows "coherent D c' \<and> cache_ok c'"
proof (cases "en_write_err E k")
  case None
  obtain new i ks where ins: "di_insert k (blen d) (dk_index c) = (new, i, ks)" by (cases "di_insert k (blen d) (dk_index c)")
  have "disk_ok (dk_index c)" "0 \<le> blen d" using assms(2) by (auto simp: cache_ok_def blen_def)
  note spec = di_insert_spec [OF this ins]
  let ?c = "c\<lparr>dk_index := i, dk_files := remove_files ks ((dk_files c)(k := Some d))\<rparr>"
  have keys: "j = k \<or> cache_has j c" if "j \<in> fst ` set (di_order i)" for j
    using that spec unfolding cache_has_def has_keys by blast
  have "coherent D ?c" "cache_ok ?c"
    using assms(1,2,3) spec keys
    by (auto simp: coherent_def cache_ok_def cache_has_def has_keys remove_files_def split: if_splits)
  then have c1: "coherent D (promote k d ?c)" "cache_ok (promote k d ?c)"
    using promote_coherent promote_ok assms(3) by auto
  have ks: "ks = []" if "\<not> new" using ins that by (auto simp: di_insert_def split: option.splits prod.splits)
  show ?thesis
  proof (cases new)
    case True
    then show ?thesis using assms(4) None ins c1 by (simp add: store_decoded_def Let_def)
  next
    case False
    then show ?thesis using assms(4) None ins \<open>coherent D ?c\<close> \<open>cache_ok ?c\<close> ks
      by (simp add: store_decoded_def Let_def remove_none)
  qed
qed (use assms in \<open>auto simp: store_decoded_def\<close>)

lemma miss_body_ok:
  assumes "coherent D c" "cache_ok c" "upstream D cfg env k msg po ps" "miss_body cfg (env n) k msg po ps c = (r, c')"
  shows "coherent D c' \<and> cache_ok c' \<and> (\<forall>d. r = Inr d \<longrightarrow> d = D k)"
proof -
  obtain q c1 where t: "try_disk (env n) k c = (q, c1)" by (cases "try_disk (env n) k c")
  note td = try_disk_ok [OF assms(1,2) t]
  show ?thesis
  proof (cases q)
    case NotExist
    then have f: "fetch_and_store cfg (env n) k msg po ps c1 = (r, c')" using assms(4) t by (simp add: miss_body_def)
    show ?thesis
    proof (cases "fetch_wire (en_fetcher (env n)) k msg po ps")
      case (Inr w)
      show ?thesis
      proof (cases "decode_wire cfg k w")
        case (Inr d)
        then have d: "d = D k" using upstreamD(1) [OF assms(3) \<open>fetch_wire _ k msg po ps = Inr w\<close>] by simp
        obtain u c2 where st: "store_decoded (env n) k d c1 = (u, c2)" by (cases "store_decoded (env n) k d c1")
        have "coherent D c2 \<and> cache_ok c2" using store_decoded_ok [of D c1 d k "env n" u c2] td d st by blast
        then show ?thesis
          using f Inr \<open>fetch_wire _ k msg po ps = Inr w\<close> st d by (cases u) (auto simp: fetch_and_store_def)
      qed (use f Inr td in \<open>auto simp: fetch_and_store_def\<close>)
    qed (use f td in \<open>auto simp: fetch_and_store_def\<close>)
  qed (use assms(4) t td in \<open>auto simp: miss_body_def\<close>)
qed

lemma get_loop_ok:
  assumes up: "upstream D cfg env k msg po ps"
  shows "coherent D c \<Longrightarrow> cache_ok c \<Longrightarrow> get_loop cfg env k msg po ps a c = (r, c') \<Longrightarrow>
   coherent D c' \<and> cache_ok c' \<and> (\<forall>d. r = Inr d \<longrightarrow> d = D k)"
proof (induction "3 - a" arbitrary: a c rule: less_induct)
  case (less a c)
  obtain q c1 where t: "try_disk (env a) k c = (q, c1)" by (cases "try_disk (env a) k c")
  note td = try_disk_ok [OF less(2,3) t]
  note step = less(4) [unfolded get_loop.simps [of cfg env k msg po ps a c] t, simplified]
  show ?case
  proof (cases q)
    case NotExist
    let ?m = "case en_joined (env a) of Some (r, c2) \<Rightarrow> (r, c2) | None \<Rightarrow> miss_body cfg (env a) k msg po ps c1"
    obtain r2 c2 where m: "?m = (r2, c2)" by (cases ?m)
    have c2: "coherent D c2 \<and> cache_ok c2 \<and> (\<forall>d. r2 = Inr d \<longrightarrow> d = D k)"
    proof (cases "en_joined (env a)")
      case None
      then show ?thesis using m miss_body_ok [of D c1 cfg env k msg po ps a r2 c2] td up by simp
    next
      case (Some rc)
      then have "en_joined (env a) = Some (r2, c2)" using m by (cases rc) simp
      then show ?thesis using upstreamD(2,3) [OF up] by blast
    qed
    show ?thesis
    proof (cases r2)
      case (Inl e)
      show ?thesis
      proof (cases "(err_canceled e \<or> is_transient_conn_err e \<and> \<not> en_pause_done (env a)) \<and> \<not> en_ctx_done (env a) \<and> a < 3")
        case True
        then have g: "get_loop cfg env k msg po ps (Suc a) c2 = (r, c')"
          using step m NotExist Inl by (simp split: if_splits)
        have "3 - Suc a < 3 - a" using True by arith
        from less(1) [OF this] c2 g show ?thesis by blast
      next
        case False
        then have "c' = c2 \<and> (\<exists>e. r = Inl e)" using step m NotExist Inl by (simp split: if_splits) blast+
        then show ?thesis using c2 by auto
      qed
    next
      case (Inr d)
      then show ?thesis using step m NotExist c2 by simp
    qed
  next
    case (ReadData d)
    then show ?thesis using step td promote_coherent promote_ok by auto
  qed (use step td in auto)
qed

lemma cache_get_ok:
  assumes "coherent D c" "cache_ok c" "upstream D cfg env k msg po ps" "cache_get cfg env k msg po ps c = (r, c')"
  shows "(\<forall>d. r = Inr d \<longrightarrow> d = D k) \<and> coherent D c' \<and> cache_ok c' \<and>
    di_total (dk_index c') \<le> di_cap (dk_index c')"
proof -
  let ?c = "c\<lparr>dk_mem := snd (mc_get k (dk_mem c))\<rparr>"
  have ok: "coherent D ?c" "cache_ok ?c"
    using assms(1,2) mem_ok_get by (auto simp: coherent_def cache_ok_def cache_has_def)
  have "coherent D c' \<and> cache_ok c' \<and> (\<forall>d. r = Inr d \<longrightarrow> d = D k)"
  proof (cases "mc_get k (dk_mem c)")
    case (Pair hit m)
    show ?thesis
    proof (cases hit)
      case None
      then show ?thesis using get_loop_ok [OF assms(3) ok, of 0 r c'] assms(4) Pair by (simp add: cache_get_def)
    next
      case (Some d)
      then have "mem_lookup (dk_mem c) k = Some d" using mc_get_fst [of k "dk_mem c"] Pair by simp
      then show ?thesis using assms(1,4) ok Some Pair by (auto simp: cache_get_def coherent_def)
    qed
  qed
  then show ?thesis by (simp add: cache_ok_def disk_ok_def)
qed

section \<open>Properties\<close>

text \<open>C37. The cache is transparent: over a coherent cache and an upstream whose wires decode to the chunk's
  content, \<open>Get\<close> returns either an error or exactly that content, from whichever tier, flight or
  retry it comes; it leaves the cache coherent, every index consistent and both tiers within
  their capacities.\<close>

theorem cache_get_transparent:
  assumes "coherent D c" "cache_ok c" "upstream D cfg env k msg po ps" "cache_get cfg env k msg po ps c = (r, c')"
  shows "(\<forall>d. r = Inr d \<longrightarrow> d = D k) \<and> coherent D c' \<and> cache_ok c' \<and>
    di_total (dk_index c') \<le> di_cap (dk_index c')"
  using cache_get_ok [OF assms] .

text \<open>A small instance: a channel that always answers with one wire, after a number of dropped connections.\<close>

definition demo_cfg :: cache_cfg where
  "demo_cfg = \<lparr>cg_aead = demo_aead, cg_zstd = demo_zstd, cg_cipher = NoopCipher, cg_codec = CodecNone\<rparr>"

definition demo_env :: "nat \<Rightarrow> nat \<Rightarrow> attempt_env" where
  "demo_env drops n = \<lparr>en_fetcher = WholeFetcher (\<lambda>_ _. if n < drops
       then Inl \<lparr>ge_canceled = False, ge_text = ''rpc: engine was closed''\<rparr> else Inr [1, 2, 3]),
     en_joined = None, en_read_err = \<lambda>_. None, en_write_err = \<lambda>_. None, en_ctx_done = False, en_pause_done = False\<rparr>"

definition demo_cache :: cache where
  "demo_cache = set_mem_cache (Some (new_mem_cache 100)) (new_cache 100 [] (\<lambda>_. None))"

lemma demo_cache_ok: "cache_ok demo_cache" "coherent D demo_cache"
  using new_mem_ok [of 100]
  by (auto simp: cache_ok_def coherent_def demo_cache_def set_mem_cache_def new_cache_def evict_locked_def di_evict_def
      evict_none disk_ok_def cache_has_def mem_lookup_def new_mem_cache_def)

lemma demo_upstream: "upstream (\<lambda>_. [1, 2, 3]) demo_cfg (demo_env drops) k msg 0 0"
  by (auto simp: upstream_def demo_env_def fetch_wire_def decode_wire_def demo_cfg_def cipher_open_def decompress_chunk_def split: if_splits)

theorem cache_get_transparent_witness:
  "coherent (\<lambda>_. [1, 2, 3]) (snd (cache_get demo_cfg (demo_env 2) (Key 5 0) 9 0 0 demo_cache)) \<and>
   fst (cache_get demo_cfg (demo_env 2) (Key 5 0) 9 0 0 demo_cache) \<noteq> Inr [7]"
  using cache_get_transparent [OF demo_cache_ok(2,1) demo_upstream [of 2 "Key 5 0" 9], of
      "fst (cache_get demo_cfg (demo_env 2) (Key 5 0) 9 0 0 demo_cache)" "snd (cache_get demo_cfg (demo_env 2) (Key 5 0) 9 0 0 demo_cache)"]
  by auto

text \<open>Up to three transport failures are invisible: while another caller's cancelled flight or a dying
  connection fails the first attempts and the context stays alive, \<open>Get\<close> retries, and the first
  attempt that decodes and stores, the fourth at the latest, gives its data; a fourth failure is
  the caller's error.\<close>

definition absorbable :: "cache_err \<Rightarrow> bool" where
  "absorbable e \<longleftrightarrow> err_canceled e \<or> is_transient_conn_err e"

lemma get_loop_miss:
  assumes "\<not> cache_has k c" "en_joined (env a) = None" "fetch_wire (en_fetcher (env a)) k msg po ps = Inl e"
    "absorbable e" "\<not> en_ctx_done (env a)" "\<not> en_pause_done (env a)"
  shows "get_loop cfg env k msg po ps a c =
    (if a < 3 then get_loop cfg env k msg po ps (a + 1) c else (Inl e, c))"
  using assms by (subst get_loop.simps) (auto simp: try_disk_def miss_body_def fetch_and_store_def absorbable_def)

lemma get_loop_hit:
  assumes "\<not> cache_has k c" "en_joined (env a) = None" "fetch_wire (en_fetcher (env a)) k msg po ps = Inr w"
    "decode_wire cfg k w = Inr d" "en_write_err (env a) k = None"
  shows "fst (get_loop cfg env k msg po ps a c) = Inr d"
  using assms
  by (subst get_loop.simps) (auto simp: try_disk_def miss_body_def fetch_and_store_def store_decoded_def Let_def split: prod.splits bool.splits)

lemma get_loop_retries:
  assumes "\<not> cache_has k c" "a \<le> j" "j \<le> 3"
    "\<forall>n. a \<le> n \<and> n < j \<longrightarrow> en_joined (env n) = None \<and> \<not> en_ctx_done (env n) \<and> \<not> en_pause_done (env n) \<and>
       (\<exists>e. fetch_wire (en_fetcher (env n)) k msg po ps = Inl e \<and> absorbable e)"
  shows "get_loop cfg env k msg po ps a c = get_loop cfg env k msg po ps j c"
  using assms(2-4)
proof (induction "j - a" arbitrary: a)
  case (Suc x)
  then have lt: "a < j" by simp
  then obtain e where "fetch_wire (en_fetcher (env a)) k msg po ps = Inl e" "absorbable e"
    "en_joined (env a) = None" "\<not> en_ctx_done (env a)" "\<not> en_pause_done (env a)"
    using Suc.prems by blast
  then have "get_loop cfg env k msg po ps a c = get_loop cfg env k msg po ps (a + 1) c"
    using get_loop_miss [of k c env a msg po ps e cfg] assms(1) lt Suc.prems(2) by simp
  also have "\<dots> = get_loop cfg env k msg po ps j c"
    by (rule Suc.hyps(1)) (use Suc lt in auto)
  finally show ?case .
qed simp

theorem cache_get_absorbs_failures:
  assumes "\<not> cache_has k c" "mem_lookup (dk_mem c) k = None" "j \<le> 3"
    "\<forall>n<j. en_joined (env n) = None \<and> \<not> en_ctx_done (env n) \<and> \<not> en_pause_done (env n) \<and>
       (\<exists>e. fetch_wire (en_fetcher (env n)) k msg po ps = Inl e \<and> absorbable e)"
    "en_joined (env j) = None"
  shows "(\<forall>w d. fetch_wire (en_fetcher (env j)) k msg po ps = Inr w \<and> decode_wire cfg k w = Inr d \<and>
       en_write_err (env j) k = None \<longrightarrow> fst (cache_get cfg env k msg po ps c) = Inr d) \<and>
    (\<forall>e. j = 3 \<and> fetch_wire (en_fetcher (env j)) k msg po ps = Inl e \<longrightarrow> fst (cache_get cfg env k msg po ps c) = Inl e)"
proof -
  obtain m where m: "mc_get k (dk_mem c) = (None, m)" using mc_get_fst [of k "dk_mem c"] assms(2) by (cases "mc_get k (dk_mem c)") auto
  let ?c = "c\<lparr>dk_mem := m\<rparr>"
  have has: "\<not> cache_has k ?c" using assms(1) by (simp add: cache_has_def)
  have run: "cache_get cfg env k msg po ps c = get_loop cfg env k msg po ps j ?c"
    using get_loop_retries [OF has, of 0 j env msg po ps cfg] assms(3,4) m by (simp add: cache_get_def)
  have "fst (get_loop cfg env k msg po ps j ?c) = Inl e"
    if "j = 3" "fetch_wire (en_fetcher (env j)) k msg po ps = Inl e" for e
    using that has assms(5) by (subst get_loop.simps) (auto simp: try_disk_def miss_body_def fetch_and_store_def)
  then show ?thesis unfolding run using get_loop_hit [of k ?c env j, OF has assms(5)] by blast
qed

theorem cache_get_absorbs_failures_witness:
  "fst (cache_get demo_cfg (demo_env 3) (Key 5 0) 9 0 0 demo_cache) = Inr [1, 2, 3]"
proof -
  have has: "\<not> cache_has (Key 5 0) demo_cache" "mem_lookup (dk_mem demo_cache) (Key 5 0) = None" by code_simp+
  have marker: "contains ''rpc: engine was closed'' ''engine was closed''" by code_simp
  then have "absorbable (FetchErr \<lparr>ge_canceled = False, ge_text = ''rpc: engine was closed''\<rparr>)"
    by (simp add: absorbable_def is_transient_conn_err_def)
  then have "\<forall>n<3. en_joined (demo_env 3 n) = None \<and> \<not> en_ctx_done (demo_env 3 n) \<and> \<not> en_pause_done (demo_env 3 n) \<and>
       (\<exists>e. fetch_wire (en_fetcher (demo_env 3 n)) (Key 5 0) 9 0 0 = Inl e \<and> absorbable e)"
    by (simp add: demo_env_def fetch_wire_def)
  moreover have "fetch_wire (en_fetcher (demo_env 3 3)) (Key 5 0) 9 0 0 = Inr [1, 2, 3]"
    "decode_wire demo_cfg (Key 5 0) [1, 2, 3] = Inr [1, 2, 3]" "en_joined (demo_env 3 3) = None" "en_write_err (demo_env 3 3) (Key 5 0) = None"
    by (simp_all add: demo_env_def fetch_wire_def decode_wire_def demo_cfg_def cipher_open_def decompress_chunk_def)
  ultimately show ?thesis
    using cache_get_absorbs_failures [OF has order_refl, of "demo_env 3" 9 0 0 demo_cfg] by blast
qed

text \<open>After \<open>Invalidate\<close> a chunk can be overwritten: no tier holds the old content any more, so the cache is
  coherent with whatever the new content is.\<close>

lemma mem_invalidate_lookup:
  "mem_lookup (snd (mc_invalidate k om)) j = (if j = k then None else mem_lookup om j)"
  by (auto simp: mem_lookup_def mc_invalidate_def split: option.splits)

lemma mem_invalidate_ok: "(\<forall>m. om = Some m \<longrightarrow> mem_ok m) \<Longrightarrow> snd (mc_invalidate k om) = Some m \<Longrightarrow> mem_ok m"
  using mem_del_ok [of "the om" k] by (cases om) (simp add: mc_invalidate_def, simp add: mem_del_def)

theorem invalidate_forgets:
  assumes "coherent D c" "cache_ok c"
  shows "coherent (D(k := fresh)) (snd (cache_invalidate k c)) \<and> cache_ok (snd (cache_invalidate k c)) \<and>
    (\<forall>cfg env msg po ps. cache_get cfg env k msg po ps (snd (cache_invalidate k c)) =
       get_loop cfg env k msg po ps 0 (snd (cache_invalidate k c))) \<and>
    (\<forall>E. fst (try_disk E k (snd (cache_invalidate k c))) = NotExist)"
proof -
  let ?c = "snd (cache_invalidate k c)"
  have mem: "mem_lookup (dk_mem ?c) j = (if j = k then None else mem_lookup (dk_mem c) j)" for j
    by (simp add: cache_invalidate_def Let_def mem_invalidate_lookup)
  have has: "cache_has j ?c \<longleftrightarrow> j \<noteq> k \<and> cache_has j c" for j
    by (auto simp: cache_invalidate_def Let_def cache_has_def di_drop_def split: option.splits)
  have files: "j \<noteq> k \<Longrightarrow> dk_files ?c j = dk_files c j" for j by (simp add: cache_invalidate_def Let_def)
  have "coherent (D(k := fresh)) ?c" using assms(1) mem has files by (auto simp: coherent_def)
  moreover have "disk_ok (dk_index ?c)" using assms(2) di_drop_ok by (simp add: cache_ok_def cache_invalidate_def Let_def)
  then have "cache_ok ?c"
    using assms(2) mem_invalidate_ok by (auto simp: cache_ok_def cache_invalidate_def Let_def split: if_splits)
  moreover have "mc_get k (dk_mem ?c) = (None, dk_mem ?c)"
    using mem [of k] by (auto simp: mem_lookup_def mc_get_def split: option.splits)
  ultimately show ?thesis using has [of k] by (simp add: cache_get_def try_disk_def)
qed

definition demo_warm :: cache where
  "demo_warm = snd (store_decoded (demo_env 0 0) (Key 5 0) [1, 2, 3] demo_cache)"

lemma demo_warm_ok: "coherent (\<lambda>_. [1, 2, 3]) demo_warm" "cache_ok demo_warm"
  using store_decoded_ok [OF demo_cache_ok(2,1), of "[1, 2, 3]" "\<lambda>_. [1, 2, 3]" "Key 5 0" "demo_env 0 0"]
  by (metis demo_warm_def prod.collapse)+

theorem invalidate_forgets_witness:
  "coherent ((\<lambda>_. [1, 2, 3])(Key 5 0 := [4])) (snd (cache_invalidate (Key 5 0) demo_warm))"
  using invalidate_forgets [OF demo_warm_ok] by blast

text \<open>A read that races an overwrite leaves stale data behind: if a hit has read the old file, or a miss
  has decoded the old wire, when the overwrite invalidates the chunk, the reader's late
  promotion or store puts the old bytes back, and from then on \<open>Get\<close> serves them whatever the
  upstream holds.\<close>

theorem late_promotion_is_stale:
  assumes "cache_ok c" "dk_mem c = Some m" "d \<noteq> []" "blen d \<le> mc_cap m"
    "en_write_err E k = None"
  shows "fst (cache_get cfg env k msg po ps (promote k d (snd (cache_invalidate k c)))) = Inr d \<and>
    fst (cache_get cfg env k msg po ps (snd (store_decoded E k d (snd (cache_invalidate k c))))) = Inr d"
proof -
  let ?c = "snd (cache_invalidate k c)"
  let ?m = "mem_del k m"
  have memc: "dk_mem ?c = Some ?m"
    using assms(2) by (auto simp: cache_invalidate_def Let_def mem_del_def mc_invalidate_def split: option.splits)
  have ok: "mem_ok ?m" using assms(1,2) mem_del_ok by (auto simp: cache_ok_def)
  have capm: "mc_cap ?m = mc_cap m" by (auto simp: mem_del_def mc_invalidate_def split: option.splits)
  obtain gone where g: "(k, d) # without k (mc_order ?m) = mc_order (mem_add k d ?m) @ gone"
    "gone \<noteq> [] \<longrightarrow> mc_cap ?m < weight blen (mc_order (mem_add k d ?m) @ [hd gone])"
    using mem_add_spec [OF ok assms(3), of k] by blast
  have kept: "map_of (mc_order (mem_add k d ?m)) k = Some d"
  proof (cases "mc_order (mem_add k d ?m)")
    case Nil
    then have "gone = (k, d) # without k (mc_order ?m)" using g(1) by simp
    then show ?thesis using g(2) Nil assms(4) capm by simp
  next
    case (Cons x xs)
    then show ?thesis using g(1) by auto
  qed
  have served: "fst (cache_get cfg env k msg po ps x) = Inr d" if "dk_mem x = Some (mem_add k d ?m)" for x
    using that kept by (simp add: cache_get_def mc_get_def)
  have absent: "map_of (di_order (dk_index ?c)) k = None"
    by (auto simp: cache_invalidate_def Let_def cache_has_def di_drop_def split: option.splits)
  obtain i ks where "di_insert k (blen d) (dk_index ?c) = (True, i, ks)"
    using absent by (cases "di_evict ((dk_index ?c)\<lparr>di_order := (k, blen d) # di_order (dk_index ?c), di_total := di_total (dk_index ?c) + blen d\<rparr>)")
      (auto simp: di_insert_def)
  then have "dk_mem (snd (store_decoded E k d ?c)) = Some (mem_add k d ?m)"
    using assms(5) memc by (simp add: store_decoded_def Let_def promote_def mc_put_some)
  then show ?thesis using served by (simp add: promote_def memc mc_put_some)
qed

theorem late_promotion_is_stale_witness:
  "fst (try_disk (demo_env 0 0) (Key 5 0) demo_warm) = ReadData [1, 2, 3] \<and>
   fst (cache_get demo_cfg (demo_env 0) (Key 5 0) 9 0 0 (promote (Key 5 0) [1, 2, 3] (snd (cache_invalidate (Key 5 0) demo_warm)))) = Inr [1, 2, 3]"
proof
  show "fst (try_disk (demo_env 0 0) (Key 5 0) demo_warm) = ReadData [1, 2, 3]" by code_simp
  have "map_option mc_cap (dk_mem demo_warm) = Some 100" by code_simp
  then obtain m where m: "dk_mem demo_warm = Some m" "mc_cap m = 100" by auto
  have "en_write_err (demo_env 0 0) (Key 5 0) = None" by (simp add: demo_env_def)
  then show "fst (cache_get demo_cfg (demo_env 0) (Key 5 0) 9 0 0 (promote (Key 5 0) [1, 2, 3] (snd (cache_invalidate (Key 5 0) demo_warm)))) = Inr [1, 2, 3]"
    using late_promotion_is_stale [OF demo_warm_ok(2) m(1), of "[1, 2, 3]" "demo_env 0 0" "Key 5 0"] m(2) by (simp add: blen_def)
qed

end
