(* ===== verification/Packer.thy ===== *)
theory Packer
  imports Cache Retry "HOL-Library.Multiset"
begin

text \<open>
  The packer of \<open>internal/chunk/packer.go\<close>: small wires are aggregated into one message and every
  chunk row gets its extent.  A result channel is a number; \<open>pw_results\<close> lists what was delivered
  on which channel, None being a close without a result.  The outcome of the upload of a blob
  and of a failing database are parameters of a flush.
\<close>

section \<open>State\<close>

definition DefaultPackThreshold :: int where "DefaultPackThreshold = 262144"
definition DefaultPackTarget :: int where "DefaultPackTarget = 33554432"

record pack_req =
  pr_ino :: int
  pr_idx :: int
  pr_size :: int
  pr_wire :: bytes
  pr_path :: string
  pr_chan :: nat

datatype pack_err = PackUploadErr string | PackPutErr meta_err

datatype pack_result = PackLanded int int | PackFailed pack_err

record packer =
  pk_threshold :: int
  pk_target :: int
  pk_pending :: "pack_req list"
  pk_buf :: int
  pk_wake :: bool
  pk_stop :: bool
  pk_done :: bool
  pk_next :: nat

record pack_world =
  pw_packer :: packer
  pw_store :: store
  pw_dir :: dirmap
  pw_index :: pindex
  pw_results :: "(nat \<times> pack_result option) list"

definition new_packer :: "int \<Rightarrow> int \<Rightarrow> packer" where
  "new_packer threshold target =
     \<lparr>pk_threshold = (if threshold \<le> 0 then DefaultPackThreshold else threshold),
      pk_target = (if target \<le> 0 then DefaultPackTarget else target),
      pk_pending = [], pk_buf = 0, pk_wake = False, pk_stop = False, pk_done = False, pk_next = 0\<rparr>"

definition queue_depth :: "packer \<Rightarrow> nat \<times> int" where
  "queue_depth p = (length (pk_pending p), pk_buf p)"

section \<open>Submit and DropInode\<close>

definition submit :: "int \<Rightarrow> int \<Rightarrow> int \<Rightarrow> bytes \<Rightarrow> string \<Rightarrow> packer \<Rightarrow> nat \<times> packer" where
  "submit ino idx plain_size wire path p =
     (let req = \<lparr>pr_ino = ino, pr_idx = idx, pr_size = plain_size, pr_wire = wire, pr_path = path, pr_chan = pk_next p\<rparr>;
          p1 = p\<lparr>pk_pending := pk_pending p @ [req], pk_buf := pk_buf p + blen wire, pk_next := pk_next p + 1\<rparr>
      in (pk_next p, if pk_buf p1 \<ge> pk_target p1 then p1\<lparr>pk_wake := True\<rparr> else p1))"

definition unstage :: "pack_req \<Rightarrow> pack_world \<Rightarrow> pack_world" where
  "unstage r w =
     (let d = (if pr_path r \<noteq> [] then delete_pending (pr_path r) (pw_dir w) else pw_dir w)
      in w\<lparr>pw_dir := d, pw_index := unrecord_persist (pr_ino r) (pr_idx r) (pw_index w)\<rparr>)"

definition deliver :: "pack_req \<Rightarrow> pack_result option \<Rightarrow> pack_world \<Rightarrow> pack_world" where
  "deliver r x w = w\<lparr>pw_results := (pr_chan r, x) # pw_results w\<rparr>"

definition wire_sum :: "pack_req list \<Rightarrow> int" where
  "wire_sum rs = sum_list (map (blen \<circ> pr_wire) rs)"

definition drop_inode :: "int \<Rightarrow> pack_world \<Rightarrow> nat \<times> pack_world" where
  "drop_inode ino w =
     (let p = pw_packer w;
          dropped = filter (\<lambda>r. pr_ino r = ino) (pk_pending p);
          kept = filter (\<lambda>r. pr_ino r \<noteq> ino) (pk_pending p);
          w1 = w\<lparr>pw_packer := p\<lparr>pk_pending := kept, pk_buf := pk_buf p - wire_sum dropped\<rparr>\<rparr>
      in (length dropped, fold (\<lambda>r x. deliver r None (unstage r x)) dropped w1))"

section \<open>Flush\<close>

text \<open>The prefix of the queue one flush takes: the first wire always, then while the target is not exceeded.\<close>

fun take_more :: "int \<Rightarrow> int \<Rightarrow> pack_req list \<Rightarrow> pack_req list \<times> pack_req list" where
  "take_more target got [] = ([], [])"
| "take_more target got (r # rs) =
     (if got + blen (pr_wire r) > target then ([], r # rs)
      else (case take_more target (got + blen (pr_wire r)) rs of (b, rest) \<Rightarrow> (r # b, rest)))"

fun take_batch :: "int \<Rightarrow> pack_req list \<Rightarrow> pack_req list \<times> pack_req list" where
  "take_batch target [] = ([], [])"
| "take_batch target (r # rs) = (case take_more target (blen (pr_wire r)) rs of (b, rest) \<Rightarrow> (r # b, rest))"

fun offsets_from :: "int \<Rightarrow> pack_req list \<Rightarrow> int list" where
  "offsets_from off [] = []"
| "offsets_from off (r # rs) = off # offsets_from (off + blen (pr_wire r)) rs"

definition blob_of :: "pack_req list \<Rightarrow> bytes" where
  "blob_of rs = concat (map pr_wire rs)"

definition chunk_of_req :: "int \<Rightarrow> int \<Rightarrow> pack_req \<Rightarrow> chunk" where
  "chunk_of_req msg off r = \<lparr>ch_ino = pr_ino r, ch_idx = pr_idx r, ch_msg = msg, ch_size = pr_size r,
     ch_pack_offset = off, ch_pack_size = to_int32 (blen (pr_wire r))\<rparr>"

text \<open>One chunk row of the batch; \<open>db r\<close> is an error of the database other than a missing inode.\<close>

definition commit_one :: "(pack_req \<Rightarrow> meta_err option) \<Rightarrow> int \<Rightarrow> pack_req \<Rightarrow> int \<Rightarrow> pack_world \<Rightarrow> pack_world" where
  "commit_one db msg r off w =
     (case (case db r of Some e \<Rightarrow> (Inl e, pw_store w) | None \<Rightarrow> put_chunk (chunk_of_req msg off r) (pw_store w)) of
        (Inl e, s) \<Rightarrow>
          if e = ErrForeignKey then deliver r None (unstage r (w\<lparr>pw_store := s\<rparr>))
          else deliver r (Some (PackFailed (PackPutErr e))) (w\<lparr>pw_store := s\<rparr>)
      | (Inr _, s) \<Rightarrow> deliver r (Some (PackLanded msg off)) (unstage r (w\<lparr>pw_store := s\<rparr>)))"

fun commit_all :: "(pack_req \<Rightarrow> meta_err option) \<Rightarrow> int \<Rightarrow> (pack_req \<times> int) list \<Rightarrow> pack_world \<Rightarrow> pack_world" where
  "commit_all db msg [] w = w"
| "commit_all db msg ((r, off) # rs) w = commit_all db msg rs (commit_one db msg r off w)"

definition flush :: "(bytes \<Rightarrow> string + int) \<Rightarrow> (pack_req \<Rightarrow> meta_err option) \<Rightarrow> pack_world \<Rightarrow> pack_world" where
  "flush up db w =
     (let p = pw_packer w in
      if pk_pending p = [] then w
      else (case take_batch (pk_target p) (pk_pending p) of (batch, rest) \<Rightarrow>
        let p1 = p\<lparr>pk_pending := rest, pk_buf := pk_buf p - wire_sum batch,
                   pk_wake := (if rest \<noteq> [] then True else pk_wake p)\<rparr>;
            w1 = w\<lparr>pw_packer := p1\<rparr>
        in (case up (blob_of batch) of
              Inl e \<Rightarrow> fold (\<lambda>r. deliver r (Some (PackFailed (PackUploadErr e)))) batch w1
            | Inr msg \<Rightarrow> commit_all db msg (zip batch (offsets_from 0 batch)) w1)))"

section \<open>The flusher goroutine\<close>

definition close_packer :: "packer \<Rightarrow> packer" where
  "close_packer p = p\<lparr>pk_stop := True\<rparr>"

text \<open>The three branches of the select: the window timer, the wake token, the stop channel.\<close>

definition loop_timer :: "(bytes \<Rightarrow> string + int) \<Rightarrow> (pack_req \<Rightarrow> meta_err option) \<Rightarrow> pack_world \<Rightarrow> pack_world" where
  "loop_timer up db w = flush up db w"

definition loop_wake :: "(bytes \<Rightarrow> string + int) \<Rightarrow> (pack_req \<Rightarrow> meta_err option) \<Rightarrow> pack_world \<Rightarrow> pack_world" where
  "loop_wake up db w = flush up db (w\<lparr>pw_packer := (pw_packer w)\<lparr>pk_wake := False\<rparr>\<rparr>)"

definition loop_stop :: "(bytes \<Rightarrow> string + int) \<Rightarrow> (pack_req \<Rightarrow> meta_err option) \<Rightarrow> pack_world \<Rightarrow> pack_world" where
  "loop_stop up db w = (let w1 = flush up db w in w1\<lparr>pw_packer := (pw_packer w1)\<lparr>pk_done := True\<rparr>\<rparr>)"

inductive packer_step :: "pack_world \<Rightarrow> pack_world \<Rightarrow> bool" where
  ps_submit: "packer_step w (w\<lparr>pw_packer := snd (submit ino idx sz wire path (pw_packer w))\<rparr>)"
| ps_drop: "packer_step w (snd (drop_inode ino w))"
| ps_close: "packer_step w (w\<lparr>pw_packer := close_packer (pw_packer w)\<rparr>)"
| ps_timer: "\<not> pk_done (pw_packer w) \<Longrightarrow> packer_step w (loop_timer up db w)"
| ps_wake: "\<not> pk_done (pw_packer w) \<Longrightarrow> pk_wake (pw_packer w) \<Longrightarrow> packer_step w (loop_wake up db w)"
| ps_stop: "\<not> pk_done (pw_packer w) \<Longrightarrow> pk_stop (pw_packer w) \<Longrightarrow> packer_step w (loop_stop up db w)"

inductive packer_reachable :: "pack_world \<Rightarrow> bool" where
  pr_init: "packer_reachable \<lparr>pw_packer = new_packer th tg, pw_store = s, pw_dir = d, pw_index = i, pw_results = []\<rparr>"
| pr_step: "packer_reachable w \<Longrightarrow> packer_step w w' \<Longrightarrow> packer_reachable w'"

section \<open>Batches\<close>

lemma wire_sum_simps [simp]: "wire_sum [] = 0" "wire_sum (r # rs) = blen (pr_wire r) + wire_sum rs"
  "wire_sum (rs @ ts) = wire_sum rs + wire_sum ts"
  by (simp_all add: wire_sum_def)

lemma take_more_spec:
  "take_more target got rs = (b, rest) \<Longrightarrow> rs = b @ rest \<and> (b \<noteq> [] \<longrightarrow> got + wire_sum b \<le> target) \<and>
    (rest \<noteq> [] \<longrightarrow> target < got + wire_sum b + blen (pr_wire (hd rest)))"
proof (induction target got rs arbitrary: b rest rule: take_more.induct)
  case (2 target got r rs)
  show ?case
  proof (cases "got + blen (pr_wire r) > target")
    case False
    obtain b' where b': "take_more target (got + blen (pr_wire r)) rs = (b', rest)" "b = r # b'"
      using 2(2) False by (auto split: prod.splits)
    from 2(1) [OF False b'(1)] False b'(2) show ?thesis by (cases b') (auto simp: algebra_simps)
  qed (use 2(2) in auto)
qed simp

lemma take_batch_spec:
  assumes "take_batch target rs = (b, rest)" "rs \<noteq> []"
  shows "rs = b @ rest" "b \<noteq> []" "length b = 1 \<or> wire_sum b \<le> target"
    "rest \<noteq> [] \<Longrightarrow> target < wire_sum b + blen (pr_wire (hd rest))"
proof -
  obtain r ts where rs: "rs = r # ts" using assms(2) by (cases rs) auto
  obtain b' where b': "take_more target (blen (pr_wire r)) ts = (b', rest)" "b = r # b'"
    using assms(1) rs by (auto split: prod.splits)
  note m = take_more_spec [OF b'(1)]
  show "rs = b @ rest" "b \<noteq> []" using m rs b' by auto
  show "length b = 1 \<or> wire_sum b \<le> target" using m b' by (cases b') auto
  show "rest \<noteq> [] \<Longrightarrow> target < wire_sum b + blen (pr_wire (hd rest))" using m b' by simp
qed

lemma offsets_length [simp]: "length (offsets_from off rs) = length rs"
  by (induction rs arbitrary: off) auto

lemma offsets_nth: "i < length rs \<Longrightarrow> offsets_from off rs ! i = off + wire_sum (take i rs)"
proof (induction rs arbitrary: off i)
  case (Cons r rs)
  then show ?case by (cases i) (auto simp: Cons.IH)
qed simp

lemma blen_blob: "blen (blob_of rs) = wire_sum rs"
  by (induction rs) (auto simp: blob_of_def blen_def)

lemma wire_sum_nonneg: "0 \<le> wire_sum rs"
  by (induction rs) (auto simp: blen_def)

text \<open>The extent of a wire in the blob cuts out that wire.\<close>

lemma blob_slice:
  assumes "i < length rs"
  shows "take (length (pr_wire (rs ! i))) (drop (nat (offsets_from 0 rs ! i)) (blob_of rs)) = pr_wire (rs ! i)"
proof -
  have split: "blob_of rs = blob_of (take i rs) @ pr_wire (rs ! i) @ blob_of (drop (Suc i) rs)"
    by (subst id_take_nth_drop [OF assms]) (simp add: blob_of_def)
  have "nat (offsets_from 0 rs ! i) = length (blob_of (take i rs))"
    using offsets_nth [OF assms, of 0] blen_blob [of "take i rs"] by (simp add: blen_def)
  then show ?thesis by (subst split) simp
qed

lemma blob_bound: "i < length rs \<Longrightarrow> offsets_from 0 rs ! i + blen (pr_wire (rs ! i)) \<le> blen (blob_of rs)"
proof -
  assume i: "i < length rs"
  have "blob_of rs = blob_of (take i rs) @ pr_wire (rs ! i) @ blob_of (drop (Suc i) rs)"
    by (subst id_take_nth_drop [OF i]) (simp add: blob_of_def)
  then have "blen (blob_of rs) = wire_sum (take i rs) + blen (pr_wire (rs ! i)) + wire_sum (drop (Suc i) rs)"
    by (simp add: blen_def flip: blen_blob)
  then show ?thesis using offsets_nth [OF i, of 0] wire_sum_nonneg [of "drop (Suc i) rs"] by simp
qed

section \<open>Conservation of requests\<close>

definition chans :: "pack_req list \<Rightarrow> nat multiset" where
  "chans rs = mset (map pr_chan rs)"

definition answered :: "pack_world \<Rightarrow> nat multiset" where
  "answered w = mset (map fst (pw_results w))"

definition packer_ok :: "pack_world \<Rightarrow> bool" where
  "packer_ok w \<longleftrightarrow> pk_buf (pw_packer w) = wire_sum (pk_pending (pw_packer w)) \<and>
     chans (pk_pending (pw_packer w)) + answered w = mset [0..<pk_next (pw_packer w)]"

lemma unstage_simps [simp]: "pw_packer (unstage r w) = pw_packer w" "pw_results (unstage r w) = pw_results w"
  "pw_store (unstage r w) = pw_store w"
  by (simp_all add: unstage_def Let_def)

lemma deliver_simps [simp]: "pw_packer (deliver r x w) = pw_packer w" "pw_store (deliver r x w) = pw_store w"
  "answered (deliver r x w) = add_mset (pr_chan r) (answered w)"
  "pw_results (deliver r x w) = (pr_chan r, x) # pw_results w"
  by (simp_all add: deliver_def answered_def)

lemma answered_unstage [simp]: "answered (unstage r w) = answered w" "answered (w\<lparr>pw_packer := p\<rparr>) = answered w"
  "answered (w\<lparr>pw_store := s\<rparr>) = answered w"
  by (simp_all add: answered_def)

lemma commit_one_simps [simp]: "pw_packer (commit_one db msg r off w) = pw_packer w"
  "answered (commit_one db msg r off w) = add_mset (pr_chan r) (answered w)"
  by (auto simp: commit_one_def split: prod.splits sum.splits option.splits)

lemma commit_all_simps: "pw_packer (commit_all db msg rs w) = pw_packer w"
  "answered (commit_all db msg rs w) = chans (map fst rs) + answered w"
  by (induction db msg rs w rule: commit_all.induct) (auto simp: chans_def)

lemma fold_deliver: "pw_packer (fold (\<lambda>r. deliver r x) rs w) = pw_packer w"
  "answered (fold (\<lambda>r. deliver r x) rs w) = chans rs + answered w"
  by (induction rs arbitrary: w) (auto simp: chans_def)

lemma fold_drop: "pw_packer (fold (\<lambda>r x. deliver r None (unstage r x)) rs w) = pw_packer w"
  "answered (fold (\<lambda>r x. deliver r None (unstage r x)) rs w) = chans rs + answered w"
  by (induction rs arbitrary: w) (auto simp: chans_def)

lemma map_fst_zip_offsets [simp]: "map fst (zip rs (offsets_from off rs)) = rs"
  by (simp add: map_fst_zip)

text \<open>A flush of a non-empty queue answers one batch and keeps the rest.\<close>

lemma flush_effect:
  assumes "pk_pending (pw_packer w) \<noteq> []" "take_batch (pk_target (pw_packer w)) (pk_pending (pw_packer w)) = (batch, rest)"
  shows "pk_pending (pw_packer (flush up db w)) = rest"
    "pk_buf (pw_packer (flush up db w)) = pk_buf (pw_packer w) - wire_sum batch"
    "pk_next (pw_packer (flush up db w)) = pk_next (pw_packer w)"
    "pk_target (pw_packer (flush up db w)) = pk_target (pw_packer w)"
    "pk_done (pw_packer (flush up db w)) = pk_done (pw_packer w)"
    "answered (flush up db w) = chans batch + answered w"
  using assms by (auto simp: flush_def Let_def commit_all_simps fold_deliver split: sum.splits)

lemma flush_ok: "packer_ok w \<Longrightarrow> packer_ok (flush up db w)"
proof (cases "pk_pending (pw_packer w) = []")
  case False
  assume ok: "packer_ok w"
  obtain batch rest where b: "take_batch (pk_target (pw_packer w)) (pk_pending (pw_packer w)) = (batch, rest)"
    by (cases "take_batch (pk_target (pw_packer w)) (pk_pending (pw_packer w))")
  have "chans (pk_pending (pw_packer w)) = chans batch + chans rest" "wire_sum (pk_pending (pw_packer w)) = wire_sum batch + wire_sum rest"
    using take_batch_spec(1) [OF b False] by (simp_all add: chans_def)
  then show ?thesis using ok flush_effect [OF False b, of up db] by (simp add: packer_ok_def ac_simps)
qed (simp add: flush_def)

lemma chans_filter: "chans (filter P rs) + chans (filter (\<lambda>r. \<not> P r) rs) = chans rs"
  by (induction rs) (auto simp: chans_def)

lemma wire_sum_filter: "wire_sum (filter P rs) + wire_sum (filter (\<lambda>r. \<not> P r) rs) = wire_sum rs"
  by (induction rs) auto

lemma drop_ok: "packer_ok w \<Longrightarrow> packer_ok (snd (drop_inode ino w))"
  using chans_filter [of "\<lambda>r. pr_ino r = ino" "pk_pending (pw_packer w)"]
    wire_sum_filter [of "\<lambda>r. pr_ino r = ino" "pk_pending (pw_packer w)"]
  by (auto simp: packer_ok_def drop_inode_def Let_def fold_drop ac_simps)

lemma submit_ok: "packer_ok w \<Longrightarrow> packer_ok (w\<lparr>pw_packer := snd (submit ino idx sz wire path (pw_packer w))\<rparr>)"
  by (auto simp: packer_ok_def submit_def Let_def chans_def answered_def ac_simps atLeast0_lessThan_Suc)

lemma packer_ok_flags:
  "packer_ok (w\<lparr>pw_packer := (pw_packer w)\<lparr>pk_wake := b\<rparr>\<rparr>) = packer_ok w"
  "packer_ok (w\<lparr>pw_packer := (pw_packer w)\<lparr>pk_done := b\<rparr>\<rparr>) = packer_ok w"
  "packer_ok (w\<lparr>pw_packer := (pw_packer w)\<lparr>pk_stop := b\<rparr>\<rparr>) = packer_ok w"
  by (simp_all add: packer_ok_def answered_def)

lemma packer_step_ok: "packer_step w w' \<Longrightarrow> packer_ok w \<Longrightarrow> packer_ok w'"
  by (induction rule: packer_step.induct)
    (simp_all add: submit_ok drop_ok flush_ok loop_timer_def loop_wake_def loop_stop_def close_packer_def packer_ok_flags Let_def)

lemma packer_reachable_ok: "packer_reachable w \<Longrightarrow> packer_ok w"
proof (induction rule: packer_reachable.induct)
  case (pr_init th tg s d i)
  then show ?case by (simp add: packer_ok_def new_packer_def chans_def answered_def)
qed (rule packer_step_ok)

section \<open>The rows of a batch\<close>

abbreviation slot :: "pack_req \<Rightarrow> int \<times> int" where "slot r \<equiv> (pr_ino r, pr_idx r)"

lemma put_chunk_store:
  "snd (put_chunk c s) = (if has_inode s (ch_ino c)
     then s\<lparr>st_chunks := upsert ckey (row_of_chunk c) (st_chunks s), st_write_ctr := st_write_ctr s + 1\<rparr> else s)"
  by (simp add: put_chunk_effect put_chunk_no_inode)

lemma commit_one_inodes [simp]: "has_inode (pw_store (commit_one db msg r off w)) i = has_inode (pw_store w) i"
  by (cases "db r"; cases "has_inode (pw_store w) (pr_ino r)")
    (auto simp: commit_one_def chunk_of_req_def put_chunk_effect put_chunk_no_inode has_inode_def)

lemma commit_one_other:
  "slot r \<noteq> (i, j) \<Longrightarrow> get_chunk i j (pw_store (commit_one db msg r off w)) = get_chunk i j (pw_store w)"
  by (cases "db r"; cases "has_inode (pw_store w) (pr_ino r)")
    (auto simp: commit_one_def chunk_of_req_def put_chunk_effect put_chunk_no_inode get_chunk_def row_at_upsert row_of_chunk_def)

lemma commit_one_own:
  assumes "db r = None" "has_inode (pw_store w) (pr_ino r)" "to_int32 (blen (pr_wire r)) \<noteq> 0"
  shows "get_chunk (pr_ino r) (pr_idx r) (pw_store (commit_one db msg r off w)) = Inr (chunk_of_req msg off r)"
    "(pr_chan r, Some (PackLanded msg off)) \<in> set (pw_results (commit_one db msg r off w))"
  using assms
  by (simp_all add: commit_one_def chunk_of_req_def put_chunk_effect get_chunk_def row_at_upsert row_of_chunk_def
      chunk_of_row_def nullable_pack_fields_def)

lemma commit_all_inodes [simp]: "has_inode (pw_store (commit_all db msg rs w)) i = has_inode (pw_store w) i"
  by (induction db msg rs w rule: commit_all.induct) auto

lemma commit_all_other:
  "(i, j) \<notin> slot ` fst ` set rs \<Longrightarrow> get_chunk i j (pw_store (commit_all db msg rs w)) = get_chunk i j (pw_store w)"
  by (induction db msg rs w rule: commit_all.induct) (auto simp: commit_one_other)

lemma commit_one_results: "set (pw_results w) \<subseteq> set (pw_results (commit_one db msg r off w))"
  by (auto simp: commit_one_def split: prod.splits sum.splits option.splits)

lemma commit_all_results: "set (pw_results w) \<subseteq> set (pw_results (commit_all db msg rs w))"
  by (induction db msg rs w rule: commit_all.induct) (use commit_one_results in fastforce)+

lemma commit_all_append: "commit_all db msg (xs @ ys) w = commit_all db msg ys (commit_all db msg xs w)"
  by (induction db msg xs w rule: commit_all.induct) auto

lemma commit_all_at:
  assumes "i < length rs" "db (fst (rs ! i)) = None" "has_inode (pw_store w) (pr_ino (fst (rs ! i)))"
    "to_int32 (blen (pr_wire (fst (rs ! i)))) \<noteq> 0" "\<forall>j. i < j \<and> j < length rs \<longrightarrow> slot (fst (rs ! j)) \<noteq> slot (fst (rs ! i))"
  shows "get_chunk (pr_ino (fst (rs ! i))) (pr_idx (fst (rs ! i))) (pw_store (commit_all db msg rs w)) =
      Inr (chunk_of_req msg (snd (rs ! i)) (fst (rs ! i)))"
    "(pr_chan (fst (rs ! i)), Some (PackLanded msg (snd (rs ! i)))) \<in> set (pw_results (commit_all db msg rs w))"
proof -
  obtain r off where ri: "rs ! i = (r, off)" by (cases "rs ! i")
  let ?w = "commit_all db msg (take i rs) w"
  have split: "commit_all db msg rs w = commit_all db msg (drop (Suc i) rs) (commit_one db msg r off ?w)"
    by (subst id_take_nth_drop [OF assms(1)]) (simp add: commit_all_append ri)
  have "slot r \<notin> slot ` fst ` set (drop (Suc i) rs)"
  proof
    assume "slot r \<in> slot ` fst ` set (drop (Suc i) rs)"
    then obtain x where "x \<in> set (drop (Suc i) rs)" "slot (fst x) = slot r" by auto
    then obtain k where "k < length (drop (Suc i) rs)" "slot (fst (drop (Suc i) rs ! k)) = slot r" by (metis in_set_conv_nth)
    moreover from this have "Suc (i + k) < length rs" by simp
    ultimately show False using assms(5) [rule_format, of "Suc i + k"] ri by simp
  qed
  moreover have own: "get_chunk (pr_ino r) (pr_idx r) (pw_store (commit_one db msg r off ?w)) = Inr (chunk_of_req msg off r)"
      "(pr_chan r, Some (PackLanded msg off)) \<in> set (pw_results (commit_one db msg r off ?w))"
    by (rule commit_one_own; use assms ri in simp)+
  ultimately show "get_chunk (pr_ino (fst (rs ! i))) (pr_idx (fst (rs ! i))) (pw_store (commit_all db msg rs w)) =
      Inr (chunk_of_req msg (snd (rs ! i)) (fst (rs ! i)))"
    unfolding split ri using commit_all_other [of "pr_ino r" "pr_idx r" "drop (Suc i) rs"] by simp
  show "(pr_chan (fst (rs ! i)), Some (PackLanded msg (snd (rs ! i)))) \<in> set (pw_results (commit_all db msg rs w))"
    unfolding split ri using own(2) commit_all_results by fastforce
qed

section \<open>Properties\<close>


definition pack_demo0 :: pack_world where
  "pack_demo0 = \<lparr>pw_packer = new_packer 0 4, pw_store = demo, pw_dir = [], pw_index = Some [], pw_results = []\<rparr>"

definition submit_demo :: "int \<Rightarrow> int \<Rightarrow> bytes \<Rightarrow> pack_world \<Rightarrow> pack_world" where
  "submit_demo ino idx b w = w\<lparr>pw_packer := snd (submit ino idx (blen b) b [] (pw_packer w))\<rparr>"

definition pack_demo :: pack_world where
  "pack_demo = submit_demo 3 2 [4, 5] (submit_demo 3 1 [3] (submit_demo 3 0 [1, 2] pack_demo0))"

lemma pack_demo_reachable: "packer_reachable pack_demo"
  unfolding pack_demo_def submit_demo_def pack_demo0_def
  by (intro pr_step [OF _ ps_submit] pr_init)


text \<open>C40. A packed chunk reads back: after a flush whose upload and row writes succeed, the row of each slot
  of a live inode points at the message and extent of the last wire queued for it, the reader's
  cut of that extent, ranged or from the whole blob, is exactly that wire, and the submitter is
  told the same place.\<close>

theorem packed_extent_reads_back:
  assumes "pk_pending (pw_packer w) \<noteq> []" "take_batch (pk_target (pw_packer w)) (pk_pending (pw_packer w)) = (batch, rest)"
    "up (blob_of batch) = Inr msg" "i < length batch" "db (batch ! i) = None" "has_inode (pw_store w) (pr_ino (batch ! i))"
    "0 < blen (pr_wire (batch ! i))" "blen (pr_wire (batch ! i)) < 2 ^ 31"
    "\<forall>j. i < j \<and> j < length batch \<longrightarrow> slot (batch ! j) \<noteq> slot (batch ! i)"
  shows "\<exists>c. get_chunk (pr_ino (batch ! i)) (pr_idx (batch ! i)) (pw_store (flush up db w)) = Inr c \<and>
    ch_msg c = msg \<and> ch_size c = pr_size (batch ! i) \<and>
    fetch_wire (WholeFetcher (\<lambda>_ _. Inr (blob_of batch))) k msg (ch_pack_offset c) (ch_pack_size c) = Inr (pr_wire (batch ! i)) \<and>
    fetch_wire (RangedFetcher whole (\<lambda>_ _ off len. Inr (take (nat len) (drop (nat off) (blob_of batch))))) k msg
      (ch_pack_offset c) (ch_pack_size c) = Inr (pr_wire (batch ! i)) \<and>
    (pr_chan (batch ! i), Some (PackLanded msg (ch_pack_offset c))) \<in> set (pw_results (flush up db w))"
proof -
  let ?r = "batch ! i" and ?rs = "zip batch (offsets_from 0 batch)" and ?off = "offsets_from 0 batch ! i"
  let ?c = "chunk_of_req msg ?off ?r"
  have len: "to_int32 (blen (pr_wire ?r)) = blen (pr_wire ?r)" using to_int32_id assms(7,8) by simp
  have nth: "?rs ! i = (?r, ?off)" using assms(4) by simp
  define w1 where "w1 = w\<lparr>pw_packer := (pw_packer w)\<lparr>pk_pending := rest,
      pk_buf := pk_buf (pw_packer w) - wire_sum batch, pk_wake := (if rest \<noteq> [] then True else pk_wake (pw_packer w))\<rparr>\<rparr>"
  have fl: "flush up db w = commit_all db msg ?rs w1"
    using assms(1-3) by (simp add: flush_def Let_def w1_def)
  have later: "\<forall>j. i < j \<and> j < length ?rs \<longrightarrow> slot (fst (?rs ! j)) \<noteq> slot (fst (?rs ! i))" using assms(4,9) by simp
  have at: "get_chunk (pr_ino ?r) (pr_idx ?r) (pw_store (flush up db w)) = Inr ?c"
      "(pr_chan ?r, Some (PackLanded msg ?off)) \<in> set (pw_results (flush up db w))"
    using commit_all_at [of i ?rs db w1 msg] later assms(4-7) nth len unfolding fl by (simp_all add: w1_def)
  have n: "nat (blen (pr_wire ?r)) = length (pr_wire ?r)" by (simp add: blen_def)
  have cut: "take (nat (blen (pr_wire ?r))) (drop (nat ?off) (blob_of batch)) = pr_wire ?r"
    using blob_slice [OF assms(4)] n by simp
  have "fetch_wire (WholeFetcher (\<lambda>_ _. Inr (blob_of batch))) k msg ?off (blen (pr_wire ?r)) = Inr (pr_wire ?r)"
    using blob_bound [OF assms(4)] assms(7) cut by (simp add: fetch_wire_def Let_def)
  moreover have "fetch_wire (RangedFetcher whole (\<lambda>_ _ off len. Inr (take (nat len) (drop (nat off) (blob_of batch))))) k msg
      ?off (blen (pr_wire ?r)) = Inr (pr_wire ?r)"
    using assms(7) cut n by (simp add: fetch_wire_def Let_def blen_def)
  ultimately show ?thesis using at len by (intro exI [of _ ?c]) (simp add: chunk_of_req_def)
qed

theorem packed_extent_reads_back_witness:
  "\<exists>c. get_chunk 3 1 (pw_store (flush (\<lambda>_. Inr 77) (\<lambda>_. None) pack_demo)) = Inr c \<and> ch_msg c = 77 \<and>
     fetch_wire (WholeFetcher (\<lambda>_ _. Inr [1, 2, 3])) (Key 3 1) 77 (ch_pack_offset c) (ch_pack_size c) = Inr [3]"
proof -
  let ?p = "pw_packer pack_demo"
  let ?b = "fst (take_batch (pk_target ?p) (pk_pending ?p))" and ?t = "snd (take_batch (pk_target ?p) (pk_pending ?p))"
  have q: "pk_pending ?p \<noteq> []" "length ?b = 2" "pr_ino (?b ! 1) = 3" "pr_idx (?b ! 1) = 1" "pr_wire (?b ! 1) = [3]"
    "blob_of ?b = [1, 2, 3]" "has_inode (pw_store pack_demo) 3"
    by code_simp+
  have b: "take_batch (pk_target ?p) (pk_pending ?p) = (?b, ?t)" by simp
  have later: "\<forall>j. 1 < j \<and> j < length ?b \<longrightarrow> slot (?b ! j) \<noteq> slot (?b ! 1)" using q(2) by auto
  have "(1 :: nat) < length ?b" "has_inode (pw_store pack_demo) (pr_ino (?b ! 1))" "0 < blen (pr_wire (?b ! 1))" "blen (pr_wire (?b ! 1)) < 2 ^ 31"
    using q by (simp_all add: blen_def)
  from packed_extent_reads_back [where up = "\<lambda>_. Inr 77" and db = "\<lambda>_. None" and k = "Key 3 1",
      OF q(1) b refl this(1) refl this(2-4) later]
  show ?thesis unfolding q(3-6) by blast
qed

text \<open>The flusher makes progress: each flush of a non-empty queue takes at least one wire and, unless a
  single wire alone exceeds it, at most the target of bytes, keeps the order of the rest, and as
  many flushes as there were wires empty the queue, whatever the uploads do.\<close>

lemma flush_shrinks: "length (pk_pending (pw_packer (flush up db w))) \<le> length (pk_pending (pw_packer w)) - 1"
proof (cases "pk_pending (pw_packer w) = []")
  case False
  obtain batch rest where b: "take_batch (pk_target (pw_packer w)) (pk_pending (pw_packer w)) = (batch, rest)"
    by (cases "take_batch (pk_target (pw_packer w)) (pk_pending (pw_packer w))")
  have "length (pk_pending (pw_packer w)) = length batch + length rest" "0 < length batch"
    using take_batch_spec(1,2) [OF b False] by simp_all
  moreover have "length (pk_pending (pw_packer (flush up db w))) = length rest" using flush_effect(1) [OF False b, of up db] by simp
  ultimately show ?thesis by linarith
qed (simp add: flush_def)

theorem packer_drains:
  "(\<forall>batch rest. take_batch (pk_target (pw_packer w)) (pk_pending (pw_packer w)) = (batch, rest) \<and> pk_pending (pw_packer w) \<noteq> [] \<longrightarrow>
      pk_pending (pw_packer w) = batch @ pk_pending (pw_packer (flush up db w)) \<and> batch \<noteq> [] \<and>
      (length batch = 1 \<or> blen (blob_of batch) \<le> pk_target (pw_packer w))) \<and>
   (length (pk_pending (pw_packer w)) \<le> n \<longrightarrow> pk_pending (pw_packer ((flush up db ^^ n) w)) = [])"
proof (intro conjI allI impI)
  fix batch rest
  assume "take_batch (pk_target (pw_packer w)) (pk_pending (pw_packer w)) = (batch, rest) \<and> pk_pending (pw_packer w) \<noteq> []"
  then have b: "take_batch (pk_target (pw_packer w)) (pk_pending (pw_packer w)) = (batch, rest)" and ne: "pk_pending (pw_packer w) \<noteq> []" by auto
  show "pk_pending (pw_packer w) = batch @ pk_pending (pw_packer (flush up db w))" "batch \<noteq> []"
    "length batch = 1 \<or> blen (blob_of batch) \<le> pk_target (pw_packer w)"
    using take_batch_spec(1-3) [OF b ne] flush_effect(1) [OF ne b] by (simp_all add: blen_blob)
next
  have "length (pk_pending (pw_packer ((flush up db ^^ n) w))) \<le> length (pk_pending (pw_packer w)) - n"
  proof (induction n)
    case (Suc n)
    then show ?case using flush_shrinks [of up db "(flush up db ^^ n) w"] by simp
  qed simp
  then show "length (pk_pending (pw_packer w)) \<le> n \<Longrightarrow> pk_pending (pw_packer ((flush up db ^^ n) w)) = []" by simp
qed

theorem packer_drains_witness:
  "pk_pending (pw_packer ((flush (\<lambda>_. Inl ''FLOOD'') (\<lambda>_. None) ^^ 3) pack_demo)) = []"
proof -
  have "length (pk_pending (pw_packer pack_demo)) \<le> 3" by code_simp
  then show ?thesis using packer_drains by blast
qed

text \<open>\<open>Close\<close> can strand wires: its final drain is one flush, so what exceeds one batch stays queued when the
  flusher has exited; those wires have no answer, none of the flusher's branches can run again, and
  only a \<open>DropInode\<close> would ever release their waiters.\<close>

theorem close_strands_residual:
  assumes "packer_reachable w" "\<not> pk_done (pw_packer w)" "pk_pending (pw_packer w) \<noteq> []"
    "take_batch (pk_target (pw_packer w)) (pk_pending (pw_packer w)) = (batch, rest)" "r \<in> set rest"
  shows "pk_done (pw_packer (loop_stop up db w)) \<and> r \<in> set (pk_pending (pw_packer (loop_stop up db w))) \<and>
    pr_chan r \<notin> fst ` set (pw_results (loop_stop up db w)) \<and>
    (\<forall>w'. packer_step (loop_stop up db w) w' \<longrightarrow>
       (\<exists>ino. w' = snd (drop_inode ino (loop_stop up db w))) \<or>
       (r \<in> set (pk_pending (pw_packer w')) \<and> pw_results w' = pw_results (loop_stop up db w)))"
proof -
  let ?w = "loop_stop up db w"
  have pend: "pk_pending (pw_packer ?w) = rest"
    using flush_effect(1) [OF assms(3,4), of up db] by (simp add: loop_stop_def Let_def)
  have fin: "pk_done (pw_packer ?w)" by (simp add: loop_stop_def Let_def)
  have "packer_ok ?w" using packer_reachable_ok [OF assms(1)] flush_ok packer_ok_flags(2)
    by (simp add: loop_stop_def Let_def)
  then have cons: "chans rest + answered ?w = mset [0..<pk_next (pw_packer ?w)]" by (simp add: packer_ok_def pend)
  have "pr_chan r \<notin> fst ` set (pw_results ?w)"
  proof
    assume "pr_chan r \<in> fst ` set (pw_results ?w)"
    then have "pr_chan r \<in># answered ?w" by (simp add: answered_def)
    moreover have "pr_chan r \<in># chans rest" using assms(5) by (simp add: chans_def)
    ultimately have "0 < count (answered ?w) (pr_chan r)" "0 < count (chans rest) (pr_chan r)" by simp_all
    then have "2 \<le> count (chans rest + answered ?w) (pr_chan r)" unfolding count_union by linarith
    moreover have "count (mset [0..<pk_next (pw_packer ?w)]) (pr_chan r) \<le> 1"
      using distinct_count_atmost_1 [of "[0..<pk_next (pw_packer ?w)]"] by simp
    ultimately show False unfolding cons by simp
  qed
  moreover have "(\<exists>ino. w' = snd (drop_inode ino ?w)) \<or> (r \<in> set (pk_pending (pw_packer w')) \<and> pw_results w' = pw_results ?w)"
    if "packer_step ?w w'" for w'
    using that
  proof (cases rule: packer_step.cases)
    case (ps_submit ino idx sz wire path)
    then show ?thesis using pend assms(5) by (simp add: submit_def Let_def)
  qed (use fin pend assms(5) in \<open>auto simp: close_packer_def\<close>)
  ultimately show ?thesis using fin pend assms(5) by simp
qed

theorem close_strands_residual_witness:
  "pk_done (pw_packer (loop_stop (\<lambda>_. Inr 77) (\<lambda>_. None) pack_demo)) \<and>
   pk_pending (pw_packer (loop_stop (\<lambda>_. Inr 77) (\<lambda>_. None) pack_demo)) \<noteq> []"
proof -
  let ?p = "pw_packer pack_demo"
  have q: "pk_pending ?p \<noteq> []" "\<not> pk_done ?p" "snd (take_batch (pk_target ?p) (pk_pending ?p)) \<noteq> []" by code_simp+
  then obtain r where "r \<in> set (snd (take_batch (pk_target ?p) (pk_pending ?p)))" by (meson hd_in_set)
  from close_strands_residual [OF pack_demo_reachable q(2,1) prod.collapse [symmetric] this, of "\<lambda>_. Inr 77" "\<lambda>_. None"]
  show ?thesis by auto
qed

end
