(* ===== verification/Pool.thy ===== *)
theory Pool
  imports Retry "HOL-Library.AList"
begin

text \<open>
  The dispatch layer of the uploader: the per-inode barrier \<open>PendingInodes\<close> of
  \<open>internal/chunk/pending.go\<close> and the \<open>UploadPool\<close> with its reservations of
  \<open>internal/chunk/pool.go\<close>.  A Go channel that is only ever closed is a number; the channels
  closed so far are a list.  A blocking call is a step that is enabled only when it can
  proceed, so a run of the pool is a sequence of \<open>pool_step\<close>s in any interleaving.
\<close>

section \<open>PendingInodes\<close>

record pending =
  pd_counts :: "(int \<times> int) list"
  pd_drains :: "(int \<times> nat) list"
  pd_next :: nat
  pd_closed :: "nat list"

definition new_pending :: pending where
  "new_pending = \<lparr>pd_counts = [], pd_drains = [], pd_next = 0, pd_closed = []\<rparr>"

definition pd_count :: "pending \<Rightarrow> int \<Rightarrow> int" where
  "pd_count p ino = (case map_of (pd_counts p) ino of None \<Rightarrow> 0 | Some c \<Rightarrow> c)"

definition pd_begin :: "int \<Rightarrow> pending \<Rightarrow> pending" where
  "pd_begin ino p =
     (let p1 = p\<lparr>pd_counts := AList.update ino (pd_count p ino + 1) (pd_counts p)\<rparr>
      in case map_of (pd_drains p1) ino of
           Some _ \<Rightarrow> p1
         | None \<Rightarrow> p1\<lparr>pd_drains := AList.update ino (pd_next p1) (pd_drains p1), pd_next := pd_next p1 + 1\<rparr>)"

definition pd_end :: "int \<Rightarrow> pending \<Rightarrow> pending" where
  "pd_end ino p =
     (let p1 = p\<lparr>pd_counts := AList.update ino (pd_count p ino - 1) (pd_counts p)\<rparr>
      in if pd_count p1 ino > 0 then p1
         else let ch = map_of (pd_drains p1) ino;
                  p2 = p1\<lparr>pd_counts := AList.delete ino (pd_counts p1), pd_drains := AList.delete ino (pd_drains p1)\<rparr>
              in (case ch of None \<Rightarrow> p2 | Some c \<Rightarrow> p2\<lparr>pd_closed := c # pd_closed p2\<rparr>))"

definition pd_total :: "pending \<Rightarrow> int" where
  "pd_total p = sum_list (map snd (pd_counts p))"

text \<open>\<open>Wait\<close> takes the channel under the lock and then waits for that channel (or the context).\<close>

definition pd_wait_chan :: "int \<Rightarrow> pending \<Rightarrow> nat option" where
  "pd_wait_chan ino p = map_of (pd_drains p) ino"

definition pd_wait_returns :: "nat option \<Rightarrow> pending \<Rightarrow> bool" where
  "pd_wait_returns ch p = (case ch of None \<Rightarrow> True | Some c \<Rightarrow> c \<in> set (pd_closed p))"

section \<open>UploadPool\<close>

definition DefaultUploadConcurrency :: int where "DefaultUploadConcurrency = 4"
definition DefaultStagedCapBytes :: int where "DefaultStagedCapBytes = 268435456"

record reservation =
  rs_ino :: int
  rs_sem :: bool
  rs_pending :: bool

record upool =
  up_cap :: int
  up_sem :: int
  up_wg :: int
  up_pending :: pending
  up_res :: "reservation list"
  up_staged_cap :: int
  up_done :: bool

definition new_upload_pool :: "int \<Rightarrow> upool" where
  "new_upload_pool concurrency =
     \<lparr>up_cap = (if concurrency \<le> 0 then DefaultUploadConcurrency else concurrency),
      up_sem = 0, up_wg = 0, up_pending = new_pending, up_res = [],
      up_staged_cap = DefaultStagedCapBytes, up_done = False\<rparr>"

definition staged_weight :: "int \<Rightarrow> upool \<Rightarrow> int" where
  "staged_weight n p = (if n > up_staged_cap p then up_staged_cap p else n)"

text \<open>
  The byte gate is a weighted semaphore of \<open>golang.org/x/sync\<close>: \<open>acq n\<close> says whether its
  \<open>Acquire\<close> of weight n succeeded.
\<close>

datatype gate_err = PoolShutdown | CallerCancelled

definition acquire_staged :: "(int \<Rightarrow> bool) \<Rightarrow> int \<Rightarrow> upool \<Rightarrow> gate_err + int" where
  "acquire_staged acq n p =
     (let n' = staged_weight n p
      in if acq n' then Inr n' else Inl (if up_done p then PoolShutdown else CallerCancelled))"

text \<open>\<open>ReleaseStaged\<close>: the weight handed back to the semaphore, if any.\<close>

definition release_staged :: "int \<Rightarrow> int option" where
  "release_staged n = (if n > 0 then Some n else None)"

text \<open>The outcome of a call that may block: it blocks, fails with the context's error or returns.\<close>

datatype 'a blocking = Blocks | CtxErr | Returns 'a

definition in_flight :: "upool \<Rightarrow> int" where
  "in_flight p = up_sem p"

text \<open>A reservation is named by its position in \<open>up_res\<close>.\<close>

definition register :: "int \<Rightarrow> upool \<Rightarrow> nat \<times> upool" where
  "register ino p =
     (length (up_res p),
      p\<lparr>up_wg := up_wg p + 1, up_pending := pd_begin ino (up_pending p),
        up_res := up_res p @ [\<lparr>rs_ino = ino, rs_sem = False, rs_pending = True\<rparr>]\<rparr>)"

definition acquire_sem :: "bool \<Rightarrow> nat \<Rightarrow> upool \<Rightarrow> unit blocking \<times> upool" where
  "acquire_sem ctx_done r p =
     (if rs_sem (up_res p ! r) then (Returns (), p)
      else if up_sem p < up_cap p then
        (Returns (), p\<lparr>up_sem := up_sem p + 1, up_res := (up_res p)[r := (up_res p ! r)\<lparr>rs_sem := True\<rparr>]\<rparr>)
      else if ctx_done \<or> up_done p then (CtxErr, p)
      else (Blocks, p))"

definition release_sem :: "nat \<Rightarrow> upool \<Rightarrow> upool" where
  "release_sem r p =
     (if \<not> rs_sem (up_res p ! r) then p
      else p\<lparr>up_res := (up_res p)[r := (up_res p ! r)\<lparr>rs_sem := False\<rparr>], up_sem := up_sem p - 1\<rparr>)"

definition release :: "nat \<Rightarrow> upool \<Rightarrow> upool" where
  "release r p =
     (let p1 = release_sem r p
      in if \<not> rs_pending (up_res p1 ! r) then p1
         else p1\<lparr>up_res := (up_res p1)[r := (up_res p1 ! r)\<lparr>rs_pending := False\<rparr>],
                 up_pending := pd_end (rs_ino (up_res p1 ! r)) (up_pending p1),
                 up_wg := up_wg p1 - 1\<rparr>)"

definition reserve :: "bool \<Rightarrow> int \<Rightarrow> upool \<Rightarrow> nat blocking \<times> upool" where
  "reserve ctx_done ino p =
     (case register ino p of (r, p1) \<Rightarrow>
       (case acquire_sem ctx_done r p1 of
          (CtxErr, p2) \<Rightarrow> (CtxErr, release r p2)
        | (Returns _, p2) \<Rightarrow> (Returns r, p2)
        | (Blocks, p2) \<Rightarrow> (Blocks, p2)))"

text \<open>\<open>Drain\<close> returns true when the wait group is at zero.\<close>

definition drained :: "upool \<Rightarrow> bool" where
  "drained p = (up_wg p = 0)"

definition shutdown :: "upool \<Rightarrow> upool" where
  "shutdown p = p\<lparr>up_done := True\<rparr>"

text \<open>
  Any interleaving of the pool's clients.  In the select of \<open>AcquireSem\<close> a free slot and a
  cancelled context may both be ready and Go picks one; the second choice leaves the state
  unchanged.
\<close>

inductive pool_step :: "upool \<Rightarrow> upool \<Rightarrow> bool" where
  step_register: "pool_step p (snd (register ino p))"
| step_acquire: "r < length (up_res p) \<Longrightarrow> fst (acquire_sem d r p) = Returns () \<Longrightarrow>
    pool_step p (snd (acquire_sem d r p))"
| step_release_sem: "r < length (up_res p) \<Longrightarrow> pool_step p (release_sem r p)"
| step_release: "r < length (up_res p) \<Longrightarrow> pool_step p (release r p)"
| step_shutdown: "pool_step p (shutdown p)"

inductive pool_run :: "upool \<Rightarrow> upool \<Rightarrow> bool" where
  run_refl: "pool_run p p"
| run_step: "pool_run p q \<Longrightarrow> pool_step q q' \<Longrightarrow> pool_run p q'"

definition pool_reachable :: "upool \<Rightarrow> bool" where
  "pool_reachable p = (\<exists>c. pool_run (new_upload_pool c) p)"

section \<open>Invariants\<close>

definition held :: "reservation list \<Rightarrow> int \<Rightarrow> int" where
  "held rs ino = int (length (filter (\<lambda>r. rs_pending r \<and> rs_ino r = ino) rs))"

definition sem_count :: "reservation list \<Rightarrow> int" where
  "sem_count rs = int (length (filter rs_sem rs))"

definition pend_count :: "reservation list \<Rightarrow> int" where
  "pend_count rs = int (length (filter rs_pending rs))"

text \<open>
  The barrier's invariant against the number of held registrations per inode: the count is that
  number, a channel exists exactly when it is positive, and the channels in use are fresh and
  still open.
\<close>

definition maps_ok :: "(int \<Rightarrow> int) \<Rightarrow> (int \<rightharpoonup> int) \<Rightarrow> (int \<rightharpoonup> nat) \<Rightarrow> nat \<Rightarrow> nat set \<Rightarrow> bool" where
  "maps_ok h cm dm n cl \<longleftrightarrow>
     (\<forall>i. 0 \<le> h i \<and> cm i = (if h i = 0 then None else Some (h i)) \<and> (dm i = None \<longleftrightarrow> h i = 0)) \<and>
     (\<forall>i c. dm i = Some c \<longrightarrow> c < n \<and> c \<notin> cl) \<and>
     (\<forall>i j c. dm i = Some c \<and> dm j = Some c \<longrightarrow> i = j) \<and> (\<forall>c\<in>cl. c < n)"

definition pending_ok :: "(int \<Rightarrow> int) \<Rightarrow> pending \<Rightarrow> bool" where
  "pending_ok h p \<longleftrightarrow>
     distinct (map fst (pd_counts p)) \<and> distinct (map fst (pd_drains p)) \<and>
     maps_ok h (map_of (pd_counts p)) (map_of (pd_drains p)) (pd_next p) (set (pd_closed p))"

definition pool_ok :: "upool \<Rightarrow> bool" where
  "pool_ok p \<longleftrightarrow> 0 < up_cap p \<and> up_sem p = sem_count (up_res p) \<and> up_sem p \<le> up_cap p \<and>
     up_wg p = pend_count (up_res p) \<and> pending_ok (held (up_res p)) (up_pending p)"

lemma maps_ok_count: "maps_ok h cm dm n cl \<Longrightarrow> (case cm i of None \<Rightarrow> 0 | Some c \<Rightarrow> c) = h i"
  by (auto simp: maps_ok_def)

lemma maps_okD:
  assumes "maps_ok h cm dm n cl"
  shows "0 \<le> h i" "cm i = (if h i = 0 then None else Some (h i))" "dm i = None \<longleftrightarrow> h i = 0"
    "dm i = Some c \<Longrightarrow> c < n" "dm i = Some c \<Longrightarrow> c \<notin> cl"
    "dm i = Some c \<Longrightarrow> dm j = Some c \<Longrightarrow> i = j" "c \<in> cl \<Longrightarrow> c < n"
  using assms unfolding maps_ok_def by blast+

lemma maps_okI:
  assumes "\<And>i. 0 \<le> h i" "\<And>i. cm i = (if h i = 0 then None else Some (h i))" "\<And>i. dm i = None \<longleftrightarrow> h i = 0"
    "\<And>i c. dm i = Some c \<Longrightarrow> c < n" "\<And>i c. dm i = Some c \<Longrightarrow> c \<notin> cl"
    "\<And>i j c. dm i = Some c \<Longrightarrow> dm j = Some c \<Longrightarrow> i = j" "\<And>c. c \<in> cl \<Longrightarrow> c < n"
  shows "maps_ok h cm dm n cl"
  using assms unfolding maps_ok_def by blast

lemma maps_ok_begin_fresh:
  assumes "maps_ok h cm dm n cl" "dm i = None"
  shows "maps_ok (h(i := h i + 1)) (cm(i \<mapsto> h i + 1)) (dm(i \<mapsto> n)) (n + 1) cl"
proof (rule maps_okI)
  note d = maps_okD [OF assms(1)]
  have "0 \<le> h i" by (rule d(1))
  then show "0 \<le> (h(i := h i + 1)) j" "(cm(i \<mapsto> h i + 1)) j = (if (h(i := h i + 1)) j = 0 then None else Some ((h(i := h i + 1)) j))"
    "((dm(i \<mapsto> n)) j = None) = ((h(i := h i + 1)) j = 0)" for j
    using d(1,2,3) [of j] by auto
  show "c < n + 1" "c \<notin> cl" if "(dm(i \<mapsto> n)) j = Some c" for j c
    using that d(4,5) [of j c] d(7) [of n] by (auto split: if_splits)
  show "c < n + 1" if "c \<in> cl" for c using d(7) [OF that] by simp
  show "j = k" if "(dm(i \<mapsto> n)) j = Some c" "(dm(i \<mapsto> n)) k = Some c" for j k c
    using that d(6) [of j c k] d(4) [of j n] d(4) [of k n] by (auto split: if_splits)
qed

lemma maps_ok_begin_more:
  assumes "maps_ok h cm dm n cl" "dm i = Some c"
  shows "maps_ok (h(i := h i + 1)) (cm(i \<mapsto> h i + 1)) dm n cl"
proof (rule maps_okI)
  note d = maps_okD [OF assms(1)]
  have "0 \<le> h i" "h i \<noteq> 0" using d(1,3) [of i] assms(2) by auto
  then show "0 \<le> (h(i := h i + 1)) j" "(cm(i \<mapsto> h i + 1)) j = (if (h(i := h i + 1)) j = 0 then None else Some ((h(i := h i + 1)) j))"
    "(dm j = None) = ((h(i := h i + 1)) j = 0)" for j
    using d(1,2,3) [of j] by auto
qed (use maps_okD [OF assms(1)] in blast)+

lemma maps_ok_end_more:
  assumes "maps_ok h cm dm n cl" "1 < h i"
  shows "maps_ok (h(i := h i - 1)) (cm(i \<mapsto> h i - 1)) dm n cl"
proof (rule maps_okI)
  note d = maps_okD [OF assms(1)]
  show "0 \<le> (h(i := h i - 1)) j" "(cm(i \<mapsto> h i - 1)) j = (if (h(i := h i - 1)) j = 0 then None else Some ((h(i := h i - 1)) j))"
    "(dm j = None) = ((h(i := h i - 1)) j = 0)" for j
    using d(1,2,3) [of j] assms(2) by auto
qed (use maps_okD [OF assms(1)] in blast)+

lemma maps_ok_end_last:
  assumes "maps_ok h cm dm n cl" "h i = 1" "dm i = Some c"
  shows "maps_ok (h(i := 0)) (cm(i := None)) (dm(i := None)) n (insert c cl)"
proof (rule maps_okI)
  note d = maps_okD [OF assms(1)]
  show "0 \<le> (h(i := 0)) j" "(cm(i := None)) j = (if (h(i := 0)) j = 0 then None else Some ((h(i := 0)) j))"
    "((dm(i := None)) j = None) = ((h(i := 0)) j = 0)" for j
    using d(1,2,3) [of j] by auto
  show "e < n" "e \<notin> insert c cl" if "(dm(i := None)) j = Some e" for j e
    using that d(4,5) [of j e] d(6) [OF _ assms(3), of j] by (auto split: if_splits)
  show "e < n" if "e \<in> insert c cl" for e using that d(7) [of e] d(4) [OF assms(3)] by auto
  show "j = k" if "(dm(i := None)) j = Some e" "(dm(i := None)) k = Some e" for j k e
    using that d(6) [of j e k] by (auto split: if_splits)
qed

lemma pd_count_maps:
  assumes "pending_ok h p"
  shows "pd_count p i = h i"
proof -
  have "maps_ok h (map_of (pd_counts p)) (map_of (pd_drains p)) (pd_next p) (set (pd_closed p))"
    using assms by (simp add: pending_ok_def)
  then show ?thesis unfolding pd_count_def by (rule maps_ok_count)
qed

lemma pd_begin_ok:
  assumes "pending_ok h p"
  shows "pending_ok (h(i := h i + 1)) (pd_begin i p)"
  using assms maps_ok_begin_fresh [of h _ "map_of (pd_drains p)" "pd_next p" _ i] maps_ok_begin_more
  by (cases "map_of (pd_drains p) i")
    (auto simp: pd_begin_def Let_def pd_count_maps [OF assms] pending_ok_def update_conv' distinct_update)

lemma pd_end_count:
  "pd_count (p\<lparr>pd_counts := AList.update i v (pd_counts p)\<rparr>) i = v"
  by (simp add: pd_count_def update_conv')

text \<open>Ending the last upload of an inode closes its channel.\<close>

lemma pd_end_closed:
  assumes "pending_ok h p" "0 < h i"
  shows "pd_closed (pd_end i p) = (if h i = 1 then the (map_of (pd_drains p) i) # pd_closed p else pd_closed p)"
    and "pd_next (pd_end i p) = pd_next p"
    and "map_of (pd_drains (pd_end i p)) = (if h i = 1 then (map_of (pd_drains p))(i := None) else map_of (pd_drains p))"
proof -
  obtain c where c: "map_of (pd_drains p) i = Some c"
    using assms by (cases "map_of (pd_drains p) i") (auto simp: pending_ok_def maps_ok_def)
  note d = pd_end_def Let_def pd_end_count pd_count_maps [OF assms(1)] delete_conv'
  show "pd_closed (pd_end i p) = (if h i = 1 then the (map_of (pd_drains p) i) # pd_closed p else pd_closed p)"
    using assms(2) c by (auto simp: d)
  show "pd_next (pd_end i p) = pd_next p" using assms(2) c by (auto simp: d)
  show "map_of (pd_drains (pd_end i p)) = (if h i = 1 then (map_of (pd_drains p))(i := None) else map_of (pd_drains p))"
    using assms(2) c by (auto simp: d)
qed

lemma pd_end_ok:
  assumes "pending_ok h p" "0 < h i"
  shows "pending_ok (h(i := h i - 1)) (pd_end i p)"
proof -
  obtain c where c: "map_of (pd_drains p) i = Some c"
    using assms by (cases "map_of (pd_drains p) i") (auto simp: pending_ok_def maps_ok_def)
  have counts: "map_of (pd_counts (pd_end i p)) =
      (if h i = 1 then (map_of (pd_counts p))(i := None) else (map_of (pd_counts p))(i \<mapsto> h i - 1))"
    using assms(2) c by (auto simp: pd_end_def Let_def pd_end_count pd_count_maps [OF assms(1)] delete_conv' update_conv')
  have "distinct (map fst (pd_counts (pd_end i p))) \<and> distinct (map fst (pd_drains (pd_end i p)))"
    using assms c by (auto simp: pd_end_def Let_def pd_end_count pending_ok_def distinct_update distinct_delete)
  then show ?thesis
    using assms c maps_ok_end_last [of h _ _ _ _ i c] maps_ok_end_more [of h _ _ _ _ i]
    by (auto simp: pending_ok_def counts pd_end_closed [OF assms])
qed

section \<open>Reservations\<close>

lemma length_filter_update:
  "r < length xs \<Longrightarrow> int (length (filter P (xs[r := x]))) =
     int (length (filter P xs)) - (if P (xs ! r) then 1 else 0) + (if P x then 1 else 0)"
proof (induction xs arbitrary: r)
  case (Cons y ys)
  show ?case
  proof (cases r)
    case (Suc k)
    have "k < length ys" using Cons.prems Suc by simp
    then show ?thesis using Cons.IH [of k] Suc by (cases "P y") simp_all
  qed simp
qed simp

lemma held_update:
  "r < length rs \<Longrightarrow> held (rs[r := x]) i = held rs i
     - (if rs_pending (rs ! r) \<and> rs_ino (rs ! r) = i then 1 else 0)
     + (if rs_pending x \<and> rs_ino x = i then 1 else 0)"
  by (simp add: held_def length_filter_update)

lemma held_pos: "r < length rs \<Longrightarrow> rs_pending (rs ! r) \<Longrightarrow> 0 < held rs (rs_ino (rs ! r))"
  using nth_mem [of r rs] by (auto simp: held_def filter_empty_conv)

lemma sem_count_update:
  "r < length rs \<Longrightarrow> sem_count (rs[r := x]) = sem_count rs - (if rs_sem (rs ! r) then 1 else 0) + (if rs_sem x then 1 else 0)"
  by (simp add: sem_count_def length_filter_update)

lemma pend_count_update:
  "r < length rs \<Longrightarrow> pend_count (rs[r := x]) =
     pend_count rs - (if rs_pending (rs ! r) then 1 else 0) + (if rs_pending x then 1 else 0)"
  by (simp add: pend_count_def length_filter_update)

lemmas counts_update = held_update sem_count_update pend_count_update

lemma new_pool_ok: "pool_ok (new_upload_pool c)"
  by (auto simp: pool_ok_def new_upload_pool_def DefaultUploadConcurrency_def sem_count_def pend_count_def
      pending_ok_def maps_ok_def held_def new_pending_def)

lemma register_ok:
  assumes "pool_ok p"
  shows "pool_ok (snd (register ino p))"
proof -
  have h: "held (up_res p @ [\<lparr>rs_ino = ino, rs_sem = False, rs_pending = True\<rparr>]) =
      (held (up_res p))(ino := held (up_res p) ino + 1)"
    by (auto simp: held_def)
  show ?thesis using assms pd_begin_ok
    by (auto simp: pool_ok_def register_def h sem_count_def pend_count_def)
qed

lemma acquire_sem_ok: "pool_ok p \<Longrightarrow> r < length (up_res p) \<Longrightarrow> pool_ok (snd (acquire_sem d r p))"
proof -
  assume a: "pool_ok p" "r < length (up_res p)"
  have "held ((up_res p)[r := (up_res p ! r)\<lparr>rs_sem := True\<rparr>]) = held (up_res p)"
    by (rule ext) (simp add: held_update a)
  then show ?thesis using a by (auto simp: pool_ok_def acquire_sem_def counts_update)
qed

lemma release_sem_ok: "pool_ok p \<Longrightarrow> r < length (up_res p) \<Longrightarrow> pool_ok (release_sem r p)"
proof -
  assume a: "pool_ok p" "r < length (up_res p)"
  have "held ((up_res p)[r := (up_res p ! r)\<lparr>rs_sem := False\<rparr>]) = held (up_res p)"
    by (rule ext) (simp add: held_update a)
  then show ?thesis using a by (auto simp: pool_ok_def release_sem_def counts_update)
qed

lemma release_sem_res [simp]:
  "length (up_res (release_sem r p)) = length (up_res p)"
  "up_pending (release_sem r p) = up_pending p"
  "up_wg (release_sem r p) = up_wg p"
  by (auto simp: release_sem_def)

lemma release_sem_nth [simp]:
  "j < length (up_res p) \<Longrightarrow> rs_pending (up_res (release_sem r p) ! j) = rs_pending (up_res p ! j)"
  "j < length (up_res p) \<Longrightarrow> rs_ino (up_res (release_sem r p) ! j) = rs_ino (up_res p ! j)"
  by (cases "j = r"; simp add: release_sem_def nth_list_update)+

lemma release_ok:
  assumes "pool_ok p" "r < length (up_res p)"
  shows "pool_ok (release r p)"
proof (cases "rs_pending (up_res p ! r)")
  case True
  let ?q = "release_sem r p" and ?i = "rs_ino (up_res p ! r)"
  have q: "pool_ok ?q" by (rule release_sem_ok [OF assms])
  have pos: "0 < held (up_res ?q) ?i" using held_pos [of r "up_res ?q"] True assms(2) by simp
  have h: "held ((up_res ?q)[r := (up_res ?q ! r)\<lparr>rs_pending := False\<rparr>]) = (held (up_res ?q))(?i := held (up_res ?q) ?i - 1)"
    by (rule ext) (use True assms(2) in \<open>auto simp: held_update\<close>)
  show ?thesis
    using q True assms(2) pd_end_ok [of "held (up_res ?q)" "up_pending ?q" ?i] pos
    by (auto simp: pool_ok_def release_def Let_def h counts_update)
next
  case False
  then show ?thesis using release_sem_ok [OF assms] assms(2) by (simp add: release_def)
qed

lemma shutdown_ok: "pool_ok p \<Longrightarrow> pool_ok (shutdown p)"
  by (simp add: shutdown_def pool_ok_def)

lemma pool_step_ok: "pool_step p q \<Longrightarrow> pool_ok p \<Longrightarrow> pool_ok q"
  by (erule pool_step.cases) (simp_all add: register_ok acquire_sem_ok release_sem_ok release_ok shutdown_ok)

lemma pool_run_ok: "pool_run p q \<Longrightarrow> pool_ok p \<Longrightarrow> pool_ok q"
  by (induction rule: pool_run.induct) (auto intro: pool_step_ok)

lemma pool_reachable_ok: "pool_reachable p \<Longrightarrow> pool_ok p"
  using pool_run_ok new_pool_ok by (auto simp: pool_reachable_def)

text \<open>What a step may do to one reservation and to the channels.\<close>

lemma pool_step_res:
  assumes "pool_step p q" "r < length (up_res p)"
  shows "r < length (up_res q)" "rs_ino (up_res q ! r) = rs_ino (up_res p ! r)"
    "rs_pending (up_res q ! r) \<Longrightarrow> rs_pending (up_res p ! r)"
proof -
  have "r < length (up_res q) \<and> rs_ino (up_res q ! r) = rs_ino (up_res p ! r) \<and>
      (rs_pending (up_res q ! r) \<longrightarrow> rs_pending (up_res p ! r))"
    using assms
    by (cases rule: pool_step.cases)
      (auto simp: register_def nth_append acquire_sem_def release_sem_def release_def shutdown_def nth_list_update Let_def)
  then show "r < length (up_res q)" "rs_ino (up_res q ! r) = rs_ino (up_res p ! r)"
    "rs_pending (up_res q ! r) \<Longrightarrow> rs_pending (up_res p ! r)" by auto
qed

lemma pool_step_chan:
  assumes "pool_step p q" "pool_ok p" "map_of (pd_drains (up_pending p)) i = Some c"
  shows "map_of (pd_drains (up_pending q)) i = Some c \<or>
    map_of (pd_drains (up_pending q)) i = None \<and> c \<in> set (pd_closed (up_pending q))"
  using assms(1)
proof (cases rule: pool_step.cases)
  case (step_register ino)
  then show ?thesis using assms(3) by (auto simp: register_def pd_begin_def Let_def update_conv' split: option.splits)
next
  case (step_release r)
  let ?p = "release_sem r p" and ?j = "rs_ino (up_res p ! r)"
  have ok: "pending_ok (held (up_res ?p)) (up_pending p)"
    using release_sem_ok [OF assms(2) step_release(2)] by (simp add: pool_ok_def)
  show ?thesis
  proof (cases "rs_pending (up_res p ! r)")
    case True
    then have "0 < held (up_res ?p) ?j" using held_pos [of r "up_res ?p"] step_release(2) by simp
    from pd_end_closed [OF ok this] show ?thesis
      using step_release True assms(3) by (auto simp: release_def Let_def)
  next
    case False
    then show ?thesis using step_release assms(3) by (simp add: release_def)
  qed
qed (use assms(3) in \<open>auto simp: acquire_sem_def release_sem_def shutdown_def\<close>)

lemma pool_step_closed_mono:
  assumes "pool_step p q" "c \<in> set (pd_closed (up_pending p))"
  shows "c \<in> set (pd_closed (up_pending q))"
  using assms
  by (cases rule: pool_step.cases)
    (auto simp: register_def pd_begin_def pd_end_def acquire_sem_def release_sem_def release_def shutdown_def Let_def split: option.splits)

lemma pool_run_res:
  "pool_run p q \<Longrightarrow> r < length (up_res p) \<Longrightarrow>
   r < length (up_res q) \<and> rs_ino (up_res q ! r) = rs_ino (up_res p ! r) \<and>
   (rs_pending (up_res q ! r) \<longrightarrow> rs_pending (up_res p ! r))"
  by (induction rule: pool_run.induct) (auto dest: pool_step_res)

lemma pool_run_chan:
  "pool_run p q \<Longrightarrow> pool_ok p \<Longrightarrow> map_of (pd_drains (up_pending p)) i = Some c \<Longrightarrow>
   (map_of (pd_drains (up_pending q)) i = Some c \<and> c \<notin> set (pd_closed (up_pending q)) \<or> c \<in> set (pd_closed (up_pending q)))"
  by (induction rule: pool_run.induct) (use pool_step_chan pool_step_closed_mono pool_run_ok in blast)+

lemma pool_run_held_open:
  "pool_run p q \<Longrightarrow> pool_ok p \<Longrightarrow> map_of (pd_drains (up_pending p)) i = Some c \<Longrightarrow>
   r < length (up_res p) \<Longrightarrow> rs_ino (up_res p ! r) = i \<Longrightarrow> rs_pending (up_res q ! r) \<Longrightarrow>
   map_of (pd_drains (up_pending q)) i = Some c \<and> c \<notin> set (pd_closed (up_pending q))"
proof (induction rule: pool_run.induct)
  case (run_refl p)
  then show ?case by (auto simp: pool_ok_def pending_ok_def dest: maps_okD(5))
next
  case (run_step p q q')
  have q: "r < length (up_res q)" "rs_ino (up_res q ! r) = i" using pool_run_res [OF run_step(1,6)] run_step.prems by auto
  then have "rs_pending (up_res q ! r)" using pool_step_res [OF run_step(2)] run_step.prems by auto
  then have d: "map_of (pd_drains (up_pending q)) i = Some c" using run_step by blast
  have ok: "pool_ok q" "pool_ok q'" using run_step pool_run_ok pool_step_ok by blast+
  have maps: "maps_ok (held (up_res q')) (map_of (pd_counts (up_pending q')))
      (map_of (pd_drains (up_pending q'))) (pd_next (up_pending q')) (set (pd_closed (up_pending q')))"
    using ok(2) by (simp add: pool_ok_def pending_ok_def)
  have "0 < held (up_res q') i"
    using held_pos [of r "up_res q'"] pool_step_res [OF run_step(2) q(1)] q(2) run_step.prems by auto
  then have "map_of (pd_drains (up_pending q')) i \<noteq> None" using maps_okD(3) [OF maps, of i] by simp
  then have "map_of (pd_drains (up_pending q')) i = Some c" using pool_step_chan [OF run_step(2) ok(1) d] by auto
  then show ?case using maps_okD(5) [OF maps] by blast
qed

lemma held_zero: "(\<forall>r<length rs. rs_ino (rs ! r) = i \<longrightarrow> \<not> rs_pending (rs ! r)) \<Longrightarrow> held rs i = 0"
  by (auto simp: held_def filter_empty_conv in_set_conv_nth)

section \<open>Properties\<close>

text \<open>C35. The upload pool never exceeds its concurrency cap: in every state any interleaving of
  registrations, slot acquisitions and releases can reach, the slots in use are exactly the
  reservations holding one, at most the cap, the wait group counts the pending registrations,
  and so does \<open>Total\<close> of the barrier per inode; a release never waits for a slot to give back.\<close>

theorem pool_accounting:
  assumes "pool_reachable p"
  shows "in_flight p = sem_count (up_res p) \<and> in_flight p \<le> up_cap p \<and>
    up_wg p = pend_count (up_res p) \<and> (\<forall>ino. pd_count (up_pending p) ino = held (up_res p) ino) \<and>
    (drained p \<longleftrightarrow> (\<forall>r<length (up_res p). \<not> rs_pending (up_res p ! r))) \<and>
    (\<forall>r<length (up_res p). rs_sem (up_res p ! r) \<longrightarrow> 0 < up_sem p) \<and>
    (\<forall>r<length (up_res p). release r (release r p) = release r p)"
proof -
  have ok: "pool_ok p" by (rule pool_reachable_ok [OF assms])
  have "0 < sem_count (up_res p)" if "r < length (up_res p)" "rs_sem (up_res p ! r)" for r
    using nth_mem [OF that(1)] that(2) by (auto simp: sem_count_def filter_empty_conv)
  moreover have "release r (release r p) = release r p" if "r < length (up_res p)" for r
    using that by (auto simp: release_def release_sem_def Let_def)
  moreover have "(pend_count (up_res p) = 0) = (\<forall>r<length (up_res p). \<not> rs_pending (up_res p ! r))"
    by (auto simp: pend_count_def filter_empty_conv all_set_conv_all_nth)
  ultimately show ?thesis
    using ok pd_count_maps by (auto simp: pool_ok_def in_flight_def drained_def)
qed

text \<open>A run: two uploads of one inode and one of another, one slot given back early.\<close>

definition pool1 :: upool where "pool1 = snd (register 7 (new_upload_pool 1))"
definition pool2 :: upool where "pool2 = snd (register 7 pool1)"
definition pool3 :: upool where "pool3 = snd (acquire_sem False 0 pool2)"
definition pool4 :: upool where "pool4 = release 0 pool3"
definition pool5 :: upool where "pool5 = release 1 pool4"

lemmas pool_demo_defs = pool1_def pool2_def pool3_def pool4_def pool5_def

lemma pool_run_demo: "pool_run (new_upload_pool 1) pool2" "pool_run pool2 pool4" "pool_run pool2 pool5"
proof -
  show "pool_run (new_upload_pool 1) pool2"
    unfolding pool1_def pool2_def by (rule run_step [OF run_step [OF run_refl]]) (rule step_register)+
  have len: "length (up_res pool2) = 2" "length (up_res pool3) = 2" "length (up_res pool4) = 2" by code_simp+
  have "fst (acquire_sem False 0 pool2) = Returns ()" by code_simp
  then have 3: "pool_run pool2 pool3"
    unfolding pool3_def by (intro run_step [OF run_refl] step_acquire) (simp_all add: len)
  then show 4: "pool_run pool2 pool4"
    unfolding pool4_def by (rule run_step) (rule step_release, simp add: len)
  show "pool_run pool2 pool5"
    unfolding pool5_def using 4 by (rule run_step) (rule step_release, simp add: len)
qed

lemma pool_demo_reachable: "pool_reachable pool2"
  using pool_run_demo(1) by (auto simp: pool_reachable_def)

theorem pool_accounting_witness:
  "in_flight pool2 \<le> up_cap pool2 \<and> up_wg pool2 = pend_count (up_res pool2)"
  using pool_accounting [OF pool_demo_reachable] by blast



end
