(* ===== verification/WriterBuf.thy ===== *)
theory WriterBuf
  imports Packer Pool
begin

text \<open>
  The buffering half of the \<open>Writer\<close> of \<open>internal/chunk/writer.go\<close>: \<open>WriteAt\<close>, \<open>Truncate\<close>, the hole
  handling, the promotion to a larger chunk tier and the dispatch of dirty chunks.  A Go map from
  chunk numbers is an association list; the data of a chunk in flight is kept beside its entry
  in \<open>w_uploading\<close>, as the upload goroutine's closure keeps it.  \<open>we_fetch\<close> is \<open>Cache.Get\<close> for a
  row, \<open>we_wait\<close> is what the rest of the program leaves when a wait for a chunk in flight ends,
  \<open>we_gate\<close> the staging gate of the pool.  The lock is held throughout, except in the waits.
\<close>

section \<open>State\<close>

datatype up_err =
  UpDedup meta_err | UpSeal crypto_err | UpStage | UpPack pack_err | UpCtx | UpSlot | UpNet string | UpChunkMap meta_err

datatype write_err =
  WNegative int | WClosed | WPreload int cache_err | WMeta meta_err | WCtx | WGate gate_err | WLost up_err | WRestored int | WStuck

record writer =
  w_ino :: int
  w_chunk_sz :: int
  w_dirty_cap :: int
  w_dirty :: "(int \<times> bytes) list"
  w_dirty_bytes :: int
  w_order :: "int list"
  w_size :: int
  w_closed :: bool
  w_sparse :: bool
  w_dispatched :: bool
  w_uploading :: "(int \<times> bytes) list"
  w_upload_err :: "write_err option"

record write_env =
  we_fetch :: "chunk \<Rightarrow> cache_err + bytes"
  we_wait :: "int \<Rightarrow> writer \<times> store \<Rightarrow> write_err + (writer \<times> store)"
  we_gate :: "int \<Rightarrow> gate_err + int"
  we_now :: int
  we_fuel :: nat

definition DefaultDirtyCapBytes :: int where "DefaultDirtyCapBytes = 268435456"
definition ChunkSize :: int where "ChunkSize = 4194304"

text \<open>\<open>NewWriter\<close> after the pending barrier.\<close>

definition new_writer :: "int \<Rightarrow> int \<Rightarrow> int \<Rightarrow> store \<Rightarrow> write_err + writer" where
  "new_writer ino chunk_size dirty_cap s =
     (case get_inode ino s of
        Inl e \<Rightarrow> Inl (WMeta e)
      | Inr i \<Rightarrow> Inr \<lparr>w_ino = ino,
          w_chunk_sz = (if i_chunk_size i > 0 then i_chunk_size i else if chunk_size \<le> 0 then ChunkSize else chunk_size),
          w_dirty_cap = (if dirty_cap \<le> 0 then DefaultDirtyCapBytes else dirty_cap),
          w_dirty = [], w_dirty_bytes = 0, w_order = [], w_size = i_size i, w_closed = False,
          w_sparse = i_sparse i, w_dispatched = (list_chunks ino s \<noteq> []), w_uploading = [], w_upload_err = None\<rparr>)"

section \<open>Chunks of the buffer\<close>

definition mark_sparse :: "writer \<Rightarrow> store \<Rightarrow> (write_err + unit) \<times> writer \<times> store" where
  "mark_sparse w s =
     (if w_sparse w then (Inr (), w, s)
      else (case set_inode_sparse (w_ino w) s of
              (Inl e, s1) \<Rightarrow> (Inl (WMeta e), w, s1)
            | (Inr _, s1) \<Rightarrow> (Inr (), w\<lparr>w_sparse := True\<rparr>, s1)))"

definition set_dirty :: "int \<Rightarrow> bytes \<Rightarrow> writer \<Rightarrow> writer" where
  "set_dirty idx d w = w\<lparr>w_dirty := AList.update idx d (w_dirty w)\<rparr>"

definition enter_dirty :: "int \<Rightarrow> bytes \<Rightarrow> writer \<Rightarrow> writer" where
  "enter_dirty idx d w = w\<lparr>w_dirty := AList.update idx d (w_dirty w), w_order := w_order w @ [idx],
     w_dirty_bytes := w_dirty_bytes w + blen d\<rparr>"

text \<open>The loop of \<open>loadForWrite\<close>; n bounds the number of waits.\<close>

fun load_for_write :: "write_env \<Rightarrow> nat \<Rightarrow> int \<Rightarrow> writer \<Rightarrow> store \<Rightarrow> (write_err + bytes) \<times> writer \<times> store" where
  "load_for_write E 0 idx w s = (Inl WStuck, w, s)"
| "load_for_write E (Suc n) idx w s =
     (case map_of (w_dirty w) idx of
        Some d \<Rightarrow> (Inr d, w, s)
      | None \<Rightarrow>
          (case map_of (w_uploading w) idx of
             Some _ \<Rightarrow>
               (case we_wait E idx (w, s) of
                  Inl e \<Rightarrow> (Inl e, w, s)
                | Inr (w1, s1) \<Rightarrow>
                    (case w_upload_err w1 of
                       Some e \<Rightarrow> (Inl e, w1, s1)
                     | None \<Rightarrow> load_for_write E n idx w1 s1))
           | None \<Rightarrow>
               (case get_chunk (w_ino w) idx s of
                  Inr c \<Rightarrow>
                    (case we_fetch E c of
                       Inl e \<Rightarrow> (Inl (WPreload idx e), w, s)
                     | Inr d \<Rightarrow> (Inr d, enter_dirty idx d w, s))
                | Inl e \<Rightarrow>
                    if e = ErrNotFound then (Inr [], enter_dirty idx [] w, s)
                    else (Inl (WMeta e), w, s))))"

definition zeros :: "int \<Rightarrow> bytes" where "zeros n = replicate (nat n) 0"

definition grow_chunk :: "int \<Rightarrow> int \<Rightarrow> bytes \<Rightarrow> writer \<Rightarrow> bytes \<times> writer" where
  "grow_chunk need idx d w =
     (if blen d \<ge> need then (d, w)
      else let d' = d @ zeros (need - blen d)
           in (d', (set_dirty idx d' w)\<lparr>w_dirty_bytes := w_dirty_bytes w + (need - blen d)\<rparr>))"

text \<open>\<open>copy(d[at:at+len(src)], src)\<close>.\<close>

definition overwrite :: "bytes \<Rightarrow> int \<Rightarrow> bytes \<Rightarrow> bytes" where
  "overwrite d at src = take (nat at) d @ src @ drop (nat at + length src) d"

section \<open>Zero filling\<close>

fun zero_loop :: "write_env \<Rightarrow> int list \<Rightarrow> int \<Rightarrow> int \<Rightarrow> writer \<Rightarrow> store \<Rightarrow> (write_err + unit) \<times> writer \<times> store" where
  "zero_loop E [] from to w s = (Inr (), w, s)"
| "zero_loop E (idx # idxs) from to w s =
     (case load_for_write E (we_fuel E) idx w s of
        (Inl e, w1, s1) \<Rightarrow> (Inl e, w1, s1)
      | (Inr d, w1, s1) \<Rightarrow>
          let base = idx * w_chunk_sz w1;
              r0 = (if from - base < 0 then 0 else from - base);
              r1 = (if to - base > w_chunk_sz w1 then w_chunk_sz w1 else to - base);
              (d1, w2) = grow_chunk r1 idx d w1;
              z1 = (if r1 > blen d1 then blen d1 else r1);
              d2 = (if blen d1 > r0 \<and> r0 < z1 then overwrite d1 r0 (zeros (z1 - r0)) else d1)
          in zero_loop E idxs from to (set_dirty idx d2 w2) s1)"

definition materialize_zeros :: "write_env \<Rightarrow> int \<Rightarrow> int \<Rightarrow> writer \<Rightarrow> store \<Rightarrow> (write_err + unit) \<times> writer \<times> store" where
  "materialize_zeros E from to w s =
     (if from \<ge> to then (Inr (), w, s)
      else (case zero_loop E [to_int32 (go_div from (w_chunk_sz w))..to_int32 (go_div (to - 1) (w_chunk_sz w))] from to w s of
              (Inl e, w1, s1) \<Rightarrow> (Inl e, w1, s1)
            | (Inr _, w1, s1) \<Rightarrow> (Inr (), if to > w_size w1 then w1\<lparr>w_size := to\<rparr> else w1, s1)))"

section \<open>Promotion\<close>

text \<open>Laying one dirty chunk into the contiguous buffer.\<close>

definition lay :: "int \<Rightarrow> bytes \<Rightarrow> bytes \<Rightarrow> bytes" where
  "lay off d buf =
     (if off \<ge> blen buf then buf
      else let end' = (if off + blen d > blen buf then blen buf else off + blen d)
           in overwrite buf off (take (nat (end' - off)) d))"

definition flatten :: "writer \<Rightarrow> bytes" where
  "flatten w = fold (\<lambda>(idx, d). lay (idx * w_chunk_sz w) d) (w_dirty w) (zeros (w_size w))"

text \<open>Cutting the buffer into chunks of the target size.\<close>

definition recut :: "int \<Rightarrow> int \<Rightarrow> bytes \<Rightarrow> (int \<times> bytes) list" where
  "recut target sz buf =
     map (\<lambda>i. (to_int32 (go_div (i * target) target), take (nat target) (drop (nat (i * target)) buf)))
       (if sz \<le> 0 then [] else [0..go_div (sz - 1) target])"

definition maybe_promote :: "writer \<Rightarrow> store \<Rightarrow> (write_err + unit) \<times> writer \<times> store" where
  "maybe_promote w s =
     (if w_dispatched w \<or> w_sparse w \<or> w_chunk_sz w < TierSmallChunkSize then (Inr (), w, s)
      else
        let target = pick_tier_chunk_size (w_size w) in
        if target \<le> w_chunk_sz w then (Inr (), w, s)
        else
          let cs = recut target (w_size w) (flatten w);
              w1 = w\<lparr>w_dirty := cs, w_order := map fst cs, w_dirty_bytes := sum_list (map (blen \<circ> snd) cs),
                     w_chunk_sz := target\<rparr>
          in (case set_inode_chunk_size (w_ino w) target s of
                (Inl e, s1) \<Rightarrow> (Inl (WMeta e), w1, s1)
              | (Inr _, s1) \<Rightarrow> (Inr (), w1, s1)))"

section \<open>Dispatch\<close>

text \<open>
  A dirty chunk becomes a chunk in flight; when the staging gate refuses, it goes back to the
  front of the queue.
\<close>

definition dispatch_flush :: "write_env \<Rightarrow> int \<Rightarrow> writer \<Rightarrow> (write_err + unit) \<times> writer" where
  "dispatch_flush E idx w =
     (case map_of (w_dirty w) idx of
        None \<Rightarrow> (Inr (), w\<lparr>w_order := remove1 idx (w_order w)\<rparr>)
      | Some d \<Rightarrow>
          let w1 = w\<lparr>w_dispatched := True, w_dirty := AList.delete idx (w_dirty w), w_order := remove1 idx (w_order w),
                     w_dirty_bytes := w_dirty_bytes w - blen d, w_uploading := AList.update idx d (w_uploading w)\<rparr>
          in (case we_gate E (blen d) of
                Inr _ \<Rightarrow> (Inr (), w1)
              | Inl e \<Rightarrow> (Inl (WGate e), w1\<lparr>w_uploading := AList.delete idx (w_uploading w1),
                     w_dirty := AList.update idx d (w_dirty w1), w_order := idx # w_order w1,
                     w_dirty_bytes := w_dirty_bytes w1 + blen d\<rparr>)))"

lemma dispatch_flush_order: "dispatch_flush E idx w = (Inr u, w1) \<Longrightarrow> w_order w1 = remove1 idx (w_order w)"
  by (auto simp: dispatch_flush_def Let_def split: option.splits sum.splits)

lemma remove1_hd_shorter: "xs \<noteq> [] \<Longrightarrow> length (remove1 (hd xs) xs) < length xs"
  by (cases xs) auto

text \<open>The eager dispatch of \<open>WriteAt\<close>, and the dispatch of every dirty chunk by \<open>Flush\<close> and \<open>Sync\<close>.\<close>

function eager_loop :: "write_env \<Rightarrow> writer \<Rightarrow> (write_err + unit) \<times> writer" where
  "eager_loop E w =
     (if w_dirty_bytes w > w_dirty_cap w \<and> w_order w \<noteq> [] then
        (case dispatch_flush E (hd (w_order w)) w of
           (Inl e, w1) \<Rightarrow> (Inl e, w1)
         | (Inr _, w1) \<Rightarrow> eager_loop E w1)
      else (Inr (), w))"
  by pat_completeness auto

termination
  by (relation "measure (\<lambda>(E, w). length (w_order w))")
    (auto dest!: dispatch_flush_order [OF sym] simp: remove1_hd_shorter)

declare eager_loop.simps [simp del]

fun dispatch_all :: "write_env \<Rightarrow> int list \<Rightarrow> writer \<Rightarrow> (write_err + unit) \<times> writer" where
  "dispatch_all E [] w = (Inr (), w)"
| "dispatch_all E (idx # idxs) w =
     (case dispatch_flush E idx w of (Inl e, w1) \<Rightarrow> (Inl e, w1) | (Inr _, w1) \<Rightarrow> dispatch_all E idxs w1)"

section \<open>WriteAt\<close>

text \<open>The loop over the touched chunks: the error if any, the bytes written.\<close>

fun write_loop :: "write_env \<Rightarrow> int list \<Rightarrow> int \<Rightarrow> bytes \<Rightarrow> int \<Rightarrow> writer \<Rightarrow> store
    \<Rightarrow> (write_err option \<times> int) \<times> writer \<times> store" where
  "write_loop E [] cur src written w s = ((None, written), w, s)"
| "write_loop E (idx # idxs) cur src written w s =
     (case load_for_write E (we_fuel E) idx w s of
        (Inl e, w1, s1) \<Rightarrow> ((Some e, written), w1, s1)
      | (Inr d, w1, s1) \<Rightarrow>
          let rel = cur - idx * w_chunk_sz w1;
              n = (if blen src < w_chunk_sz w1 - rel then blen src else w_chunk_sz w1 - rel);
              (d1, w2) = grow_chunk (rel + n) idx d w1;
              w3 = set_dirty idx (overwrite d1 rel (take (nat n) src)) w2;
              w4 = (if cur + n > w_size w3 then w3\<lparr>w_size := cur + n\<rparr> else w3)
          in write_loop E idxs (cur + n) (drop (nat n) src) (written + n) w4 s1)"

definition write_gap :: "write_env \<Rightarrow> int \<Rightarrow> writer \<Rightarrow> store \<Rightarrow> (write_err + unit) \<times> writer \<times> store" where
  "write_gap E off w s =
     (if off > w_size w then
        (if go_div (w_size w) (w_chunk_sz w) = go_div off (w_chunk_sz w) then materialize_zeros E (w_size w) off w s
         else mark_sparse w s)
      else (Inr (), w, s))"

definition write_at :: "write_env \<Rightarrow> bytes \<Rightarrow> int \<Rightarrow> writer \<Rightarrow> store \<Rightarrow> (write_err option \<times> int) \<times> writer \<times> store" where
  "write_at E src off w s =
     (if src = [] then ((None, 0), w, s)
      else if off < 0 then ((Some (WNegative off), 0), w, s)
      else if w_closed w then ((Some WClosed, 0), w, s)
      else (case write_gap E off w s of
          (Inl e, w1, s1) \<Rightarrow> ((Some e, 0), w1, s1)
        | (Inr _, w1, s1) \<Rightarrow>
            (case write_loop E [to_int32 (go_div off (w_chunk_sz w1))..to_int32 (go_div (off + blen src - 1) (w_chunk_sz w1))]
                    off src 0 w1 s1 of
               ((Some e, n), w2, s2) \<Rightarrow> ((Some e, n), w2, s2)
             | ((None, n), w2, s2) \<Rightarrow>
                 (case maybe_promote w2 s2 of
                    (Inl e, w3, s3) \<Rightarrow> ((Some e, n), w3, s3)
                  | (Inr _, w3, s3) \<Rightarrow>
                      (case eager_loop E w3 of
                         (Inl e, w4) \<Rightarrow> ((Some e, n), w4, s3)
                       | (Inr _, w4) \<Rightarrow> ((None, n), w4, s3))))))"

section \<open>Truncate\<close>

text \<open>Waiting out the uploads at and past the boundary chunk.\<close>

fun trunc_wait :: "write_env \<Rightarrow> nat \<Rightarrow> int \<Rightarrow> writer \<Rightarrow> store \<Rightarrow> (write_err + unit) \<times> writer \<times> store" where
  "trunc_wait E n lst w s =
     (case find (\<lambda>(idx, _). idx \<ge> lst) (w_uploading w) of
        None \<Rightarrow> (Inr (), w, s)
      | Some (idx, _) \<Rightarrow>
          (case n of
             0 \<Rightarrow> (Inl WStuck, w, s)
           | Suc m \<Rightarrow>
               (case we_wait E idx (w, s) of
                  Inl e \<Rightarrow> (Inl e, w, s)
                | Inr (w1, s1) \<Rightarrow> if w_closed w1 then (Inl WClosed, w1, s1) else trunc_wait E m lst w1 s1)))"

text \<open>Dropping the dirty chunks past the boundary and trimming the dirty boundary chunk.\<close>

definition trunc_dirty :: "int \<Rightarrow> int \<Rightarrow> writer \<Rightarrow> writer" where
  "trunc_dirty n lst w =
     (let rel = n - lst * w_chunk_sz w;
          gone = filter (\<lambda>(idx, _). idx > lst) (w_dirty w);
          kept = filter (\<lambda>(idx, _). idx \<le> lst) (w_dirty w);
          trim = (\<lambda>(idx, d). (idx, if idx = lst \<and> blen d > rel then take (nat rel) d else d));
          kept' = map trim kept
      in w\<lparr>w_dirty := kept', w_order := fold remove1 (map fst gone) (w_order w),
           w_dirty_bytes := w_dirty_bytes w - sum_list (map (blen \<circ> snd) gone)
             - (sum_list (map (blen \<circ> snd) kept) - sum_list (map (blen \<circ> snd) kept'))\<rparr>)"

text \<open>A persisted boundary chunk with bytes past the end is loaded, trimmed and made dirty.\<close>

definition trunc_boundary :: "write_env \<Rightarrow> int \<Rightarrow> int \<Rightarrow> writer \<Rightarrow> store \<Rightarrow> (write_err + unit) \<times> writer \<times> store" where
  "trunc_boundary E n lst w s =
     (let rel = n - lst * w_chunk_sz w in
      if lst < 0 \<or> rel \<le> 0 \<or> map_of (w_dirty w) lst \<noteq> None then (Inr (), w, s)
      else (case get_chunk (w_ino w) lst s of
          Inr c \<Rightarrow>
            if ch_size c > rel then
              (case load_for_write E (we_fuel E) lst w s of
                 (Inl e, w1, s1) \<Rightarrow> (Inl e, w1, s1)
               | (Inr d, w1, s1) \<Rightarrow>
                   if blen d > rel
                   then (Inr (), (set_dirty lst (take (nat rel) d) w1)\<lparr>w_dirty_bytes := w_dirty_bytes w1 - (blen d - rel)\<rparr>, s1)
                   else (Inr (), w1, s1))
            else (Inr (), w, s)
        | Inl e \<Rightarrow> if e = ErrNotFound then (Inr (), w, s) else (Inl (WMeta e), w, s)))"

definition meta_result :: "(meta_err + 'a) \<times> store \<Rightarrow> writer \<Rightarrow> (write_err + unit) \<times> writer \<times> store" where
  "meta_result r w = (case r of (Inl e, s) \<Rightarrow> (Inl (WMeta e), w, s) | (Inr _, s) \<Rightarrow> (Inr (), w, s))"

definition truncate_shrink :: "write_env \<Rightarrow> int \<Rightarrow> writer \<Rightarrow> store \<Rightarrow> (write_err + unit) \<times> writer \<times> store" where
  "truncate_shrink E n w s =
     (let lst = (if n = 0 then -1 else to_int32 (go_div (n - 1) (w_chunk_sz w))) in
      case trunc_wait E (we_fuel E) lst w s of
        (Inl e, w1, s1) \<Rightarrow> (Inl e, w1, s1)
      | (Inr _, w1, s1) \<Rightarrow>
          (case trunc_boundary E n lst (trunc_dirty n lst w1) s1 of
             (Inl e, w2, s2) \<Rightarrow> (Inl e, w2, s2)
           | (Inr _, w2, s2) \<Rightarrow>
               (case delete_chunks_above (w_ino w2) (to_int32 (lst + 1)) s2 of
                  (Inl e, s3) \<Rightarrow> (Inl (WMeta e), w2, s3)
                | (Inr _, s3) \<Rightarrow>
                    meta_result (set_size (we_now E) (w_ino w2) n s3) (w2\<lparr>w_size := n\<rparr>))))"

definition truncate :: "write_env \<Rightarrow> int \<Rightarrow> writer \<Rightarrow> store \<Rightarrow> (write_err + unit) \<times> writer \<times> store" where
  "truncate E n w s =
     (if n < 0 then (Inl (WNegative n), w, s)
      else if w_closed w then (Inl WClosed, w, s)
      else if n > w_size w then
        (case mark_sparse w s of
           (Inl e, w1, s1) \<Rightarrow> (Inl e, w1, s1)
         | (Inr _, w1, s1) \<Rightarrow> meta_result (set_size (we_now E) (w_ino w1) n s1) (w1\<lparr>w_size := n\<rparr>))
      else truncate_shrink E n w s)"

end
