(* ===== verification/WriterSpec.thy ===== *)
theory WriterSpec
  imports WriterBuf MetaSystem
begin

text \<open>
  What the buffering writer promises: a file is its size and its bytes, and \<open>WriteAt\<close> and
  \<open>Truncate\<close> act on it as POSIX says, through holes, partial chunks, promotion of the chunk size
  and eager dispatch.  The byte at a position comes from the dirty chunk, else from the chunk in
  flight, else from the stored row; everything else reads as zero.
\<close>

section \<open>Bytes\<close>

definition bget :: "bytes \<Rightarrow> int \<Rightarrow> 8 word" where
  "bget d r = (if 0 \<le> r \<and> r < blen d then d ! nat r else 0)"

lemma blen_simps [simp]: "blen [] = 0" "blen (x # d) = blen d + 1" "blen (d @ e) = blen d + blen e" "0 \<le> blen d"
  "blen (take (nat k) d) = (if k \<le> 0 then 0 else min k (blen d))"
  "blen (drop (nat k) d) = (if k \<le> 0 then blen d else max 0 (blen d - k))"
  by (auto simp: blen_def)

lemma blen_zeros [simp]: "blen (zeros n) = max 0 n"
  by (simp add: blen_def zeros_def)

lemma blen_0 [simp]: "blen d = 0 \<longleftrightarrow> d = []"
  by (simp add: blen_def)

lemma bget_Nil [simp]: "bget [] r = 0"
  by (auto simp: bget_def)

lemma bget_zeros [simp]: "bget (zeros n) r = 0"
  by (auto simp: bget_def zeros_def blen_def)

lemma bget_append: "bget (d @ e) r = (if r < blen d then bget d r else bget e (r - blen d))"
  by (auto simp: bget_def blen_def nth_append nat_diff_distrib)

lemma bget_grow [simp]: "bget (d @ zeros n) r = bget d r"
  by (auto simp: bget_append) (auto simp: bget_def)

lemma bget_take: "bget (take (nat k) d) r = (if r < k then bget d r else 0)"
  by (cases "k \<le> 0") (auto simp: bget_def blen_def)

lemma bget_drop: "0 \<le> k \<Longrightarrow> 0 \<le> r \<Longrightarrow> bget (drop (nat k) d) r = bget d (k + r)"
  by (auto simp: bget_def blen_def nat_add_distrib)

lemma bget_out [simp]: "r < 0 \<Longrightarrow> bget d r = 0" "blen d \<le> r \<Longrightarrow> bget d r = 0"
  by (auto simp: bget_def)

lemma blen_overwrite: "0 \<le> a \<Longrightarrow> a + blen src \<le> blen d \<Longrightarrow> blen (overwrite d a src) = blen d"
  by (auto simp: overwrite_def blen_def)

lemma bget_overwrite:
  assumes "0 \<le> a" "a + blen src \<le> blen d"
  shows "bget (overwrite d a src) r = (if a \<le> r \<and> r < a + blen src then bget src (r - a) else bget d r)"
proof -
  have split: "overwrite d a src = take (nat a) d @ src @ drop (nat (a + blen src)) d"
    using assms by (simp add: overwrite_def blen_def nat_add_distrib)
  have "a \<le> blen d" using assms blen_simps(4) [of src] by linarith
  then have la: "blen (take (nat a) d) = a" using assms(1) by simp
  show ?thesis
    unfolding split bget_append la using assms bget_drop [of "a + blen src" "r - a - blen src" d]
    by (auto simp: bget_take)
qed

section \<open>The file a writer stands for\<close>

definition stored :: "write_env \<Rightarrow> int \<Rightarrow> store \<Rightarrow> int \<Rightarrow> bytes option" where
  "stored E ino s idx = (case get_chunk ino idx s of Inl _ \<Rightarrow> None
     | Inr c \<Rightarrow> (case we_fetch E c of Inl _ \<Rightarrow> None | Inr d \<Rightarrow> Some d))"

definition wdata :: "write_env \<Rightarrow> writer \<Rightarrow> store \<Rightarrow> int \<Rightarrow> bytes option" where
  "wdata E w s idx = (case map_of (w_dirty w) idx of Some d \<Rightarrow> Some d
     | None \<Rightarrow> (case map_of (w_uploading w) idx of Some d \<Rightarrow> Some d | None \<Rightarrow> stored E (w_ino w) s idx))"

definition file_byte :: "write_env \<Rightarrow> writer \<Rightarrow> store \<Rightarrow> int \<Rightarrow> 8 word" where
  "file_byte E w s p = (case wdata E w s (p div w_chunk_sz w) of None \<Rightarrow> 0 | Some d \<Rightarrow> bget d (p mod w_chunk_sz w))"

text \<open>The invariant of an open writer, sole writer of its inode, whose stored chunks can be fetched.\<close>

definition winv :: "write_env \<Rightarrow> writer \<Rightarrow> store \<Rightarrow> bool" where
  "winv E w s \<longleftrightarrow> 0 < w_chunk_sz w \<and> 0 \<le> w_size w \<and> w_size w \<le> 2 ^ 31 * w_chunk_sz w \<and>
     \<not> w_closed w \<and> has_inode s (w_ino w) \<and> distinct (map fst (w_dirty w)) \<and> 0 < we_fuel E \<and>
     (\<forall>idx d. wdata E w s idx = Some d \<longrightarrow> 0 \<le> idx \<and> blen d \<le> w_chunk_sz w \<and>
        (d = [] \<or> idx * w_chunk_sz w + blen d \<le> w_size w)) \<and>
     (\<forall>idx c. get_chunk (w_ino w) idx s = Inr c \<longrightarrow> (\<exists>d. we_fetch E c = Inr d \<and> blen d = ch_size c)) \<and>
     (\<not> w_dispatched w \<longrightarrow> w_uploading w = [] \<and> (\<forall>idx. get_chunk (w_ino w) idx s = Inl ErrNotFound))"

lemma winvD:
  assumes "winv E w s"
  shows "0 < w_chunk_sz w" "0 \<le> w_size w" "w_size w \<le> 2 ^ 31 * w_chunk_sz w" "\<not> w_closed w" "has_inode s (w_ino w)"
    "distinct (map fst (w_dirty w))" "0 < we_fuel E"
    "wdata E w s idx = Some d \<Longrightarrow> 0 \<le> idx" "wdata E w s idx = Some d \<Longrightarrow> blen d \<le> w_chunk_sz w"
    "wdata E w s idx = Some d \<Longrightarrow> d = [] \<or> idx * w_chunk_sz w + blen d \<le> w_size w"
    "get_chunk (w_ino w) idx s = Inr c \<Longrightarrow> \<exists>d. we_fetch E c = Inr d \<and> blen d = ch_size c"
    "\<not> w_dispatched w \<Longrightarrow> w_uploading w = []" "\<not> w_dispatched w \<Longrightarrow> get_chunk (w_ino w) idx s = Inl ErrNotFound"
  using assms unfolding winv_def by blast+

text \<open>What every step keeps.\<close>

definition frame :: "writer \<Rightarrow> writer \<Rightarrow> bool" where
  "frame w w' \<longleftrightarrow> w_ino w' = w_ino w \<and> w_chunk_sz w' = w_chunk_sz w \<and> w_uploading w' = w_uploading w \<and>
     w_dispatched w' = w_dispatched w \<and> w_closed w' = w_closed w \<and> w_dirty_cap w' = w_dirty_cap w"

lemma frame_refl [simp]: "frame w w" by (simp add: frame_def)
lemma frame_trans: "frame a b \<Longrightarrow> frame b c \<Longrightarrow> frame a c" by (simp add: frame_def)

lemma file_byte_neg:
  assumes "winv E w s" "p < 0"
  shows "file_byte E w s p = 0"
proof -
  have "p div w_chunk_sz w < 0" using assms(2) winvD(1) [OF assms(1)] by (rule div_neg_pos_less0)
  then show ?thesis using winvD(8) [OF assms(1)] by (cases "wdata E w s (p div w_chunk_sz w)") (force simp: file_byte_def)+
qed

lemma file_byte_past_end:
  assumes "winv E w s" "w_size w \<le> p"
  shows "file_byte E w s p = 0"
proof (cases "wdata E w s (p div w_chunk_sz w)")
  case (Some d)
  have "p = p div w_chunk_sz w * w_chunk_sz w + p mod w_chunk_sz w" by simp
  then have "d = [] \<or> blen d \<le> p mod w_chunk_sz w" using winvD(10) [OF assms(1) Some] assms(2) by linarith
  then show ?thesis using Some by (auto simp: file_byte_def bget_def)
qed (simp add: file_byte_def)

lemma wdata_cong:
  "map_of (w_dirty w') = map_of (w_dirty w) \<Longrightarrow> w_uploading w' = w_uploading w \<Longrightarrow> w_ino w' = w_ino w \<Longrightarrow> wdata E w' s = wdata E w s"
  by (rule ext) (simp add: wdata_def split: option.split)

text \<open>Replacing the dirty data of one chunk.\<close>

lemma wdata_put:
  assumes "map_of (w_dirty w') = (map_of (w_dirty w))(idx \<mapsto> d)" "frame w w'"
  shows "wdata E w' s j = (if j = idx then Some d else wdata E w s j)"
proof -
  have "w_uploading w' = w_uploading w" "w_ino w' = w_ino w" using assms(2) by (simp_all add: frame_def)
  then show ?thesis using assms(1) by (simp add: wdata_def split: option.split)
qed

lemma winv_put:
  assumes "winv E w s" "map_of (w_dirty w') = (map_of (w_dirty w))(idx \<mapsto> d)" "frame w w'" "distinct (map fst (w_dirty w'))"
    "0 \<le> idx" "blen d \<le> w_chunk_sz w" "d = [] \<or> idx * w_chunk_sz w + blen d \<le> w_size w'"
    "w_size w \<le> w_size w'" "w_size w' \<le> 2 ^ 31 * w_chunk_sz w"
  shows "winv E w' s"
proof -
  note i = winvD [OF assms(1)]
  have f: "w_ino w' = w_ino w" "w_chunk_sz w' = w_chunk_sz w" "w_uploading w' = w_uploading w" "w_dispatched w' = w_dispatched w"
    "w_closed w' = w_closed w" using assms(3) by (simp_all add: frame_def)
  have "0 \<le> j \<and> blen e \<le> w_chunk_sz w \<and> (e = [] \<or> j * w_chunk_sz w + blen e \<le> w_size w')"
    if "wdata E w' s j = Some e" for j e
    using that wdata_put [OF assms(2,3), of E s j] i(8-10) [of j e] assms(5-8) by (auto split: if_splits)
  then show ?thesis using i f assms(4,8,9) by (simp add: winv_def)
qed

section \<open>Loading a chunk\<close>

lemma load_ok:
  assumes "winv E w s" "map_of (w_uploading w) idx = None" "0 \<le> idx" "0 < n"
  shows "\<exists>d w'. load_for_write E n idx w s = (Inr d, w', s) \<and> map_of (w_dirty w') idx = Some d \<and> winv E w' s \<and> frame w w' \<and>
    w_size w' = w_size w \<and> w_sparse w' = w_sparse w \<and> (\<forall>p. file_byte E w' s p = file_byte E w s p) \<and> d = (case wdata E w s idx of None \<Rightarrow> [] | Some d \<Rightarrow> d)"
proof -
  obtain m where n: "n = Suc m" using assms(4) by (cases n) auto
  note i = winvD [OF assms(1)]
  show ?thesis
  proof (cases "map_of (w_dirty w) idx")
    case (Some d)
    then show ?thesis using assms(1) n by (intro exI [of _ d] exI [of _ w]) (simp add: wdata_def)
  next
    case None
    obtain d where d: "load_for_write E n idx w s = (Inr d, enter_dirty idx d w, s)"
      "(wdata E w s idx = Some d) \<or> (wdata E w s idx = None \<and> d = [])"
    proof (cases "get_chunk (w_ino w) idx s")
      case (Inl e)
      then have "e = ErrNotFound" by (auto simp: get_chunk_def split: option.splits)
      then show ?thesis using that [of "[]"] Inl None assms(2) n by (simp add: wdata_def stored_def)
    next
      case (Inr c)
      then obtain d where "we_fetch E c = Inr d" using i(11) by blast
      then show ?thesis using that [of d] Inr None assms(2) n by (simp add: wdata_def stored_def)
    qed
    let ?w = "enter_dirty idx d w"
    have f: "frame w ?w" by (simp add: frame_def enter_dirty_def)
    have m: "map_of (w_dirty ?w) = (map_of (w_dirty w))(idx \<mapsto> d)" by (simp add: enter_dirty_def update_conv')
    have "blen d \<le> w_chunk_sz w" "d = [] \<or> idx * w_chunk_sz w + blen d \<le> w_size w" using d(2) i(1,9,10) by auto
    then have inv: "winv E ?w s"
      using winv_put [OF assms(1) m f _ assms(3)] i(3,6) by (simp add: enter_dirty_def distinct_update)
    have "file_byte E ?w s p = file_byte E w s p" for p
      using wdata_put [OF m f, of E s] d(2) by (auto simp: file_byte_def enter_dirty_def split: option.splits)
    then show ?thesis using d inv f m by (intro exI [of _ d] exI [of _ ?w]) (auto simp: enter_dirty_def)
  qed
qed

section \<open>Writing into one chunk\<close>

definition fill_chunk :: "int \<Rightarrow> int \<Rightarrow> int \<Rightarrow> bytes \<Rightarrow> bytes \<Rightarrow> writer \<Rightarrow> writer" where
  "fill_chunk idx rel n src d w =
     (let (d1, w2) = grow_chunk (rel + n) idx d w;
          w3 = set_dirty idx (overwrite d1 rel (take (nat n) src)) w2
      in if idx * w_chunk_sz w + rel + n > w_size w3 then w3\<lparr>w_size := idx * w_chunk_sz w + rel + n\<rparr> else w3)"

lemma grow_chunk_data: "fst (grow_chunk need idx d w) = (if blen d \<ge> need then d else d @ zeros (need - blen d))"
  by (simp add: grow_chunk_def Let_def)

lemma fill_chunk_ok:
  assumes "winv E w s" "map_of (w_dirty w) idx = Some d" "0 \<le> idx" "0 \<le> rel" "0 \<le> n" "n \<le> blen src" "rel + n \<le> w_chunk_sz w"
    "idx * w_chunk_sz w + rel + n \<le> 2 ^ 31 * w_chunk_sz w"
  shows "winv E (fill_chunk idx rel n src d w) s \<and> frame w (fill_chunk idx rel n src d w) \<and>
    w_size (fill_chunk idx rel n src d w) = max (w_size w) (idx * w_chunk_sz w + rel + n) \<and>
    w_sparse (fill_chunk idx rel n src d w) = w_sparse w \<and>
    (\<forall>p. file_byte E (fill_chunk idx rel n src d w) s p =
      (if idx * w_chunk_sz w + rel \<le> p \<and> p < idx * w_chunk_sz w + rel + n
       then bget src (p - (idx * w_chunk_sz w + rel)) else file_byte E w s p))"
proof -
  let ?w = "fill_chunk idx rel n src d w" and ?cs = "w_chunk_sz w"
  define d1 where "d1 = fst (grow_chunk (rel + n) idx d w)"
  define d2 where "d2 = overwrite d1 rel (take (nat n) src)"
  note i = winvD [OF assms(1)]
  have wd: "wdata E w s idx = Some d" using assms(2) by (simp add: wdata_def)
  have l1: "blen d1 = max (blen d) (rel + n)" by (simp add: d1_def grow_chunk_data)
  have g1: "bget d1 r = bget d r" for r by (simp add: d1_def grow_chunk_data)
  have ln: "blen (take (nat n) src) = n" using assms(5,6) by auto
  have l2: "blen d2 = blen d1" using blen_overwrite [of rel "take (nat n) src" d1] assms(4) ln l1 by (simp add: d2_def)
  have g2: "bget d2 r = (if rel \<le> r \<and> r < rel + n then bget src (r - rel) else bget d r)" for r
    using bget_overwrite [of rel "take (nat n) src" d1 r] assms(4) ln l1 g1 by (simp add: d2_def bget_take)
  have m: "map_of (w_dirty ?w) = (map_of (w_dirty w))(idx \<mapsto> d2)"
    by (auto simp: fill_chunk_def grow_chunk_def set_dirty_def Let_def update_conv' d2_def d1_def)
  have f: "frame w ?w" by (simp add: frame_def fill_chunk_def grow_chunk_def set_dirty_def Let_def)
  have sz: "w_size ?w = max (w_size w) (idx * ?cs + rel + n)"
    by (simp add: fill_chunk_def grow_chunk_def set_dirty_def Let_def)
  have dist: "distinct (map fst (w_dirty ?w))"
    using i(6) by (simp add: fill_chunk_def grow_chunk_def set_dirty_def Let_def distinct_update)
  have "blen d2 \<le> ?cs" using l1 l2 i(9) [OF wd] assms(7) by simp
  moreover have "d2 = [] \<or> idx * ?cs + blen d2 \<le> w_size ?w" using l1 l2 i(10) [OF wd] sz assms(4,5) by auto
  ultimately have inv: "winv E ?w s" using winv_put [OF assms(1) m f dist assms(3)] sz i(3) assms(8) by simp
  have "file_byte E ?w s p = (if idx * ?cs + rel \<le> p \<and> p < idx * ?cs + rel + n then bget src (p - (idx * ?cs + rel)) else file_byte E w s p)" for p
  proof (cases "p div ?cs = idx")
    case True
    have q: "p mod ?cs = p - idx * ?cs" using True by (simp add: minus_div_mult_eq_mod [symmetric])
    have "file_byte E ?w s p = bget d2 (p - idx * ?cs)"
      using True wdata_put [OF m f, of E s idx] f by (simp add: file_byte_def frame_def q)
    moreover have "file_byte E w s p = bget d (p - idx * ?cs)" using True wd by (simp add: file_byte_def q)
    ultimately show ?thesis using g2 [of "p - idx * ?cs"] by (auto simp: algebra_simps)
  next
    case False
    have "\<not> (idx * ?cs + rel \<le> p \<and> p < idx * ?cs + rel + n)"
    proof
      assume a: "idx * ?cs + rel \<le> p \<and> p < idx * ?cs + rel + n"
      have "p div ?cs = idx"
        using a assms(4,7) i(1) by (intro int_div_pos_eq [of _ _ _ "p - idx * ?cs"]) (auto simp: algebra_simps)
      then show False using False by simp
    qed
    then show ?thesis using False wdata_put [OF m f, of E s "p div ?cs"] f by (auto simp: file_byte_def frame_def split: option.split)
  qed
  then show ?thesis using inv f sz by (simp add: fill_chunk_def grow_chunk_def set_dirty_def Let_def)
qed


section \<open>The write loop\<close>

lemma write_loop_step:
  assumes "load_for_write E (we_fuel E) idx w s = (Inr d, w1, s1)" "rel = cur - idx * w_chunk_sz w1"
    "n = min (blen src) (w_chunk_sz w1 - rel)"
  shows "write_loop E (idx # idxs) cur src written w s =
    write_loop E idxs (cur + n) (drop (nat n) src) (written + n) (fill_chunk idx rel n src d w1) s1"
proof -
  have r: "cur - idx * w_chunk_sz w1 = rel" and c: "cur + n = idx * w_chunk_sz w1 + rel + n" using assms(2) by simp_all
  have n: "(if blen src < w_chunk_sz w1 - rel then blen src else w_chunk_sz w1 - rel) = n" using assms(3) by (simp add: min_def)
  obtain d1 w2 where g: "grow_chunk (rel + n) idx d w1 = (d1, w2)" by (cases "grow_chunk (rel + n) idx d w1")
  then have "w_chunk_sz w2 = w_chunk_sz w1" by (auto simp: grow_chunk_def set_dirty_def Let_def split: if_splits)
  then show ?thesis
    unfolding write_loop.simps assms(1) fill_chunk_def prod.case sum.case Let_def r n g c [symmetric] by simp
qed

lemma write_loop_ok:
  assumes "winv E w s" "0 \<le> cur" "src \<noteq> []" "cur + blen src \<le> 2 ^ 31 * w_chunk_sz w"
    "\<And>idx. cur div w_chunk_sz w \<le> idx \<Longrightarrow> idx \<le> (cur + blen src - 1) div w_chunk_sz w \<Longrightarrow> map_of (w_uploading w) idx = None"
  shows "\<exists>w'. write_loop E [cur div w_chunk_sz w..(cur + blen src - 1) div w_chunk_sz w] cur src written w s = ((None, written + blen src), w', s)
    \<and> winv E w' s \<and> frame w w' \<and> w_size w' = max (w_size w) (cur + blen src) \<and> w_sparse w' = w_sparse w
    \<and> (\<forall>p. file_byte E w' s p = (if cur \<le> p \<and> p < cur + blen src then bget src (p - cur) else file_byte E w s p))"
  using assms
proof (induction "length src" arbitrary: w cur src written rule: less_induct)
  case less
  let ?cs = "w_chunk_sz w"
  let ?a = "cur div ?cs" and ?b = "(cur + blen src - 1) div ?cs"
  note i = winvD [OF less.prems(1)]
  have l1: "1 \<le> blen src" using less.prems(3) blen_simps(4) [of src] blen_0 [of src] by linarith
  have ab: "?a \<le> ?b" using i(1) l1 by (intro zdiv_mono1) auto
  have a0: "0 \<le> ?a" using i(1) less.prems(2) by (simp add: pos_imp_zdiv_nonneg_iff)
  obtain d w1 where ld: "load_for_write E (we_fuel E) ?a w s = (Inr d, w1, s)" "map_of (w_dirty w1) ?a = Some d"
    "winv E w1 s" "frame w w1" "w_size w1 = w_size w" "w_sparse w1 = w_sparse w" "\<forall>p. file_byte E w1 s p = file_byte E w s p"
    using load_ok [OF less.prems(1) less.prems(5) a0 i(7)] ab by auto
  have cs: "w_chunk_sz w1 = ?cs" and up: "w_uploading w1 = w_uploading w" using ld(4) by (simp_all add: frame_def)
  define rel where "rel = cur - ?a * ?cs"
  define n where "n = min (blen src) (?cs - rel)"
  have rel: "rel = cur mod ?cs" by (simp add: rel_def minus_div_mult_eq_mod)
  have r: "0 \<le> rel" "rel < ?cs" using i(1) by (simp_all add: rel)
  have n: "1 \<le> n" "n \<le> blen src" "rel + n \<le> ?cs" using l1 r by (auto simp: n_def)
  have c: "cur = ?a * ?cs + rel" by (simp add: rel_def)
  let ?w = "fill_chunk ?a rel n src d w1"
  have st: "write_loop E [?a..?b] cur src written w s =
      write_loop E [?a + 1..?b] (cur + n) (drop (nat n) src) (written + n) ?w s"
    using upto_rec1 [OF ab] write_loop_step [OF ld(1), of rel cur n src "[?a + 1..?b]" written] by (simp add: cs rel_def n_def)
  have fc: "winv E ?w s" "frame w1 ?w" "w_size ?w = max (w_size w) (cur + n)" "w_sparse ?w = w_sparse w"
    "\<forall>p. file_byte E ?w s p = (if cur \<le> p \<and> p < cur + n then bget src (p - cur) else file_byte E w s p)"
    using fill_chunk_ok [OF ld(3,2) a0 r(1) _ n(2)] n less.prems(4) ld(5-7) c by (simp_all add: cs)
  have fr: "frame w ?w" using frame_trans [OF ld(4) fc(2)] .
  show ?case
  proof (cases "blen src \<le> ?cs - rel")
    case True
    have "?b = ?a" using True l1 r i(1) c by (intro int_div_pos_eq [of _ _ _ "rel + blen src - 1"]) (simp_all add: mult.commute)
    moreover have "n = blen src" using True by (simp add: n_def)
    ultimately show ?thesis using st fc fr by (intro exI [of _ ?w]) simp
  next
    case False
    then have n': "n = ?cs - rel" by (simp add: n_def)
    let ?t = "drop (nat n) src"
    have lt: "blen ?t = blen src - n" using n by auto
    have t: "?t \<noteq> []" using lt False n' blen_0 [of ?t] by auto
    have sh: "length ?t < length src" using n(1) less.prems(3) by simp
    have cs': "w_chunk_sz ?w = ?cs" and up': "w_uploading ?w = w_uploading w" using fr by (simp_all add: frame_def)
    have cn: "cur + n = (?a + 1) * ?cs" using c n' by (simp add: algebra_simps)
    have dv: "(cur + n) div ?cs = ?a + 1" unfolding cn using i(1) by simp
    have en: "cur + n + blen ?t = cur + blen src" using lt by simp
    obtain w' where w': "write_loop E [?a + 1..?b] (cur + n) ?t (written + n) ?w s = ((None, written + n + blen ?t), w', s)"
      "winv E w' s" "frame ?w w'" "w_size w' = max (w_size ?w) (cur + blen src)" "w_sparse w' = w_sparse ?w"
      "\<forall>p. file_byte E w' s p = (if cur + n \<le> p \<and> p < cur + blen src then bget ?t (p - (cur + n)) else file_byte E ?w s p)"
      using less.hyps [OF sh fc(1) _ t, of "cur + n" "written + n"] less.prems(2,4,5) n(1) unfolding cs' up' dv en by auto
    have "file_byte E w' s p = (if cur \<le> p \<and> p < cur + blen src then bget src (p - cur) else file_byte E w s p)" for p
      using w'(6) fc(5) n bget_drop [of n "p - (cur + n)" src] by auto
    moreover have "w_size w' = max (w_size w) (cur + blen src)" using w'(4) fc(3) n(2) by auto
    ultimately show ?thesis using st w' fc fr lt frame_trans [OF fr w'(3)] by (intro exI [of _ w']) simp
  qed
qed


section \<open>The store under a writer\<close>

text \<open>Only the chunk rows and the existence of inodes matter to the writer's invariant.\<close>

definition same_rows :: "store \<Rightarrow> store \<Rightarrow> bool" where
  "same_rows s t \<longleftrightarrow> st_chunks t = st_chunks s \<and> (\<forall>i. has_inode t i = has_inode s i)"

lemma same_rows_refl [simp]: "same_rows s s"
  by (simp add: same_rows_def)

lemma same_rows_get: "same_rows s t \<Longrightarrow> get_chunk i j t = get_chunk i j s"
  by (simp add: same_rows_def get_chunk_def)

lemma same_rows_wdata: "same_rows s t \<Longrightarrow> wdata E w t = wdata E w s"
  by (rule ext) (simp add: wdata_def stored_def same_rows_get split: option.split)

lemma same_rows_file: "same_rows s t \<Longrightarrow> file_byte E w t p = file_byte E w s p"
  by (simp add: file_byte_def same_rows_wdata)

lemma same_rows_winv: "same_rows s t \<Longrightarrow> winv E w t = winv E w s"
  by (simp add: winv_def same_rows_wdata same_rows_get) (simp add: same_rows_def)

lemma wdata_meta [simp]:
  "wdata E (w\<lparr>w_size := n\<rparr>) s = wdata E w s" "wdata E (w\<lparr>w_sparse := b\<rparr>) s = wdata E w s"
  by (simp_all add: wdata_def fun_eq_iff split: option.split)

lemma file_byte_meta [simp]:
  "file_byte E (w\<lparr>w_size := n\<rparr>) s p = file_byte E w s p" "file_byte E (w\<lparr>w_sparse := b\<rparr>) s p = file_byte E w s p"
  by (simp_all add: file_byte_def split: option.split)

lemma winv_grow: "winv E w s \<Longrightarrow> w_size w \<le> n \<Longrightarrow> n \<le> 2 ^ 31 * w_chunk_sz w \<Longrightarrow> winv E (w\<lparr>w_size := n\<rparr>) s"
  unfolding winv_def wdata_meta by (simp, fastforce)

lemma winv_sparse [simp]: "winv E (w\<lparr>w_sparse := b\<rparr>) s = winv E w s"
  by (simp add: winv_def)

lemma has_inode_upd: "(\<And>i. i_ino (f i) = i_ino i) \<Longrightarrow> has_inode (upd_inode ino f s) k = has_inode s k"
  by (auto simp: has_inode_def row_at_upd_inode)

lemma has_inode_journal [simp]: "has_inode (append_journal_tx op s) k = has_inode s k"
  "has_inode (s\<lparr>st_write_ctr := n\<rparr>) k = has_inode s k"
  by (simp_all add: has_inode_def)

lemma mark_sparse_ok:
  assumes "has_inode s (w_ino w)"
  shows "\<exists>t. mark_sparse w s = (Inr (), w\<lparr>w_sparse := True\<rparr>, t) \<and> same_rows s t"
proof (cases "w_sparse w")
  case True
  then have "w\<lparr>w_sparse := True\<rparr> = w" by simp
  then show ?thesis using True by (auto simp: mark_sparse_def)
next
  case False
  then show ?thesis using assms
    by (simp add: mark_sparse_def set_inode_sparse_def with_tx_def Let_def inode_rows_0 same_rows_def has_inode_upd)
qed

section \<open>Zero filling up to the offset\<close>

definition zero_chunk :: "int \<Rightarrow> int \<Rightarrow> int \<Rightarrow> bytes \<Rightarrow> writer \<Rightarrow> writer" where
  "zero_chunk idx r0 n d w = (let (d1, w2) = grow_chunk (r0 + n) idx d w in set_dirty idx (overwrite d1 r0 (zeros n)) w2)"

lemma fill_zero_chunk:
  "fill_chunk idx r0 n (zeros n) d w =
    (let w' = zero_chunk idx r0 n d w in if idx * w_chunk_sz w + r0 + n > w_size w' then w'\<lparr>w_size := idx * w_chunk_sz w + r0 + n\<rparr> else w')"
proof -
  have "take (nat n) (zeros n) = zeros n" by (simp add: zeros_def)
  then show ?thesis by (simp add: fill_chunk_def zero_chunk_def Let_def split: prod.split)
qed

lemma zero_loop_one:
  assumes "load_for_write E (we_fuel E) idx w s = (Inr d, w1, t)" "0 \<le> r0" "blen d \<le> r0" "0 < n" "r0 + n \<le> w_chunk_sz w1"
  shows "zero_loop E [idx] (idx * w_chunk_sz w1 + r0) (idx * w_chunk_sz w1 + r0 + n) w s = (Inr (), zero_chunk idx r0 n d w1, t)"
proof -
  let ?cs = "w_chunk_sz w1"
  have r: "(if idx * ?cs + r0 - idx * ?cs < 0 then 0 else idx * ?cs + r0 - idx * ?cs) = r0"
    "(if idx * ?cs + r0 + n - idx * ?cs > ?cs then ?cs else idx * ?cs + r0 + n - idx * ?cs) = r0 + n"
    using assms(2,5) by auto
  obtain d1 w2 where g: "grow_chunk (r0 + n) idx d w1 = (d1, w2)" by (cases "grow_chunk (r0 + n) idx d w1")
  then have "blen d1 = r0 + n" using assms(3,4) grow_chunk_data [of "r0 + n" idx d w1] by simp
  then have z: "(if blen d1 > r0 \<and> r0 < (if r0 + n > blen d1 then blen d1 else r0 + n)
      then overwrite d1 r0 (zeros ((if r0 + n > blen d1 then blen d1 else r0 + n) - r0)) else d1) = overwrite d1 r0 (zeros n)"
    using assms(4) by simp
  show ?thesis
    unfolding zero_loop.simps assms(1) sum.case prod.case Let_def r g z zero_chunk_def ..
qed

lemma write_gap_ok:
  assumes "winv E w s" "0 \<le> off" "off \<le> 2 ^ 31 * w_chunk_sz w" "map_of (w_uploading w) (off div w_chunk_sz w) = None"
  shows "\<exists>w' t. write_gap E off w s = (Inr (), w', t) \<and> same_rows s t \<and> winv E w' t \<and> frame w w' \<and>
    w_size w \<le> w_size w' \<and> w_size w' \<le> max (w_size w) off \<and> (\<forall>p. file_byte E w' t p = file_byte E w s p)"
proof -
  let ?cs = "w_chunk_sz w"
  note i = winvD [OF assms(1)]
  consider (inside) "off \<le> w_size w" | (far) "w_size w < off" "w_size w div ?cs \<noteq> off div ?cs"
    | (near) "w_size w < off" "w_size w div ?cs = off div ?cs" by linarith
  then show ?thesis
  proof cases
    case inside
    then show ?thesis using assms(1) by (simp add: write_gap_def)
  next
    case far
    obtain t where t: "mark_sparse w s = (Inr (), w\<lparr>w_sparse := True\<rparr>, t)" "same_rows s t" using mark_sparse_ok [OF i(5)] by blast
    then show ?thesis using far i(1,2) assms(1,2)
      by (simp add: write_gap_def same_rows_winv same_rows_file) (simp add: frame_def)
  next
    case near
    let ?a = "w_size w div ?cs"
    have c: "w_size w = ?a * ?cs + w_size w mod ?cs" by simp
    have hi: "off - ?a * ?cs < ?cs" using near(2) i(1) by (simp add: minus_div_mult_eq_mod)
    have lo: "?a \<le> (off - 1) div ?cs" "(off - 1) div ?cs \<le> off div ?cs" using near(1) i(1) by (auto intro!: zdiv_mono1)
    then have one: "(off - 1) div ?cs = ?a" using near(2) by simp
    have a0: "0 \<le> ?a" using i(1,2) by (simp add: pos_imp_zdiv_nonneg_iff)
    have "?a * ?cs < 2 ^ 31 * ?cs" using near(1) assms(3) c pos_mod_sign [OF i(1), of "w_size w"] by linarith
    then have a31: "?a < 2 ^ 31" using i(1) by simp
    obtain d w1 where ld: "load_for_write E (we_fuel E) ?a w s = (Inr d, w1, s)" "map_of (w_dirty w1) ?a = Some d"
      "winv E w1 s" "frame w w1" "w_size w1 = w_size w" "\<forall>p. file_byte E w1 s p = file_byte E w s p"
      using load_ok [OF assms(1) _ a0 i(7)] assms(4) near(2) by auto
    have cs: "w_chunk_sz w1 = ?cs" using ld(4) by (simp add: frame_def)
    define r0 where "r0 = w_size w - ?a * ?cs"
    define n where "n = off - w_size w"
    have r0: "0 \<le> r0" using c i(1) by (simp add: r0_def minus_div_mult_eq_mod)
    have wd: "wdata E w1 s ?a = Some d" using ld(2) by (simp add: wdata_def)
    have bd: "blen d \<le> r0" using winvD(10) [OF ld(3) wd] ld(5) r0 by (auto simp: r0_def cs)
    let ?w = "fill_chunk ?a r0 n (zeros n) d w1"
    have rn: "off - ?a * ?cs = r0 + n" by (simp add: r0_def n_def)
    have fc: "winv E ?w s" "frame w1 ?w" "w_size ?w = off" "\<forall>p. file_byte E ?w s p = file_byte E w s p"
    proof -
      have *: "?a * ?cs + r0 = w_size w" "w_size w + n = off" by (simp_all add: r0_def n_def)
      note f = fill_chunk_ok [OF ld(3,2) a0 r0, of n "zeros n", unfolded cs *]
      have h: "0 \<le> n" "n \<le> blen (zeros n)" "r0 + n \<le> ?cs" using near(1) hi rn by (auto simp: n_def)
      show "winv E ?w s" "frame w1 ?w" "w_size ?w = off" using f [OF h assms(3)] near(1) ld(5) by auto
      show "\<forall>p. file_byte E ?w s p = file_byte E w s p"
        using f [OF h assms(3)] ld(6) file_byte_past_end [OF assms(1)] by auto
    qed
    have of': "off = ?a * ?cs + r0 + n" "w_size w = ?a * ?cs + r0" by (simp_all add: r0_def n_def)
    have zl: "zero_loop E [?a] (w_size w) off w s = (Inr (), zero_chunk ?a r0 n d w1, s)"
      using zero_loop_one [OF ld(1) r0 bd, of n] near(1) hi rn unfolding cs of'(1) by (simp add: n_def r0_def)
    have fz: "?w = (let w' = zero_chunk ?a r0 n d w1 in if off > w_size w' then w'\<lparr>w_size := off\<rparr> else w')"
      using fill_zero_chunk [of ?a r0 n d w1] unfolding cs of'(1) [symmetric] .
    have "materialize_zeros E (w_size w) off w s = (Inr (), ?w, s)"
      using zl near(1) i(1,2) one a0 a31 fz by (simp add: materialize_zeros_def to_int32_id)
    then show ?thesis using near fc frame_trans [OF ld(4) fc(2)] i(1,2) assms(2) by (intro exI [of _ ?w] exI [of _ s]) (simp add: write_gap_def)
  qed
qed


section \<open>Promotion to a larger tier\<close>

lemma blen_lay [simp]: "0 \<le> off \<Longrightarrow> blen (lay off d buf) = blen buf"
  by (auto simp: lay_def Let_def blen_overwrite)

lemma bget_lay:
  "0 \<le> off \<Longrightarrow> bget (lay off d buf) p = (if off \<le> p \<and> p < off + blen d \<and> p < blen buf then bget d (p - off) else bget buf p)"
  by (auto simp: lay_def Let_def bget_overwrite bget_take)

lemma lay_all:
  assumes "distinct (map fst ds)" "\<forall>(idx, d)\<in>set ds. 0 \<le> idx \<and> blen d \<le> cs" "0 < cs"
  shows "blen (fold (\<lambda>(idx, d). lay (idx * cs) d) ds buf) = blen buf \<and>
    bget (fold (\<lambda>(idx, d). lay (idx * cs) d) ds buf) p =
      (case map_of ds (p div cs) of None \<Rightarrow> bget buf p
       | Some d \<Rightarrow> if p mod cs < blen d \<and> p < blen buf then bget d (p mod cs) else bget buf p)"
  using assms
proof (induction ds arbitrary: buf)
  case (Cons x ds)
  obtain idx d where x: "x = (idx, d)" by (cases x)
  have h: "0 \<le> idx" "blen d \<le> cs" "distinct (map fst ds)" "\<forall>(idx, d)\<in>set ds. 0 \<le> idx \<and> blen d \<le> cs" "map_of ds idx = None"
    using Cons.prems by (auto simp: x map_of_eq_None_iff)
  have o: "0 \<le> idx * cs" using h(1) assms(3) by simp
  have q: "idx * cs \<le> p \<and> p < idx * cs + blen d \<longleftrightarrow> p div cs = idx \<and> p mod cs < blen d"
  proof
    assume a: "idx * cs \<le> p \<and> p < idx * cs + blen d"
    have "p div cs = idx" using a h(2) by (intro int_div_pos_eq [of _ _ _ "p - idx * cs"]) (auto simp: algebra_simps)
    then show "p div cs = idx \<and> p mod cs < blen d" using a by (simp add: minus_div_mult_eq_mod [symmetric])
  next
    assume "p div cs = idx \<and> p mod cs < blen d"
    then show "idx * cs \<le> p \<and> p < idx * cs + blen d"
      using pos_mod_sign [OF assms(3), of p] minus_div_mult_eq_mod [of p cs] by auto
  qed
  have m: "p div cs = idx \<Longrightarrow> p - idx * cs = p mod cs" by (simp add: minus_div_mult_eq_mod [symmetric])
  show ?case
    using Cons.IH [OF h(3,4) assms(3), of "lay (idx * cs) d buf"] o h(5) q m
    by (auto simp: x bget_lay split: option.split)
qed simp

lemma flatten_byte:
  assumes "winv E w s" "\<not> w_dispatched w"
  shows "blen (flatten w) = w_size w" "0 \<le> p \<Longrightarrow> p < w_size w \<Longrightarrow> bget (flatten w) p = file_byte E w s p"
proof -
  note i = winvD [OF assms(1)]
  have "0 \<le> idx \<and> blen d \<le> w_chunk_sz w" if "(idx, d) \<in> set (w_dirty w)" for idx d
    using i(8,9) [of idx d] map_of_is_SomeI [OF i(6) that] by (simp add: wdata_def)
  then have ok: "\<forall>(idx, d)\<in>set (w_dirty w). 0 \<le> idx \<and> blen d \<le> w_chunk_sz w" by auto
  note l = lay_all [OF i(6) ok i(1), of "zeros (w_size w)" p]
  show "blen (flatten w) = w_size w" using l i(2) by (simp add: flatten_def)
  have wd: "wdata E w s j = map_of (w_dirty w) j" for j
    using i(12,13) assms(2) by (simp add: wdata_def stored_def split: option.split)
  show "bget (flatten w) p = file_byte E w s p" if "0 \<le> p" "p < w_size w"
    using l i(2) that by (auto simp: flatten_def file_byte_def wd split: option.split)
qed

lemma map_of_enum: "map_of (map (\<lambda>i. (i, f i)) xs) j = (if j \<in> set xs then Some (f j) else None)"
  by (induction xs) auto

lemma recut_enum:
  assumes "0 < target" "0 < sz" "sz \<le> 2 ^ 31 * target"
  shows "recut target sz buf = map (\<lambda>i. (i, take (nat target) (drop (nat (i * target)) buf))) [0..(sz - 1) div target]"
proof -
  have "(sz - 1) div target \<le> (2 ^ 31 * target - 1) div target" using assms(1,3) by (intro zdiv_mono1) auto
  moreover have "(2 ^ 31 * target - 1) div target = 2 ^ 31 - 1"
    using assms(1) by (intro int_div_pos_eq [of _ _ _ "target - 1"]) (simp_all add: algebra_simps)
  ultimately have "(sz - 1) div target < 2 ^ 31" by simp
  then have "to_int32 (go_div (i * target) target) = i" if "0 \<le> i" "i \<le> (sz - 1) div target" for i
    using that assms(1) by (simp add: to_int32_id)
  then show ?thesis using assms(1,2) by (auto simp: recut_def)
qed


lemma no_rows:
  assumes "\<And>idx. get_chunk ino idx s = Inl ErrNotFound"
  shows "cnt_where (\<lambda>c. c_ino c = ino) (st_chunks s) = 0"
proof -
  have "c_ino r \<noteq> ino" if "r \<in> set (st_chunks s)" for r
  proof
    assume "c_ino r = ino"
    moreover have "row_at ckey (st_chunks s) (ino, c_idx r) = None"
      using assms [of "c_idx r"] by (simp add: get_chunk_def split: option.splits)
    ultimately show False using that by (auto simp: row_at_None_iff)
  qed
  then show ?thesis by (simp add: cnt_where_0)
qed

definition recut_writer :: "int \<Rightarrow> writer \<Rightarrow> writer" where
  "recut_writer target w = (let cs = recut target (w_size w) (flatten w) in
     w\<lparr>w_dirty := cs, w_order := map fst cs, w_dirty_bytes := sum_list (map (blen \<circ> snd) cs), w_chunk_sz := target\<rparr>)"

lemma recut_writer_ok:
  assumes "winv E w s" "\<not> w_dispatched w" "w_chunk_sz w < target" "0 < w_size w"
  shows "winv E (recut_writer target w) s \<and> file_byte E (recut_writer target w) s p = file_byte E w s p"
proof -
  let ?w = "recut_writer target w"
  note i = winvD [OF assms(1)]
  define d where "d = (\<lambda>j. take (nat target) (drop (nat (j * target)) (flatten w)))"
  define b where "b = (w_size w - 1) div target"
  have t: "0 < target" using i(1) assms(3) by simp
  have sz: "w_size w \<le> 2 ^ 31 * target" using i(3) assms(3) by (smt (verit) mult_left_mono zero_le_power)
  have rc: "w_dirty ?w = map (\<lambda>j. (j, d j)) [0..b]"
    using recut_enum [OF t assms(4) sz, of "flatten w"] by (simp add: recut_writer_def Let_def d_def b_def)
  have mo: "map_of (w_dirty ?w) j = (if 0 \<le> j \<and> j \<le> b then Some (d j) else None)" for j
    by (simp add: rc map_of_enum)
  have wd: "wdata E ?w s j = (if 0 \<le> j \<and> j \<le> b then Some (d j) else None)" for j
    using i(12,13) assms(2) unfolding wdata_def mo by (simp add: recut_writer_def Let_def stored_def)
  have ld: "blen (d j) = min target (w_size w - j * target)" if "0 \<le> j" "j \<le> b" for j
  proof -
    have "j * target \<le> b * target" using that t by simp
    also have "b * target \<le> w_size w - 1" using pos_mod_sign [OF t, of "w_size w - 1"] by (simp add: b_def minus_mod_eq_div_mult [symmetric])
    finally have "j * target \<le> w_size w - 1" .
    moreover have "0 \<le> j * target" using that t by simp
    ultimately show ?thesis using t flatten_byte(1) [OF assms(1,2)] by (simp add: d_def)
  qed
  have f: "w_chunk_sz ?w = target" "w_size ?w = w_size w" "w_closed ?w = w_closed w" "w_ino ?w = w_ino w"
    "w_dispatched ?w = w_dispatched w" "w_uploading ?w = w_uploading w" by (simp_all add: recut_writer_def Let_def)
  have ds: "distinct (map fst (w_dirty ?w))" by (simp add: rc comp_def)
  have winv: "winv E ?w s"
    unfolding winv_def wd f using i assms(2) t sz ld ds by auto
  have "file_byte E ?w s p = file_byte E w s p"
  proof (cases "0 \<le> p \<and> p < w_size w")
    case True
    then have j: "0 \<le> p div target" "p div target \<le> b" using t by (auto simp: b_def pos_imp_zdiv_nonneg_iff intro!: zdiv_mono1)
    have "bget (d (p div target)) (p mod target) = bget (flatten w) p"
      using j(1) t by (simp add: d_def bget_take bget_drop)
    moreover have "w_chunk_sz ?w = target" by (simp add: recut_writer_def Let_def)
    ultimately show ?thesis using j flatten_byte(2) [OF assms(1,2)] True by (simp add: file_byte_def wd)
  next
    case False
    have "w_size ?w = w_size w" by (simp add: recut_writer_def Let_def)
    then show ?thesis using False file_byte_neg file_byte_past_end assms(1) winv by (metis not_le)
  qed
  then show ?thesis using winv by simp
qed

definition same_shape :: "writer \<Rightarrow> writer \<Rightarrow> bool" where
  "same_shape w w' \<longleftrightarrow> w_ino w' = w_ino w \<and> w_size w' = w_size w \<and> w_sparse w' = w_sparse w"

lemma promote_writer_ok:
  assumes "winv E w s"
  shows "\<exists>w' t. maybe_promote w s = (Inr (), w', t) \<and> same_rows s t \<and> winv E w' t \<and> same_shape w w' \<and>
    (\<forall>p. file_byte E w' t p = file_byte E w s p)"
proof -
  let ?t = "pick_tier_chunk_size (w_size w)"
  note i = winvD [OF assms]
  consider (no) "w_dispatched w \<or> w_sparse w \<or> w_chunk_sz w < TierSmallChunkSize \<or> ?t \<le> w_chunk_sz w"
    | (go) "\<not> w_dispatched w" "\<not> w_sparse w" "TierSmallChunkSize \<le> w_chunk_sz w" "w_chunk_sz w < ?t" by linarith
  then show ?thesis
  proof cases
    case no
    then show ?thesis using assms by (auto simp: maybe_promote_def Let_def same_shape_def)
  next
    case go
    have "0 < w_size w" using go(3,4) by (simp add: pick_tier_chunk_size_def tier_defs split: if_splits)
    note r = recut_writer_ok [OF assms go(1,4) this]
    obtain t where t: "set_inode_chunk_size (w_ino w) ?t s = (Inr (), t)" "same_rows s t"
      using no_rows [of "w_ino w" s] i(13) go(1) by (auto simp: set_inode_chunk_size_def with_tx_def same_rows_def has_inode_upd)
    have "maybe_promote w s = (Inr (), recut_writer ?t w, t)"
      using go t by (simp add: maybe_promote_def Let_def recut_writer_def)
    then show ?thesis using r t(2)
      by (intro exI [of _ "recut_writer ?t w"] exI [of _ t])
        (simp add: same_rows_winv same_rows_file same_shape_def recut_writer_def Let_def)
  qed
qed

section \<open>Dispatch\<close>

lemma dispatch_ok:
  assumes "winv E w s"
  shows "\<exists>r w'. dispatch_flush E idx w = (r, w') \<and> (r = Inr () \<or> (\<exists>n e. we_gate E n = Inl e \<and> r = Inl (WGate e))) \<and>
    winv E w' s \<and> same_shape w w' \<and> w_chunk_sz w' = w_chunk_sz w \<and> (\<forall>p. file_byte E w' s p = file_byte E w s p)"
proof -
  note i = winvD [OF assms]
  obtain r w' where d: "dispatch_flush E idx w = (r, w')" by (cases "dispatch_flush E idx w")
  have r: "r = Inr () \<or> (\<exists>n e. we_gate E n = Inl e \<and> r = Inl (WGate e))"
    using d by (auto simp: dispatch_flush_def Let_def split: option.splits sum.splits)
  have sh: "w_ino w' = w_ino w" "w_size w' = w_size w" "w_sparse w' = w_sparse w" "w_chunk_sz w' = w_chunk_sz w" "w_closed w' = w_closed w"
    using d by (auto simp: dispatch_flush_def Let_def split: option.splits sum.splits)
  have ds: "distinct (map fst (w_dirty w'))"
    using d i(6) by (auto simp: dispatch_flush_def Let_def distinct_delete distinct_update split: option.splits sum.splits)
  have dsp: "\<not> w_dispatched w' \<Longrightarrow> \<not> w_dispatched w \<and> w_uploading w' = w_uploading w"
    using d by (auto simp: dispatch_flush_def Let_def split: option.splits sum.splits)
  have wd: "wdata E w' s j = wdata E w s j" for j
  proof (cases "map_of (w_dirty w) idx")
    case None
    then show ?thesis using d by (auto simp: dispatch_flush_def wdata_def split: option.split)
  next
    case (Some c)
    then show ?thesis using d
      by (cases "we_gate E (blen c)"; cases "j = idx")
        (auto simp: dispatch_flush_def Let_def wdata_def update_conv' delete_conv' split: option.split)
  qed
  have "winv E w' s" unfolding winv_def using i ds dsp by (auto simp: wd sh)
  then show ?thesis using d r sh by (simp add: same_shape_def file_byte_def wd split: option.split)
qed

lemma eager_ok:
  assumes "winv E w s"
  shows "\<exists>r w'. eager_loop E w = (r, w') \<and> (r = Inr () \<or> (\<exists>n e. we_gate E n = Inl e \<and> r = Inl (WGate e))) \<and>
    winv E w' s \<and> same_shape w w' \<and> (\<forall>p. file_byte E w' s p = file_byte E w s p) \<and>
    (r = Inr () \<longrightarrow> w_dirty_bytes w' \<le> w_dirty_cap w' \<or> w_order w' = [])"
  using assms
proof (induction E w rule: eager_loop.induct)
  case (1 E w)
  show ?case
  proof (cases "w_dirty_bytes w > w_dirty_cap w \<and> w_order w \<noteq> []")
    case True
    obtain r w1 where d: "dispatch_flush E (hd (w_order w)) w = (r, w1)"
      "r = Inr () \<or> (\<exists>n e. we_gate E n = Inl e \<and> r = Inl (WGate e))" "winv E w1 s" "same_shape w w1"
      "\<forall>p. file_byte E w1 s p = file_byte E w s p" using dispatch_ok [OF 1(2)] by blast
    show ?thesis
    proof (cases r)
      case (Inl e)
      then show ?thesis using True d by (subst eager_loop.simps) auto
    next
      case (Inr u)
      then show ?thesis using 1(1) [OF True _ _ d(3)] True d
        by (subst eager_loop.simps) (fastforce simp: same_shape_def)
    qed
  next
    case False
    then show ?thesis using 1(2) by (subst eager_loop.simps) (auto simp: same_shape_def)
  qed
qed


section \<open>WriteAt\<close>

text \<open>Replacing part of a file, as POSIX describes it.\<close>

definition write_bytes :: "int \<Rightarrow> bytes \<Rightarrow> (int \<Rightarrow> 8 word) \<Rightarrow> int \<Rightarrow> 8 word" where
  "write_bytes off src f p = (if off \<le> p \<and> p < off + blen src then bget src (p - off) else f p)"

lemma write_at_ok:
  assumes "winv E w s" "0 \<le> off" "off + blen src \<le> 2 ^ 31 * w_chunk_sz w" "src \<noteq> []"
    "\<forall>idx. off div w_chunk_sz w \<le> idx \<and> idx \<le> (off + blen src - 1) div w_chunk_sz w \<longrightarrow> map_of (w_uploading w) idx = None"
  shows "case write_at E src off w s of ((r, n), w', t) \<Rightarrow>
    n = blen src \<and> (r = None \<or> (\<exists>k e. we_gate E k = Inl e \<and> r = Some (WGate e))) \<and>
    winv E w' t \<and> w_size w' = max (w_size w) (off + blen src) \<and>
    file_byte E w' t = write_bytes off src (file_byte E w s) \<and>
    (r = None \<longrightarrow> w_dirty_bytes w' \<le> w_dirty_cap w' \<or> w_order w' = [])"
proof -
  let ?cs = "w_chunk_sz w"
  let ?a = "off div ?cs" and ?b = "(off + blen src - 1) div ?cs"
  note i = winvD [OF assms(1)]
  have l1: "1 \<le> blen src" using assms(4) blen_simps(4) [of src] blen_0 [of src] by linarith
  have ab: "?a \<le> ?b" using i(1) l1 by (intro zdiv_mono1) auto
  have a0: "0 \<le> ?a" using i(1) assms(2) by (simp add: pos_imp_zdiv_nonneg_iff)
  have "?b \<le> (2 ^ 31 * ?cs - 1) div ?cs" using assms(3) i(1) by (intro zdiv_mono1) auto
  moreover have "(2 ^ 31 * ?cs - 1) div ?cs = 2 ^ 31 - 1"
    using i(1) by (intro int_div_pos_eq [of _ _ _ "?cs - 1"]) (simp_all add: algebra_simps)
  ultimately have b31: "?b < 2 ^ 31" by simp
  have up: "map_of (w_uploading w) ?a = None" using assms(5) ab by simp
  have o31: "off \<le> 2 ^ 31 * ?cs" using assms(3) l1 by linarith
  obtain w1 t1 where g: "write_gap E off w s = (Inr (), w1, t1)" "same_rows s t1" "winv E w1 t1" "frame w w1"
    "w_size w \<le> w_size w1" "w_size w1 \<le> max (w_size w) off" "\<forall>p. file_byte E w1 t1 p = file_byte E w s p"
    using write_gap_ok [OF assms(1,2) o31 up] by blast
  have cs: "w_chunk_sz w1 = ?cs" and upl: "w_uploading w1 = w_uploading w" using g(4) by (simp_all add: frame_def)
  obtain w2 where l: "write_loop E [?a..?b] off src 0 w1 t1 = ((None, blen src), w2, t1)" "winv E w2 t1"
    "w_size w2 = max (w_size w1) (off + blen src)"
    "\<forall>p. file_byte E w2 t1 p = (if off \<le> p \<and> p < off + blen src then bget src (p - off) else file_byte E w1 t1 p)"
    using write_loop_ok [OF g(3) assms(2,4), of 0] assms(3,5) unfolding cs upl by auto
  obtain w3 t3 where m: "maybe_promote w2 t1 = (Inr (), w3, t3)" "winv E w3 t3" "same_shape w2 w3"
    "\<forall>p. file_byte E w3 t3 p = file_byte E w2 t1 p"
    using promote_writer_ok [OF l(2)] by blast
  obtain r w4 where e: "eager_loop E w3 = (r, w4)" "r = Inr () \<or> (\<exists>n e. we_gate E n = Inl e \<and> r = Inl (WGate e))"
    "winv E w4 t3" "same_shape w3 w4" "\<forall>p. file_byte E w4 t3 p = file_byte E w3 t3 p"
    "r = Inr () \<longrightarrow> w_dirty_bytes w4 \<le> w_dirty_cap w4 \<or> w_order w4 = []"
    using eager_ok [OF m(2)] by blast
  have ix: "[to_int32 (go_div off (w_chunk_sz w1))..to_int32 (go_div (off + blen src - 1) (w_chunk_sz w1))] = [?a..?b]"
    using assms(2) l1 i(1) a0 ab b31 by (simp add: cs to_int32_id)
  have fb: "file_byte E w4 t3 = write_bytes off src (file_byte E w s)"
    using e(5) m(4) l(4) g(7) by (simp add: write_bytes_def fun_eq_iff)
  have sz: "w_size w4 = max (w_size w) (off + blen src)"
    using e(4) m(3) l(3) g(5,6) l1 by (simp add: same_shape_def)
  have eq: "write_at E src off w s = ((case r of Inl e \<Rightarrow> Some e | Inr _ \<Rightarrow> None, blen src), w4, t3)"
    unfolding write_at_def g(1) prod.case sum.case ix l(1) m(1) e(1)
    using assms(2,4) i(4) by (simp split: sum.split)
  show ?thesis unfolding eq using e(2,3,6) fb sz by auto
qed



section \<open>Truncate\<close>

definition truncate_bytes :: "int \<Rightarrow> (int \<Rightarrow> 8 word) \<Rightarrow> int \<Rightarrow> 8 word" where
  "truncate_bytes n f p = (if p < n then f p else 0)"

lemma map_of_map_key: "map_of (map (\<lambda>(k, v). (k, f k v)) xs) j = map_option (f j) (map_of xs j)"
  by (induction xs) auto

lemma map_of_filter_key: "map_of (filter (\<lambda>(k, v). P k) xs) j = (if P j then map_of xs j else None)"
  by (induction xs) auto

text \<open>The dirty chunks and the rows after a truncation whose boundary chunk is \<open>lst\<close>.\<close>

definition cut :: "int \<Rightarrow> int \<Rightarrow> int \<Rightarrow> (int \<Rightarrow> bytes option) \<Rightarrow> int \<Rightarrow> bytes option" where
  "cut n cs lst f j = (if j > lst then None else if j = lst then map_option (take (nat (n - lst * cs))) (f j) else f j)"

lemma cut_SomeD:
  "cut n cs lst f j = Some d \<Longrightarrow> \<exists>e. f j = Some e \<and> j \<le> lst \<and> d = (if j = lst then take (nat (n - lst * cs)) e else e)"
  by (auto simp: cut_def split: if_splits)

text \<open>Cutting the data of the chunks is cutting the bytes of the file.\<close>

lemma cut_fit:
  assumes "0 < cs" "lst * cs < n" "cut n cs lst f j = Some d" "\<And>e. f j = Some e \<Longrightarrow> 0 \<le> j \<and> blen e \<le> cs"
  shows "0 \<le> j \<and> blen d \<le> cs \<and> (d = [] \<or> j * cs + blen d \<le> n)"
proof -
  obtain e where e: "f j = Some e" "j \<le> lst" "d = (if j = lst then take (nat (n - lst * cs)) e else e)"
    using cut_SomeD [OF assms(3)] by blast
  note be = assms(4) [OF e(1)]
  show ?thesis
  proof (cases "j = lst")
    case True
    then show ?thesis using e(3) be assms(2) by auto
  next
    case False
    then have "(j + 1) * cs \<le> lst * cs" using e(2) assms(1) by (intro mult_right_mono) auto
    then show ?thesis using False e(3) be assms(2) by (simp add: algebra_simps)
  qed
qed

lemma cut_byte:
  assumes "0 < cs" "lst * cs < n" "n \<le> (lst + 1) * cs"
  shows "(case cut n cs lst f (p div cs) of None \<Rightarrow> 0 | Some d \<Rightarrow> bget d (p mod cs)) =
    (if p < n then case f (p div cs) of None \<Rightarrow> 0 | Some d \<Rightarrow> bget d (p mod cs) else 0)"
proof -
  have p: "p = p div cs * cs + p mod cs" by simp
  consider "p div cs < lst" | "p div cs = lst" | "p div cs > lst" by linarith
  then show ?thesis
  proof cases
    case 1
    then have "(p div cs + 1) * cs \<le> lst * cs" using assms(1) by (intro mult_right_mono) auto
    moreover have "p mod cs < cs" using assms(1) by simp
    ultimately have "p < n" using p assms(2) unfolding distrib_right by linarith
    then show ?thesis using 1 by (simp add: cut_def)
  next
    case 2
    have "p < n \<longleftrightarrow> p mod cs < n - lst * cs" using p unfolding 2 by linarith
    then show ?thesis using 2 by (auto simp: cut_def bget_take split: option.split)
  next
    case 3
    then have "(lst + 1) * cs \<le> p div cs * cs" using assms(1) by (intro mult_right_mono) auto
    moreover have "0 \<le> p mod cs" using assms(1) by simp
    ultimately have "n \<le> p" using p assms(3) by linarith
    then show ?thesis using 3 by (simp add: cut_def)
  qed
qed

lemma trunc_dirty_ok:
  "map_of (w_dirty (trunc_dirty n lst w)) = cut n (w_chunk_sz w) lst (map_of (w_dirty w))"
  "distinct (map fst (w_dirty w)) \<Longrightarrow> distinct (map fst (w_dirty (trunc_dirty n lst w)))"
  "w_uploading (trunc_dirty n lst w) = w_uploading w" "w_ino (trunc_dirty n lst w) = w_ino w" "w_size (trunc_dirty n lst w) = w_size w"
  "w_chunk_sz (trunc_dirty n lst w) = w_chunk_sz w" "w_closed (trunc_dirty n lst w) = w_closed w"
  "w_dispatched (trunc_dirty n lst w) = w_dispatched w"
proof -
  let ?trim = "\<lambda>k d. if k = lst \<and> blen d > n - lst * w_chunk_sz w then take (nat (n - lst * w_chunk_sz w)) d else d"
  have d: "w_dirty (trunc_dirty n lst w) = map (\<lambda>(k, d). (k, ?trim k d)) (filter (\<lambda>(k, d). k \<le> lst) (w_dirty w))"
    by (simp add: trunc_dirty_def Let_def case_prod_beta)
  show "map_of (w_dirty (trunc_dirty n lst w)) = cut n (w_chunk_sz w) lst (map_of (w_dirty w))"
  proof (rule ext)
    fix j
    show "map_of (w_dirty (trunc_dirty n lst w)) j = cut n (w_chunk_sz w) lst (map_of (w_dirty w)) j"
      unfolding d map_of_map_key map_of_filter_key
      by (cases "map_of (w_dirty w) j") (auto simp: cut_def blen_def)
  qed
  have "map fst (w_dirty (trunc_dirty n lst w)) = filter (\<lambda>k. k \<le> lst) (map fst (w_dirty w))"
    unfolding d by (induction "w_dirty w") (auto simp: filter_map comp_def case_prod_beta)
  then show "distinct (map fst (w_dirty w)) \<Longrightarrow> distinct (map fst (w_dirty (trunc_dirty n lst w)))" by simp
qed (simp_all add: trunc_dirty_def Let_def)

lemma delete_above_ok:
  "\<exists>k t. delete_chunks_above ino a s = (Inr k, t) \<and> (\<forall>i. has_inode t i = has_inode s i) \<and>
    (\<forall>j. get_chunk ino j t = (if a \<le> j then Inl ErrNotFound else get_chunk ino j s))"
proof -
  have "row_at ckey (del_where (\<lambda>c. c_ino c = ino \<and> a \<le> c_idx c) (st_chunks s)) (ino, j) =
      (if a \<le> j then None else row_at ckey (st_chunks s) (ino, j))" for j
    using row_at_del_key [of ckey "\<lambda>k. fst k = ino \<and> a \<le> snd k" "st_chunks s" "(ino, j)"] by simp
  then show ?thesis
    by (auto simp: delete_chunks_above_def exec_with_retry_def Let_def get_chunk_def has_inode_def)
qed

lemma set_size_ok:
  assumes "has_inode s ino"
  shows "\<exists>t. set_size now ino n s = (Inr (), t) \<and> same_rows s t"
  using assms by (simp add: set_size_def set_attrs_def require_rows_def exec_with_retry_def with_tx_def inode_rows_0 same_rows_def has_inode_upd)


text \<open>After the boundary chunk: what is dirty, and what the rows still hold up to the boundary.\<close>

lemma trunc_boundary_ok:
  assumes "winv E w s" "\<forall>x\<in>set (w_uploading w). fst x < lst" "v = trunc_dirty n lst w" "0 \<le> lst \<longrightarrow> 0 < n - lst * w_chunk_sz w"
  shows "\<exists>v'. trunc_boundary E n lst v s = (Inr (), v', s) \<and>
    (\<forall>j\<le>lst. wdata E v' s j = cut n (w_chunk_sz w) lst (wdata E w s) j) \<and> (\<forall>j>lst. map_of (w_dirty v') j = None) \<and>
    distinct (map fst (w_dirty v')) \<and> w_uploading v' = w_uploading w \<and> w_ino v' = w_ino w \<and>
    w_chunk_sz v' = w_chunk_sz w \<and> w_closed v' = w_closed w \<and> w_dispatched v' = w_dispatched w"
proof -
  let ?rel = "n - lst * w_chunk_sz w"
  note i = winvD [OF assms(1)]
  note td = trunc_dirty_ok [where n = n and lst = lst and w = w, folded assms(3)]
  have up: "map_of (w_uploading w) lst = None" using assms(2) by (auto simp: map_of_eq_None_iff)
  have dn: "map_of (w_dirty v) j = None" if "j > lst" for j using that by (simp add: td cut_def)
  have lo: "wdata E v s j = wdata E w s j" if "j < lst" for j
    using that by (simp add: wdata_def td cut_def split: option.split)
  have keep: ?thesis if "trunc_boundary E n lst v s = (Inr (), v, s)" "wdata E v s lst = map_option (take (nat ?rel)) (wdata E w s lst)"
    using that lo dn td i(6) by (intro exI [of _ v]) (auto simp: cut_def)
  consider (neg) "lst < 0" | (dirty) d where "map_of (w_dirty w) lst = Some d" "0 \<le> lst"
    | (none) "map_of (w_dirty w) lst = None" "0 \<le> lst" "get_chunk (w_ino w) lst s = Inl ErrNotFound"
    | (row) c where "map_of (w_dirty w) lst = None" "0 \<le> lst" "get_chunk (w_ino w) lst s = Inr c"
  proof -
    have "get_chunk (w_ino w) lst s = Inl ErrNotFound \<or> (\<exists>c. get_chunk (w_ino w) lst s = Inr c)"
      by (auto simp: get_chunk_def split: option.split)
    then show ?thesis using neg dirty none row by (cases "map_of (w_dirty w) lst"; cases "lst < 0") auto
  qed
  then show ?thesis
  proof cases
    case neg
    have "wdata E w s lst = None" using i(8) [of lst] neg by (cases "wdata E w s lst") auto
    moreover have "wdata E v s lst = None" using calculation by (auto simp: wdata_def td cut_def split: option.splits)
    ultimately show ?thesis using neg by (intro keep) (simp_all add: trunc_boundary_def Let_def)
  next
    case dirty
    then show ?thesis by (intro keep) (simp_all add: trunc_boundary_def Let_def td cut_def wdata_def)
  next
    case none
    then show ?thesis using up by (intro keep) (simp_all add: trunc_boundary_def Let_def td cut_def wdata_def stored_def)
  next
    case row
    obtain d where d: "we_fetch E c = Inr d" "blen d = ch_size c" using i(11) [OF row(3)] by blast
    have r: "0 < ?rel" using assms(4) row(2) by simp
    have w: "wdata E w s lst = Some d" "wdata E v s lst = Some d" using row up d(1) by (simp_all add: wdata_def td cut_def stored_def)
    show ?thesis
    proof (cases "ch_size c > ?rel")
      case True
      obtain m where f: "we_fuel E = Suc m" using i(7) by (cases "we_fuel E") auto
      let ?v = "(set_dirty lst (take (nat ?rel) d) (enter_dirty lst d v))\<lparr>w_dirty_bytes := w_dirty_bytes (enter_dirty lst d v) - (blen d - ?rel)\<rparr>"
      have eq: "trunc_boundary E n lst v s = (Inr (), ?v, s)"
        using row up d True r by (simp add: trunc_boundary_def Let_def td cut_def f)
      have m: "map_of (w_dirty ?v) = (map_of (w_dirty v))(lst \<mapsto> take (nat ?rel) d)"
        by (simp add: set_dirty_def enter_dirty_def update_conv')
      have fr: "frame v ?v" by (simp add: frame_def set_dirty_def enter_dirty_def)
      have ds: "distinct (map fst (w_dirty ?v))" using td(2) i(6) by (simp add: set_dirty_def enter_dirty_def distinct_update)
      have "wdata E ?v s j = cut n (w_chunk_sz w) lst (wdata E w s) j" if "j \<le> lst" for j
        using that wdata_put [OF m fr, of E s j] lo [of j] w(1) by (simp add: cut_def)
      moreover have "map_of (w_dirty ?v) j = None" if "j > lst" for j using dn that m by simp
      ultimately show ?thesis using eq ds fr td unfolding frame_def by (intro exI [of _ ?v]) simp
    next
      case False
      then have "take (nat ?rel) d = d" using d(2) by (simp add: blen_def)
      then show ?thesis using False row r w by (intro keep) (simp_all add: trunc_boundary_def Let_def td cut_def)
    qed
  qed
qed

text \<open>The steps of a shrinking truncation, for every chunk number the int32 can hold.\<close>

lemma shrink_steps:
  assumes "winv E w s" "0 \<le> n" "n \<le> 2 ^ 31 * w_chunk_sz w" "lst = (n - 1) div w_chunk_sz w" "\<forall>x\<in>set (w_uploading w). fst x < lst"
  shows "\<exists>v t. truncate_shrink E n w s = (Inr (), v\<lparr>w_size := n\<rparr>, t) \<and>
    (\<forall>j\<le>lst. wdata E v s j = cut n (w_chunk_sz w) lst (wdata E w s) j) \<and> (\<forall>j>lst. map_of (w_dirty v) j = None) \<and>
    distinct (map fst (w_dirty v)) \<and> w_uploading v = w_uploading w \<and> w_ino v = w_ino w \<and>
    w_chunk_sz v = w_chunk_sz w \<and> w_closed v = w_closed w \<and> w_dispatched v = w_dispatched w \<and> has_inode t (w_ino w) \<and>
    (\<forall>j. get_chunk (w_ino w) j t = (if to_int32 (lst + 1) \<le> j then Inl ErrNotFound else get_chunk (w_ino w) j s)) \<and>
    - 1 \<le> lst \<and> lst < 2 ^ 31 \<and> lst * w_chunk_sz w < n \<and> n \<le> (lst + 1) * w_chunk_sz w"
proof -
  let ?cs = "w_chunk_sz w"
  note i = winvD [OF assms(1)]
  have dm: "n - 1 = lst * ?cs + (n - 1) mod ?cs" by (simp add: assms(4))
  have md: "0 \<le> (n - 1) mod ?cs" "(n - 1) mod ?cs < ?cs" using i(1) by simp_all
  have b: "lst * ?cs < n" "n \<le> (lst + 1) * ?cs" using dm md unfolding distrib_right by linarith+
  have lst: "-1 \<le> lst" "lst < 2 ^ 31"
  proof -
    have "0 \<le> (lst + 1) * ?cs" "lst * ?cs < 2 ^ 31 * ?cs" using b assms(2,3) by linarith+
    then show "-1 \<le> lst" "lst < 2 ^ 31" using i(1) by (simp_all add: zero_le_mult_iff)
  qed
  have l: "(if n = 0 then - 1 else to_int32 (go_div (n - 1) ?cs)) = lst"
  proof (cases "n = 0")
    case True
    then show ?thesis using i(1) assms(4) by (simp add: div_eq_minus1)
  next
    case False
    then show ?thesis using assms(2,4) i(1) lst by (simp add: to_int32_id)
  qed
  obtain v where v: "trunc_boundary E n lst (trunc_dirty n lst w) s = (Inr (), v, s)"
    "\<forall>j\<le>lst. wdata E v s j = cut n ?cs lst (wdata E w s) j" "\<forall>j>lst. map_of (w_dirty v) j = None"
    "distinct (map fst (w_dirty v))" "w_uploading v = w_uploading w" "w_ino v = w_ino w" "w_chunk_sz v = ?cs"
    "w_closed v = w_closed w" "w_dispatched v = w_dispatched w"
    using trunc_boundary_ok [OF assms(1,5) refl, of n] b(1) by (simp, blast)
  obtain k t1 where t1: "delete_chunks_above (w_ino w) (to_int32 (lst + 1)) s = (Inr k, t1)" "\<forall>i. has_inode t1 i = has_inode s i"
    "\<forall>j. get_chunk (w_ino w) j t1 = (if to_int32 (lst + 1) \<le> j then Inl ErrNotFound else get_chunk (w_ino w) j s)"
    using delete_above_ok by blast
  have hi: "has_inode t1 (w_ino w)" using t1(2) i(5) by simp
  obtain t where t: "set_size (we_now E) (w_ino w) n t1 = (Inr (), t)" "same_rows t1 t" using set_size_ok [OF hi] by blast
  have up: "find (\<lambda>(idx, _). idx \<ge> lst) (w_uploading w) = None" using assms(5) by (fastforce simp: find_None_iff)
  have tw: "trunc_wait E (we_fuel E) lst w s = (Inr (), w, s)" by (subst trunc_wait.simps) (simp only: up option.case)
  have "truncate_shrink E n w s = (Inr (), v\<lparr>w_size := n\<rparr>, t)"
    unfolding truncate_shrink_def l Let_def tw using v(1,6) t1(1) t(1) by (simp add: meta_result_def)
  moreover have "has_inode t (w_ino w)" using hi t(2) by (simp add: same_rows_def)
  ultimately show ?thesis using v t1(3) same_rows_get [OF t(2)] lst b by (intro exI [of _ v] exI [of _ t]) simp
qed

text \<open>A writer of inode 3 with two stored bytes 5, 6 in chunk 0 and a dirty byte 7 in chunk 1, in chunks of four bytes.\<close>

definition w_store :: store where
  "w_store = demo\<lparr>st_chunks := [\<lparr>c_ino = 3, c_idx = 0, c_msg = 9, c_size = 2, c_pack = None\<rparr>]\<rparr>"

definition w_env :: write_env where
  "w_env = \<lparr>we_fetch = (\<lambda>_. Inr [5, 6]), we_wait = (\<lambda>_ _. Inl WCtx), we_gate = Inr, we_now = 0, we_fuel = 1\<rparr>"

definition w_open :: "int \<Rightarrow> writer" where
  "w_open sz = \<lparr>w_ino = 3, w_chunk_sz = 4, w_dirty_cap = 8, w_dirty = [(1, [7])], w_dirty_bytes = 1, w_order = [1], w_size = sz,
     w_closed = False, w_sparse = False, w_dispatched = True, w_uploading = [], w_upload_err = None\<rparr>"

lemma w_open_get: "get_chunk 3 j w_store = (if j = 0 then Inr \<lparr>ch_ino = 3, ch_idx = 0, ch_msg = 9, ch_size = 2, ch_pack_offset = 0, ch_pack_size = 0\<rparr> else Inl ErrNotFound)"
  by (simp add: get_chunk_def w_store_def row_at_Cons chunk_of_row_def)

lemma w_open_data: "wdata w_env (w_open sz) w_store j = (if j = 1 then Some [7] else if j = 0 then Some [5, 6] else None)"
  by (simp add: wdata_def stored_def w_open_def w_open_get w_env_def)

lemma w_open_inv: "5 \<le> sz \<Longrightarrow> sz \<le> 2 ^ 33 \<Longrightarrow> winv w_env (w_open sz) w_store"
proof -
  have "has_inode demo 3" by code_simp
  then have "has_inode w_store 3" by (simp add: w_store_def has_inode_def)
  then show "5 \<le> sz \<Longrightarrow> sz \<le> 2 ^ 33 \<Longrightarrow> winv w_env (w_open sz) w_store"
    unfolding winv_def w_open_data by (auto simp: w_open_def w_open_get w_env_def blen_def)
qed

lemma w_open_byte: "file_byte w_env (w_open sz) w_store 1 = 6" "file_byte w_env (w_open sz) w_store 0 = 5"
  "w_chunk_sz (w_open sz) = 4" "w_size (w_open sz) = sz" "w_uploading (w_open sz) = []"
  by (simp_all add: file_byte_def w_open_data bget_def) (simp_all add: w_open_def bget_def)


lemma truncate_ok:
  assumes "winv E w s" "0 \<le> n" "n \<le> (2 ^ 31 - 1) * w_chunk_sz w"
    "\<forall>x\<in>set (w_uploading w). fst x < (n - 1) div w_chunk_sz w"
  shows "case truncate E n w s of (r, w', t) \<Rightarrow> r = Inr () \<and> winv E w' t \<and> w_size w' = n \<and>
    file_byte E w' t = truncate_bytes n (file_byte E w s)"
proof (cases "w_size w < n")
  case True
  note i = winvD [OF assms(1)]
  obtain t1 where t1: "mark_sparse w s = (Inr (), w\<lparr>w_sparse := True\<rparr>, t1)" "same_rows s t1" using mark_sparse_ok [OF i(5)] by blast
  have hi: "has_inode t1 (w_ino w)" using t1(2) i(5) by (simp add: same_rows_def)
  obtain t2 where t2: "set_size (we_now E) (w_ino w) n t1 = (Inr (), t2)" "same_rows t1 t2" using set_size_ok [OF hi] by blast
  let ?w = "w\<lparr>w_sparse := True, w_size := n\<rparr>"
  have eq: "truncate E n w s = (Inr (), ?w, t2)" using True assms(2) i(4) t1 t2 by (simp add: truncate_def meta_result_def)
  have sr: "same_rows s t2" using t1(2) t2(2) by (simp add: same_rows_def)
  have "winv E ?w t2" using winv_grow [of E "w\<lparr>w_sparse := True\<rparr>" s n] assms(1,3) True i(1) sr
    by (simp add: same_rows_winv algebra_simps)
  moreover have "file_byte E ?w t2 p = truncate_bytes n (file_byte E w s) p" for p
    using file_byte_past_end [OF assms(1), of p] True sr by (simp add: same_rows_file truncate_bytes_def)
  ultimately show ?thesis by (simp add: eq fun_eq_iff)
next
  case False
  let ?cs = "w_chunk_sz w"
  let ?lst = "(n - 1) div ?cs"
  note i = winvD [OF assms(1)]
  have n31: "n \<le> 2 ^ 31 * ?cs" using assms(3) i(1) by (simp add: algebra_simps)
  obtain v t where st: "truncate_shrink E n w s = (Inr (), v\<lparr>w_size := n\<rparr>, t)"
    and v: "\<forall>j\<le>?lst. wdata E v s j = cut n ?cs ?lst (wdata E w s) j" "\<forall>j>?lst. map_of (w_dirty v) j = None"
      "distinct (map fst (w_dirty v))" "w_uploading v = w_uploading w" "w_ino v = w_ino w" "w_chunk_sz v = ?cs"
      "w_closed v = w_closed w" "w_dispatched v = w_dispatched w"
    and hi: "has_inode t (w_ino w)"
    and g: "\<forall>j. get_chunk (w_ino w) j t = (if to_int32 (?lst + 1) \<le> j then Inl ErrNotFound else get_chunk (w_ino w) j s)"
    and lst: "-1 \<le> ?lst" and rel: "?lst * ?cs < n" and top: "n \<le> (?lst + 1) * ?cs"
    using shrink_steps [OF assms(1,2) n31 refl assms(4)] by blast
  have "?lst * ?cs < (2 ^ 31 - 1) * ?cs" using rel assms(3) by linarith
  then have "?lst < 2 ^ 31 - 1" using i(1) by simp
  then have gc: "get_chunk (w_ino w) j t = (if j \<le> ?lst then get_chunk (w_ino w) j s else Inl ErrNotFound)" for j
    using g lst by (auto simp: to_int32_id)
  let ?w = "v\<lparr>w_size := n\<rparr>"
  have eq: "truncate E n w s = (Inr (), ?w, t)" using False assms(2) i(4) st by (simp add: truncate_def)
  have upj: "map_of (w_uploading w) j = None" if "j > ?lst" for j using that assms(4) by (auto simp: map_of_eq_None_iff)
  have wd: "wdata E ?w t j = cut n ?cs ?lst (wdata E w s) j" for j
  proof (cases "j \<le> ?lst")
    case True
    then have "wdata E ?w t j = wdata E v s j" by (simp add: wdata_def stored_def gc v(5) split: option.split)
    then show ?thesis using True v(1) by simp
  next
    case False
    then show ?thesis using v(2,4,5) upj by (simp add: wdata_def stored_def gc cut_def)
  qed
  have fit: "0 \<le> j \<and> blen d \<le> ?cs \<and> (d = [] \<or> j * ?cs + blen d \<le> n)" if dj: "wdata E ?w t j = Some d" for j d
    using cut_fit [OF i(1) rel dj [unfolded wd]] i(8,9) by blast
  have "winv E ?w t"
    unfolding winv_def using fit i assms(2) n31 v(3-8) hi by (simp add: gc)
  moreover have "file_byte E ?w t p = truncate_bytes n (file_byte E w s) p" for p
  proof -
    have c: "w_chunk_sz ?w = ?cs" using v(6) by simp
    show ?thesis unfolding file_byte_def truncate_bytes_def c wd using cut_byte [OF i(1) rel top] .
  qed
  ultimately show ?thesis by (simp add: eq fun_eq_iff)
qed



text \<open>At the int32 limit the boundary arithmetic of \<open>Truncate\<close> wraps: for a file of exactly 2^31
  chunks (a sparse file grown by an earlier truncation), truncating it to the size it already has
  succeeds and deletes every stored chunk of the inode, because \<open>lastIdx+1\<close> is negative.
\<close>
theorem truncate_at_limit_drops_rows:
  assumes "winv E w s" "w_size w = 2 ^ 31 * w_chunk_sz w" "w_uploading w = []"
  shows "case truncate E (w_size w) w s of (r, w', t) \<Rightarrow> r = Inr () \<and> (\<forall>j\<ge>0. get_chunk (w_ino w) j t = Inl ErrNotFound)"
proof -
  note i = winvD [OF assms(1)]
  have l: "(w_size w - 1) div w_chunk_sz w = 2 ^ 31 - 1"
    using i(1) assms(2) by (intro int_div_pos_eq [of _ _ _ "w_chunk_sz w - 1"]) (simp_all add: algebra_simps)
  obtain v t where "truncate_shrink E (w_size w) w s = (Inr (), v\<lparr>w_size := w_size w\<rparr>, t)"
    "\<forall>j. get_chunk (w_ino w) j t = (if to_int32 ((w_size w - 1) div w_chunk_sz w + 1) \<le> j then Inl ErrNotFound else get_chunk (w_ino w) j s)"
    using shrink_steps [OF assms(1) i(2,3) refl] assms(3) by (simp, blast)
  then show ?thesis using i(2,4) by (simp add: truncate_def l to_int32_def)
qed

lemma truncate_at_limit_drops_rows_witness:
  "case truncate w_env (2 ^ 33) (w_open (2 ^ 33)) w_store of (r, w', t) \<Rightarrow>
    r = Inr () \<and> get_chunk 3 0 w_store \<noteq> Inl ErrNotFound \<and> get_chunk 3 0 t = Inl ErrNotFound"
proof -
  have "winv w_env (w_open (2 ^ 33)) w_store" by (rule w_open_inv) simp_all
  moreover have "w_ino (w_open sz) = 3" for sz by (simp add: w_open_def)
  ultimately show ?thesis using truncate_at_limit_drops_rows [of w_env "w_open (2 ^ 33)" w_store]
    by (auto simp: w_open_byte w_open_get split: prod.splits)
qed

end
