(* ===== verification/Upload.thy ===== *)
theory Upload
  imports WriterSpec
begin

text \<open>
  The uploading half of the \<open>Writer\<close> of \<open>internal/chunk/writer.go\<close>: \<open>uploadOne\<close> (dedup, encoding,
  staging, the pack route and the direct route, the row, the index, the invalidation, and the
  restore on failure), \<open>Flush\<close>, \<open>Sync\<close> and \<open>Close\<close>.  The network, the slot, SHA-256, failures
  of the database and what the rest of the program does during a wait are the environment.
  \<open>Compress\<close> has no error branch: none of the codecs returns one.
\<close>

section \<open>State and environment\<close>

record up_world =
  uw_writer :: writer
  uw_pack :: pack_world
  uw_cache :: cache

record upload_env =
  ue_cfg :: cache_cfg
  ue_hmac :: "bytes \<Rightarrow> bytes \<Rightarrow> bytes"
  ue_rnd :: "bytes option"
  ue_sha :: "bytes \<Rightarrow> string"
  ue_dir :: bool
  ue_pid :: int
  ue_wok :: bool
  ue_rok :: bool
  ue_packer :: bool
  ue_pack_wait :: "nat \<Rightarrow> up_world \<Rightarrow> pack_result option option \<times> up_world"
  ue_sem :: bool
  ue_up :: "nat \<Rightarrow> string + int"
  ue_ctx :: ctx_view
  ue_mid :: "up_world \<Rightarrow> up_world"
  ue_reuse_err :: "meta_err option"
  ue_put_err :: "meta_err option"

datatype up_outcome = UpDone | UpRestore up_err string

abbreviation uw_store :: "up_world \<Rightarrow> store" where "uw_store W \<equiv> pw_store (uw_pack W)"
abbreviation uw_dir :: "up_world \<Rightarrow> dirmap" where "uw_dir W \<equiv> pw_dir (uw_pack W)"
abbreviation uw_index :: "up_world \<Rightarrow> pindex" where "uw_index W \<equiv> pw_index (uw_pack W)"
abbreviation uw_ino :: "up_world \<Rightarrow> int" where "uw_ino W \<equiv> w_ino (uw_writer W)"

definition put_store :: "store \<Rightarrow> up_world \<Rightarrow> up_world" where
  "put_store s W = W\<lparr>uw_pack := (uw_pack W)\<lparr>pw_store := s\<rparr>\<rparr>"

definition dedup_enabled :: "upload_env \<Rightarrow> bool" where
  "dedup_enabled E = deterministic (cg_cipher (ue_cfg E))"

section \<open>The steps of an upload\<close>

definition forget_cached :: "int \<Rightarrow> up_world \<Rightarrow> up_world" where
  "forget_cached idx W = W\<lparr>uw_cache := snd (cache_invalidate (Key (uw_ino W) idx) (uw_cache W))\<rparr>"

text \<open>Staging the wire; a previous generation of the slot under another name is deleted.\<close>

definition stage_wire :: "upload_env \<Rightarrow> int \<Rightarrow> bytes \<Rightarrow> bytes \<Rightarrow> up_world \<Rightarrow> (up_err option \<times> string) \<times> up_world" where
  "stage_wire E idx d wire W =
     (if \<not> ue_dir E then ((None, []), W)
      else (case persist_pending (ue_wok E) (ue_rok E) (ue_pid E) (uw_ino W) idx (to_int32 (blen d)) wire (uw_dir W) of
          (None, dir) \<Rightarrow> ((Some UpStage, []), W\<lparr>uw_pack := (uw_pack W)\<lparr>pw_dir := dir\<rparr>\<rparr>)
        | (Some p, dir) \<Rightarrow>
            let dir' = (case pindex_lookup (uw_ino W) idx (uw_index W) of
                          Some old \<Rightarrow> if old \<noteq> p then delete_pending old dir else dir
                        | None \<Rightarrow> dir)
            in ((None, p), W\<lparr>uw_pack := (uw_pack W)\<lparr>pw_dir := dir', pw_index := record_persist (uw_ino W) idx p (uw_index W)\<rparr>\<rparr>)))"

definition unstage_wire :: "int \<Rightarrow> string \<Rightarrow> up_world \<Rightarrow> up_world" where
  "unstage_wire idx path W =
     (if path = [] then W
      else W\<lparr>uw_pack := (uw_pack W)\<lparr>pw_dir := delete_pending path (uw_dir W),
             pw_index := unrecord_persist (uw_ino W) idx (uw_index W)\<rparr>\<rparr>)"

definition upload_pack :: "upload_env \<Rightarrow> int \<Rightarrow> bytes \<Rightarrow> bytes \<Rightarrow> string \<Rightarrow> up_world \<Rightarrow> up_outcome \<times> up_world" where
  "upload_pack E idx d wire path W =
     (case submit (uw_ino W) idx (to_int32 (blen d)) wire path (pw_packer (uw_pack W)) of (ch, pk) \<Rightarrow>
       (case ue_pack_wait E ch (W\<lparr>uw_pack := (uw_pack W)\<lparr>pw_packer := pk\<rparr>\<rparr>) of
          (None, W1) \<Rightarrow> (UpRestore UpCtx path, W1)
        | (Some r, W1) \<Rightarrow>
            (case r of
               Some (PackFailed e) \<Rightarrow> (UpRestore (UpPack e) path, W1)
             | _ \<Rightarrow> (UpDone, forget_cached idx W1))))"

definition upload_direct :: "upload_env \<Rightarrow> int \<Rightarrow> bytes \<Rightarrow> bytes \<Rightarrow> string \<Rightarrow> up_world \<Rightarrow> up_outcome \<times> up_world" where
  "upload_direct E idx d wire path W =
     (if \<not> ue_sem E then (UpRestore UpSlot path, ue_mid E W)
      else
        let W1 = ue_mid E W in
        (case fst (upload_with_retry (ue_up E) (ue_ctx E)) of
           UploadFailed e \<Rightarrow> (UpRestore (UpNet e) path, W1)
         | UploadCancelled \<Rightarrow> (UpRestore UpCtx path, W1)
         | UploadOk msg \<Rightarrow>
             let row = \<lparr>ch_ino = uw_ino W, ch_idx = idx, ch_msg = msg, ch_size = to_int32 (blen d), ch_pack_offset = 0, ch_pack_size = 0\<rparr> in
             (case (case ue_put_err E of Some e \<Rightarrow> (Inl e, uw_store W1) | None \<Rightarrow> put_chunk row (uw_store W1)) of
                (Inl e, s) \<Rightarrow>
                  if e = ErrForeignKey then (UpDone, unstage_wire idx path (put_store s W1))
                  else (UpRestore (UpChunkMap e) path, put_store s W1)
              | (Inr _, s) \<Rightarrow>
                  let W2 = unstage_wire idx path (put_store s W1);
                      W3 = (if dedup_enabled E
                            then put_store (snd (record_chunk_blob (ue_sha E d) msg (to_int32 (blen d)) (uw_store W2))) W2 else W2)
                  in (UpDone, forget_cached idx W3))))"

definition upload_encoded :: "upload_env \<Rightarrow> int \<Rightarrow> bytes \<Rightarrow> up_world \<Rightarrow> up_outcome \<times> up_world" where
  "upload_encoded E idx d W =
     (case encode_chunk (cg_aead (ue_cfg E)) (ue_hmac E) (cg_zstd (ue_cfg E)) (ue_rnd E) (cg_cipher (ue_cfg E)) (cg_codec (ue_cfg E))
             (uw_ino W) idx d of
        Inl e \<Rightarrow> (UpRestore (UpSeal e) [], W)
      | Inr wire \<Rightarrow>
          (case stage_wire E idx d wire W of
             ((Some e, p), W1) \<Rightarrow> (UpRestore e [], W1)
           | ((None, p), W1) \<Rightarrow>
               if ue_packer E \<and> to_int32 (blen d) < pk_threshold (pw_packer (uw_pack W1)) then upload_pack E idx d wire p W1
               else upload_direct E idx d wire p W1))"

definition upload_body :: "upload_env \<Rightarrow> int \<Rightarrow> bytes \<Rightarrow> up_world \<Rightarrow> up_outcome \<times> up_world" where
  "upload_body E idx d W =
     (if dedup_enabled E then
        (case (case ue_reuse_err E of Some e \<Rightarrow> (Inl e, uw_store W)
               | None \<Rightarrow> reuse_chunk_by_hash (uw_ino W) idx (ue_sha E d) (uw_store W)) of
           (Inl e, s) \<Rightarrow> (UpRestore (UpDedup e) [], put_store s W)
         | (Inr (reused, _, _), s) \<Rightarrow>
             if reused then (UpDone, forget_cached idx (put_store s W))
             else upload_encoded E idx d (put_store s W))
      else upload_encoded E idx d W)"

section \<open>The deferred steps\<close>

definition record_lost :: "up_err \<Rightarrow> writer \<Rightarrow> writer" where
  "record_lost e w = (if w_upload_err w = None then w\<lparr>w_upload_err := Some (WLost e)\<rparr> else w)"

definition restore_chunk :: "int \<Rightarrow> bytes \<Rightarrow> up_outcome \<Rightarrow> writer \<Rightarrow> writer" where
  "restore_chunk idx d out w =
     (case out of
        UpDone \<Rightarrow> w
      | UpRestore e path \<Rightarrow>
          if w_closed w then (if path \<noteq> [] then w else record_lost e w)
          else if map_of (w_dirty w) idx \<noteq> None then w
          else w\<lparr>w_dirty := AList.update idx d (w_dirty w), w_order := idx # w_order w, w_dirty_bytes := w_dirty_bytes w + blen d\<rparr>)"

definition forget_uploading :: "int \<Rightarrow> writer \<Rightarrow> writer" where
  "forget_uploading idx w = w\<lparr>w_uploading := AList.delete idx (w_uploading w)\<rparr>"

definition upload_one :: "upload_env \<Rightarrow> int \<Rightarrow> bytes \<Rightarrow> up_world \<Rightarrow> up_world" where
  "upload_one E idx d W =
     (case upload_body E idx d W of
        (out, W1) \<Rightarrow> W1\<lparr>uw_writer := forget_uploading idx (restore_chunk idx d out (uw_writer W1))\<rparr>)"

section \<open>Flush, Sync and Close\<close>

definition flush_writer :: "write_env \<Rightarrow> writer \<Rightarrow> store \<Rightarrow> write_err option \<times> writer \<times> store" where
  "flush_writer E w s =
     (if w_closed w then (Some WClosed, w, s)
      else
        let prev = w_upload_err w in
        (case maybe_promote (w\<lparr>w_upload_err := None\<rparr>) s of
           (Inl e, w1, s1) \<Rightarrow> (Some e, w1, s1)
         | (Inr _, w1, s1) \<Rightarrow>
             (case dispatch_all E (w_order w1) w1 of
                (Inl e, w2) \<Rightarrow> (Some e, w2, s1)
              | (Inr _, w2) \<Rightarrow>
                  (case set_size (we_now E) (w_ino w2) (w_size w2) s1 of
                     (Inl e, s2) \<Rightarrow> (Some (WMeta e), w2, s2)
                   | (Inr _, s2) \<Rightarrow> (prev, w2, s2)))))"

text \<open>\<open>drain\<close> is what the uploads of this handle have done when the last one has ended.\<close>

definition sync_writer :: "write_env \<Rightarrow> (writer \<times> store \<Rightarrow> writer \<times> store) \<Rightarrow> writer \<Rightarrow> store \<Rightarrow> write_err option \<times> writer \<times> store" where
  "sync_writer E drain w s =
     (if w_closed w then (Some WClosed, w, s)
      else
        (case maybe_promote (w\<lparr>w_upload_err := None\<rparr>) s of
           (Inl e, w1, s1) \<Rightarrow> (Some e, w1, s1)
         | (Inr _, w1, s1) \<Rightarrow>
             (case dispatch_all E (w_order w1) w1 of
                (Inl e, w2) \<Rightarrow> (Some e, w2, s1)
              | (Inr _, w2) \<Rightarrow>
                  (case drain (w2, s1) of (w3, s3) \<Rightarrow>
                    (case w_upload_err w3 of
                       Some e \<Rightarrow> (Some e, w3, s3)
                     | None \<Rightarrow>
                         if w_dirty w3 \<noteq> [] then (Some (WRestored (int (length (w_dirty w3)))), w3, s3)
                         else (case set_size (we_now E) (w_ino w3) (w_size w3) s3 of
                                 (Inl e, s4) \<Rightarrow> (Some (WMeta e), w3, s4)
                               | (Inr _, s4) \<Rightarrow> (None, w3, s4)))))))"

definition close_writer :: "writer \<Rightarrow> writer" where
  "close_writer w =
     (if w_closed w then w
      else w\<lparr>w_closed := True, w_dirty := [], w_order := [], w_dirty_bytes := 0, w_uploading := []\<rparr>)"

end
