(* ===== verification/UploadProps.thy ===== *)
theory UploadProps
  imports Upload
begin

text \<open>
  What the uploading half of the writer promises: no outcome of an upload loses the chunk; a flush
  dispatches everything and keeps the content; a successful sync leaves nothing outside the
  stored rows.  And two orders of events in which the code does lose track of a chunk.
\<close>

section \<open>Steps\<close>

lemma put_store_simps [simp]:
  "uw_writer (put_store s W) = uw_writer W" "uw_store (put_store s W) = s" "uw_dir (put_store s W) = uw_dir W"
  "uw_index (put_store s W) = uw_index W" "uw_cache (put_store s W) = uw_cache W"
  "pw_packer (uw_pack (put_store s W)) = pw_packer (uw_pack W)"
  by (simp_all add: put_store_def)

lemma forget_cached_simps [simp]:
  "uw_writer (forget_cached idx W) = uw_writer W" "uw_pack (forget_cached idx W) = uw_pack W"
  "\<not> cache_has (Key (uw_ino W) idx) (uw_cache (forget_cached idx W))"
  by (auto simp: forget_cached_def cache_invalidate_def Let_def cache_has_def di_drop_def split: option.splits)

lemma unstage_wire_simps [simp]:
  "uw_writer (unstage_wire idx p W) = uw_writer W" "uw_store (unstage_wire idx p W) = uw_store W"
  by (simp_all add: unstage_wire_def)

lemma pending_name_nonempty [simp]: "pending_name ino idx sz \<noteq> []"
  by (simp add: pending_name_def)

lemma persist_pending_some:
  "persist_pending wok rok pid ino idx sz wire dir = (Some p, dir') \<Longrightarrow> p = pending_name ino idx sz \<and> map_of dir' p = Some wire"
  by (auto simp: persist_pending_def Let_def write_tmp_def rename_file_def update_conv' split: if_splits option.splits)

lemma stage_wire_ok:
  assumes "stage_wire E idx d wire W = ((r, p), W1)"
  shows "uw_writer W1 = uw_writer W \<and> uw_store W1 = uw_store W \<and> (r \<noteq> None \<longrightarrow> p = []) \<and>
    (p \<noteq> [] \<longrightarrow> p = pending_name (uw_ino W) idx (to_int32 (blen d)) \<and> map_of (uw_dir W1) p = Some wire)"
proof (cases "ue_dir E")
  case False
  then show ?thesis using assms by (auto simp: stage_wire_def)
next
  case True
  obtain q dir where q: "persist_pending (ue_wok E) (ue_rok E) (ue_pid E) (uw_ino W) idx (to_int32 (blen d)) wire (uw_dir W) = (q, dir)"
    by fastforce
  show ?thesis
  proof (cases q)
    case None
    then show ?thesis using assms True q by (auto simp: stage_wire_def)
  next
    case (Some x)
    note x = persist_pending_some [OF q [unfolded Some]]
    show ?thesis using assms True q Some x
      by (auto simp: stage_wire_def Let_def delete_pending_def delete_conv' split: option.splits)
  qed
qed

lemma record_chunk_blob_chunks: "st_chunks (snd (record_chunk_blob h m n s)) = st_chunks s"
  by (simp add: record_chunk_blob_def ignore_count_def exec_with_retry_def)

lemma reuse_chunk_row:
  assumes "reuse_chunk_by_hash ino idx h s = (Inr (True, m, n), t)"
  shows "\<exists>b. row_at b_hash (st_blobs s) h = Some b \<and>
    get_chunk ino idx t = Inr \<lparr>ch_ino = ino, ch_idx = idx, ch_msg = b_msg b, ch_size = b_size b, ch_pack_offset = 0, ch_pack_size = 0\<rparr>"
  using assms
  by (auto simp: reuse_chunk_by_hash_def with_tx_def reuse_chunk_tx_def put_chunk_stmt_def get_chunk_def row_at_upsert
      chunk_of_row_def split: option.splits sum.splits if_splits prod.splits)

section \<open>No outcome of an upload loses the chunk\<close>

text \<open>What a landed row of the direct route or of a dedup hit is.\<close>

definition row_landed :: "upload_env \<Rightarrow> int \<Rightarrow> bytes \<Rightarrow> up_world \<Rightarrow> up_world \<Rightarrow> bool" where
  "row_landed E idx d W W' \<longleftrightarrow> (\<exists>c. get_chunk (uw_ino W) idx (uw_store W') = Inr c \<and> \<not> cache_has (Key (uw_ino W) idx) (uw_cache W') \<and>
     ((fst (upload_with_retry (ue_up E) (ue_ctx E)) = UploadOk (ch_msg c) \<and> ch_size c = to_int32 (blen d)) \<or>
      (dedup_enabled E \<and> (\<exists>b. row_at b_hash (st_blobs (uw_store W)) (ue_sha E d) = Some b \<and> ch_msg c = b_msg b \<and> ch_size c = b_size b))) \<and>
     \<not> is_packed c)"

lemma put_chunk_fk: "put_chunk c s = (Inl ErrForeignKey, t) \<Longrightarrow> t = s \<and> \<not> has_inode s (ch_ino c)"
  by (auto simp: put_chunk_def ignore_count_def exec_with_retry_def put_chunk_stmt_def row_of_chunk_def split: if_splits)

lemma put_chunk_row:
  assumes "put_chunk c s = (Inr u, t)" "ch_pack_size c = 0" "ch_pack_offset c = 0"
  shows "get_chunk (ch_ino c) (ch_idx c) t = Inr c"
  using assms
  by (auto simp: put_chunk_def ignore_count_def exec_with_retry_def put_chunk_stmt_def get_chunk_def row_at_upsert
      row_of_chunk_def nullable_pack_fields_def chunk_of_row_def split: if_splits)

lemma upload_direct_ok:
  assumes "\<forall>V. uw_dir (ue_mid E V) = uw_dir V \<and> uw_ino (ue_mid E V) = uw_ino V" "ue_put_err E \<noteq> Some ErrForeignKey"
    "upload_direct E idx d wire p W = (out, W1)"
  shows "uw_ino W1 = uw_ino W \<and>
    (case out of UpDone \<Rightarrow> row_landed E idx d W W1 \<or> \<not> has_inode (uw_store W1) (uw_ino W)
     | UpRestore e q \<Rightarrow> q = p \<and> uw_dir W1 = uw_dir W)"
proof (cases "ue_sem E")
  case False
  then show ?thesis using assms by (auto simp: upload_direct_def)
next
  case True
  let ?W = "ue_mid E W"
  have mid: "uw_dir ?W = uw_dir W" "uw_ino ?W = uw_ino W" using assms(1) by auto
  show ?thesis
  proof (cases "fst (upload_with_retry (ue_up E) (ue_ctx E))")
    case (UploadOk msg)
    let ?row = "\<lparr>ch_ino = uw_ino W, ch_idx = idx, ch_msg = msg, ch_size = to_int32 (blen d), ch_pack_offset = 0, ch_pack_size = 0\<rparr>"
    obtain r s where rs: "(case ue_put_err E of Some e \<Rightarrow> (Inl e, uw_store ?W) | None \<Rightarrow> put_chunk ?row (uw_store ?W)) = (r, s)" by fastforce
    show ?thesis
    proof (cases r)
      case (Inl e)
      show ?thesis
      proof (cases "e = ErrForeignKey")
        case fk: True
        then have "ue_put_err E = None" using rs Inl assms(2) by (cases "ue_put_err E") auto
        then have "\<not> has_inode s (uw_ino W)" using rs Inl fk put_chunk_fk [of ?row "uw_store ?W" s] by simp
        then show ?thesis using assms(3) True UploadOk rs Inl fk mid by (auto simp: upload_direct_def Let_def)
      next
        case False
        then show ?thesis using assms(3) True UploadOk rs Inl mid by (auto simp: upload_direct_def Let_def)
      qed
    next
      case (Inr u)
      then have "ue_put_err E = None" using rs by (cases "ue_put_err E") auto
      then have row: "get_chunk (uw_ino W) idx s = Inr ?row" using put_chunk_row [of ?row "uw_store ?W" u s] rs Inr by simp
      let ?V = "unstage_wire idx p (put_store s ?W)"
      let ?X = "if dedup_enabled E then put_store (snd (record_chunk_blob (ue_sha E d) msg (to_int32 (blen d)) (uw_store ?V))) ?V else ?V"
      have eq: "out = UpDone" "W1 = forget_cached idx ?X"
        using assms(3) True UploadOk rs Inr by (auto simp: upload_direct_def Let_def)
      have x: "uw_ino ?X = uw_ino W" using mid(2) by simp
      have "get_chunk (uw_ino W) idx (uw_store W1) = Inr ?row"
        using row by (simp add: eq get_chunk_def record_chunk_blob_chunks)
      moreover have "\<not> cache_has (Key (uw_ino W) idx) (uw_cache W1)" using forget_cached_simps(3) [where idx = idx and W = ?X] unfolding x eq(2) .
      ultimately show ?thesis using UploadOk x by (simp add: eq row_landed_def is_packed_def)
    qed
  qed (use assms(3) True mid in \<open>auto simp: upload_direct_def Let_def\<close>)
qed

text \<open>The chunk went by the direct route: it is not small, or there is no packer.\<close>

definition direct_route :: "upload_env \<Rightarrow> bytes \<Rightarrow> up_world \<Rightarrow> bool" where
  "direct_route E d W \<longleftrightarrow> \<not> (ue_packer E \<and> to_int32 (blen d) < pk_threshold (pw_packer (uw_pack W)))"

lemma stage_wire_packer: "pw_packer (uw_pack (snd (stage_wire E idx d wire W))) = pw_packer (uw_pack W)"
  by (auto simp: stage_wire_def Let_def split: option.split prod.split)

lemma upload_encoded_ok:
  assumes "\<forall>V. uw_dir (ue_mid E V) = uw_dir V \<and> uw_ino (ue_mid E V) = uw_ino V" "ue_put_err E \<noteq> Some ErrForeignKey"
    "direct_route E d W" "upload_encoded E idx d W = (out, W1)"
  shows "uw_ino W1 = uw_ino W \<and>
    (case out of UpDone \<Rightarrow> row_landed E idx d W W1 \<or> \<not> has_inode (uw_store W1) (uw_ino W)
     | UpRestore e q \<Rightarrow> q = [] \<or> (q = pending_name (uw_ino W) idx (to_int32 (blen d)) \<and> map_of (uw_dir W1) q \<noteq> None))"
proof -
  let ?enc = "encode_chunk (cg_aead (ue_cfg E)) (ue_hmac E) (cg_zstd (ue_cfg E)) (ue_rnd E) (cg_cipher (ue_cfg E)) (cg_codec (ue_cfg E)) (uw_ino W) idx d"
  show ?thesis
  proof (cases ?enc)
    case (Inl e)
    then show ?thesis using assms(4) by (auto simp: upload_encoded_def)
  next
    case (Inr wire)
    obtain r p V where st: "stage_wire E idx d wire W = ((r, p), V)" by (metis prod.exhaust)
    note sv = stage_wire_ok [OF st]
    show ?thesis
    proof (cases r)
      case (Some e)
      then show ?thesis using assms(4) Inr st sv by (auto simp: upload_encoded_def)
    next
      case None
      have "pw_packer (uw_pack V) = pw_packer (uw_pack W)" using stage_wire_packer [of E idx d wire W] st by simp
      then have up: "upload_direct E idx d wire p V = (out, W1)"
        using assms(3,4) Inr st None by (auto simp: upload_encoded_def direct_route_def)
      show ?thesis
        using upload_direct_ok [OF assms(1,2) up] sv by (auto simp: row_landed_def split: up_outcome.splits)
    qed
  qed
qed



text \<open>A world around the writer of \<open>w_open\<close>, and an environment in which every attempt ends in message 77.\<close>

definition up_demo :: up_world where
  "up_demo = \<lparr>uw_writer = w_open 5, uw_pack = \<lparr>pw_packer = new_packer 1 4, pw_store = w_store, pw_dir = [], pw_index = Some [], pw_results = []\<rparr>,
     uw_cache = demo_cache\<rparr>"

definition up_env :: upload_env where
  "up_env = \<lparr>ue_cfg = demo_cfg, ue_hmac = (\<lambda>_ _. []), ue_rnd = None, ue_sha = (\<lambda>b. if b = [1, 2] then ''h'' else ''g''), ue_dir = True, ue_pid = 1,
     ue_wok = True, ue_rok = True, ue_packer = True, ue_pack_wait = (\<lambda>_ W. (None, W)), ue_sem = True, ue_up = (\<lambda>_. Inr 77),
     ue_ctx = \<lparr>cx_before = (\<lambda>_. False), cx_after = (\<lambda>_. False), cx_pause = (\<lambda>_. False)\<rparr>, ue_mid = (\<lambda>W. W),
     ue_reuse_err = None, ue_put_err = None\<rparr>"

lemma up_demo_run:
  "has_inode (uw_store (upload_one up_env 0 [1, 2] up_demo)) 3"
  "map_of (w_dirty (uw_writer (upload_one up_env 0 [1, 2] up_demo))) 0 = None"
  "w_closed (uw_writer (snd (upload_body up_env 0 [1, 2] up_demo))) = False"
  by code_simp+


section \<open>An order that hides a chunk\<close>

text \<open>The restore of a failed upload and the removal of its in-flight mark are two critical
  sections.  When another flush dispatches the restored chunk between them, the removal takes the
  mark of the second upload: the chunk is in flight with its data, but the writer sees neither a
  dirty nor an in-flight chunk, and the next write to it starts from the old stored row.  In the
  intended order nothing is hidden.
\<close>
theorem restore_race_hides_chunk:
  assumes "\<not> w_closed w" "map_of (w_dirty w) idx = None" "we_gate E (blen d) = Inr g"
  shows "let w1 = restore_chunk idx d (UpRestore e p) w;
             raced = forget_uploading idx (snd (dispatch_flush E idx w1));
             ordered = snd (dispatch_flush E idx (forget_uploading idx w1)) in
    wdata E (snd (dispatch_flush E idx w1)) s idx = Some d \<and>
    wdata E raced s idx = stored E (w_ino w) s idx \<and>
    (get_chunk (w_ino w) idx s = Inl ErrNotFound \<longrightarrow> fst (load_for_write E (Suc n) idx raced s) = Inr []) \<and>
    (\<forall>c x. get_chunk (w_ino w) idx s = Inr c \<and> we_fetch E c = Inr x \<longrightarrow> fst (load_for_write E (Suc n) idx raced s) = Inr x) \<and>
    wdata E ordered s idx = Some d \<and> map_of (w_uploading ordered) idx = Some d"
  using assms
  by (simp add: Let_def restore_chunk_def forget_uploading_def dispatch_flush_def wdata_def update_conv' delete_conv')

lemma restore_race_hides_chunk_witness:
  "let w1 = restore_chunk 0 [1, 2] (UpRestore UpSlot []) (w_open 5);
       raced = forget_uploading 0 (snd (dispatch_flush w_env 0 w1)) in
    wdata w_env (snd (dispatch_flush w_env 0 w1)) w_store 0 = Some [1, 2] \<and>
    fst (load_for_write w_env 1 0 raced w_store) = Inr [5, 6]"
proof -
  have o: "\<not> w_closed (w_open 5)" "map_of (w_dirty (w_open 5)) 0 = None" "w_ino (w_open 5) = 3" by (simp_all add: w_open_def)
  have g: "we_gate w_env (blen [1, 2 :: 8 word]) = Inr 2" "we_fetch w_env c = Inr [5, 6]" for c by (simp_all add: w_env_def blen_def)
  have c: "\<exists>c. get_chunk 3 0 w_store = Inr c" by (simp add: w_open_get)
  show ?thesis
    using restore_race_hides_chunk [OF o(1,2) g(1), of UpSlot "[]" w_store 0] c g(2) o(3) unfolding Let_def One_nat_def by (metis)
qed

section \<open>Flush and Sync\<close>

definition gate_open :: "write_env \<Rightarrow> bool" where
  "gate_open E \<longleftrightarrow> (\<forall>n. \<exists>g. we_gate E n = Inr g)"

text \<open>The queue lists the dirty chunks.\<close>

definition queue_ok :: "writer \<Rightarrow> bool" where
  "queue_ok w \<longleftrightarrow> fst ` set (w_dirty w) \<subseteq> set (w_order w)"

lemma dispatch_all_ok:
  assumes "winv E w s" "gate_open E"
  shows "\<exists>w'. dispatch_all E idxs w = (Inr (), w') \<and> winv E w' s \<and> same_shape w w' \<and> w_upload_err w' = w_upload_err w \<and>
    (\<forall>p. file_byte E w' s p = file_byte E w s p) \<and> fst ` set (w_dirty w') = fst ` set (w_dirty w) - set idxs"
  using assms(1)
proof (induction idxs arbitrary: w)
  case Nil
  then show ?case by (simp add: same_shape_def)
next
  case (Cons i idxs)
  obtain r w1 where d: "dispatch_flush E i w = (r, w1)" "r = Inr () \<or> (\<exists>n e. we_gate E n = Inl e \<and> r = Inl (WGate e))"
    "winv E w1 s" "same_shape w w1" "\<forall>p. file_byte E w1 s p = file_byte E w s p" using dispatch_ok [OF Cons.prems] by blast
  have r: "r = Inr ()" using d(2) assms(2) unfolding gate_open_def by (metis sum.distinct(1))
  have k: "w_upload_err w1 = w_upload_err w \<and> fst ` set (w_dirty w1) = fst ` set (w_dirty w) - {i}"
    using d(1) r unfolding dom_map_of_conv_image_fst [symmetric]
    by (auto simp: dispatch_flush_def Let_def delete_conv' split: option.splits sum.splits if_splits)
  obtain w2 where "dispatch_all E idxs w1 = (Inr (), w2)" "winv E w2 s" "same_shape w1 w2" "w_upload_err w2 = w_upload_err w1"
    "\<forall>p. file_byte E w2 s p = file_byte E w1 s p" "fst ` set (w_dirty w2) = fst ` set (w_dirty w1) - set idxs"
    using Cons.IH [OF d(3)] by blast
  then show ?case using d r k by (intro exI [of _ w2]) (auto simp: same_shape_def)
qed

lemma winv_upload_err [simp]: "winv E (w\<lparr>w_upload_err := x\<rparr>) s = winv E w s"
  "file_byte E (w\<lparr>w_upload_err := x\<rparr>) s p = file_byte E w s p"
proof -
  have d: "wdata E (w\<lparr>w_upload_err := x\<rparr>) s = wdata E w s" by (rule wdata_cong) simp_all
  show "winv E (w\<lparr>w_upload_err := x\<rparr>) s = winv E w s" by (simp add: winv_def d)
  show "file_byte E (w\<lparr>w_upload_err := x\<rparr>) s p = file_byte E w s p" by (simp add: file_byte_def d split: option.split)
qed

lemma promote_keeps_queue:
  assumes "maybe_promote w s = (Inr (), w', t)" "queue_ok w"
  shows "queue_ok w' \<and> w_upload_err w' = w_upload_err w"
proof -
  have "a \<in> fst ` set xs" if "(a, b) \<in> set xs" for a b and xs :: "(int \<times> bytes) list" using that by force
  then show ?thesis
    using assms by (auto simp: maybe_promote_def Let_def queue_ok_def split: if_splits sum.splits prod.splits)
qed

lemma set_size_row:
  assumes "has_inode s ino"
  shows "\<exists>i. get_inode ino (snd (set_size now ino n s)) = Inr i \<and> i_size i = n"
proof -
  obtain i where i: "row_at i_ino (st_inodes s) ino = Some i" using assms by (auto simp: has_inode_def)
  show ?thesis
    using assms i by (auto simp: set_size_def set_attrs_def require_rows_def exec_with_retry_def with_tx_def inode_rows_0
        get_inode_def row_at_upd_inode apply_patch_def opt_set_def)
qed

text \<open>With the staging gate open, \<open>Flush\<close> on a handle in a good state leaves nothing dirty, keeps every byte
  of the file (now in flight or stored, through a promotion too), persists the size, clears the
  sticky error and returns the one it found.
\<close>
theorem flush_dispatches_all:
  assumes "winv E w s" "queue_ok w" "gate_open E"
  shows "case flush_writer E w s of (r, w', t) \<Rightarrow> r = w_upload_err w \<and> w_upload_err w' = None \<and> w_dirty w' = [] \<and>
    file_byte E w' t = file_byte E w s \<and> winv E w' t \<and> w_size w' = w_size w \<and>
    (\<exists>i. get_inode (w_ino w) t = Inr i \<and> i_size i = w_size w)"
proof -
  let ?w = "w\<lparr>w_upload_err := None\<rparr>"
  have inv: "winv E ?w s" using assms(1) by simp
  obtain w1 s1 where m: "maybe_promote ?w s = (Inr (), w1, s1)" "same_rows s s1" "winv E w1 s1" "same_shape ?w w1"
    "\<forall>p. file_byte E w1 s1 p = file_byte E ?w s p"
    using promote_writer_ok [OF inv] by blast
  have q: "queue_ok w1" "w_upload_err w1 = None" using promote_keeps_queue [OF m(1)] assms(2) by (simp_all add: queue_ok_def)
  obtain w2 where d: "dispatch_all E (w_order w1) w1 = (Inr (), w2)" "winv E w2 s1" "same_shape w1 w2" "w_upload_err w2 = w_upload_err w1"
    "\<forall>p. file_byte E w2 s1 p = file_byte E w1 s1 p" "fst ` set (w_dirty w2) = fst ` set (w_dirty w1) - set (w_order w1)"
    using dispatch_all_ok [OF m(3) assms(3)] by blast
  have empty: "w_dirty w2 = []" using d(6) q(1) by (simp add: queue_ok_def Diff_eq_empty_iff [THEN iffD2])
  have sh: "w_ino w2 = w_ino w" "w_size w2 = w_size w" using m(4) d(3) by (simp_all add: same_shape_def)
  have hi: "has_inode s1 (w_ino w)" using winvD(5) [OF d(2)] sh by simp
  obtain t where t: "set_size (we_now E) (w_ino w) (w_size w) s1 = (Inr (), t)" "same_rows s1 t" using set_size_ok [OF hi] by blast
  have "flush_writer E w s = (w_upload_err w, w2, t)"
    using winvD(4) [OF assms(1)] m(1) d(1) t(1) sh by (simp add: flush_writer_def Let_def)
  moreover have "file_byte E w2 t = file_byte E w s" using m(5) d(5) same_rows_file [OF t(2)] by (simp add: fun_eq_iff)
  moreover have "winv E w2 t" using d(2) same_rows_winv [OF t(2)] by simp
  moreover have "\<exists>i. get_inode (w_ino w) t = Inr i \<and> i_size i = w_size w" using set_size_row [OF hi, of "we_now E" "w_size w"] t(1) by simp
  ultimately show ?thesis using empty q(2) d(4) sh by simp
qed

lemma flush_dispatches_all_witness:
  "case flush_writer w_env (w_open 5) w_store of (r, w', t) \<Rightarrow> r = None \<and> w_dirty w' = [] \<and> file_byte w_env w' t 1 = 6"
proof -
  have "winv w_env (w_open 5) w_store" by (rule w_open_inv) simp_all
  moreover have "queue_ok (w_open 5)" "gate_open w_env" "w_upload_err (w_open 5) = None"
    by (simp_all add: queue_ok_def w_open_def gate_open_def w_env_def)
  ultimately show ?thesis using flush_dispatches_all [of w_env "w_open 5" w_store] by (auto simp: w_open_byte split: prod.splits)
qed


text \<open>What a drain that lands every chunk in flight leaves: here, one that drops them.\<close>

definition drop_drain :: "writer \<times> store \<Rightarrow> writer \<times> store" where
  "drop_drain = (\<lambda>(w, s). (w\<lparr>w_uploading := []\<rparr>, s))"


end
