(* ===== verification/Recovery.thy ===== *)
theory Recovery
  imports UploadProps
begin

text \<open>
  The recovery of staged wires at startup, \<open>recoverPending\<close> in \<open>cmd/telfs/main.go\<close>: of two
  generations of a slot only the newer is kept, wires of vanished inodes are deleted, the rest is
  submitted to the packer again.  \<open>mt\<close> gives the modification time of a staged file, \<open>bad\<close> the
  entries whose inode cannot be probed, and the \<open>stop\<close>s the entry at which the context is done.
  Go's random order over the slots is the order of the association list.
\<close>

abbreviation entry_key :: "pending_entry \<Rightarrow> ckey" where "entry_key e \<equiv> Key (pe_ino e) (pe_idx e)"

fun newest :: "(string \<Rightarrow> int) \<Rightarrow> pending_entry list \<Rightarrow> (ckey \<times> pending_entry) list \<Rightarrow> dirmap
    \<Rightarrow> (ckey \<times> pending_entry) list \<times> dirmap" where
  "newest mt [] m dir = (m, dir)"
| "newest mt (e # es) m dir =
     (case map_of m (entry_key e) of
        None \<Rightarrow> newest mt es (AList.update (entry_key e) e m) dir
      | Some prev \<Rightarrow>
          if mt (pe_path e) \<ge> mt (pe_path prev)
          then newest mt es (AList.update (entry_key e) e m) (delete_pending (pe_path prev) dir)
          else newest mt es m (delete_pending (pe_path e) dir))"

fun live_entries :: "(pending_entry \<Rightarrow> bool) \<Rightarrow> (pending_entry \<Rightarrow> bool) \<Rightarrow> store \<Rightarrow> pending_entry list \<Rightarrow> dirmap
    \<Rightarrow> pending_entry list option \<times> dirmap" where
  "live_entries stop bad s [] dir = (Some [], dir)"
| "live_entries stop bad s (e # es) dir =
     (if stop e then (None, dir)
      else if bad e then live_entries stop bad s es dir
      else (case get_inode (pe_ino e) s of
          Inl _ \<Rightarrow> live_entries stop bad s es (delete_pending (pe_path e) dir)
        | Inr _ \<Rightarrow>
            (case live_entries stop bad s es dir of
               (None, d) \<Rightarrow> (None, d)
             | (Some l, d) \<Rightarrow> (Some (e # l), d))))"

fun resubmit :: "(pending_entry \<Rightarrow> bool) \<Rightarrow> pending_entry list \<Rightarrow> pack_world \<Rightarrow> pack_world" where
  "resubmit stop [] w = w"
| "resubmit stop (e # es) w =
     (if stop e then w
      else
        let w1 = w\<lparr>pw_index := record_persist (pe_ino e) (pe_idx e) (pe_path e) (pw_index w)\<rparr> in
        (case map_of (pw_dir w1) (pe_path e) of
           None \<Rightarrow> resubmit stop es w1
         | Some wire \<Rightarrow>
             resubmit stop es (w1\<lparr>pw_packer := snd (submit (pe_ino e) (pe_idx e) (pe_size e) wire (pe_path e) (pw_packer w1))\<rparr>)))"

definition recover_pending :: "(string \<Rightarrow> int) \<Rightarrow> (pending_entry \<Rightarrow> bool) \<Rightarrow> (pending_entry \<Rightarrow> bool) \<Rightarrow> (pending_entry \<Rightarrow> bool)
    \<Rightarrow> pack_world \<Rightarrow> pack_world" where
  "recover_pending mt stop1 bad stop2 w =
     (let entries = scan_pending (pw_dir w) in
      case newest mt entries [] (pw_dir w) of
        (m, dir1) \<Rightarrow>
          (case live_entries stop1 bad (pw_store w) (if length m < length entries then map snd m else entries) dir1 of
             (None, dir2) \<Rightarrow> w\<lparr>pw_dir := dir2\<rparr>
           | (Some live, dir2) \<Rightarrow> resubmit stop2 live (w\<lparr>pw_dir := dir2\<rparr>)))"

section \<open>Lemmas\<close>

text \<open>What is kept once the entries D have been looked at: the newest of every slot; the others are deleted.\<close>

definition kept :: "(string \<Rightarrow> int) \<Rightarrow> dirmap \<Rightarrow> pending_entry set \<Rightarrow> (ckey \<times> pending_entry) list \<Rightarrow> dirmap \<Rightarrow> bool" where
  "kept mt dir0 D m dir \<longleftrightarrow> distinct (map fst m) \<and> fst ` set m = entry_key ` D \<and>
     (\<forall>k e. (k, e) \<in> set m \<longrightarrow> k = entry_key e \<and> e \<in> D \<and> (\<forall>f\<in>D. entry_key f = k \<longrightarrow> mt (pe_path f) \<le> mt (pe_path e))) \<and>
     (\<forall>n. map_of dir n = (if n \<in> pe_path ` D \<and> n \<notin> pe_path ` snd ` set m then None else map_of dir0 n))"

lemma keptD:
  assumes "kept mt dir0 D m dir"
  shows "distinct (map fst m)" "fst ` set m = entry_key ` D" "(k, e) \<in> set m \<Longrightarrow> k = entry_key e" "(k, e) \<in> set m \<Longrightarrow> e \<in> D"
    "(k, e) \<in> set m \<Longrightarrow> f \<in> D \<Longrightarrow> entry_key f = k \<Longrightarrow> mt (pe_path f) \<le> mt (pe_path e)"
    "map_of dir n = (if n \<in> pe_path ` D \<and> n \<notin> pe_path ` snd ` set m then None else map_of dir0 n)"
  using assms unfolding kept_def by blast+

lemma set_update_assoc: "distinct (map fst m) \<Longrightarrow> set (AList.update k v m) = insert (k, v) {x \<in> set m. fst x \<noteq> k}"
  by (induction m) (auto simp: rev_image_eqI)

lemma kept_step:
  assumes "kept mt dir0 D m dir" "inj_on pe_path (insert e D)" "e \<notin> D"
  shows "kept mt dir0 (insert e D)
    (case map_of m (entry_key e) of None \<Rightarrow> AList.update (entry_key e) e m
     | Some prev \<Rightarrow> if mt (pe_path prev) \<le> mt (pe_path e) then AList.update (entry_key e) e m else m)
    (case map_of m (entry_key e) of None \<Rightarrow> dir
     | Some prev \<Rightarrow> if mt (pe_path prev) \<le> mt (pe_path e) then delete_pending (pe_path prev) dir else delete_pending (pe_path e) dir)"
proof -
  note k = keptD [OF assms(1)]
  have inj: "pe_path f \<noteq> pe_path e" if "f \<in> D" for f using assms(2,3) that by (auto simp: inj_on_def)
  show ?thesis
  proof (cases "map_of m (entry_key e)")
    case None
    then have new: "entry_key e \<notin> entry_key ` D" using k(2) by (metis map_of_eq_None_iff)
    have s: "set (AList.update (entry_key e) e m) = insert (entry_key e, e) (set m)"
    proof -
      have "fst x \<noteq> entry_key e" if "x \<in> set m" for x using imageI [OF that, of fst] new k(2) by auto
      then show ?thesis by (auto simp: set_update_assoc [OF k(1)])
    qed
    have newD: "entry_key f \<noteq> entry_key e" if "f \<in> D" for f using imageI [OF that, of entry_key] new by auto
    have newm: "(entry_key e, f) \<notin> set m" for f using k(3,4) newD by metis
    have "kept mt dir0 (insert e D) (AList.update (entry_key e) e m) dir"
      unfolding kept_def s
      using newD newm k(1,2,6) new inj k(3,4,5) by (auto simp: distinct_update)
    then show ?thesis using None by simp
  next
    case (Some prev)
    then have pm: "(entry_key e, prev) \<in> set m" by (rule map_of_SomeD)
    have pD: "prev \<in> D" "entry_key prev = entry_key e" using k(3,4) [OF pm] by auto
    show ?thesis
    proof (cases "mt (pe_path prev) \<le> mt (pe_path e)")
      case True
      let ?m = "AList.update (entry_key e) e m"
      have s: "set ?m = insert (entry_key e, e) {x \<in> set m. fst x \<noteq> entry_key e}" by (rule set_update_assoc [OF k(1)])
      have only: "pe_path (snd x) = pe_path prev \<longleftrightarrow> fst x = entry_key e" if x: "x \<in> set m" for x
      proof
        assume "pe_path (snd x) = pe_path prev"
        then have "snd x = prev" using k(4) [of "fst x" "snd x"] x pD(1) assms(2) by (simp add: inj_on_def)
        then have "(fst x, prev) \<in> set m" using x by (metis prod.collapse)
        then show "fst x = entry_key e" using k(3) pD(2) by metis
      next
        assume "fst x = entry_key e"
        then show "pe_path (snd x) = pe_path prev" using x pm k(1) by (metis eq_key_imp_eq_value prod.collapse)
      qed
      have paths: "pe_path ` snd ` set ?m = insert (pe_path e) (pe_path ` snd ` set m - {pe_path prev})"
        unfolding s using only by (auto simp: image_iff)
      have look: "map_of (delete_pending (pe_path prev) dir) n =
          (if n \<in> pe_path ` insert e D \<and> n \<notin> pe_path ` snd ` set ?m then None else map_of dir0 n)" for n
        unfolding paths delete_pending_def delete_conv' using k(6) [of n] pD(1) inj by auto
      have "kept mt dir0 (insert e D) ?m (delete_pending (pe_path prev) dir)"
        unfolding kept_def
      proof (intro conjI allI impI)
        show "distinct (map fst ?m)" using k(1) by (rule distinct_update)
        have "fst ` {x \<in> set m. fst x \<noteq> entry_key e} = fst ` set m - {entry_key e}" by auto
        then show "fst ` set ?m = entry_key ` insert e D" unfolding s image_insert k(2) by simp
        fix j f
        assume j: "(j, f) \<in> set ?m"
        show "j = entry_key f" "f \<in> insert e D" using j k(3,4) unfolding s by auto
        show "\<forall>g\<in>insert e D. entry_key g = j \<longrightarrow> mt (pe_path g) \<le> mt (pe_path f)"
        proof (cases "j = entry_key e")
          case jk: True
          then have "f = e" using j unfolding s by simp
          moreover have "mt (pe_path g) \<le> mt (pe_path e)" if "g \<in> D" "entry_key g = entry_key e" for g
            using k(5) [OF pm that] True by (rule order_trans)
          ultimately show ?thesis using jk by blast
        next
          case False
          then have "(j, f) \<in> set m" using j unfolding s by simp
          then show ?thesis using k(5) False by blast
        qed
      qed (rule look)
      then show ?thesis using Some True by simp
    next
      case False
      have pe: "pe_path e \<notin> pe_path ` snd ` set m" using k(4) inj by fastforce
      have "kept mt dir0 (insert e D) m (delete_pending (pe_path e) dir)"
        unfolding kept_def
      proof (intro conjI allI impI)
        show "distinct (map fst m)" by (rule k(1))
        show "fst ` set m = entry_key ` insert e D" unfolding image_insert k(2) using imageI [OF pD(1), of entry_key] pD(2) by (simp only: insert_absorb)
        fix j f
        assume j: "(j, f) \<in> set m"
        show "j = entry_key f" "f \<in> insert e D" using j k(3,4) by auto
        have "mt (pe_path e) \<le> mt (pe_path f)" if je: "entry_key e = j"
        proof -
          have "f = prev" using eq_key_imp_eq_value [OF k(1) j [folded je] pm] .
          then show ?thesis using False by simp
        qed
        then show "\<forall>g\<in>insert e D. entry_key g = j \<longrightarrow> mt (pe_path g) \<le> mt (pe_path f)" using k(5) [OF j] by auto
      next
        fix n
        show "map_of (delete_pending (pe_path e) dir) n =
          (if n \<in> pe_path ` insert e D \<and> n \<notin> pe_path ` snd ` set m then None else map_of dir0 n)"
          unfolding delete_pending_def delete_conv' using k(6) [of n] pe by auto
      qed
      then show ?thesis using Some False by simp
    qed
  qed
qed

lemma newest_kept:
  assumes "kept mt dir0 D m dir" "inj_on pe_path (D \<union> set es)" "distinct es" "D \<inter> set es = {}" "newest mt es m dir = (m', dir')"
  shows "kept mt dir0 (D \<union> set es) m' dir'"
  using assms
proof (induction es arbitrary: D m dir)
  case (Cons e es)
  have i: "inj_on pe_path (insert e D)" using Cons.prems(2) by (rule inj_on_subset) auto
  have u: "insert e D \<union> set es = D \<union> set (e # es)" by auto
  have "kept mt dir0 (insert e D \<union> set es) m' dir'"
    using Cons.IH [OF kept_step [OF Cons.prems(1) i]] Cons.prems(2-5) unfolding u by (auto split: option.splits if_splits)
  then show ?case unfolding u .
qed simp

lemma kept_empty: "kept mt dir {} [] dir"
  by (simp add: kept_def)

lemma live_entries_ok:
  "live_entries (\<lambda>_. False) (\<lambda>_. False) s es dir =
    (Some (filter (\<lambda>e. has_inode s (pe_ino e)) es),
     fold (\<lambda>e. delete_pending (pe_path e)) (filter (\<lambda>e. \<not> has_inode s (pe_ino e)) es) dir)"
  by (induction es arbitrary: dir) (auto simp: get_inode_def has_inode_def split: option.split)

lemma map_of_delete_all:
  "map_of (fold (\<lambda>e. delete_pending (pe_path e)) es dir) n = (if n \<in> pe_path ` set es then None else map_of dir n)"
  by (induction es arbitrary: dir) (auto simp: delete_pending_def delete_conv')

text \<open>What the packer gets: one request for each entry, with the content of its file.\<close>

definition req_of :: "dirmap \<Rightarrow> nat \<Rightarrow> pending_entry \<Rightarrow> pack_req" where
  "req_of dir ch e = \<lparr>pr_ino = pe_ino e, pr_idx = pe_idx e, pr_size = pe_size e, pr_wire = the (map_of dir (pe_path e)), pr_path = pe_path e, pr_chan = ch\<rparr>"

lemma resubmit_ok:
  assumes "\<forall>e\<in>set es. map_of (pw_dir w) (pe_path e) \<noteq> None"
  shows "pw_dir (resubmit (\<lambda>_. False) es w) = pw_dir w \<and> pw_store (resubmit (\<lambda>_. False) es w) = pw_store w \<and>
    pk_pending (pw_packer (resubmit (\<lambda>_. False) es w)) =
      pk_pending (pw_packer w) @ map (\<lambda>(ch, e). req_of (pw_dir w) ch e) (enumerate (pk_next (pw_packer w)) es) \<and>
    pw_index (resubmit (\<lambda>_. False) es w) = fold (\<lambda>e. record_persist (pe_ino e) (pe_idx e) (pe_path e)) es (pw_index w)"
  using assms
proof (induction es arbitrary: w)
  case (Cons e es)
  obtain wire where wire: "map_of (pw_dir w) (pe_path e) = Some wire" using Cons.prems by auto
  let ?w = "w\<lparr>pw_index := record_persist (pe_ino e) (pe_idx e) (pe_path e) (pw_index w),
     pw_packer := snd (submit (pe_ino e) (pe_idx e) (pe_size e) wire (pe_path e) (pw_packer w))\<rparr>"
  have s: "pk_pending (pw_packer ?w) = pk_pending (pw_packer w) @ [req_of (pw_dir w) (pk_next (pw_packer w)) e]"
    "pk_next (pw_packer ?w) = Suc (pk_next (pw_packer w))"
    using wire by (simp_all add: submit_def Let_def req_of_def)
  show ?case using Cons.IH [of ?w] Cons.prems wire s by simp
qed simp

lemma scan_pending_entry: "e \<in> set (scan_pending dir) \<longleftrightarrow> pe_path e \<in> fst ` set dir \<and> scan_pending_name (pe_path e) = Some e"
proof -
  have p: "pe_path e = n" if "scan_pending_name n = Some e" for n
    using that by (auto simp: scan_pending_name_def Let_def split: if_splits option.splits prod.splits)
  have "e \<in> set (scan_pending dir) \<longleftrightarrow> (\<exists>n\<in>fst ` set dir. scan_pending_name n = Some e)"
    unfolding scan_pending_names set_map_filter by simp
  moreover have "(\<exists>n\<in>A. scan_pending_name n = Some e) \<longleftrightarrow> pe_path e \<in> A \<and> scan_pending_name (pe_path e) = Some e" for A
    using p by metis
  ultimately show ?thesis by simp
qed

lemma scan_pending_distinct: "distinct (map fst dir) \<Longrightarrow> distinct (scan_pending dir)"
proof (induction dir)
  case (Cons x dir)
  have "e \<notin> set (scan_pending dir)" if "scan_pending_name (fst x) = Some e" for e
  proof
    assume e: "e \<in> set (scan_pending dir)"
    have "e \<in> set (scan_pending [x])" using that by (simp add: scan_pending_names map_filter_simps)
    then have "pe_path e = fst x" by (simp add: scan_pending_entry)
    then show False using e Cons.prems by (auto simp: scan_pending_entry)
  qed
  then show ?case using Cons by (auto simp: scan_pending_names map_filter_simps split: option.split)
qed (simp add: scan_pending_names map_filter_simps)

text \<open>The entries recovery goes on with: one for each slot, the newest.\<close>

lemma chosen_ok:
  assumes "distinct (map fst dir)" "newest mt (scan_pending dir) [] dir = (m, dir1)"
    "C = (if length m < length (scan_pending dir) then map snd m else scan_pending dir)"
  shows "set C = snd ` set m \<and> distinct (map entry_key C) \<and> kept mt dir (set (scan_pending dir)) m dir1"
proof -
  let ?es = "scan_pending dir"
  have inj: "inj_on pe_path (set ?es)" by (auto simp: inj_on_def scan_pending_entry)
  have k0: "kept mt dir ({} \<union> set ?es) m dir1"
    using newest_kept [OF kept_empty, of ?es mt dir m dir1] inj scan_pending_distinct [OF assms(1)] assms(2) by simp
  then have k: "kept mt dir (set ?es) m dir1" by simp
  note kd = keptD [OF k]
  have keys: "map fst m = map entry_key (map snd m)" using kd(3) by auto
  show ?thesis
  proof (cases "length m < length ?es")
    case True
    then show ?thesis using kd(1) k keys assms(3) by simp
  next
    case False
    have "card (entry_key ` set ?es) = length m" using kd(1,2) by (metis distinct_card length_map list.set_map)
    moreover have "card (entry_key ` set ?es) \<le> card (set ?es)" by (simp add: card_image_le)
    moreover have "card (set ?es) = length ?es" using scan_pending_distinct [OF assms(1)] by (rule distinct_card)
    ultimately have dk: "distinct (map entry_key ?es)" using False by (intro card_distinct) simp
    have "snd ` set m = set ?es"
    proof
      show "snd ` set m \<subseteq> set ?es" using kd(4) by auto
      show "set ?es \<subseteq> snd ` set m"
      proof
        fix e
        assume e: "e \<in> set ?es"
        then have "entry_key e \<in> fst ` set m" unfolding kd(2) by (rule imageI)
        then obtain f where f: "(entry_key e, f) \<in> set m" by auto
        have "entry_key f = entry_key e" "f \<in> set ?es" using kd(3,4) [OF f] by auto
        then have "f = e" using dk e by (simp only: distinct_map inj_on_def)
        then show "e \<in> snd ` set m" using f by force
      qed
    qed
    then show ?thesis using False dk k assms(3) by simp
  qed
qed

abbreviation undisturbed :: "(string \<Rightarrow> int) \<Rightarrow> pack_world \<Rightarrow> pack_world" where
  "undisturbed mt \<equiv> recover_pending mt (\<lambda>_. False) (\<lambda>_. False) (\<lambda>_. False)"

definition requeued :: "pack_world \<Rightarrow> pack_world \<Rightarrow> pack_req list" where
  "requeued w w' = drop (length (pk_pending (pw_packer w))) (pk_pending (pw_packer w'))"

lemma recover_steps:
  assumes "distinct (map fst (pw_dir w))"
  obtains C where "distinct (map entry_key C)" "set C \<subseteq> set (scan_pending (pw_dir w))"
    "\<And>e. e \<in> set C \<Longrightarrow> has_inode (pw_store w) (pe_ino e)"
    "\<And>e f. e \<in> set C \<Longrightarrow> f \<in> set (scan_pending (pw_dir w)) \<Longrightarrow> entry_key f = entry_key e \<Longrightarrow> mt (pe_path f) \<le> mt (pe_path e)"
    "\<And>f. f \<in> set (scan_pending (pw_dir w)) \<Longrightarrow> has_inode (pw_store w) (pe_ino f) \<Longrightarrow> \<exists>e\<in>set C. entry_key e = entry_key f"
    "\<And>n. map_of (pw_dir (undisturbed mt w)) n = (if n \<in> pe_path ` (set (scan_pending (pw_dir w)) - set C) then None else map_of (pw_dir w) n)"
    "requeued w (undisturbed mt w) = map (\<lambda>(ch, e). req_of (pw_dir w) ch e) (enumerate (pk_next (pw_packer w)) C)"
    "take (length (pk_pending (pw_packer w))) (pk_pending (pw_packer (undisturbed mt w))) = pk_pending (pw_packer w)"
proof -
  let ?es = "scan_pending (pw_dir w)"
  obtain m dir1 where n: "newest mt ?es [] (pw_dir w) = (m, dir1)" by fastforce
  define K where "K = (if length m < length ?es then map snd m else ?es)"
  note ch = chosen_ok [OF assms n K_def]
  note kd = keptD [OF conjunct2 [OF conjunct2 [OF ch]]]
  define C where "C = filter (\<lambda>e. has_inode (pw_store w) (pe_ino e)) K"
  define dir2 where "dir2 = fold (\<lambda>e. delete_pending (pe_path e)) (filter (\<lambda>e. \<not> has_inode (pw_store w) (pe_ino e)) K) dir1"
  have rec: "undisturbed mt w = resubmit (\<lambda>_. False) C (w\<lparr>pw_dir := dir2\<rparr>)"
    by (simp add: recover_pending_def Let_def n live_entries_ok flip: K_def) (simp add: C_def dir2_def)
  have Ks: "set K \<subseteq> set ?es" using ch kd(4) by auto
  have inj: "e = f" if "e \<in> set ?es" "f \<in> set ?es" "pe_path e = pe_path f" for e f
    using that by (simp add: scan_pending_entry)
  have look: "map_of dir2 n = (if n \<in> pe_path ` (set ?es - set C) then None else map_of (pw_dir w) n)" for n
  proof -
    have "map_of dir2 n = (if n \<in> pe_path ` (set K - set C) \<or> (n \<in> pe_path ` set ?es \<and> n \<notin> pe_path ` set K) then None else map_of (pw_dir w) n)"
      using ch kd(6) [of n] by (auto simp: dir2_def map_of_delete_all C_def)
    moreover have "(n \<in> pe_path ` (set K - set C) \<or> (n \<in> pe_path ` set ?es \<and> n \<notin> pe_path ` set K)) = (n \<in> pe_path ` (set ?es - set C))"
      using Ks inj by (auto simp: C_def image_iff)
    ultimately show ?thesis by simp
  qed
  have here: "map_of dir2 (pe_path e) = map_of (pw_dir w) (pe_path e) \<and> map_of (pw_dir w) (pe_path e) \<noteq> None" if e: "e \<in> set C" for e
  proof -
    have "e \<in> set ?es" using e Ks by (auto simp: C_def)
    moreover then have "pe_path e \<notin> pe_path ` (set ?es - set C)" using e inj by (auto simp: image_iff)
    ultimately show ?thesis using look [of "pe_path e"] by (auto simp: scan_pending_entry map_of_eq_None_iff)
  qed
  note rs = resubmit_ok [of C "w\<lparr>pw_dir := dir2\<rparr>", simplified]
  have r: "pw_dir (undisturbed mt w) = dir2"
    "pk_pending (pw_packer (undisturbed mt w)) = pk_pending (pw_packer w) @ map (\<lambda>(ch, e). req_of dir2 ch e) (enumerate (pk_next (pw_packer w)) C)"
    using rs here unfolding rec by auto
  have same: "map (\<lambda>(ch, e). req_of dir2 ch e) (enumerate k C) = map (\<lambda>(ch, e). req_of (pw_dir w) ch e) (enumerate k C)" for k
    using here by (auto simp: req_of_def in_set_enumerate_eq set_zip)
  show ?thesis
  proof (rule that [of C])
    show "distinct (map entry_key C)" using ch by (simp add: C_def distinct_map_filter)
    show "set C \<subseteq> set ?es" using Ks by (auto simp: C_def)
    show "has_inode (pw_store w) (pe_ino e)" if "e \<in> set C" for e using that by (simp add: C_def)
    show "mt (pe_path f) \<le> mt (pe_path e)" if ef: "e \<in> set C" "f \<in> set ?es" "entry_key f = entry_key e" for e f
    proof -
      have "e \<in> snd ` set m" using ef(1) ch by (auto simp: C_def)
      then obtain k where k: "(k, e) \<in> set m" by auto
      show ?thesis using kd(5) [OF k ef(2)] kd(3) [OF k] ef(3) by simp
    qed
    show "\<exists>e\<in>set C. entry_key e = entry_key f" if f: "f \<in> set ?es" "has_inode (pw_store w) (pe_ino f)" for f
    proof -
      have "entry_key f \<in> fst ` set m" unfolding kd(2) using f(1) by (rule imageI)
      then obtain e where e: "(entry_key f, e) \<in> set m" by auto
      have "e \<in> set K" using ch e by force
      then show ?thesis using kd(3) [OF e] f(2) by (auto simp: C_def)
    qed
  qed (use look r same in \<open>auto simp: requeued_def\<close>)
qed


text \<open>Two generations of one slot, a wire of a vanished inode and a foreign file.\<close>

definition rec_demo :: pack_world where
  "rec_demo = \<lparr>pw_packer = new_packer 1 4, pw_store = w_store,
     pw_dir = [(''3-0-2.bin'', [9, 9]), (''3-0-1.bin'', [8]), (''77-0-1.bin'', [7]), (''notes'', [1])], pw_index = Some [], pw_results = []\<rparr>"


section \<open>A dedup hit leaves an older wire to be recovered\<close>

lemma reuse_hit:
  assumes "row_at b_hash (st_blobs s) h = Some b" "b_msg b \<in> c_msg ` set (st_chunks s)" "has_inode s ino"
  shows "\<exists>t. reuse_chunk_by_hash ino idx h s = (Inr (True, b_msg b, b_size b), t) \<and> (\<forall>i. has_inode t i = has_inode s i)"
proof -
  have "find (\<lambda>c. c_msg c = b_msg b) (st_chunks s) \<noteq> None" using assms(2) by (auto simp: find_None_iff)
  then show ?thesis using assms(1,3)
    by (auto simp: reuse_chunk_by_hash_def with_tx_def reuse_chunk_tx_def put_chunk_stmt_def has_inode_def)
qed

text \<open>A dedup hit does not unstage: when an earlier upload of the slot failed after staging and the chunk
  was then rewritten with content that is already known, the row lands with the new content, but the
  staged wire of the old one stays in the directory, and the next startup queues it for upload
  again, to replace the row.
\<close>
theorem dedup_hit_leaves_stage:
  assumes "dedup_enabled E" "ue_reuse_err E = None" "row_at b_hash (st_blobs (uw_store W)) (ue_sha E d) = Some b"
    "b_msg b \<in> c_msg ` set (st_chunks (uw_store W))" "has_inode (uw_store W) (uw_ino W)"
    "e \<in> set (scan_pending (uw_dir W))" "entry_key e = Key (uw_ino W) idx" "distinct (map fst (uw_dir W))"
  shows "let W' = upload_one E idx d W in
    (\<exists>c. get_chunk (uw_ino W) idx (uw_store W') = Inr c \<and> ch_msg c = b_msg b) \<and> uw_dir W' = uw_dir W \<and>
    (\<exists>r\<in>set (requeued (uw_pack W') (undisturbed mt (uw_pack W'))). slot r = (uw_ino W, idx) \<and> map_of (uw_dir W) (pr_path r) = Some (pr_wire r))"
proof -
  obtain t where t: "reuse_chunk_by_hash (uw_ino W) idx (ue_sha E d) (uw_store W) = (Inr (True, b_msg b, b_size b), t)"
    "\<forall>i. has_inode t i = has_inode (uw_store W) i"
    using reuse_hit [OF assms(3-5)] by blast
  have row: "\<exists>c. get_chunk (uw_ino W) idx t = Inr c \<and> ch_msg c = b_msg b" using reuse_chunk_row [OF t(1)] assms(3) by auto
  let ?W = "upload_one E idx d W"
  have p: "uw_pack ?W = (uw_pack W)\<lparr>pw_store := t\<rparr>"
    using assms(1,2) t(1) by (simp add: upload_one_def upload_body_def put_store_def)
  define P where "P = (uw_pack W)\<lparr>pw_store := t\<rparr>"
  have P: "pw_dir P = uw_dir W" "pw_store P = t" "pw_packer P = pw_packer (uw_pack W)" by (simp_all add: P_def)
  have dd: "distinct (map fst (pw_dir P))" using assms(8) by (simp add: P)
  obtain C where C: "set C \<subseteq> set (scan_pending (uw_dir W))"
    "\<And>f. f \<in> set (scan_pending (uw_dir W)) \<Longrightarrow> has_inode t (pe_ino f) \<Longrightarrow> \<exists>e\<in>set C. entry_key e = entry_key f"
    "requeued P (undisturbed mt P) = map (\<lambda>(ch, e). req_of (uw_dir W) ch e) (enumerate (pk_next (pw_packer (uw_pack W))) C)"
  proof (rule recover_steps [OF dd, of mt, unfolded P])
    fix C
    assume "set C \<subseteq> set (scan_pending (uw_dir W))"
      "\<And>f. f \<in> set (scan_pending (uw_dir W)) \<Longrightarrow> has_inode t (pe_ino f) \<Longrightarrow> \<exists>e\<in>set C. entry_key e = entry_key f"
      "requeued P (undisturbed mt P) = map (\<lambda>(ch, e). req_of (uw_dir W) ch e) (enumerate (pk_next (pw_packer (uw_pack W))) C)"
    then show thesis by (rule that)
  qed
  have "has_inode t (pe_ino e)" using assms(5,7) t(2) by simp
  then obtain f where f: "f \<in> set C" "entry_key f = entry_key e" using C(2) [OF assms(6)] by blast
  obtain i where i: "i < length C" "f = C ! i" using f(1) by (auto simp: in_set_conv_nth)
  let ?r = "req_of (uw_dir W) (pk_next (pw_packer (uw_pack W)) + i) f"
  have "?r \<in> set (requeued P (undisturbed mt P))"
    unfolding C(3) set_map using i by (intro image_eqI [of _ _ "(pk_next (pw_packer (uw_pack W)) + i, f)"]) (auto simp: in_set_enumerate_eq)
  moreover have "slot ?r = (uw_ino W, idx)" using f(2) assms(7) by (simp add: req_of_def)
  moreover have "map_of (uw_dir W) (pr_path ?r) = Some (pr_wire ?r)"
  proof -
    have "pe_path f \<in> fst ` set (uw_dir W)" using f(1) C(1) by (auto simp: scan_pending_entry)
    then have "map_of (uw_dir W) (pe_path f) \<noteq> None" by (simp add: map_of_eq_None_iff)
    then show ?thesis by (auto simp: req_of_def)
  qed
  ultimately have "\<exists>r\<in>set (requeued P (undisturbed mt P)). slot r = (uw_ino W, idx) \<and> map_of (uw_dir W) (pr_path r) = Some (pr_wire r)"
    by blast
  then show ?thesis using row unfolding Let_def p P_def [symmetric] P by (intro conjI) simp_all
qed

definition stale_demo :: up_world where
  "stale_demo = up_demo\<lparr>uw_pack := (uw_pack up_demo)\<lparr>pw_store := w_store\<lparr>st_blobs := [\<lparr>b_hash = ''h'', b_msg = 9, b_size = 2\<rparr>]\<rparr>,
     pw_dir := [(''3-0-1.bin'', [8])], pw_index := Some [(Key 3 0, ''3-0-1.bin'')]\<rparr>\<rparr>"

lemma dedup_hit_leaves_stage_witness:
  "\<exists>r\<in>set (requeued (uw_pack (upload_one up_env 0 [1, 2] stale_demo)) (undisturbed (\<lambda>_. 0) (uw_pack (upload_one up_env 0 [1, 2] stale_demo)))).
     slot r = (3, 0) \<and> pr_wire r = [8]"
proof -
  obtain e where e: "e \<in> set (scan_pending (uw_dir stale_demo))" "entry_key e = Key 3 0"
  proof -
    have "\<exists>e\<in>set (scan_pending (uw_dir stale_demo)). entry_key e = Key 3 0" by code_simp
    then show ?thesis using that by blast
  qed
  have i: "uw_ino stale_demo = 3" "has_inode (uw_store stale_demo) 3" by code_simp+
  have h: "dedup_enabled up_env" "ue_reuse_err up_env = None" by (simp_all add: dedup_enabled_def up_env_def demo_cfg_def deterministic_def)
  have b: "row_at b_hash (st_blobs (uw_store stale_demo)) (ue_sha up_env [1, 2]) = Some \<lparr>b_hash = ''h'', b_msg = 9, b_size = 2\<rparr>"
    by (simp add: stale_demo_def up_env_def row_at_Cons)
  have c: "b_msg \<lparr>b_hash = ''h'', b_msg = 9, b_size = 2\<rparr> \<in> c_msg ` set (st_chunks (uw_store stale_demo))"
    by (simp add: stale_demo_def up_demo_def w_store_def)
  have d: "distinct (map fst (uw_dir stale_demo))" by (simp add: stale_demo_def)
  have x: "x = [8]" if "map_of (uw_dir stale_demo) p = Some x" for p x using that by (simp add: stale_demo_def split: if_splits)
  have i2: "has_inode (uw_store stale_demo) (uw_ino stale_demo)" and e2: "entry_key e = Key (uw_ino stale_demo) 0" using i e(2) by simp_all
  note T = dedup_hit_leaves_stage [OF h b c i2 e(1) e2 d, of "\<lambda>_. 0", unfolded Let_def i(1)]
  have "\<exists>r\<in>set (requeued (uw_pack (upload_one up_env 0 [1, 2] stale_demo)) (undisturbed (\<lambda>_. 0) (uw_pack (upload_one up_env 0 [1, 2] stale_demo)))).
     slot r = (3, 0) \<and> map_of (uw_dir stale_demo) (pr_path r) = Some (pr_wire r)"
    by (rule T [THEN conjunct2, THEN conjunct2])
  then show ?thesis using x by (elim bexE conjE) (intro bexI conjI, simp_all)
qed

end
