(* ===== verification/Reader.thy ===== *)
theory Reader
  imports WriterSpec "HOL-Library.List_Lexorder" "HOL-Library.Char_ord"
begin

text \<open>
  The read path of \<open>internal/chunk/reader.go\<close>: \<open>ReadAt\<close> and its variants, \<open>fetchOne\<close> with its three
  tiers, the staging fallback, the prefetch groups and the scheduling of read-ahead.  A missing
  cipher or codec is the plaintext one.  \<open>re_attempts\<close> is what \<open>Cache.Get\<close> meets for a key, \<open>re_wait\<close>
  what the barrier leaves behind, \<open>re_between\<close> what other goroutines, the prefetchers among them,
  do before a chunk is fetched.  A prefetch that was scheduled waits in \<open>rw_spawned\<close> for its run.
\<close>

section \<open>State and environment\<close>

datatype read_err =
  RMeta meta_err | RCache cache_err | RWait string | RStage string | RDecode crypto_err | RLost int int

record rd_world =
  rw_store :: store
  rw_cache :: cache
  rw_dir :: dirmap
  rw_index :: pindex
  rw_inflight :: "ckey list"
  rw_groups :: "(int \<times> nat) list"
  rw_cancelled :: "nat list"
  rw_next :: nat
  rw_spawned :: "(ckey \<times> chunk \<times> nat) list"
  rw_notes :: "(int \<times> int) list"

record rd_env =
  re_cfg :: cache_cfg
  re_attempts :: "ckey \<Rightarrow> nat \<Rightarrow> attempt_env"
  re_pending :: bool
  re_wait :: "rd_world \<Rightarrow> string + rd_world"
  re_dir :: bool
  re_blobs :: bool
  re_read_err :: "string \<Rightarrow> string option"
  re_between :: "int \<Rightarrow> rd_world \<Rightarrow> rd_world"
  re_chunk_size :: int
  re_window :: int

definition DefaultPrefetchWindow :: int where "DefaultPrefetchWindow = 8"
definition SeekPrefetchWindow :: int where "SeekPrefetchWindow = 16"

section \<open>The staging fallback\<close>

text \<open>\<open>filepath.Glob\<close> of \<open>ino-idx-*.bin\<close>: the matching names, ascending.\<close>

definition glob_match :: "int \<Rightarrow> int \<Rightarrow> string \<Rightarrow> bool" where
  "glob_match ino idx name =
     (let p = fmt_int ino @ ''-'' @ fmt_int idx @ ''-'' in
      take (length p) name = p \<and> ends_with (drop (length p) name) ''.bin'')"

definition glob_pending :: "int \<Rightarrow> int \<Rightarrow> dirmap \<Rightarrow> string list" where
  "glob_pending ino idx dir = sort (filter (glob_match ino idx) (map fst dir))"

definition try_pending_fallback :: "rd_env \<Rightarrow> int \<Rightarrow> int \<Rightarrow> rd_world \<Rightarrow> read_err + bytes option" where
  "try_pending_fallback E ino idx W =
     (if \<not> re_dir E then Inr None
      else (case (case pindex_lookup ino idx (rw_index W) of
                    Some p \<Rightarrow> Some p
                  | None \<Rightarrow> (case glob_pending ino idx (rw_dir W) of [] \<Rightarrow> None | p # _ \<Rightarrow> Some p)) of
          None \<Rightarrow> Inr None
        | Some path \<Rightarrow>
            (case re_read_err E path of
               Some e \<Rightarrow> Inl (RStage e)
             | None \<Rightarrow>
                 (case map_of (rw_dir W) path of
                    None \<Rightarrow> Inr None
                  | Some wire \<Rightarrow>
                      (case decode_chunk (cg_aead (re_cfg E)) (cg_zstd (re_cfg E)) (cg_cipher (re_cfg E)) (cg_codec (re_cfg E)) ino idx wire of
                         Inl e \<Rightarrow> Inl (RDecode e)
                       | Inr d \<Rightarrow> Inr (Some d))))))"

section \<open>Fetching one chunk\<close>

definition cached_get :: "rd_env \<Rightarrow> int \<Rightarrow> int \<Rightarrow> chunk \<Rightarrow> rd_world \<Rightarrow> (read_err + bytes option) \<times> rd_world" where
  "cached_get E ino idx c W =
     (case cache_get (re_cfg E) (re_attempts E (Key ino idx)) (Key ino idx) (ch_msg c) (ch_pack_offset c) (ch_pack_size c) (rw_cache W) of
        (Inl e, c') \<Rightarrow> (Inl (RCache e), W\<lparr>rw_cache := c'\<rparr>)
      | (Inr d, c') \<Rightarrow> (Inr (Some d), W\<lparr>rw_cache := c'\<rparr>))"

definition note_blob_locality :: "rd_env \<Rightarrow> int \<Rightarrow> int \<Rightarrow> chunk \<Rightarrow> rd_world \<Rightarrow> rd_world" where
  "note_blob_locality E ino idx c W =
     (if \<not> re_blobs E \<or> ch_pack_size c \<le> 0 then W
      else if cache_has (Key ino idx) (rw_cache W) then W
      else W\<lparr>rw_notes := (ch_msg c, ch_pack_offset c) # rw_notes W\<rparr>)"

definition fetch_missing :: "bool \<Rightarrow> int \<Rightarrow> int \<Rightarrow> rd_world \<Rightarrow> (read_err + bytes option) \<times> rd_world" where
  "fetch_missing sparse ino idx W = (if sparse then (Inr None, W) else (Inl (RLost ino idx), W))"

definition fetch_barrier :: "rd_env \<Rightarrow> bool \<Rightarrow> int \<Rightarrow> int \<Rightarrow> rd_world \<Rightarrow> (read_err + bytes option) \<times> rd_world" where
  "fetch_barrier E sparse ino idx W =
     (if \<not> re_pending E then fetch_missing sparse ino idx W
      else (case re_wait E W of
          Inl e \<Rightarrow> (Inl (RWait e), W)
        | Inr W1 \<Rightarrow>
            (case get_chunk ino idx (rw_store W1) of
               Inr c \<Rightarrow> cached_get E ino idx c W1
             | Inl e \<Rightarrow>
                 if e \<noteq> ErrNotFound then (Inl (RMeta e), W1)
                 else (case try_pending_fallback E ino idx W1 of
                     Inl e \<Rightarrow> (Inl e, W1)
                   | Inr (Some d) \<Rightarrow> (Inr (Some d), W1)
                   | Inr None \<Rightarrow> fetch_missing sparse ino idx W1))))"

definition fetch_one :: "rd_env \<Rightarrow> int \<Rightarrow> int \<Rightarrow> int \<Rightarrow> bool \<Rightarrow> (int \<Rightarrow> chunk option) \<Rightarrow> int \<Rightarrow> rd_world
    \<Rightarrow> (read_err + bytes option) \<times> rd_world" where
  "fetch_one E ino cs fsize sparse batch idx W =
     (case batch idx of
        Some c \<Rightarrow> cached_get E ino idx c (note_blob_locality E ino idx c W)
      | None \<Rightarrow>
          (case get_chunk ino idx (rw_store W) of
             Inr c \<Rightarrow> cached_get E ino idx c (note_blob_locality E ino idx c W)
           | Inl e \<Rightarrow>
               if e \<noteq> ErrNotFound then (Inl (RMeta e), W)
               else if idx * cs \<ge> fsize then (Inr None, W)
               else (case try_pending_fallback E ino idx W of
                   Inl e \<Rightarrow> (Inl e, W)
                 | Inr (Some d) \<Rightarrow> (Inr (Some d), W)
                 | Inr None \<Rightarrow> fetch_barrier E sparse ino idx W)))"

section \<open>Prefetch\<close>

definition cancel_prefetches :: "int \<Rightarrow> rd_world \<Rightarrow> rd_world" where
  "cancel_prefetches ino W =
     (case map_of (rw_groups W) ino of
        None \<Rightarrow> W
      | Some g \<Rightarrow> W\<lparr>rw_groups := AList.delete ino (rw_groups W), rw_cancelled := g # rw_cancelled W\<rparr>)"

definition prefetch_ctx_for :: "int \<Rightarrow> rd_world \<Rightarrow> nat \<times> rd_world" where
  "prefetch_ctx_for ino W =
     (case map_of (rw_groups W) ino of
        Some g \<Rightarrow> (g, W)
      | None \<Rightarrow> (rw_next W, W\<lparr>rw_groups := AList.update ino (rw_next W) (rw_groups W), rw_next := rw_next W + 1\<rparr>))"

fun schedule_keys :: "int \<Rightarrow> nat \<Rightarrow> (int \<Rightarrow> chunk option) \<Rightarrow> int list \<Rightarrow> rd_world \<Rightarrow> rd_world" where
  "schedule_keys ino g batch [] W = W"
| "schedule_keys ino g batch (idx # idxs) W =
     (let k = Key ino idx in
      if cache_has k (rw_cache W) then schedule_keys ino g batch idxs W
      else (case batch idx of
          None \<Rightarrow> schedule_keys ino g batch idxs W
        | Some c \<Rightarrow>
            if k \<in> set (rw_inflight W) then schedule_keys ino g batch idxs W
            else schedule_keys ino g batch idxs (W\<lparr>rw_inflight := k # rw_inflight W, rw_spawned := rw_spawned W @ [(k, c, g)]\<rparr>)))"

definition schedule_ahead :: "int \<Rightarrow> int \<Rightarrow> int \<Rightarrow> (int \<Rightarrow> chunk option) \<Rightarrow> rd_world \<Rightarrow> rd_world" where
  "schedule_ahead ino start_idx n batch W =
     (case prefetch_ctx_for ino W of
        (g, W1) \<Rightarrow> schedule_keys ino g batch (map (\<lambda>i. to_int32 (start_idx + i)) [0..n - 1]) W1)"

text \<open>One run of a scheduled prefetch; a cancelled one does nothing.\<close>

definition prefetch_one :: "rd_env \<Rightarrow> rd_world \<Rightarrow> rd_world" where
  "prefetch_one E W =
     (case rw_spawned W of
        [] \<Rightarrow> W
      | (k, c, g) # rest \<Rightarrow>
          let W1 = (if g \<in> set (rw_cancelled W) then W
                    else W\<lparr>rw_cache := snd (cache_get (re_cfg E) (re_attempts E k) k (ch_msg c) (ch_pack_offset c) (ch_pack_size c) (rw_cache W))\<rparr>)
          in W1\<lparr>rw_spawned := rest, rw_inflight := removeAll k (rw_inflight W1)\<rparr>)"

section \<open>ReadAt\<close>

text \<open>
  One turn of the loop: what chunk idx adds to the buffer, how far the cursor moves, and whether
  the loop breaks.  A request at a non-negative offset is assumed, as the kernel makes them.
\<close>

definition chunk_part :: "int \<Rightarrow> int \<Rightarrow> bool \<Rightarrow> int \<Rightarrow> int \<Rightarrow> int \<Rightarrow> bytes option \<Rightarrow> (bytes \<times> int \<times> bool) option" where
  "chunk_part cs fsize sparse stop idx cur data =
     (let start = idx * cs; d = (case data of None \<Rightarrow> [] | Some d \<Rightarrow> d) in
      if sparse \<and> start \<ge> fsize then None
      else if \<not> sparse \<and> data = None then None
      else
        let logical = (if sparse then (if fsize - start > cs then cs else fsize - start) else blen d);
            rel = cur - start;
            rel_end = (if rel + (stop - cur) > logical then logical else rel + (stop - cur))
        in
        if rel \<ge> rel_end then None
        else
          let real_end = (if rel_end > blen d then blen d else rel_end);
              piece = (if rel < blen d then take (nat (real_end - rel)) (drop (nat rel) d) else [])
          in Some (piece @ zeros (rel_end - rel - blen piece), rel_end - rel, logical < cs \<and> rel_end = logical))"

text \<open>The loop over the chunks of a request that ends at \<open>stop\<close>; \<open>out\<close> is what the buffer holds so far.\<close>

primrec read_loop :: "(int \<Rightarrow> 'w \<Rightarrow> (read_err + bytes option) \<times> 'w) \<Rightarrow> int \<Rightarrow> int \<Rightarrow> bool \<Rightarrow> int \<Rightarrow> int list \<Rightarrow> int \<Rightarrow> bytes \<Rightarrow> 'w
    \<Rightarrow> (read_err option \<times> bytes) \<times> 'w" where
  "read_loop fetch cs fsize sparse stop [] cur out w = ((None, out), w)"
| "read_loop fetch cs fsize sparse stop (idx # idxs) cur out w =
     (case fetch idx w of
        (Inl e, w1) \<Rightarrow> ((Some e, out), w1)
      | (Inr data, w1) \<Rightarrow>
          (case chunk_part cs fsize sparse stop idx cur data of
             None \<Rightarrow> ((None, out), w1)
           | Some (piece, span, brk) \<Rightarrow>
               if brk then ((None, out @ piece), w1)
               else read_loop fetch cs fsize sparse stop idxs (cur + span) (out @ piece) w1))"

definition fetch_step :: "rd_env \<Rightarrow> int \<Rightarrow> int \<Rightarrow> int \<Rightarrow> bool \<Rightarrow> int \<Rightarrow> (int \<Rightarrow> chunk option) \<Rightarrow> int \<Rightarrow> rd_world
    \<Rightarrow> (read_err + bytes option) \<times> rd_world" where
  "fetch_step E ino cs fsize sparse window batch idx W =
     fetch_one E ino cs fsize sparse batch idx
       (re_between E idx (if window > 0 then schedule_ahead ino (to_int32 (idx + 1)) window batch W else W))"

definition batch_of :: "chunk list \<Rightarrow> int \<Rightarrow> chunk option" where
  "batch_of cs idx = map_of (map (\<lambda>c. (ch_idx c, c)) cs) idx"

definition read_at_window :: "rd_env \<Rightarrow> int \<Rightarrow> int \<Rightarrow> int \<Rightarrow> int \<Rightarrow> int \<Rightarrow> bool \<Rightarrow> int \<Rightarrow> rd_world \<Rightarrow> (read_err option \<times> bytes) \<times> rd_world" where
  "read_at_window E ino len off cs fsize sparse window W =
     (if len = 0 then ((None, []), W)
      else
        let a = to_int32 (go_div off cs);
            b = to_int32 (go_div (off + len - 1) cs);
            batch = batch_of (get_chunks_range ino a (to_int32 (b - a) + 1 + window) (rw_store W))
        in read_loop (fetch_step E ino cs fsize sparse window batch) cs fsize sparse (off + len) [a..b] off [] W)"

definition read_inode :: "rd_env \<Rightarrow> int \<Rightarrow> int \<Rightarrow> int \<Rightarrow> int \<Rightarrow> rd_world \<Rightarrow> (read_err option \<times> bytes) \<times> rd_world" where
  "read_inode E ino len off window W =
     (case get_inode ino (rw_store W) of
        Inl e \<Rightarrow> if e = ErrNotFound then ((None, []), W) else ((Some (RMeta e), []), W)
      | Inr i \<Rightarrow> read_at_window E ino len off (if i_chunk_size i \<le> 0 then re_chunk_size E else i_chunk_size i) (i_size i) (i_sparse i) window W)"

definition read_at :: "rd_env \<Rightarrow> int \<Rightarrow> int \<Rightarrow> int \<Rightarrow> rd_world \<Rightarrow> (read_err option \<times> bytes) \<times> rd_world" where
  "read_at E ino len off W = (if len = 0 then ((None, []), W) else read_inode E ino len off (re_window E) W)"

definition read_at_known :: "rd_env \<Rightarrow> int \<Rightarrow> int \<Rightarrow> int \<Rightarrow> int \<Rightarrow> int \<Rightarrow> bool \<Rightarrow> rd_world \<Rightarrow> (read_err option \<times> bytes) \<times> rd_world" where
  "read_at_known E ino len off cs fsize sparse W =
     (if cs \<le> 0 then read_at E ino len off W else read_at_window E ino len off cs fsize sparse (re_window E) W)"

definition read_at_known_seek :: "rd_env \<Rightarrow> int \<Rightarrow> int \<Rightarrow> int \<Rightarrow> int \<Rightarrow> int \<Rightarrow> bool \<Rightarrow> rd_world \<Rightarrow> (read_err option \<times> bytes) \<times> rd_world" where
  "read_at_known_seek E ino len off cs fsize sparse W =
     (let W1 = cancel_prefetches ino W in
      if cs \<le> 0 then read_inode E ino len off SeekPrefetchWindow W1
      else read_at_window E ino len off cs fsize sparse SeekPrefetchWindow W1)"

definition read_at_known_no_prefetch :: "rd_env \<Rightarrow> int \<Rightarrow> int \<Rightarrow> int \<Rightarrow> int \<Rightarrow> int \<Rightarrow> bool \<Rightarrow> rd_world \<Rightarrow> (read_err option \<times> bytes) \<times> rd_world" where
  "read_at_known_no_prefetch E ino len off cs fsize sparse W =
     (let W1 = cancel_prefetches ino W in
      if cs \<le> 0 then read_inode E ino len off 0 W1
      else read_at_window E ino len off cs fsize sparse 0 W1)"

end
