(* ===== verification/ReaderProps.thy ===== *)
theory ReaderProps
  imports Reader
begin

text \<open>
  What a read promises.  A file is given by the content of its chunks; a read returns its bytes at
  the offsets asked for, up to the end of the file, whichever tier a chunk comes from.
\<close>

section \<open>The loop over any source of chunks\<close>

definition chunk_byte :: "int \<Rightarrow> (int \<Rightarrow> bytes) \<Rightarrow> int \<Rightarrow> 8 word" where
  "chunk_byte cs D p = bget (D (p div cs)) (p mod cs)"

text \<open>A dense file has full chunks and a short last one.\<close>

definition layout :: "int \<Rightarrow> int \<Rightarrow> bool \<Rightarrow> (int \<Rightarrow> bytes) \<Rightarrow> bool" where
  "layout cs fsize sparse D \<longleftrightarrow> 0 < cs \<and> (\<not> sparse \<longrightarrow> (\<forall>idx\<ge>0. blen (D idx) = max 0 (min cs (fsize - idx * cs))))"

lemma bytes_eqI: "blen xs = blen ys \<Longrightarrow> (\<And>r. 0 \<le> r \<Longrightarrow> r < blen xs \<Longrightarrow> bget xs r = bget ys r) \<Longrightarrow> xs = ys"
proof (rule nth_equalityI)
  assume len: "blen xs = blen ys" and get: "\<And>r. 0 \<le> r \<Longrightarrow> r < blen xs \<Longrightarrow> bget xs r = bget ys r"
  then show "length xs = length ys" by (simp add: blen_def)
  fix i assume "i < length xs"
  then show "xs ! i = ys ! i" using get [of "int i"] len by (simp add: bget_def blen_def)
qed

lemma blen_map [simp]: "blen (map f [a..b]) = max 0 (b - a + 1)"
  by (simp add: blen_def)

lemma bget_map: "0 \<le> r \<Longrightarrow> r < b - a + 1 \<Longrightarrow> bget (map f [a..b]) r = f (a + r)"
  by (simp add: bget_def blen_def nth_upto)

lemma chunk_bounds:
  assumes "0 < (cs :: int)"
  shows "cur div cs * cs \<le> cur" "cur < (cur div cs + 1) * cs"
  using div_mult_mod_eq [of cur cs] pos_mod_sign [OF assms, of cur] pos_mod_bound [OF assms, of cur]
  unfolding distrib_right by linarith+

lemma chunk_before:
  assumes "0 < (cs :: int)" "a < m * cs"
  shows "a div cs < m"
proof (rule ccontr)
  assume "\<not> a div cs < m"
  then have "m * cs \<le> a div cs * cs" using assms(1) by (simp add: mult_right_mono)
  then show False using assms(2) chunk_bounds(1) [OF assms(1), of a] by linarith
qed

text \<open>What one chunk contributes.\<close>

lemma chunk_part_ok:
  assumes lay: "layout cs fsize sparse D" and cur: "0 \<le> cur" "cur < stop" "idx = cur div cs"
    and data: "case data of None \<Rightarrow> fsize \<le> idx * cs \<or> sparse \<and> D idx = [] | Some d \<Rightarrow> d = D idx"
  shows "case chunk_part cs fsize sparse stop idx cur data of
      None \<Rightarrow> fsize \<le> cur
    | Some (piece, span, brk) \<Rightarrow>
        0 < span \<and> cur + span = min (min stop fsize) ((idx + 1) * cs) \<and>
        piece = map (chunk_byte cs D) [cur..cur + span - 1] \<and> (brk \<longrightarrow> cur + span = min stop fsize) \<and>
        (\<not> brk \<longrightarrow> cur + span = min stop ((idx + 1) * cs))"
proof (cases "idx * cs < fsize")
  case in_file: True
  let ?rel = "cur - idx * cs"
  let ?d = "case data of None \<Rightarrow> [] | Some d \<Rightarrow> d"
  have cs: "0 < cs" using lay by (simp add: layout_def)
  have rel: "?rel = cur mod cs" unfolding cur(3) by (simp add: minus_div_mult_eq_mod)
  then have rel0: "0 \<le> ?rel" "?rel < cs" using cs by simp_all
  have idx0: "0 \<le> idx" using cur(1,3) cs by (simp add: pos_imp_zdiv_nonneg_iff)
  have d: "?d = D idx" using data in_file by (auto split: option.splits)
  have nosparse: "\<not> sparse \<Longrightarrow> data \<noteq> None" using data in_file by (auto split: option.splits)
  define logical where "logical = (if sparse then (if fsize - idx * cs > cs then cs else fsize - idx * cs) else blen ?d)"
  have logical: "logical = min cs (fsize - idx * cs)"
    using lay in_file idx0 cs unfolding logical_def d layout_def by (auto simp: min_def max_def)
  define rel_end where "rel_end = (if ?rel + (stop - cur) > logical then logical else ?rel + (stop - cur))"
  have rel_end: "rel_end = min logical (?rel + (stop - cur))" by (simp add: rel_end_def min_def)
  define real_end where "real_end = (if rel_end > blen ?d then blen ?d else rel_end)"
  define piece where "piece = (if ?rel < blen ?d then take (nat (real_end - ?rel)) (drop (nat ?rel) ?d) else [])"
  define all where "all = piece @ zeros (rel_end - ?rel - blen piece)"
  have part: "chunk_part cs fsize sparse stop idx cur data =
      (if ?rel \<ge> rel_end then None else Some (all, rel_end - ?rel, logical < cs \<and> rel_end = logical))"
    using in_file nosparse
    unfolding chunk_part_def Let_def logical_def [symmetric] rel_end_def [symmetric] real_end_def [symmetric]
      piece_def [symmetric] all_def [symmetric] by auto
  show ?thesis
  proof (cases "?rel \<ge> rel_end")
    case True
    then have "fsize \<le> cur" using rel_end logical rel0 cur(2) by (auto simp: min_def split: if_splits)
    then show ?thesis using part True by simp
  next
    case False
    have eq: "cur + (rel_end - ?rel) = min (min stop fsize) ((idx + 1) * cs)"
      unfolding rel_end logical by (simp add: min_def algebra_simps)
    have lp: "blen piece \<le> rel_end - ?rel" "blen piece = max 0 (real_end - ?rel)"
      using rel0 False by (auto simp: piece_def real_end_def)
    have "blen all = blen (map (chunk_byte cs D) [cur..cur + (rel_end - ?rel) - 1])"
      using lp(1) False by (simp add: all_def)
    moreover have "bget all r = bget (map (chunk_byte cs D) [cur..cur + (rel_end - ?rel) - 1]) r"
      if r: "0 \<le> r" "r < blen all" for r
    proof -
      have rlt: "r < rel_end - ?rel" using r(2) lp(1) by (simp add: all_def split: if_splits)
      have "?rel + r < cs" using rlt rel_end logical by linarith
      then have "(cur + r) div cs = idx" "(cur + r) mod cs = ?rel + r"
        using int_div_pos_eq [of "cur + r" cs idx "?rel + r"] int_mod_pos_eq [of "cur + r" cs idx "?rel + r"] rel0(1) r(1)
        by (simp_all add: algebra_simps)
      then have rhs: "bget (map (chunk_byte cs D) [cur..cur + (rel_end - ?rel) - 1]) r = bget (D idx) (?rel + r)"
        using r(1) rlt by (simp add: bget_map chunk_byte_def)
      show ?thesis
      proof (cases "?rel < blen ?d")
        case True
        then have lp': "blen piece = real_end - ?rel" using lp(2) False by (auto simp: real_end_def split: if_splits)
        show ?thesis
        proof (cases "r < real_end - ?rel")
          case True
          then show ?thesis using lp' \<open>?rel < blen ?d\<close> rhs r(1) rel0(1) d
            unfolding all_def bget_append lp' by (simp add: piece_def bget_take bget_drop)
        next
          case False
          then have "real_end = blen ?d" using rlt by (auto simp: real_end_def split: if_splits)
          then show ?thesis using False rhs lp' d unfolding all_def bget_append lp' by simp
        qed
      next
        case False
        then have "piece = []" by (simp add: piece_def)
        then show ?thesis using False rhs r(1) d by (simp add: all_def)
      qed
    qed
    ultimately have "all = map (chunk_byte cs D) [cur..cur + (rel_end - ?rel) - 1]" by (rule bytes_eqI)
    moreover have "min (min stop fsize) ((idx + 1) * cs) = min stop fsize" if "logical < cs" "rel_end = logical"
      unfolding eq [symmetric] using that rel_end logical by (auto simp: min_def split: if_splits)
    moreover have "min (min stop fsize) ((idx + 1) * cs) = min stop ((idx + 1) * cs)" if "\<not> (logical < cs \<and> rel_end = logical)"
      unfolding eq [symmetric] using that rel_end logical
      by (auto simp: min_def algebra_simps split: if_splits)
    ultimately show ?thesis using part False eq by simp
  qed
next
  case False
  have "0 < cs" using lay by (simp add: layout_def)
  then have le: "idx * cs \<le> cur" unfolding cur(3) by (rule chunk_bounds)
  have "0 \<le> idx" using cur(1,3) \<open>0 < cs\<close> by (simp add: pos_imp_zdiv_nonneg_iff)
  have "chunk_part cs fsize sparse stop idx cur data = None"
  proof (cases "sparse \<or> data = None")
    case False
    then obtain d where d: "data = Some d" "\<not> sparse" by auto
    then have "d = []" using data lay \<open>0 \<le> idx\<close> \<open>\<not> idx * cs < fsize\<close> unfolding layout_def by (simp flip: blen_0)
    then show ?thesis using d le cur(2) by (simp add: chunk_part_def Let_def)
  qed (use False in \<open>auto simp: chunk_part_def Let_def\<close>)
  then show ?thesis using False le by simp
qed

text \<open>
  A source answers for a chunk with its content, or with nothing for a hole or past the end, or
  with an error.  Chunks in \<open>L\<close> are lost: of a dense file, only an error is an answer for them.
\<close>

locale chunk_source =
  fixes fetch :: "int \<Rightarrow> 'w \<Rightarrow> (read_err + bytes option) \<times> 'w" and good :: "'w \<Rightarrow> bool"
    and D :: "int \<Rightarrow> bytes" and cs fsize :: int and sparse :: bool and L :: "int set"
  assumes fetch_good: "good w \<Longrightarrow> fetch idx w = (r, w') \<Longrightarrow> good w'"
    and fetch_data: "good w \<Longrightarrow> fetch idx w = (Inr (Some d), w') \<Longrightarrow> d = D idx"
    and fetch_none: "good w \<Longrightarrow> 0 \<le> idx \<Longrightarrow> fetch idx w = (Inr None, w') \<Longrightarrow> fsize \<le> idx * cs \<or> sparse \<and> D idx = []"
    and fetch_lost: "good w \<Longrightarrow> idx \<in> L \<Longrightarrow> idx * cs < fsize \<Longrightarrow> \<not> sparse \<Longrightarrow> fetch idx w \<noteq> (Inr x, w')"
begin

definition read_result :: "int \<Rightarrow> int \<Rightarrow> bytes \<Rightarrow> (read_err option \<times> bytes) \<times> 'w \<Rightarrow> bool" where
  "read_result cur stop out res \<longleftrightarrow> (case res of ((e, out'), w') \<Rightarrow> good w' \<and>
     (\<exists>k\<ge>cur. out' = out @ map (chunk_byte cs D) [cur..k - 1] \<and>
        (case e of
           None \<Rightarrow> k = max cur (min stop fsize) \<and> (\<forall>j\<in>L. \<not> sparse \<longrightarrow> cur < (j + 1) * cs \<longrightarrow> min stop fsize \<le> j * cs)
         | Some x \<Rightarrow> \<exists>j w. good w \<and> fst (fetch j w) = Inl x \<and> cur div cs \<le> j \<and> k = max cur (j * cs) \<and> k < stop)))"

lemma read_resultI:
  assumes "good w'" "cur \<le> k" "out' = out @ map (chunk_byte cs D) [cur..k - 1]"
    "case e of
       None \<Rightarrow> k = max cur (min stop fsize) \<and> (\<forall>j\<in>L. \<not> sparse \<longrightarrow> cur < (j + 1) * cs \<longrightarrow> min stop fsize \<le> j * cs)
     | Some x \<Rightarrow> \<exists>j w. good w \<and> fst (fetch j w) = Inl x \<and> cur div cs \<le> j \<and> k = max cur (j * cs) \<and> k < stop"
  shows "read_result cur stop out ((e, out'), w')"
  using assms unfolding read_result_def by blast

lemma read_result_error:
  assumes "good w" "good w'" "fst (fetch (cur div cs) w) = Inl x" "cur div cs * cs \<le> cur" "cur < stop"
  shows "read_result cur stop out ((Some x, out), w')"
proof -
  have "\<exists>j w. good w \<and> fst (fetch j w) = Inl x \<and> cur div cs \<le> j \<and> cur = max cur (j * cs) \<and> cur < stop"
    using assms by (intro exI [of _ "cur div cs"] exI [of _ w]) simp
  then show ?thesis using assms(2) by (intro read_resultI [of _ _ cur]) simp_all
qed

lemma read_result_cons:
  assumes res: "read_result cur' stop (out @ map (chunk_byte cs D) [cur..cur' - 1]) res"
    and cs: "0 < cs" and cur: "cur < cur'" "cur' = (cur div cs + 1) * cs" "cur' \<le> min stop fsize"
    and lost: "cur div cs \<in> L \<Longrightarrow> sparse"
  shows "read_result cur stop out res"
proof -
  obtain e out' w' where r: "res = ((e, out'), w')" by (metis prod.collapse)
  obtain k where k: "good w'" "cur' \<le> k" "out' = (out @ map (chunk_byte cs D) [cur..cur' - 1]) @ map (chunk_byte cs D) [cur'..k - 1]"
    "case e of None \<Rightarrow> k = max cur' (min stop fsize) \<and> (\<forall>j\<in>L. \<not> sparse \<longrightarrow> cur' < (j + 1) * cs \<longrightarrow> min stop fsize \<le> j * cs)
     | Some x \<Rightarrow> \<exists>j w. good w \<and> fst (fetch j w) = Inl x \<and> cur' div cs \<le> j \<and> k = max cur' (j * cs) \<and> k < stop"
    using res unfolding r read_result_def by auto
  have out: "out' = out @ map (chunk_byte cs D) [cur..k - 1]"
    using k(2,3) cur(1) upto_split1 [of cur cur' "k - 1"] by (cases "cur' = k") simp_all
  have idx: "cur' div cs = cur div cs + 1" using cs unfolding cur(2) by simp
  show ?thesis
  proof (cases e)
    case None
    have "min stop fsize \<le> j * cs" if "j \<in> L" "\<not> sparse" "cur < (j + 1) * cs" for j
    proof (cases "cur' < (j + 1) * cs")
      case False
      then have "j \<le> cur div cs" using cs unfolding cur(2) by (simp add: not_less)
      moreover have "cur div cs < j + 1" using that(3) cs by (rule chunk_before [rotated])
      ultimately show ?thesis using lost that by simp
    qed (use k(4) None that in simp)
    then show ?thesis using k(1,2,4) None out cur unfolding r by (intro read_resultI [of _ _ k]) auto
  next
    case (Some x)
    then obtain j w where j: "good w" "fst (fetch j w) = Inl x" "cur' div cs \<le> j" "k = max cur' (j * cs)" "k < stop"
      using k(4) by auto
    then have "cur' \<le> j * cs" using cs idx unfolding cur(2) by (simp add: mult_right_mono)
    then have "\<exists>j w. good w \<and> fst (fetch j w) = Inl x \<and> cur div cs \<le> j \<and> k = max cur (j * cs)"
      using j(1-4) idx cur(1) by (intro exI [of _ j] exI [of _ w]) simp
    then show ?thesis using Some k(1,2) out cur(1) j(5) unfolding r by (intro read_resultI [of _ _ k]) auto
  qed
qed

lemma loop_result:
  assumes lay: "layout cs fsize sparse D"
  shows "good w \<Longrightarrow> 0 \<le> cur \<Longrightarrow> cur < stop \<Longrightarrow>
    read_result cur stop out (read_loop fetch cs fsize sparse stop [cur div cs..(stop - 1) div cs] cur out w)"
proof (induction "nat (stop - cur)" arbitrary: cur out w rule: less_induct)
  case (less cur out w)
  note less.prems
  have cs: "0 < cs" using lay by (simp add: layout_def)
  let ?idx = "cur div cs"
  have le: "?idx \<le> (stop - 1) div cs" using less.prems(3) cs by (intro zdiv_mono1) auto
  have idx: "0 \<le> ?idx" "?idx * cs \<le> cur" "cur < (?idx + 1) * cs"
    using less.prems(2) cs chunk_bounds [of cs cur] by (simp_all add: pos_imp_zdiv_nonneg_iff)
  obtain r w1 where f: "fetch ?idx w = (r, w1)" by (cases "fetch ?idx w")
  note good1 = fetch_good [OF less.prems(1) f]
  show ?case
  proof (cases r)
    case (Inl e)
    then have "read_result cur stop out ((Some e, out), w1)"
      using read_result_error [OF less.prems(1) good1] f idx(2) less.prems(3) by simp
    then show ?thesis using f Inl le by (simp add: upto_rec1)
  next
    case (Inr data)
    have data: "case data of None \<Rightarrow> fsize \<le> ?idx * cs \<or> sparse \<and> D ?idx = [] | Some d \<Rightarrow> d = D ?idx"
      using f Inr fetch_data fetch_none less.prems(1) idx(1) by (fastforce split: option.split)
    have lost: "?idx \<in> L \<Longrightarrow> \<not> sparse \<Longrightarrow> fsize \<le> ?idx * cs" using fetch_lost [OF less.prems(1)] f Inr by force
    have later: "?idx < j" if "cur < (j + 1) * cs" "j \<noteq> ?idx" for j
      using that cs idx by (smt (verit) mult_right_mono)
    note part = chunk_part_ok [OF lay less.prems(2,3) refl data]
    show ?thesis
    proof (cases "chunk_part cs fsize sparse stop ?idx cur data")
      case None
      then have "fsize \<le> cur" using part by simp
      moreover have "fsize \<le> j * cs" if "j \<in> L" "\<not> sparse" "cur < (j + 1) * cs" for j
        using that lost later [of j] calculation idx cs by (cases "j = ?idx") (auto, smt (verit) mult_right_mono)
      ultimately show ?thesis using f Inr None le good1 less.prems
        by (auto simp: upto_rec1 intro!: read_resultI [of _ _ cur])
    next
      case (Some psb)
      then obtain piece span brk where p: "chunk_part cs fsize sparse stop ?idx cur data = Some (piece, span, brk)"
        by (cases psb) auto
      then have sp: "0 < span" "cur + span = min (min stop fsize) ((?idx + 1) * cs)"
        "piece = map (chunk_byte cs D) [cur..cur + span - 1]" "brk \<Longrightarrow> cur + span = min stop fsize"
        "\<not> brk \<Longrightarrow> cur + span = min stop ((?idx + 1) * cs)"
        using part by auto
      have fs: "cur < min stop fsize" using sp(1,2) by linarith
      have nl: "?idx \<in> L \<Longrightarrow> sparse" using lost fs idx by fastforce
      show ?thesis
      proof (cases "brk \<or> cur + span = stop")
        case True
        then have e: "cur + span = min stop fsize" using sp(2,4) by linarith
        have "min stop fsize \<le> j * cs" if "j \<in> L" "\<not> sparse" "cur < (j + 1) * cs" for j
        proof -
          have "?idx + 1 \<le> j" using later [of j] that nl by force
          then have "(?idx + 1) * cs \<le> j * cs" using cs by (simp add: mult_right_mono)
          then show ?thesis using e sp(2) by linarith
        qed
        moreover have "read_loop fetch cs fsize sparse stop [?idx..(stop - 1) div cs] cur out w = ((None, out @ piece), w1)"
        proof (cases brk)
          case False
          then have "stop \<le> (?idx + 1) * cs" using True sp(2) by linarith
          then have "(stop - 1) div cs < ?idx + 1" using cs by (intro chunk_before) auto
          then have "(stop - 1) div cs = ?idx" using le by linarith
          then show ?thesis using f Inr p False by simp
        qed (use f Inr p le in \<open>simp add: upto_rec1\<close>)
        ultimately show ?thesis using good1 sp(1,3) e fs by (auto intro!: read_resultI [of _ _ "cur + span"])
      next
        case False
        then have cur': "cur + span = (?idx + 1) * cs" "cur + span < stop" "\<not> brk" using sp(5) by auto
        have idx': "(cur + span) div cs = ?idx + 1" unfolding cur'(1) using cs by simp
        have "?idx + 1 \<le> (stop - 1) div cs" unfolding idx' [symmetric] using cur'(2) cs by (intro zdiv_mono1) auto
        then have "read_loop fetch cs fsize sparse stop [?idx..(stop - 1) div cs] cur out w =
            read_loop fetch cs fsize sparse stop [(cur + span) div cs..(stop - 1) div cs] (cur + span) (out @ piece) w1"
          using f Inr p cur'(3) le idx' by (simp add: upto_rec1)
        moreover have "read_result (cur + span) stop (out @ piece)
            (read_loop fetch cs fsize sparse stop [(cur + span) div cs..(stop - 1) div cs] (cur + span) (out @ piece) w1)"
          using sp(1) less.prems(2,3) cur'(2) good1 by (intro less.hyps) auto
        moreover have "(?idx + 1) * cs \<le> min stop fsize" using sp(2) cur'(1) by linarith
        ultimately show ?thesis
          using read_result_cons [where cur' = "cur + span" and cur = cur and stop = stop and out = out] cs sp cur'(1) nl by simp
      qed
    qed
  qed
qed

end

section \<open>The three tiers as such a source\<close>

definition row_ok :: "rd_env \<Rightarrow> (ckey \<Rightarrow> bytes) \<Rightarrow> ckey \<Rightarrow> chunk \<Rightarrow> bool" where
  "row_ok E D k c \<longleftrightarrow> upstream D (re_cfg E) (re_attempts E k) k (ch_msg c) (ch_pack_offset c) (ch_pack_size c)"

text \<open>
  The world of a file whose content is D: the cache is coherent, the rows of the file and those a
  scheduled prefetch holds lead to the content, a staged wire decodes to it, a chunk without
  either is a hole of a sparse file, and the chunks in L have neither.
\<close>

definition rd_good :: "rd_env \<Rightarrow> int \<Rightarrow> int \<Rightarrow> int \<Rightarrow> bool \<Rightarrow> (ckey \<Rightarrow> bytes) \<Rightarrow> int set \<Rightarrow> rd_world \<Rightarrow> bool" where
  "rd_good E ino cs fsize sparse D L W \<longleftrightarrow>
     coherent D (rw_cache W) \<and> cache_ok (rw_cache W) \<and>
     (\<forall>idx c. get_chunk ino idx (rw_store W) = Inr c \<longrightarrow> row_ok E D (Key ino idx) c) \<and>
     (\<forall>x\<in>set (rw_spawned W). row_ok E D (fst x) (fst (snd x))) \<and>
     (\<forall>idx d. try_pending_fallback E ino idx W = Inr (Some d) \<longrightarrow> d = D (Key ino idx)) \<and>
     (\<forall>idx e. 0 \<le> idx \<longrightarrow> idx * cs < fsize \<longrightarrow> sparse \<longrightarrow> get_chunk ino idx (rw_store W) = Inl e \<longrightarrow>
        try_pending_fallback E ino idx W = Inr None \<longrightarrow> D (Key ino idx) = []) \<and>
     (\<forall>j\<in>L. get_chunk ino j (rw_store W) = Inl ErrNotFound \<and> try_pending_fallback E ino j W = Inr None)"

lemma rd_goodD:
  assumes "rd_good E ino cs fsize sparse D L W"
  shows "coherent D (rw_cache W)" "cache_ok (rw_cache W)"
    "get_chunk ino idx (rw_store W) = Inr c \<Longrightarrow> row_ok E D (Key ino idx) c"
    "x \<in> set (rw_spawned W) \<Longrightarrow> row_ok E D (fst x) (fst (snd x))"
    "try_pending_fallback E ino idx W = Inr (Some d) \<Longrightarrow> d = D (Key ino idx)"
    "0 \<le> idx \<Longrightarrow> idx * cs < fsize \<Longrightarrow> sparse \<Longrightarrow> get_chunk ino idx (rw_store W) = Inl e \<Longrightarrow>
       try_pending_fallback E ino idx W = Inr None \<Longrightarrow> D (Key ino idx) = []"
    "j \<in> L \<Longrightarrow> get_chunk ino j (rw_store W) = Inl ErrNotFound" "j \<in> L \<Longrightarrow> try_pending_fallback E ino j W = Inr None"
  using assms unfolding rd_good_def by blast+

text \<open>What other goroutines do between two chunks and during the wait keeps that.\<close>

definition rd_rely :: "rd_env \<Rightarrow> (rd_world \<Rightarrow> bool) \<Rightarrow> bool" where
  "rd_rely E G \<longleftrightarrow> (\<forall>idx W. G W \<longrightarrow> G (re_between E idx W)) \<and> (\<forall>W W'. G W \<longrightarrow> re_wait E W = Inr W' \<longrightarrow> G W')"

definition rd_ok :: "rd_env \<Rightarrow> int \<Rightarrow> int \<Rightarrow> int \<Rightarrow> bool \<Rightarrow> (ckey \<Rightarrow> bytes) \<Rightarrow> int set \<Rightarrow> (int \<Rightarrow> chunk option) \<Rightarrow> rd_world \<Rightarrow> bool" where
  "rd_ok E ino cs fsize sparse D L batch W \<longleftrightarrow> rd_good E ino cs fsize sparse D L W \<and>
     rd_rely E (rd_good E ino cs fsize sparse D L) \<and> (\<forall>idx c. batch idx = Some c \<longrightarrow> idx \<notin> L \<and> row_ok E D (Key ino idx) c)"

lemma try_pending_cong:
  assumes "rw_dir W' = rw_dir W" "rw_index W' = rw_index W"
  shows "try_pending_fallback E ino idx W' = try_pending_fallback E ino idx W"
  unfolding try_pending_fallback_def assms ..

lemma rd_good_frame:
  assumes "rd_good E ino cs fsize sparse D L W" "rw_store W' = rw_store W" "rw_dir W' = rw_dir W" "rw_index W' = rw_index W"
    "coherent D (rw_cache W')" "cache_ok (rw_cache W')" "\<forall>x\<in>set (rw_spawned W'). row_ok E D (fst x) (fst (snd x))"
  shows "rd_good E ino cs fsize sparse D L W'"
  using assms try_pending_cong [OF assms(3,4)] unfolding rd_good_def by simp

lemma cached_get_ok:
  assumes good: "rd_good E ino cs fsize sparse D L W" and row: "row_ok E D (Key ino idx) c"
    and run: "cached_get E ino idx c W = (r, W')"
  shows "rd_good E ino cs fsize sparse D L W' \<and> (\<forall>x. r = Inr x \<longrightarrow> x = Some (D (Key ino idx)))"
proof -
  obtain q c' where g: "cache_get (re_cfg E) (re_attempts E (Key ino idx)) (Key ino idx) (ch_msg c) (ch_pack_offset c) (ch_pack_size c) (rw_cache W) = (q, c')"
    by (metis prod.collapse)
  note ok = cache_get_ok [OF rd_goodD(1,2) [OF good] row [unfolded row_ok_def] g]
  have "W' = W\<lparr>rw_cache := c'\<rparr>" "\<forall>x. r = Inr x \<longrightarrow> (\<exists>d. q = Inr d \<and> x = Some d)"
    using run g by (auto simp: cached_get_def split: sum.splits)
  then show ?thesis using ok rd_good_frame [OF good, of W'] rd_goodD(4) [OF good] by auto
qed

lemma note_good:
  assumes "rd_good E ino cs fsize sparse D L W"
  shows "rd_good E ino cs fsize sparse D L (note_blob_locality E i idx c W)"
proof -
  have "note_blob_locality E i idx c W = W \<or> (\<exists>ns. note_blob_locality E i idx c W = W\<lparr>rw_notes := ns\<rparr>)"
    by (auto simp: note_blob_locality_def)
  moreover have "rd_good E ino cs fsize sparse D L (W\<lparr>rw_notes := ns\<rparr>)" for ns
    by (rule rd_good_frame [OF assms]) (simp_all add: rd_goodD(1,2,4) [OF assms])
  ultimately show ?thesis using assms by (elim disjE exE) simp_all
qed

lemma fetch_missing_ok:
  assumes "rd_good E ino cs fsize sparse D L W" "0 \<le> idx" "idx * cs < fsize" "get_chunk ino idx (rw_store W) = Inl e"
    "try_pending_fallback E ino idx W = Inr None" "fetch_missing sparse ino idx W = (Inr x, W')"
  shows "x = None \<and> sparse \<and> D (Key ino idx) = []"
  using assms(6) rd_goodD(6) [OF assms(1-3) _ assms(4,5)] by (auto simp: fetch_missing_def split: if_splits)

text \<open>What an answer of any of the tiers tells.\<close>

definition answer :: "int \<Rightarrow> int \<Rightarrow> int \<Rightarrow> bool \<Rightarrow> (ckey \<Rightarrow> bytes) \<Rightarrow> int set \<Rightarrow> int \<Rightarrow> read_err + bytes option \<Rightarrow> bool" where
  "answer ino cs fsize sparse D L idx r \<longleftrightarrow> (\<forall>x. r = Inr x \<longrightarrow>
     (x = None \<and> (fsize \<le> idx * cs \<or> sparse \<and> (0 \<le> idx \<longrightarrow> D (Key ino idx) = [])) \<or> x = Some (D (Key ino idx)) \<and> idx \<notin> L))"

lemma fetch_barrier_ok:
  assumes good: "rd_good E ino cs fsize sparse D L W" and rely: "rd_rely E (rd_good E ino cs fsize sparse D L)"
    and gone: "idx * cs < fsize" "get_chunk ino idx (rw_store W) = Inl e" "try_pending_fallback E ino idx W = Inr None"
    and run: "fetch_barrier E sparse ino idx W = (r, W')"
  shows "rd_good E ino cs fsize sparse D L W' \<and> answer ino cs fsize sparse D L idx r"
proof -
  have miss: "rd_good E ino cs fsize sparse D L V' \<and> answer ino cs fsize sparse D L idx q"
    if "rd_good E ino cs fsize sparse D L V" "get_chunk ino idx (rw_store V) = Inl e'" "try_pending_fallback E ino idx V = Inr None"
      "fetch_missing sparse ino idx V = (q, V')" for V V' q e'
  proof -
    have "V' = V" using that(4) by (auto simp: fetch_missing_def split: if_splits)
    moreover have "answer ino cs fsize sparse D L idx q"
      using fetch_missing_ok [OF that(1) _ gone(1) that(2,3)] that(4)
      by (auto simp: answer_def) (auto simp: fetch_missing_def split: if_splits)
    ultimately show ?thesis using that(1) by simp
  qed
  show ?thesis
  proof (cases "re_pending E")
    case False
    then show ?thesis using miss [OF good gone(2,3)] run by (simp add: fetch_barrier_def)
  next
    case pending: True
    show ?thesis
    proof (cases "re_wait E W")
      case (Inl e)
      then show ?thesis using run pending good by (auto simp: fetch_barrier_def answer_def)
    next
      case (Inr W1)
      then have good1: "rd_good E ino cs fsize sparse D L W1" using rely good unfolding rd_rely_def by blast
      show ?thesis
      proof (cases "get_chunk ino idx (rw_store W1)")
        case (Inr c)
        then have "cached_get E ino idx c W1 = (r, W')" using run pending \<open>re_wait E W = Inr W1\<close> by (simp add: fetch_barrier_def)
        moreover have "idx \<notin> L" using Inr rd_goodD(7) [OF good1] by force
        ultimately show ?thesis
          using cached_get_ok [OF good1 rd_goodD(3) [OF good1 Inr]] unfolding answer_def by blast
      next
        case (Inl e1)
        show ?thesis
        proof (cases "e1 \<noteq> ErrNotFound")
          case True
          then show ?thesis using run pending \<open>re_wait E W = Inr W1\<close> Inl good1 by (auto simp: fetch_barrier_def answer_def)
        next
          case False
          note step = run [unfolded fetch_barrier_def] pending \<open>re_wait E W = Inr W1\<close> Inl False
          show ?thesis
          proof (cases "try_pending_fallback E ino idx W1")
            case (Inl e2)
            then show ?thesis using step good1 by (auto simp: answer_def)
          next
            case (Inr od)
            show ?thesis
            proof (cases od)
              case None
              then show ?thesis using miss [OF good1 \<open>get_chunk _ _ _ = Inl e1\<close>] step Inr by simp
            next
              case (Some d)
              have "idx \<notin> L" using Inr Some rd_goodD(8) [OF good1] by force
              then show ?thesis using step good1 Inr Some rd_goodD(5) [OF good1] by (auto simp: answer_def)
            qed
          qed
        qed
      qed
    qed
  qed
qed

lemma fetch_one_ok:
  assumes ok: "rd_ok E ino cs fsize sparse D L batch W" and run: "fetch_one E ino cs fsize sparse batch idx W = (r, W')"
  shows "rd_good E ino cs fsize sparse D L W' \<and> answer ino cs fsize sparse D L idx r"
proof -
  have good: "rd_good E ino cs fsize sparse D L W" and rely: "rd_rely E (rd_good E ino cs fsize sparse D L)"
    and batch: "\<And>idx c. batch idx = Some c \<Longrightarrow> idx \<notin> L \<and> row_ok E D (Key ino idx) c"
    using ok unfolding rd_ok_def by blast+
  have got: "rd_good E ino cs fsize sparse D L V \<and> answer ino cs fsize sparse D L idx q"
    if "idx \<notin> L" "row_ok E D (Key ino idx) c" "cached_get E ino idx c (note_blob_locality E ino idx c W) = (q, V)" for c q V
    using cached_get_ok [OF note_good [OF good] that(2,3)] that(1) unfolding answer_def by blast
  show ?thesis
  proof (cases "batch idx")
    case (Some c)
    then show ?thesis using got [of c] batch [OF Some] run by (simp add: fetch_one_def)
  next
    case nb: None
    show ?thesis
    proof (cases "get_chunk ino idx (rw_store W)")
      case (Inr c)
      moreover have "idx \<notin> L" using Inr rd_goodD(7) [OF good] by force
      ultimately show ?thesis using got [of c] rd_goodD(3) [OF good Inr] run nb by (simp add: fetch_one_def)
    next
      case (Inl e)
      show ?thesis
      proof (cases "e \<noteq> ErrNotFound \<or> fsize \<le> idx * cs")
        case True
        then show ?thesis using run nb Inl good by (auto simp: fetch_one_def answer_def split: if_splits)
      next
        case False
        note step = run [unfolded fetch_one_def] nb Inl False
        show ?thesis
        proof (cases "try_pending_fallback E ino idx W")
          case (Inl e2)
          then show ?thesis using step good by (auto simp: answer_def)
        next
          case (Inr od)
          show ?thesis
          proof (cases od)
            case None
            then show ?thesis using fetch_barrier_ok [OF good rely _ \<open>get_chunk _ _ _ = Inl e\<close>] step Inr by simp
          next
            case (Some d)
            have "idx \<notin> L" using Inr Some rd_goodD(8) [OF good] by force
            then show ?thesis using step good Inr Some rd_goodD(5) [OF good] by (auto simp: answer_def)
          qed
        qed
      qed
    qed
  qed
qed

section \<open>Read-ahead does not show\<close>

lemma schedule_keys_good:
  assumes "\<And>idx c. batch idx = Some c \<Longrightarrow> row_ok E D (Key ino idx) c"
  shows "rd_good E ino cs fsize sparse D L W \<Longrightarrow> rd_good E ino cs fsize sparse D L (schedule_keys ino g batch idxs W)"
proof (induction idxs arbitrary: W)
  case (Cons idx idxs)
  have "rd_good E ino cs fsize sparse D L (W\<lparr>rw_inflight := Key ino idx # rw_inflight W, rw_spawned := rw_spawned W @ [(Key ino idx, c, g)]\<rparr>)"
    if "batch idx = Some c" for c
    by (rule rd_good_frame [OF Cons.prems]) (use rd_goodD(1,2,4) [OF Cons.prems] assms [OF that] in auto)
  then show ?case using Cons by (simp add: Let_def split: option.split)
qed simp

lemma prefetch_ctx_good:
  assumes "rd_good E ino cs fsize sparse D L W"
  shows "rd_good E ino cs fsize sparse D L (snd (prefetch_ctx_for i W))"
proof (cases "map_of (rw_groups W) i")
  case None
  show ?thesis using None
    by (intro rd_good_frame [OF assms]) (simp_all add: prefetch_ctx_for_def rd_goodD(1,2,4) [OF assms])
qed (use assms in \<open>simp add: prefetch_ctx_for_def\<close>)

lemma schedule_ahead_good:
  assumes "rd_good E ino cs fsize sparse D L W" "\<And>idx c. batch idx = Some c \<Longrightarrow> row_ok E D (Key ino idx) c"
  shows "rd_good E ino cs fsize sparse D L (schedule_ahead ino start n batch W)"
  using schedule_keys_good [of batch E D ino cs fsize sparse L, OF assms(2) prefetch_ctx_good [OF assms(1), of ino]]
  by (simp add: schedule_ahead_def split_beta)

lemma prefetch_one_good:
  assumes good: "rd_good E ino cs fsize sparse D L W" and same: "re_cfg F = re_cfg E" "re_attempts F = re_attempts E"
  shows "rd_good E ino cs fsize sparse D L (prefetch_one F W)"
proof (cases "rw_spawned W")
  case (Cons x rest)
  obtain k c g where x: "x = (k, c, g)" by (cases x)
  obtain q c' where run: "cache_get (re_cfg E) (re_attempts E k) k (ch_msg c) (ch_pack_offset c) (ch_pack_size c) (rw_cache W) = (q, c')"
    by (metis prod.collapse)
  have "row_ok E D k c" using rd_goodD(4) [OF good, of x] Cons x by simp
  note ok = cache_get_ok [OF rd_goodD(1,2) [OF good] this [unfolded row_ok_def] run]
  have rest: "\<forall>y\<in>set rest. row_ok E D (fst y) (fst (snd y))" using rd_goodD(4) [OF good] Cons by auto
  show ?thesis
    by (rule rd_good_frame [OF good]) (use Cons x same run ok rest rd_goodD(1,2) [OF good] in \<open>auto simp: prefetch_one_def Let_def\<close>)
qed (use good in \<open>simp add: prefetch_one_def\<close>)

section \<open>The read path is a chunk source\<close>

lemma fetch_step_ok:
  assumes ok: "rd_ok E ino cs fsize sparse D L batch W"
    and run: "fetch_step E ino cs fsize sparse window batch idx W = (r, W')"
  shows "rd_ok E ino cs fsize sparse D L batch W' \<and> answer ino cs fsize sparse D L idx r"
proof -
  let ?V = "if window > 0 then schedule_ahead ino (to_int32 (idx + 1)) window batch W else W"
  have "rd_good E ino cs fsize sparse D L ?V"
    using schedule_ahead_good [of E ino cs fsize sparse D L W batch] ok unfolding rd_ok_def by auto
  then have "rd_good E ino cs fsize sparse D L (re_between E idx ?V)" using ok unfolding rd_ok_def rd_rely_def by blast
  then have "rd_ok E ino cs fsize sparse D L batch (re_between E idx ?V)" using ok unfolding rd_ok_def by blast
  from fetch_one_ok [OF this run [unfolded fetch_step_def]] show ?thesis using ok unfolding rd_ok_def by blast
qed

interpretation rd: chunk_source "fetch_step E ino cs fsize sparse window batch" "rd_ok E ino cs fsize sparse D L batch"
  "\<lambda>idx. D (Key ino idx)" cs fsize sparse L for E ino cs fsize sparse window batch D L
proof unfold_locales
  fix w idx r w' d x
  let ?step = "fetch_step E ino cs fsize sparse window batch idx w"
  assume ok: "rd_ok E ino cs fsize sparse D L batch w"
  show "?step = (r, w') \<Longrightarrow> rd_ok E ino cs fsize sparse D L batch w'" using fetch_step_ok [OF ok] by blast
  have ans: "answer ino cs fsize sparse D L idx r" if "?step = (r, w')" for r using fetch_step_ok [OF ok that] by blast
  show "?step = (Inr (Some d), w') \<Longrightarrow> d = D (Key ino idx)" using ans by (force simp: answer_def)
  show "0 \<le> idx \<Longrightarrow> ?step = (Inr None, w') \<Longrightarrow> fsize \<le> idx * cs \<or> sparse \<and> D (Key ino idx) = []"
    using ans by (force simp: answer_def)
  show "idx \<in> L \<Longrightarrow> idx * cs < fsize \<Longrightarrow> \<not> sparse \<Longrightarrow> ?step \<noteq> (Inr x, w')"
    using ans by (force simp: answer_def)
qed

lemma batch_rows:
  assumes "keyed ckey (st_chunks s)" "batch_of (get_chunks_range ino a n s) idx = Some c"
  shows "get_chunk ino idx s = Inr c"
proof -
  have "c \<in> set (get_chunks_range ino a n s)" "ch_idx c = idx"
    using assms(2) unfolding batch_of_def by (auto dest: map_of_SomeD)
  then show ?thesis unfolding get_chunk_Inr row_at_eq_Some [OF assms(1)]
    by (auto simp: get_chunks_range_def chunk_of_row_def split: if_splits)
qed

lemma read_window_result:
  assumes lay: "layout cs fsize sparse (\<lambda>idx. D (Key ino idx))" and keyed: "keyed ckey (st_chunks (rw_store W))"
    and good: "rd_good E ino cs fsize sparse D L W" and rely: "rd_rely E (rd_good E ino cs fsize sparse D L)"
    and off: "0 \<le> off" "0 < len" "off + len \<le> 2 ^ 31 * cs"
  shows "\<exists>batch. rd.read_result E ino cs fsize sparse window batch D L off (off + len) [] (read_at_window E ino len off cs fsize sparse window W)"
proof -
  have cs: "0 < cs" using lay by (simp add: layout_def)
  have a: "0 \<le> off div cs" "off div cs < 2 ^ 31" "0 \<le> (off + len - 1) div cs" "(off + len - 1) div cs < 2 ^ 31"
    using off cs by (auto intro!: chunk_before simp: pos_imp_zdiv_nonneg_iff)
  then have idx: "to_int32 (go_div off cs) = off div cs" "to_int32 (go_div (off + len - 1) cs) = (off + len - 1) div cs"
    using off cs by (simp_all add: to_int32_id)
  let ?batch = "batch_of (get_chunks_range ino (off div cs) (to_int32 ((off + len - 1) div cs - off div cs) + 1 + window) (rw_store W))"
  have "rd_ok E ino cs fsize sparse D L ?batch W"
    using good rely batch_rows [OF keyed] rd_goodD(3,7) [OF good] unfolding rd_ok_def by force
  from rd.loop_result [OF lay this off(1), of "off + len" window "[]"] off(2)
  show ?thesis unfolding read_at_window_def Let_def idx by auto
qed

section \<open>The staging fallback\<close>

lemma fmt_int_sep:
  assumes "fmt_int i @ CHR ''-'' # r = fmt_int j @ CHR ''-'' # r'"
  shows "i = j \<and> r = r'"
proof -
  have "scan_int (\<bar>i\<bar> + \<bar>j\<bar> + 1) (fmt_int i @ CHR ''-'' # r) = Some (i, CHR ''-'' # r)"
    "scan_int (\<bar>i\<bar> + \<bar>j\<bar> + 1) (fmt_int j @ CHR ''-'' # r') = Some (j, CHR ''-'' # r')"
    by (rule scan_int_fmt; simp)+
  then have "Some (i, CHR ''-'' # r) = Some (j, CHR ''-'' # r')" unfolding assms by (rule trans [OF sym])
  then show ?thesis by simp
qed

lemma glob_match_iff:
  "glob_match ino idx name \<longleftrightarrow> (\<exists>r. name = fmt_int ino @ CHR ''-'' # fmt_int idx @ CHR ''-'' # r \<and> ends_with r ''.bin'')"
proof -
  have cut: "take (length p) name = p \<and> Q (drop (length p) name) \<longleftrightarrow> (\<exists>r. name = p @ r \<and> Q r)" for p and Q :: "string \<Rightarrow> bool"
    by (metis append_take_drop_id append_eq_conv_conj)
  show ?thesis unfolding glob_match_def Let_def by (subst cut [where Q = "\<lambda>r. ends_with r ''.bin''"]) simp
qed

text \<open>The pattern of a chunk matches the staging names of that chunk and of no other.\<close>

lemma glob_match_pending: "glob_match ino idx (pending_name i j sz) \<longleftrightarrow> ino = i \<and> idx = j"
proof
  assume "glob_match ino idx (pending_name i j sz)"
  then obtain r where "fmt_int ino @ CHR ''-'' # fmt_int idx @ CHR ''-'' # r = fmt_int i @ CHR ''-'' # fmt_int j @ CHR ''-'' # fmt_int sz @ ''.bin''"
    by (auto simp: glob_match_iff pending_name_def)
  from fmt_int_sep [OF this] have "ino = i" "fmt_int idx @ CHR ''-'' # r = fmt_int j @ CHR ''-'' # (fmt_int sz @ ''.bin'')" by auto
  then show "ino = i \<and> idx = j" using fmt_int_sep [of idx r j] by blast
next
  assume "ino = i \<and> idx = j"
  then show "glob_match ino idx (pending_name i j sz)"
    unfolding glob_match_iff pending_name_def by (intro exI [of _ "fmt_int sz @ ''.bin''"]) simp
qed

lemma glob_unique:
  assumes "n \<in> fst ` set dir" "glob_match ino idx n" "\<forall>m\<in>fst ` set dir. glob_match ino idx m \<longrightarrow> m = n"
  shows "\<exists>ns. glob_pending ino idx dir = n # ns"
proof -
  have "set (glob_pending ino idx dir) = {m \<in> fst ` set dir. glob_match ino idx m}" by (auto simp: glob_pending_def)
  also have "\<dots> = {n}" using assms by blast
  finally show ?thesis by (cases "glob_pending ino idx dir") auto
qed

text \<open>What the writer stages the reader can read: after a chunk is encoded and its wire renamed
  into the staging directory, the fallback returns the plaintext, through the index when the
  writer recorded the path in it, and through the directory scan when the index does not know the
  chunk and no other wire of the same chunk is staged; wires of other chunks never matter.
\<close>
theorem staged_chunk_reads_back:
  assumes "aead_laws A" "hmac_len hmac" "zstd_laws Z" "good_nonce rnd" "encode_chunk A hmac Z rnd c d ino idx pt = Inr wire"
    and cfg: "re_cfg E = \<lparr>cg_aead = A, cg_zstd = Z, cg_cipher = c, cg_codec = d\<rparr>" "re_dir E"
    and fs: "\<And>n. re_read_err E n = None" "persist_pending True True pid ino idx sz wire (rw_dir W) = (Some name, dir')"
    and index: "rw_index W \<noteq> None \<and> index = record_persist ino idx name (rw_index W) \<or>
      pindex_lookup ino idx index = None \<and> (\<forall>n\<in>fst ` set dir'. glob_match ino idx n \<longrightarrow> n = name)"
  shows "try_pending_fallback E ino idx (W\<lparr>rw_dir := dir', rw_index := index\<rparr>) = Inr (Some pt)"
proof -
  have name: "name = pending_name ino idx sz" and there: "map_of dir' name = Some wire"
    using fs(2) by (auto simp: persist_pending_def rename_file_def write_tmp_def Let_def update_conv')
  have ne: "name \<noteq> []" by (simp add: name pending_name_def)
  have dec: "decode_chunk A Z c d ino idx wire = Inr pt" using decode_encode_chunk [OF assms(1-5)] .
  have found: "try_pending_fallback E ino idx (W\<lparr>rw_dir := dir', rw_index := index\<rparr>) = Inr (Some pt)"
    if "pindex_lookup ino idx index = Some name \<or> pindex_lookup ino idx index = None \<and> (\<exists>ns. glob_pending ino idx dir' = name # ns)"
    using that cfg fs(1) there dec by (auto simp: try_pending_fallback_def)
  from index show ?thesis
  proof
    assume "rw_index W \<noteq> None \<and> index = record_persist ino idx name (rw_index W)"
    then show ?thesis using found ne
      by (cases "rw_index W") (auto simp: record_persist_def pindex_lookup_def update_conv')
  next
    assume scan: "pindex_lookup ino idx index = None \<and> (\<forall>n\<in>fst ` set dir'. glob_match ino idx n \<longrightarrow> n = name)"
    have "\<exists>ns. glob_pending ino idx dir' = name # ns"
    proof (rule glob_unique)
      show "name \<in> fst ` set dir'" using map_of_SomeD [OF there] by force
      show "glob_match ino idx name" unfolding name glob_match_pending by simp
    qed (use scan in blast)
    then show ?thesis using found scan by blast
  qed
qed

section \<open>Properties of reads\<close>


text \<open>C24.  A lost chunk of a dense file is never read as zeros or as the end of the file: if a chunk the
  request covers has neither a row nor a staged wire, and nothing brings it back, \<open>ReadAt\<close>
  returns an error.
\<close>
theorem missing_chunk_is_reported:
  assumes "get_inode ino (rw_store W) = Inr i" "0 < i_chunk_size i" "\<not> i_sparse i" "keyed ckey (st_chunks (rw_store W))"
    and "layout (i_chunk_size i) (i_size i) False (\<lambda>idx. D (Key ino idx))"
    and "rd_good E ino (i_chunk_size i) (i_size i) False D {j} W"
    and "rd_rely E (rd_good E ino (i_chunk_size i) (i_size i) False D {j})"
    and "0 \<le> off" "0 < len" "off + len \<le> 2 ^ 31 * i_chunk_size i"
    and "off < (j + 1) * i_chunk_size i" "j * i_chunk_size i < min (off + len) (i_size i)"
  shows "\<exists>x. fst (fst (read_at E ino len off W)) = Some x"
proof -
  obtain e out W' where run: "read_at_window E ino len off (i_chunk_size i) (i_size i) False (re_window E) W = ((e, out), W')"
    by (metis prod.collapse)
  have eq: "read_at E ino len off W = ((e, out), W')"
    using assms(1-3,9) run by (simp add: read_at_def read_inode_def)
  obtain batch where "rd.read_result E ino (i_chunk_size i) (i_size i) False (re_window E) batch D {j} off (off + len) [] ((e, out), W')"
    using read_window_result [OF assms(5,4,6-10), of "re_window E"] run by auto
  then have "e \<noteq> None" using assms(11,12) unfolding rd.read_result_def by (auto split: option.splits)
  then show ?thesis using eq by auto
qed

text \<open>Once a chunk has a row, what is staged for it is not consulted: the read of the chunk is the
  same whatever the staging directory and the index hold.  So while a newer version of an already
  uploaded chunk waits for its upload, a read that does not go through the writer returns the older
  version, from the row and the cache.
\<close>
theorem read_ignores_newer_stage:
  assumes "get_chunk ino idx (rw_store W) = Inr c" "batch idx \<in> {None, Some c}"
  shows "fst (fetch_one E ino cs fsize sparse batch idx (W\<lparr>rw_dir := dir, rw_index := index\<rparr>)) =
      fst (fetch_one E ino cs fsize sparse batch idx W) \<and>
    (\<forall>d. fst (cache_get (re_cfg E) (re_attempts E (Key ino idx)) (Key ino idx) (ch_msg c) (ch_pack_offset c) (ch_pack_size c) (rw_cache W)) = Inr d \<longrightarrow>
      fst (fetch_one E ino cs fsize sparse batch idx (W\<lparr>rw_dir := dir, rw_index := index\<rparr>)) = Inr (Some d))"
proof -
  have "fetch_one E ino cs fsize sparse batch idx V = cached_get E ino idx c (note_blob_locality E ino idx c V)"
    if "rw_store V = rw_store W" for V
    using assms that by (auto simp: fetch_one_def)
  moreover have "rw_cache (note_blob_locality E ino idx c V) = rw_cache V" for V by (simp add: note_blob_locality_def)
  ultimately show ?thesis by (auto simp: cached_get_def split: prod.splits sum.splits)
qed

section \<open>Witnesses\<close>

text \<open>Inode 3 has two chunks of three bytes: the first is uploaded, the second staged.\<close>

definition rd_store :: "int \<Rightarrow> store" where
  "rd_store sz = demo\<lparr>st_inodes := map (\<lambda>i. if i_ino i = 3 then i\<lparr>i_size := sz, i_chunk_size := 3\<rparr> else i) (st_inodes demo),
     st_chunks := [\<lparr>c_ino = 3, c_idx = 0, c_msg = 9, c_size = 3, c_pack = None\<rparr>]\<rparr>"

definition rd_demo :: "int \<Rightarrow> rd_world" where
  "rd_demo sz = \<lparr>rw_store = rd_store sz, rw_cache = demo_cache, rw_dir = [(pending_name 3 1 3, [1, 2, 3])], rw_index = Some [],
     rw_inflight = [], rw_groups = [], rw_cancelled = [], rw_next = 0, rw_spawned = [], rw_notes = []\<rparr>"

definition rd_env0 :: rd_env where
  "rd_env0 = \<lparr>re_cfg = demo_cfg, re_attempts = (\<lambda>_. demo_env 1), re_pending = True, re_wait = Inr, re_dir = True, re_blobs = False,
     re_read_err = (\<lambda>_. None), re_between = (\<lambda>_ W. W), re_chunk_size = 65536, re_window = 2\<rparr>"

text \<open>A prefetch goroutine runs before every fetch.\<close>

definition rd_demo_env :: rd_env where
  "rd_demo_env = rd_env0\<lparr>re_between := (\<lambda>_ W. prefetch_one rd_env0 W)\<rparr>"

definition rd_data :: "int \<Rightarrow> ckey \<Rightarrow> bytes" where
  "rd_data sz k = (if k = Key 3 0 \<or> k = Key 3 1 then [1, 2, 3] else if k = Key 3 2 \<and> sz = 9 then [4, 5, 6] else [])"

lemma rd_demo_rows: "get_chunk 3 idx (rd_store sz) = (if idx = 0 then Inr \<lparr>ch_ino = 3, ch_idx = 0, ch_msg = 9, ch_size = 3, ch_pack_offset = 0, ch_pack_size = 0\<rparr> else Inl ErrNotFound)"
  by (simp add: get_chunk_def rd_store_def row_at_def chunk_of_row_def)

lemma rd_demo_stage:
  "re_dir E \<Longrightarrow> re_cfg E = demo_cfg \<Longrightarrow> re_read_err E = (\<lambda>_. None) \<Longrightarrow>
    try_pending_fallback E 3 idx (rd_demo sz) = (if idx = 1 then Inr (Some [1, 2, 3]) else Inr None)"
  by (auto simp: try_pending_fallback_def rd_demo_def pindex_lookup_def glob_pending_def glob_match_pending
      decode_chunk_def demo_cfg_def cipher_open_def decompress_chunk_def)

lemma rd_demo_good:
  assumes "E = rd_demo_env \<or> E = rd_env0" "L \<inter> {0, 1} = {}"
  shows "rd_good E 3 3 fsize False (rd_data sz) L (rd_demo sz)"
proof -
  have e: "re_dir E" "re_cfg E = demo_cfg" "re_read_err E = (\<lambda>_. None)" "re_attempts E = (\<lambda>_. demo_env 1)"
    using assms(1) by (auto simp: rd_demo_env_def rd_env0_def)
  have up: "upstream (rd_data sz) demo_cfg (demo_env 1) (Key 3 0) 9 0 0"
    by (auto simp: upstream_def demo_env_def fetch_wire_def decode_wire_def demo_cfg_def cipher_open_def decompress_chunk_def
        rd_data_def split: if_splits)
  have w: "rw_store (rd_demo sz) = rd_store sz" "rw_cache (rd_demo sz) = demo_cache" "rw_spawned (rd_demo sz) = []" by (simp_all add: rd_demo_def)
  show ?thesis
    unfolding rd_good_def w rd_demo_rows rd_demo_stage [OF e(1-3)] row_ok_def e
    using demo_cache_ok up assms(2) by (auto simp: rd_data_def)
qed

lemma rd_demo_rely:
  "rd_rely rd_demo_env (rd_good rd_demo_env 3 3 fsize False D L)"
  using prefetch_one_good [of rd_demo_env 3 3 fsize False D L _ rd_env0]
  by (auto simp: rd_rely_def) (auto simp: rd_demo_env_def rd_env0_def)

lemma rd_demo_keyed: "keyed ckey (st_chunks (rw_store (rd_demo sz)))"
  by (simp add: keyed_def rd_demo_def rd_store_def)

lemma rd_demo_layout: "sz = 6 \<or> sz = 9 \<Longrightarrow> layout 3 sz False (\<lambda>idx. rd_data sz (Key 3 idx))"
  by (auto simp: layout_def rd_data_def)

lemma rd_demo_inode:
  assumes "sz = 6 \<or> sz = 9"
  shows "\<exists>i. get_inode 3 (rw_store (rd_demo sz)) = Inr i \<and> i_chunk_size i = 3 \<and> i_size i = sz \<and> i_sparse i = False"
proof -
  have "map_sum (\<lambda>e. ()) (\<lambda>i. (i_chunk_size i, i_size i, i_sparse i)) (get_inode 3 (rd_store 6)) = Inr (3, 6, False)"
    "map_sum (\<lambda>e. ()) (\<lambda>i. (i_chunk_size i, i_size i, i_sparse i)) (get_inode 3 (rd_store 9)) = Inr (3, 9, False)" by code_simp+
  then show ?thesis using assms unfolding rd_demo_def
    by (cases "get_inode 3 (rd_store sz)") auto
qed


text \<open>The third chunk of a nine byte file is nowhere.\<close>

lemma missing_chunk_is_reported_witness:
  "fst (fst (read_at rd_demo_env 3 8 0 (rd_demo 9))) \<noteq> None"
proof -
  obtain i where i: "get_inode 3 (rw_store (rd_demo 9)) = Inr i" "i_chunk_size i = 3" "i_size i = 9" "i_sparse i = False"
    using rd_demo_inode [of 9] by auto
  show ?thesis
    using missing_chunk_is_reported [OF i(1) _ _ rd_demo_keyed, of "rd_data 9" rd_demo_env 2 0 8, unfolded i(2-4)] rd_demo_layout [of 9]
      rd_demo_good [of rd_demo_env "{2}" 9 9] rd_demo_rely
    by auto
qed

text \<open>A new version of the first chunk is staged; the read still sees the uploaded one.\<close>

lemma read_ignores_newer_stage_witness:
  "try_pending_fallback rd_env0 3 0 ((rd_demo 6)\<lparr>rw_dir := [(pending_name 3 0 1, [9])], rw_index := None\<rparr>) = Inr (Some [9]) \<and>
   fst (fetch_one rd_env0 3 3 6 False (\<lambda>_. None) 0 ((rd_demo 6)\<lparr>rw_dir := [(pending_name 3 0 1, [9])], rw_index := None\<rparr>)) = Inr (Some [1, 2, 3])"
proof
  show "try_pending_fallback rd_env0 3 0 ((rd_demo 6)\<lparr>rw_dir := [(pending_name 3 0 1, [9])], rw_index := None\<rparr>) = Inr (Some [9])"
    by code_simp
  have row: "get_chunk 3 0 (rw_store (rd_demo 6)) = Inr \<lparr>ch_ino = 3, ch_idx = 0, ch_msg = 9, ch_size = 3, ch_pack_offset = 0, ch_pack_size = 0\<rparr>"
    by (simp add: rd_demo_def rd_demo_rows)
  have "fst (cache_get (re_cfg rd_env0) (re_attempts rd_env0 (Key 3 0)) (Key 3 0) 9 0 0 (rw_cache (rd_demo 6))) = Inr [1, 2, 3]" by code_simp
  then show "fst (fetch_one rd_env0 3 3 6 False (\<lambda>_. None) 0 ((rd_demo 6)\<lparr>rw_dir := [(pending_name 3 0 1, [9])], rw_index := None\<rparr>)) = Inr (Some [1, 2, 3])"
    using read_ignores_newer_stage [OF row, where batch = "\<lambda>_. None" and E = rd_env0, THEN conjunct2] by simp
qed

text \<open>The same through the whole pipeline, a convergent cipher and the codec.\<close>

definition rd_conv :: rd_env where
  "rd_conv = rd_env0\<lparr>re_cfg := \<lparr>cg_aead = demo_aead, cg_zstd = demo_zstd, cg_cipher = AESGCMConvergent demo_key, cg_codec = CodecZstd\<rparr>\<rparr>"

lemma staged_chunk_reads_back_witness:
  "\<exists>wire dir'. persist_pending True True 7 3 2 3 wire (rw_dir (rd_demo 9)) = (Some (pending_name 3 2 3), dir') \<and>
    try_pending_fallback rd_conv 3 2 ((rd_demo 9)\<lparr>rw_dir := dir', rw_index := record_persist 3 2 (pending_name 3 2 3) (Some [])\<rparr>) = Inr (Some [1, 2, 3])"
proof -
  obtain wire where w: "encode_chunk demo_aead demo_hmac demo_zstd None (AESGCMConvergent demo_key) CodecZstd 3 2 [1, 2, 3] = Inr wire"
    by (auto simp: encode_chunk_def cipher_seal_def Let_def)
  obtain dir' where d: "persist_pending True True 7 3 2 3 wire (rw_dir (rd_demo 9)) = (Some (pending_name 3 2 3), dir')"
    by (auto simp: persist_pending_def rename_file_def write_tmp_def Let_def update_conv')
  have e: "re_cfg rd_conv = \<lparr>cg_aead = demo_aead, cg_zstd = demo_zstd, cg_cipher = AESGCMConvergent demo_key, cg_codec = CodecZstd\<rparr>"
    "re_dir rd_conv" "re_read_err rd_conv n = None" for n by (simp_all add: rd_conv_def rd_env0_def)
  have "rw_index (rd_demo 9) = Some []" by (simp add: rd_demo_def)
  then show ?thesis
    using staged_chunk_reads_back [OF demo_laws(1,3,2) _ w e d] d by (auto simp: good_nonce_def)
qed

end
