(* ===== verification/Pacing.thy ===== *)
theory Pacing
  imports Prelude
begin

text \<open>
  The pacing of Telegram calls in \<open>internal/tg\<close>: the two-lane rate limiter of \<open>ratelimit.go\<close>, the
  waiting out of FLOOD_WAIT of \<open>floodwait.go\<close> and the additive-increase, multiplicative-decrease
  controller of \<open>adaptive.go\<close>.  Times are nanoseconds; a clock reading and the tracker's counts
  are arguments of the operation that takes them.  The token bucket itself is a library: of a lane
  its limit in requests per minute (None is unlimited) and its burst are kept.  Log texts are left
  out.
\<close>

section \<open>Rate limiter\<close>

record lane =
  ln_limit :: "int option"
  ln_burst :: int
  ln_current :: int

record rate_limiter =
  rl_up :: lane
  rl_down :: lane

definition apply_limit :: "int \<Rightarrow> lane \<Rightarrow> lane" where
  "apply_limit n0 l =
     (let n = (if n0 < 0 then 0 else n0) in
      if n = 0 then l\<lparr>ln_limit := None, ln_burst := 1, ln_current := 0\<rparr>
      else
        let b = go_div n 4;
            b = (if b < 1 then 1 else b);
            b = (if b > 32 then 32 else b)
        in l\<lparr>ln_limit := Some n, ln_burst := b, ln_current := to_int32 n\<rparr>)"

definition set_upload_per_minute :: "int \<Rightarrow> rate_limiter \<Rightarrow> rate_limiter" where
  "set_upload_per_minute n r = r\<lparr>rl_up := apply_limit n (rl_up r)\<rparr>"

definition set_download_per_minute :: "int \<Rightarrow> rate_limiter \<Rightarrow> rate_limiter" where
  "set_download_per_minute n r = r\<lparr>rl_down := apply_limit n (rl_down r)\<rparr>"

definition new_rate_limiter :: "int \<Rightarrow> int \<Rightarrow> rate_limiter" where
  "new_rate_limiter up down =
     (let free = \<lparr>ln_limit = None, ln_burst = 1, ln_current = 0\<rparr> in
      set_download_per_minute down (set_upload_per_minute up \<lparr>rl_up = free, rl_down = free\<rparr>))"

definition upload_per_minute :: "rate_limiter \<Rightarrow> int" where "upload_per_minute r = ln_current (rl_up r)"
definition download_per_minute :: "rate_limiter \<Rightarrow> int" where "download_per_minute r = ln_current (rl_down r)"

text \<open>A request is known by the name of its type.\<close>

definition is_download_request :: "string \<Rightarrow> bool" where
  "is_download_request name = (name = ''UploadGetFileRequest'')"

text \<open>\<open>Handle\<close>: wait for a token of the lane, then call; \<open>wait\<close> is the library's answer.\<close>

definition rl_handle :: "(lane \<Rightarrow> 'e option) \<Rightarrow> (string \<Rightarrow> 'e option) \<Rightarrow> rate_limiter \<Rightarrow> string \<Rightarrow> 'e option" where
  "rl_handle wait invoke r name =
     (case wait (if is_download_request name then rl_down r else rl_up r) of
        Some e \<Rightarrow> Some e
      | None \<Rightarrow> invoke name)"

section \<open>FLOOD_WAIT\<close>

definition MaxFloodWait :: int where "MaxFloodWait = 3600000000000"
definition FloodWaitLogInterval :: int where "FloodWaitLogInterval = 30000000000"
definition second :: int where "second = 1000000000"

datatype reply = ReplyOk | ReplyErr string | ReplyFlood int
datatype flood_result = FloodDone | FloodErr string | FloodTooLong int | FloodCtx

text \<open>
  The sleep of d: the pauses made, when the timer of pause i fires \<open>late i\<close> too late; the context
  ends pause i when \<open>ctx i\<close>.
\<close>

function sleep_loop :: "(nat \<Rightarrow> nat) \<Rightarrow> (nat \<Rightarrow> bool) \<Rightarrow> nat \<Rightarrow> int \<Rightarrow> bool \<times> int list" where
  "sleep_loop late ctx i remaining =
     (if remaining \<le> 0 then (True, [])
      else
        let step = (if remaining < FloodWaitLogInterval then remaining else FloodWaitLogInterval) in
        if ctx i then (False, [])
        else (case sleep_loop late ctx (i + 1) (remaining - step - int (late i)) of (ok, ps) \<Rightarrow> (ok, step # ps)))"
  by pat_completeness auto
termination by (relation "measure (\<lambda>(_, _, _, r). nat r)") (auto simp: FloodWaitLogInterval_def)

declare sleep_loop.simps [simp del]

definition sleep_with_progress :: "(nat \<Rightarrow> nat) \<Rightarrow> (nat \<Rightarrow> bool) \<Rightarrow> int \<Rightarrow> bool \<times> int list" where
  "sleep_with_progress late ctx d =
     (if d \<le> FloodWaitLogInterval then (if ctx 0 then (False, []) else (True, [d])) else sleep_loop late ctx 0 d)"

text \<open>
  \<open>Handle\<close>: attempt n is answered by \<open>reply n\<close>; the sleep after it is cut short when \<open>ctx n\<close>.  The
  retries are unbounded, so the loop may not return.
\<close>

partial_function (option) flood_loop :: "int \<Rightarrow> (nat \<Rightarrow> reply) \<Rightarrow> (nat \<Rightarrow> bool) \<Rightarrow> nat \<Rightarrow> int list \<Rightarrow> (flood_result \<times> int list) option" where
  "flood_loop cap reply ctx n slept =
     (case reply n of
        ReplyOk \<Rightarrow> Some (FloodDone, slept)
      | ReplyErr e \<Rightarrow> Some (FloodErr e, slept)
      | ReplyFlood d0 \<Rightarrow>
          let d = (if d0 \<le> 0 then second else d0) in
          if d > cap then Some (FloodTooLong d, slept)
          else if ctx n then Some (FloodCtx, slept)
          else flood_loop cap reply ctx (n + 1) (slept @ [d]))"

definition flood_handle :: "(nat \<Rightarrow> reply) \<Rightarrow> (nat \<Rightarrow> bool) \<Rightarrow> (flood_result \<times> int list) option" where
  "flood_handle reply ctx = flood_loop MaxFloodWait reply ctx 0 []"

section \<open>Adaptive controller\<close>

definition AdaptiveStartingCap :: int where "AdaptiveStartingCap = 120"
definition AdaptiveMinCap :: int where "AdaptiveMinCap = 30"
definition AdaptiveMaxCap :: int where "AdaptiveMaxCap = 1200"
definition AdaptiveStep :: int where "AdaptiveStep = 30"
definition AdaptiveQuietBeforeRaise :: int where "AdaptiveQuietBeforeRaise = 300000000000"

record method_count =
  mc_method :: string
  mc_flood :: int
  mc_ok :: int

record controller =
  ac_rl :: rate_limiter
  ac_pin_up :: int
  ac_pin_down :: int
  ac_up :: int
  ac_flood_total :: int
  ac_ok_total :: int
  ac_flood_at :: int
  ac_adjust_at :: "int option"
  ac_manual :: bool

definition new_adaptive_controller :: "int \<Rightarrow> rate_limiter \<Rightarrow> controller" where
  "new_adaptive_controller now rl = \<lparr>ac_rl = rl, ac_pin_up = 0, ac_pin_down = 0, ac_up = AdaptiveStartingCap, ac_flood_total = 0,
     ac_ok_total = 0, ac_flood_at = now, ac_adjust_at = None, ac_manual = False\<rparr>"

definition limit_upload :: "int \<Rightarrow> controller \<Rightarrow> controller" where
  "limit_upload n c = c\<lparr>ac_rl := set_upload_per_minute n (ac_rl c)\<rparr>"

definition set_pinned_upload :: "int \<Rightarrow> int \<Rightarrow> controller \<Rightarrow> controller" where
  "set_pinned_upload now n c0 =
     (let c = c0\<lparr>ac_pin_up := n\<rparr> in
      if n > 0 then (limit_upload n c)\<lparr>ac_adjust_at := Some now\<rparr>
      else if ac_manual c then (limit_upload 0 c)\<lparr>ac_adjust_at := Some now\<rparr>
      else (limit_upload AdaptiveStartingCap (c\<lparr>ac_up := AdaptiveStartingCap\<rparr>))\<lparr>ac_adjust_at := Some now\<rparr>)"

definition set_manual_mode :: "int \<Rightarrow> bool \<Rightarrow> controller \<Rightarrow> controller" where
  "set_manual_mode now m c0 =
     (if ac_manual c0 = m then c0
      else
        let c = c0\<lparr>ac_manual := m\<rparr>;
            c' = (if m then limit_upload (ac_pin_up c) c
                  else if ac_pin_up c = 0 then limit_upload AdaptiveStartingCap (c\<lparr>ac_up := AdaptiveStartingCap\<rparr>)
                  else c)
        in c'\<lparr>ac_adjust_at := Some now\<rparr>)"

definition set_pinned_download :: "int \<Rightarrow> controller \<Rightarrow> controller" where
  "set_pinned_download n c = c\<lparr>ac_pin_down := n, ac_rl := set_download_per_minute n (ac_rl c)\<rparr>"

definition run_start :: "controller \<Rightarrow> controller" where
  "run_start c = (if ac_pin_up c = 0 \<and> \<not> ac_manual c then limit_upload (ac_up c) c else c)"

definition is_download_method_name :: "string \<Rightarrow> bool" where
  "is_download_method_name name = (name = ''UploadGetFileRequest'' \<or> name = ''UploadGetCdnFileRequest'')"

definition lane_total :: "(method_count \<Rightarrow> int) \<Rightarrow> method_count list \<Rightarrow> int" where
  "lane_total f snap = sum_list (map f (filter (\<lambda>m. \<not> is_download_method_name (mc_method m)) snap))"

definition adaptive_step :: "int \<Rightarrow> method_count list \<Rightarrow> controller \<Rightarrow> controller" where
  "adaptive_step now snap c0 =
     (let flood_total = lane_total mc_flood snap; ok_total = lane_total mc_ok snap;
          flood_delta = flood_total - ac_flood_total c0; ok_delta = ok_total - ac_ok_total c0;
          c = c0\<lparr>ac_flood_total := flood_total, ac_ok_total := ok_total\<rparr> in
      if ac_manual c \<or> ac_pin_up c > 0 then (if flood_delta > 0 then c\<lparr>ac_flood_at := now\<rparr> else c)
      else if flood_delta > 0 then
        let c1 = c\<lparr>ac_flood_at := now\<rparr>;
            half = go_div (ac_up c) 2;
            new_cap = (if half < AdaptiveMinCap then AdaptiveMinCap else half)
        in if new_cap = ac_up c then c1\<lparr>ac_adjust_at := Some now\<rparr>
           else limit_upload new_cap (c1\<lparr>ac_adjust_at := Some now, ac_up := new_cap\<rparr>)
      else if now - ac_flood_at c < AdaptiveQuietBeforeRaise then c
      else if ok_delta = 0 then c
      else
        let up = ac_up c + AdaptiveStep;
            new_cap = (if up > AdaptiveMaxCap then AdaptiveMaxCap else up)
        in if new_cap = ac_up c then c
           else limit_upload new_cap (c\<lparr>ac_adjust_at := Some now, ac_up := new_cap\<rparr>))"

definition upload_effective :: "controller \<Rightarrow> int" where
  "upload_effective c = (if ac_manual c then ac_pin_up c else if ac_pin_up c > 0 then ac_pin_up c else ac_up c)"

section \<open>Lanes\<close>

definition lane_ok :: "lane \<Rightarrow> bool" where
  "lane_ok l \<longleftrightarrow> 1 \<le> ln_burst l \<and> ln_burst l \<le> 32 \<and> (case ln_limit l of None \<Rightarrow> ln_burst l = 1 | Some n \<Rightarrow> 0 < n \<and> ln_burst l \<le> max 1 (n div 4))"

lemma apply_limit_ok: "lane_ok (apply_limit n l)"
  by (auto simp: apply_limit_def lane_ok_def Let_def)

lemma apply_limit_limit [simp]: "ln_limit (apply_limit n l) = (if n \<le> 0 then None else Some n)"
  by (auto simp: apply_limit_def Let_def)

lemma apply_limit_current: "n < 2 ^ 31 \<Longrightarrow> ln_current (apply_limit n l) = (if n \<le> 0 then 0 else n)"
  by (auto simp: apply_limit_def Let_def to_int32_id)

section \<open>The controller's invariant\<close>

datatype pacing_event = PinUpload int int | PinDownload int | Manual int bool | Tick int "method_count list"

definition pacing_do :: "pacing_event \<Rightarrow> controller \<Rightarrow> controller" where
  "pacing_do ev c = (case ev of
       PinUpload now n \<Rightarrow> set_pinned_upload now n c
     | PinDownload n \<Rightarrow> set_pinned_download n c
     | Manual now m \<Rightarrow> set_manual_mode now m c
     | Tick now snap \<Rightarrow> adaptive_step now snap c)"

text \<open>Pins are settings: not negative and 32 bits wide.\<close>

definition pin_ok :: "int \<Rightarrow> bool" where "pin_ok n \<longleftrightarrow> 0 \<le> n \<and> n < 2 ^ 31"

inductive pacing_reach :: "controller \<Rightarrow> bool" where
  pacing_start: "pacing_reach (run_start (new_adaptive_controller now (new_rate_limiter up down)))"
| pacing_step: "pacing_reach c \<Longrightarrow> (\<And>now n. ev = PinUpload now n \<Longrightarrow> pin_ok n) \<Longrightarrow> pacing_reach (pacing_do ev c)"

definition pacing_ok :: "controller \<Rightarrow> bool" where
  "pacing_ok c \<longleftrightarrow> AdaptiveMinCap \<le> ac_up c \<and> ac_up c \<le> AdaptiveMaxCap \<and> pin_ok (ac_pin_up c) \<and>
     lane_ok (rl_up (ac_rl c)) \<and> lane_ok (rl_down (ac_rl c)) \<and>
     upload_per_minute (ac_rl c) = upload_effective c \<and>
     ln_limit (rl_up (ac_rl c)) = (if upload_effective c = 0 then None else Some (upload_effective c))"

lemmas cap_defs = AdaptiveStartingCap_def AdaptiveMinCap_def AdaptiveMaxCap_def AdaptiveStep_def AdaptiveQuietBeforeRaise_def

lemma limit_upload_fields [simp]:
  "ac_pin_up (limit_upload n c) = ac_pin_up c" "ac_up (limit_upload n c) = ac_up c" "ac_manual (limit_upload n c) = ac_manual c"
  "ac_flood_total (limit_upload n c) = ac_flood_total c" "ac_ok_total (limit_upload n c) = ac_ok_total c"
  "ac_flood_at (limit_upload n c) = ac_flood_at c" "rl_down (ac_rl (limit_upload n c)) = rl_down (ac_rl c)"
  "rl_up (ac_rl (limit_upload n c)) = apply_limit n (rl_up (ac_rl c))"
  by (simp_all add: limit_upload_def set_upload_per_minute_def)

text \<open>Once the lane has the effective cap.\<close>

lemma pacing_okI:
  assumes "AdaptiveMinCap \<le> ac_up c" "ac_up c \<le> AdaptiveMaxCap" "pin_ok (ac_pin_up c)" "lane_ok (rl_down (ac_rl c))"
    "rl_up (ac_rl c) = apply_limit (upload_effective c) l"
  shows "pacing_ok c"
proof -
  have "0 \<le> upload_effective c \<and> upload_effective c < 2 ^ 31"
    using assms(1-3) by (auto simp: upload_effective_def pin_ok_def cap_defs)
  then show ?thesis using assms apply_limit_ok apply_limit_current
    by (auto simp: pacing_ok_def upload_per_minute_def)
qed

lemma pacing_ok_same:
  assumes "pacing_ok c" "ac_rl c' = ac_rl c" "ac_up c' = ac_up c" "ac_pin_up c' = ac_pin_up c" "ac_manual c' = ac_manual c"
  shows "pacing_ok c'"
  using assms by (simp add: pacing_ok_def upload_effective_def)

lemma pin_upload_ok: "pacing_ok c \<Longrightarrow> pin_ok n \<Longrightarrow> pacing_ok (set_pinned_upload now n c)"
  by (rule pacing_okI [where l = "rl_up (ac_rl c)"])
    (auto simp: set_pinned_upload_def Let_def pacing_ok_def upload_effective_def pin_ok_def cap_defs)

lemma pin_download_ok: "pacing_ok c \<Longrightarrow> pacing_ok (set_pinned_download n c)"
  by (auto simp: set_pinned_download_def set_download_per_minute_def pacing_ok_def upload_effective_def upload_per_minute_def apply_limit_ok)

lemma manual_ok:
  assumes "pacing_ok c"
  shows "pacing_ok (set_manual_mode now m c)"
proof (cases "ac_manual c = m \<or> (\<not> m \<and> ac_pin_up c \<noteq> 0)")
  case True
  then show ?thesis using assms
    by (auto simp: set_manual_mode_def Let_def pacing_ok_def upload_effective_def pin_ok_def)
next
  case False
  then show ?thesis using assms
    by (intro pacing_okI [where l = "rl_up (ac_rl c)"])
      (auto simp: set_manual_mode_def Let_def pacing_ok_def upload_effective_def cap_defs pin_ok_def)
qed

text \<open>The cases of a tick.\<close>

definition seen :: "method_count list \<Rightarrow> controller \<Rightarrow> controller" where
  "seen snap c = c\<lparr>ac_flood_total := lane_total mc_flood snap, ac_ok_total := lane_total mc_ok snap\<rparr>"

lemma seen_fields [simp]:
  "ac_rl (seen snap c) = ac_rl c" "ac_up (seen snap c) = ac_up c" "ac_pin_up (seen snap c) = ac_pin_up c"
  "ac_manual (seen snap c) = ac_manual c" "ac_flood_at (seen snap c) = ac_flood_at c"
  "ac_flood_total (seen snap c) = lane_total mc_flood snap" "ac_ok_total (seen snap c) = lane_total mc_ok snap"
  by (simp_all add: seen_def)

abbreviation flooded :: "method_count list \<Rightarrow> controller \<Rightarrow> bool" where
  "flooded snap c \<equiv> ac_flood_total c < lane_total mc_flood snap"

lemma step_held:
  "ac_manual c \<or> 0 < ac_pin_up c \<Longrightarrow>
    adaptive_step now snap c = (if flooded snap c then (seen snap c)\<lparr>ac_flood_at := now\<rparr> else seen snap c)"
  by (simp add: adaptive_step_def Let_def seen_def)

lemma step_flooded:
  "\<not> (ac_manual c \<or> 0 < ac_pin_up c) \<Longrightarrow> flooded snap c \<Longrightarrow> 0 \<le> ac_up c \<Longrightarrow>
    adaptive_step now snap c =
      (let h = max AdaptiveMinCap (ac_up c div 2) in
       if h = ac_up c then (seen snap c)\<lparr>ac_flood_at := now, ac_adjust_at := Some now\<rparr>
       else limit_upload h ((seen snap c)\<lparr>ac_flood_at := now, ac_adjust_at := Some now, ac_up := h\<rparr>))"
  by (simp add: adaptive_step_def Let_def seen_def max_def)

lemma step_quiet:
  "\<not> (ac_manual c \<or> 0 < ac_pin_up c) \<Longrightarrow> \<not> flooded snap c \<Longrightarrow>
    adaptive_step now snap c =
      (let m = min AdaptiveMaxCap (ac_up c + AdaptiveStep) in
       if now - ac_flood_at c < AdaptiveQuietBeforeRaise \<or> lane_total mc_ok snap = ac_ok_total c \<or> m = ac_up c then seen snap c
       else limit_upload m ((seen snap c)\<lparr>ac_adjust_at := Some now, ac_up := m\<rparr>))"
  by (simp add: adaptive_step_def Let_def seen_def min_def)

lemma tick_ok:
  assumes "pacing_ok c"
  shows "pacing_ok (adaptive_step now snap c)"
proof -
  have ok: "pacing_ok c'" if "ac_rl c' = ac_rl c" "ac_up c' = ac_up c" "ac_pin_up c' = ac_pin_up c" "ac_manual c' = ac_manual c" for c'
    using pacing_ok_same [OF assms that] .
  have set: "pacing_ok (limit_upload n c')"
    if "AdaptiveMinCap \<le> n" "n \<le> AdaptiveMaxCap" "ac_rl c' = ac_rl c" "ac_up c' = n" "ac_pin_up c' = ac_pin_up c" "\<not> ac_manual c'"
      "\<not> 0 < ac_pin_up c" for n c'
    using assms that by (intro pacing_okI [where l = "rl_up (ac_rl c)"]) (auto simp: pacing_ok_def upload_effective_def)
  have up: "AdaptiveMinCap \<le> ac_up c" "ac_up c \<le> AdaptiveMaxCap" "0 \<le> ac_up c" using assms by (simp_all add: pacing_ok_def cap_defs)
  have caps: "AdaptiveMinCap \<le> max AdaptiveMinCap (ac_up c div 2)" "max AdaptiveMinCap (ac_up c div 2) \<le> AdaptiveMaxCap"
    "AdaptiveMinCap \<le> min AdaptiveMaxCap (ac_up c + AdaptiveStep)" "min AdaptiveMaxCap (ac_up c + AdaptiveStep) \<le> AdaptiveMaxCap"
    using up by (simp_all add: cap_defs)
  consider "ac_manual c \<or> 0 < ac_pin_up c" | "\<not> (ac_manual c \<or> 0 < ac_pin_up c)" "flooded snap c"
    | "\<not> (ac_manual c \<or> 0 < ac_pin_up c)" "\<not> flooded snap c" by blast
  then show ?thesis
  proof cases
    case 1
    then show ?thesis unfolding step_held [OF 1] by (auto intro!: ok)
  next
    case 2
    then show ?thesis unfolding step_flooded [OF 2 up(3)] Let_def
      by (split if_split) (intro conjI impI; ((rule ok; simp; fail) | (rule set; insert caps 2; simp)))
  next
    case 3
    then show ?thesis unfolding step_quiet [OF 3] Let_def
      by (split if_split) (intro conjI impI; ((rule ok; simp; fail) | (rule set; insert caps 3; simp)))
  qed
qed

lemma run_start_ok: "pacing_ok (run_start (new_adaptive_controller now (new_rate_limiter up down)))"
  by (rule pacing_okI [where l = "rl_up (new_rate_limiter up down)"])
    (simp_all add: run_start_def new_adaptive_controller_def new_rate_limiter_def set_upload_per_minute_def set_download_per_minute_def
      limit_upload_def upload_effective_def pin_ok_def apply_limit_ok cap_defs Let_def)

lemma pacing_reach_ok: "pacing_reach c \<Longrightarrow> pacing_ok c"
proof (induction rule: pacing_reach.induct)
  case (pacing_step c ev)
  then show ?case
    by (cases ev) (simp_all add: pacing_do_def pin_upload_ok pin_download_ok manual_ok tick_ok)
qed (rule run_start_ok)

section \<open>Properties\<close>

text \<open>Whatever the operator and the tracker do, in any order, the adaptive cap stays between its floor
  and its ceiling and the upload lane runs at exactly the effective cap: the operator's pin, the
  raw value in manual mode, and the adaptive cap otherwise.  So outside manual mode the lane is
  never unlimited, and its burst is between 1 and 32 and at most a quarter of the cap.
\<close>
theorem pacing_invariant:
  assumes "pacing_reach c"
  shows "AdaptiveMinCap \<le> ac_up c \<and> ac_up c \<le> AdaptiveMaxCap \<and> upload_per_minute (ac_rl c) = upload_effective c \<and>
    ln_limit (rl_up (ac_rl c)) = (if upload_effective c = 0 then None else Some (upload_effective c)) \<and>
    (\<not> ac_manual c \<longrightarrow> ln_limit (rl_up (ac_rl c)) \<noteq> None) \<and>
    1 \<le> ln_burst (rl_up (ac_rl c)) \<and> ln_burst (rl_up (ac_rl c)) \<le> min 32 (max 1 (upload_effective c div 4))"
proof -
  have "pacing_ok c" using assms by (rule pacing_reach_ok)
  moreover from this have "\<not> ac_manual c \<Longrightarrow> upload_effective c \<noteq> 0"
    by (auto simp: pacing_ok_def upload_effective_def cap_defs)
  ultimately show ?thesis
    unfolding pacing_ok_def lane_ok_def by (auto split: if_splits option.splits)
qed

text \<open>A day: a pin, its removal, a flood, manual mode without a pin.\<close>

definition pacing_demo :: controller where
  "pacing_demo = adaptive_step 3 [\<lparr>mc_method = ''UploadSaveFilePartRequest'', mc_flood = 1, mc_ok = 5\<rparr>]
     (set_pinned_upload 2 0 (set_pinned_upload 1 400 (run_start (new_adaptive_controller 0 (new_rate_limiter 0 0)))))"

lemma pacing_demo_reach: "pacing_reach pacing_demo" "pacing_reach (set_manual_mode 4 True pacing_demo)"
proof -
  note step = pacing_reach.pacing_step
  have 1: "pacing_reach (pacing_do (PinUpload 1 400) (run_start (new_adaptive_controller 0 (new_rate_limiter 0 0))))"
    by (rule step [OF pacing_reach.pacing_start]) (auto simp: pin_ok_def)
  have 2: "pacing_reach (pacing_do (PinUpload 2 0) (pacing_do (PinUpload 1 400) (run_start (new_adaptive_controller 0 (new_rate_limiter 0 0)))))"
    by (rule step [OF 1]) (auto simp: pin_ok_def)
  show 3: "pacing_reach pacing_demo"
    using step [OF 2, of "Tick 3 [\<lparr>mc_method = ''UploadSaveFilePartRequest'', mc_flood = 1, mc_ok = 5\<rparr>]"]
    by (simp add: pacing_demo_def pacing_do_def)
  show "pacing_reach (set_manual_mode 4 True pacing_demo)"
    using step [OF 3, of "Manual 4 True"] by (simp add: pacing_do_def)
qed

lemma pacing_invariant_witness:
  "upload_per_minute (ac_rl pacing_demo) = 60 \<and> ln_limit (rl_up (ac_rl (set_manual_mode 4 True pacing_demo))) = None"
proof -
  have "upload_effective pacing_demo = 60" "upload_effective (set_manual_mode 4 True pacing_demo) = 0" by code_simp+
  then show ?thesis using pacing_invariant [OF pacing_demo_reach(1)] pacing_invariant [OF pacing_demo_reach(2)] by simp
qed

text \<open>Runs of ticks: with a new flood each, and quiet ones.\<close>

fun ticks :: "(int \<times> method_count list) list \<Rightarrow> controller \<Rightarrow> controller" where
  "ticks [] c = c"
| "ticks ((now, snap) # ts) c = ticks ts (adaptive_step now snap c)"

fun floods_rise :: "int \<Rightarrow> (int \<times> method_count list) list \<Rightarrow> bool" where
  "floods_rise f [] = True"
| "floods_rise f ((now, snap) # ts) = (f < lane_total mc_flood snap \<and> floods_rise (lane_total mc_flood snap) ts)"

text \<open>No new flood, late enough after the one at t, with the given traffic.\<close>

fun quiet_run :: "bool \<Rightarrow> int \<Rightarrow> int \<Rightarrow> int \<Rightarrow> (int \<times> method_count list) list \<Rightarrow> bool" where
  "quiet_run traffic t f k [] = True"
| "quiet_run traffic t f k ((now, snap) # ts) =
     (lane_total mc_flood snap \<le> f \<and> AdaptiveQuietBeforeRaise \<le> now - t \<and> ((lane_total mc_ok snap \<noteq> k) = traffic) \<and>
      quiet_run traffic t (lane_total mc_flood snap) (lane_total mc_ok snap) ts)"

lemma ticks_flood:
  assumes "\<not> (ac_manual c \<or> 0 < ac_pin_up c)" "floods_rise (ac_flood_total c) ts" "AdaptiveMinCap \<le> ac_up c"
  shows "AdaptiveMinCap \<le> ac_up (ticks ts c) \<and> ac_up (ticks ts c) \<le> max AdaptiveMinCap (ac_up c div 2 ^ length ts) \<and>
    ac_manual (ticks ts c) = ac_manual c \<and> ac_pin_up (ticks ts c) = ac_pin_up c"
  using assms
proof (induction ts arbitrary: c)
  case (Cons x ts)
  obtain now snap where x: "x = (now, snap)" by (cases x)
  let ?c = "adaptive_step now snap c"
  have fl: "flooded snap c" using Cons.prems(2) x by simp
  have u0: "0 \<le> ac_up c" using Cons.prems(3) by (simp add: cap_defs)
  note st = step_flooded [OF Cons.prems(1) fl u0, of now]
  have c: "ac_up ?c = max AdaptiveMinCap (ac_up c div 2)" "ac_manual ?c = ac_manual c" "ac_pin_up ?c = ac_pin_up c"
    "ac_flood_total ?c = lane_total mc_flood snap"
    unfolding st by (simp_all add: Let_def)
  have "max AdaptiveMinCap (ac_up c div 2) div 2 ^ length ts \<le> max AdaptiveMinCap (ac_up c div 2 ^ length (x # ts))"
  proof -
    have "AdaptiveMinCap div 2 ^ length ts \<le> AdaptiveMinCap" using zdiv_mono2 [of AdaptiveMinCap 1 "2 ^ length ts"] by (simp add: cap_defs)
    moreover have "ac_up c div 2 div 2 ^ length ts = ac_up c div 2 ^ length (x # ts)" by (simp add: zdiv_zmult2_eq)
    ultimately show ?thesis by (simp add: max_def)
  qed
  then have le: "max AdaptiveMinCap (ac_up ?c div 2 ^ length ts) \<le> max AdaptiveMinCap (ac_up c div 2 ^ length (x # ts))"
    unfolding c(1) by (simp del: length_Cons)
  have "floods_rise (ac_flood_total ?c) ts" using Cons.prems(2) x c(4) by simp
  then show ?case using Cons.IH [of ?c] Cons.prems(1) c le unfolding x ticks.simps by (auto intro: order_trans)
qed simp

lemma ticks_quiet:
  assumes "\<not> (ac_manual c \<or> 0 < ac_pin_up c)" "quiet_run traffic (ac_flood_at c) (ac_flood_total c) (ac_ok_total c) ts"
    "ac_up c \<le> AdaptiveMaxCap"
  shows "ac_up (ticks ts c) = (if traffic then min AdaptiveMaxCap (ac_up c + AdaptiveStep * int (length ts)) else ac_up c) \<and>
    ac_manual (ticks ts c) = ac_manual c \<and> ac_pin_up (ticks ts c) = ac_pin_up c"
  using assms
proof (induction ts arbitrary: c)
  case (Cons x ts)
  obtain now snap where x: "x = (now, snap)" by (cases x)
  let ?c = "adaptive_step now snap c"
  have nf: "\<not> flooded snap c" using Cons.prems(2) x by simp
  note st = step_quiet [OF Cons.prems(1) nf, of now]
  have c: "ac_up ?c = (if traffic then min AdaptiveMaxCap (ac_up c + AdaptiveStep) else ac_up c)" "ac_manual ?c = ac_manual c"
    "ac_pin_up ?c = ac_pin_up c" "ac_flood_total ?c = lane_total mc_flood snap" "ac_ok_total ?c = lane_total mc_ok snap"
    "ac_flood_at ?c = ac_flood_at c"
    using Cons.prems(2) x unfolding st by (auto simp: Let_def)
  have "quiet_run traffic (ac_flood_at ?c) (ac_flood_total ?c) (ac_ok_total ?c) ts" using Cons.prems(2) x c(4-6) by simp
  moreover have "ac_up ?c \<le> AdaptiveMaxCap" using c(1) Cons.prems(3) by simp
  ultimately show ?case using Cons.IH [of ?c] Cons.prems(1) x c(1-3) by (auto simp: algebra_simps cap_defs)
qed simp

text \<open>Without a pin and outside manual mode the loop converges: six ticks in a row that each see a new
  FLOOD_WAIT take the cap from anywhere to the floor; 39 quiet ticks in a row with upload
  traffic, five minutes or more after the last flood, take it to the ceiling; and quiet ticks
  without traffic never move it.  The lane follows.
\<close>
theorem adaptive_converges:
  assumes "\<not> (ac_manual c \<or> 0 < ac_pin_up c)" "pacing_reach c"
  shows "(floods_rise (ac_flood_total c) ts \<longrightarrow> 6 \<le> length ts \<longrightarrow>
      ac_up (ticks ts c) = AdaptiveMinCap \<and> upload_per_minute (ac_rl (ticks ts c)) = AdaptiveMinCap) \<and>
    (quiet_run True (ac_flood_at c) (ac_flood_total c) (ac_ok_total c) ts \<longrightarrow> 39 \<le> length ts \<longrightarrow>
      ac_up (ticks ts c) = AdaptiveMaxCap \<and> upload_per_minute (ac_rl (ticks ts c)) = AdaptiveMaxCap) \<and>
    (quiet_run False (ac_flood_at c) (ac_flood_total c) (ac_ok_total c) ts \<longrightarrow> ac_up (ticks ts c) = ac_up c)"
proof -
  have ok0: "pacing_ok c" using assms(2) by (rule pacing_reach_ok)
  then have ok: "pacing_ok (ticks ts c)" by (induction ts arbitrary: c) (auto simp: tick_ok)
  have up: "AdaptiveMinCap \<le> ac_up c" "ac_up c \<le> AdaptiveMaxCap" using ok0 by (simp_all add: pacing_ok_def)
  have lane: "upload_per_minute (ac_rl (ticks ts c)) = ac_up (ticks ts c)"
    if "ac_manual (ticks ts c) = ac_manual c" "ac_pin_up (ticks ts c) = ac_pin_up c"
    using ok that assms(1) by (auto simp: pacing_ok_def upload_effective_def)
  show ?thesis
  proof (intro conjI impI)
    assume r: "floods_rise (ac_flood_total c) ts" "6 \<le> length ts"
    note t = ticks_flood [OF assms(1) r(1) up(1)]
    have "ac_up c div 2 ^ length ts \<le> ac_up c div 2 ^ 6"
      using power_increasing [OF r(2), of "2 :: int"] up(1) by (intro zdiv_mono2) (simp_all add: cap_defs)
    also have "\<dots> \<le> AdaptiveMaxCap div 2 ^ 6" using up(2) by (rule zdiv_mono1) simp
    finally have "ac_up c div 2 ^ length ts \<le> AdaptiveMinCap" by (simp add: cap_defs)
    then show "ac_up (ticks ts c) = AdaptiveMinCap" using t by simp
    then show "upload_per_minute (ac_rl (ticks ts c)) = AdaptiveMinCap" using lane t by simp
  next
    assume r: "quiet_run True (ac_flood_at c) (ac_flood_total c) (ac_ok_total c) ts" "39 \<le> length ts"
    note t = ticks_quiet [OF assms(1) r(1) up(2)]
    show "ac_up (ticks ts c) = AdaptiveMaxCap" using t r(2) up(1) by (simp add: cap_defs)
    then show "upload_per_minute (ac_rl (ticks ts c)) = AdaptiveMaxCap" using lane t by simp
  next
    assume r: "quiet_run False (ac_flood_at c) (ac_flood_total c) (ac_ok_total c) ts"
    show "ac_up (ticks ts c) = ac_up c" using ticks_quiet [OF assms(1) r up(2)] by simp
  qed
qed

definition storm :: "nat \<Rightarrow> (int \<times> method_count list) list" where
  "storm n = map (\<lambda>i. (int i, [\<lparr>mc_method = ''MessagesSendMediaRequest'', mc_flood = int i + 2, mc_ok = 9\<rparr>])) [0..<n]"

lemma adaptive_converges_witness: "ac_up (ticks (storm 6) pacing_demo) = 30 \<and> upload_per_minute (ac_rl (ticks (storm 6) pacing_demo)) = 30"
proof -
  have "\<not> (ac_manual pacing_demo \<or> 0 < ac_pin_up pacing_demo)" by code_simp
  moreover have "floods_rise (ac_flood_total pacing_demo) (storm 6)" by code_simp
  moreover have "length (storm 6) = 6" by (simp add: storm_def)
  ultimately show ?thesis using adaptive_converges [OF _ pacing_demo_reach(1), of "storm 6"] by (simp add: AdaptiveMinCap_def)
qed

section \<open>Flood waits\<close>

definition flood_pause :: "reply \<Rightarrow> int" where
  "flood_pause r = (case r of ReplyFlood d \<Rightarrow> if d \<le> 0 then second else d | _ \<Rightarrow> 0)"

definition waits :: "reply \<Rightarrow> bool" where
  "waits r = (case r of ReplyFlood d \<Rightarrow> flood_pause r \<le> MaxFloodWait | _ \<Rightarrow> False)"

lemma flood_prefix:
  "\<forall>i<k. waits (reply (n + i)) \<and> \<not> ctx (n + i) \<Longrightarrow>
    flood_loop MaxFloodWait reply ctx n slept =
    flood_loop MaxFloodWait reply ctx (n + k) (slept @ map (\<lambda>i. flood_pause (reply (n + i))) [0..<k])"
proof (induction k)
  case (Suc k)
  then have w: "waits (reply (n + k))" "\<not> ctx (n + k)" by simp_all
  then obtain d where d: "reply (n + k) = ReplyFlood d" by (auto simp: waits_def split: reply.splits)
  have "flood_loop MaxFloodWait reply ctx (n + k) sl = flood_loop MaxFloodWait reply ctx (n + Suc k) (sl @ [flood_pause (reply (n + k))])" for sl
    using w d by (subst flood_loop.simps) (simp add: waits_def flood_pause_def Let_def)
  then show ?case using Suc by simp
qed simp

lemma flood_returns_gen:
  "flood_loop cap reply ctx n slept = Some r \<Longrightarrow> cap = MaxFloodWait \<longrightarrow> (\<exists>i\<ge>n. \<not> waits (reply i) \<or> ctx i)"
proof (rule flood_loop.raw_induct [where P = "\<lambda>cap reply ctx n sl r. cap = MaxFloodWait \<longrightarrow> (\<exists>i\<ge>n. \<not> waits (reply i) \<or> ctx i)"])
  fix f cap reply ctx and n :: nat and slept y
  assume IH: "\<And>cap reply ctx n sl y. f cap reply ctx n sl = Some y \<Longrightarrow> cap = MaxFloodWait \<longrightarrow> (\<exists>i\<ge>n. \<not> waits (reply i) \<or> ctx i)"
    and body: "(case reply n of ReplyOk \<Rightarrow> Some (FloodDone, slept) | ReplyErr e \<Rightarrow> Some (FloodErr e, slept)
      | ReplyFlood d0 \<Rightarrow> let d = (if d0 \<le> 0 then second else d0) in
          if d > cap then Some (FloodTooLong d, slept) else if ctx n then Some (FloodCtx, slept) else f cap reply ctx (n + 1) (slept @ [d])) = Some y"
  show "cap = MaxFloodWait \<longrightarrow> (\<exists>i\<ge>n. \<not> waits (reply i) \<or> ctx i)"
  proof (intro impI, cases "waits (reply n) \<and> \<not> ctx n")
    case True
    assume cap: "cap = MaxFloodWait"
    from True obtain d where "reply n = ReplyFlood d" by (auto simp: waits_def split: reply.splits)
    then have "f cap reply ctx (n + 1) (slept @ [flood_pause (reply n)]) = Some y"
      using body True cap by (simp add: waits_def flood_pause_def Let_def split: if_splits)
    from IH [OF this] cap obtain i where "n + 1 \<le> i" "\<not> waits (reply i) \<or> ctx i" by blast
    then show "\<exists>i\<ge>n. \<not> waits (reply i) \<or> ctx i" by (intro exI [of _ i]) simp
  qed auto
qed

lemma flood_returns: "flood_loop MaxFloodWait reply ctx n slept = Some r \<Longrightarrow> \<exists>i\<ge>n. \<not> waits (reply i) \<or> ctx i"
  using flood_returns_gen by blast

text \<open>The flood-wait middleware ends with the first answer that is not a FLOOD_WAIT it may wait out, after
  sleeping once per FLOOD_WAIT before it, exactly the time asked for (one second when that is not
  positive), never more than an hour at a time; and if every answer asks for a wait within the cap
  and the context lives, it never returns.
\<close>
theorem flood_wait_outcome:
  shows "(\<forall>k. (\<forall>i<k. waits (reply i) \<and> \<not> ctx i) \<and> (\<not> waits (reply k) \<or> ctx k) \<longrightarrow>
      flood_handle reply ctx = Some (
        case reply k of ReplyOk \<Rightarrow> FloodDone | ReplyErr e \<Rightarrow> FloodErr e
        | ReplyFlood d \<Rightarrow> if waits (reply k) then FloodCtx else FloodTooLong d,
        map (\<lambda>i. flood_pause (reply i)) [0..<k])) \<and>
    ((\<forall>i. waits (reply i) \<and> \<not> ctx i) \<longleftrightarrow> flood_handle reply ctx = None)"
proof -
  have run: "flood_handle reply ctx = Some (
        case reply k of ReplyOk \<Rightarrow> FloodDone | ReplyErr e \<Rightarrow> FloodErr e
        | ReplyFlood d \<Rightarrow> if waits (reply k) then FloodCtx else FloodTooLong d,
        map (\<lambda>i. flood_pause (reply i)) [0..<k])"
    if k: "\<forall>i<k. waits (reply i) \<and> \<not> ctx i" "\<not> waits (reply k) \<or> ctx k" for k
  proof -
    have "flood_handle reply ctx = flood_loop MaxFloodWait reply ctx k (map (\<lambda>i. flood_pause (reply i)) [0..<k])"
      using flood_prefix [of k reply 0 ctx "[]"] k(1) by (simp add: flood_handle_def)
    also have "\<dots> = Some (case reply k of ReplyOk \<Rightarrow> FloodDone | ReplyErr e \<Rightarrow> FloodErr e
        | ReplyFlood d \<Rightarrow> if waits (reply k) then FloodCtx else FloodTooLong d,
        map (\<lambda>i. flood_pause (reply i)) [0..<k])"
      using k(2) by (subst flood_loop.simps) (auto simp: waits_def flood_pause_def Let_def MaxFloodWait_def second_def split: reply.splits)
    finally show ?thesis .
  qed
  have "flood_handle reply ctx = None" if "\<forall>i. waits (reply i) \<and> \<not> ctx i"
    using flood_returns [of reply ctx 0 "[]"] that by (cases "flood_handle reply ctx") (auto simp: flood_handle_def)
  moreover have "flood_handle reply ctx \<noteq> None" if "\<not> (\<forall>i. waits (reply i) \<and> \<not> ctx i)"
  proof -
    define k where "k = (LEAST i. \<not> waits (reply i) \<or> ctx i)"
    have "\<not> waits (reply k) \<or> ctx k" unfolding k_def by (rule LeastI_ex) (use that in blast)
    moreover have "\<forall>i<k. waits (reply i) \<and> \<not> ctx i" unfolding k_def using not_less_Least by blast
    ultimately show ?thesis using run by simp
  qed
  ultimately show ?thesis using run by blast
qed

lemma flood_wait_outcome_witness:
  "flood_handle (\<lambda>n. if n = 0 then ReplyFlood 7 else if n = 1 then ReplyFlood 0 else ReplyOk) (\<lambda>_. False) = Some (FloodDone, [7, 1000000000])"
  using flood_wait_outcome [of "\<lambda>n. if n = 0 then ReplyFlood 7 else if n = 1 then ReplyFlood 0 else ReplyOk" "\<lambda>_. False", THEN conjunct1, rule_format, of 2]
  by (simp add: waits_def flood_pause_def MaxFloodWait_def second_def numeral_2_eq_2 less_Suc_eq split: if_splits)

lemma sleep_loop_ok:
  "case sleep_loop late (\<lambda>_. False) i d of (done, ps) \<Rightarrow> done \<and> (\<forall>p\<in>set ps. 0 < p \<and> p \<le> FloodWaitLogInterval) \<and>
    d \<le> sum_list ps + (\<Sum>j<length ps. int (late (i + j))) \<and> ((\<forall>j. late j = 0) \<longrightarrow> sum_list ps = max 0 d)"
proof (induction late "\<lambda>_ :: nat. False" i d rule: sleep_loop.induct)
  case (1 late i d)
  show ?case
  proof (cases "d \<le> 0")
    case False
    define step where "step = (if d < FloodWaitLogInterval then d else FloodWaitLogInterval)"
    obtain ok ps where r: "sleep_loop late (\<lambda>_. False) (i + 1) (d - step - int (late i)) = (ok, ps)" by fastforce
    have eq: "sleep_loop late (\<lambda>_. False) i d = (ok, step # ps)"
      using False r by (subst sleep_loop.simps) (simp add: Let_def step_def [symmetric])
    have "ok \<and> (\<forall>p\<in>set ps. 0 < p \<and> p \<le> FloodWaitLogInterval) \<and>
      d - step - int (late i) \<le> sum_list ps + (\<Sum>j<length ps. int (late (i + 1 + j))) \<and>
      ((\<forall>j. late j = 0) \<longrightarrow> sum_list ps = max 0 (d - step - int (late i)))"
      using 1 [OF False step_def] r by simp
    moreover have "(\<Sum>j<length (step # ps). int (late (i + j))) = int (late i) + (\<Sum>j<length ps. int (late (i + 1 + j)))"
      by (simp add: sum.lessThan_Suc_shift del: sum.lessThan_Suc)
    moreover have "0 < step" "step \<le> FloodWaitLogInterval" "step \<le> d" using False by (auto simp: step_def FloodWaitLogInterval_def)
    ultimately show ?thesis unfolding eq by (simp del: sum.lessThan_Suc)
  qed (simp add: sleep_loop.simps)
qed

text \<open>While the context lives the sleep of a flood wait ends; it is made of pauses of at most 30 s that,
  together with the lateness of the timers, cover the wait, and that add up to exactly the wait
  when the timers are on time.
\<close>
theorem sleep_covers_wait:
  assumes "\<forall>i. \<not> ctx i" "0 < d"
  shows "case sleep_with_progress late ctx d of (done, ps) \<Rightarrow> done \<and> (\<forall>p\<in>set ps. 0 < p \<and> p \<le> FloodWaitLogInterval) \<and>
    d \<le> sum_list ps + (\<Sum>j<length ps. int (late j)) \<and> ((\<forall>j. late j = 0) \<longrightarrow> sum_list ps = d)"
proof -
  have "ctx = (\<lambda>_. False)" using assms(1) by auto
  then show ?thesis
    using sleep_loop_ok [where late = late and i = 0 and d = d] assms(2) by (simp add: sleep_with_progress_def split: prod.splits)
qed

lemma sleep_covers_wait_witness:
  "case sleep_with_progress (\<lambda>_. 0) (\<lambda>_. False) 70000000000 of (done, ps) \<Rightarrow> done \<and> sum_list ps = 70000000000"
  using sleep_covers_wait [of "\<lambda>_. False" 70000000000 "\<lambda>_. 0"] by (simp split: prod.splits)

end
