(* ===== verification/Keys.thy ===== *)
theory Keys
  imports Crypto MetaSystem
begin

text \<open>
  The life of the file system's key: \<open>encrypt init\<close>, \<open>encrypt rotate\<close> and \<open>loadCipher\<close> of
  \<open>cmd/telfs/encrypt.go\<close> with the passphrase prompts, and the derivation of \<open>internal/crypto/derive.go\<close>.
  Argon2id and the JSON of its parameters are the record \<open>kdf\<close>; what the system's randomness and
  the terminal give is \<open>key_env\<close>.  The values live in the key-value table of the metadata store.
\<close>

section \<open>Key derivation\<close>

record argon_params =
  ap_time :: "32 word"
  ap_memory :: "32 word"
  ap_threads :: "8 word"

definition DefaultArgonParams :: argon_params where
  "DefaultArgonParams = \<lparr>ap_time = 3, ap_memory = 64 * 1024, ap_threads = 4\<rparr>"

record kdf =
  kd_marshal :: "argon_params \<Rightarrow> bytes"
  kd_unmarshal :: "bytes \<Rightarrow> argon_params option"
  kd_derive :: "bytes \<Rightarrow> bytes \<Rightarrow> argon_params \<Rightarrow> bytes"

definition kdf_laws :: "kdf \<Rightarrow> bool" where
  "kdf_laws K \<longleftrightarrow> (\<forall>a. kd_unmarshal K (kd_marshal K a) = Some a) \<and> (\<forall>p s a. length (kd_derive K p s a) = 32)"

text \<open>\<open>argon2.IDKey\<close> panics on less than one round or thread.\<close>

definition derive_key :: "kdf \<Rightarrow> bytes \<Rightarrow> bytes \<Rightarrow> argon_params \<Rightarrow> bytes option" where
  "derive_key K pass salt a = (if ap_time a < 1 \<or> ap_threads a < 1 then None else Some (kd_derive K pass salt a))"

section \<open>Stored state\<close>

definition KVMode :: string where "KVMode = ''crypto_mode''"
definition KVSalt :: string where "KVSalt = ''crypto_salt''"
definition KVArgon :: string where "KVArgon = ''crypto_argon_params''"
definition KVCanary :: string where "KVCanary = ''crypto_canary''"
definition KVWrappedDEK :: string where "KVWrappedDEK = ''crypto_wrapped_dek''"

definition ModeAESGCMv1 :: string where "ModeAESGCMv1 = ''aes-gcm-v1''"
definition ModeAESGCMv2 :: string where "ModeAESGCMv2 = ''aes-gcm-v2''"
definition ModeAESGCMv3 :: string where "ModeAESGCMv3 = ''aes-gcm-v3''"

datatype key_err =
  KeyMeta meta_err | KeyCrypto crypto_err | KeyArgon | KeyPrompt string | KeyMode string
| AlreadyEnabled | ChunksExist | BlobsExist nat | NotEncrypted | NoRandomness | PersistFailed string | KdfPanic
| EnvelopeErr string | WrappedMissing string | BodyErr crypto_err

text \<open>A stored value is a list of bytes, kept as a string.\<close>

definition raw :: "bytes \<Rightarrow> string" where "raw b = map (\<lambda>w. char_of (unat w)) b"

definition cipher_for_mode :: "string \<Rightarrow> bytes \<Rightarrow> key_err + cipher" where
  "cipher_for_mode mode dek =
     (if mode = ModeAESGCMv1 \<or> mode = ModeAESGCMv2 then (case new_aesgcm dek of Inl e \<Rightarrow> Inl (KeyCrypto e) | Inr c \<Rightarrow> Inr c)
      else if mode = ModeAESGCMv3 then (case new_aesgcm_convergent dek of Inl e \<Rightarrow> Inl (KeyCrypto e) | Inr c \<Rightarrow> Inr c)
      else Inl (KeyMode mode))"

section \<open>Prompts\<close>

text \<open>\<open>env\<close> is TELFS_PASSPHRASE, the other arguments what the terminal gives, None a read error.\<close>

definition prompt_new_passphrase :: "bytes option \<Rightarrow> bytes option \<Rightarrow> bytes option \<Rightarrow> key_err + bytes" where
  "prompt_new_passphrase env p1 p2 =
     (case env of
        Some e \<Rightarrow> Inr e
      | None \<Rightarrow> (case p1 of
            None \<Rightarrow> Inl (KeyPrompt ''read passphrase'')
          | Some a \<Rightarrow>
              if a = [] then Inl (KeyPrompt ''encrypt init: passphrase must not be empty'')
              else (case p2 of
                  None \<Rightarrow> Inl (KeyPrompt ''read confirmation'')
                | Some b \<Rightarrow> if a \<noteq> b then Inl (KeyPrompt ''encrypt init: passphrases do not match'') else Inr a)))"

definition read_passphrase :: "bytes option \<Rightarrow> bool \<Rightarrow> bytes option \<Rightarrow> key_err + bytes" where
  "read_passphrase env terminal line =
     (case env of
        Some e \<Rightarrow> Inr e
      | None \<Rightarrow> (case line of
            None \<Rightarrow> Inl (KeyPrompt ''read passphrase'')
          | Some b \<Rightarrow> Inr (if terminal then b else rev (dropWhile (\<lambda>c. c = 10) (rev b)))))"

section \<open>Init, rotate, load\<close>

text \<open>\<open>ke_cut\<close> counts the writes that succeed before one fails or the process dies.\<close>

record key_env =
  ke_prompt :: "key_err + bytes"
  ke_salt :: "bytes option"
  ke_dek :: "bytes option"
  ke_wrap_nonce :: "bytes option"
  ke_canary_nonce :: "bytes option"
  ke_cut :: "nat option"

fun put_kvs :: "nat option \<Rightarrow> (string \<times> bytes) list \<Rightarrow> store \<Rightarrow> (key_err + unit) \<times> store" where
  "put_kvs die [] s = (Inr (), s)"
| "put_kvs die ((k, v) # kvs) s =
     (if die = Some 0 then (Inl (PersistFailed k), s)
      else put_kvs (map_option (\<lambda>j. j - 1) die) kvs (snd (put_kv k (raw v) s)))"

text \<open>Wrap the data key under a passphrase with a fresh salt, and seal the canary under the data key.\<close>

definition seal_keys :: "aead \<Rightarrow> (bytes \<Rightarrow> bytes \<Rightarrow> bytes) \<Rightarrow> kdf \<Rightarrow> key_env \<Rightarrow> string \<Rightarrow> bytes \<Rightarrow> bytes \<Rightarrow> bytes
    \<Rightarrow> key_err + (bytes \<times> bytes \<times> bytes)" where
  "seal_keys A hmac K E mode pass salt dek =
     (case derive_key K pass salt DefaultArgonParams of
        None \<Rightarrow> Inl KdfPanic
      | Some kek \<Rightarrow> (case wrap_dek A (ke_wrap_nonce E) kek dek of
            Inl e \<Rightarrow> Inl (KeyCrypto e)
          | Inr wrapped \<Rightarrow> (case cipher_for_mode mode dek of
                Inl e \<Rightarrow> Inl e
              | Inr c \<Rightarrow> (case seal_canary A hmac (ke_canary_nonce E) c of
                    Inl e \<Rightarrow> Inl (KeyCrypto e)
                  | Inr canary \<Rightarrow> Inr (kd_marshal K DefaultArgonParams, canary, wrapped)))))"

definition encrypt_init :: "aead \<Rightarrow> (bytes \<Rightarrow> bytes \<Rightarrow> bytes) \<Rightarrow> kdf \<Rightarrow> bool \<Rightarrow> key_env \<Rightarrow> store \<Rightarrow> (key_err + unit) \<times> store" where
  "encrypt_init A hmac K convergent E s =
     (case get_kv KVMode s of
        Inr _ \<Rightarrow> (Inl AlreadyEnabled, s)
      | Inl _ \<Rightarrow>
          if has_any_chunks s then (Inl ChunksExist, s)
          else if count_chunk_blobs s > 0 then (Inl (BlobsExist (count_chunk_blobs s)), s)
          else
            (let mode = (if convergent then ModeAESGCMv3 else ModeAESGCMv2) in
             case ke_prompt E of
               Inl e \<Rightarrow> (Inl e, s)
             | Inr pass \<Rightarrow> (case ke_salt E of
                 None \<Rightarrow> (Inl NoRandomness, s)
               | Some salt \<Rightarrow> (case ke_dek E of
                   None \<Rightarrow> (Inl NoRandomness, s)
                 | Some dek \<Rightarrow> (case seal_keys A hmac K E mode pass salt dek of
                     Inl e \<Rightarrow> (Inl e, s)
                   | Inr (argon, canary, wrapped) \<Rightarrow>
                       put_kvs (ke_cut E) [(KVMode, ascii mode), (KVSalt, salt), (KVArgon, argon), (KVCanary, canary), (KVWrappedDEK, wrapped)] s)))))"

definition encrypt_rotate :: "aead \<Rightarrow> (bytes \<Rightarrow> bytes \<Rightarrow> bytes) \<Rightarrow> kdf \<Rightarrow> key_env \<Rightarrow> key_err + bytes \<Rightarrow> store \<Rightarrow> (key_err + unit) \<times> store" where
  "encrypt_rotate A hmac K E old s =
     (case get_kv KVMode s of
        Inl e \<Rightarrow> (Inl (if e = ErrNotFound then NotEncrypted else KeyMeta e), s)
      | Inr mode \<Rightarrow>
     if mode \<noteq> ModeAESGCMv2 \<and> mode \<noteq> ModeAESGCMv3 then (Inl (KeyMode mode), s)
     else (case get_kv KVSalt s of
        Inl e \<Rightarrow> (Inl (KeyMeta e), s)
      | Inr old_salt \<Rightarrow> (case get_kv KVArgon s of
        Inl e \<Rightarrow> (Inl (KeyMeta e), s)
      | Inr argon \<Rightarrow> (case kd_unmarshal K (ascii argon) of
        None \<Rightarrow> (Inl KeyArgon, s)
      | Some params \<Rightarrow> (case get_kv KVWrappedDEK s of
        Inl e \<Rightarrow> (Inl (KeyMeta e), s)
      | Inr wrapped \<Rightarrow> (case old of
        Inl e \<Rightarrow> (Inl e, s)
      | Inr old_pass \<Rightarrow> (case derive_key K old_pass (ascii old_salt) params of
        None \<Rightarrow> (Inl KdfPanic, s)
      | Some old_kek \<Rightarrow> (case unwrap_dek A old_kek (ascii wrapped) of
        Inl e \<Rightarrow> (Inl (KeyCrypto e), s)
      | Inr dek \<Rightarrow> (case ke_prompt E of
        Inl e \<Rightarrow> (Inl e, s)
      | Inr new_pass \<Rightarrow> (case ke_salt E of
        None \<Rightarrow> (Inl NoRandomness, s)
      | Some new_salt \<Rightarrow> (case seal_keys A hmac K E mode new_pass new_salt dek of
        Inl e \<Rightarrow> (Inl e, s)
      | Inr (new_argon, canary, new_wrapped) \<Rightarrow>
          put_kvs (ke_cut E) [(KVSalt, new_salt), (KVArgon, new_argon), (KVCanary, canary), (KVWrappedDEK, new_wrapped)] s)))))))))))"

definition check_canary :: "aead \<Rightarrow> cipher \<Rightarrow> bytes \<Rightarrow> key_err + cipher" where
  "check_canary A c canary = (case verify_canary A c canary of Inl e \<Rightarrow> Inl (KeyCrypto e) | Inr _ \<Rightarrow> Inr c)"

definition load_cipher :: "aead \<Rightarrow> kdf \<Rightarrow> key_err + bytes \<Rightarrow> store \<Rightarrow> key_err + cipher" where
  "load_cipher A K ask s =
     (case get_kv KVMode s of
        Inl e \<Rightarrow> if e = ErrNotFound then Inr NoopCipher else Inl (KeyMeta e)
      | Inr mode \<Rightarrow> (case get_kv KVSalt s of
        Inl e \<Rightarrow> Inl (KeyMeta e)
      | Inr salt \<Rightarrow> (case get_kv KVArgon s of
        Inl e \<Rightarrow> Inl (KeyMeta e)
      | Inr argon \<Rightarrow> (case kd_unmarshal K (ascii argon) of
        None \<Rightarrow> Inl KeyArgon
      | Some params \<Rightarrow> (case get_kv KVCanary s of
        Inl e \<Rightarrow> Inl (KeyMeta e)
      | Inr canary \<Rightarrow> (case ask of
        Inl e \<Rightarrow> Inl e
      | Inr pass \<Rightarrow> (case derive_key K pass (ascii salt) params of
        None \<Rightarrow> Inl KdfPanic
      | Some derived \<Rightarrow>
          if mode = ModeAESGCMv1 then
            (case new_aesgcm derived of Inl e \<Rightarrow> Inl (KeyCrypto e) | Inr c \<Rightarrow> check_canary A c (ascii canary))
          else if mode = ModeAESGCMv2 \<or> mode = ModeAESGCMv3 then
            (case get_kv KVWrappedDEK s of
               Inl e \<Rightarrow> Inl (KeyMeta e)
             | Inr wrapped \<Rightarrow> (case unwrap_dek A derived (ascii wrapped) of
               Inl e \<Rightarrow> Inl (KeyCrypto e)
             | Inr dek \<Rightarrow> (case cipher_for_mode mode dek of
               Inl e \<Rightarrow> Inl e
             | Inr c \<Rightarrow> check_canary A c (ascii canary))))
          else Inl (KeyMode mode))))))))"

section \<open>Stored keys unlock\<close>

lemma of_char_int: "(of_char c :: int) = int (of_char c)"
  by (simp add: of_nat_of_char)

lemma ascii_raw [simp]: "ascii (raw b) = b"
proof -
  have "unat (w :: 8 word) mod 256 = unat w" for w
  proof -
    have "unat w < 2 ^ LENGTH(8)" by (rule unsigned_less)
    then show ?thesis by simp
  qed
  then show ?thesis by (simp add: ascii_def raw_def comp_def of_char_int map_idI)
qed

lemma raw_ascii [simp]: "raw (ascii s) = s"
  by (simp add: ascii_def raw_def comp_def of_char_int unat_of_nat map_idI)

lemma kv_keys_distinct [simp]:
  "KVMode \<noteq> KVSalt" "KVMode \<noteq> KVArgon" "KVMode \<noteq> KVCanary" "KVMode \<noteq> KVWrappedDEK"
  "KVSalt \<noteq> KVMode" "KVSalt \<noteq> KVArgon" "KVSalt \<noteq> KVCanary" "KVSalt \<noteq> KVWrappedDEK"
  "KVArgon \<noteq> KVMode" "KVArgon \<noteq> KVSalt" "KVArgon \<noteq> KVCanary" "KVArgon \<noteq> KVWrappedDEK"
  "KVCanary \<noteq> KVMode" "KVCanary \<noteq> KVSalt" "KVCanary \<noteq> KVArgon" "KVCanary \<noteq> KVWrappedDEK"
  "KVWrappedDEK \<noteq> KVMode" "KVWrappedDEK \<noteq> KVSalt" "KVWrappedDEK \<noteq> KVArgon" "KVWrappedDEK \<noteq> KVCanary"
  by (simp_all add: KVMode_def KVSalt_def KVArgon_def KVCanary_def KVWrappedDEK_def)

lemma modes_distinct [simp]: "ModeAESGCMv2 \<noteq> ModeAESGCMv1" "ModeAESGCMv3 \<noteq> ModeAESGCMv1" "ModeAESGCMv2 \<noteq> ModeAESGCMv3"
    "ModeAESGCMv1 \<noteq> ModeAESGCMv2" "ModeAESGCMv1 \<noteq> ModeAESGCMv3" "ModeAESGCMv3 \<noteq> ModeAESGCMv2"
  by (simp_all add: ModeAESGCMv1_def ModeAESGCMv2_def ModeAESGCMv3_def)

text \<open>
  \<open>unlocked_by\<close>: the stored salt, parameters, canary and wrapped key hold the data key for a
  passphrase, under a mode that wraps one.
\<close>

definition unlocked_by :: "aead \<Rightarrow> kdf \<Rightarrow> bytes \<Rightarrow> string \<Rightarrow> bytes \<Rightarrow> bytes \<Rightarrow> bytes \<Rightarrow> bytes \<Rightarrow> bytes \<Rightarrow> cipher \<Rightarrow> bool" where
  "unlocked_by A K pass mode salt argon canary wrapped dek c \<longleftrightarrow>
     (mode = ModeAESGCMv2 \<or> mode = ModeAESGCMv3) \<and>
     (\<exists>params kek. kd_unmarshal K argon = Some params \<and> derive_key K pass salt params = Some kek \<and> unwrap_dek A kek wrapped = Inr dek) \<and>
     cipher_for_mode mode dek = Inr c \<and> verify_canary A c canary = Inr ()"

definition stored_keys :: "store \<Rightarrow> string \<Rightarrow> bytes \<Rightarrow> bytes \<Rightarrow> bytes \<Rightarrow> bytes \<Rightarrow> bool" where
  "stored_keys s mode salt argon canary wrapped \<longleftrightarrow>
     get_kv KVMode s = Inr mode \<and> get_kv KVSalt s = Inr (raw salt) \<and> get_kv KVArgon s = Inr (raw argon) \<and>
     get_kv KVCanary s = Inr (raw canary) \<and> get_kv KVWrappedDEK s = Inr (raw wrapped)"

lemma load_unlocked:
  "stored_keys s mode salt argon canary wrapped \<Longrightarrow> unlocked_by A K pass mode salt argon canary wrapped dek c \<Longrightarrow>
   load_cipher A K (Inr pass) s = Inr c"
  by (auto simp: stored_keys_def unlocked_by_def load_cipher_def check_canary_def)

lemma put_kvs_ok: "put_kvs die kvs s = (Inr (), t) \<Longrightarrow> t = foldl (\<lambda>s (k, v). snd (put_kv k (raw v) s)) s kvs"
  by (induction die kvs s rule: put_kvs.induct) (auto split: if_splits)

lemma get_kv_put: "get_kv k (snd (put_kv k' v s)) = (if k = k' then Inr v else get_kv k s)"
  by (simp add: get_kv_opt kv_opt_put)

lemma put_kv_keeps [simp]: "st_chunks (snd (put_kv k v s)) = st_chunks s" "st_inodes (snd (put_kv k v s)) = st_inodes s"
    "st_journal (snd (put_kv k v s)) = st_journal s" "st_blobs (snd (put_kv k v s)) = st_blobs s"
  by (simp_all add: put_kv_state)

lemma put_kvs_keeps: "st_chunks (snd (put_kvs die kvs s)) = st_chunks s \<and> st_blobs (snd (put_kvs die kvs s)) = st_blobs s"
  by (induction die kvs s rule: put_kvs.induct) auto

lemma ascii_mode: "raw (ascii m) = m" by simp

definition good_keys :: "aead \<Rightarrow> (bytes \<Rightarrow> bytes \<Rightarrow> bytes) \<Rightarrow> kdf \<Rightarrow> bool" where
  "good_keys A hmac K \<longleftrightarrow> aead_laws A \<and> hmac_len hmac \<and> kdf_laws K"

definition good_env :: "key_env \<Rightarrow> bool" where
  "good_env E \<longleftrightarrow> good_nonce (ke_wrap_nonce E) \<and> good_nonce (ke_canary_nonce E)"

lemma wrap_unwrap: "aead_laws A \<Longrightarrow> good_nonce rnd \<Longrightarrow> wrap_dek A rnd kek dek = Inr w \<Longrightarrow> unwrap_dek A kek w = Inr dek"
  by (auto simp: wrap_dek_def unwrap_dek_def good_nonce_def aead_lawsD nonceSize_def split: if_splits option.splits)

lemma canary_verifies:
  assumes "aead_laws A" "hmac_len hmac" "good_nonce rnd" "seal_canary A hmac rnd c = Inr w"
  shows "verify_canary A c w = Inr ()"
  using payload_layer.decode_encode [OF cipher_layer [OF assms(1-3)]] assms(4) by (simp add: seal_canary_def verify_canary_def)

lemma seal_keys_unlock:
  assumes "good_keys A hmac K" "good_env E" "mode = ModeAESGCMv2 \<or> mode = ModeAESGCMv3"
    and "seal_keys A hmac K E mode pass salt dek = Inr (argon, canary, wrapped)"
  shows "\<exists>c. cipher_for_mode mode dek = Inr c \<and> unlocked_by A K pass mode salt argon canary wrapped dek c"
proof -
  obtain kek c where k: "derive_key K pass salt DefaultArgonParams = Some kek" "wrap_dek A (ke_wrap_nonce E) kek dek = Inr wrapped"
      "cipher_for_mode mode dek = Inr c" "seal_canary A hmac (ke_canary_nonce E) c = Inr canary" "argon = kd_marshal K DefaultArgonParams"
    using assms(4) by (auto simp: seal_keys_def split: option.splits sum.splits)
  have l: "aead_laws A" "hmac_len hmac" "kd_unmarshal K argon = Some DefaultArgonParams"
    "good_nonce (ke_wrap_nonce E)" "good_nonce (ke_canary_nonce E)"
    using assms(1,2) k(5) by (auto simp: good_keys_def good_env_def kdf_laws_def)
  show ?thesis using k(1,3) assms(3) l(3) wrap_unwrap [OF l(1,4) k(2)] canary_verifies [OF l(1,2,5) k(4)]
    unfolding unlocked_by_def by blast
qed

lemma init_unlocks:
  assumes "good_keys A hmac K" "good_env E" "encrypt_init A hmac K convergent E s = (Inr (), t)" "ke_prompt E = Inr pass"
  shows "\<exists>mode salt argon canary wrapped dek c. ke_dek E = Some dek \<and> mode = (if convergent then ModeAESGCMv3 else ModeAESGCMv2) \<and>
    cipher_for_mode mode dek = Inr c \<and>
    stored_keys t mode salt argon canary wrapped \<and> unlocked_by A K pass mode salt argon canary wrapped dek c"
proof -
  define mode where "mode = (if convergent then ModeAESGCMv3 else ModeAESGCMv2)"
  obtain salt dek argon canary wrapped where k: "ke_dek E = Some dek" "seal_keys A hmac K E mode pass salt dek = Inr (argon, canary, wrapped)"
      "put_kvs (ke_cut E) [(KVMode, ascii mode), (KVSalt, salt), (KVArgon, argon), (KVCanary, canary), (KVWrappedDEK, wrapped)] s = (Inr (), t)"
    using assms(3,4) unfolding encrypt_init_def Let_def mode_def [symmetric] by (auto split: option.splits sum.splits if_splits)
  have m: "mode = ModeAESGCMv2 \<or> mode = ModeAESGCMv3" by (simp add: mode_def)
  obtain c where c: "cipher_for_mode mode dek = Inr c" "unlocked_by A K pass mode salt argon canary wrapped dek c"
    using seal_keys_unlock [OF assms(1,2) m k(2)] by blast
  have "stored_keys t mode salt argon canary wrapped"
    unfolding put_kvs_ok [OF k(3)] stored_keys_def by (simp add: get_kv_put)
  then show ?thesis using c k(1) mode_def by blast
qed

lemma rotate_unlocks:
  assumes "good_keys A hmac K" "good_env E" "stored_keys s mode salt argon canary wrapped" "unlocked_by A K pass mode salt argon canary wrapped dek c"
    and "encrypt_rotate A hmac K E (Inr pass) s = (Inr (), t)" "ke_prompt E = Inr pass'"
  shows "\<exists>salt argon canary wrapped. stored_keys t mode salt argon canary wrapped \<and> unlocked_by A K pass' mode salt argon canary wrapped dek c"
proof -
  have m: "mode = ModeAESGCMv2 \<or> mode = ModeAESGCMv3" and cm: "cipher_for_mode mode dek = Inr c" using assms(4) by (simp_all add: unlocked_by_def)
  obtain salt' argon' canary' wrapped' where k: "seal_keys A hmac K E mode pass' salt' dek = Inr (argon', canary', wrapped')"
      "put_kvs (ke_cut E) [(KVSalt, salt'), (KVArgon, argon'), (KVCanary, canary'), (KVWrappedDEK, wrapped')] s = (Inr (), t)"
    using assms(3-6) m unfolding encrypt_rotate_def by (auto simp: stored_keys_def unlocked_by_def split: option.splits sum.splits if_splits prod.splits)
  have "stored_keys t mode salt' argon' canary' wrapped'"
    unfolding put_kvs_ok [OF k(2)] stored_keys_def using assms(3) by (simp add: get_kv_put stored_keys_def)
  moreover have "unlocked_by A K pass' mode salt' argon' canary' wrapped' dek c"
    using seal_keys_unlock [OF assms(1,2) m k(1)] cm by auto
  ultimately show ?thesis by blast
qed

section \<open>Any number of rotations\<close>

inductive rotated :: "aead \<Rightarrow> (bytes \<Rightarrow> bytes \<Rightarrow> bytes) \<Rightarrow> kdf \<Rightarrow> bytes \<Rightarrow> store \<Rightarrow> bytes \<Rightarrow> store \<Rightarrow> bool"
  for A hmac K p0 s0 where
  rotated_refl: "rotated A hmac K p0 s0 p0 s0"
| rotated_step: "rotated A hmac K p0 s0 p s \<Longrightarrow> good_env E \<Longrightarrow> encrypt_rotate A hmac K E (Inr p) s = (Inr (), t) \<Longrightarrow>
    ke_prompt E = Inr p' \<Longrightarrow> rotated A hmac K p0 s0 p' t"

lemma rotated_unlocks:
  assumes "rotated A hmac K p0 s0 p s" "good_keys A hmac K" "stored_keys s0 mode salt argon canary wrapped"
    "unlocked_by A K p0 mode salt argon canary wrapped dek c"
  shows "\<exists>salt argon canary wrapped. stored_keys s mode salt argon canary wrapped \<and> unlocked_by A K p mode salt argon canary wrapped dek c"
  using assms
proof (induction rule: rotated.induct)
  case rotated_refl then show ?case by blast
next
  case (rotated_step p s E t p')
  then obtain salt argon canary wrapped where "stored_keys s mode salt argon canary wrapped" "unlocked_by A K p mode salt argon canary wrapped dek c" by blast
  from rotate_unlocks [OF rotated_step.prems(1) rotated_step.hyps(2) this rotated_step.hyps(3,4)] show ?case .
qed

lemma rotate_keeps: "st_chunks (snd (encrypt_rotate A hmac K E old s)) = st_chunks s \<and> st_blobs (snd (encrypt_rotate A hmac K E old s)) = st_blobs s"
  unfolding encrypt_rotate_def by (auto simp: put_kvs_keeps [THEN conjunct1] put_kvs_keeps [THEN conjunct2]
    split: sum.splits option.splits prod.splits simp del: put_kvs.simps)

lemma rotated_keeps: "rotated A hmac K p0 s0 p s \<Longrightarrow> st_chunks s = st_chunks s0 \<and> st_blobs s = st_blobs s0"
proof (induction rule: rotated.induct)
  case (rotated_step p s E t p')
  then show ?case using rotate_keeps [of A hmac K E "Inr p" s] by simp
qed simp

text \<open>C32.  The life of the key.  After an init with a passphrase and any number of completed rotations, a
  mount with the last passphrase gets the cipher over the data key the init drew: chunks written
  before a rotation stay readable, and neither chunk rows nor the dedup index were touched.  An init
  never starts on a store with chunks, and fails on one that is encrypted already.
\<close>
theorem key_survives_rotations:
  assumes "good_keys A hmac K" "good_env E" "encrypt_init A hmac K convergent E s = (Inr (), s1)" "ke_prompt E = Inr pass"
    and "rotated A hmac K pass s1 p s2"
  shows "\<exists>dek c. ke_dek E = Some dek \<and> length dek = 32 \<and> c = (if convergent then AESGCMConvergent dek else AESGCM dek) \<and>
      load_cipher A K (Inr p) s2 = Inr c \<and> st_chunks s = [] \<and> st_chunks s2 = st_chunks s \<and> st_blobs s2 = [] \<and>
      (\<forall>E'. encrypt_init A hmac K convergent E' s2 = (Inl AlreadyEnabled, s2))"
proof -
  obtain mode salt argon canary wrapped dek c where i: "ke_dek E = Some dek" "mode = (if convergent then ModeAESGCMv3 else ModeAESGCMv2)"
      "cipher_for_mode mode dek = Inr c" "stored_keys s1 mode salt argon canary wrapped" "unlocked_by A K pass mode salt argon canary wrapped dek c"
    using init_unlocks [OF assms(1-4)] by blast
  obtain salt' argon' canary' wrapped' where r: "stored_keys s2 mode salt' argon' canary' wrapped'" "unlocked_by A K p mode salt' argon' canary' wrapped' dek c"
    using rotated_unlocks [OF assms(5,1) i(4,5)] by blast
  have c: "c = (if convergent then AESGCMConvergent dek else AESGCM dek)" "length dek = 32"
    using i(2,3) by (auto simp: cipher_for_mode_def new_aesgcm_def new_aesgcm_convergent_def split: if_splits)
  have e: "st_chunks s = []" "st_blobs s = []" using assms(3)
    by (auto simp: encrypt_init_def has_any_chunks_def count_chunk_blobs_def split: sum.splits if_splits)
  have "s1 = snd (encrypt_init A hmac K convergent E s)" using assms(3) by simp
  then have "st_chunks s1 = st_chunks s \<and> st_blobs s1 = st_blobs s" unfolding encrypt_init_def Let_def
    by (auto simp: put_kvs_keeps [THEN conjunct1] put_kvs_keeps [THEN conjunct2] split: sum.splits option.splits prod.splits simp del: put_kvs.simps)
  then have k: "st_chunks s2 = st_chunks s" "st_blobs s2 = []" using rotated_keeps [OF assms(5)] e by auto
  have "encrypt_init A hmac K convergent E' s2 = (Inl AlreadyEnabled, s2)" for E' using r(1) by (simp add: encrypt_init_def stored_keys_def)
  then show ?thesis using i(1) c load_unlocked [OF r] e k by blast
qed

section \<open>An interrupted rotation\<close>

text \<open>Big-endian numbers, as \<open>binary.BigEndian\<close> reads them.\<close>

definition be_int :: "bytes \<Rightarrow> int" where "be_int b = foldl (\<lambda>a w. 256 * a + uint w) 0 b"

lemma be_int_snoc [simp]: "be_int (b @ [w]) = 256 * be_int b + uint w"
  by (simp add: be_int_def)

lemma be_int_be_bytes: "be_int (be_bytes n x) = x mod 256 ^ n"
proof (induction n arbitrary: x)
  case 0 then show ?case by (simp add: be_int_def)
next
  case (Suc n)
  have "uint (word_of_int x :: 8 word) = x mod 256" by (simp add: uint_word_of_int)
  then show ?case using zmod_zmult2_eq [of "256 ^ n" x 256] by (simp add: Suc.IH)
qed

lemma put_kvs_4: "put_kvs (Some j) [(k1, v1), (k2, v2), (k3, v3), (k4, v4)] s = (Inl e, t) \<Longrightarrow> 0 < j \<Longrightarrow>
    j = 1 \<and> t = snd (put_kv k1 (raw v1) s) \<or> j = 2 \<and> t = snd (put_kv k2 (raw v2) (snd (put_kv k1 (raw v1) s))) \<or>
    j = 3 \<and> t = snd (put_kv k3 (raw v3) (snd (put_kv k2 (raw v2) (snd (put_kv k1 (raw v1) s)))))"
  by (cases j; cases "j - 1"; cases "j - 2"; cases "j - 3") (auto split: if_splits)

definition key_binding :: "aead \<Rightarrow> bool" where
  "key_binding A \<longleftrightarrow> (\<forall>k k' n c a. length k = 32 \<longrightarrow> length k' = 32 \<longrightarrow> ae_open A k n c a \<noteq> None \<longrightarrow> ae_open A k' n c a \<noteq> None \<longrightarrow> k = k')"

definition salts_apart :: "kdf \<Rightarrow> bytes \<Rightarrow> bytes \<Rightarrow> bool" where
  "salts_apart K salt salt' \<longleftrightarrow> (\<forall>p p' a a'. kd_derive K p salt a \<noteq> kd_derive K p' salt' a')"

lemma cannot_unwrap:
  assumes "unwrap_dek A kek w = Inr dek" "kek' \<noteq> kek" "length kek' = 32"
    and "key_binding A"
  shows "\<exists>e. unwrap_dek A kek' w = Inl e"
proof -
  have "length kek = 32" "ae_open A kek (take nonceSize w) (drop nonceSize w) dekWrapAADConstant \<noteq> None"
    using assms(1) by (auto simp: unwrap_dek_def split: if_splits option.splits)
  then have "ae_open A kek' (take nonceSize w) (drop nonceSize w) dekWrapAADConstant = None"
    using assms(2,3,4) unfolding key_binding_def by blast
  then show ?thesis using assms(3) by (simp add: unwrap_dek_def)
qed

text \<open>The writes of a rotation are separate statements, and the first one replaces the salt.  If the process
  dies after one, two or three of them, the stored wrapped key still belongs to the old salt, which
  is gone: no passphrase mounts the file system any more, and running the rotation again, whatever
  the passphrase given as the current one, fails and changes nothing.  (For a cipher that binds
  a text to its key, and a derivation without collisions between the two salts.)
\<close>
theorem interrupted_rotation_locks_out:
  assumes "good_keys A hmac K" "stored_keys s mode salt argon canary wrapped" "unlocked_by A K pass mode salt argon canary wrapped dek c"
    and "key_binding A"
    and "salts_apart K salt' salt"
    and "encrypt_rotate A hmac K E (Inr pass) s = (Inl (PersistFailed k), t)" "ke_prompt E = Inr pass'" "ke_salt E = Some salt'" "ke_cut E = Some j" "0 < j"
  shows "(\<nexists>c. load_cipher A K (Inr p) t = Inr c) \<and> (\<exists>e. encrypt_rotate A hmac K E' (Inr p) t = (Inl e, t))"
proof -
  obtain params kek where u: "kd_unmarshal K argon = Some params" "derive_key K pass salt params = Some kek" "unwrap_dek A kek wrapped = Inr dek"
      and m: "mode = ModeAESGCMv2 \<or> mode = ModeAESGCMv3" using assms(3) by (auto simp: unlocked_by_def)
  have kl: "length (kd_derive K p s a) = 32" for p s a using assms(1) by (simp add: good_keys_def kdf_laws_def)
  have g: "get_kv KVMode s = Inr mode" "get_kv KVSalt s = Inr (raw salt)" "get_kv KVArgon s = Inr (raw argon)"
      "get_kv KVCanary s = Inr (raw canary)" "get_kv KVWrappedDEK s = Inr (raw wrapped)" using assms(2) by (simp_all add: stored_keys_def)
  have sk: "seal_keys A hmac K E mode pass' salt' dek \<noteq> Inl (PersistFailed k)"
    by (auto simp: seal_keys_def cipher_for_mode_def split: option.splits sum.splits)
  obtain argon' canary' wrapped' where
    "put_kvs (Some j) [(KVSalt, salt'), (KVArgon, argon'), (KVCanary, canary'), (KVWrappedDEK, wrapped')] s = (Inl (PersistFailed k), t)"
    using assms(6-9) m g u sk unfolding encrypt_rotate_def by (auto split: sum.splits prod.splits if_splits)
  from put_kvs_4 [OF this assms(10)] have t: "get_kv KVMode t = Inr mode" "get_kv KVSalt t = Inr (raw salt')"
      "get_kv KVWrappedDEK t = Inr (raw wrapped)" by (auto simp: get_kv_put g)
  have no: "\<exists>e. unwrap_dek A kek' wrapped = Inl e" if "derive_key K p salt' a = Some kek'" for kek' a
  proof (rule cannot_unwrap [OF u(3) _ _ assms(4)])
    show "kek' \<noteq> kek" "length kek' = 32" using that u(2) assms(5) kl by (auto simp: derive_key_def salts_apart_def split: if_splits)
  qed
  have "\<nexists>c. load_cipher A K (Inr p) t = Inr c"
    using m t no by (fastforce simp: load_cipher_def split: sum.splits option.splits)
  moreover have "\<exists>e. encrypt_rotate A hmac K E' (Inr p) t = (Inl e, t)"
    using m t no by (fastforce simp: encrypt_rotate_def split: sum.splits option.splits)
  ultimately show ?thesis by blast
qed

section \<open>An instance\<close>

text \<open>A cipher whose tag holds the key, and a derivation from the first bytes of salt and passphrase.\<close>

definition keyed_tag :: "bytes \<Rightarrow> bytes \<Rightarrow> bytes \<Rightarrow> bytes" where
  "keyed_tag k n a = take 48 (k @ n @ rev a @ replicate 48 0)"

definition keyed_aead :: aead where
  "keyed_aead = \<lparr>ae_seal = \<lambda>k n p a. p @ keyed_tag k n a,
     ae_open = \<lambda>k n c a. if length c < 48 then None
       else if drop (length c - 48) c = keyed_tag k n a then Some (take (length c - 48) c) else None,
     ae_overhead = 48\<rparr>"

definition demo_kdf :: kdf where
  "demo_kdf = \<lparr>kd_marshal = \<lambda>a. ap_threads a # be_bytes 4 (uint (ap_time a)) @ be_bytes 4 (uint (ap_memory a)),
     kd_unmarshal = \<lambda>b. if length b \<noteq> 9 then None else Some \<lparr>ap_time = word_of_int (be_int (take 4 (tl b))),
        ap_memory = word_of_int (be_int (drop 4 (tl b))), ap_threads = hd b\<rparr>,
     kd_derive = \<lambda>p s a. take 32 (take 4 (s @ replicate 4 0) @ p @ replicate 32 0)\<rparr>"

lemma good_demo_keys: "good_keys keyed_aead demo_hmac demo_kdf"
proof -
  have t: "length (keyed_tag k n a) = 48" for k n a by (simp add: keyed_tag_def)
  have "aead_laws keyed_aead"
    by (auto simp: aead_laws_def keyed_aead_def t split: if_splits) (metis append_take_drop_id)
  moreover have "uint (w :: 32 word) mod 4294967296 = uint w" for w using uint_lt2p [of w] by simp
  then have "kdf_laws demo_kdf" by (auto simp: kdf_laws_def demo_kdf_def be_int_be_bytes)
  ultimately show ?thesis by (simp add: good_keys_def demo_laws)
qed

definition demo_keys :: "bytes \<Rightarrow> bytes \<Rightarrow> nat option \<Rightarrow> key_env" where
  "demo_keys pass salt die = \<lparr>ke_prompt = Inr pass, ke_salt = Some salt, ke_dek = Some demo_key,
     ke_wrap_nonce = Some (replicate 12 3), ke_canary_nonce = Some (replicate 12 4), ke_cut = die\<rparr>"

lemma good_demo_env: "good_env (demo_keys pass salt die)"
  by (simp add: good_env_def demo_keys_def good_nonce_def nonceSize_def)

definition keyed0 :: store where "keyed0 = snd (encrypt_init keyed_aead demo_hmac demo_kdf True (demo_keys [1, 2] (replicate 16 5) None) demo0)"
definition keyed1 :: store where
  "keyed1 = snd (encrypt_rotate keyed_aead demo_hmac demo_kdf (demo_keys [3] (replicate 16 6) None) (Inr [1, 2]) keyed0)"

lemma keyed0_ok: "encrypt_init keyed_aead demo_hmac demo_kdf True (demo_keys [1, 2] (replicate 16 5) None) demo0 = (Inr (), keyed0)"
proof -
  have "fst (encrypt_init keyed_aead demo_hmac demo_kdf True (demo_keys [1, 2] (replicate 16 5) None) demo0) = Inr ()" by code_simp
  then show ?thesis by (simp add: keyed0_def prod_eq_iff)
qed

lemma keyed1_ok: "encrypt_rotate keyed_aead demo_hmac demo_kdf (demo_keys [3] (replicate 16 6) None) (Inr [1, 2]) keyed0 = (Inr (), keyed1)"
proof -
  have "fst (encrypt_rotate keyed_aead demo_hmac demo_kdf (demo_keys [3] (replicate 16 6) None) (Inr [1, 2]) keyed0) = Inr ()" by code_simp
  then show ?thesis by (simp add: keyed1_def prod_eq_iff)
qed

lemma keyed1_rotated: "rotated keyed_aead demo_hmac demo_kdf [1, 2] keyed0 [3] keyed1"
  by (rule rotated_step [OF rotated_refl good_demo_env keyed1_ok]) (simp add: demo_keys_def)

theorem key_survives_rotations_witness:
  "load_cipher keyed_aead demo_kdf (Inr [3]) keyed1 = Inr (AESGCMConvergent demo_key)"
  using key_survives_rotations [OF good_demo_keys good_demo_env keyed0_ok _ keyed1_rotated] by (auto simp: demo_keys_def)

definition torn :: store where
  "torn = snd (encrypt_rotate keyed_aead demo_hmac demo_kdf (demo_keys [3] (replicate 16 6) (Some 1)) (Inr [1, 2]) keyed0)"

theorem interrupted_rotation_locks_out_witness:
  "\<not> is_ok (load_cipher keyed_aead demo_kdf (Inr [1, 2]) torn) \<and> \<not> is_ok (load_cipher keyed_aead demo_kdf (Inr [3]) torn)"
proof -
  obtain mode salt argon canary wrapped dek c where i:
      "stored_keys keyed0 mode salt argon canary wrapped" "unlocked_by keyed_aead demo_kdf [1, 2] mode salt argon canary wrapped dek c"
    using init_unlocks [OF good_demo_keys good_demo_env keyed0_ok, of "[1, 2]"] by (auto simp: demo_keys_def)
  have "get_kv KVSalt keyed0 = Inr (raw (replicate 16 5))" by code_simp
  then have "raw salt = raw (replicate 16 5)" using i(1) by (simp add: stored_keys_def)
  then have salt: "salt = replicate 16 5" by (metis ascii_raw)
  have c1: "k = k'" if "length k = 32" "length k' = 32" "ae_open keyed_aead k n c a \<noteq> None" "ae_open keyed_aead k' n c a \<noteq> None" for k k' n c a
  proof -
    have "keyed_tag k n a = keyed_tag k' n a" using that(3,4) by (auto simp: keyed_aead_def split: if_splits)
    then have "take 32 (keyed_tag k n a) = take 32 (keyed_tag k' n a)" by simp
    then show ?thesis using that(1,2) by (simp add: keyed_tag_def)
  qed
  have commit: "key_binding keyed_aead" unfolding key_binding_def using c1 by blast
  have a1: "kd_derive demo_kdf p (replicate 16 6) a \<noteq> kd_derive demo_kdf p' salt a'" for p p' a a'
  proof
    assume "kd_derive demo_kdf p (replicate 16 6) a = kd_derive demo_kdf p' salt a'"
    then have "hd (kd_derive demo_kdf p (replicate 16 6) a) = hd (kd_derive demo_kdf p' salt a')" by simp
    then show False by (simp add: demo_kdf_def salt)
  qed
  have apart: "salts_apart demo_kdf (replicate 16 6) salt" unfolding salts_apart_def using a1 by blast
  have "fst (encrypt_rotate keyed_aead demo_hmac demo_kdf (demo_keys [3] (replicate 16 6) (Some 1)) (Inr [1, 2]) keyed0) = Inl (PersistFailed KVArgon)"
    by code_simp
  then have r: "encrypt_rotate keyed_aead demo_hmac demo_kdf (demo_keys [3] (replicate 16 6) (Some 1)) (Inr [1, 2]) keyed0 = (Inl (PersistFailed KVArgon), torn)"
    by (simp add: torn_def prod_eq_iff)
  have "\<nexists>c. load_cipher keyed_aead demo_kdf (Inr p) torn = Inr c" for p
  proof -
    have "ke_prompt (demo_keys [3] (replicate 16 6) (Some 1)) = Inr [3]" "ke_salt (demo_keys [3] (replicate 16 6) (Some 1)) = Some (replicate 16 6)"
      "ke_cut (demo_keys [3] (replicate 16 6) (Some 1)) = Some 1" by (simp_all add: demo_keys_def)
    from interrupted_rotation_locks_out [OF good_demo_keys i commit apart r this zero_less_one] show ?thesis by blast
  qed
  then show ?thesis by (metis is_okE)
qed

end
