(* ===== verification/Envelope.thy ===== *)
theory Envelope
  imports Keys
begin

text \<open>
  Encrypted snapshots: the envelope of \<open>internal/snapshot/envelope.go\<close> and \<open>maybeUnwrapEncrypted\<close> of
  \<open>cmd/telfs/main.go\<close>, with \<open>loadWrapOpts\<close> of \<open>manager.go\<close>.  The JSON of the header is a pair of functions.
\<close>

section \<open>Format\<close>

definition envelopeMagic :: bytes where "envelopeMagic = ascii ''TFSE''"
definition envelopeVersion :: "8 word" where "envelopeVersion = 1"

record env_header =
  eh_mode :: string
  eh_salt :: bytes
  eh_argon :: bytes
  eh_canary :: bytes
  eh_wrapped :: bytes

record header_json =
  hj_marshal :: "env_header \<Rightarrow> bytes option"
  hj_unmarshal :: "bytes \<Rightarrow> env_header option"

definition wrap :: "header_json \<Rightarrow> (bytes \<Rightarrow> crypto_err + bytes) \<Rightarrow> env_header \<Rightarrow> bytes \<Rightarrow> key_err + bytes" where
  "wrap J seal opts plaintext =
     (let hdr = (if eh_mode opts = '''' then opts\<lparr>eh_mode := ModeAESGCMv1\<rparr> else opts) in
      case hj_marshal J hdr of
        None \<Rightarrow> Inl (EnvelopeErr ''encode envelope header'')
      | Some hdr_bytes \<Rightarrow>
          if blen hdr_bytes > 65535 then Inl (EnvelopeErr ''envelope header too large'')
          else (case seal plaintext of
              Inl e \<Rightarrow> Inl (BodyErr e)
            | Inr body \<Rightarrow> Inr (envelopeMagic @ [envelopeVersion] @ be_bytes 2 (blen hdr_bytes) @ hdr_bytes @ body)))"

definition is_wrapped :: "bytes \<Rightarrow> bool" where
  "is_wrapped b = (length b \<ge> 4 \<and> take 4 b = envelopeMagic)"

definition unwrap :: "header_json \<Rightarrow> bytes \<Rightarrow> key_err + (env_header \<times> bytes)" where
  "unwrap J b =
     (if \<not> is_wrapped b then Inl (EnvelopeErr ''snapshot: not a wrapped envelope'')
      else if length b < 7 then Inl (EnvelopeErr ''snapshot: envelope too short'')
      else if b ! 4 \<noteq> envelopeVersion then Inl (EnvelopeErr ''snapshot: unsupported envelope version'')
      else
        (let hdr_len = nat (be_int (take 2 (drop 5 b))) in
         if 7 + hdr_len > length b then Inl (EnvelopeErr ''snapshot: envelope truncated'')
         else (case hj_unmarshal J (take hdr_len (drop 7 b)) of
             None \<Rightarrow> Inl (EnvelopeErr ''snapshot: bad header'')
           | Some hdr \<Rightarrow> Inr (hdr, drop (7 + hdr_len) b))))"

definition envelope_mode :: "header_json \<Rightarrow> bytes \<Rightarrow> string" where
  "envelope_mode J b =
     (if \<not> is_wrapped b then '''' else (case unwrap J b of Inl _ \<Rightarrow> '''' | Inr (hdr, _) \<Rightarrow> eh_mode hdr))"

definition envelope_kdf_params :: "header_json \<Rightarrow> bytes \<Rightarrow> key_err + (bytes \<times> bytes \<times> bytes)" where
  "envelope_kdf_params J b = (case unwrap J b of Inl e \<Rightarrow> Inl e | Inr (hdr, _) \<Rightarrow> Inr (eh_salt hdr, eh_argon hdr, eh_canary hdr))"

definition unwrap_body :: "header_json \<Rightarrow> bytes \<Rightarrow> key_err + bytes" where
  "unwrap_body J b = (case unwrap J b of Inl e \<Rightarrow> Inl e | Inr (_, body) \<Rightarrow> Inr body)"

definition unwrap_header_and_body :: "header_json \<Rightarrow> bytes \<Rightarrow> key_err + (env_header \<times> bytes)" where
  "unwrap_header_and_body J b = (case unwrap J b of Inl e \<Rightarrow> Inl e | Inr r \<Rightarrow> Inr r)"

section \<open>Writing and opening a snapshot\<close>

definition load_wrap_opts :: "store \<Rightarrow> key_err + env_header" where
  "load_wrap_opts s =
     (case get_kv KVMode s of
        Inl e \<Rightarrow> Inl (if e = ErrNotFound then EnvelopeErr ''crypto_mode missing'' else KeyMeta e)
      | Inr mode \<Rightarrow> (case get_kv KVSalt s of
        Inl e \<Rightarrow> Inl (if e = ErrNotFound then EnvelopeErr ''crypto_salt missing'' else KeyMeta e)
      | Inr salt \<Rightarrow> (case get_kv KVArgon s of
        Inl e \<Rightarrow> Inl (KeyMeta e)
      | Inr argon \<Rightarrow> (case get_kv KVCanary s of
        Inl e \<Rightarrow> Inl (KeyMeta e)
      | Inr canary \<Rightarrow>
          (let opts = \<lparr>eh_mode = mode, eh_salt = ascii salt, eh_argon = ascii argon, eh_canary = ascii canary, eh_wrapped = []\<rparr> in
           if mode = ModeAESGCMv2 \<or> mode = ModeAESGCMv3 then
             (case get_kv KVWrappedDEK s of
                Inl e \<Rightarrow> Inl (KeyMeta e)
              | Inr wrapped \<Rightarrow> Inr (opts\<lparr>eh_wrapped := ascii wrapped\<rparr>))
           else Inr opts)))))"

definition should_encrypt :: "cipher option \<Rightarrow> bool" where
  "should_encrypt c = (case c of None \<Rightarrow> False | Some NoopCipher \<Rightarrow> False | Some _ \<Rightarrow> True)"

text \<open>The part of \<open>Manager.Once\<close> between the copy of the database and the upload.\<close>

definition snapshot_body :: "aead \<Rightarrow> (bytes \<Rightarrow> bytes \<Rightarrow> bytes) \<Rightarrow> header_json \<Rightarrow> bytes option \<Rightarrow> cipher option \<Rightarrow> store \<Rightarrow> bytes
    \<Rightarrow> key_err + bytes" where
  "snapshot_body A hmac J rnd c s gz =
     (case c of
        Some k \<Rightarrow> if should_encrypt c then
            (case load_wrap_opts s of Inl e \<Rightarrow> Inl e | Inr opts \<Rightarrow> wrap J (cipher_seal A hmac rnd k 0 (- 1)) opts gz)
          else Inr gz
      | None \<Rightarrow> Inr gz)"

definition maybe_unwrap_encrypted :: "aead \<Rightarrow> kdf \<Rightarrow> header_json \<Rightarrow> key_err + bytes \<Rightarrow> bytes \<Rightarrow> key_err + bytes" where
  "maybe_unwrap_encrypted A K J ask data =
     (if \<not> is_wrapped data then Inr data
      else (case unwrap_header_and_body J data of
        Inl e \<Rightarrow> Inl e
      | Inr (hdr, body) \<Rightarrow> (case kd_unmarshal K (eh_argon hdr) of
        None \<Rightarrow> Inl KeyArgon
      | Some params \<Rightarrow> (case ask of
        Inl e \<Rightarrow> Inl e
      | Inr pass \<Rightarrow> (case derive_key K pass (eh_salt hdr) params of
        None \<Rightarrow> Inl KdfPanic
      | Some derived \<Rightarrow>
          (case (if eh_mode hdr = '''' \<or> eh_mode hdr = ModeAESGCMv1 then
                   (case new_aesgcm derived of Inl e \<Rightarrow> Inl (KeyCrypto e) | Inr c \<Rightarrow> Inr c)
                 else if eh_mode hdr = ModeAESGCMv2 \<or> eh_mode hdr = ModeAESGCMv3 then
                   (if eh_wrapped hdr = [] then Inl (WrappedMissing (eh_mode hdr))
                    else (case unwrap_dek A derived (eh_wrapped hdr) of
                        Inl e \<Rightarrow> Inl (KeyCrypto e)
                      | Inr dek \<Rightarrow> cipher_for_mode (eh_mode hdr) dek))
                 else Inl (KeyMode (eh_mode hdr))) of
             Inl e \<Rightarrow> Inl e
           | Inr c \<Rightarrow> (case check_canary A c (eh_canary hdr) of
             Inl e \<Rightarrow> Inl e
           | Inr c \<Rightarrow> (case cipher_open A c 0 (- 1) body of Inl e \<Rightarrow> Inl (BodyErr e) | Inr pt \<Rightarrow> Inr pt))))))))"

section \<open>The format decides\<close>

lemma magic_length [simp]: "length envelopeMagic = 4"
  by (simp add: envelopeMagic_def ascii_def)

lemma nat_be_int [simp]: "blen b \<le> 65535 \<Longrightarrow> nat (be_int (be_bytes 2 (blen b))) = length b"
  by (simp add: be_int_be_bytes blen_def)

lemma be_int_bound: "0 \<le> be_int b \<and> be_int b < 256 ^ length b"
proof (induction b rule: rev_induct)
  case Nil then show ?case by (simp add: be_int_def)
next
  case (snoc w b)
  have "uint w < 256" using uint_lt2p [of w] by simp
  then show ?case using snoc by simp
qed

lemma be_bytes_be_int: "be_bytes (length b) (be_int b) = b"
proof (induction b rule: rev_induct)
  case Nil then show ?case by simp
next
  case (snoc w b)
  have u: "0 \<le> uint w" "uint w < 256" using uint_lt2p [of w] by simp_all
  then have "(256 * be_int b + uint w) div 256 = be_int b" "word_of_int (256 * be_int b + uint w) = w"
    using word_of_int_mod [of "256 * be_int b + uint w" "uint w"] by simp_all
  then show ?case using snoc by simp
qed

lemma unwrapI:
  assumes "blen hb \<le> 65535" "hj_unmarshal J hb = Some h"
  shows "unwrap J (envelopeMagic @ [envelopeVersion] @ be_bytes 2 (blen hb) @ hb @ body) = Inr (h, body)"
proof -
  let ?b = "envelopeMagic @ [envelopeVersion] @ be_bytes 2 (blen hb) @ hb @ body"
  have "take 2 (drop 5 ?b) = be_bytes 2 (blen hb)" "drop 7 ?b = hb @ body" "?b ! 4 = envelopeVersion"
    by (simp_all add: nth_append)
  moreover from this(2) have "drop (7 + length hb) ?b = body" using drop_drop [of "length hb" 7 ?b] by (simp add: add.commute)
  ultimately show ?thesis using assms by (simp add: unwrap_def is_wrapped_def Let_def)
qed

lemma cut_at: "drop m b = take n (drop m b) @ drop (m + n) b"
  by (metis append_take_drop_id drop_drop add.commute)

lemma unwrapD:
  assumes "unwrap J b = Inr (h, body)"
  shows "\<exists>hb. b = envelopeMagic @ [envelopeVersion] @ be_bytes 2 (blen hb) @ hb @ body \<and> blen hb \<le> 65535 \<and> hj_unmarshal J hb = Some h"
proof -
  define n where "n = nat (be_int (take 2 (drop 5 b)))"
  define hb where "hb = take n (drop 7 b)"
  have u: "take 4 b = envelopeMagic" "7 \<le> length b" "b ! 4 = envelopeVersion" "7 + n \<le> length b" "hj_unmarshal J hb = Some h" "body = drop (7 + n) b"
    using assms by (auto simp: unwrap_def is_wrapped_def Let_def n_def hb_def split: if_splits option.splits)
  have l2: "length (take 2 (drop 5 b)) = 2" using u(2) by simp
  have n: "int n = be_int (take 2 (drop 5 b))" "int n < 65536" using be_int_bound [of "take 2 (drop 5 b)"] l2 by (simp_all add: n_def)
  have hb: "blen hb = int n" using u(4) by (simp add: hb_def blen_def)
  have len: "be_bytes 2 (blen hb) = take 2 (drop 5 b)" using be_bytes_be_int [of "take 2 (drop 5 b)"] l2 n(1) hb by simp
  have "b = take 4 b @ drop 4 b" by simp
  also have "drop 4 b = [b ! 4] @ drop 5 b" using u(2) Cons_nth_drop_Suc [of 4 b] by simp
  also have "drop 5 b = take 2 (drop 5 b) @ drop 7 b" using cut_at [of 5 b 2] by simp
  also have "drop 7 b = hb @ body" using cut_at [of 7 b n] by (simp add: hb_def u(6))
  finally show ?thesis using u(1,3,5) n hb len by (intro exI [of _ hb]) simp
qed

text \<open>What the recovery takes for an encrypted snapshot.  A blob parses exactly when it is the magic, the
  version byte, the two-byte length of the header, a header that decodes, and the rest, which is
  the body: a truncated or foreign blob is an error, and no byte is skipped or read twice.
\<close>
theorem envelope_format:
  "unwrap J b = Inr (h, body) \<longleftrightarrow>
     (\<exists>hb. b = envelopeMagic @ [envelopeVersion] @ be_bytes 2 (blen hb) @ hb @ body \<and> blen hb \<le> 65535 \<and> hj_unmarshal J hb = Some h)"
  using unwrapI unwrapD by metis

section \<open>Snapshots carry their own key\<close>

definition json_laws :: "header_json \<Rightarrow> kdf \<Rightarrow> bool" where
  "json_laws J K \<longleftrightarrow> (\<forall>h hb. hj_marshal J h = Some hb \<and> eh_mode h \<in> {ModeAESGCMv1, ModeAESGCMv2, ModeAESGCMv3} \<longrightarrow>
     (\<exists>a. hj_unmarshal J hb = Some (h\<lparr>eh_argon := a\<rparr>) \<and> kd_unmarshal K a = kd_unmarshal K (eh_argon h)))"

lemma wrap_unwraps:
  assumes "json_laws J K" "wrap J seal opts gz = Inr b" "eh_mode opts \<in> {ModeAESGCMv1, ModeAESGCMv2, ModeAESGCMv3}"
  shows "\<exists>a body. is_wrapped b \<and> unwrap J b = Inr (opts\<lparr>eh_argon := a\<rparr>, body) \<and> kd_unmarshal K a = kd_unmarshal K (eh_argon opts) \<and> seal gz = Inr body"
proof -
  have m: "eh_mode opts \<noteq> ''''" using assms(3) by (auto simp: ModeAESGCMv1_def ModeAESGCMv2_def ModeAESGCMv3_def)
  obtain hb body where w: "hj_marshal J opts = Some hb" "blen hb \<le> 65535" "seal gz = Inr body"
      "b = envelopeMagic @ [envelopeVersion] @ be_bytes 2 (blen hb) @ hb @ body"
    using assms(2) m by (auto simp: wrap_def Let_def split: option.splits if_splits sum.splits)
  obtain a where a: "hj_unmarshal J hb = Some (opts\<lparr>eh_argon := a\<rparr>)" "kd_unmarshal K a = kd_unmarshal K (eh_argon opts)"
    using assms(1,3) w(1) unfolding json_laws_def by blast
  have "is_wrapped b" by (simp add: w(4) is_wrapped_def)
  then show ?thesis using w(3) a(2) unwrapI [OF w(2) a(1)] unfolding w(4) by blast
qed

text \<open>What a mount that got its cipher tells of the stored keys.\<close>

lemma load_cipher_keys:
  assumes "load_cipher A K (Inr p) s = Inr c" "c \<noteq> NoopCipher"
  obtains mode salt argon canary params kek where
    "get_kv KVMode s = Inr mode" "get_kv KVSalt s = Inr (raw salt)" "get_kv KVArgon s = Inr (raw argon)" "get_kv KVCanary s = Inr (raw canary)"
    "kd_unmarshal K argon = Some params" "derive_key K p salt params = Some kek" "verify_canary A c canary = Inr ()"
    "mode = ModeAESGCMv1 \<and> new_aesgcm kek = Inr c \<or>
     (mode = ModeAESGCMv2 \<or> mode = ModeAESGCMv3) \<and> (\<exists>wrapped dek. get_kv KVWrappedDEK s = Inr (raw wrapped) \<and>
        unwrap_dek A kek wrapped = Inr dek \<and> cipher_for_mode mode dek = Inr c)"
proof -
  obtain mode salt argon canary params kek where g: "get_kv KVMode s = Inr mode" "get_kv KVSalt s = Inr salt" "get_kv KVArgon s = Inr argon"
      "get_kv KVCanary s = Inr canary" "kd_unmarshal K (ascii argon) = Some params" "derive_key K p (ascii salt) params = Some kek"
    using assms by (auto simp: load_cipher_def split: sum.splits option.splits if_splits)
  have "verify_canary A c (ascii canary) = Inr () \<and>
    (mode = ModeAESGCMv1 \<and> new_aesgcm kek = Inr c \<or>
     (mode = ModeAESGCMv2 \<or> mode = ModeAESGCMv3) \<and> (\<exists>wrapped dek. get_kv KVWrappedDEK s = Inr (raw (ascii wrapped)) \<and>
        unwrap_dek A kek (ascii wrapped) = Inr dek \<and> cipher_for_mode mode dek = Inr c))"
    using assms(1) g by (auto simp: load_cipher_def check_canary_def split: sum.splits if_splits)
  moreover have "get_kv KVSalt s = Inr (raw (ascii salt))" "get_kv KVArgon s = Inr (raw (ascii argon))" "get_kv KVCanary s = Inr (raw (ascii canary))"
    using g by simp_all
  ultimately show ?thesis using that [of mode "ascii salt" "ascii argon" "ascii canary" params kek] g by blast
qed

lemma unwrap_dek_nonempty: "unwrap_dek A kek w = Inr dek \<Longrightarrow> w \<noteq> []"
  by (auto simp: unwrap_dek_def nonceSize_def split: if_splits)

text \<open>The header a snapshot carries, and how it opens.\<close>

lemma snapshot_header:
  assumes "json_laws J K" "load_cipher A K (Inr p) s = Inr c" "c \<noteq> NoopCipher" "snapshot_body A hmac J rnd (Some c) s gz = Inr data"
  obtains h body params kek where "is_wrapped data" "unwrap J data = Inr (h, body)" "cipher_seal A hmac rnd c 0 (- 1) gz = Inr body"
    "kd_unmarshal K (eh_argon h) = Some params" "derive_key K p (eh_salt h) params = Some kek" "verify_canary A c (eh_canary h) = Inr ()"
    "eh_mode h = ModeAESGCMv1 \<and> new_aesgcm kek = Inr c \<or>
     (eh_mode h = ModeAESGCMv2 \<or> eh_mode h = ModeAESGCMv3) \<and> (\<exists>dek. unwrap_dek A kek (eh_wrapped h) = Inr dek \<and> cipher_for_mode (eh_mode h) dek = Inr c)"
proof -
  have e: "should_encrypt (Some c)" using assms(3) by (cases c) (simp_all add: should_encrypt_def)
  obtain mode salt argon canary params kek where k:
    "get_kv KVMode s = Inr mode" "get_kv KVSalt s = Inr (raw salt)" "get_kv KVArgon s = Inr (raw argon)" "get_kv KVCanary s = Inr (raw canary)"
    "kd_unmarshal K argon = Some params" "derive_key K p salt params = Some kek" "verify_canary A c canary = Inr ()"
    "mode = ModeAESGCMv1 \<and> new_aesgcm kek = Inr c \<or>
     (mode = ModeAESGCMv2 \<or> mode = ModeAESGCMv3) \<and> (\<exists>wrapped dek. get_kv KVWrappedDEK s = Inr (raw wrapped) \<and>
        unwrap_dek A kek wrapped = Inr dek \<and> cipher_for_mode mode dek = Inr c)"
    using load_cipher_keys [OF assms(2,3)] by blast
  then obtain wrapped where o: "load_wrap_opts s = Inr \<lparr>eh_mode = mode, eh_salt = salt, eh_argon = argon, eh_canary = canary, eh_wrapped = wrapped\<rparr>"
    "mode \<noteq> ModeAESGCMv1 \<Longrightarrow> \<exists>dek. unwrap_dek A kek wrapped = Inr dek \<and> cipher_for_mode mode dek = Inr c"
    by (auto simp: load_wrap_opts_def Let_def)
  then have w: "wrap J (cipher_seal A hmac rnd c 0 (- 1)) \<lparr>eh_mode = mode, eh_salt = salt, eh_argon = argon, eh_canary = canary, eh_wrapped = wrapped\<rparr> gz = Inr data"
    using assms(4) e by (simp add: snapshot_body_def)
  have m: "mode \<in> {ModeAESGCMv1, ModeAESGCMv2, ModeAESGCMv3}" using k(8) by auto
  obtain a body where "is_wrapped data"
      "unwrap J data = Inr (\<lparr>eh_mode = mode, eh_salt = salt, eh_argon = a, eh_canary = canary, eh_wrapped = wrapped\<rparr>, body)"
      "kd_unmarshal K a = kd_unmarshal K argon" "cipher_seal A hmac rnd c 0 (- 1) gz = Inr body"
    using wrap_unwraps [OF assms(1) w] m by auto
  then show ?thesis
    using that [of "\<lparr>eh_mode = mode, eh_salt = salt, eh_argon = a, eh_canary = canary, eh_wrapped = wrapped\<rparr>" body params kek] k o(2) by auto
qed

lemma snapshot_opens:
  assumes "good_keys A hmac K" "json_laws J K" "good_nonce rnd" "load_cipher A K (Inr p) s = Inr c"
    and "snapshot_body A hmac J rnd (Some c) s gz = Inr data" "\<not> is_wrapped gz"
  shows "maybe_unwrap_encrypted A K J (Inr p) data = Inr gz"
proof (cases "c = NoopCipher")
  case True
  then show ?thesis using assms(5,6) by (simp add: snapshot_body_def should_encrypt_def maybe_unwrap_encrypted_def)
next
  case False
  obtain h body params kek where x: "is_wrapped data" "unwrap J data = Inr (h, body)" "cipher_seal A hmac rnd c 0 (- 1) gz = Inr body"
    "kd_unmarshal K (eh_argon h) = Some params" "derive_key K p (eh_salt h) params = Some kek" "verify_canary A c (eh_canary h) = Inr ()"
    "eh_mode h = ModeAESGCMv1 \<and> new_aesgcm kek = Inr c \<or>
     (eh_mode h = ModeAESGCMv2 \<or> eh_mode h = ModeAESGCMv3) \<and> (\<exists>dek. unwrap_dek A kek (eh_wrapped h) = Inr dek \<and> cipher_for_mode (eh_mode h) dek = Inr c)"
    using snapshot_header [OF assms(2,4) False assms(5)] by blast
  have o: "cipher_open A c 0 (- 1) body = Inr gz"
    using payload_layer.decode_encode [OF cipher_layer [OF _ _ assms(3)] x(3)] assms(1) by (simp add: good_keys_def)
  have n: "eh_mode h \<noteq> ''''" using x(7) by (auto simp: ModeAESGCMv2_def ModeAESGCMv3_def ModeAESGCMv1_def)
  show ?thesis
  proof (cases "eh_mode h = ModeAESGCMv1")
    case True then show ?thesis using x o by (auto simp: maybe_unwrap_encrypted_def unwrap_header_and_body_def check_canary_def)
  next
    case False
    then obtain dek where "unwrap_dek A kek (eh_wrapped h) = Inr dek" "cipher_for_mode (eh_mode h) dek = Inr c" "eh_wrapped h \<noteq> []"
      "eh_mode h = ModeAESGCMv2 \<or> eh_mode h = ModeAESGCMv3" using x(7) unwrap_dek_nonempty by blast
    then show ?thesis using x o n False by (simp add: maybe_unwrap_encrypted_def unwrap_header_and_body_def check_canary_def)
  qed
qed

lemma canary_refuses:
  assumes "key_binding A" "length k = 32" "length k' = 32" "k \<noteq> k'" "verify_canary A (AESGCM k) w = Inr ()"
  shows "\<exists>e. verify_canary A (AESGCM k') w = Inl e"
proof -
  have "ae_open A k (take nonceSize w) (drop nonceSize w) (makeAAD 0 0) \<noteq> None"
    using assms(5) by (auto simp: verify_canary_def cipher_open_def split: if_splits option.splits)
  then have "ae_open A k' (take nonceSize w) (drop nonceSize w) (makeAAD 0 0) = None"
    using assms(1-4) unfolding key_binding_def by blast
  then show ?thesis by (simp add: verify_canary_def cipher_open_def)
qed


text \<open>An instance of the header's encoding: five fields with their lengths.\<close>

definition put_field :: "bytes \<Rightarrow> bytes" where "put_field b = be_bytes 2 (blen b) @ b"

definition get_field :: "bytes \<Rightarrow> bytes \<times> bytes" where
  "get_field b = (let n = nat (be_int (take 2 b)) in (take n (drop 2 b), drop n (drop 2 b)))"

lemma get_put_field: "blen b \<le> 65535 \<Longrightarrow> get_field (put_field b @ r) = (b, r)"
  by (simp add: get_field_def put_field_def Let_def)

definition demo_json :: header_json where
  "demo_json = \<lparr>hj_marshal = \<lambda>h. if blen (ascii (eh_mode h)) \<le> 65535 \<and> blen (eh_salt h) \<le> 65535 \<and> blen (eh_argon h) \<le> 65535 \<and>
        blen (eh_canary h) \<le> 65535 \<and> blen (eh_wrapped h) \<le> 65535
      then Some (put_field (ascii (eh_mode h)) @ put_field (eh_salt h) @ put_field (eh_argon h) @ put_field (eh_canary h) @ put_field (eh_wrapped h))
      else None,
    hj_unmarshal = \<lambda>b. case get_field b of (m, b) \<Rightarrow> case get_field b of (s, b) \<Rightarrow> case get_field b of (a, b) \<Rightarrow>
      case get_field b of (c, b) \<Rightarrow> case get_field b of (w, b) \<Rightarrow>
        Some \<lparr>eh_mode = raw m, eh_salt = s, eh_argon = a, eh_canary = c, eh_wrapped = w\<rparr>\<rparr>"

lemma demo_json_laws: "json_laws demo_json K"
  unfolding json_laws_def
proof (intro allI impI)
  fix h hb assume "hj_marshal demo_json h = Some hb \<and> eh_mode h \<in> {ModeAESGCMv1, ModeAESGCMv2, ModeAESGCMv3}"
  moreover have "get_field (put_field (eh_wrapped h)) = (eh_wrapped h, [])" if "blen (eh_wrapped h) \<le> 65535"
    using get_put_field [OF that, of "[]"] by simp
  ultimately have "hj_unmarshal demo_json hb = Some (h\<lparr>eh_argon := eh_argon h\<rparr>)"
    by (auto simp: demo_json_def get_put_field split: if_splits)
  then show "\<exists>a. hj_unmarshal demo_json hb = Some (h\<lparr>eh_argon := a\<rparr>) \<and> kd_unmarshal K a = kd_unmarshal K (eh_argon h)" by blast
qed


end
