(* ===== verification/ReplayTwice.thy ===== *)
theory ReplayTwice
  imports ReplaySim
begin

text \<open>
  Replaying a journal in which ops are repeated.  The poster may post an op twice, and the recovery
  does not remove the duplicates: it sorts by sequence number and replays everything.  The contract
  that makes this harmless is a locale: an op that succeeded changes nothing when it is applied
  again, and stores that agree take the same step.  Its interpretation is \<open>ReplayOp\<close>.
\<close>

section \<open>Logs whose ops may be repeated\<close>

locale repeatable_log =
  fixes apply_op :: "'op \<Rightarrow> 's \<Rightarrow> ('e + unit) \<times> 's"
    and agree :: "'s \<Rightarrow> 's \<Rightarrow> bool"
    and inv :: "'s \<Rightarrow> bool"
    and good :: "'op \<Rightarrow> bool"
  assumes agree_refl: "agree s s"
    and agree_sym: "agree s t \<Longrightarrow> agree t s"
    and agree_trans: "agree s t \<Longrightarrow> agree t u \<Longrightarrow> agree s u"
    and apply_inv: "inv s \<Longrightarrow> good x \<Longrightarrow> inv (snd (apply_op x s))"
    and apply_cong: "agree s t \<Longrightarrow> good x \<Longrightarrow>
      fst (apply_op x s) = fst (apply_op x t) \<and> agree (snd (apply_op x s)) (snd (apply_op x t))"
    and apply_again: "inv s \<Longrightarrow> good x \<Longrightarrow> fst (apply_op x s) = Inr () \<Longrightarrow>
      fst (apply_op x (snd (apply_op x s))) = Inr () \<and> agree (snd (apply_op x (snd (apply_op x s)))) (snd (apply_op x s))"
begin

fun run :: "'op list \<Rightarrow> 's \<Rightarrow> ('e + unit) \<times> 's" where
  "run [] s = (Inr (), s)"
| "run (x # xs) s = (case apply_op x s of (Inl e, t) \<Rightarrow> (Inl e, t) | (Inr _, t) \<Rightarrow> run xs t)"

abbreviation same :: "('e + unit) \<times> 's \<Rightarrow> ('e + unit) \<times> 's \<Rightarrow> bool" where
  "same r q \<equiv> fst r = fst q \<and> agree (snd r) (snd q)"

lemma run_cong: "agree s t \<Longrightarrow> \<forall>x\<in>set xs. good x \<Longrightarrow> same (run xs s) (run xs t)"
proof (induction xs arbitrary: s t)
  case (Cons x xs)
  obtain r s' q t' where "apply_op x s = (r, s')" "apply_op x t = (q, t')" by (cases "apply_op x s"; cases "apply_op x t")
  moreover have "good x" using Cons.prems(2) by simp
  ultimately show ?case using apply_cong [OF Cons.prems(1), of x] Cons.IH [of s' t'] Cons.prems(2)
    by (cases r) auto
qed (simp add: agree_refl)

lemma run_again:
  assumes "inv s" "\<forall>y\<in>set (x # xs). good y"
  shows "same (run (x # x # xs) s) (run (x # xs) s)"
proof (cases "fst (apply_op x s)")
  case (Inl e)
  then show ?thesis by (cases "apply_op x s") (simp add: agree_refl)
next
  case (Inr u)
  obtain s' where s': "apply_op x s = (Inr (), s')" using Inr by (cases "apply_op x s") simp
  then have "fst (apply_op x s') = Inr ()" "agree (snd (apply_op x s')) s'"
    using apply_again [OF assms(1), of x] assms(2) by simp_all
  then obtain t where "apply_op x s' = (Inr (), t)" "agree t s'" by (cases "apply_op x s'") simp
  then show ?thesis using s' run_cong [of t s' xs] assms(2) by simp
qed

text \<open>Ops repeated next to each other, told apart by a key, count once.\<close>

lemma run_remdups:
  "inv s \<Longrightarrow> \<forall>x\<in>f ` set xs. good x \<Longrightarrow> same (run (map f xs) s) (run (map f (remdups_adj xs)) s)"
proof (induction xs arbitrary: s rule: remdups_adj.induct)
  case (3 x y xs)
  have next_ok: "inv (snd (apply_op (f x) s))" using 3(3,4) by (auto intro: apply_inv)
  show ?case
  proof (cases "x = y")
    case True
    have "same (run (map f (x # y # xs)) s) (run (map f (x # xs)) s)"
      using run_again [of s "f x" "map f xs"] 3(3,4) True by simp
    moreover have "same (run (map f (x # xs)) s) (run (map f (remdups_adj (x # xs))) s)"
      using 3(1) [OF True 3(3)] 3(4) True by simp
    moreover have eq: "remdups_adj (x # y # xs) = remdups_adj (x # xs)" using True by simp
    ultimately show ?thesis unfolding eq by (auto intro: agree_trans)
  next
    case False
    show ?thesis
    proof (cases "fst (apply_op (f x) s)")
      case (Inl e)
      then show ?thesis using False by (cases "apply_op (f x) s") (simp add: agree_refl)
    next
      case (Inr u)
      then show ?thesis using 3(2) [OF False next_ok] 3(4) False by (cases "apply_op (f x) s") simp
    qed
  qed
qed (auto simp: agree_refl split: prod.splits sum.splits)

end

section \<open>Stores that agree take the same step\<close>

definition same_res :: "(meta_err + 'a) \<times> store \<Rightarrow> (meta_err + 'a) \<times> store \<Rightarrow> bool" where
  "same_res r q \<longleftrightarrow> fst r = fst q \<and> er (snd r) = er (snd q)"

lemma with_tx_er:
  assumes "\<And>s. erf (f s) = erf (f (er s))" and "er s = er t"
  shows "same_res (with_tx f s) (with_tx f t)"
proof -
  have "erf (f s) = erf (f t)" using assms by metis
  from erf_eq_cases [OF this] show ?thesis using assms(2) by (auto simp: with_tx_def same_res_def)
qed

lemma create_child_at_tx_er: "erf (create_child_at_tx p n c i s) = erf (create_child_at_tx p n c i (er s))"
proof -
  have row: "erf (case insert_dirent p n i (s\<lparr>st_inodes := st_inodes s @ [r], st_ino_seq := q\<rparr>) of Inl e \<Rightarrow> Inl e | Inr s2 \<Rightarrow> Inr ((), s2))
    = erf (case insert_dirent p n i ((er s)\<lparr>st_inodes := st_inodes (er s) @ [r], st_ino_seq := q\<rparr>) of Inl e \<Rightarrow> Inl e | Inr s2 \<Rightarrow> Inr ((), s2))" for r q
    by (auto simp: insert_dirent_def er_iff has_inode_def row_at_erase row_at_append split: option.splits)
  show ?thesis
    by (cases "get_inode p s"; cases "lookup p n s"; cases "get_inode i s") (simp_all add: create_child_at_tx_def Let_def row)
qed

definition sparse_tx :: "int \<Rightarrow> store \<Rightarrow> meta_err + (unit \<times> store)" where
  "sparse_tx i s = (let s1 = upd_inode i (\<lambda>i. i\<lparr>i_sparse := True\<rparr>) s in
     if inode_rows i s = 0 then Inl ErrNotFound
     else Inr ((), append_journal_tx ((zero_op OpSetSparse)\<lparr>jo_ino := i, jo_sparse := True\<rparr>) s1))"

lemma set_inode_sparse_tx: "set_inode_sparse i = with_tx (sparse_tx i)"
  by (simp add: set_inode_sparse_def sparse_tx_def [abs_def])

lemma cnt_where_erase: "cnt_where (\<lambda>j. i_ino j = i) (map erase_times I) = cnt_where (\<lambda>j. i_ino j = i) I"
  by (simp add: cnt_where_def filter_map o_def)

lemma sparse_tx_er: "erf (sparse_tx i s) = erf (sparse_tx i (er s))"
  using er_upd_inode [of i "\<lambda>i. i\<lparr>i_sparse := True\<rparr>" "\<lambda>i. i\<lparr>i_sparse := True\<rparr>" s]
  by (simp add: sparse_tx_def cnt_where_erase Let_def erase_times_def)

lemma set_size_er:
  assumes "er s = er t"
  shows "same_res (set_size now i z s) (set_size now i z t)"
proof -
  have "has_inode s i = has_inode t i" using has_inode_er [of s i] has_inode_er [of t i] assms by simp
  moreover have "er (upd_inode i (apply_patch now (size_patch now z)) s) = er (upd_inode i (apply_patch now (size_patch now z)) t)"
    using assms er_upd_inode [of i "apply_patch now (size_patch now z)" "apply_patch now (size_patch now z)" s]
      er_upd_inode [of i "apply_patch now (size_patch now z)" "apply_patch now (size_patch now z)" t]
    by (simp add: apply_patch_def size_patch_def opt_set_def erase_times_def)
  ultimately show ?thesis by (simp add: set_size_closed same_res_def)
qed

text \<open>A journaled op; the ones without an inode number are of an older format.\<close>

definition numbered :: "journal_op \<Rightarrow> bool" where
  "numbered op \<longleftrightarrow> (jo_op op = OpCreateChild \<longrightarrow> 0 < jo_ino op)"

lemma tolerate_er: "same_res r q \<Longrightarrow> same_res (tolerate e r) (tolerate e q)"
  by (cases r; cases q) (auto simp: tolerate_def same_res_def split: sum.splits)

lemma rename_er:
  assumes "er s = er t"
  shows "same_res (rename a b c d s) (rename a b c d t)"
  using with_tx_er [where f = "rename_tx a b c d", OF rename_tx_er assms] assms by (simp add: rename_def same_res_def)

lemma op_er:
  assumes "er s = er t"
  shows "same_res (create_child_at p n c i s) (create_child_at p n c i t)" "same_res (link p n i s) (link p n i t)"
    "same_res (unlink p n s) (unlink p n t)" "same_res (set_inode_sparse i s) (set_inode_sparse i t)"
  using with_tx_er [where f = "create_child_at_tx p n c i", OF create_child_at_tx_er assms]
    with_tx_er [where f = "link_tx p n i", OF link_tx_er assms] with_tx_er [where f = "unlink_tx p n", OF unlink_tx_er assms]
    with_tx_er [where f = "sparse_tx i", OF sparse_tx_er assms]
  by (simp_all add: create_child_at_def link_def unlink_def set_inode_sparse_tx)

lemma lookup_ok_er: "er s = er t \<Longrightarrow> is_ok (lookup p n s) = is_ok (lookup p n t)"
  using lookup_er [of p n s] lookup_er [of p n t] by (cases "lookup p n s"; cases "lookup p n t") simp_all

lemma replay_rename_er:
  assumes "jo_op op = OpRename" "er s = er t"
  shows "same_res (replay_body now op s) (replay_body now op t)"
proof -
  obtain r s' where s': "rename (jo_parent op) (jo_name op) (jo_new_parent op) (jo_new_name op) s = (r, s')" by fastforce
  obtain q t' where t': "rename (jo_parent op) (jo_name op) (jo_new_parent op) (jo_new_name op) t = (q, t')" by fastforce
  have e: "r = q" "er s' = er t'"
    using rename_er [OF assms(2), of "jo_parent op" "jo_name op" "jo_new_parent op" "jo_new_name op"] s' t' by (simp_all add: same_res_def)
  show ?thesis
    using assms(1) s' t' e lookup_ok_er [OF e(2), of "jo_new_parent op" "jo_new_name op"]
    by (cases q) (simp_all add: replay_body_def same_res_def)
qed

lemma replay_body_er:
  assumes "numbered op" "er s = er t"
  shows "same_res (replay_body now op s) (replay_body now op t)"
proof (cases "jo_op op")
  case OpCreateChild
  then show ?thesis using assms(1) by (simp add: numbered_def replay_body_def tolerate_er op_er(1) [OF assms(2)])
next
  case OpSetSparse
  then show ?thesis by (simp add: replay_body_def tolerate_er op_er(4) [OF assms(2)])
next
  case OpLink
  then show ?thesis by (simp add: replay_body_def tolerate_er op_er(2) [OF assms(2)])
next
  case OpUnlink
  then show ?thesis by (simp add: replay_body_def tolerate_er op_er(3) [OF assms(2)])
next
  case OpRename
  then show ?thesis using assms(2) by (rule replay_rename_er)
next
  case OpSetSize
  then show ?thesis by (simp add: replay_body_def tolerate_er set_size_er [OF assms(2)])
qed

lemma replay_op_body: "fst (replay_op now op s) = fst (replay_body now op (s\<lparr>st_replaying := True\<rparr>))"
  "er (snd (replay_op now op s)) = er (snd (replay_body now op (s\<lparr>st_replaying := True\<rparr>)))"
  by (simp_all add: replay_op_def split: prod.splits)

lemma replay_op_er:
  assumes "numbered op" "er s = er t"
  shows "same_res (replay_op now op s) (replay_op now op t)"
  using replay_body_er [OF assms(1), of "s\<lparr>st_replaying := True\<rparr>" "t\<lparr>st_replaying := True\<rparr>" now] assms(2)
  by (simp add: replay_op_body same_res_def)

section \<open>An op that succeeded changes nothing when repeated\<close>

lemma lookup_there:
  assumes "store_wf s" "row_at dkey (st_dirents s) (p, n) \<noteq> None"
  shows "\<exists>i. lookup p n s = Inr i"
proof (cases "lookup p n s")
  case (Inl e)
  then show ?thesis using lookup_Inl [OF store_wf_tree [OF assms(1)], of p n e] assms(2) by simp
qed simp

lemma dir_there:
  assumes "store_wf s" "dir_in (st_inodes s) p"
  shows "\<exists>i. get_inode p s = Inr i \<and> i_kind i = KindDir"
  using assms(2) row_at_eq_Some [OF tree_okD(1) [OF store_wf_tree [OF assms(1)]], of p]
  by (auto simp: dir_in_def get_inode_Inr)

lemma dir_in_updated:
  assumes "dir_in (st_inodes s) p" "\<And>x. i_ino (f x) = i_ino x \<and> i_kind (f x) = i_kind x"
  shows "dir_in (st_inodes (upd_inode i f s)) p"
proof -
  obtain x where x: "x \<in> set (st_inodes s)" "i_ino x = p" "i_kind x = KindDir" using assms(1) by (auto simp: dir_in_def)
  let ?y = "if i_ino x = i then f x else x"
  have "?y \<in> set (st_inodes (upd_inode i f s))" using x(1) unfolding upd_inode_def upd_where_def by simp
  moreover have "i_ino ?y = p" "i_kind ?y = KindDir" using x(2,3) assms(2) by simp_all
  ultimately show ?thesis unfolding dir_in_def by blast
qed

lemma create_at_again:
  assumes "store_wf s" "store_wf t" "create_child_at_tx p n c i s = Inr (u, t)"
  shows "create_child_at_tx p n c i t = Inl ErrExists"
proof -
  note c = create_child_at_tx_Inr [OF assms(3)]
  have "row_at dkey (st_dirents t) (p, n) \<noteq> None" unfolding c(4) by (simp add: row_at_None_iff)
  then obtain j where "lookup p n t = Inr j" using lookup_there [OF assms(2)] by blast
  moreover have "dir_in (st_inodes t) p" using c(1) unfolding c(4) by (auto simp: dir_in_def)
  then obtain q where "get_inode p t = Inr q" "i_kind q = KindDir" using dir_there [OF assms(2)] by blast
  ultimately show ?thesis by (simp add: create_child_at_tx_def)
qed

lemma link_again:
  assumes "store_wf t" "link_tx p n i s = Inr (u, t)"
  shows "link_tx p n i t = Inl ErrExists"
  using assms(2)
proof (cases rule: link_tx_Inr)
  case (1 x)
  have "row_at dkey (st_dirents t) (p, n) \<noteq> None" unfolding 1(5) by (simp add: row_at_None_iff)
  then obtain j where "lookup p n t = Inr j" using lookup_there [OF assms(1)] by blast
  moreover have "dir_in (st_inodes t) p" unfolding 1(5) append_journal_simps by (rule dir_in_updated) (use 1(1) in simp_all)
  then obtain q where "get_inode p t = Inr q" "i_kind q = KindDir" using dir_there [OF assms(1)] by blast
  moreover have "get_inode i t = Inr (x\<lparr>i_nlink := i_nlink x + 1\<rparr>)"
    using 1(3) unfolding 1(5) by (simp add: get_inode_Inr row_at_upd_inode)
  ultimately show ?thesis using 1(4) by (simp add: link_tx_def)
qed

lemma unlink_again:
  assumes "store_wf s" "unlink_tx p n s = Inr (u, t)"
  shows "unlink_tx p n t = Inl ErrNotFound"
proof -
  obtain c del s1 where u: "unlink_in_tx p n s = Inr ((c, del), s1)" "st_dirents t = st_dirents s1"
    using assms(2) by (auto simp: unlink_tx_def split: sum.splits)
  have "row_at dkey (st_dirents t) (p, n) = None"
    unfolding u(2) unlink_in_tx_effect(1) [OF assms(1) u(1)] by (auto simp: row_at_None_iff del_where_def)
  then show ?thesis by (simp add: unlink_tx_def unlink_in_tx_def lookup_def)
qed

lemma rename_again:
  assumes "store_wf s" "store_wf t" "(a, b) \<noteq> (c, d)" "rename_tx a b c d s = Inr (u, t)"
  shows "t = s \<or> (rename_tx a b c d t = Inl ErrNotFound \<and> is_ok (lookup c d t))"
proof -
  have moved: "row_at dkey (st_dirents t) (a, b) = None" "row_at dkey (st_dirents t) (c, d) \<noteq> None"
    if "rename_finish a b c d k s1 = Inr (u, t)" "row_at dkey (st_dirents s1) (a, b) \<noteq> None" for s1 k
  proof -
    note fin = that(1) and there = that(2)
    obtain s2 where s2: "move_dirent a b c d s1 = Inr s2" "st_dirents t = st_dirents s2"
      using fin by (auto simp: rename_finish_def split: sum.splits)
    obtain r where r: "row_at dkey (st_dirents s1) (a, b) = Some r" using there by blast
    note m = move_dirent_Inr [OF s2(1) there assms(3)]
    have D: "st_dirents t = upd_where (\<lambda>d. dkey d = (a, b)) (\<lambda>r. r\<lparr>d_parent := c, d_name := d\<rparr>) (st_dirents s1)"
      unfolding s2(2) m(3) by simp
    show "row_at dkey (st_dirents t) (a, b) = None"
      unfolding D row_at_None_iff upd_where_def using assms(3) by auto
    have "r\<lparr>d_parent := c, d_name := d\<rparr> \<in> set (st_dirents t)"
      using row_at_SomeD [OF r] unfolding D upd_where_def by force
    then show "row_at dkey (st_dirents t) (c, d) \<noteq> None" unfolding row_at_None_iff by force
  qed
  have "t = s \<or> (row_at dkey (st_dirents t) (a, b) = None \<and> row_at dkey (st_dirents t) (c, d) \<noteq> None)"
    using assms(4)
  proof (cases rule: rename_tx_Inr)
    case (free src)
    then show ?thesis using moved [OF free(5)] by (auto simp: lookup_Inr)
  next
    case (over src dst k del s1)
    have "row_at dkey (st_dirents s1) (a, b) \<noteq> None"
      unfolding unlink_in_tx_effect(1) [OF assms(1) over(8)] using over(1) assms(3)
      by (auto simp: lookup_Inr row_at_del simp del: prod.inject)
    then show ?thesis using moved [OF over(9)] by blast
  qed simp
  then show ?thesis
    using lookup_there [OF assms(2), of c d] by (auto simp: rename_tx_def lookup_def)
qed

lemma upd_inode_idem:
  assumes "\<And>x. i_ino (f x) = i_ino x" "\<And>x. f (f x) = f x"
  shows "upd_inode i f (upd_inode i f s) = upd_inode i f s"
  by (simp add: upd_inode_def upd_where_def assms o_def if_distrib cong: if_cong)

lemma upd_inode_er_cong: "er s = er t \<Longrightarrow> (\<And>x. erase_times (f x) = erase_times (f (erase_times x))) \<Longrightarrow> er (upd_inode i f s) = er (upd_inode i f t)"
  using er_upd_inode [of i f f s] er_upd_inode [of i f f t] by simp

lemma has_inode_updated: "(\<And>x. i_ino (f x) = i_ino x) \<Longrightarrow> has_inode (upd_inode i f s) j = has_inode s j"
  by (simp add: has_inode_def row_at_upd_inode)

lemma has_inode_same_er: "er s = er t \<Longrightarrow> has_inode s i = has_inode t i"
  using has_inode_er [of s i] has_inode_er [of t i] by simp

lemma sparse_again:
  assumes "set_inode_sparse i s = (Inr (), t)"
  shows "fst (set_inode_sparse i t) = Inr () \<and> er (snd (set_inode_sparse i t)) = er t"
proof -
  let ?f = "\<lambda>x. x\<lparr>i_sparse := True\<rparr>"
  have t: "er t = er (upd_inode i ?f s)" "has_inode s i"
    using assms by (auto simp: set_inode_sparse_tx with_tx_def sparse_tx_def Let_def inode_rows_0 split: if_splits)
  have "has_inode t i" using has_inode_same_er [OF t(1)] t(2) by (simp add: has_inode_updated)
  moreover have "er (upd_inode i ?f t) = er (upd_inode i ?f (upd_inode i ?f s))"
    by (rule upd_inode_er_cong [OF t(1)]) (simp add: erase_times_def)
  then have "er (upd_inode i ?f t) = er t" using t(1) by (simp add: upd_inode_idem)
  ultimately show ?thesis by (simp add: set_inode_sparse_tx sparse_tx_def with_tx_def Let_def inode_rows_0)
qed

lemma set_size_again:
  assumes "set_size now i z s = (r, t)"
  shows "fst (set_size now i z t) = r \<and> er (snd (set_size now i z t)) = er t"
proof -
  let ?f = "apply_patch now (size_patch now z)"
  have t: "er t = er (upd_inode i ?f s)" "r = (if has_inode s i then Inr () else Inl ErrNotFound)"
    using assms by (auto simp: set_size_closed split: if_splits)
  have ino: "i_ino (?f x) = i_ino x" for x by (simp add: apply_patch_def)
  have "has_inode t i = has_inode s i" using has_inode_same_er [OF t(1)] has_inode_updated [OF ino] by simp
  moreover have "er (upd_inode i ?f t) = er (upd_inode i ?f (upd_inode i ?f s))"
    by (rule upd_inode_er_cong [OF t(1)]) (simp add: apply_patch_def size_patch_def opt_set_def erase_times_def)
  then have "er (upd_inode i ?f t) = er t" using t(1) ino
    by (simp add: upd_inode_idem apply_patch_def size_patch_def opt_set_def)
  ultimately show ?thesis using t(2) by (simp add: set_size_closed)
qed

text \<open>The state after the body: unchanged but for what is forgotten, or one on which the op is done.\<close>

lemma tolerate_ok: "fst (tolerate e r) = Inr () \<longleftrightarrow> (case fst r of Inl x \<Rightarrow> x = e | Inr _ \<Rightarrow> True)"
  by (cases r) (auto simp: tolerate_def split: sum.splits)

definition settled :: "int \<Rightarrow> journal_op \<Rightarrow> store \<Rightarrow> bool" where
  "settled now op t \<longleftrightarrow> fst (replay_body now op t) = Inr () \<and> er (snd (replay_body now op t)) = er t"

lemma tx_again:
  assumes "snd (with_tx f s) = s2" "\<And>u t. f s = Inr (u, t) \<Longrightarrow> store_wf t \<Longrightarrow> f t = Inl e" "store_wf s2"
    and "\<And>s. erf (f s) = erf (f (er s))"
  shows "er s2 = er s \<or> (fst (tolerate e (with_tx f s2)) = Inr () \<and> er (snd (tolerate e (with_tx f s2))) = er s2)"
proof (cases "f s")
  case (Inl x)
  then show ?thesis using assms(1) by (simp add: with_tx_def)
next
  case (Inr v)
  obtain u t where v: "f s = Inr (u, t)" using Inr by (cases v) simp
  then have s2: "s2 = t\<lparr>st_write_ctr := st_write_ctr t + 1\<rparr>" using assms(1) by (simp add: with_tx_def)
  then have "f t = Inl e" using assms(2) [OF v] assms(3) by simp
  moreover have "erf (f s2) = erf (f t)" using assms(4) [of s2] assms(4) [of t] s2 by simp
  ultimately have "f s2 = Inl e" by (auto simp: erf_def split: sum.splits prod.splits)
  then show ?thesis by (simp add: with_tx_def tolerate_def)
qed

lemma rename_op_again:
  assumes "store_wf s" "jo_op op = OpRename" "replay_body now op s = (Inr (), s2)" "store_wf s2"
  shows "er s2 = er s \<or> settled now op s2"
proof (cases "(jo_parent op, jo_name op) = (jo_new_parent op, jo_new_name op)")
  case True
  then show ?thesis using assms(2,3) by (simp add: replay_body_def rename_def)
next
  case ne: False
  let ?f = "rename_tx (jo_parent op) (jo_name op) (jo_new_parent op) (jo_new_name op)"
  have rn: "rename (jo_parent op) (jo_name op) (jo_new_parent op) (jo_new_name op) x = with_tx ?f x" for x
    using ne by (auto simp: rename_def)
  show ?thesis
  proof (cases "?f s")
    case (Inl e)
    then show ?thesis using assms(2,3) by (auto simp: replay_body_def rn with_tx_def split: if_splits)
  next
    case (Inr v)
    obtain u t where v: "?f s = Inr (u, t)" using Inr by (cases v) simp
    then have s2: "s2 = t\<lparr>st_write_ctr := st_write_ctr t + 1\<rparr>" using assms(2,3) by (simp add: replay_body_def rn with_tx_def)
    have wt: "store_wf t" using assms(4) s2 by simp
    consider "t = s" | "?f t = Inl ErrNotFound" "is_ok (lookup (jo_new_parent op) (jo_new_name op) t)"
      using rename_again [OF assms(1) wt ne v] by blast
    then show ?thesis
    proof cases
      case 1
      then show ?thesis using s2 by simp
    next
      case 2
      have eq: "er s2 = er t" using s2 by simp
      have "erf (?f s2) = erf (?f t)" using rename_tx_er eq by metis
      then have f2: "?f s2 = Inl ErrNotFound" using 2(1) by (auto simp: erf_def split: sum.splits prod.splits)
      have "is_ok (lookup (jo_new_parent op) (jo_new_name op) s2)" using 2(2) lookup_ok_er [OF eq] by simp
      then show ?thesis using assms(2) f2 by (simp add: settled_def replay_body_def rn with_tx_def)
    qed
  qed
qed

lemma body_again:
  assumes "store_wf s" "numbered op" "replay_body now op s = (Inr (), s2)"
  shows "er s2 = er s \<or> settled now op s2"
proof -
  have wf2: "store_wf s2" using replay_body_wf [OF assms(1), of now op] assms(3) by simp
  show ?thesis
  proof (cases "jo_op op")
    case OpCreateChild
    let ?f = "create_child_at_tx (jo_parent op) (jo_name op) (replay_child op) (jo_ino op)"
    have b: "replay_body now op x = tolerate ErrExists (with_tx ?f x)" for x
      using OpCreateChild assms(2) by (simp add: replay_body_def numbered_def create_child_at_def)
    have "snd (with_tx ?f s) = s2" using assms(3) b snd_tolerate by (metis snd_conv)
    from tx_again [OF this _ wf2 create_child_at_tx_er, of ErrExists] show ?thesis
      using create_at_again [OF assms(1)] by (auto simp: settled_def b)
  next
    case OpSetSparse
    obtain r t where r: "set_inode_sparse (jo_ino op) s = (r, t)" by fastforce
    have t: "s2 = t" "fst (tolerate ErrNotFound (r, t)) = Inr ()"
      using assms(3) OpSetSparse r snd_tolerate [of ErrNotFound "(r, t)"] by (simp_all add: replay_body_def)
    show ?thesis
    proof (cases r)
      case (Inl e)
      then show ?thesis using r t(1) by (auto simp: set_inode_sparse_tx with_tx_def split: sum.splits)
    next
      case (Inr u)
      then show ?thesis using sparse_again [of "jo_ino op" s t] r t(1) OpSetSparse
        by (auto simp: settled_def replay_body_def tolerate_ok)
    qed
  next
    case OpLink
    let ?f = "link_tx (jo_parent op) (jo_name op) (jo_target op)"
    have b: "replay_body now op x = tolerate ErrExists (with_tx ?f x)" for x
      using OpLink by (simp add: replay_body_def link_def)
    have "snd (with_tx ?f s) = s2" using assms(3) b snd_tolerate by (metis snd_conv)
    from tx_again [OF this _ wf2 link_tx_er, of ErrExists] show ?thesis
      using link_again by (auto simp: settled_def b)
  next
    case OpUnlink
    let ?f = "unlink_tx (jo_parent op) (jo_name op)"
    have b: "replay_body now op x = tolerate ErrNotFound (with_tx ?f x)" for x
      using OpUnlink by (simp add: replay_body_def unlink_def)
    have "snd (with_tx ?f s) = s2" using assms(3) b snd_tolerate by (metis snd_conv)
    from tx_again [OF this _ wf2 unlink_tx_er, of ErrNotFound] show ?thesis
      using unlink_again [OF assms(1)] by (auto simp: settled_def b)
  next
    case OpRename
    then show ?thesis using rename_op_again [OF assms(1) _ assms(3) wf2] by blast
  next
    case OpSetSize
    obtain r t where r: "set_size now (jo_ino op) (jo_size op) s = (r, t)" by fastforce
    have "s2 = t" "fst (tolerate ErrNotFound (r, t)) = Inr ()"
      using assms(3) OpSetSize r snd_tolerate [of ErrNotFound "(r, t)"] by (simp_all add: replay_body_def)
    then show ?thesis using set_size_again [OF r] OpSetSize
      by (auto simp: settled_def replay_body_def tolerate_ok)
  qed
qed

lemma replay_op_again:
  assumes "store_wf s" "numbered op" "fst (replay_op now op s) = Inr ()"
  shows "fst (replay_op now op (snd (replay_op now op s))) = Inr () \<and>
    er (snd (replay_op now op (snd (replay_op now op s)))) = er (snd (replay_op now op s))"
proof -
  let ?s = "s\<lparr>st_replaying := True\<rparr>" and ?r = "snd (replay_op now op s)"
  obtain s2 where s2: "replay_body now op ?s = (Inr (), s2)"
    using assms(3) by (cases "replay_body now op ?s") (simp add: replay_op_def)
  have e: "er ?r = er s2" using s2 by (simp add: replay_op_def)
  have "er s2 = er ?s \<or> settled now op s2" using body_again [OF _ assms(2) s2] assms(1) by simp
  then show ?thesis
  proof
    assume "er s2 = er ?s"
    then have "er ?r = er s" using e by simp
    then show ?thesis using replay_op_er [OF assms(2), of ?r s now] assms(3) e by (simp add: same_res_def)
  next
    assume "settled now op s2"
    moreover have "same_res (replay_body now op (?r\<lparr>st_replaying := True\<rparr>)) (replay_body now op s2)"
      using replay_body_er [OF assms(2)] e by simp
    ultimately show ?thesis using e by (simp add: replay_op_body settled_def same_res_def)
  qed
qed

interpretation replays: repeatable_log "replay_op now" "\<lambda>s t. er s = er t" store_wf numbered for now
proof
  show "store_wf s \<Longrightarrow> numbered x \<Longrightarrow> store_wf (snd (replay_op now x s))" for s x by (rule replay_op_wf)
  show "er s = er t \<Longrightarrow> numbered x \<Longrightarrow>
      fst (replay_op now x s) = fst (replay_op now x t) \<and> er (snd (replay_op now x s)) = er (snd (replay_op now x t))" for s t x
    using replay_op_er [of x s t now] by (simp add: same_res_def)
  show "store_wf s \<Longrightarrow> numbered x \<Longrightarrow> fst (replay_op now x s) = Inr () \<Longrightarrow>
      fst (replay_op now x (snd (replay_op now x s))) = Inr () \<and>
      er (snd (replay_op now x (snd (replay_op now x s)))) = er (snd (replay_op now x s))" for s x
    by (rule replay_op_again)
qed simp_all

lemma replay_all_run: "replay_all now ops s = replays.run now ops s"
  by (induction ops arbitrary: s) (auto split: prod.splits sum.splits)

text \<open>For the posted journal: rows repeated next to each other count once.\<close>

lemma replay_remdups:
  assumes "store_wf s" "\<forall>x\<in>set xs. numbered (f x)"
  shows "same_res (replay_all now (map f xs) s) (replay_all now (map f (remdups_adj xs)) s)"
  unfolding same_res_def replay_all_run using replays.run_remdups [OF assms(1), of f xs now] assms(2) by simp

lemma replay_all_er:
  assumes "er s = er t" "\<forall>x\<in>set ops. numbered x"
  shows "same_res (replay_all now ops s) (replay_all now ops t)"
  unfolding same_res_def replay_all_run using replays.run_cong [OF assms] by simp

end
