(* ===== verification/ChannelLog.thy ===== *)
theory ChannelLog
  imports ReplayTwice
begin

text \<open>
  The channel as the journal's second home: the scans of \<open>internal/tg\<close> (\<open>journal.go\<close>, \<open>snapshot.go\<close>,
  \<open>walk.go\<close>), the poster of \<open>internal/snapshot/journal_poster.go\<close> and \<open>replayJournalSince\<close> of
  \<open>cmd/telfs/main.go\<close>.  A caption is given as what its JSON decodes to, an op as the op.  Telegram
  is two parameters: \<open>hist\<close> answers \<open>messages.getHistory\<close> with at most 100 messages below an id
  (0: from the newest), newest first, and \<open>dl\<close> downloads and parses the body of a journal batch.
\<close>

section \<open>Messages\<close>

record journal_caption =
  jc_ts :: int
  jc_uuid :: string
  jc_seq :: int
  jc_payload :: "journal_op option"
  jc_first :: int
  jc_last :: int
  jc_count :: int

record snapshot_caption =
  sc_seq :: int
  sc_ts :: int
  sc_uuid :: string

datatype caption = CapBlank | CapSnap snapshot_caption | CapJournal journal_caption | CapOther

text \<open>Of a message that is not a \<open>tg.Message\<close> (a pin, a title change) only the id is used.\<close>

record chan_msg =
  cm_id :: int
  cm_message :: bool
  cm_doc :: bool
  cm_caption :: caption

type_synonym batch_entry = "int \<times> journal_op"

record journal_message =
  jm_msg :: int
  jm_seq :: int
  jm_op :: "journal_op option"

datatype message_kind = KindUnknown | KindChunk | KindSnapshot | KindJournal

definition is_batch :: "journal_caption \<Rightarrow> bool" where "is_batch c = (jc_count c > 0)"

definition classify_message :: "chan_msg \<Rightarrow> message_kind" where
  "classify_message m =
     (if \<not> cm_doc m then KindUnknown
      else (case cm_caption m of
          CapBlank \<Rightarrow> KindChunk
        | CapSnap _ \<Rightarrow> KindSnapshot
        | CapJournal _ \<Rightarrow> KindJournal
        | CapOther \<Rightarrow> KindUnknown))"

section \<open>Paging\<close>

definition last_message_id :: "chan_msg list \<Rightarrow> int option" where
  "last_message_id msgs = (case filter (\<lambda>m. cm_id m > 0) (rev msgs) of [] \<Rightarrow> None | m # _ \<Rightarrow> Some (cm_id m))"

datatype ('a, 'r) page_step = Go 'a | Halt 'r
datatype ('a, 'r) scan_end = HistoryErr string | Halted 'r | Exhausted 'a | NoCursor 'a | OutOfPages 'a

text \<open>The loop the scans share: fetch a page, work through it, move the cursor.\<close>

primrec scan_pages :: "nat \<Rightarrow> (int \<Rightarrow> string + chan_msg list) \<Rightarrow> (chan_msg list \<Rightarrow> 'a \<Rightarrow> ('a, 'r) page_step) \<Rightarrow> int \<Rightarrow> 'a
    \<Rightarrow> ('a, 'r) scan_end" where
  "scan_pages 0 hist work off acc = OutOfPages acc"
| "scan_pages (Suc n) hist work off acc =
     (case hist off of
        Inl e \<Rightarrow> HistoryErr e
      | Inr msgs \<Rightarrow>
          if msgs = [] then Exhausted acc
          else (case work msgs acc of
              Halt r \<Rightarrow> Halted r
            | Go acc' \<Rightarrow> (case last_message_id msgs of None \<Rightarrow> NoCursor acc' | Some off' \<Rightarrow> scan_pages n hist work off' acc')))"

section \<open>ListJournalOps\<close>

datatype list_err = ListHistory string | ListBody string | ListOpCap | ListPageCap

fun take_entries :: "int \<Rightarrow> int \<Rightarrow> int \<Rightarrow> batch_entry list \<Rightarrow> journal_message list \<Rightarrow> list_err + journal_message list" where
  "take_entries since mx msg [] out = Inr out"
| "take_entries since mx msg ((sq, op) # es) out =
     (if sq \<le> since then take_entries since mx msg es out
      else if int (length out) \<ge> mx then Inl ListOpCap
      else take_entries since mx msg es (out @ [\<lparr>jm_msg = msg, jm_seq = sq, jm_op = Some op\<rparr>]))"

definition journal_of :: "string \<Rightarrow> chan_msg \<Rightarrow> journal_caption option" where
  "journal_of uuid m =
     (if \<not> cm_message m then None
      else (case cm_caption m of CapJournal c \<Rightarrow> if uuid \<noteq> [] \<and> jc_uuid c \<noteq> uuid then None else Some c | _ \<Rightarrow> None))"

text \<open>One page; \<open>Halt (Inr out)\<close> is the boundary reached.\<close>

fun list_page :: "(int \<Rightarrow> string + batch_entry list) \<Rightarrow> string \<Rightarrow> int \<Rightarrow> int \<Rightarrow> chan_msg list \<Rightarrow> journal_message list
    \<Rightarrow> (journal_message list, list_err + journal_message list) page_step" where
  "list_page dl uuid since mx [] out = Go out"
| "list_page dl uuid since mx (m # ms) out =
     (case journal_of uuid m of
        None \<Rightarrow> list_page dl uuid since mx ms out
      | Some c \<Rightarrow>
          if is_batch c then
            (if jc_last c \<le> since then Halt (Inr out)
             else (case dl (cm_id m) of
                 Inl e \<Rightarrow> Halt (Inl (ListBody e))
               | Inr es \<Rightarrow> (case take_entries since mx (cm_id m) es out of
                   Inl e \<Rightarrow> Halt (Inl e)
                 | Inr out' \<Rightarrow> if jc_first c \<le> since + 1 then Halt (Inr out') else list_page dl uuid since mx ms out')))
          else if jc_seq c \<le> since then Halt (Inr out)
          else if int (length out) \<ge> mx then Halt (Inl ListOpCap)
          else list_page dl uuid since mx ms (out @ [\<lparr>jm_msg = cm_id m, jm_seq = jc_seq c, jm_op = jc_payload c\<rparr>]))"

definition page_hard_cap :: nat where "page_hard_cap = 2000"

definition list_journal_ops :: "(int \<Rightarrow> string + chan_msg list) \<Rightarrow> (int \<Rightarrow> string + batch_entry list) \<Rightarrow> string \<Rightarrow> int \<Rightarrow> int
    \<Rightarrow> list_err + journal_message list" where
  "list_journal_ops hist dl uuid since mx =
     (case scan_pages page_hard_cap hist (list_page dl uuid since (if mx \<le> 0 then 100000 else mx)) 0 [] of
        HistoryErr e \<Rightarrow> Inl (ListHistory e)
      | Halted r \<Rightarrow> r
      | Exhausted out \<Rightarrow> Inr out
      | NoCursor out \<Rightarrow> Inr out
      | OutOfPages out \<Rightarrow> Inl ListPageCap)"

section \<open>Snapshots on the channel\<close>

definition snapshot_of :: "string \<Rightarrow> chan_msg \<Rightarrow> snapshot_caption option" where
  "snapshot_of uuid m =
     (if \<not> cm_message m then None
      else (case cm_caption m of CapSnap c \<Rightarrow> if uuid \<noteq> [] \<and> sc_uuid c \<noteq> uuid then None else Some c | _ \<Rightarrow> None))"

fun find_page :: "string \<Rightarrow> chan_msg list \<Rightarrow> 'a \<Rightarrow> ('a, int \<times> snapshot_caption) page_step" where
  "find_page uuid [] a = Go a"
| "find_page uuid (m # ms) a = (case snapshot_of uuid m of None \<Rightarrow> find_page uuid ms a | Some c \<Rightarrow> Halt (cm_id m, c))"

definition find_latest_snapshot :: "(int \<Rightarrow> string + chan_msg list) \<Rightarrow> string \<Rightarrow> int \<Rightarrow> string + (int \<times> snapshot_caption) option" where
  "find_latest_snapshot hist uuid page_limit =
     (case scan_pages (nat (if page_limit \<le> 0 then 50 else page_limit)) hist (find_page uuid) 0 () of
        HistoryErr e \<Rightarrow> Inl e
      | Halted r \<Rightarrow> Inr (Some r)
      | _ \<Rightarrow> Inr None)"

fun snaps_page :: "string \<Rightarrow> nat \<Rightarrow> chan_msg list \<Rightarrow> (int \<times> snapshot_caption) list
    \<Rightarrow> ((int \<times> snapshot_caption) list, (int \<times> snapshot_caption) list) page_step" where
  "snaps_page uuid mx [] out = Go out"
| "snaps_page uuid mx (m # ms) out =
     (case snapshot_of uuid m of
        None \<Rightarrow> snaps_page uuid mx ms out
      | Some c \<Rightarrow>
          let out' = out @ [(cm_id m, c)] in
          if length out' \<ge> mx then Halt out' else snaps_page uuid mx ms out')"

definition list_snapshots :: "(int \<Rightarrow> string + chan_msg list) \<Rightarrow> string \<Rightarrow> int \<Rightarrow> string + (int \<times> snapshot_caption) list" where
  "list_snapshots hist uuid mx =
     (case scan_pages 50 hist (snaps_page uuid (nat (if mx \<le> 0 then 200 else mx))) 0 [] of
        HistoryErr e \<Rightarrow> Inl e
      | Halted out \<Rightarrow> Inr out
      | Exhausted out \<Rightarrow> Inr out
      | NoCursor out \<Rightarrow> Inr out
      | OutOfPages out \<Rightarrow> Inr out)"

text \<open>\<open>WalkChannelMessages\<close>: the callback returns the new state, or a stop, or an error.\<close>

datatype 'a callback = Next 'a | StopWalk 'a | WalkErr string

fun walk_page :: "(chan_msg \<Rightarrow> 'a \<Rightarrow> 'a callback) \<Rightarrow> chan_msg list \<Rightarrow> 'a \<Rightarrow> ('a, string + 'a) page_step" where
  "walk_page f [] a = Go a"
| "walk_page f (m # ms) a =
     (if \<not> cm_message m then walk_page f ms a
      else (case f m a of Next a' \<Rightarrow> walk_page f ms a' | StopWalk a' \<Rightarrow> Halt (Inr a') | WalkErr e \<Rightarrow> Halt (Inl e)))"

definition walk_channel_messages :: "(int \<Rightarrow> string + chan_msg list) \<Rightarrow> int \<Rightarrow> (chan_msg \<Rightarrow> 'a \<Rightarrow> 'a callback) \<Rightarrow> 'a \<Rightarrow> string + 'a" where
  "walk_channel_messages hist page_limit f a =
     (case scan_pages (nat (if page_limit \<le> 0 then 50 else page_limit)) hist (walk_page f) 0 a of
        HistoryErr e \<Rightarrow> Inl e
      | Halted r \<Rightarrow> r
      | Exhausted x \<Rightarrow> Inr x
      | NoCursor x \<Rightarrow> Inr x
      | OutOfPages x \<Rightarrow> Inr x)"

section \<open>The poster\<close>

text \<open>The channel: its messages, newest first, and the bodies of the batches.\<close>

record channel =
  ch_msgs :: "chan_msg list"
  ch_bodies :: "(int \<times> batch_entry list) list"

text \<open>A failed upload may still have posted its message.\<close>

datatype post_answer = Posted | PostFailed string | PostedUnseen string
datatype poster_err = UuidErr meta_err | PostErr string | MarkErr

definition batch_caption :: "int \<Rightarrow> string \<Rightarrow> batch_entry list \<Rightarrow> journal_caption" where
  "batch_caption ts uuid ops = \<lparr>jc_ts = ts, jc_uuid = uuid, jc_seq = 0, jc_payload = None,
     jc_first = fst (hd ops), jc_last = fst (last ops), jc_count = int (length ops)\<rparr>"

definition post_batch :: "int \<Rightarrow> int \<Rightarrow> string \<Rightarrow> batch_entry list \<Rightarrow> channel \<Rightarrow> channel" where
  "post_batch msg ts uuid ops ch =
     ch\<lparr>ch_msgs := \<lparr>cm_id = msg, cm_message = True, cm_doc = True, cm_caption = CapJournal (batch_caption ts uuid ops)\<rparr> # ch_msgs ch,
        ch_bodies := (msg, ops) # ch_bodies ch\<rparr>"

definition upload_journal_op_batch :: "post_answer \<Rightarrow> int \<Rightarrow> batch_entry list \<Rightarrow> int \<Rightarrow> string \<Rightarrow> channel \<Rightarrow> (string + int) \<times> channel" where
  "upload_journal_op_batch answer msg ops ts uuid ch =
     (if ops = [] then (Inl ''UploadJournalOpBatch: empty batch'', ch)
      else (case answer of
              Posted \<Rightarrow> (Inr msg, post_batch msg ts uuid ops ch)
            | PostFailed e \<Rightarrow> (Inl e, ch)
            | PostedUnseen e \<Rightarrow> (Inl e, post_batch msg ts uuid ops ch)))"

text \<open>
  What a turn of the loop meets: the id of the next message, the answer to the upload, the clock,
  and the update that marks the rows, which may fail after it has marked the first j of them.
\<close>

record drain_env =
  de_msg :: int
  de_answer :: post_answer
  de_now :: int
  de_mark :: "nat option"

definition entry_of :: "journal_row \<Rightarrow> batch_entry" where "entry_of r = (j_seq r, j_op r)"

definition DefaultPosterBatchSize :: nat where "DefaultPosterBatchSize = 1000"

definition poster_batch_size :: "int \<Rightarrow> nat" where
  "poster_batch_size n = (if n \<le> 0 then DefaultPosterBatchSize else nat n)"

definition mark_batch :: "drain_env \<Rightarrow> int list \<Rightarrow> store \<Rightarrow> (poster_err + unit) \<times> store" where
  "mark_batch E seqs s =
     (case de_mark E of
        None \<Rightarrow> (Inr (), snd (batch_mark_journal_posted seqs (de_now E) s))
      | Some j \<Rightarrow> (Inl MarkErr, snd (batch_mark_journal_posted (take j seqs) (de_now E) s)))"

text \<open>One turn of the loop of \<open>drainOnce\<close> over what is left of the pending rows it read.\<close>

definition drain_batch :: "nat \<Rightarrow> string \<Rightarrow> drain_env \<Rightarrow> journal_row list \<Rightarrow> store \<Rightarrow> channel
    \<Rightarrow> (poster_err + journal_row list) \<times> store \<times> channel" where
  "drain_batch sz uuid E rest s ch =
     (let batch = take sz rest in
      case upload_journal_op_batch (de_answer E) (de_msg E) (map entry_of batch) (de_now E) uuid ch of
        (Inl e, ch1) \<Rightarrow> (Inl (PostErr e), s, ch1)
      | (Inr _, ch1) \<Rightarrow> (case mark_batch E (map j_seq batch) s of
            (Inl e, s1) \<Rightarrow> (Inl e, s1, ch1)
          | (Inr _, s1) \<Rightarrow> (Inr (drop sz rest), s1, ch1)))"

function drain_loop :: "nat \<Rightarrow> string \<Rightarrow> (nat \<Rightarrow> drain_env) \<Rightarrow> nat \<Rightarrow> journal_row list \<Rightarrow> store \<Rightarrow> channel
    \<Rightarrow> (poster_err + unit) \<times> store \<times> channel" where
  "drain_loop sz uuid E i rest s ch =
     (if rest = [] \<or> sz = 0 then (Inr (), s, ch)
      else (case drain_batch sz uuid (E i) rest s ch of
          (Inl e, s1, ch1) \<Rightarrow> (Inl e, s1, ch1)
        | (Inr _, s1, ch1) \<Rightarrow> drain_loop sz uuid E (i + 1) (drop sz rest) s1 ch1))"
  by pat_completeness auto
termination by (relation "measure (\<lambda>(_, _, _, _, rest, _, _). length rest)") auto

declare drain_loop.simps [simp del]

definition drain_once :: "int \<Rightarrow> (nat \<Rightarrow> drain_env) \<Rightarrow> store \<Rightarrow> channel \<Rightarrow> (poster_err + unit) \<times> store \<times> channel" where
  "drain_once batch_size E s ch =
     (let pending = pending_journal s in
      if pending = [] then (Inr (), s, ch)
      else (case fs_uuid s of
          Inl e \<Rightarrow> (Inl (UuidErr e), s, ch)
        | Inr uuid \<Rightarrow> drain_loop (poster_batch_size batch_size) uuid E 0 pending s ch))"

text \<open>The pauses of \<open>Run\<close> while the channel is unreachable; times in seconds.\<close>

definition channelLostBackoffMin :: int where "channelLostBackoffMin = 60"
definition channelLostBackoffMax :: int where "channelLostBackoffMax = 300"

datatype drain_answer = DrainOk | DrainRpc string | DrainOther

definition channel_lost :: "drain_answer \<Rightarrow> bool" where
  "channel_lost r = (case r of DrainRpc e \<Rightarrow> e = ''CHANNEL_INVALID'' \<or> e = ''CHANNEL_PRIVATE'' | _ \<Rightarrow> False)"

record poster =
  po_until :: int
  po_backoff :: int

definition poster_tick :: "int \<Rightarrow> drain_answer \<Rightarrow> poster \<Rightarrow> poster" where
  "poster_tick now r p =
     (if now < po_until p then p
      else if r = DrainOk then p\<lparr>po_backoff := 0\<rparr>
      else if channel_lost r then
        let b = (if po_backoff p = 0 then channelLostBackoffMin
                 else if po_backoff p * 2 > channelLostBackoffMax then channelLostBackoffMax else po_backoff p * 2)
        in p\<lparr>po_backoff := b, po_until := now + b\<rparr>
      else p\<lparr>po_backoff := 0\<rparr>)"

section \<open>Recovery\<close>

datatype replay_err = ReplayList list_err | ReplayDecode int | ReplayApply int meta_err

fun replay_msgs :: "int \<Rightarrow> journal_message list \<Rightarrow> store \<Rightarrow> (replay_err + unit) \<times> store" where
  "replay_msgs now [] s = (Inr (), s)"
| "replay_msgs now (m # ms) s =
     (case jm_op m of
        None \<Rightarrow> (Inl (ReplayDecode (jm_seq m)), s)
      | Some op \<Rightarrow> (case replay_op now op s of
            (Inl e, s1) \<Rightarrow> (Inl (ReplayApply (jm_seq m) e), s1)
          | (Inr _, s1) \<Rightarrow> replay_msgs now ms s1))"

definition replay_journal_since :: "int \<Rightarrow> (int \<Rightarrow> string + chan_msg list) \<Rightarrow> (int \<Rightarrow> string + batch_entry list) \<Rightarrow> int \<Rightarrow> string
    \<Rightarrow> store \<Rightarrow> (replay_err + unit) \<times> store" where
  "replay_journal_since now hist dl since uuid s =
     (case list_journal_ops hist dl uuid since 0 of
        Inl e \<Rightarrow> (Inl (ReplayList e), s)
      | Inr msgs \<Rightarrow> if msgs = [] then (Inr (), s) else replay_msgs now (sort_key jm_seq msgs) s)"

text \<open>
  \<open>tryRecover\<close>.  \<open>restore\<close> downloads a snapshot message, unwraps it and loads it; the answer None is
  the start with an empty database.  The probe of a channel without a snapshot drops its error.
\<close>

datatype recover_err = RecScan string | RecNotEmpty | RecRestore string | RecReplay replay_err

definition try_recover :: "int \<Rightarrow> (int \<Rightarrow> string + chan_msg list) \<Rightarrow> (int \<Rightarrow> string + chan_msg list)
    \<Rightarrow> (int \<Rightarrow> string + batch_entry list) \<Rightarrow> (int \<Rightarrow> string + store) \<Rightarrow> recover_err + store option" where
  "try_recover now hist probe dl restore =
     (case find_latest_snapshot hist [] 200 of
        Inl e \<Rightarrow> Inl (RecScan e)
      | Inr None \<Rightarrow>
          (case walk_channel_messages probe 1 (\<lambda>m found. StopWalk True) False of
             Inr True \<Rightarrow> Inl RecNotEmpty
           | _ \<Rightarrow> Inr None)
      | Inr (Some (msg, cap)) \<Rightarrow>
          (case restore msg of
             Inl e \<Rightarrow> Inl (RecRestore e)
           | Inr s \<Rightarrow> (case replay_journal_since now hist dl (sc_seq cap) (sc_uuid cap) s of
                 (Inl e, s1) \<Rightarrow> Inl (RecReplay e)
               | (Inr _, s1) \<Rightarrow> Inr (Some s1))))"

end
