(* ===== verification/ScanProps.thy ===== *)
theory ScanProps
  imports ChannelLog
begin

text \<open>
  What the channel scans promise.  A scan works through pages; its work on a page is a fold that may
  stop.  The contract of such a work is the locale \<open>page_work\<close>: working through two stretches one
  after the other is working through their concatenation.  In it a scan is shown to be one pass
  over the whole channel, whatever the page borders are, and its interpretations are the four
  scans of \<open>internal/tg\<close>.
\<close>

section \<open>The history as the scans see it\<close>

text \<open>Newest first, ids positive.\<close>

definition sorted_ids :: "chan_msg list \<Rightarrow> bool" where
  "sorted_ids ms \<longleftrightarrow> sorted_wrt (\<lambda>m m'. cm_id m' < cm_id m) ms \<and> (\<forall>m\<in>set ms. 0 < cm_id m)"

definition below :: "int \<Rightarrow> chan_msg list \<Rightarrow> chan_msg list" where
  "below off ms = filter (\<lambda>m. off = 0 \<or> cm_id m < off) ms"

text \<open>
  \<open>messages.getHistory\<close>: the messages below the offset id, newest first; \<open>pg\<close> of them at least unless
  there are fewer.  A call may fail.
\<close>

definition honest_history :: "nat \<Rightarrow> (int \<Rightarrow> string + chan_msg list) \<Rightarrow> chan_msg list \<Rightarrow> bool" where
  "honest_history pg hist ms \<longleftrightarrow> 0 < pg \<and> (\<forall>off msgs. hist off = Inr msgs \<longrightarrow> (\<exists>n\<ge>pg. msgs = take n (below off ms)))"

definition get_history :: "chan_msg list \<Rightarrow> int \<Rightarrow> string + chan_msg list" where
  "get_history ms off = Inr (take 100 (below off ms))"

lemma get_history_honest: "honest_history 100 (get_history ms) ms"
  unfolding honest_history_def get_history_def by (intro conjI allI impI exI [of _ 100]) simp_all

lemma below_0 [simp]: "below 0 ms = ms"
  by (simp add: below_def)

lemma sorted_ids_below: "sorted_ids ms \<Longrightarrow> sorted_ids (below off ms)"
  by (auto simp: sorted_ids_def below_def sorted_wrt_filter)

lemma last_message_id_sorted:
  assumes "sorted_ids ms" "ms \<noteq> []"
  shows "last_message_id ms = Some (cm_id (last ms))"
proof -
  have "filter (\<lambda>m. cm_id m > 0) (rev ms) = rev ms"
    using assms(1) by (simp add: filter_id_conv sorted_ids_def)
  moreover have "rev ms = last ms # rev (butlast ms)" using assms(2) by (metis append_butlast_last_id rev_eq_Cons_iff rev_rev_ident)
  ultimately show ?thesis unfolding last_message_id_def by (simp only: list.case)
qed

text \<open>The cursor at the last message of a page leaves what follows the page.\<close>

lemma below_cursor:
  assumes "sorted_ids ms" "below off ms = xs @ ys" "xs \<noteq> []"
  shows "below (cm_id (last xs)) ms = ys"
proof -
  let ?c = "cm_id (last xs)"
  have s: "sorted_ids (xs @ ys)" using sorted_ids_below [OF assms(1), of off] assms(2) by simp
  have c: "last xs \<in> set (below off ms)" "0 < ?c" using assms(2,3) s by (auto simp: sorted_ids_def)
  then have "off = 0 \<or> ?c < off" by (auto simp: below_def)
  then have "below ?c ms = filter (\<lambda>m. cm_id m < ?c) (below off ms)"
    using c(2) by (auto simp: below_def intro!: filter_cong)
  moreover have "\<forall>m\<in>set ys. cm_id m < ?c" using s assms(3) by (auto simp: sorted_ids_def sorted_wrt_append)
  moreover have "\<not> cm_id m < ?c" if "m \<in> set xs" for m
  proof -
    have "sorted_wrt (\<lambda>m m'. cm_id m' < cm_id m) (butlast xs @ [last xs])" using s assms(3) by (simp add: sorted_ids_def sorted_wrt_append)
    moreover have "m \<in> set (butlast xs @ [last xs])" using that assms(3) by simp
    ultimately show ?thesis by (auto simp: sorted_wrt_append)
  qed
  ultimately show ?thesis by (simp add: assms(2) filter_id_conv)
qed

section \<open>A scan is one pass\<close>

locale page_work =
  fixes work :: "chan_msg list \<Rightarrow> 'a \<Rightarrow> ('a, 'r) page_step"
  assumes work_Nil: "work [] a = Go a"
    and work_append: "work (xs @ ys) a = (case work xs a of Halt r \<Rightarrow> Halt r | Go b \<Rightarrow> work ys b)"
begin

text \<open>Out of pages, a scan has seen everything or at least the budget's worth of messages.\<close>

definition passed :: "nat \<Rightarrow> chan_msg list \<Rightarrow> 'a \<Rightarrow> ('a, 'r) scan_end \<Rightarrow> bool" where
  "passed k ms a e = (case e of HistoryErr _ \<Rightarrow> True | Halted r \<Rightarrow> work ms a = Halt r | Exhausted b \<Rightarrow> work ms a = Go b
     | NoCursor b \<Rightarrow> False | OutOfPages b \<Rightarrow> \<exists>xs ys. ms = xs @ ys \<and> work xs a = Go b \<and> (ys = [] \<or> k \<le> length xs))"

lemma passed_later:
  assumes "work xs a = Go b" "passed k ys b e" "ys = [] \<or> j \<le> length xs"
  shows "passed (j + k) (xs @ ys) a e"
proof (cases e)
  case (OutOfPages c)
  then obtain us vs where "ys = us @ vs" "work us b = Go c" "vs = [] \<or> k \<le> length us" using assms(2) by (auto simp: passed_def)
  then have "xs @ ys = (xs @ us) @ vs" "work (xs @ us) a = Go c" "vs = [] \<or> j + k \<le> length (xs @ us)"
    using assms(1,3) by (auto simp: work_append)
  then show ?thesis using OutOfPages unfolding passed_def by (simp only: scan_end.case) blast
qed (use assms in \<open>auto simp: passed_def work_append\<close>)

lemma scan_pages_passed:
  assumes "honest_history pg hist ms" "sorted_ids ms"
  shows "passed (pg * n) (below off ms) a (scan_pages n hist work off a)"
proof (induction n arbitrary: off a)
  case 0
  have "below off ms = [] @ below off ms" "work [] a = Go a" by (simp_all add: work_Nil)
  then show ?case unfolding passed_def scan_pages.simps scan_end.case by auto
next
  case (Suc n)
  show ?case
  proof (cases "hist off")
    case (Inr msgs)
    obtain k where k: "pg \<le> k" "0 < k" "msgs = take k (below off ms)" using assms(1) Inr by (force simp: honest_history_def)
    have split: "below off ms = msgs @ drop k (below off ms)" using k(3) by simp
    show ?thesis
    proof (cases "msgs = []")
      case True
      then have "below off ms = []" using k by auto
      then show ?thesis using Inr True by (simp add: passed_def work_Nil)
    next
      case ne: False
      show ?thesis
      proof (cases "work msgs a")
        case (Halt r)
        then have "work (below off ms) a = Halt r" by (subst split) (simp add: work_append)
        then show ?thesis using Inr ne Halt by (simp add: passed_def)
      next
        case (Go b)
        have "sorted_ids msgs" using sorted_ids_below [OF assms(2), of off] split by (metis sorted_ids_def sorted_wrt_append set_append UnCI)
        then have cur: "last_message_id msgs = Some (cm_id (last msgs))" using ne by (rule last_message_id_sorted)
        have "passed (pg * n) (drop k (below off ms)) b (scan_pages n hist work (cm_id (last msgs)) b)"
          using Suc [of "cm_id (last msgs)" b] below_cursor [OF assms(2) split ne] by simp
        moreover have "drop k (below off ms) = [] \<or> pg \<le> length msgs" using k by auto
        ultimately have "passed (pg + pg * n) (msgs @ drop k (below off ms)) a (scan_pages n hist work (cm_id (last msgs)) b)"
          by (rule passed_later [OF Go])
        then show ?thesis using Inr ne Go cur split by simp
      qed
    qed
  qed (simp add: passed_def)
qed

lemma scan_whole:
  assumes "honest_history pg hist ms" "sorted_ids ms"
  shows "passed (pg * n) ms a (scan_pages n hist work 0 a)"
  using scan_pages_passed [OF assms, of n 0 a] by simp

end

text \<open>The four scans.\<close>

interpretation listing: page_work "list_page dl uuid since mx" for dl uuid since mx
proof
  show "list_page dl uuid since mx (xs @ ys) a = (case list_page dl uuid since mx xs a of Halt r \<Rightarrow> Halt r | Go b \<Rightarrow> list_page dl uuid since mx ys b)"
    for xs ys a
    by (induction xs arbitrary: a) (simp_all split: option.split sum.split)
qed simp

interpretation finding: page_work "find_page uuid" for uuid
proof
  show "find_page uuid (xs @ ys) a = (case find_page uuid xs a of Halt r \<Rightarrow> Halt r | Go b \<Rightarrow> find_page uuid ys b)" for xs ys a
    by (induction xs arbitrary: a) (simp_all split: option.split)
qed simp

interpretation snaps: page_work "snaps_page uuid mx" for uuid mx
proof
  show "snaps_page uuid mx (xs @ ys) a = (case snaps_page uuid mx xs a of Halt r \<Rightarrow> Halt r | Go b \<Rightarrow> snaps_page uuid mx ys b)" for xs ys a
    by (induction xs arbitrary: a) (simp_all add: Let_def split: option.split)
qed simp

interpretation walking: page_work "walk_page f" for f
proof
  show "walk_page f (xs @ ys) a = (case walk_page f xs a of Halt r \<Rightarrow> Halt r | Go b \<Rightarrow> walk_page f ys b)" for xs ys a
    by (induction xs arbitrary: a) (simp_all split: callback.split)
qed simp

section \<open>Snapshots found and listed\<close>

lemma find_page_Go: "find_page uuid ms a = Go b \<Longrightarrow> \<forall>m\<in>set ms. snapshot_of uuid m = None"
  by (induction ms) (auto split: option.splits)

lemma find_page_Halt: "find_page uuid ms a = Halt (i, c) \<Longrightarrow>
    \<exists>pre m post. ms = pre @ m # post \<and> cm_id m = i \<and> snapshot_of uuid m = Some c \<and> (\<forall>x\<in>set pre. snapshot_of uuid x = None)"
proof (induction ms)
  case (Cons m ms)
  show ?case
  proof (cases "snapshot_of uuid m")
    case None
    then obtain pre m' post where "ms = pre @ m' # post" "cm_id m' = i" "snapshot_of uuid m' = Some c" "\<forall>x\<in>set pre. snapshot_of uuid x = None"
      using Cons by auto
    then show ?thesis using None by (intro exI [of _ "m # pre"] exI [of _ m'] exI [of _ post]) simp
  next
    case (Some d)
    then show ?thesis using Cons.prems by (intro exI [of _ "[]"] exI [of _ m] exI [of _ ms]) simp
  qed
qed simp

text \<open>The snapshot a recovery starts from is the newest of its instance, wherever the page borders and
  the service messages fall; and when none is found there is none, or the scan saw its whole
  budget of pages without one.
\<close>
theorem latest_snapshot_is_newest:
  assumes "honest_history pg hist ms" "sorted_ids ms" "find_latest_snapshot hist uuid limit = Inr r" "0 < limit"
  shows "case r of
      Some (i, c) \<Rightarrow> \<exists>pre m post. ms = pre @ m # post \<and> cm_id m = i \<and> snapshot_of uuid m = Some c \<and>
        (\<forall>x\<in>set pre. snapshot_of uuid x = None)
    | None \<Rightarrow> \<exists>pre post. ms = pre @ post \<and> (\<forall>x\<in>set pre. snapshot_of uuid x = None) \<and> (post = [] \<or> pg * nat limit \<le> length pre)"
proof -
  note p = finding.scan_whole [OF assms(1,2), where n = "nat limit" and uuid = uuid and a = "()", unfolded finding.passed_def]
  show ?thesis
  proof (cases "scan_pages (nat limit) hist (find_page uuid) 0 ()")
    case (Halted q)
    then show ?thesis using p assms(3,4) find_page_Halt by (auto simp: find_latest_snapshot_def split: prod.splits)
  next
    case (Exhausted u)
    then have "r = None" "\<forall>x\<in>set ms. snapshot_of uuid x = None" using p assms(3,4) find_page_Go [of uuid ms "()" "()"] by (auto simp: find_latest_snapshot_def)
    then show ?thesis by (simp, intro exI [of _ ms] exI [of _ "[]"]) simp
  next
    case (OutOfPages u)
    then obtain xs ys where x: "ms = xs @ ys" "find_page uuid xs () = Go ()" "ys = [] \<or> pg * nat limit \<le> length xs" using p by auto
    moreover have "r = None" using OutOfPages assms(3,4) by (simp add: find_latest_snapshot_def)
    ultimately show ?thesis using find_page_Go [OF x(2)] by (simp, intro exI [of _ xs] exI [of _ ys]) simp
  qed (use p assms(3,4) in \<open>simp_all add: find_latest_snapshot_def\<close>)
qed

abbreviation snap_msg :: "int \<Rightarrow> int \<Rightarrow> chan_msg" where
  "snap_msg i q \<equiv> \<lparr>cm_id = i, cm_message = True, cm_doc = True, cm_caption = CapSnap \<lparr>sc_seq = q, sc_ts = 0, sc_uuid = ''u''\<rparr>\<rparr>"
abbreviation pin_msg :: "int \<Rightarrow> chan_msg" where
  "pin_msg i \<equiv> \<lparr>cm_id = i, cm_message = False, cm_doc = False, cm_caption = CapBlank\<rparr>"

definition demo_channel :: "chan_msg list" where
  "demo_channel = [pin_msg 9, snap_msg 7 4, pin_msg 5, snap_msg 2 1]"

lemma demo_channel_sorted: "sorted_ids demo_channel"
  by (simp add: sorted_ids_def demo_channel_def)

lemma latest_snapshot_is_newest_witness:
  "\<exists>pre post. demo_channel = pre @ snap_msg 7 4 # post \<and> (\<forall>x\<in>set pre. snapshot_of ''u'' x = None)"
proof -
  have r: "find_latest_snapshot (get_history demo_channel) ''u'' 200 = Inr (Some (7, \<lparr>sc_seq = 4, sc_ts = 0, sc_uuid = ''u''\<rparr>))" by code_simp
  from latest_snapshot_is_newest [OF get_history_honest demo_channel_sorted r]
  obtain pre m post where m: "demo_channel = pre @ m # post" "cm_id m = 7" "\<forall>x\<in>set pre. snapshot_of ''u'' x = None" by auto
  then have "m = snap_msg 7 4" by (auto simp: demo_channel_def Cons_eq_append_conv)
  then show ?thesis using m by blast
qed

definition snapshots :: "string \<Rightarrow> chan_msg list \<Rightarrow> (int \<times> snapshot_caption) list" where
  "snapshots uuid ms = List.map_filter (\<lambda>m. map_option (Pair (cm_id m)) (snapshot_of uuid m)) ms"

lemma snapshots_simps [simp]: "snapshots uuid [] = []"
  "snapshots uuid (m # ms) = (case snapshot_of uuid m of None \<Rightarrow> snapshots uuid ms | Some c \<Rightarrow> (cm_id m, c) # snapshots uuid ms)"
  by (simp_all add: snapshots_def List.map_filter_simps split: option.split)

lemma snapshots_append [simp]: "snapshots uuid (xs @ ys) = snapshots uuid xs @ snapshots uuid ys"
  by (induction xs) (simp_all split: option.split)

lemma snaps_page_spec:
  "length acc < mx \<Longrightarrow> snaps_page uuid mx ms acc =
    (if length acc + length (snapshots uuid ms) < mx then Go (acc @ snapshots uuid ms)
     else Halt (take mx (acc @ snapshots uuid ms)))"
  by (induction ms arbitrary: acc) (auto simp: Let_def not_less le_Suc_eq split: option.split)

lemma list_snapshots_spec:
  assumes "honest_history pg hist ms" "sorted_ids ms" "list_snapshots hist uuid mx = Inr out" "0 < mx"
  shows "\<exists>pre post. ms = pre @ post \<and> out = take (nat mx) (snapshots uuid pre) \<and>
    (post = [] \<or> nat mx \<le> length (snapshots uuid pre) \<or> pg * 50 \<le> length pre)"
proof -
  note p = snaps.scan_whole [OF assms(1,2), where n = 50 and uuid = uuid and mx = "nat mx" and a = "[]", unfolded snaps.passed_def]
  note sp = snaps_page_spec [of "[]" "nat mx" uuid, simplified]
  show ?thesis
  proof (cases "scan_pages 50 hist (snaps_page uuid (nat mx)) 0 []")
    case (Halted q)
    then have "out = take (nat mx) (snapshots uuid ms)" using p assms(3,4) sp [of ms] by (simp add: list_snapshots_def split: if_splits)
    then show ?thesis by (intro exI [of _ ms] exI [of _ "[]"]) simp
  next
    case (Exhausted q)
    then have "out = take (nat mx) (snapshots uuid ms)" using p assms(3,4) sp [of ms] by (simp add: list_snapshots_def split: if_splits)
    then show ?thesis by (intro exI [of _ ms] exI [of _ "[]"]) simp
  next
    case (OutOfPages q)
    then obtain xs ys where x: "ms = xs @ ys" "snaps_page uuid (nat mx) xs [] = Go q" "ys = [] \<or> pg * 50 \<le> length xs" using p by auto
    then have "out = take (nat mx) (snapshots uuid xs)" using OutOfPages assms(3,4) sp [of xs] by (simp add: list_snapshots_def split: if_splits)
    then show ?thesis using x by (intro exI [of _ xs] exI [of _ ys]) auto
  qed (use p assms(3,4) in \<open>simp_all add: list_snapshots_def\<close>)
qed

section \<open>The start of a recovery\<close>

lemma walk_probe: "walk_page (\<lambda>m found. StopWalk True) ms False =
    (if \<exists>m\<in>set ms. cm_message m then Halt (Inr True) else Go False)"
  by (induction ms) auto

text \<open>A recovery that finds no snapshot starts with an empty database only if the newest page of the
  channel has no regular message or could not be read: a channel whose newest page shows a regular
  message is refused.  The probe's own failure counts as an empty channel, so a full channel whose
  snapshots are out of reach is started empty when that one call fails.
\<close>
theorem empty_start_only_if:
  assumes "find_latest_snapshot hist [] 200 = Inr None"
  shows "try_recover now hist probe dl restore =
    (case probe 0 of
       Inl e \<Rightarrow> Inr None
     | Inr msgs \<Rightarrow> if \<exists>m\<in>set msgs. cm_message m then Inl RecNotEmpty else Inr None)"
proof (cases "probe 0")
  case (Inl e)
  then show ?thesis using assms by (simp add: try_recover_def walk_channel_messages_def)
next
  case (Inr msgs)
  then show ?thesis using assms
    by (auto simp: try_recover_def walk_channel_messages_def walk_probe split: option.split)
qed

definition chunk_channel :: "chan_msg list" where
  "chunk_channel = [\<lparr>cm_id = 3, cm_message = True, cm_doc = True, cm_caption = CapBlank\<rparr>]"

lemma empty_start_only_if_witness:
  "try_recover 0 (get_history chunk_channel) (get_history chunk_channel) (\<lambda>_. Inl []) (\<lambda>_. Inl []) = Inl RecNotEmpty \<and>
   try_recover 0 (get_history chunk_channel) (\<lambda>_. Inl ''rpc'') (\<lambda>_. Inl []) (\<lambda>_. Inl []) = Inr None"
proof -
  have r: "find_latest_snapshot (get_history chunk_channel) [] 200 = Inr None" by code_simp
  show ?thesis unfolding empty_start_only_if [OF r] by (simp add: get_history_def chunk_channel_def)
qed

end
