(* ===== verification/Wal.thy ===== *)
theory Wal
  imports ScanProps
begin

text \<open>
  The journal as a write-ahead log on the channel.  The state is the store, the channel, the rows the
  poster has read and not yet posted, and a ghost: every op ever journaled, in order.  The steps are
  the live operations, the turns of the poster with all their failures, the pruning of the table
  after a snapshot, and whatever else is posted to the channel.  The invariant says what the
  channel holds of the ghost, the properties what a recovery makes of it.
\<close>

section \<open>What a live operation journals\<close>

definition logs :: "store \<Rightarrow> store \<Rightarrow> bool" where
  "logs s t \<longleftrightarrow> (st_journal t = st_journal s \<and> st_jnl_seq t = st_jnl_seq s) \<or>
     (\<exists>jop. numbered jop \<and> st_journal t = st_journal s @ [\<lparr>j_seq = st_jnl_seq s + 1, j_op = jop, j_posted = None\<rparr>] \<and>
        st_jnl_seq t = st_jnl_seq s + 1)"

lemma logs_refl [simp]: "logs s s"
  by (simp add: logs_def)

lemma logs_append:
  assumes "st_journal x = st_journal s" "st_jnl_seq x = st_jnl_seq s" "\<not> st_replaying x" "numbered jop"
  shows "logs s (append_journal_tx jop x)"
  using assms by (simp add: logs_def append_journal_tx_def)

lemma logs_ctr [simp]: "logs s (t\<lparr>st_write_ctr := n\<rparr>) = logs s t"
  by (simp add: logs_def)

lemma logs_tx: "(\<And>a t. f s = Inr (a, t) \<Longrightarrow> logs s t) \<Longrightarrow> logs s (snd (with_tx f s))"
  by (cases "f s") (auto simp: with_tx_def)

lemma numbered_zero [simp]: "k \<noteq> OpCreateChild \<Longrightarrow> jo_op x = k \<Longrightarrow> numbered x"
  by (simp add: numbered_def)

lemma unlink_logs:
  assumes "store_wf s" "\<not> st_replaying s"
  shows "logs s (snd (unlink p n s))"
  unfolding unlink_def
proof (rule logs_tx)
  fix a t assume "unlink_tx p n s = Inr (a, t)"
  then obtain c del s1 where u: "unlink_in_tx p n s = Inr ((c, del), s1)"
      "t = append_journal_tx ((zero_op OpUnlink)\<lparr>jo_parent := p, jo_name := n\<rparr>) s1"
    by (auto simp: unlink_tx_def split: sum.splits)
  note eff = unlink_in_tx_effect [OF assms(1) u(1)]
  show "logs s t" unfolding u(2) by (rule logs_append) (use eff(7,9,10) assms(2) in \<open>simp_all add: numbered_def\<close>)
qed

lemma rename_finish_logs:
  assumes "rename_finish a b c d k x = Inr (v, t)" "st_journal x = st_journal s" "st_jnl_seq x = st_jnl_seq s" "\<not> st_replaying x"
  shows "logs s t"
proof -
  obtain x1 where x1: "move_dirent a b c d x = Inr x1"
      "t = append_journal_tx ((zero_op OpRename)\<lparr>jo_parent := a, jo_name := b, jo_new_parent := c, jo_new_name := d\<rparr>) x1"
    using assms(1) by (auto simp: rename_finish_def split: sum.splits)
  have "st_journal x1 = st_journal x" "st_jnl_seq x1 = st_jnl_seq x" "st_replaying x1 = st_replaying x"
    using x1(1) by (auto simp: move_dirent_def split: if_splits)
  then show ?thesis unfolding x1(2) using assms(2-4) by (intro logs_append) (simp_all add: numbered_def)
qed

lemma rename_logs:
  assumes "store_wf s" "\<not> st_replaying s"
  shows "logs s (snd (rename a b c d s))"
proof (cases "a = c \<and> b = d")
  case False
  have "logs s (snd (with_tx (rename_tx a b c d) s))"
  proof (rule logs_tx)
    fix v t assume "rename_tx a b c d s = Inr (v, t)"
    then show "logs s t"
    proof (cases rule: rename_tx_Inr)
      case (free src)
      then show ?thesis using rename_finish_logs [OF free(5)] assms(2) by simp
    next
      case (over src dst k del s1)
      then show ?thesis using rename_finish_logs [OF over(9)] unlink_in_tx_effect(7,9,10) [OF assms(1) over(8)] assms(2) by simp
    qed simp
  qed
  then show ?thesis using False by (auto simp: rename_def)
qed (simp add: rename_def)

lemma create_logs:
  assumes "store_wf s" "\<not> st_replaying s"
  shows "logs s (snd (create_child now p n child s))"
  unfolding create_child_def
proof (rule logs_tx)
  fix ino t assume r: "create_child_tx now p n (normalize_child now child) s = Inr (ino, t)"
  note c = create_child_tx_Inr [OF r]
  have "0 < ino" using tree_ok_range [OF store_wf_tree [OF assms(1)]] tree_okD(5) [OF store_wf_tree [OF assms(1)]] c(3)
    by (auto simp: dir_in_def)
  then show "logs s t" unfolding c(4) by (intro logs_append) (use assms(2) in \<open>simp_all add: numbered_def create_op_def\<close>)
qed

lemma live_logs:
  assumes "store_wf s" "\<not> st_replaying s"
  shows "logs s (run_live now op s)"
proof (cases op)
  case (LLink p n i)
  then show ?thesis using assms(2)
    by (auto simp: link_def intro!: logs_tx elim!: link_tx_Inr) (auto simp: numbered_def intro!: logs_append)
next
  case (LSetSize i z)
  then show ?thesis using assms(2)
    by (auto simp: set_size_closed numbered_def intro!: logs_append) (simp_all add: logs_def)
next
  case (LSetSparse i)
  then show ?thesis using assms(2)
    by (auto simp: set_inode_sparse_tx sparse_tx_def Let_def numbered_def split: if_splits intro!: logs_tx logs_append)
qed (use create_logs [OF assms] unlink_logs [OF assms] rename_logs [OF assms] in auto)

section \<open>The system\<close>

record wal =
  wl_hist :: "batch_entry list"
  wl_store :: store
  wl_ch :: channel
  wl_work :: "journal_row list"

definition newer_msg :: "int \<Rightarrow> channel \<Rightarrow> bool" where
  "newer_msg i ch \<longleftrightarrow> 0 < i \<and> (\<forall>m\<in>set (ch_msgs ch). cm_id m < i)"

inductive wal_step :: "string \<Rightarrow> nat \<Rightarrow> wal \<Rightarrow> wal \<Rightarrow> bool" for uuid sz where
  wal_live: "live_ok op \<Longrightarrow> t = run_live now op (wl_store W) \<Longrightarrow>
    wal_step uuid sz W (W\<lparr>wl_store := t, wl_hist := wl_hist W @ map entry_of (drop (length (st_journal (wl_store W))) (st_journal t))\<rparr>)"
| wal_quiet: "store_wf t \<Longrightarrow> er t = er (wl_store W) \<Longrightarrow> st_journal t = st_journal (wl_store W) \<Longrightarrow>
    st_jnl_seq t = st_jnl_seq (wl_store W) \<Longrightarrow> \<not> st_replaying t \<Longrightarrow> wal_step uuid sz W (W\<lparr>wl_store := t\<rparr>)"
| wal_read: "wal_step uuid sz W (W\<lparr>wl_work := pending_journal (wl_store W)\<rparr>)"
| wal_post: "wl_work W \<noteq> [] \<Longrightarrow> newer_msg (de_msg E) (wl_ch W) \<Longrightarrow>
    drain_batch sz uuid E (wl_work W) (wl_store W) (wl_ch W) = (r, t, c) \<Longrightarrow>
    wal_step uuid sz W (W\<lparr>wl_work := (case r of Inl _ \<Rightarrow> [] | Inr rest \<Rightarrow> rest), wl_store := t, wl_ch := c\<rparr>)"
| wal_stop: "wal_step uuid sz W (W\<lparr>wl_work := []\<rparr>)"
| wal_prune: "wal_step uuid sz W (W\<lparr>wl_store := snd (delete_journal_up_to n (wl_store W))\<rparr>)"
| wal_other: "journal_of uuid m = None \<Longrightarrow> newer_msg (cm_id m) (wl_ch W) \<Longrightarrow>
    wal_step uuid sz W (W\<lparr>wl_ch := (wl_ch W)\<lparr>ch_msgs := m # ch_msgs (wl_ch W)\<rparr>\<rparr>)"

inductive wal_run :: "string \<Rightarrow> nat \<Rightarrow> wal \<Rightarrow> wal \<Rightarrow> bool" for uuid sz where
  wal_run_refl: "wal_run uuid sz W W"
| wal_run_step: "wal_run uuid sz V W \<Longrightarrow> wal_step uuid sz W X \<Longrightarrow> wal_run uuid sz V X"

lemma wal_run_trans: "wal_run uuid sz V W \<Longrightarrow> wal_run uuid sz U V \<Longrightarrow> wal_run uuid sz U W"
  by (induction rule: wal_run.induct) (auto intro: wal_run_step)

text \<open>A new file system on a channel without journal messages of its instance.\<close>

definition wal_init :: "string \<Rightarrow> wal \<Rightarrow> bool" where
  "wal_init uuid W \<longleftrightarrow> store_wf (wl_store W) \<and> \<not> st_replaying (wl_store W) \<and> st_journal (wl_store W) = [] \<and>
     st_jnl_seq (wl_store W) = 0 \<and> wl_hist W = [] \<and> wl_work W = [] \<and> sorted_ids (ch_msgs (wl_ch W)) \<and>
     (\<forall>m\<in>set (ch_msgs (wl_ch W)). journal_of uuid m = None)"

section \<open>The invariant\<close>

definition pend :: "store \<Rightarrow> journal_row list" where
  "pend s = filter (\<lambda>j. j_posted j = None) (st_journal s)"

definition hist_ok :: "batch_entry list \<Rightarrow> bool" where
  "hist_ok h \<longleftrightarrow> map fst h = map (\<lambda>i. int i + 1) [0..<length h] \<and> (\<forall>x\<in>set h. numbered (snd x))"

text \<open>Message m is the batch of the ops from a up to b (not included) of the history.\<close>

definition segment :: "string \<Rightarrow> channel \<Rightarrow> batch_entry list \<Rightarrow> chan_msg \<Rightarrow> nat \<Rightarrow> nat \<Rightarrow> bool" where
  "segment uuid ch h m a b \<longleftrightarrow> a < b \<and> b \<le> length h \<and> cm_message m \<and>
     (\<exists>ts. cm_caption m = CapJournal (batch_caption ts uuid (drop a (take b h)))) \<and>
     map_of (ch_bodies ch) (cm_id m) = Some (drop a (take b h))"

definition last_of :: "string \<Rightarrow> chan_msg \<Rightarrow> int" where
  "last_of uuid m = (case journal_of uuid m of None \<Rightarrow> 0 | Some c \<Rightarrow> jc_last c)"

text \<open>The channel holds exactly the first e ops; the batches end later the newer they are.\<close>

definition posted_upto :: "string \<Rightarrow> channel \<Rightarrow> batch_entry list \<Rightarrow> nat \<Rightarrow> bool" where
  "posted_upto uuid ch h e \<longleftrightarrow> sorted_ids (ch_msgs ch) \<and> e \<le> length h \<and>
     (\<forall>m\<in>set (ch_msgs ch). journal_of uuid m \<noteq> None \<longrightarrow> (\<exists>a b. segment uuid ch h m a b \<and> b \<le> e)) \<and>
     sorted_wrt (\<lambda>m m'. journal_of uuid m \<noteq> None \<longrightarrow> last_of uuid m' \<le> last_of uuid m) (ch_msgs ch) \<and>
     (\<forall>i<e. \<exists>m\<in>set (ch_msgs ch). \<exists>a b. segment uuid ch h m a b \<and> a \<le> i \<and> i < b)"

definition wal_ok :: "string \<Rightarrow> nat \<Rightarrow> wal \<Rightarrow> bool" where
  "wal_ok uuid sz W \<longleftrightarrow> store_wf (wl_store W) \<and> \<not> st_replaying (wl_store W) \<and> hist_ok (wl_hist W) \<and>
     st_jnl_seq (wl_store W) = int (length (wl_hist W)) \<and>
     (\<exists>b e k. map entry_of (pend (wl_store W)) = drop b (wl_hist W) \<and> b + length (pend (wl_store W)) = length (wl_hist W) \<and>
        wl_work W = take k (pend (wl_store W)) \<and> posted_upto uuid (wl_ch W) (wl_hist W) e \<and> b \<le> e \<and>
        e \<le> b + min sz (length (if wl_work W = [] then pend (wl_store W) else wl_work W)))"

lemma hist_seq: "hist_ok h \<Longrightarrow> i < length h \<Longrightarrow> fst (h ! i) = int i + 1"
  by (metis (no_types, lifting) hist_ok_def length_map nth_map nth_upt add_0 diff_zero length_upt)

lemma segment_journal:
  assumes "segment uuid ch h m a b" "hist_ok h"
  shows "\<exists>c. journal_of uuid m = Some c \<and> is_batch c \<and> jc_first c = int a + 1 \<and> jc_last c = int b"
proof -
  let ?es = "drop a (take b h)"
  obtain ts where m: "cm_message m" "cm_caption m = CapJournal (batch_caption ts uuid ?es)" "a < b" "b \<le> length h"
    using assms(1) by (auto simp: segment_def)
  have ne: "?es \<noteq> []" using m(3,4) by simp
  then have "hd ?es = h ! a" "last ?es = h ! (b - 1)"
    using m(3,4) by (simp_all add: hd_drop_conv_nth last_drop last_conv_nth)
  then have "fst (hd ?es) = int a + 1" "fst (last ?es) = int b" using hist_seq [OF assms(2)] m(3,4) by simp_all
  moreover have "0 < length ?es" using ne by (rule length_greater_0_conv [THEN iffD2])
  ultimately show ?thesis using m(1,2) by (auto simp: journal_of_def batch_caption_def is_batch_def)
qed

lemma segment_last: "segment uuid ch h m a b \<Longrightarrow> hist_ok h \<Longrightarrow> last_of uuid m = int b"
  using segment_journal by (fastforce simp: last_of_def)

lemma segment_extend: "segment uuid ch h m a b \<Longrightarrow> segment uuid ch (h @ x) m a b"
  by (auto simp: segment_def)

lemma segment_other_body: "cm_id m \<noteq> i \<Longrightarrow> segment uuid (ch\<lparr>ch_msgs := M, ch_bodies := (i, es) # ch_bodies ch\<rparr>) h m a b = segment uuid ch h m a b"
  by (simp add: segment_def)

lemma segment_msgs: "segment uuid (ch\<lparr>ch_msgs := M\<rparr>) h m a b = segment uuid ch h m a b"
  by (simp add: segment_def)

lemma posted_extend: "posted_upto uuid ch h e \<Longrightarrow> posted_upto uuid ch (h @ x) e"
  unfolding posted_upto_def using segment_extend by (fastforce simp: Bex_def)

lemma posted_other:
  assumes "posted_upto uuid ch h e" "newer_msg (cm_id m) ch" "journal_of uuid m = None"
  shows "posted_upto uuid (ch\<lparr>ch_msgs := m # ch_msgs ch\<rparr>) h e"
  using assms unfolding posted_upto_def newer_msg_def sorted_ids_def
  by (auto simp: segment_msgs)

lemma posted_post:
  assumes p: "posted_upto uuid ch h e" and h: "hist_ok h" and i: "newer_msg i ch"
    and b: "b \<le> e" "b < b'" "e \<le> b'" "b' \<le> length h"
  shows "posted_upto uuid (post_batch i ts uuid (drop b (take b' h)) ch) h b'"
proof -
  let ?es = "drop b (take b' h)"
  let ?m = "\<lparr>cm_id = i, cm_message = True, cm_doc = True, cm_caption = CapJournal (batch_caption ts uuid ?es)\<rparr>"
  let ?ch = "post_batch i ts uuid ?es ch"
  have msgs: "ch_msgs ?ch = ?m # ch_msgs ch" by (simp add: post_batch_def)
  have new: "segment uuid ?ch h ?m b b'" using b by (auto simp: segment_def post_batch_def)
  have old: "segment uuid ?ch h m x y = segment uuid ch h m x y" if "m \<in> set (ch_msgs ch)" for m x y
    using i that unfolding post_batch_def by (intro segment_other_body) (auto simp: newer_msg_def)
  have lm: "last_of uuid ?m = int b'" using segment_last [OF new h] .
  have le: "last_of uuid m \<le> int b'" if "m \<in> set (ch_msgs ch)" for m
  proof (cases "journal_of uuid m")
    case (Some c)
    then obtain x y where "segment uuid ch h m x y" "y \<le> e" using p \<open>m \<in> set (ch_msgs ch)\<close> unfolding posted_upto_def by blast
    then show ?thesis using segment_last [OF _ h] b by fastforce
  qed (simp add: last_of_def)
  show ?thesis unfolding posted_upto_def msgs
  proof (intro conjI)
    show "sorted_ids (?m # ch_msgs ch)" using p i by (auto simp: posted_upto_def sorted_ids_def newer_msg_def)
    show "b' \<le> length h" using b by simp
    show "\<forall>m\<in>set (?m # ch_msgs ch). journal_of uuid m \<noteq> None \<longrightarrow> (\<exists>a b. segment uuid ?ch h m a b \<and> b \<le> b')"
    proof (intro ballI impI)
      fix m assume m: "m \<in> set (?m # ch_msgs ch)" "journal_of uuid m \<noteq> None"
      show "\<exists>a b. segment uuid ?ch h m a b \<and> b \<le> b'"
      proof (cases "m \<in> set (ch_msgs ch)")
        case True
        then obtain x y where "segment uuid ch h m x y" "y \<le> e" using p m(2) unfolding posted_upto_def by blast
        then show ?thesis using old [OF True] b(3) by (intro exI [of _ x] exI [of _ y]) simp
      next
        case False
        then show ?thesis using m(1) new by auto
      qed
    qed
    show "sorted_wrt (\<lambda>m m'. journal_of uuid m \<noteq> None \<longrightarrow> last_of uuid m' \<le> last_of uuid m) (?m # ch_msgs ch)"
      using p le lm by (simp add: posted_upto_def)
    show "\<forall>j<b'. \<exists>m\<in>set (?m # ch_msgs ch). \<exists>a b. segment uuid ?ch h m a b \<and> a \<le> j \<and> j < b"
    proof (intro allI impI)
      fix j assume j: "j < b'"
      show "\<exists>m\<in>set (?m # ch_msgs ch). \<exists>a b. segment uuid ?ch h m a b \<and> a \<le> j \<and> j < b"
      proof (cases "j < e")
        case True
        then obtain m x y where m: "m \<in> set (ch_msgs ch)" "segment uuid ch h m x y" "x \<le> j" "j < y"
          using p unfolding posted_upto_def by blast
        then show ?thesis using old [OF m(1)] by (intro bexI [of _ m] exI [of _ x] exI [of _ y]) simp_all
      next
        case False
        then show ?thesis using new j b(1) by (intro bexI [of _ ?m] exI [of _ b] exI [of _ b']) simp_all
      qed
    qed
  qed
qed

section \<open>Pending rows\<close>

lemma filter_not_first: "distinct (map f xs) \<Longrightarrow> filter (\<lambda>x. f x \<notin> set (take k (map f xs))) xs = drop k xs"
proof (induction xs arbitrary: k)
  case (Cons x xs)
  show ?case
  proof (cases k)
    case (Suc n)
    have "f y \<noteq> f x" if "y \<in> set xs" for y using Cons.prems that by (auto simp: image_iff)
    then have "filter (\<lambda>y. f y \<noteq> f x \<and> f y \<notin> set (take n (map f xs))) xs = filter (\<lambda>y. f y \<notin> set (take n (map f xs))) xs"
      by (intro filter_cong refl) blast
    then show ?thesis using Suc Cons by simp
  qed simp
qed simp

lemma pend_sorted: "store_wf s \<Longrightarrow> sorted_wrt (<) (map j_seq (pend s))"
  using store_wfD(7) [of s] by (simp add: pend_def sorted_wrt_map sorted_wrt_filter)

lemma pend_mark:
  assumes "store_wf s"
  shows "pend (snd (batch_mark_journal_posted (take k (map j_seq (pend s))) v s)) = drop k (pend s)"
proof -
  let ?q = "take k (map j_seq (pend s))"
  have J: "st_journal (snd (batch_mark_journal_posted q v s)) = upd_where (\<lambda>j. j_seq j \<in> set q) (\<lambda>j. j\<lparr>j_posted := Some v\<rparr>) (st_journal s)" for q
  proof (cases "q = []")
    case False
    then show ?thesis using batch_mark_loop_effect [of q v s] by (auto simp: batch_mark_journal_posted_def)
  qed (simp add: batch_mark_journal_posted_def upd_where_def)
  have mark: "filter (\<lambda>j. j_posted j = None) (upd_where (\<lambda>j. j_seq j \<in> q) (\<lambda>j. j\<lparr>j_posted := Some v\<rparr>) J) =
      filter (\<lambda>j. j_seq j \<notin> q) (filter (\<lambda>j. j_posted j = None) J)" for q J
    by (induction J) (simp_all add: upd_where_def)
  have "pend (snd (batch_mark_journal_posted ?q v s)) = filter (\<lambda>j. j_seq j \<notin> set ?q) (pend s)"
    unfolding pend_def J by (rule mark)
  also have "\<dots> = drop k (pend s)"
    using pend_sorted [OF assms] by (intro filter_not_first) (simp add: strict_sorted_iff)
  finally show ?thesis .
qed

lemma batch_mark_fields:
  "st_jnl_seq (snd (batch_mark_journal_posted q v s)) = st_jnl_seq s"
  "st_replaying (snd (batch_mark_journal_posted q v s)) = st_replaying s"
  "er (snd (batch_mark_journal_posted q v s)) = er s"
  using batch_mark_loop_effect [of q v s] by (auto simp: batch_mark_journal_posted_def)

section \<open>Every step keeps the invariant\<close>

definition drained :: "string \<Rightarrow> nat \<Rightarrow> batch_entry list \<Rightarrow> journal_row list \<Rightarrow> journal_row list \<Rightarrow> channel \<Rightarrow> bool" where
  "drained uuid sz h p w ch \<longleftrightarrow> (\<exists>b e k. map entry_of p = drop b h \<and> b + length p = length h \<and> w = take k p \<and>
     posted_upto uuid ch h e \<and> b \<le> e \<and> e \<le> b + min sz (length (if w = [] then p else w)))"

lemma wal_ok_alt: "wal_ok uuid sz W \<longleftrightarrow> store_wf (wl_store W) \<and> \<not> st_replaying (wl_store W) \<and> hist_ok (wl_hist W) \<and>
    st_jnl_seq (wl_store W) = int (length (wl_hist W)) \<and> drained uuid sz (wl_hist W) (pend (wl_store W)) (wl_work W) (wl_ch W)"
  by (simp add: wal_ok_def drained_def)

lemma drained_stop:
  assumes "drained uuid sz h p w ch"
  shows "drained uuid sz h p [] ch" "drained uuid sz h p p ch"
proof -
  obtain b e k where d: "map entry_of p = drop b h" "b + length p = length h" "w = take k p" "posted_upto uuid ch h e" "b \<le> e"
      "e \<le> b + min sz (length (if w = [] then p else w))"
    using assms unfolding drained_def by blast
  have "e \<le> b + min sz (length p)" using d(3,6) by (auto split: if_splits)
  then have "map entry_of p = drop b h \<and> b + length p = length h \<and> x = take k' p \<and> posted_upto uuid ch h e \<and> b \<le> e \<and>
      e \<le> b + min sz (length (if x = [] then p else x))" if "x = [] \<and> k' = 0 \<or> x = p \<and> k' = length p" for x k'
    using d that by auto
  then show "drained uuid sz h p [] ch" "drained uuid sz h p p ch" unfolding drained_def by blast+
qed

lemma drained_append:
  assumes "drained uuid sz h p w ch"
  shows "drained uuid sz (h @ [entry_of r]) (p @ [r]) w ch"
proof -
  obtain b e k where d: "map entry_of p = drop b h" "b + length p = length h" "w = take k p" "posted_upto uuid ch h e" "b \<le> e"
      "e \<le> b + min sz (length (if w = [] then p else w))"
    using assms unfolding drained_def by blast
  show ?thesis unfolding drained_def
  proof (intro exI conjI)
    show "map entry_of (p @ [r]) = drop b (h @ [entry_of r])" using d(1,2) by simp
    show "w = take (min k (length p)) (p @ [r])" using d(3) by (simp add: min_def)
    show "posted_upto uuid ch (h @ [entry_of r]) e" using d(4) by (rule posted_extend)
    show "e \<le> b + min sz (length (if w = [] then p @ [r] else w))" using d(6) by (auto split: if_splits)
  qed (use d in simp_all)
qed

lemma drained_channel: "drained uuid sz h p w ch \<Longrightarrow> (\<And>e. posted_upto uuid ch h e \<Longrightarrow> posted_upto uuid ch' h e) \<Longrightarrow> drained uuid sz h p w ch'"
  unfolding drained_def by (elim exE conjE, intro exI conjI, assumption, assumption, assumption) auto

lemma live_ok_step:
  assumes "wal_ok uuid sz W" "live_ok op"
  shows "wal_ok uuid sz (W\<lparr>wl_store := run_live now op (wl_store W),
    wl_hist := wl_hist W @ map entry_of (drop (length (st_journal (wl_store W))) (st_journal (run_live now op (wl_store W))))\<rparr>)"
proof -
  let ?s = "wl_store W" let ?t = "run_live now op ?s"
  have w: "store_wf ?s" "\<not> st_replaying ?s" "hist_ok (wl_hist W)" "st_jnl_seq ?s = int (length (wl_hist W))"
      "drained uuid sz (wl_hist W) (pend ?s) (wl_work W) (wl_ch W)"
    using assms(1) by (simp_all add: wal_ok_alt)
  have t: "store_wf ?t" "\<not> st_replaying ?t" using run_live_wf [OF w(1) assms(2)] run_live_not_replaying [OF w(1,2)] by auto
  consider "st_journal ?t = st_journal ?s" "st_jnl_seq ?t = st_jnl_seq ?s"
    | jop where "numbered jop" "st_journal ?t = st_journal ?s @ [\<lparr>j_seq = st_jnl_seq ?s + 1, j_op = jop, j_posted = None\<rparr>]"
        "st_jnl_seq ?t = st_jnl_seq ?s + 1"
    using live_logs [OF w(1,2), of now op] unfolding logs_def by blast
  then show ?thesis
  proof cases
    case 1
    then show ?thesis using w t by (simp add: wal_ok_alt pend_def)
  next
    case 2
    let ?r = "\<lparr>j_seq = st_jnl_seq ?s + 1, j_op = jop, j_posted = None\<rparr>"
    have "hist_ok (wl_hist W @ [entry_of ?r])" using w(3,4) 2(1) by (auto simp: hist_ok_def entry_of_def)
    then show ?thesis using w t 2 drained_append [OF w(5), of ?r] by (simp add: wal_ok_alt pend_def)
  qed
qed

lemma drained_post:
  assumes d: "drained uuid sz h (pend s) w ch" and h: "hist_ok h" and s: "store_wf s" and i: "newer_msg (de_msg E) ch" and ne: "w \<noteq> []"
    and r: "drain_batch sz uuid E w s ch = (r, t, c)"
  shows "drained uuid sz h (pend t) (case r of Inl _ \<Rightarrow> [] | Inr rest \<Rightarrow> rest) c"
proof -
  obtain b e k where d: "map entry_of (pend s) = drop b h" "b + length (pend s) = length h" "w = take k (pend s)"
      "posted_upto uuid ch h e" "b \<le> e" "e \<le> b + min sz (length w)"
    using d ne unfolding drained_def by auto
  define q where "q = min sz (length w)"
  have q: "q \<le> length (pend s)" "q \<le> length w" "e \<le> b + q" "q \<le> sz" using d(3,6) by (auto simp: q_def)
  have batch: "take sz w = take q (pend s)" using d(3) by (auto simp: q_def min_def)
  have seqs: "map j_seq (take sz w) = take q (map j_seq (pend s))" by (simp add: batch take_map)
  have es: "map entry_of (take sz w) = drop b (take (b + q) h)" using d(1) by (simp add: batch take_map [symmetric] take_drop add.commute)
  show ?thesis
  proof (cases "take sz w = []")
    case True
    then have "r = Inl (PostErr ''UploadJournalOpBatch: empty batch'')" "t = s" "c = ch"
      using r by (simp_all add: drain_batch_def upload_journal_op_batch_def)
    then show ?thesis using drained_stop(1) assms(1) by simp
  next
    case False
    then have q0: "0 < q" using batch by auto
    let ?c = "post_batch (de_msg E) (de_now E) uuid (map entry_of (take sz w)) ch"
    have posted: "posted_upto uuid ?c h (b + q)"
      unfolding es by (rule posted_post [OF d(4) h i d(5)]) (use q q0 d(2) in simp_all)
    have marked: "drained uuid sz h (drop j (pend s)) x ?c" if "j \<le> q" "x = [] \<or> j = q \<and> x = drop sz w" for j x
      unfolding drained_def
    proof (intro exI conjI)
      show "map entry_of (drop j (pend s)) = drop (b + j) h" using d(1) by (simp add: drop_map [symmetric] add.commute)
      show "b + j + length (drop j (pend s)) = length h" using d(2) that(1) q(1) by simp
      have "drop sz w = take (k - sz) (drop q (pend s))"
      proof (cases "sz \<le> length w")
        case True
        then show ?thesis using d(3) by (simp add: q_def drop_take)
      next
        case False
        then have "drop sz w = []" "length (pend s) \<le> q \<or> k - sz = 0" using d(3) by (auto simp: q_def)
        then show ?thesis by auto
      qed
      then show "x = take (if x = [] then 0 else k - sz) (drop j (pend s))" using that by auto
      show "b + q \<le> b + j + min sz (length (if x = [] then drop j (pend s) else x))"
        using that q(1,4) by (auto simp: min_def)
    qed (use posted that in simp_all)
    show ?thesis
    proof (cases "de_answer E")
      case Posted
      show ?thesis
      proof (cases "de_mark E")
        case None
        then have "r = Inr (drop sz w)" "c = ?c" "t = snd (batch_mark_journal_posted (take q (map j_seq (pend s))) (de_now E) s)"
          using r False Posted by (auto simp: drain_batch_def upload_journal_op_batch_def mark_batch_def seqs Let_def)
        then show ?thesis using marked [of q "drop sz w"] pend_mark [OF s] by simp
      next
        case (Some j)
        then have "r = Inl MarkErr" "c = ?c" "t = snd (batch_mark_journal_posted (take (min j q) (map j_seq (pend s))) (de_now E) s)"
          using r False Posted by (auto simp: drain_batch_def upload_journal_op_batch_def mark_batch_def seqs Let_def)
        then show ?thesis using marked [of "min j q" "[]"] pend_mark [OF s] by simp
      qed
    next
      case (PostFailed x)
      then have "r = Inl (PostErr x)" "t = s" "c = ch"
        using r False by (simp_all add: drain_batch_def upload_journal_op_batch_def)
      then show ?thesis using drained_stop(1) assms(1) by simp
    next
      case (PostedUnseen x)
      then have "r = Inl (PostErr x)" "t = s" "c = ?c"
        using r False by (simp_all add: drain_batch_def upload_journal_op_batch_def)
      then show ?thesis using marked [of 0 "[]"] by simp
    qed
  qed
qed

lemma drain_batch_store:
  assumes "drain_batch sz uuid E w s ch = (r, t, c)"
  shows "store_wf s \<Longrightarrow> store_wf t" "st_jnl_seq t = st_jnl_seq s" "st_replaying t = st_replaying s" "er t = er s"
  using assms by (auto simp: drain_batch_def mark_batch_def Let_def batch_mark_fields batch_mark_wf split: sum.splits prod.splits option.splits)

lemma delete_journal_pend: "pend (snd (delete_journal_up_to n s)) = pend s"
  by (simp add: pend_def delete_journal_up_to_def exec_with_retry_def Let_def del_where_def) (metis (mono_tags, lifting) filter_cong)

lemma delete_journal_fields:
  "st_jnl_seq (snd (delete_journal_up_to n s)) = st_jnl_seq s" "st_replaying (snd (delete_journal_up_to n s)) = st_replaying s"
  "er (snd (delete_journal_up_to n s)) = er s"
  by (simp_all add: delete_journal_up_to_def exec_with_retry_def Let_def)

lemma wal_step_ok: "wal_step uuid sz W X \<Longrightarrow> wal_ok uuid sz W \<Longrightarrow> wal_ok uuid sz X"
proof (induction rule: wal_step.induct)
  case (wal_live op t W now)
  then show ?case using live_ok_step by blast
next
  case (wal_read W)
  then show ?case using drained_stop(2) pending_unsorted [OF store_wfD(7)] by (auto simp: wal_ok_alt pend_def)
next
  case (wal_post W E r t c)
  then show ?case using drained_post [OF _ _ _ wal_post(2,1,3)] drain_batch_store [OF wal_post(3)] by (simp add: wal_ok_alt)
next
  case (wal_stop W)
  then show ?case using drained_stop(1) by (auto simp: wal_ok_alt)
next
  case (wal_prune W n)
  then show ?case using delete_journal_wf by (simp add: wal_ok_alt delete_journal_pend delete_journal_fields)
next
  case (wal_other m W)
  have "posted_upto uuid ((wl_ch W)\<lparr>ch_msgs := m # ch_msgs (wl_ch W)\<rparr>) h e" if "posted_upto uuid (wl_ch W) h e" for h e
    using posted_other [OF that wal_other(2,1)] .
  then show ?case using drained_channel wal_other(3) by (auto simp: wal_ok_alt)
qed (simp add: wal_ok_alt pend_def)

lemma wal_init_ok: "wal_init uuid W \<Longrightarrow> wal_ok uuid sz W"
  unfolding wal_init_def wal_ok_alt drained_def posted_upto_def
  by (auto simp: hist_ok_def pend_def last_of_def sorted_ids_def intro!: sorted_wrt_mono_rel [where P = "\<lambda>m m'. cm_id m' < cm_id m"])

lemma wal_run_ok: "wal_run uuid sz W X \<Longrightarrow> wal_ok uuid sz W \<Longrightarrow> wal_ok uuid sz X"
  by (induction rule: wal_run.induct) (auto intro: wal_step_ok)

end
