(* ===== verification/WalProps.thy ===== *)
theory WalProps
  imports Wal MetaSystem
begin

text \<open>
  What a recovery reads back from the channel: the listing of the journal is complete or an error, and
  replaying it leads to the state after some op of the history, no earlier than the last op the
  poster has marked as posted.
\<close>

section \<open>The listing is complete\<close>

definition honest_bodies :: "(int \<Rightarrow> string + batch_entry list) \<Rightarrow> channel \<Rightarrow> bool" where
  "honest_bodies dl ch \<longleftrightarrow> (\<forall>i es. dl i = Inr es \<longrightarrow> map_of (ch_bodies ch) i = Some es)"

definition get_body :: "channel \<Rightarrow> int \<Rightarrow> string + batch_entry list" where
  "get_body ch i = (case map_of (ch_bodies ch) i of None \<Rightarrow> Inl ''no document'' | Some es \<Rightarrow> Inr es)"

lemma get_body_honest: "honest_bodies (get_body ch) ch"
  by (simp add: honest_bodies_def get_body_def split: option.splits)

definition pairs :: "journal_message list \<Rightarrow> (int \<times> journal_op option) set" where
  "pairs out = (\<lambda>j. (jm_seq j, jm_op j)) ` set out"

definition later :: "int \<Rightarrow> batch_entry list \<Rightarrow> (int \<times> journal_op option) set" where
  "later since es = {(q, Some x) | q x. (q, x) \<in> set es \<and> since < q}"

definition want :: "string \<Rightarrow> channel \<Rightarrow> int \<Rightarrow> chan_msg \<Rightarrow> (int \<times> journal_op option) set" where
  "want uuid ch since m = (if journal_of uuid m = None then {} else later since (the (map_of (ch_bodies ch) (cm_id m))))"

lemma take_entries_pairs: "take_entries since mx i es out = Inr out' \<Longrightarrow> pairs out' = pairs out \<union> later since es"
proof (induction es arbitrary: out)
  case (Cons e es)
  obtain q x where e: "e = (q, x)" by (cases e)
  have l: "later since ((q, x) # es) = (if since < q then {(q, Some x)} else {}) \<union> later since es"
    by (auto simp: later_def)
  show ?case using Cons.prems Cons.IH unfolding e l by (auto simp: pairs_def split: if_splits)
qed (simp add: later_def)

text \<open>Of two batches, what the older one has beyond \<open>since\<close> the newer one has, if it reaches back to it.\<close>

lemma seg_entry: "hist_ok h \<Longrightarrow> (q, x) \<in> set (drop a (take b h)) \<Longrightarrow> \<exists>i. a \<le> i \<and> i < b \<and> i < length h \<and> h ! i = (q, x) \<and> q = int i + 1"
proof -
  assume h: "hist_ok h" and "(q, x) \<in> set (drop a (take b h))"
  then obtain j where j: "j < length (drop a (take b h))" "drop a (take b h) ! j = (q, x)" by (auto simp: in_set_conv_nth)
  have b: "a + j < b" "a + j < length h" using j(1) by simp_all
  then have "h ! (a + j) = (q, x)" using j(2) by (simp add: nth_drop)
  with b show ?thesis using hist_seq [OF h, of "a + j"] by (intro exI [of _ "a + j"]) simp
qed

lemma seg_nth: "a \<le> i \<Longrightarrow> i < b \<Longrightarrow> i < length h \<Longrightarrow> h ! i \<in> set (drop a (take b h))"
  by (auto simp: in_set_conv_nth intro!: exI [of _ "i - a"])

lemma want_segment: "segment uuid ch h m a b \<Longrightarrow> hist_ok h \<Longrightarrow> want uuid ch since m = later since (drop a (take b h))"
  using segment_journal by (fastforce simp: want_def segment_def)

definition segments :: "string \<Rightarrow> channel \<Rightarrow> batch_entry list \<Rightarrow> chan_msg list \<Rightarrow> bool" where
  "segments uuid ch h ms \<longleftrightarrow> (\<forall>m\<in>set ms. journal_of uuid m \<noteq> None \<longrightarrow> (\<exists>a b. segment uuid ch h m a b)) \<and>
     sorted_wrt (\<lambda>m m'. journal_of uuid m \<noteq> None \<longrightarrow> last_of uuid m' \<le> last_of uuid m) ms"

lemma older_within:
  assumes "hist_ok h" "segments uuid ch h (m # ms)" "segment uuid ch h m a b" "m' \<in> set ms" "x \<in> want uuid ch since m'" "int a \<le> since \<or> int b \<le> since"
  shows "x \<in> want uuid ch since m \<and> since < int b"
proof -
  have j: "journal_of uuid m' \<noteq> None" using assms(5) by (auto simp: want_def split: if_splits)
  then obtain a' b' where s': "segment uuid ch h m' a' b'" using assms(2,4) by (auto simp: segments_def)
  have "journal_of uuid m \<noteq> None" using segment_journal [OF assms(3,1)] by auto
  then have "last_of uuid m' \<le> last_of uuid m" using assms(2,4) by (auto simp: segments_def)
  then have le: "b' \<le> b" using segment_last [OF s' assms(1)] segment_last [OF assms(3,1)] by simp
  obtain q y where x: "x = (q, Some y)" "(q, y) \<in> set (drop a' (take b' h))" "since < q"
    using assms(5) unfolding want_segment [OF s' assms(1)] later_def by auto
  obtain i where i: "i < b'" "i < length h" "h ! i = (q, y)" "q = int i + 1" using seg_entry [OF assms(1) x(2)] by auto
  have "since < int b" using x(3) i(1,4) le by simp
  moreover have "a \<le> i" using assms(6) calculation x(3) i(4) by simp
  then have "(q, y) \<in> set (drop a (take b h))" using seg_nth [of a i b h] i le by simp
  ultimately show ?thesis unfolding want_segment [OF assms(3,1)] later_def x(1) using x(3) by simp
qed

lemma list_page_pairs:
  assumes "hist_ok h" "honest_bodies dl ch" "segments uuid ch h ms"
  shows "(list_page dl uuid since mx ms out = Go out' \<or> list_page dl uuid since mx ms out = Halt (Inr out')) \<Longrightarrow>
    pairs out' = pairs out \<union> (\<Union>m\<in>set ms. want uuid ch since m)"
  using assms(3)
proof (induction ms arbitrary: out)
  case (Cons m ms)
  have segs: "segments uuid ch h ms" using Cons.prems(2) by (simp add: segments_def)
  show ?case
  proof (cases "journal_of uuid m")
    case None
    then show ?thesis using Cons.IH [of out] Cons.prems(1) segs by (simp add: want_def)
  next
    case (Some c)
    then obtain a b where seg: "segment uuid ch h m a b" using Cons.prems(2) by (auto simp: segments_def)
    have c: "is_batch c" "jc_first c = int a + 1" "jc_last c = int b" using segment_journal [OF seg assms(1)] Some by auto
    note old = older_within [OF assms(1) Cons.prems(2) seg]
    show ?thesis
    proof (cases "int b \<le> since")
      case True
      then have "out' = out" using Cons.prems(1) Some c by simp
      moreover have "want uuid ch since m = {}"
        unfolding want_segment [OF seg assms(1)] later_def using seg_entry [OF assms(1)] True by fastforce
      moreover have "want uuid ch since m' = {}" if "m' \<in> set ms" for m' using old [OF that] True by fastforce
      ultimately show ?thesis by simp
    next
      case False
      obtain es where es: "dl (cm_id m) = Inr es" using Cons.prems(1) Some c False by (auto split: sum.splits)
      then have body: "es = drop a (take b h)" using assms(2) seg by (auto simp: honest_bodies_def segment_def)
      obtain out1 where o: "take_entries since mx (cm_id m) es out = Inr out1" using Cons.prems(1) Some c False es by (auto split: sum.splits)
      have p1: "pairs out1 = pairs out \<union> want uuid ch since m"
        using take_entries_pairs [OF o] want_segment [OF seg assms(1)] body by simp
      show ?thesis
      proof (cases "int a \<le> since")
        case True
        then have "out' = out1" using Cons.prems(1) Some c False es o by simp
        moreover have "want uuid ch since m' \<subseteq> want uuid ch since m" if "m' \<in> set ms" for m' using old [OF that] True by blast
        ultimately show ?thesis using p1 by auto
      next
        case far: False
        then have "list_page dl uuid since mx ms out1 = Go out' \<or> list_page dl uuid since mx ms out1 = Halt (Inr out')"
          using Cons.prems(1) Some c False es o by simp
        then show ?thesis using Cons.IH segs p1 by auto
      qed
    qed
  qed
qed simp

lemma posted_segments: "posted_upto uuid ch h e \<Longrightarrow> segments uuid ch h (ch_msgs ch)"
  unfolding posted_upto_def segments_def by blast

lemma posted_want:
  assumes "hist_ok h" "posted_upto uuid ch h e"
  shows "(\<Union>m\<in>set (ch_msgs ch). want uuid ch since m) = later since (take e h)"
proof (intro equalityI subsetI)
  fix x assume "x \<in> (\<Union>m\<in>set (ch_msgs ch). want uuid ch since m)"
  then obtain m where m: "m \<in> set (ch_msgs ch)" "x \<in> want uuid ch since m" by blast
  then have "journal_of uuid m \<noteq> None" by (auto simp: want_def split: if_splits)
  then obtain a b where s: "segment uuid ch h m a b" "b \<le> e" using assms(2) m(1) unfolding posted_upto_def by blast
  have "take b h = take b (take e h)" using s(2) by (simp add: min_absorb1)
  then have "set (drop a (take b h)) \<subseteq> set (take e h)" by (metis set_drop_subset set_take_subset order_trans)
  then show "x \<in> later since (take e h)" using m(2) unfolding want_segment [OF s(1) assms(1)] later_def by blast
next
  fix x assume "x \<in> later since (take e h)"
  then obtain q y where x: "x = (q, Some y)" "(q, y) \<in> set (drop 0 (take e h))" "since < q" by (auto simp: later_def)
  obtain i where i: "i < e" "i < length h" "h ! i = (q, y)" using seg_entry [OF assms(1) x(2)] by auto
  obtain m a b where m: "m \<in> set (ch_msgs ch)" "segment uuid ch h m a b" "a \<le> i" "i < b"
    using assms(2) i(1) unfolding posted_upto_def by blast
  have "(q, y) \<in> set (drop a (take b h))" using seg_nth [OF m(3,4) i(2)] i(3) by simp
  then have "x \<in> want uuid ch since m" unfolding want_segment [OF m(2) assms(1)] later_def x(1) using x(3) by blast
  then show "x \<in> (\<Union>m\<in>set (ch_msgs ch). want uuid ch since m)" using m(1) by blast
qed

lemma list_complete:
  assumes "hist_ok h" "posted_upto uuid ch h e" "honest_history pg hist (ch_msgs ch)" "honest_bodies dl ch"
    and "list_journal_ops hist dl uuid since mx = Inr out"
  shows "pairs out = later since (take e h)"
proof -
  let ?mx = "if mx \<le> 0 then 100000 else mx"
  have s: "sorted_ids (ch_msgs ch)" using assms(2) by (simp add: posted_upto_def)
  note p = listing.scan_whole [OF assms(3) s, where n = page_hard_cap and dl = dl and uuid = uuid and since = since and mx = ?mx and a = "[]",
      unfolded listing.passed_def]
  have "list_page dl uuid since ?mx (ch_msgs ch) [] = Go out \<or> list_page dl uuid since ?mx (ch_msgs ch) [] = Halt (Inr out)"
    using p assms(5) unfolding list_journal_ops_def
    by (cases "scan_pages page_hard_cap hist (list_page dl uuid since ?mx) 0 []") simp_all
  from list_page_pairs [OF assms(1,4) posted_segments [OF assms(2)] this] show ?thesis
    unfolding posted_want [OF assms(1,2)] by (simp add: pairs_def)
qed

section \<open>The replay of the listing\<close>

lemma remdups_strict:
  fixes f :: "'a \<Rightarrow> 'b :: linorder"
  assumes "sorted (map f xs)" "inj_on f (set xs)"
  shows "sorted_wrt (<) (map f (remdups_adj xs))"
  using assms
proof (induction xs rule: remdups_adj.induct)
  case (3 x y xs)
  show ?case
  proof (cases "x = y")
    case True
    then show ?thesis using 3 by simp
  next
    case False
    then have "f x < f y" using 3(3,4) by (simp add: order_less_le inj_on_def)
    moreover have "f y \<le> f z" if "z \<in> set (y # xs)" for z using 3(3) that by auto
    ultimately have "\<forall>z\<in>set (y # xs). f x < f z" by (meson order_less_le_trans)
    then show ?thesis using 3(2) [OF False] 3(3,4) False by simp
  qed
qed simp_all

lemma remdups_unique:
  fixes f :: "'a \<Rightarrow> 'b :: linorder"
  assumes "sorted (map f xs)" "sorted_wrt (<) (map f ys)" "set xs = set ys"
  shows "remdups_adj xs = ys"
proof -
  have inj: "inj_on f (set ys)" using assms(2) by (simp add: strict_sorted_iff distinct_map)
  have "sorted_wrt (<) (map f (remdups_adj xs))" using remdups_strict [OF assms(1)] inj assms(3) by simp
  then show ?thesis using assms(2,3) inj
    by (intro map_sorted_distinct_set_unique [where f = f]) (simp_all add: strict_sorted_iff)
qed

lemma replay_msgs_all:
  "\<forall>m\<in>set ms. jm_op m \<noteq> None \<Longrightarrow> snd (replay_msgs now ms s) = snd (replay_all now (map (\<lambda>m. the (jm_op m)) ms) s) \<and>
    (fst (replay_msgs now ms s) = Inr () \<longleftrightarrow> fst (replay_all now (map (\<lambda>m. the (jm_op m)) ms) s) = Inr ())"
proof (induction ms arbitrary: s)
  case (Cons m ms)
  obtain x where x: "jm_op m = Some x" using Cons.prems by auto
  obtain r t where "replay_op now x s = (r, t)" by fastforce
  then show ?case using Cons.IH [of t] Cons.prems x by (cases r) auto
qed simp

lemma hist_strict: "hist_ok h \<Longrightarrow> sorted_wrt (<) (map fst h)"
  by (simp add: hist_ok_def sorted_wrt_map sorted_wrt_iff_nth_less)

lemma replay_listing:
  assumes "hist_ok h" "pairs out = later (int v) (take e h)" "store_wf s0"
  shows "\<exists>r. replay_msgs now (sort_key jm_seq out) s0 = r \<and>
    (fst r = Inr () \<longleftrightarrow> fst (replay_all now (map snd (drop v (take e h))) s0) = Inr ()) \<and>
    er (snd r) = er (snd (replay_all now (map snd (drop v (take e h))) s0))"
proof -
  let ?f = "\<lambda>j. (jm_seq j, the (jm_op j))" and ?ys = "drop v (take e h)"
  let ?xs = "map ?f (sort_key jm_seq out)"
  have some: "jm_op j \<noteq> None" if "j \<in> set out" for j
  proof -
    have "(jm_seq j, jm_op j) \<in> pairs out" using that by (auto simp: pairs_def)
    then show ?thesis unfolding assms(2) by (auto simp: later_def)
  qed
  have ys: "set ?ys = {x \<in> set (take e h). int v < fst x}"
  proof (intro equalityI subsetI)
    fix x assume "x \<in> set ?ys"
    then obtain i where "v \<le> i" "i < e" "i < length h" "h ! i = x" "fst x = int i + 1"
      using seg_entry [OF assms(1), of "fst x" "snd x" v e] by auto
    then show "x \<in> {x \<in> set (take e h). int v < fst x}" using seg_nth [of 0 i e h] by simp
  next
    fix x assume "x \<in> {x \<in> set (take e h). int v < fst x}"
    then obtain i where "i < e" "i < length h" "h ! i = x" "fst x = int i + 1" "int v < fst x"
      using seg_entry [OF assms(1), of "fst x" "snd x" 0 e] by auto
    then show "x \<in> set ?ys" using seg_nth [of v i e h] by simp
  qed
  have "set ?xs = (\<lambda>(q, x). (q, the x)) ` pairs out" by (force simp: pairs_def)
  also have "\<dots> = set ?ys" unfolding assms(2) ys by (force simp: later_def)
  finally have set: "set ?xs = set ?ys" .
  have "sorted_wrt (<) (map fst ?ys)" using hist_strict [OF assms(1)] by (simp add: drop_map [symmetric] take_map [symmetric] sorted_wrt_drop sorted_wrt_take)
  moreover have "sorted (map fst ?xs)" by (simp add: o_def)
  ultimately have "remdups_adj ?xs = ?ys" using set by (intro remdups_unique [where f = fst])
  moreover have "\<forall>x\<in>set ?xs. numbered (snd x)" unfolding set ys using assms(1) by (fastforce simp: hist_ok_def dest: in_set_takeD)
  ultimately have sr: "same_res (replay_all now (map snd ?xs) s0) (replay_all now (map snd ?ys) s0)"
    using replay_remdups [OF assms(3), of ?xs snd now] by (simp only:)
  have eq: "map snd ?xs = map (\<lambda>m. the (jm_op m)) (sort_key jm_seq out)" by simp
  have "\<forall>m\<in>set (sort_key jm_seq out). jm_op m \<noteq> None" using some by simp
  from replay_msgs_all [OF this, of now s0] show ?thesis using sr unfolding eq by (auto simp: same_res_def)
qed

section \<open>The states along a run\<close>

lemma wal_step_cases:
  assumes "wal_step uuid sz W Y" "wal_ok uuid sz W"
  shows "(wl_hist Y = wl_hist W \<and> er (wl_store Y) = er (wl_store W)) \<or>
    (\<exists>now op row. live_ok op \<and> wl_store Y = run_live now op (wl_store W) \<and>
      st_journal (wl_store Y) = st_journal (wl_store W) @ [row] \<and> wl_hist Y = wl_hist W @ [entry_of row])"
  using assms
proof (induction rule: wal_step.induct)
  case (wal_live op t now W)
  have w: "store_wf (wl_store W)" "\<not> st_replaying (wl_store W)" using wal_live(3) by (simp_all add: wal_ok_alt)
  show ?case using replay_one [OF w(1) wal_live(1) w(2) refl w(2), of 0 now] wal_live(1,2)
    unfolding replays_as_def by fastforce
next
  case (wal_post W E r t c)
  then show ?case using drain_batch_store(4) [OF wal_post(3)] by simp
qed (simp_all add: delete_journal_fields)

lemma wal_run_prefix: "wal_run uuid sz V W \<Longrightarrow> wal_ok uuid sz V \<Longrightarrow> \<exists>x. wl_hist W = wl_hist V @ x"
proof (induction rule: wal_run.induct)
  case (wal_run_step V W X)
  then show ?case using wal_step_cases [OF wal_run_step(2) wal_run_ok [OF wal_run_step(1,4)]] by auto
qed simp

lemma wal_run_between:
  "wal_run uuid sz V W \<Longrightarrow> wal_ok uuid sz V \<Longrightarrow> length (wl_hist V) \<le> n \<Longrightarrow> n \<le> length (wl_hist W) \<Longrightarrow>
    \<exists>X. wal_run uuid sz V X \<and> wal_run uuid sz X W \<and> wl_hist X = take n (wl_hist W)"
proof (induction rule: wal_run.induct)
  case (wal_run_refl V)
  then show ?case by (intro exI [of _ V]) (simp add: wal_run.wal_run_refl)
next
  case (wal_run_step V W Y)
  have c: "wl_hist Y = wl_hist W \<or> (\<exists>x. wl_hist Y = wl_hist W @ [x])"
    using wal_step_cases [OF wal_run_step(2) wal_run_ok [OF wal_run_step(1,4)]] by blast
  show ?case
  proof (cases "n \<le> length (wl_hist W)")
    case True
    then obtain X where "wal_run uuid sz V X" "wal_run uuid sz X W" "wl_hist X = take n (wl_hist W)" using wal_run_step by blast
    then show ?thesis using c True wal_run_step(2) by (intro exI [of _ X]) (auto intro: wal_run.wal_run_step)
  next
    case False
    then have "n = length (wl_hist Y)" using c wal_run_step(6) by auto
    then show ?thesis using wal_run_step(1,2) by (intro exI [of _ Y]) (auto intro: wal_run.intros)
  qed
qed

lemma wal_run_replays:
  "wal_run uuid sz V W \<Longrightarrow> wal_ok uuid sz V \<Longrightarrow> er s0 = er (wl_store V) \<Longrightarrow> \<not> st_replaying s0 \<Longrightarrow>
    \<exists>t. replay_all now (map snd (drop (length (wl_hist V)) (wl_hist W))) s0 = (Inr (), t) \<and> er t = er (wl_store W) \<and> \<not> st_replaying t"
proof (induction rule: wal_run.induct)
  case (wal_run_step V W Y)
  have ok: "wal_ok uuid sz W" using wal_run_ok [OF wal_run_step(1,4)] .
  then have w: "store_wf (wl_store W)" "\<not> st_replaying (wl_store W)" by (simp_all add: wal_ok_alt)
  obtain t where t: "replay_all now (map snd (drop (length (wl_hist V)) (wl_hist W))) s0 = (Inr (), t)" "er t = er (wl_store W)" "\<not> st_replaying t"
    using wal_run_step by blast
  obtain x where pre: "wl_hist W = wl_hist V @ x" using wal_run_prefix [OF wal_run_step(1,4)] by blast
  consider "wl_hist Y = wl_hist W" "er (wl_store Y) = er (wl_store W)"
    | now0 op row where "live_ok op" "wl_store Y = run_live now0 op (wl_store W)"
        "st_journal (wl_store Y) = st_journal (wl_store W) @ [row]" "wl_hist Y = wl_hist W @ [entry_of row]"
    using wal_step_cases [OF wal_run_step(2) ok] by blast
  then show ?case
  proof cases
    case 1
    then show ?thesis using t by simp
  next
    case 2
    obtain u where u: "replay_op now (j_op row) t = (Inr (), u)" "er u = er (wl_store Y)" "\<not> st_replaying u"
      using replay_one [OF w(1) 2(1) w(2) t(2,3), of now now0] 2(2,3) by (auto simp: replays_as_def)
    have "replay_all now (xs @ [y]) s = (case replay_all now xs s of (Inl e, s1) \<Rightarrow> (Inl e, s1) | (Inr _, s1) \<Rightarrow> replay_all now [y] s1)" for xs y s
      by (induction xs arbitrary: s) (auto split: prod.splits sum.splits)
    then have "replay_all now (map snd (drop (length (wl_hist V)) (wl_hist Y))) s0 = (Inr (), u)"
      using t(1) u(1) pre by (simp add: 2(4) entry_of_def)
    then show ?thesis using u(2,3) by blast
  qed
qed simp

section \<open>Properties\<close>

lemma wal_okD:
  assumes "wal_ok uuid sz W"
  obtains e where "hist_ok (wl_hist W)" "posted_upto uuid (wl_ch W) (wl_hist W) e"
    "length (wl_hist W) \<le> e + length (pend (wl_store W))"
  using assms unfolding wal_ok_def by auto

text \<open>A life: three ops are posted but only one is marked, a fourth follows, three are posted again.\<close>

definition live_on :: "int \<Rightarrow> live_op \<Rightarrow> wal \<Rightarrow> wal" where
  "live_on now op W = W\<lparr>wl_store := run_live now op (wl_store W),
     wl_hist := wl_hist W @ map entry_of (drop (length (st_journal (wl_store W))) (st_journal (run_live now op (wl_store W))))\<rparr>"

definition post_on :: "drain_env \<Rightarrow> wal \<Rightarrow> wal" where
  "post_on E W0 = (let W = W0\<lparr>wl_work := pending_journal (wl_store W0)\<rparr> in
     case drain_batch 3 ''u'' E (wl_work W) (wl_store W) (wl_ch W) of
       (r, t, c) \<Rightarrow> W\<lparr>wl_work := (case r of Inl _ \<Rightarrow> [] | Inr rest \<Rightarrow> rest), wl_store := t, wl_ch := c\<rparr>)"

definition wal0 :: wal where
  "wal0 = \<lparr>wl_hist = [], wl_store = init_schema 0 0 1 ''u'' empty_store, wl_ch = \<lparr>ch_msgs = [], ch_bodies = []\<rparr>, wl_work = []\<rparr>"

definition wal3 :: wal where
  "wal3 = live_on 4 (LRename 1 ''f'' 1 ''h'') (live_on 3 (LCreate 1 ''g'' (plain_inode KindDir)) (live_on 2 (LCreate 1 ''f'' (plain_inode KindFile)) wal0))"

definition wal5 :: wal where
  "wal5 = live_on 6 (LUnlink 1 ''g'') (post_on \<lparr>de_msg = 4, de_answer = Posted, de_now = 5, de_mark = Some 1\<rparr> wal3)"

definition wal6 :: wal where
  "wal6 = post_on \<lparr>de_msg = 9, de_answer = Posted, de_now = 7, de_mark = None\<rparr> wal5"

lemma live_on_run: "wal_run uuid sz V W \<Longrightarrow> live_ok op \<Longrightarrow> wal_run uuid sz V (live_on now op W)"
  unfolding live_on_def by (rule wal_run_step, assumption) (rule wal_step.wal_live [OF _ refl])

lemma post_on_run:
  assumes "wal_run ''u'' 3 V W" "pending_journal (wl_store W) \<noteq> []" "newer_msg (de_msg E) (wl_ch W)"
  shows "wal_run ''u'' 3 V (post_on E W)"
proof -
  let ?W = "W\<lparr>wl_work := pending_journal (wl_store W)\<rparr>"
  have r: "wal_run ''u'' 3 V ?W" using assms(1) by (rule wal_run_step) (rule wal_step.wal_read)
  obtain x t c where d: "drain_batch 3 ''u'' E (wl_work ?W) (wl_store ?W) (wl_ch ?W) = (x, t, c)" by (metis prod_cases3)
  have "wal_step ''u'' 3 ?W (post_on E W)"
    using wal_step.wal_post [where W = ?W and E = E, OF _ _ d] assms(2,3) d by (simp add: post_on_def Let_def)
  with r show ?thesis by (rule wal_run_step)
qed

lemma wal0_init: "wal_init ''u'' wal0"
proof -
  have "\<not> st_replaying (wl_store wal0)" "st_journal (wl_store wal0) = []" "st_jnl_seq (wl_store wal0) = 0" by code_simp+
  then show ?thesis using init_schema_wf by (simp add: wal_init_def wal0_def sorted_ids_def)
qed

lemma wal6_run: "wal_run ''u'' 3 wal0 wal6"
proof -
  have p: "length (pending_journal (wl_store wal3)) = 3" "length (pending_journal (wl_store wal5)) = 3" by code_simp+
  have m: "ch_msgs (wl_ch wal3) = []" "map cm_id (ch_msgs (wl_ch wal5)) = [4]" by code_simp+
  have n: "newer_msg 4 (wl_ch wal3)" "newer_msg 9 (wl_ch wal5)" using m by (auto simp: newer_msg_def)
  have "wal_run ''u'' 3 wal0 wal3" unfolding wal3_def by (intro live_on_run wal_run_refl) (simp_all add: plain_inode_def)
  then have "wal_run ''u'' 3 wal0 (post_on \<lparr>de_msg = 4, de_answer = Posted, de_now = 5, de_mark = Some 1\<rparr> wal3)"
    using p(1) n(1) by (intro post_on_run) auto
  then have "wal_run ''u'' 3 wal0 wal5" unfolding wal5_def by (rule live_on_run) simp
  then show ?thesis unfolding wal6_def using p(2) n(2) by (intro post_on_run) auto
qed

text \<open>C25.  The listing is complete or it fails.  Whatever the poster went through (uploads that failed or
  were answered with an error after the message was posted, marks that failed half way, restarts,
  pruning, other messages in between), and wherever the page borders fall: a listing that
  succeeds holds, above the given sequence number, exactly the first e ops ever journaled, where
  every op beyond e is still waiting in the table.  A truncated listing is never returned.
\<close>
theorem journal_listing_complete:
  assumes "wal_init uuid V" "wal_run uuid sz V W"
    and "honest_history pg hist (ch_msgs (wl_ch W))" "honest_bodies dl (wl_ch W)"
    and "list_journal_ops hist dl uuid since mx = Inr out"
  shows "\<exists>e \<le> length (wl_hist W). length (wl_hist W) \<le> e + length (pend (wl_store W)) \<and>
    (\<lambda>j. (jm_seq j, jm_op j)) ` set out = {(int i + 1, Some (snd (wl_hist W ! i))) | i. i < e \<and> since \<le> int i}"
proof -
  have "wal_ok uuid sz W" using wal_run_ok [OF assms(2) wal_init_ok [OF assms(1)]] .
  then obtain e where h: "hist_ok (wl_hist W)" "posted_upto uuid (wl_ch W) (wl_hist W) e"
      "length (wl_hist W) \<le> e + length (pend (wl_store W))" by (rule wal_okD)
  have e: "e \<le> length (wl_hist W)" using h(2) by (simp add: posted_upto_def)
  have "later since (take e (wl_hist W)) = {(int i + 1, Some (snd (wl_hist W ! i))) | i. i < e \<and> since \<le> int i}"
  proof (intro equalityI subsetI)
    fix x assume "x \<in> later since (take e (wl_hist W))"
    then obtain q y where x: "x = (q, Some y)" "(q, y) \<in> set (drop 0 (take e (wl_hist W)))" "since < q" by (auto simp: later_def)
    obtain i where i: "i < e" "wl_hist W ! i = (q, y)" "q = int i + 1" using seg_entry [OF h(1) x(2)] by auto
    then show "x \<in> {(int i + 1, Some (snd (wl_hist W ! i))) | i. i < e \<and> since \<le> int i}"
      using x by (auto intro!: exI [of _ i])
  next
    fix x assume "x \<in> {(int i + 1, Some (snd (wl_hist W ! i))) | i. i < e \<and> since \<le> int i}"
    then obtain i where i: "x = (int i + 1, Some (snd (wl_hist W ! i)))" "i < e" "since \<le> int i" by blast
    then have "wl_hist W ! i \<in> set (take e (wl_hist W))" using seg_nth [of 0 i e "wl_hist W"] e by simp
    moreover have "fst (wl_hist W ! i) = int i + 1" using hist_seq [OF h(1)] i(2) e by simp
    ultimately show "x \<in> later since (take e (wl_hist W))" using i by (auto simp: later_def intro!: exI [of _ "int i + 1"] prod_eqI) (metis prod.collapse)
  qed
  then show ?thesis using list_complete [OF h(1,2) assms(3,4,5)] h(3) e by (auto simp: pairs_def)
qed

lemma journal_listing_complete_witness:
  "(\<lambda>j. (jm_seq j, jm_op j)) ` set (case list_journal_ops (get_history (ch_msgs (wl_ch wal6))) (get_body (wl_ch wal6)) ''u'' 0 0 of
      Inr out \<Rightarrow> out | Inl _ \<Rightarrow> []) = {(int i + 1, Some (snd (wl_hist wal6 ! i))) | i. i < 4 \<and> 0 \<le> int i}"
proof -
  obtain out where out: "list_journal_ops (get_history (ch_msgs (wl_ch wal6))) (get_body (wl_ch wal6)) ''u'' 0 0 = Inr out"
  proof -
    have "is_ok (list_journal_ops (get_history (ch_msgs (wl_ch wal6))) (get_body (wl_ch wal6)) ''u'' 0 0)" by code_simp
    then show ?thesis using that by (cases "list_journal_ops (get_history (ch_msgs (wl_ch wal6))) (get_body (wl_ch wal6)) ''u'' 0 0") auto
  qed
  have len: "length (wl_hist wal6) = 4" "length (pend (wl_store wal6)) = 0" by code_simp+
  obtain e where e: "e \<le> 4" "4 \<le> e"
      "(\<lambda>j. (jm_seq j, jm_op j)) ` set out = {(int i + 1, Some (snd (wl_hist wal6 ! i))) | i. i < e \<and> 0 \<le> int i}"
    using journal_listing_complete [OF wal0_init wal6_run get_history_honest get_body_honest out] len by auto
  then have "e = 4" by simp
  then show ?thesis using e(3) out by simp
qed



section \<open>A recovered file system recovered again\<close>

text \<open>
  One life: a file is created, removed and created again; then the database is lost.  The recovered
  store gets a chunk, its first snapshot is posted, and the database is lost again.
\<close>

definition life :: wal where
  "life = post_on \<lparr>de_msg = 4, de_answer = Posted, de_now = 5, de_mark = None\<rparr>
     (live_on 4 (LCreate 1 ''f'' (plain_inode KindFile)) (live_on 3 (LUnlink 1 ''f'') (live_on 2 (LCreate 1 ''f'' (plain_inode KindFile)) wal0)))"

definition first_channel :: "chan_msg list" where "first_channel = ch_msgs (wl_ch life) @ [snap_msg 1 (last_journal_seq (wl_store wal0))]"

definition first_recovery :: "recover_err + store option" where
  "first_recovery = try_recover 50 (get_history first_channel) (get_history first_channel) (get_body (wl_ch life)) (\<lambda>_. Inr (wl_store wal0))"

definition second_life :: store where
  "second_life = (case first_recovery of Inr (Some s) \<Rightarrow>
      snd (put_chunk \<lparr>ch_ino = 3, ch_idx = 0, ch_msg = 77, ch_size = 10, ch_pack_offset = 0, ch_pack_size = 0\<rparr> s) | _ \<Rightarrow> wl_store wal0)"

definition second_channel :: "chan_msg list" where "second_channel = snap_msg 9 (last_journal_seq second_life) # first_channel"

definition second_recovery :: "recover_err + store option" where
  "second_recovery = try_recover 60 (get_history second_channel) (get_history second_channel) (get_body (wl_ch life))
     (\<lambda>i. Inr (if i = 9 then second_life else wl_store wal0))"

text \<open>A recovery replays the journal without advancing the journal's sequence.  So the first snapshot of
  the recovered file system carries the number of the old one, and until new ops are posted a second
  recovery replays the old ops again, over a store that has them: here the unlink removes the file
  of the recovered system, and the chunk written to it is gone although its row was in the snapshot.
\<close>
theorem second_recovery_drops_chunks:
  "wal_run ''u'' 3 wal0 life \<and>
   (case first_recovery of Inr (Some s) \<Rightarrow> er s = er (wl_store life) \<and> last_journal_seq s = 0 | _ \<Rightarrow> False) \<and>
   map ch_msg (list_chunks 3 second_life) = [77] \<and> is_ok (lookup 1 ''f'' second_life) \<and>
   (case second_recovery of Inr (Some s) \<Rightarrow> is_ok (lookup 1 ''f'' s) \<and> list_chunks 3 s = [] | _ \<Rightarrow> False)"
proof (intro conjI)
  let ?w = "live_on 4 (LCreate 1 ''f'' (plain_inode KindFile)) (live_on 3 (LUnlink 1 ''f'') (live_on 2 (LCreate 1 ''f'' (plain_inode KindFile)) wal0))"
  have "length (pending_journal (wl_store ?w)) = 3" "ch_msgs (wl_ch ?w) = []" by code_simp+
  moreover have "wal_run ''u'' 3 wal0 ?w" by (intro live_on_run wal_run_refl) (simp_all add: plain_inode_def)
  ultimately show "wal_run ''u'' 3 wal0 life" unfolding life_def by (intro post_on_run) (auto simp: newer_msg_def)
qed code_simp+

end
