(* ===== verification/Snapshots.thy ===== *)
theory Snapshots
  imports Envelope WalProps
begin

text \<open>
  The snapshot manager of \<open>internal/snapshot/manager.go\<close> with \<open>Take\<close> and \<open>Restore\<close> of
  \<open>snapshot.go\<close>, and \<open>UploadSnapshot\<close> and \<open>DeleteChannelMessages\<close> of \<open>internal/tg/snapshot.go\<close>.
  A copy of the database is the store itself; VACUUM INTO with gzip and the way back are the record
  \<open>db_codec\<close>.  What other goroutines do to the store while a cycle runs is a function of the environment.
\<close>

section \<open>Copies of the database\<close>

text \<open>The decoder answers None for a stream that does not gunzip or is no database with an inode table.\<close>

record db_codec =
  db_pack :: "store \<Rightarrow> bytes"
  db_unpack :: "bytes \<Rightarrow> store option"

text \<open>The write counter and the replay flag live in memory only.\<close>

definition on_disk :: "store \<Rightarrow> store" where "on_disk s = s\<lparr>st_write_ctr := 0, st_replaying := False\<rparr>"

text \<open>The copy of this store unpacks, and gzip's first bytes are not those of an envelope.\<close>

definition db_faithful :: "db_codec \<Rightarrow> store \<Rightarrow> bool" where
  "db_faithful D s \<longleftrightarrow> db_unpack D (db_pack D s) = Some (on_disk s) \<and> \<not> is_wrapped (db_pack D s)"

datatype snap_err =
  SnapSeq string | SnapUuid meta_err | SnapVacuum string | SnapKey key_err | SnapUpload string | SnapStore string

record snapshot_image =
  si_bytes :: bytes
  si_uuid :: string
  si_seq :: int

text \<open>
  \<open>Take\<close> reads the uuid and the sequence first and copies afterwards: \<open>mid\<close> is what happens between.
  The last argument of the result is the store as it then is.
\<close>

definition take_snapshot :: "db_codec \<Rightarrow> string option \<Rightarrow> (store \<Rightarrow> store) \<Rightarrow> store \<Rightarrow> (snap_err + snapshot_image) \<times> store" where
  "take_snapshot D fails mid s =
     (case fs_uuid s of
        Inl e \<Rightarrow> (Inl (SnapUuid e), s)
      | Inr uuid \<Rightarrow>
          (let seq = last_journal_seq s; s1 = mid s in
           case fails of
             Some e \<Rightarrow> (Inl (SnapVacuum e), s1)
           | None \<Rightarrow> (Inr \<lparr>si_bytes = db_pack D s1, si_uuid = uuid, si_seq = seq\<rparr>, s1)))"

text \<open>
  \<open>Restore\<close>: the files are the database with its write-ahead log and shared memory.  \<open>fails\<close> is the step
  that fails: the temporary file (0), the removal of a side file (1, 2), the rename (3).
\<close>

record db_files =
  df_main :: "store option"
  df_wal :: bool
  df_shm :: bool

definition restore_snapshot :: "db_codec \<Rightarrow> nat option \<Rightarrow> bytes \<Rightarrow> db_files \<Rightarrow> (string + unit) \<times> db_files" where
  "restore_snapshot D fails gz F =
     (case db_unpack D gz of
        None \<Rightarrow> (Inl ''restore: gunzip'', F)
      | Some s \<Rightarrow>
          if fails = Some 0 then (Inl ''restore: write tmp'', F)
          else if fails = Some 1 \<and> df_wal F then (Inl ''restore: remove stale'', F)
          else
            (let F1 = F\<lparr>df_wal := False\<rparr> in
             if fails = Some 2 \<and> df_shm F1 then (Inl ''restore: remove stale'', F1)
             else
               (let F2 = F1\<lparr>df_shm := False\<rparr> in
                if fails = Some 3 then (Inl ''rename'', F2) else (Inr (), F2\<lparr>df_main := Some s\<rparr>))))"

section \<open>The manager\<close>

definition KVCurrentMsgID :: string where "KVCurrentMsgID = ''snap_msg_id''"
definition KVCurrentJournalSeq :: string where "KVCurrentJournalSeq = ''snap_journal_seq''"
definition DefaultRetention :: int where "DefaultRetention = 12"

record snap_manager =
  sm_retention :: int
  sm_cipher :: "cipher option"
  sm_counter :: int
  sm_have :: bool

definition baseline :: "snap_manager \<Rightarrow> int \<times> bool" where "baseline m = (sm_counter m, sm_have m)"

definition set_baseline :: "int \<Rightarrow> snap_manager \<Rightarrow> snap_manager" where
  "set_baseline counter m = m\<lparr>sm_counter := counter, sm_have := True\<rparr>"

definition retention :: "snap_manager \<Rightarrow> int" where
  "retention m = (if sm_retention m \<le> 0 then DefaultRetention else sm_retention m)"

definition load_current_msg_id :: "store \<Rightarrow> snap_err + int" where
  "load_current_msg_id s =
     (case get_kv KVCurrentMsgID s of
        Inl e \<Rightarrow> Inl (SnapStore KVCurrentMsgID)
      | Inr v \<Rightarrow> (case parse_int v of None \<Rightarrow> Inl (SnapStore KVCurrentMsgID) | Some i \<Rightarrow> Inr i))"

definition store_current_msg_id :: "int \<Rightarrow> store \<Rightarrow> store" where
  "store_current_msg_id i s = snd (put_kv KVCurrentMsgID (fmt_int i) s)"

definition load_current_journal_seq :: "store \<Rightarrow> snap_err + (int \<times> bool)" where
  "load_current_journal_seq s =
     (case get_kv KVCurrentJournalSeq s of
        Inl e \<Rightarrow> if e = ErrNotFound then Inr (0, False) else Inl (SnapStore KVCurrentJournalSeq)
      | Inr v \<Rightarrow> (case parse_int v of None \<Rightarrow> Inl (SnapStore KVCurrentJournalSeq) | Some q \<Rightarrow> Inr (q, True)))"

definition store_current_journal_seq :: "int \<Rightarrow> store \<Rightarrow> store" where
  "store_current_journal_seq q s = snd (put_kv KVCurrentJournalSeq (fmt_int q) s)"

definition synced :: "snap_manager \<Rightarrow> store \<Rightarrow> bool" where
  "synced m s =
     (case baseline m of (last_counter, have) \<Rightarrow>
        if \<not> have \<or> st_write_ctr s \<noteq> last_counter then False
        else (case load_current_journal_seq s of
            Inl _ \<Rightarrow> False
          | Inr (prev_seq, had_prev) \<Rightarrow> had_prev \<and> last_journal_seq s = prev_seq))"

section \<open>The channel\<close>

text \<open>Messages, newest first, and the files of the snapshots among them.\<close>

record snap_channel =
  sn_msgs :: "chan_msg list"
  sn_files :: "(int \<times> bytes) list"

definition post_snapshot :: "int \<Rightarrow> snapshot_caption \<Rightarrow> bytes \<Rightarrow> snap_channel \<Rightarrow> snap_channel" where
  "post_snapshot msg cap body ch =
     ch\<lparr>sn_msgs := \<lparr>cm_id = msg, cm_message = True, cm_doc = True, cm_caption = CapSnap cap\<rparr> # sn_msgs ch,
        sn_files := (msg, body) # sn_files ch\<rparr>"

definition upload_snapshot :: "post_answer \<Rightarrow> int \<Rightarrow> bytes \<Rightarrow> int \<Rightarrow> int \<Rightarrow> string \<Rightarrow> snap_channel \<Rightarrow> (string + int) \<times> snap_channel" where
  "upload_snapshot answer msg body seq ts uuid ch =
     (let cap = \<lparr>sc_seq = seq, sc_ts = ts, sc_uuid = uuid\<rparr> in
      case answer of
        Posted \<Rightarrow> (Inr msg, post_snapshot msg cap body ch)
      | PostFailed e \<Rightarrow> (Inl e, ch)
      | PostedUnseen e \<Rightarrow> (Inl e, post_snapshot msg cap body ch))"

definition delete_channel_messages :: "string option \<Rightarrow> int list \<Rightarrow> snap_channel \<Rightarrow> (string + unit) \<times> snap_channel" where
  "delete_channel_messages fails ids ch =
     (if ids = [] then (Inr (), ch)
      else (case fails of
          Some e \<Rightarrow> (Inl e, ch)
        | None \<Rightarrow> (Inr (), ch\<lparr>sn_msgs := filter (\<lambda>m. cm_id m \<notin> set ids) (sn_msgs ch),
                              sn_files := filter (\<lambda>f. fst f \<notin> set ids) (sn_files ch)\<rparr>)))"

text \<open>\<open>hist\<close> reads the history of the channel given.\<close>

definition prune_retention :: "(chan_msg list \<Rightarrow> int \<Rightarrow> string + chan_msg list) \<Rightarrow> string option \<Rightarrow> snap_manager \<Rightarrow> string \<Rightarrow> int
    \<Rightarrow> snap_channel \<Rightarrow> (string + unit) \<times> snap_channel" where
  "prune_retention hist fails m uuid just_uploaded ch =
     (let keep = retention m in
      case list_snapshots (hist (sn_msgs ch)) uuid (keep + 64) of
        Inl e \<Rightarrow> (Inl e, ch)
      | Inr snaps \<Rightarrow>
          if int (length snaps) \<le> keep then (Inr (), ch)
          else delete_channel_messages fails (filter (\<lambda>i. i \<noteq> just_uploaded) (map fst (drop (nat keep) snaps))) ch)"

section \<open>One cycle\<close>

text \<open>
  \<open>se_mid i\<close> is what other goroutines do to the store between two calls of the cycle: before the
  uuid is read (0), between the sequence and the copy (1), from the copy to the end of the upload (2),
  and before the second (3), third (4) and last (5) of the closing steps.  The writes of the two
  keys and of the pruning may fail.
\<close>

record snap_env =
  se_mid :: "nat \<Rightarrow> store \<Rightarrow> store"
  se_vacuum :: "string option"
  se_nonce :: "bytes option"
  se_answer :: post_answer
  se_msg :: int
  se_now :: int
  se_store_fails :: "nat option"
  se_history :: "chan_msg list \<Rightarrow> int \<Rightarrow> string + chan_msg list"
  se_delete :: "string option"

datatype cycle = Skipped | Taken int

definition record_snapshot :: "snap_env \<Rightarrow> int \<Rightarrow> int \<Rightarrow> snap_manager \<Rightarrow> store \<Rightarrow> (snap_err + snap_manager) \<times> store" where
  "record_snapshot E new_id seq m s =
     (if se_store_fails E = Some 0 then (Inl (SnapStore KVCurrentMsgID), s)
      else
        (let s1 = se_mid E 3 (store_current_msg_id new_id s) in
         if se_store_fails E = Some 1 then (Inl (SnapStore KVCurrentJournalSeq), s1)
         else
           (let s2 = se_mid E 4 (store_current_journal_seq seq s1);
                s3 = se_mid E 5 (if se_store_fails E = Some 2 then s2 else snd (delete_journal_up_to seq s2))
            in (Inr (set_baseline (st_write_ctr s3) m), s3))))"

definition once :: "aead \<Rightarrow> (bytes \<Rightarrow> bytes \<Rightarrow> bytes) \<Rightarrow> header_json \<Rightarrow> db_codec \<Rightarrow> snap_env \<Rightarrow> snap_manager \<Rightarrow> store \<Rightarrow> snap_channel
    \<Rightarrow> (snap_err + cycle) \<times> snap_manager \<times> store \<times> snap_channel" where
  "once A hmac J D E m s ch =
     (case load_current_journal_seq s of
        Inl e \<Rightarrow> (Inl e, m, s, ch)
      | Inr (prev_seq, had_prev) \<Rightarrow>
          if had_prev \<and> last_journal_seq s = prev_seq \<and> snd (baseline m) \<and> st_write_ctr s = fst (baseline m) then (Inr Skipped, m, s, ch)
          else (case take_snapshot D (se_vacuum E) (se_mid E 1) (se_mid E 0 s) of
              (Inl e, s1) \<Rightarrow> (Inl e, m, s1, ch)
            | (Inr snap, s1) \<Rightarrow> (case snapshot_body A hmac J (se_nonce E) (sm_cipher m) s1 (si_bytes snap) of
                Inl e \<Rightarrow> (Inl (SnapKey e), m, s1, ch)
              | Inr body \<Rightarrow> (case upload_snapshot (se_answer E) (se_msg E) body (si_seq snap) (se_now E) (si_uuid snap) ch of
                  (Inl e, ch1) \<Rightarrow> (Inl (SnapUpload e), m, se_mid E 2 s1, ch1)
                | (Inr new_id, ch1) \<Rightarrow> (case record_snapshot E new_id (si_seq snap) m (se_mid E 2 s1) of
                    (Inl e, s2) \<Rightarrow> (Inl e, m, s2, ch1)
                  | (Inr m1, s2) \<Rightarrow> (Inr (Taken new_id), m1, s2, snd (prune_retention (se_history E) (se_delete E) m1 (si_uuid snap) new_id ch1)))))))"

text \<open>When the loop of \<open>Run\<close> takes a snapshot; times in seconds, \<open>quiesced\<close> is the check, if any.\<close>

definition DefaultInterval :: int where "DefaultInterval = 300"
definition quiesceMinGap :: int where "quiesceMinGap = 30"

definition run_interval :: "int \<Rightarrow> int" where "run_interval n = (if n \<le> 0 then DefaultInterval else n)"

definition run_tick :: "int \<Rightarrow> int" where "run_tick interval = (let t = go_div interval 10 in if t < 5 then 5 else t)"

definition due :: "int \<Rightarrow> int \<Rightarrow> bool option \<Rightarrow> snap_manager \<Rightarrow> store \<Rightarrow> bool" where
  "due interval since quiesced m s =
     (since \<ge> interval \<or> (case quiesced of None \<Rightarrow> False | Some q \<Rightarrow> since \<ge> quiesceMinGap \<and> q \<and> \<not> synced m s))"

end
