(* ===== verification/SnapProps.thy ===== *)
theory SnapProps
  imports Snapshots MetaProps
begin

text \<open>
  What the snapshot manager promises: a cycle that is skipped, and a manager that reports the channel
  in sync, lose nothing as long as nobody writes between the copy and the end of the cycle; a
  posted snapshot restores to the image that was taken; retention deletes old snapshots only.  And
  the gap: a chunk row stored while a snapshot is uploaded.
\<close>

section \<open>The write counter over many steps\<close>

lemma step_content: "meta_step s t \<Longrightarrow> same_content s t \<or> st_write_ctr s < st_write_ctr t"
  using ctr_step ctr_ok_content ctr_replay by blast

lemma same_content_trans: "same_content s t \<Longrightarrow> same_content t u \<Longrightarrow> same_content s u"
  by (simp add: same_content_def)

lemma same_content_ctr: "same_content s t \<Longrightarrow> st_write_ctr s = st_write_ctr t"
  unfolding same_content_def by (metis store.select_convs(10) store.simps(22) store.surjective store.update_convs(11))

lemma steps_content: "meta_step\<^sup>*\<^sup>* s t \<Longrightarrow> same_content s t \<or> st_write_ctr s < st_write_ctr t"
proof (induction rule: rtranclp_induct)
  case base then show ?case by (simp add: same_content_def)
next
  case (step t u)
  then show ?case using step_content [OF step(2)] same_content_trans same_content_ctr by (metis order.strict_trans)
qed

section \<open>A cycle\<close>

text \<open>Nobody writes from the end of the upload to the end of the cycle, and no closing write fails.\<close>

definition quiet :: "snap_env \<Rightarrow> bool" where
  "quiet E \<longleftrightarrow> (\<forall>j\<ge>3. \<forall>s. se_mid E j s = s) \<and> se_store_fails E = None"

definition closing :: "int \<Rightarrow> int \<Rightarrow> store \<Rightarrow> store" where
  "closing msg seq s = snd (delete_journal_up_to seq (store_current_journal_seq seq (store_current_msg_id msg s)))"

lemma once_taken:
  assumes "once A hmac J D E m s ch = (Inr (Taken i), m', s', ch')" "quiet E"
  obtains s0 s1 uuid body ch1 where "s0 = se_mid E 0 s" "s1 = se_mid E 1 s0" "fs_uuid s0 = Inr uuid"
    "snapshot_body A hmac J (se_nonce E) (sm_cipher m) s1 (db_pack D s1) = Inr body" "i = se_msg E"
    "ch1 = post_snapshot i \<lparr>sc_seq = last_journal_seq s0, sc_ts = se_now E, sc_uuid = uuid\<rparr> body ch"
    "s' = closing i (last_journal_seq s0) (se_mid E 2 s1)" "m' = set_baseline (st_write_ctr s') m"
    "ch' = snd (prune_retention (se_history E) (se_delete E) m' uuid i ch1)"
proof -
  have q: "se_mid E 3 x = x" "se_mid E 4 x = x" "se_mid E 5 x = x" "se_store_fails E = None" for x
    using assms(2) by (simp_all add: quiet_def)
  show ?thesis
    using assms(1) that
    by (auto simp: once_def take_snapshot_def upload_snapshot_def record_snapshot_def closing_def q Let_def
      split: sum.splits option.splits prod.splits if_splits post_answer.splits)
qed

lemma kv_snap_distinct [simp]: "KVCurrentMsgID \<noteq> KVCurrentJournalSeq" "KVCurrentJournalSeq \<noteq> KVCurrentMsgID"
  by (simp_all add: KVCurrentMsgID_def KVCurrentJournalSeq_def)

lemma get_kv_delete_journal [simp]: "get_kv k (snd (delete_journal_up_to q s)) = get_kv k s"
  by (simp add: delete_journal_up_to_def exec_with_retry_def get_kv_def Let_def)

lemma seq_put_kv [simp]: "st_jnl_seq (snd (put_kv k v s)) = st_jnl_seq s"
  by (simp add: put_kv_state)

lemma seq_delete_journal [simp]: "st_jnl_seq (snd (delete_journal_up_to q s)) = st_jnl_seq s"
  by (simp add: delete_journal_up_to_def exec_with_retry_def Let_def)

text \<open>The closing writes touch the two keys and posted journal rows, nothing else.\<close>

definition rest_of :: "store \<Rightarrow> store" where "rest_of s = s\<lparr>st_kv := [], st_journal := [], st_write_ctr := 0, st_replaying := False\<rparr>"

lemma closing_rest: "rest_of (closing i q s) = rest_of s"
  by (simp add: closing_def rest_of_def delete_journal_up_to_def exec_with_retry_def Let_def store_current_journal_seq_def store_current_msg_id_def put_kv_state)

lemma closing_kv: "get_kv k (closing i q s) = (if k = KVCurrentJournalSeq then Inr (fmt_int q) else if k = KVCurrentMsgID then Inr (fmt_int i) else get_kv k s)"
  by (simp add: closing_def store_current_journal_seq_def store_current_msg_id_def get_kv_put)

lemma closing_journal: "st_journal (closing i q s) = filter (\<lambda>j. \<not> (j_seq j \<le> q \<and> j_posted j \<noteq> None)) (st_journal s)"
  by (simp add: closing_def delete_journal_up_to_def exec_with_retry_def Let_def del_where_def store_current_journal_seq_def store_current_msg_id_def)

lemma closing_seq: "last_journal_seq (closing i q s) = last_journal_seq s"
  by (simp add: last_journal_seq_def closing_def store_current_journal_seq_def store_current_msg_id_def)

lemma skipped_synced: "fst (once A hmac J D E m s ch) = Inr Skipped \<longleftrightarrow> synced m s"
  by (auto simp: once_def synced_def baseline_def split: sum.splits option.splits prod.splits if_splits)

lemma put_kvs_pending: "pending_journal (closing i q s) = pending_journal s"
  unfolding pending_journal_def closing_journal filter_filter
  by (intro arg_cong [where f = "sort_key j_seq"] filter_cong) auto

lemma closing_chunks: "st_chunks (closing i q s) = st_chunks s"
  by (simp add: closing_def delete_journal_up_to_def exec_with_retry_def Let_def store_current_journal_seq_def store_current_msg_id_def put_kv_state)

lemma same_content_parts:
  assumes "same_content s t"
  shows "rest_of t = rest_of s" "pending_journal t = pending_journal s" "st_journal t = st_journal s" "get_kv k t = get_kv k s"
  using assms by (cases s; cases t; simp add: same_content_def rest_of_def pending_journal_def get_kv_def)+

lemma files_filter_key: "(\<And>f. fst f = i \<Longrightarrow> P f) \<Longrightarrow> map_of (filter P fs) i = map_of fs i"
  by (induction fs) auto

text \<open>The file just posted survives the pruning.\<close>

lemma pruned_keeps:
  assumes "map_of (sn_files ch) i = Some body"
  shows "map_of (sn_files (snd (prune_retention hist fails m uuid i ch))) i = Some body"
  using assms by (auto simp: prune_retention_def delete_channel_messages_def Let_def files_filter_key split: sum.splits option.splits)


text \<open>The gap.  The change-detection baseline is the write counter after the upload, so what was written
  during the upload counts as snapshotted.  A chunk row stored then is in no snapshot: the posted
  image is of the store before it, and the next cycle, the one of a clean unmount included, is skipped.
\<close>
theorem upload_window_is_missed:
  assumes "once A hmac J D E m s ch = (Inr (Taken i), m', s', ch')" "quiet E"
    and "\<forall>x. se_mid E 0 x = x" "\<forall>x. se_mid E 1 x = x" "\<forall>x. se_mid E 2 x = snd (put_chunk c x)"
    and "fst (put_chunk c s) = Inr ()" "row_of_chunk c \<notin> set (st_chunks s)" "0 \<le> last_journal_seq s" "last_journal_seq s < 2 ^ 63"
  shows "row_of_chunk c \<in> set (st_chunks s') \<and> synced m' s' \<and> fst (once A hmac J D E' m' s' ch'') = Inr Skipped \<and>
    (\<exists>body. map_of (sn_files ch') i = Some body \<and> snapshot_body A hmac J (se_nonce E) (sm_cipher m) s (db_pack D s) = Inr body)"
proof -
  obtain uuid body ch1 where o:
    "snapshot_body A hmac J (se_nonce E) (sm_cipher m) s (db_pack D s) = Inr body"
    "ch1 = post_snapshot i \<lparr>sc_seq = last_journal_seq s, sc_ts = se_now E, sc_uuid = uuid\<rparr> body ch"
    "s' = closing i (last_journal_seq s) (snd (put_chunk c s))" "m' = set_baseline (st_write_ctr s') m"
    "ch' = snd (prune_retention (se_history E) (se_delete E) m' uuid i ch1)" using once_taken [OF assms(1,2)] assms(3-5) by metis
  have q: "last_journal_seq (snd (put_chunk c s)) = last_journal_seq s"
    by (auto simp: last_journal_seq_def put_chunk_def exec_with_retry_def put_chunk_stmt_def split: sum.splits option.splits prod.splits if_splits)
  have "synced m' s'" using assms(8,9)
    by (simp add: synced_def baseline_def set_baseline_def o(3,4) load_current_journal_seq_def closing_kv closing_seq q parse_fmt_int)
  moreover have "row_of_chunk c \<in> set (st_chunks s')"
  proof -
    have "st_chunks s' = st_chunks (snd (put_chunk c s))" by (simp add: o(3) closing_chunks)
    then show ?thesis using assms(6) by (auto simp: put_chunk_def exec_with_retry_def put_chunk_stmt_def ignore_count_def set_upsert split: sum.splits option.splits prod.splits if_splits)
  qed
  moreover have "map_of (sn_files ch') i = Some body" unfolding o(5) by (rule pruned_keeps) (simp add: o(2) post_snapshot_def)
  ultimately show ?thesis using o(1) skipped_synced by blast
qed

section \<open>From the channel back to the store\<close>

lemma find_at_head:
  assumes "honest_history pg hist (m # ms)" "snapshot_of u m = Some c" "find_latest_snapshot hist u 200 = Inr r"
  shows "r = Some (cm_id m, c)"
proof -
  obtain n where n: "200 = Suc n" by (metis Suc_diff_1 zero_less_numeral)
  have "\<exists>xs. msgs = m # xs" if h: "hist 0 = Inr msgs" for msgs
  proof -
    obtain k where "pg \<le> k" "msgs = take k (below 0 (m # ms))" "0 < pg" using assms(1) h unfolding honest_history_def by blast
    then show ?thesis by (cases k) auto
  qed
  then show ?thesis using assms(2,3) by (fastforce simp: find_latest_snapshot_def n split: sum.splits)
qed

lemma pruned_head:
  assumes "sn_msgs ch = x # xs" "cm_id x = i"
  shows "\<exists>ys. sn_msgs (snd (prune_retention hist fails m uuid i ch)) = x # ys"
  using assms by (auto simp: prune_retention_def delete_channel_messages_def Let_def split: sum.splits option.splits)

text \<open>C11.  What a cycle posts is what a recovery restores.  Whatever other goroutines did before the copy and after it,
  once a cycle has posted a snapshot the scan of the channel finds that one, its caption carries the
  sequence number read before the copy, its file opens with the passphrase of the mount in every
  cipher mode, and restoring it over any files, stale write-ahead log included, leaves exactly the
  copied database and no side files.
\<close>
theorem posted_snapshot_restores:
  assumes "once A hmac J D E m s ch = (Inr (Taken i), m', s', ch')" "quiet E"
    and "good_keys A hmac K" "json_laws J K" "good_nonce (se_nonce E)"
    and "s1 = se_mid E 1 (se_mid E 0 s)" "load_cipher A K (Inr p) s1 = Inr c" "sm_cipher m = Some c" "db_faithful D s1"
    and "honest_history pg hist (sn_msgs ch')" "u = [] \<or> fs_uuid (se_mid E 0 s) = Inr u" "find_latest_snapshot hist u 200 = Inr r"
  shows "\<exists>cap body gz. r = Some (i, cap) \<and> sc_seq cap = last_journal_seq (se_mid E 0 s) \<and> map_of (sn_files ch') i = Some body \<and>
    maybe_unwrap_encrypted A K J (Inr p) body = Inr gz \<and>
    (\<forall>F. restore_snapshot D None gz F = (Inr (), \<lparr>df_main = Some (on_disk s1), df_wal = False, df_shm = False\<rparr>))"
proof -
  obtain uuid body ch1 where o: "fs_uuid (se_mid E 0 s) = Inr uuid"
    "snapshot_body A hmac J (se_nonce E) (sm_cipher m) s1 (db_pack D s1) = Inr body" "i = se_msg E"
    "ch1 = post_snapshot i \<lparr>sc_seq = last_journal_seq (se_mid E 0 s), sc_ts = se_now E, sc_uuid = uuid\<rparr> body ch"
    "ch' = snd (prune_retention (se_history E) (se_delete E) m' uuid i ch1)" using once_taken [OF assms(1,2)] assms(6) by metis
  define cap where "cap = \<lparr>sc_seq = last_journal_seq (se_mid E 0 s), sc_ts = se_now E, sc_uuid = uuid\<rparr>"
  define x where "x = \<lparr>cm_id = i, cm_message = True, cm_doc = True, cm_caption = CapSnap cap\<rparr>"
  have "sn_msgs ch1 = x # sn_msgs ch" by (simp add: o(4) post_snapshot_def x_def cap_def)
  moreover have "cm_id x = i" by (simp add: x_def)
  ultimately obtain ys where ys: "sn_msgs ch' = x # ys" unfolding o(5) using pruned_head by blast
  have "snapshot_of u x = Some cap" using assms(11) o(1) by (auto simp: snapshot_of_def x_def cap_def)
  then have r: "r = Some (i, cap)" using find_at_head [OF assms(10) [unfolded ys] _ assms(12)] by (simp add: x_def)
  have f: "map_of (sn_files ch') i = Some body" unfolding o(5) by (rule pruned_keeps) (simp add: o(4) post_snapshot_def)
  have d: "db_unpack D (db_pack D s1) = Some (on_disk s1)" "\<not> is_wrapped (db_pack D s1)" using assms(9) by (simp_all add: db_faithful_def)
  have "maybe_unwrap_encrypted A K J (Inr p) body = Inr (db_pack D s1)"
    using snapshot_opens [OF assms(3,4,5,7) _ d(2)] o(2) assms(8) by simp
  moreover have "restore_snapshot D None (db_pack D s1) F = (Inr (), \<lparr>df_main = Some (on_disk s1), df_wal = False, df_shm = False\<rparr>)" for F
    by (cases F) (simp add: restore_snapshot_def d(1) Let_def)
  ultimately show ?thesis using r f by (intro exI [of _ cap] exI [of _ body] exI [of _ "db_pack D s1"]) (simp add: cap_def)
qed

section \<open>Retention\<close>

lemma snapshots_ids: "(j, c) \<in> set (snapshots uuid ms) \<longleftrightarrow> (\<exists>x\<in>set ms. cm_id x = j \<and> snapshot_of uuid x = Some c)"
  by (induction ms) (auto split: option.splits)

lemma snapshots_filter: "snapshots uuid (filter (\<lambda>x. P (cm_id x)) ms) = filter (\<lambda>p. P (fst p)) (snapshots uuid ms)"
  by (induction ms) (auto split: option.splits)

lemma snapshots_distinct: "distinct (map cm_id ms) \<Longrightarrow> distinct (map fst (snapshots uuid ms))"
proof (induction ms)
  case (Cons x ms)
  have "cm_id x \<notin> fst ` set (snapshots uuid ms)" using Cons.prems by (auto simp: snapshots_ids) (metis image_eqI)
  then show ?case using Cons by (auto split: option.splits)
qed simp

lemma sorted_ids_distinct: "sorted_ids ms \<Longrightarrow> distinct (map cm_id ms)"
  by (induction ms) (auto simp: sorted_ids_def)

text \<open>Pruning fails and changes nothing, or it removes the messages of the listed snapshots beyond the kept ones.\<close>

definition stale :: "nat \<Rightarrow> int \<Rightarrow> (int \<times> snapshot_caption) list \<Rightarrow> int list" where
  "stale keep i out = filter (\<lambda>j. j \<noteq> i) (map fst (drop keep out))"

lemma prune_alt: "prune_retention hist fails m uuid i ch =
    (case list_snapshots (hist (sn_msgs ch)) uuid (retention m + 64) of
       Inl e \<Rightarrow> (Inl e, ch)
     | Inr out \<Rightarrow> if int (length out) \<le> retention m then (Inr (), ch) else delete_channel_messages fails (stale (nat (retention m)) i out) ch)"
  unfolding prune_retention_def stale_def Let_def ..

lemma stale_few: "int (length out) \<le> r \<Longrightarrow> stale (nat r) i out = []"
  by (simp add: stale_def)

lemma prune_cases:
  assumes "prune_retention hist fails m uuid i ch = (r, ch')"
  shows "(r \<noteq> Inr () \<and> ch' = ch) \<or>
    (\<exists>out. r = Inr () \<and> list_snapshots (hist (sn_msgs ch)) uuid (retention m + 64) = Inr out \<and>
       sn_msgs ch' = filter (\<lambda>x. cm_id x \<notin> set (stale (nat (retention m)) i out)) (sn_msgs ch))"
  using assms
  by (auto simp: prune_alt delete_channel_messages_def stale_few split: sum.splits option.splits if_splits)

lemma filter_stale:
  assumes "distinct (map fst S)" "set (drop keep out) \<subseteq> set (drop keep S)"
  shows "filter (\<lambda>p. fst p \<notin> set (stale keep i out)) S = take keep S @ filter (\<lambda>p. fst p \<notin> set (stale keep i out)) (drop keep S)"
proof -
  have "distinct (map fst (take keep S @ drop keep S))" using assms(1) by simp
  then have d: "fst ` set (take keep S) \<inter> fst ` set (drop keep S) = {}" unfolding map_append distinct_append by simp
  have "fst p \<notin> set (stale keep i out)" if "p \<in> set (take keep S)" for p
  proof
    assume "fst p \<in> set (stale keep i out)"
    then have "fst p \<in> fst ` set (drop keep S)" using assms(2) by (auto simp: stale_def)
    then show False using that d by blast
  qed
  then have "filter (\<lambda>p. fst p \<notin> set (stale keep i out)) (take keep S) = take keep S" by simp
  then show ?thesis by (metis append_take_drop_id filter_append)
qed

text \<open>Retention deletes old snapshots only.  Whatever the pruning does (a failed listing or deletion included),
  the newest snapshots of the file system, as many as are to be kept, stay in their order, so does the
  one just posted, and so do all messages that are not snapshots of this file system: chunks,
  journal batches, other instances.  When the calls succeed and the scan reaches the whole
  channel, nothing beyond the kept ones and the one just posted is left.
\<close>
theorem retention_keeps_newest:
  assumes "honest_history pg (hist (sn_msgs ch)) (sn_msgs ch)" "sorted_ids (sn_msgs ch)"
    and "prune_retention hist fails m uuid i ch = (r, ch')"
    and "keep = nat (retention m)" "S = snapshots uuid (sn_msgs ch)" "S' = snapshots uuid (sn_msgs ch')"
  shows "take keep S' = take keep S \<and> 0 < keep \<and> (\<forall>p\<in>set S. fst p = i \<longrightarrow> p \<in> set S') \<and>
    filter (\<lambda>x. snapshot_of uuid x = None) (sn_msgs ch') = filter (\<lambda>x. snapshot_of uuid x = None) (sn_msgs ch) \<and>
    (r = Inr () \<and> length S \<le> keep + 64 \<and> length (sn_msgs ch) < pg * 50 \<longrightarrow> S' = take keep S @ filter (\<lambda>p. fst p = i) (drop keep S))"
proof -
  have k: "0 < keep" "retention m = int keep" using assms(4) by (simp_all add: retention_def DefaultRetention_def split: if_splits)
  from prune_cases [OF assms(3)] show ?thesis
  proof (elim disjE exE conjE)
    assume "r \<noteq> Inr ()" "ch' = ch"
    then show ?thesis using k(1) assms(5,6) by simp
  next
    fix out assume out: "r = Inr ()" "list_snapshots (hist (sn_msgs ch)) uuid (retention m + 64) = Inr out"
      "sn_msgs ch' = filter (\<lambda>x. cm_id x \<notin> set (stale (nat (retention m)) i out)) (sn_msgs ch)"
    let ?ids = "stale keep i out"
    obtain pre post where pp: "sn_msgs ch = pre @ post" "out = take (keep + 64) (snapshots uuid pre)"
      "post = [] \<or> keep + 64 \<le> length (snapshots uuid pre) \<or> pg * 50 \<le> length pre"
      using list_snapshots_spec [OF assms(1,2) out(2)] k by (auto simp: nat_add_distrib)
    have S: "S = snapshots uuid pre @ snapshots uuid post" using assms(5) pp(1) by simp
    have dist: "distinct (map cm_id (sn_msgs ch))" "distinct (map fst S)"
      using sorted_ids_distinct [OF assms(2)] snapshots_distinct unfolding assms(5) by blast+
    have dk: "set (drop keep out) \<subseteq> set (drop keep S)"
    proof -
      have "drop keep out = take 64 (drop keep (snapshots uuid pre))" by (simp add: pp(2) drop_take)
      then show ?thesis by (auto simp: S dest: in_set_takeD)
    qed
    have me: "sn_msgs ch' = filter (\<lambda>x. cm_id x \<notin> set ?ids) (sn_msgs ch)" using out(3) assms(4) by simp
    have S': "S' = filter (\<lambda>p. fst p \<notin> set ?ids) S"
      unfolding assms(5,6) me by (rule snapshots_filter [where P = "\<lambda>j. j \<notin> set ?ids"])
    have tk: "S' = take keep S @ filter (\<lambda>p. fst p \<notin> set ?ids) (drop keep S)" unfolding S' by (rule filter_stale [OF dist(2) dk])
    have "take keep S' = take keep S" unfolding tk by (cases "length S > keep") auto
    moreover have "p \<in> set S'" if "p \<in> set S" "fst p = i" for p using that unfolding S' by (auto simp: stale_def)
    moreover have "filter (\<lambda>x. snapshot_of uuid x = None) (sn_msgs ch') = filter (\<lambda>x. snapshot_of uuid x = None) (sn_msgs ch)"
    proof -
      have "cm_id x \<notin> set ?ids" if "x \<in> set (sn_msgs ch)" "snapshot_of uuid x = None" for x
      proof
        assume "cm_id x \<in> set ?ids"
        then obtain q where q: "q \<in> set (drop keep out)" "fst q = cm_id x" by (auto simp: stale_def)
        then have "(cm_id x, snd q) \<in> set S" using dk by (metis in_set_dropD prod.collapse subsetD)
        then obtain y c where "y \<in> set (sn_msgs ch)" "cm_id y = cm_id x" "snapshot_of uuid y = Some c" by (auto simp: assms(5) snapshots_ids)
        then show False using that dist(1) by (metis distinct_map inj_onD option.distinct(1))
      qed
      then show ?thesis unfolding me filter_filter by (intro filter_cong) auto
    qed
    moreover have "S' = take keep S @ filter (\<lambda>p. fst p = i) (drop keep S)"
      if r: "length S \<le> keep + 64" "length (sn_msgs ch) < pg * 50"
    proof -
      have "length (snapshots uuid post) = 0"
      proof -
        have "length pre + length post < pg * 50" "length (snapshots uuid pre) + length (snapshots uuid post) \<le> keep + 64"
          using r by (simp_all add: pp(1) S)
        then show ?thesis using pp(3) by (elim disjE) (simp, linarith, linarith)
      qed
      then have d: "drop keep out = drop keep S" using S pp(2) r(1) by simp
      have "filter (\<lambda>p. fst p \<notin> set ?ids) (drop keep S) = filter (\<lambda>p. fst p = i) (drop keep S)"
        by (rule filter_cong) (auto simp: stale_def d)
      then show ?thesis using tk by simp
    qed
    ultimately show ?thesis using k(1) by blast
  qed
qed

section \<open>Instances\<close>

text \<open>The store of three files, a manager that keeps two snapshots, a channel with three older ones of the instance.\<close>

definition one_image :: "store \<Rightarrow> db_codec" where
  "one_image s = \<lparr>db_pack = \<lambda>_. [31, 139], db_unpack = \<lambda>b. if b = [31, 139] then Some (on_disk s) else None\<rparr>"

definition old_snap :: "int \<Rightarrow> chan_msg" where
  "old_snap i = \<lparr>cm_id = i, cm_message = True, cm_doc = True, cm_caption = CapSnap \<lparr>sc_seq = 0, sc_ts = i, sc_uuid = ''uuid''\<rparr>\<rparr>"

definition snap_chan :: snap_channel where
  "snap_chan = \<lparr>sn_msgs = [old_snap 8, pin_msg 7, old_snap 5, old_snap 2], sn_files = []\<rparr>"

definition snap_mgr :: "cipher option \<Rightarrow> snap_manager" where
  "snap_mgr c = \<lparr>sm_retention = 2, sm_cipher = c, sm_counter = 0, sm_have = False\<rparr>"

definition cycle_env :: "(store \<Rightarrow> store) \<Rightarrow> snap_env" where
  "cycle_env f = \<lparr>se_mid = \<lambda>j. if j = 2 then f else (\<lambda>s. s), se_vacuum = None, se_nonce = None, se_answer = Posted, se_msg = 9, se_now = 100,
     se_store_fails = None, se_history = get_history, se_delete = None\<rparr>"

lemma quiet_cycle: "quiet (cycle_env f)"
  by (simp add: quiet_def cycle_env_def)

definition after_cycle :: "(store \<Rightarrow> store) \<Rightarrow> (snap_err + cycle) \<times> snap_manager \<times> store \<times> snap_channel" where
  "after_cycle f = once keyed_aead demo_hmac demo_json (one_image demo) (cycle_env f)
     (snap_mgr (Some NoopCipher)) demo snap_chan"

lemma after_cycle_taken: "after_cycle f = (Inr (Taken 9), fst (snd (after_cycle f)), fst (snd (snd (after_cycle f))), snd (snd (snd (after_cycle f))))"
  if "fst (after_cycle f) = Inr (Taken 9)"
  using that by (metis prod.collapse)

lemma cycle_id: "after_cycle (\<lambda>s. s) = (Inr (Taken 9), fst (snd (after_cycle (\<lambda>s. s))), fst (snd (snd (after_cycle (\<lambda>s. s)))), snd (snd (snd (after_cycle (\<lambda>s. s)))))"
  by (rule after_cycle_taken) code_simp


definition late_chunk :: chunk where
  "late_chunk = \<lparr>ch_ino = 1, ch_idx = 0, ch_msg = 77, ch_size = 10, ch_pack_offset = 0, ch_pack_size = 0\<rparr>"

theorem upload_window_is_missed_witness:
  "case after_cycle (\<lambda>s. snd (put_chunk late_chunk s)) of (_, m', s', ch') \<Rightarrow> row_of_chunk late_chunk \<in> set (st_chunks s') \<and> synced m' s'"
proof -
  have "fst (after_cycle (\<lambda>s. snd (put_chunk late_chunk s))) = Inr (Taken 9)" by code_simp
  from after_cycle_taken [OF this]
  obtain m' s' ch' where e: "after_cycle (\<lambda>s. snd (put_chunk late_chunk s)) = (Inr (Taken 9), m', s', ch')" by blast
  have "fst (put_chunk late_chunk demo) = Inr ()" "row_of_chunk late_chunk \<notin> set (st_chunks demo)" "last_journal_seq demo = 3" by code_simp+
  then show ?thesis using upload_window_is_missed [OF e [unfolded after_cycle_def] quiet_cycle, where c = late_chunk] e by (simp add: cycle_env_def)
qed

theorem posted_snapshot_restores_witness:
  "case after_cycle (\<lambda>s. s) of (_, _, _, ch') \<Rightarrow>
     find_latest_snapshot (get_history (sn_msgs ch')) [] 200 = Inr (Some (9, \<lparr>sc_seq = 3, sc_ts = 100, sc_uuid = ''uuid''\<rparr>)) \<and>
     (\<exists>body. map_of (sn_files ch') 9 = Some body \<and> maybe_unwrap_encrypted keyed_aead demo_kdf demo_json (Inr [3]) body = Inr [31, 139])"
proof -
  let ?E = "cycle_env (\<lambda>s. s)"
  obtain m' s' ch' where e: "after_cycle (\<lambda>s. s) = (Inr (Taken 9), m', s', ch')" using cycle_id by blast
  have "case after_cycle (\<lambda>s. s) of (_, _, _, ch') \<Rightarrow>
     find_latest_snapshot (get_history (sn_msgs ch')) [] 200 = Inr (Some (9, \<lparr>sc_seq = 3, sc_ts = 100, sc_uuid = ''uuid''\<rparr>))" by code_simp
  then have f: "find_latest_snapshot (get_history (sn_msgs ch')) [] 200 = Inr (Some (9, \<lparr>sc_seq = 3, sc_ts = 100, sc_uuid = ''uuid''\<rparr>))" by (simp add: e)
  have l: "load_cipher keyed_aead demo_kdf (Inr [3]) demo = Inr NoopCipher" by code_simp
  have h: "good_nonce (se_nonce ?E)" "demo = se_mid ?E 1 (se_mid ?E 0 demo)" "sm_cipher (snap_mgr (Some NoopCipher)) = Some NoopCipher"
    "db_faithful (one_image demo) demo" by (simp_all add: cycle_env_def snap_mgr_def db_faithful_def one_image_def good_nonce_def is_wrapped_def)
  from posted_snapshot_restores [OF e [unfolded after_cycle_def] quiet_cycle good_demo_keys demo_json_laws h(1,2) l h(3,4) get_history_honest _ f]
  obtain body gz where b: "map_of (sn_files ch') 9 = Some body" "maybe_unwrap_encrypted keyed_aead demo_kdf demo_json (Inr [3]) body = Inr gz"
    "restore_snapshot (one_image demo) None gz \<lparr>df_main = None, df_wal = True, df_shm = False\<rparr> =
       (Inr (), \<lparr>df_main = Some (on_disk demo), df_wal = False, df_shm = False\<rparr>)" by blast
  have "gz = [31, 139]" using b(3) by (auto simp: restore_snapshot_def one_image_def split: if_splits)
  then show ?thesis using e f b by simp
qed

theorem retention_keeps_newest_witness:
  "snapshots ''uuid'' (sn_msgs (snd (prune_retention get_history None (snap_mgr None) ''uuid'' 8 snap_chan))) = take 2 (snapshots ''uuid'' (sn_msgs snap_chan))"
proof -
  let ?p = "prune_retention get_history None (snap_mgr None) ''uuid'' 8 snap_chan"
  have r: "fst ?p = Inr ()" by code_simp
  then have e: "?p = (Inr (), snd ?p)" by (simp add: prod_eq_iff)
  have s: "sorted_ids (sn_msgs snap_chan)" by (simp add: sorted_ids_def snap_chan_def old_snap_def)
  have k: "2 = nat (retention (snap_mgr None))" by (simp add: retention_def snap_mgr_def)
  have n: "length (snapshots ''uuid'' (sn_msgs snap_chan)) = 3" "length (sn_msgs snap_chan) = 4"
    "filter (\<lambda>p. fst p = 8) (drop 2 (snapshots ''uuid'' (sn_msgs snap_chan))) = []" by code_simp+
  show ?thesis using retention_keeps_newest [OF get_history_honest s e k refl refl] n by simp
qed

end
