(* ===== verification/Trash.thy ===== *)
theory Trash
  imports MetaProps
begin

text \<open>
  The safety net of \<open>internal/trash/trash.go\<close>: the directory /.trash, the stamped names, the move that
  replaces a deletion, and the collection of expired entries.  Times are nanoseconds; \<open>y2020\<close> is the
  first one of 2020 in the local time zone, which \<open>ts.Year() < 2020\<close> asks for.
\<close>

section \<open>Names\<close>

definition TrashDirName :: string where "TrashDirName = ''.trash''"

definition unique_name :: "int \<Rightarrow> string \<Rightarrow> string" where
  "unique_name now original = fmt_int now @ ''-'' @ original"

definition day :: int where "day = 86400000000000"

definition trashed_at :: "int \<Rightarrow> int \<Rightarrow> string \<Rightarrow> int option" where
  "trashed_at y2020 now name =
     (let ds = takeWhile is_digit name; rest = dropWhile is_digit name in
      if rest = [] \<or> hd rest \<noteq> CHR ''-'' \<or> ds = [] then None
      else (case parse_int ds of
          None \<Rightarrow> None
        | Some ts \<Rightarrow> if ts < y2020 \<or> ts > now + day then None else Some ts))"

section \<open>Operations\<close>

definition trash_dir :: "32 word \<Rightarrow> 32 word \<Rightarrow> int \<Rightarrow> inode" where
  "trash_dir uid gid now = \<lparr>i_ino = 0, i_kind = KindDir, i_mode = 0x41C0, i_uid = uid, i_gid = gid, i_size = 0, i_nlink = 1,
     i_mtime = now, i_ctime = now, i_target = [], i_chunk_size = 0, i_sparse = False\<rparr>"

datatype trash_err = TrashMeta meta_err | TrashNotDir kind

text \<open>\<open>race\<close> is what happens between the first lookup and the create.\<close>

definition ensure_root_dir :: "32 word \<Rightarrow> 32 word \<Rightarrow> int \<Rightarrow> (store \<Rightarrow> store) \<Rightarrow> store \<Rightarrow> (trash_err + int) \<times> store" where
  "ensure_root_dir uid gid now race s =
     (case lookup RootIno TrashDirName s of
        Inr i \<Rightarrow> if i_kind i \<noteq> KindDir then (Inl (TrashNotDir (i_kind i)), s) else (Inr (i_ino i), s)
      | Inl e \<Rightarrow>
          if e \<noteq> ErrNotFound then (Inl (TrashMeta e), s)
          else (case create_child now RootIno TrashDirName (trash_dir uid gid now) (race s) of
              (Inr ino, s1) \<Rightarrow> (Inr ino, s1)
            | (Inl e, s1) \<Rightarrow>
                if e = ErrExists then
                  (case lookup RootIno TrashDirName s1 of Inr i \<Rightarrow> (Inr (i_ino i), s1) | Inl _ \<Rightarrow> (Inl (TrashMeta e), s1))
                else (Inl (TrashMeta e), s1)))"

definition move_to_trash :: "int \<Rightarrow> int \<Rightarrow> int \<Rightarrow> string \<Rightarrow> store \<Rightarrow> (meta_err + int) \<times> store" where
  "move_to_trash now trash_ino parent name = rename parent name trash_ino (unique_name now name)"

text \<open>One entry of the collection: \<open>cutoff\<close> is the current time less the TTL.\<close>

definition gc_entry :: "int \<Rightarrow> int \<Rightarrow> int \<Rightarrow> int \<Rightarrow> dirent \<Rightarrow> int \<times> store \<Rightarrow> int \<times> store" where
  "gc_entry y2020 now cutoff trash_ino d acc =
     (case acc of (removed, s) \<Rightarrow>
        (case trashed_at y2020 now (d_name d) of
           None \<Rightarrow> acc
         | Some ts \<Rightarrow>
             if ts > cutoff then acc
             else (case get_inode (d_child d) s of
                 Inl _ \<Rightarrow> acc
               | Inr i \<Rightarrow>
                   if i_kind i = KindDir \<and> readdir (i_ino i) s \<noteq> [] then acc
                   else (case unlink trash_ino (d_name d) s of
                       (Inl _, s1) \<Rightarrow> (removed, s1)
                     | (Inr _, s1) \<Rightarrow> (removed + 1, s1)))))"

definition gc_once :: "int \<Rightarrow> int \<Rightarrow> int \<Rightarrow> int \<Rightarrow> store \<Rightarrow> int \<times> store" where
  "gc_once y2020 now trash_ino ttl s = fold (gc_entry y2020 now (now - ttl) trash_ino) (readdir trash_ino s) (0, s)"

text \<open>The loop of \<open>Run\<close>: one collection at once, then one at every tick; each tick brings the clock and the TTL.\<close>

definition trash_run :: "int \<Rightarrow> int \<Rightarrow> (int \<times> int) list \<Rightarrow> store \<Rightarrow> store" where
  "trash_run y2020 trash_ino ticks s = fold (\<lambda>(now, ttl) s. snd (gc_once y2020 now trash_ino ttl s)) ticks s"

section \<open>Stamps\<close>

lemma takeWhile_fmt: "0 \<le> n \<Longrightarrow> takeWhile is_digit (fmt_int n @ CHR ''-'' # x) = fmt_int n \<and> dropWhile is_digit (fmt_int n @ CHR ''-'' # x) = CHR ''-'' # x"
  using fmt_nat_digits [of n] by (auto simp: fmt_int_def list_all_iff takeWhile_append dropWhile_append)

lemma trashed_at_unique:
  assumes "y2020 \<le> t" "0 \<le> t" "t < 2 ^ 63" "t \<le> now + day"
  shows "trashed_at y2020 now (unique_name t name) = Some t"
  using assms takeWhile_fmt [OF assms(2), of name] parse_fmt_int [of t] fmt_nat_nonempty [of t]
  by (simp add: trashed_at_def unique_name_def Let_def fmt_int_def)

lemma trashed_at_bounds: "trashed_at y2020 now name = Some ts \<Longrightarrow> y2020 \<le> ts \<and> ts \<le> now + day"
  by (auto simp: trashed_at_def Let_def split: if_splits option.splits)

section \<open>The move\<close>

lemma rename_free_state:
  assumes "rename op on np nn s = (Inr a, t)" "ns s (np, nn) = None" "store_wf s" "(op, on) \<noteq> (np, nn)"
  shows "st_inodes t = st_inodes s \<and> st_chunks t = st_chunks s \<and> st_xattrs t = st_xattrs s \<and> st_blobs t = st_blobs s \<and> st_kv t = st_kv s"
proof -
  have "rename_tx op on np nn s = Inr (a, t') \<Longrightarrow> st_inodes t' = st_inodes s \<and> st_chunks t' = st_chunks s \<and> st_xattrs t' = st_xattrs s \<and>
      st_blobs t' = st_blobs s \<and> st_kv t' = st_kv s" for t'
  proof (erule rename_tx_Inr, goal_cases)
    case (2 src)
    then show ?case by (auto simp: rename_finish_def move_dirent_def append_journal_tx_def split: sum.splits if_splits)
  next
    case (3 src dst c del s1)
    then show ?case using ns_no_child [OF assms(3,2)] by simp
  qed simp
  then show ?thesis using assms(1,4) by (auto simp: rename_def with_tx_def split: if_splits sum.splits prod.splits)
qed

lemma ns_result_cases:
  assumes "ns_result r = Inr m"
  obtains a t where "r = (Inr a, t)" "ns t = m"
  using assms by (cases r) (auto simp: ns_result_def split: sum.splits)

lemma kinds_cong: "st_inodes t = st_inodes s \<Longrightarrow> kinds t = kinds s"
  by (rule ext) (simp add: kinds_def)

lemma edges_acyclic: "store_wf s \<Longrightarrow> acyclic (ns_edges (ns s))"
  using tree_okD(2,4) [OF store_wf_tree] ns_edges_tree by metis

lemma dir_of_entry:
  assumes "store_wf s" "ns s (p, n) = Some c"
  shows "kinds s p = Some KindDir"
proof -
  have "dir_in (st_inodes s) p" using assms(2) tree_okD(2,6) [OF store_wf_tree [OF assms(1)]]
    by (auto simp: ns_def row_at_eq_Some)
  then show ?thesis using kinds_dir_in tree_okD(1) [OF store_wf_tree [OF assms(1)]] by blast
qed

text \<open>C20.  Deleting into the trash loses nothing and can be undone.  When the stamped name is free and the
  entry is no directory above the trash, the move succeeds, the entry is found under its stamp in the
  trash, no inode, chunk row, xattr or dedup row is touched, the stamp gives back the time of the
  deletion, and renaming the entry back restores the name space exactly.
\<close>
theorem trash_is_undoable:
  assumes "store_wf s" "kinds s tr = Some KindDir" "ns s (p, n) = Some c" "p \<noteq> tr" "ns s (tr, unique_name now n) = None"
    and "kinds s c = Some KindDir \<Longrightarrow> (c, tr) \<notin> (ns_edges (ns s))\<^sup>*" "y2020 \<le> now" "0 \<le> now" "now < 2 ^ 63" "now \<le> later"
  shows "\<exists>a t. move_to_trash now tr p n s = (Inr a, t) \<and> ns t = (ns s)((p, n) := None, (tr, unique_name now n) \<mapsto> c) \<and>
    st_inodes t = st_inodes s \<and> st_chunks t = st_chunks s \<and> st_xattrs t = st_xattrs s \<and> st_blobs t = st_blobs s \<and>
    trashed_at y2020 later (unique_name now n) = Some now \<and>
    ns_result (rename tr (unique_name now n) p n t) = Inr (ns s)"
proof -
  let ?u = "unique_name now n" and ?E = "ns_edges (ns s)"
  have ne: "(p, n) \<noteq> (tr, ?u)" using assms(4) by simp
  have cyc: "\<not> (kinds s c = Some KindDir \<and> (c, tr) \<in> ?E\<^sup>*)" using assms(6) by blast
  have "ns_result (rename p n tr ?u s) = Inr ((ns s)((p, n) := None, (tr, ?u) \<mapsto> c))"
    unfolding rename_refines [OF assms(1)] spec_rename_def need_dir_def using assms(4) cyc assms(2,3,5) by simp
  then obtain a t where t: "rename p n tr ?u s = (Inr a, t)" "ns t = (ns s)((p, n) := None, (tr, ?u) \<mapsto> c)" by (rule ns_result_cases)
  note st = rename_free_state [OF t(1) assms(5,1) ne]
  have wf: "store_wf t" using rename_wf [OF assms(1), of p n tr ?u] t(1) by simp
  have K: "kinds t = kinds s" using st kinds_cong by blast
  have pdir: "kinds s p = Some KindDir" by (rule dir_of_entry [OF assms(1,3)])
  have sub: "ns_edges (ns t) \<subseteq> insert (tr, c) ?E" by (auto simp: t(2) ns_edges_def split: if_splits)
  have pc: "(p, c) \<in> ?E" using assms(3) by (auto simp: ns_edges_def)
  have home: "\<not> (kinds s c = Some KindDir \<and> (c, p) \<in> (ns_edges (ns t))\<^sup>*)"
  proof
    assume a: "kinds s c = Some KindDir \<and> (c, p) \<in> (ns_edges (ns t))\<^sup>*"
    then have "(c, p) \<in> (insert (tr, c) ?E)\<^sup>*" using rtrancl_mono [OF sub] by blast
    then have "(c, p) \<in> ?E\<^sup>* \<or> (c, tr) \<in> ?E\<^sup>*" by (auto simp: rtrancl_insert)
    then have "(c, p) \<in> ?E\<^sup>*" using a assms(6) by blast
    then have "(c, c) \<in> ?E\<^sup>+" using pc by (rule rtrancl_into_trancl1)
    then show False using edges_acyclic [OF assms(1)] by (auto simp: acyclic_def)
  qed
  have restored: "(ns t)((tr, ?u) := None, (p, n) \<mapsto> c) = ns s" unfolding t(2) using assms(3,5) ne by (auto intro!: ext)
  have "ns_result (rename tr ?u p n t) = Inr (ns s)"
    unfolding rename_refines [OF wf] spec_rename_def need_dir_def K using assms(4) pdir home restored by (simp add: t(2))
  moreover have "trashed_at y2020 later ?u = Some now" using trashed_at_unique [OF assms(7-9)] assms(10) by (simp add: day_def)
  ultimately show ?thesis using t st by (intro exI [of _ a] exI [of _ t]) (simp add: move_to_trash_def)
qed

section \<open>The collection\<close>

definition expired :: "int \<Rightarrow> int \<Rightarrow> int \<Rightarrow> string \<Rightarrow> bool" where
  "expired y2020 now cutoff name = (case trashed_at y2020 now name of None \<Rightarrow> False | Some ts \<Rightarrow> ts \<le> cutoff)"

definition full_dir :: "store \<Rightarrow> int \<Rightarrow> bool" where
  "full_dir s c \<longleftrightarrow> kinds s c = Some KindDir \<and> (\<exists>x. ns s (c, x) \<noteq> None)"

lemma not_own_child: "store_wf s \<Longrightarrow> ns s (p, n) = Some c \<Longrightarrow> c \<noteq> p"
  using edges_acyclic by (fastforce simp: ns_edges_def acyclic_def)

lemma readdir_empty: "store_wf s \<Longrightarrow> readdir c s = [] \<longleftrightarrow> (\<forall>x. ns s (c, x) = None)"
  by (auto simp: readdir_def filter_empty_conv ns_def row_at_None_iff)

lemma unlink_kinds:
  assumes "store_wf s" "unlink p n s = (r, t)" "kinds t c \<noteq> None"
  shows "kinds t c = kinds s c"
proof (cases "unlink_in_tx p n s")
  case (Inl e)
  then have "t = s" using assms(2) by (simp add: unlink_def unlink_tx_def with_tx_def)
  then show ?thesis by simp
next
  case (Inr x)
  then obtain i del u where u: "unlink_in_tx p n s = Inr ((i, del), u)" by (cases x) auto
  then have "st_inodes t = st_inodes u" using assms(2) by (auto simp: unlink_def unlink_tx_def with_tx_def append_journal_tx_def)
  then show ?thesis using unlink_in_tx_effect(3) [OF assms(1) u, of c] assms(3) by (auto simp: kinds_def split: if_splits option.splits)
qed

text \<open>One entry that is present is removed exactly when it is expired and no full directory.\<close>

lemma gc_entry_spec:
  assumes "store_wf s" "ns s (tr, d_name d) = Some (d_child d)" "gc_entry y2020 now cutoff tr d (n, s) = (m, t)"
  shows "store_wf t \<and>
    (if expired y2020 now cutoff (d_name d) \<and> \<not> full_dir s (d_child d)
     then m = n + 1 \<and> ns t = (ns s)((tr, d_name d) := None) \<and> (\<exists>r. unlink tr (d_name d) s = (r, t))
     else m = n \<and> t = s)"
proof (cases "expired y2020 now cutoff (d_name d)")
  case False
  then show ?thesis using assms(1,3) by (auto simp: gc_entry_def expired_def split: option.splits if_splits)
next
  case True
  obtain i where i: "get_inode (d_child d) s = Inr i" "i_ino i = d_child d" "kinds s (d_child d) = Some (i_kind i)"
    using ns_child [OF assms(1,2)] by metis
  have full: "full_dir s (d_child d) \<longleftrightarrow> i_kind i = KindDir \<and> readdir (i_ino i) s \<noteq> []"
    using i readdir_empty [OF assms(1)] by (auto simp: full_dir_def)
  show ?thesis
  proof (cases "full_dir s (d_child d)")
    case f: True
    then show ?thesis using True assms(1,3) i(1) full by (auto simp: gc_entry_def expired_def split: option.splits)
  next
    case f: False
    have "ns_result (unlink tr (d_name d) s) = Inr ((ns s)((tr, d_name d) := None))"
      unfolding unlink_refines [OF assms(1)] spec_unlink_def using assms(2) f by (auto simp: full_dir_def)
    then obtain a u where u: "unlink tr (d_name d) s = (Inr a, u)" "ns u = (ns s)((tr, d_name d) := None)" by (rule ns_result_cases)
    have "store_wf u" using unlink_wf [OF assms(1), of tr "d_name d"] u(1) by simp
    moreover have "m = n + 1 \<and> t = u" using True f assms(3) i(1) u(1) full by (auto simp: gc_entry_def expired_def split: option.splits)
    ultimately show ?thesis using True f u by auto
  qed
qed

lemma gc_fold:
  assumes "store_wf s" "distinct (map d_name es)" "\<forall>d\<in>set es. ns s (tr, d_name d) = Some (d_child d)"
    and "fold (gc_entry y2020 now cutoff tr) es (n, s) = (m, t)"
  shows "store_wf t \<and> m = n + int (length (filter (\<lambda>d. expired y2020 now cutoff (d_name d) \<and> \<not> full_dir s (d_child d)) es)) \<and>
    ns t = (\<lambda>k. if \<exists>d\<in>set es. k = (tr, d_name d) \<and> expired y2020 now cutoff (d_name d) \<and> \<not> full_dir s (d_child d) then None else ns s k)"
  using assms
proof (induction es arbitrary: n s)
  case (Cons d es)
  obtain n1 s1 where e: "gc_entry y2020 now cutoff tr d (n, s) = (n1, s1)" by fastforce
  let ?gone = "expired y2020 now cutoff (d_name d) \<and> \<not> full_dir s (d_child d)"
  have sp: "store_wf s1" "if ?gone then n1 = n + 1 \<and> ns s1 = (ns s)((tr, d_name d) := None) \<and> (\<exists>r. unlink tr (d_name d) s = (r, s1)) else n1 = n \<and> s1 = s"
    using gc_entry_spec [OF Cons.prems(1) _ e] Cons.prems(3) by auto
  have other: "d_name d' \<noteq> d_name d" if "d' \<in> set es" for d' using Cons.prems(2) that by (auto simp: image_iff)
  have rest: "\<forall>d'\<in>set es. ns s1 (tr, d_name d') = Some (d_child d')" using sp(2) Cons.prems(3) other by (auto split: if_splits)
  have same: "full_dir s1 (d_child d') = full_dir s (d_child d')" if "d' \<in> set es" for d'
  proof (cases ?gone)
    case True
    have c: "ns s1 (tr, d_name d') = Some (d_child d')" using rest that by blast
    then have "d_child d' \<noteq> tr" "kinds s1 (d_child d') \<noteq> None" using not_own_child [OF sp(1) c] by (auto intro: ns_child [OF sp(1) c])
    moreover from this(2) have "kinds s1 (d_child d') = kinds s (d_child d')" using True sp(2) unlink_kinds [OF Cons.prems(1)] by auto
    ultimately show ?thesis using True sp(2) by (simp add: full_dir_def)
  qed (use sp(2) in \<open>auto split: if_splits\<close>)
  have "fold (gc_entry y2020 now cutoff tr) es (n1, s1) = (m, t)" using Cons.prems(4) e by simp
  from Cons.IH [OF sp(1) _ rest this] Cons.prems(2)
  have IH: "store_wf t" "m = n1 + int (length (filter (\<lambda>d. expired y2020 now cutoff (d_name d) \<and> \<not> full_dir s1 (d_child d)) es))"
    "ns t = (\<lambda>k. if \<exists>d\<in>set es. k = (tr, d_name d) \<and> expired y2020 now cutoff (d_name d) \<and> \<not> full_dir s1 (d_child d) then None else ns s1 k)" by auto
  have f: "filter (\<lambda>d. expired y2020 now cutoff (d_name d) \<and> \<not> full_dir s1 (d_child d)) es =
      filter (\<lambda>d. expired y2020 now cutoff (d_name d) \<and> \<not> full_dir s (d_child d)) es" using same by (intro filter_cong) auto
  have g: "(\<exists>d\<in>set es. k = (tr, d_name d) \<and> expired y2020 now cutoff (d_name d) \<and> \<not> full_dir s1 (d_child d)) \<longleftrightarrow>
      (\<exists>d\<in>set es. k = (tr, d_name d) \<and> expired y2020 now cutoff (d_name d) \<and> \<not> full_dir s (d_child d))" for k using same by auto
  show ?case
  proof (intro conjI)
    show "store_wf t" by (rule IH(1))
    show "m = n + int (length (filter (\<lambda>d. expired y2020 now cutoff (d_name d) \<and> \<not> full_dir s (d_child d)) (d # es)))"
      using IH(2) sp(2) unfolding f by (auto split: if_splits)
    show "ns t = (\<lambda>k. if \<exists>d\<in>set (d # es). k = (tr, d_name d) \<and> expired y2020 now cutoff (d_name d) \<and> \<not> full_dir s (d_child d) then None else ns s k)"
      unfolding IH(3) g using sp(2) by (auto split: if_splits intro!: ext)
  qed
qed simp

lemma readdir_entries:
  assumes "store_wf s"
  shows "distinct (map d_name (readdir tr s))" "\<forall>d\<in>set (readdir tr s). ns s (tr, d_name d) = Some (d_child d)"
    "ns s (tr, x) = Some c \<Longrightarrow> \<exists>d\<in>set (readdir tr s). d_name d = x \<and> d_child d = c"
proof -
  have k: "keyed dkey (st_dirents s)" using tree_okD(2) [OF store_wf_tree [OF assms]] .
  then have "distinct (map dkey (readdir tr s))" by (simp add: readdir_def keyed_def distinct_map_filter)
  moreover have "map dkey (readdir tr s) = map (Pair tr) (map d_name (readdir tr s))" by (auto simp: readdir_def)
  ultimately have "distinct (map (Pair tr) (map d_name (readdir tr s)))" by simp
  then show "distinct (map d_name (readdir tr s))" unfolding distinct_map [of "Pair tr"] by blast
  show "\<forall>d\<in>set (readdir tr s). ns s (tr, d_name d) = Some (d_child d)"
    using k by (auto simp: readdir_def ns_def row_at_eq_Some)
  show "ns s (tr, x) = Some c \<Longrightarrow> \<exists>d\<in>set (readdir tr s). d_name d = x \<and> d_child d = c"
    using k by (auto simp: readdir_def ns_def row_at_eq_Some)
qed

lemma gc_keeps_full:
  assumes "store_wf s" "gc_once y2020 now tr ttl s = (m, t)" "ns s (tr, x) = Some c" "full_dir s c"
  shows "ns t (tr, x) = Some c"
proof -
  note r = readdir_entries [OF assms(1), where tr = tr]
  have "d_child d = c" if "d \<in> set (readdir tr s)" "d_name d = x" for d using r(2) that assms(3) by force
  then show ?thesis using gc_fold [OF assms(1) r(1,2) assms(2) [unfolded gc_once_def]] assms(3,4) by auto
qed

text \<open>C21.  The collection removes exactly the entries of the trash whose stamp is at least the TTL old and that
  are not directories with entries: an entry that was moved there by hand, without a stamp, is never
  removed, nor is anything outside the trash or inside a directory in it.  The count it returns
  is the number of entries removed, and the store stays well-formed.
\<close>
theorem gc_removes_exactly_expired:
  assumes "store_wf s" "gc_once y2020 now tr ttl s = (m, t)"
  shows "store_wf t \<and>
    (\<forall>p x. ns t (p, x) = (if p = tr \<and> (\<exists>c. ns s (tr, x) = Some c \<and> \<not> full_dir s c) \<and>
        (\<exists>ts. trashed_at y2020 now x = Some ts \<and> ts + ttl \<le> now) then None else ns s (p, x))) \<and>
    m = int (length (filter (\<lambda>d. ns t (tr, d_name d) = None) (readdir tr s)))"
proof -
  note r = readdir_entries [OF assms(1), where tr = tr]
  note g = gc_fold [OF assms(1) r(1,2) assms(2) [unfolded gc_once_def]]
  have e: "expired y2020 now (now - ttl) x \<longleftrightarrow> (\<exists>ts. trashed_at y2020 now x = Some ts \<and> ts + ttl \<le> now)" for x
    by (auto simp: expired_def split: option.splits)
  have k: "(\<exists>d\<in>set (readdir tr s). (p, x) = (tr, d_name d) \<and> expired y2020 now (now - ttl) (d_name d) \<and> \<not> full_dir s (d_child d)) \<longleftrightarrow>
      p = tr \<and> (\<exists>c. ns s (tr, x) = Some c \<and> \<not> full_dir s c) \<and> (\<exists>ts. trashed_at y2020 now x = Some ts \<and> ts + ttl \<le> now)" for p x
    using r(2,3) unfolding e by fastforce
  have "filter (\<lambda>d. ns t (tr, d_name d) = None) (readdir tr s) =
      filter (\<lambda>d. expired y2020 now (now - ttl) (d_name d) \<and> \<not> full_dir s (d_child d)) (readdir tr s)"
  proof (rule filter_cong [OF refl])
    fix d assume d: "d \<in> set (readdir tr s)"
    have "d' = d" if "d' \<in> set (readdir tr s)" "d_name d' = d_name d" for d'
      using r(1) d that by (auto simp: distinct_map inj_on_def)
    then show "(ns t (tr, d_name d) = None) = (expired y2020 now (now - ttl) (d_name d) \<and> \<not> full_dir s (d_child d))"
      using g r(2) d by auto
  qed
  then show ?thesis using g k by auto
qed

section \<open>A trash at work\<close>

text \<open>The store of MetaSystem with its trash: the directory is inode 5.\<close>

definition demo_tr :: store where "demo_tr = snd (ensure_root_dir 1000 1000 11 id demo)"

definition stamp :: int where "stamp = 1700000000000000000"
definition start2020 :: int where "start2020 = 1577836800000000000"

definition demo_full :: store where "demo_full = snd (move_to_trash stamp 5 1 ''g'' demo_tr)"

lemma demo_tr_wf: "store_wf demo_tr" "store_wf demo_full"
proof -
  have "demo_tr = snd (create_child 11 1 TrashDirName (trash_dir 1000 1000 11) demo)"
    unfolding demo_tr_def ensure_root_dir_def by code_simp
  moreover have "i_nlink (trash_dir 1000 1000 11) = 1" by (simp add: trash_dir_def)
  ultimately show t: "store_wf demo_tr" using create_child_wf [OF demo_wf(4)] by metis
  show "store_wf demo_full" unfolding demo_full_def move_to_trash_def by (rule rename_wf [OF t])
qed

theorem trash_is_undoable_witness:
  "\<exists>a t. move_to_trash stamp 5 1 ''g'' demo_tr = (Inr a, t) \<and> ns t = (ns demo_tr)((1, ''g'') := None, (5, unique_name stamp ''g'') \<mapsto> 4) \<and>
    st_inodes t = st_inodes demo_tr \<and> st_chunks t = st_chunks demo_tr \<and> st_xattrs t = st_xattrs demo_tr \<and> st_blobs t = st_blobs demo_tr \<and>
    trashed_at start2020 stamp (unique_name stamp ''g'') = Some stamp \<and>
    ns_result (rename 5 (unique_name stamp ''g'') 1 ''g'' t) = Inr (ns demo_tr)"
proof (rule trash_is_undoable [OF demo_tr_wf(1)])
  have "kinds demo_tr 4 = Some KindFile" by code_simp
  then show "kinds demo_tr 4 = Some KindDir \<Longrightarrow> (4, 5) \<notin> (ns_edges (ns demo_tr))\<^sup>*" by simp
  show "kinds demo_tr 5 = Some KindDir" "ns demo_tr (1, ''g'') = Some 4" "ns demo_tr (5, unique_name stamp ''g'') = None" by code_simp+
qed (simp_all add: stamp_def start2020_def)

theorem gc_removes_exactly_expired_witness:
  "gc_once start2020 (stamp + 10) 5 10 demo_full = (1, snd (gc_once start2020 (stamp + 10) 5 10 demo_full)) \<and>
   ns (snd (gc_once start2020 (stamp + 10) 5 10 demo_full)) (5, unique_name stamp ''g'') = None \<and>
   ns demo_full (5, unique_name stamp ''g'') = Some 4"
proof -
  have k: "kinds demo_full 4 = Some KindFile" by code_simp
  have a: "ns demo_full (5, unique_name stamp ''g'') = Some 4" "trashed_at start2020 (stamp + 10) (unique_name stamp ''g'') = Some stamp"
    "fst (gc_once start2020 (stamp + 10) 5 10 demo_full) = 1" by code_simp+
  have f: "\<not> full_dir demo_full 4" using k by (simp add: full_dir_def)
  note r = gc_removes_exactly_expired [OF demo_tr_wf(2), of start2020 "stamp + 10" 5 10 "fst (gc_once start2020 (stamp + 10) 5 10 demo_full)"
      "snd (gc_once start2020 (stamp + 10) 5 10 demo_full)"]
  then show ?thesis using a f by (simp add: prod_eq_iff)
qed

end
