(* ===== verification/FuseNodes.thy ===== *)
theory FuseNodes
  imports Upload Trash
begin

text \<open>
  The FUSE nodes of \<open>internal/fs/fs.go\<close>: what the kernel's requests do to the store and what they answer.
  A request carries its caller, its clock and whether it has been interrupted (\<open>ctx\<close>); operations that
  run under \<open>metaCtx\<close> do not see the interruption.  The kernel and the go-fuse library are outside the
  model: a node is its inode number, and a parent that is no TelFS node (the failed type
  assertion) is None.
\<close>

unbundle bit_operations_syntax

section \<open>Errors\<close>

text \<open>\<open>ENOTSUP\<close> and \<open>EOPNOTSUPP\<close> are one number on Linux.\<close>

datatype errno =
    EPERM | ENOENT | EINTR | EIO | EBADF | EEXIST | EXDEV | ENOTDIR | EISDIR | EINVAL | EROFS | ERANGE
  | ENODATA | ENOTEMPTY | EOPNOTSUPP

datatype fuse_err = FMeta meta_err | FCancelled

definition map_meta_err :: "fuse_err \<Rightarrow> errno" where
  "map_meta_err e =
     (if e = FMeta ErrNotFound then ENOENT
      else if e = FMeta ErrExists then EEXIST
      else if e = FMeta ErrNotEmpty then ENOTEMPTY
      else if e = FMeta ErrIsDir then EISDIR
      else if e = FMeta ErrNotDir then ENOTDIR
      else if e = FCancelled then EINTR
      else EIO)"

text \<open>\<open>logMetaErr\<close>: the errno, and whether a line is logged.\<close>

definition log_meta_err :: "fuse_err \<Rightarrow> errno \<times> bool" where
  "log_meta_err e = (map_meta_err e, e \<notin> {FMeta ErrNotFound, FMeta ErrExists, FMeta ErrNotEmpty, FMeta ErrIsDir, FMeta ErrNotDir, FCancelled})"

abbreviation errno_of :: "meta_err \<Rightarrow> errno" where "errno_of e \<equiv> fst (log_meta_err (FMeta e))"

section \<open>Requests and the backend\<close>

record request =
  rq_caller :: "(32 word \<times> 32 word) option"
  rq_cancelled :: bool
  rq_now :: int
  rq_nanos :: int

record backend =
  be_read_only :: bool
  be_uploader :: bool
  be_cache :: bool
  be_chunk_size :: int
  be_trash_ino :: int

text \<open>
  What a transient or a new writer meets: the environment of its chunks, and what the barrier of the
  inode's uploads leaves of the store (or the error of the wait).  \<open>fe_ctx_text\<close> tells of an error the
  model knows by its text only whether a context sentinel is in its chain.
\<close>

record fuse_env =
  fe_write :: write_env
  fe_barrier :: "int \<Rightarrow> store \<Rightarrow> write_err + store"
  fe_ctx_text :: "string \<Rightarrow> bool"

definition can_write :: "backend \<Rightarrow> bool" where
  "can_write b \<longleftrightarrow> \<not> be_read_only b \<and> be_uploader b \<and> be_cache b"

definition require_write :: "backend \<Rightarrow> errno option" where
  "require_write b = (if can_write b then None else Some EROFS)"

definition be_chunk :: "backend \<Rightarrow> int" where
  "be_chunk b = (if be_chunk_size b > 0 then be_chunk_size b else ChunkSize)"

definition caller_uid :: "request \<Rightarrow> 32 word" where
  "caller_uid q = (case rq_caller q of Some (u, _) \<Rightarrow> u | None \<Rightarrow> 0)"

definition caller_gid :: "request \<Rightarrow> 32 word" where
  "caller_gid q = (case rq_caller q of Some (_, g) \<Rightarrow> g | None \<Rightarrow> 0)"

text \<open>A query under the request's own context.\<close>

definition under_ctx :: "request \<Rightarrow> meta_err + 'a \<Rightarrow> fuse_err + 'a" where
  "under_ctx q r = (if rq_cancelled q then Inl FCancelled else (case r of Inl e \<Rightarrow> Inl (FMeta e) | Inr a \<Rightarrow> Inr a))"

section \<open>Attributes\<close>

record attr =
  at_ino :: "64 word"
  at_size :: "64 word"
  at_blocks :: "64 word"
  at_blksize :: "32 word"
  at_mode :: "32 word"
  at_uid :: "32 word"
  at_gid :: "32 word"
  at_nlink :: "32 word"
  at_mtime :: "64 word"
  at_atime :: "64 word"
  at_ctime :: "64 word"

definition fill_attr :: "inode \<Rightarrow> attr" where
  "fill_attr i = \<lparr>at_ino = word_of_int (i_ino i), at_size = word_of_int (i_size i),
     at_blocks = (word_of_int (i_size i) + 511) div 512, at_blksize = 4096, at_mode = i_mode i, at_uid = i_uid i, at_gid = i_gid i,
     at_nlink = word_of_int (i_nlink i), at_mtime = word_of_int (i_mtime i), at_atime = word_of_int (i_mtime i),
     at_ctime = word_of_int (i_ctime i)\<rparr>"

definition S_IFDIR :: "32 word" where "S_IFDIR = 0x4000"
definition S_IFREG :: "32 word" where "S_IFREG = 0x8000"
definition S_IFLNK :: "32 word" where "S_IFLNK = 0xA000"

definition kind_to_fuse_mode :: "kind \<Rightarrow> 32 word" where
  "kind_to_fuse_mode k = (case k of KindDir \<Rightarrow> S_IFDIR | KindSymlink \<Rightarrow> S_IFLNK | _ \<Rightarrow> S_IFREG)"

text \<open>\<open>newChildInode\<close>: the child's inode number, and the stable attributes the kernel is told.\<close>

record child_node =
  cn_ino :: int
  cn_stable_ino :: "64 word"
  cn_mode :: "32 word"

definition new_child_inode :: "inode \<Rightarrow> child_node" where
  "new_child_inode i = \<lparr>cn_ino = i_ino i, cn_stable_ino = word_of_int (i_ino i), cn_mode = kind_to_fuse_mode (i_kind i)\<rparr>"

type_synonym entry = "child_node \<times> attr"

definition entry_of :: "inode \<Rightarrow> entry" where "entry_of i = (new_child_inode i, fill_attr i)"

section \<open>Usage and statfs\<close>

definition usage :: "store \<Rightarrow> int \<times> int" where
  "usage s = (sum_list (map (\<lambda>i. if i_kind i = KindFile then i_size i else 0) (st_inodes s)), int (length (st_inodes s)))"

record usage_cache =
  uc_at :: int
  uc_bytes :: int
  uc_inos :: int

definition usage_ttl :: int where "usage_ttl = 5000000000"

text \<open>\<open>res\<close> is what the aggregate query answers: None when the database is busy.\<close>

definition cached_usage :: "int \<Rightarrow> (int \<times> int) option \<Rightarrow> usage_cache \<Rightarrow> (int \<times> int) \<times> usage_cache" where
  "cached_usage now res u =
     (if now - uc_at u < usage_ttl then ((uc_bytes u, uc_inos u), u)
      else (case res of
          Some (b, n) \<Rightarrow> ((b, n), \<lparr>uc_at = now, uc_bytes = b, uc_inos = n\<rparr>)
        | None \<Rightarrow> ((uc_bytes u, uc_inos u), u)))"

record statfs_out =
  sf_blocks :: "64 word"
  sf_bfree :: "64 word"
  sf_bavail :: "64 word"
  sf_files :: "64 word"
  sf_ffree :: "64 word"
  sf_bsize :: "32 word"
  sf_frsize :: "32 word"
  sf_namelen :: "32 word"

definition block_cnt :: "64 word" where "block_cnt = 0x200000000000"
definition fake_files :: "64 word" where "fake_files = 0x100000000"

definition statfs_node :: "int \<times> int \<Rightarrow> statfs_out" where
  "statfs_node u =
     (let ub = (word_of_int (fst u) + 4096 - 1) div 4096;
          ub' = (if ub > block_cnt then block_cnt else ub);
          uf = word_of_int (snd u);
          uf' = (if uf > fake_files then fake_files else uf)
      in \<lparr>sf_blocks = block_cnt, sf_bfree = block_cnt - ub', sf_bavail = block_cnt - ub', sf_files = fake_files, sf_ffree = fake_files - uf',
          sf_bsize = 4096, sf_frsize = 4096, sf_namelen = 255\<rparr>)"

section \<open>Queries\<close>

definition getattr_node :: "request \<Rightarrow> int \<Rightarrow> store \<Rightarrow> errno + attr" where
  "getattr_node q ino s =
     (case under_ctx q (get_inode ino s) of
        Inl e \<Rightarrow> Inl (fst (log_meta_err e))
      | Inr i \<Rightarrow> Inr (fill_attr i))"

definition lookup_node :: "request \<Rightarrow> int \<Rightarrow> string \<Rightarrow> store \<Rightarrow> errno + entry" where
  "lookup_node q ino name s =
     (case under_ctx q (lookup ino name s) of
        Inl e \<Rightarrow> Inl (fst (log_meta_err e))
      | Inr i \<Rightarrow> Inr (entry_of i))"

text \<open>A symbolic link's text; every error of the query, an interruption included, is \<open>ENOENT\<close>.\<close>

definition readlink_node :: "request \<Rightarrow> int \<Rightarrow> store \<Rightarrow> errno + string" where
  "readlink_node q ino s =
     (case under_ctx q (get_inode ino s) of
        Inl _ \<Rightarrow> Inl ENOENT
      | Inr i \<Rightarrow> if i_kind i \<noteq> KindSymlink then Inl EINVAL else Inr (i_target i))"

record dir_entry =
  de_name :: string
  de_ino :: "64 word"
  de_mode :: "32 word"

definition dir_entry_of :: "dirent_info \<Rightarrow> dir_entry" where
  "dir_entry_of d = \<lparr>de_name = di_name d, de_ino = word_of_int (di_ino d), de_mode = kind_to_fuse_mode (di_kind d)\<rparr>"

definition readdir_node :: "request \<Rightarrow> int \<Rightarrow> store \<Rightarrow> errno + dir_entry list" where
  "readdir_node q ino s =
     (case under_ctx q (Inr (readdir_info ino s)) of
        Inl e \<Rightarrow> Inl (fst (log_meta_err e))
      | Inr ds \<Rightarrow> Inr (map dir_entry_of ds))"

section \<open>Directory handles\<close>

text \<open>
  The handle of \<open>OpendirHandle\<close>; the list is made on the first use.  The list stream is the library's:
  its remaining entries, and its own seek, which may be missing (\<open>seek\<close>).
\<close>

record dir_handle =
  dh_ino :: int
  dh_ds :: "dir_entry list option"

definition opendir_node :: "int \<Rightarrow> dir_handle" where "opendir_node ino = \<lparr>dh_ino = ino, dh_ds = None\<rparr>"

definition dh_ensure :: "request \<Rightarrow> store \<Rightarrow> dir_handle \<Rightarrow> errno + dir_handle" where
  "dh_ensure q s d =
     (case dh_ds d of
        Some _ \<Rightarrow> Inr d
      | None \<Rightarrow> (case readdir_node q (dh_ino d) s of Inl e \<Rightarrow> Inl e | Inr ds \<Rightarrow> Inr (d\<lparr>dh_ds := Some ds\<rparr>)))"

definition readdirent :: "request \<Rightarrow> store \<Rightarrow> dir_handle \<Rightarrow> (errno + dir_entry option) \<times> dir_handle" where
  "readdirent q s d =
     (case dh_ensure q s d of
        Inl e \<Rightarrow> (Inl e, d)
      | Inr d1 \<Rightarrow>
          (case dh_ds d1 of
             Some (e # es) \<Rightarrow> (Inr (Some e), d1\<lparr>dh_ds := Some es\<rparr>)
           | _ \<Rightarrow> (Inr None, d1)))"

definition seekdir :: "(dir_entry list \<Rightarrow> 64 word \<Rightarrow> errno + dir_entry list) option \<Rightarrow> request \<Rightarrow> store \<Rightarrow> 64 word \<Rightarrow> dir_handle
    \<Rightarrow> errno option \<times> dir_handle" where
  "seekdir seek q s off d =
     (case dh_ensure q s d of
        Inl e \<Rightarrow> (Some e, d)
      | Inr d1 \<Rightarrow>
          (case seek of
             None \<Rightarrow> (Some EOPNOTSUPP, d1)
           | Some f \<Rightarrow>
               (case f (case dh_ds d1 of Some ds \<Rightarrow> ds | None \<Rightarrow> []) off of
                  Inl e \<Rightarrow> (Some e, d1)
                | Inr ds \<Rightarrow> (None, d1\<lparr>dh_ds := Some ds\<rparr>))))"

section \<open>Writers of requests\<close>

text \<open>\<open>chunk.NewWriter\<close>: the barrier of the inode, then the writer.\<close>

definition open_writer :: "fuse_env \<Rightarrow> backend \<Rightarrow> int \<Rightarrow> store \<Rightarrow> (write_err + writer) \<times> store" where
  "open_writer F b ino s =
     (case fe_barrier F ino s of
        Inl e \<Rightarrow> (Inl e, s)
      | Inr s1 \<Rightarrow> (new_writer ino (be_chunk b) 0 s1, s1))"

text \<open>\<open>Node.truncate\<close>: a writer for one truncation, flushed and closed.\<close>

definition truncate_node :: "fuse_env \<Rightarrow> backend \<Rightarrow> int \<Rightarrow> int \<Rightarrow> store \<Rightarrow> errno option \<times> store" where
  "truncate_node F b ino sz s =
     (if \<not> can_write b then (Some EROFS, s)
      else
        (case open_writer F b ino s of
           (Inl _, s1) \<Rightarrow> (Some EIO, s1)
         | (Inr w, s1) \<Rightarrow>
             (case WriterBuf.truncate (fe_write F) sz w s1 of
                (Inl _, _, s2) \<Rightarrow> (Some EIO, s2)
              | (Inr _, w2, s2) \<Rightarrow>
                  (case flush_writer (fe_write F) w2 s2 of
                     (Some _, _, s3) \<Rightarrow> (Some EIO, s3)
                   | (None, _, s3) \<Rightarrow> (None, s3)))))"

section \<open>File handles\<close>

record file_handle =
  fh_ino :: int
  fh_writer :: "writer option"
  fh_chunk_size :: int
  fh_size :: int
  fh_sparse :: bool
  fh_dirty :: bool
  fh_last_end :: int

definition mark_dirty :: "file_handle \<Rightarrow> file_handle" where "mark_dirty h = h\<lparr>fh_dirty := True\<rparr>"

definition fresh_handle :: "int \<Rightarrow> writer option \<Rightarrow> file_handle" where
  "fresh_handle ino w = \<lparr>fh_ino = ino, fh_writer = w, fh_chunk_size = 0, fh_size = 0, fh_sparse = False, fh_dirty = False, fh_last_end = -1\<rparr>"

text \<open>The hints a handle takes from the inode when it can be read.\<close>

definition with_hints :: "backend \<Rightarrow> fuse_err + inode \<Rightarrow> file_handle \<Rightarrow> file_handle" where
  "with_hints b r h =
     (case r of
        Inl _ \<Rightarrow> h
      | Inr i \<Rightarrow> h\<lparr>fh_chunk_size := (if i_chunk_size i \<le> 0 then be_chunk b else i_chunk_size i), fh_size := i_size i, fh_sparse := i_sparse i\<rparr>)"

text \<open>The open flags: the access mode is not \<open>O_RDONLY\<close>, and \<open>O_TRUNC\<close>.\<close>

definition O_ACCMODE :: "32 word" where "O_ACCMODE = 3"
definition O_TRUNC :: "32 word" where "O_TRUNC = 0x200"

definition wants_write :: "32 word \<Rightarrow> bool" where
  "wants_write flags \<longleftrightarrow> (flags AND O_ACCMODE) \<noteq> 0 \<or> (flags AND O_TRUNC) \<noteq> 0"

text \<open>An open; a read-only mount gives no handle at all (None).\<close>

definition open_node :: "fuse_env \<Rightarrow> backend \<Rightarrow> request \<Rightarrow> int \<Rightarrow> 32 word \<Rightarrow> store \<Rightarrow> (errno + file_handle option) \<times> store" where
  "open_node F b q ino flags s =
     (if \<not> can_write b then (if wants_write flags then (Inl EROFS, s) else (Inr None, s))
      else if \<not> wants_write flags then
        (Inr (Some (with_hints b (under_ctx q (get_inode ino s)) (fresh_handle ino None))), s)
      else if rq_cancelled q then (Inl EIO, s)
      else
        (case open_writer F b ino s of
           (Inl _, s1) \<Rightarrow> (Inl EIO, s1)
         | (Inr w, s1) \<Rightarrow>
             (case (if (flags AND O_TRUNC) \<noteq> 0 then WriterBuf.truncate (fe_write F) 0 w s1 else (Inr (), w, s1)) of
                (Inl _, _, s2) \<Rightarrow> (Inl EIO, s2)
              | (Inr _, w2, s2) \<Rightarrow>
                  (Inr (Some (with_hints b (under_ctx q (get_inode ino s2)) (fresh_handle ino (Some w2)))), s2))))"

section \<open>Attributes and truncation\<close>

record set_attr_in =
  sa_mode :: "32 word option"
  sa_uid :: "32 word option"
  sa_gid :: "32 word option"
  sa_mtime :: "int option"
  sa_size :: "64 word option"

definition attr_patch :: "set_attr_in \<Rightarrow> attrs_patch" where
  "attr_patch x = \<lparr>p_mode = sa_mode x, p_uid = sa_uid x, p_gid = sa_gid x, p_size = None, p_mtime = sa_mtime x\<rparr>"

definition has_attrs :: "set_attr_in \<Rightarrow> bool" where
  "has_attrs x \<longleftrightarrow> sa_mode x \<noteq> None \<or> sa_uid x \<noteq> None \<or> sa_gid x \<noteq> None \<or> sa_mtime x \<noteq> None"

text \<open>The size, by the writer of an open write handle when there is one.  \<open>int64(size)\<close> is the signed reading.\<close>

definition setattr_size :: "fuse_env \<Rightarrow> backend \<Rightarrow> int \<Rightarrow> file_handle option \<Rightarrow> 64 word option \<Rightarrow> store \<Rightarrow> errno option \<times> file_handle option \<times> store" where
  "setattr_size F b ino fh sz s =
     (case sz of
        None \<Rightarrow> (None, fh, s)
      | Some n \<Rightarrow>
          (case fh of
             Some h \<Rightarrow>
               (case fh_writer h of
                  Some w \<Rightarrow>
                    (case WriterBuf.truncate (fe_write F) (sint n) w s of
                       (Inl _, w1, s1) \<Rightarrow> (Some EIO, Some (h\<lparr>fh_writer := Some w1\<rparr>), s1)
                     | (Inr _, w1, s1) \<Rightarrow> (None, Some (mark_dirty (h\<lparr>fh_writer := Some w1\<rparr>)), s1))
                | None \<Rightarrow> (case truncate_node F b ino (sint n) s of (e, s1) \<Rightarrow> (e, fh, s1)))
           | None \<Rightarrow> (case truncate_node F b ino (sint n) s of (e, s1) \<Rightarrow> (e, fh, s1))))"

definition setattr_node :: "fuse_env \<Rightarrow> backend \<Rightarrow> request \<Rightarrow> int \<Rightarrow> file_handle option \<Rightarrow> set_attr_in \<Rightarrow> store
    \<Rightarrow> (errno + attr) \<times> file_handle option \<times> store" where
  "setattr_node F b q ino fh x s =
     (case require_write b of
        Some e \<Rightarrow> (Inl e, fh, s)
      | None \<Rightarrow>
          (case (if has_attrs x then set_attrs (rq_now q) ino (attr_patch x) s else (Inr (), s)) of
             (Inl e, s1) \<Rightarrow> (Inl (errno_of e), fh, s1)
           | (Inr _, s1) \<Rightarrow>
               (case setattr_size F b ino fh (sa_size x) s1 of
                  (Some e, fh1, s2) \<Rightarrow> (Inl e, fh1, s2)
                | (None, fh1, s2) \<Rightarrow>
                    (case get_inode ino s2 of
                       Inl e \<Rightarrow> (Inl (errno_of e), fh1, s2)
                     | Inr i \<Rightarrow> (Inr (fill_attr i), fh1, s2)))))"

section \<open>Creation\<close>

definition new_child :: "kind \<Rightarrow> 32 word \<Rightarrow> string \<Rightarrow> int \<Rightarrow> request \<Rightarrow> inode" where
  "new_child k mode target cs q = \<lparr>i_ino = 0, i_kind = k, i_mode = mode, i_uid = caller_uid q, i_gid = caller_gid q, i_size = 0, i_nlink = 0,
     i_mtime = 0, i_ctime = 0, i_target = target, i_chunk_size = cs, i_sparse = False\<rparr>"

text \<open>The create and the read back that \<open>Mkdir\<close>, \<open>Symlink\<close> and \<open>Create\<close> share.\<close>

definition make_child :: "request \<Rightarrow> int \<Rightarrow> string \<Rightarrow> inode \<Rightarrow> store \<Rightarrow> (errno + inode) \<times> store" where
  "make_child q parent name child s =
     (case create_child (rq_now q) parent name child s of
        (Inl e, s1) \<Rightarrow> (Inl (errno_of e), s1)
      | (Inr ino, s1) \<Rightarrow>
          (case get_inode ino s1 of
             Inl e \<Rightarrow> (Inl (errno_of e), s1)
           | Inr i \<Rightarrow> (Inr i, s1)))"

definition create_node :: "fuse_env \<Rightarrow> backend \<Rightarrow> request \<Rightarrow> int \<Rightarrow> string \<Rightarrow> 32 word \<Rightarrow> store \<Rightarrow> (errno + entry \<times> file_handle) \<times> store" where
  "create_node F b q parent name mode s =
     (if \<not> can_write b then (Inl EROFS, s)
      else
        (case make_child q parent name (new_child KindFile (mode OR S_IFREG) [] (be_chunk b) q) s of
           (Inl e, s1) \<Rightarrow> (Inl e, s1)
         | (Inr i, s1) \<Rightarrow>
             (case open_writer F b (i_ino i) s1 of
                (Inl _, s2) \<Rightarrow> (Inl EIO, s2)
              | (Inr w, s2) \<Rightarrow> (Inr (entry_of i, fresh_handle (i_ino i) (Some w)), s2))))"

definition mkdir_node :: "backend \<Rightarrow> request \<Rightarrow> int \<Rightarrow> string \<Rightarrow> 32 word \<Rightarrow> store \<Rightarrow> (errno + entry) \<times> store" where
  "mkdir_node b q parent name mode s =
     (case require_write b of
        Some e \<Rightarrow> (Inl e, s)
      | None \<Rightarrow>
          (case make_child q parent name (new_child KindDir (mode OR S_IFDIR) [] 0 q) s of
             (Inl e, s1) \<Rightarrow> (Inl e, s1)
           | (Inr i, s1) \<Rightarrow> (Inr (entry_of i), s1)))"

definition symlink_node :: "backend \<Rightarrow> request \<Rightarrow> int \<Rightarrow> string \<Rightarrow> string \<Rightarrow> store \<Rightarrow> (errno + entry) \<times> store" where
  "symlink_node b q parent target name s =
     (case require_write b of
        Some e \<Rightarrow> (Inl e, s)
      | None \<Rightarrow>
          (case make_child q parent name (new_child KindSymlink (0x1FF OR S_IFLNK) target 0 q) s of
             (Inl e, s1) \<Rightarrow> (Inl e, s1)
           | (Inr i, s1) \<Rightarrow> (Inr (entry_of i), s1)))"

definition link_node :: "backend \<Rightarrow> int \<Rightarrow> int option \<Rightarrow> string \<Rightarrow> store \<Rightarrow> (errno + entry) \<times> store" where
  "link_node b parent target name s =
     (case require_write b of
        Some e \<Rightarrow> (Inl e, s)
      | None \<Rightarrow>
          (case target of
             None \<Rightarrow> (Inl EXDEV, s)
           | Some t \<Rightarrow>
               (case link parent name t s of
                  (Inl e, s1) \<Rightarrow> (Inl (if e = ErrIsDir then EPERM else errno_of e), s1)
                | (Inr _, s1) \<Rightarrow>
                    (case get_inode t s1 of
                       Inl e \<Rightarrow> (Inl (errno_of e), s1)
                     | Inr i \<Rightarrow> (Inr (entry_of i), s1)))))"

section \<open>Removal and renaming\<close>

definition meta_reply :: "(meta_err + 'a) \<times> store \<Rightarrow> errno option \<times> store" where
  "meta_reply r = (case r of (Inl e, s) \<Rightarrow> (Some (errno_of e), s) | (Inr _, s) \<Rightarrow> (None, s))"

definition trash_rename :: "backend \<Rightarrow> request \<Rightarrow> int \<Rightarrow> string \<Rightarrow> store \<Rightarrow> (meta_err + int) \<times> store" where
  "trash_rename b q = move_to_trash (rq_nanos q) (be_trash_ino b)"

text \<open>The end that \<open>Unlink\<close> and \<open>Rmdir\<close> share: the trash intercept, or the removal.\<close>

definition remove_entry :: "backend \<Rightarrow> request \<Rightarrow> int \<Rightarrow> string \<Rightarrow> store \<Rightarrow> errno option \<times> store" where
  "remove_entry b q parent name s =
     (if be_trash_ino b \<noteq> 0 \<and> parent \<noteq> be_trash_ino b then meta_reply (trash_rename b q parent name s)
      else meta_reply (unlink parent name s))"

definition unlink_node :: "backend \<Rightarrow> request \<Rightarrow> int \<Rightarrow> string \<Rightarrow> store \<Rightarrow> errno option \<times> store" where
  "unlink_node b q parent name s =
     (case require_write b of
        Some e \<Rightarrow> (Some e, s)
      | None \<Rightarrow>
          (case under_ctx q (lookup parent name s) of
             Inl e \<Rightarrow> (Some (fst (log_meta_err e)), s)
           | Inr i \<Rightarrow>
               if i_kind i = KindDir then (Some EISDIR, s)
               else if parent = RootIno \<and> i_ino i = be_trash_ino b then (Some EPERM, s)
               else remove_entry b q parent name s))"

definition rmdir_node :: "backend \<Rightarrow> request \<Rightarrow> int \<Rightarrow> string \<Rightarrow> store \<Rightarrow> errno option \<times> store" where
  "rmdir_node b q parent name s =
     (case require_write b of
        Some e \<Rightarrow> (Some e, s)
      | None \<Rightarrow>
          (case lookup parent name s of
             Inl e \<Rightarrow> (Some (errno_of e), s)
           | Inr i \<Rightarrow>
               if i_kind i \<noteq> KindDir then (Some ENOTDIR, s)
               else if parent = RootIno \<and> i_ino i = be_trash_ino b then (Some EPERM, s)
               else remove_entry b q parent name s))"

text \<open>The flags of renameat2 are not looked at.\<close>

definition rename_node :: "backend \<Rightarrow> int \<Rightarrow> string \<Rightarrow> int option \<Rightarrow> string \<Rightarrow> 32 word \<Rightarrow> store \<Rightarrow> errno option \<times> store" where
  "rename_node b parent old_name new_parent new_name flags s =
     (case require_write b of
        Some e \<Rightarrow> (Some e, s)
      | None \<Rightarrow>
          (case new_parent of
             None \<Rightarrow> (Some EXDEV, s)
           | Some np \<Rightarrow> meta_reply (rename parent old_name np new_name s)))"

section \<open>Extended attributes\<close>

definition is_user_xattr :: "string \<Rightarrow> bool" where
  "is_user_xattr name \<longleftrightarrow> take 5 name = ''user.''"

definition setxattr_node :: "backend \<Rightarrow> int \<Rightarrow> string \<Rightarrow> string \<Rightarrow> 32 word \<Rightarrow> store \<Rightarrow> errno option \<times> store" where
  "setxattr_node b ino name v flags s =
     (case require_write b of
        Some e \<Rightarrow> (Some e, s)
      | None \<Rightarrow> if \<not> is_user_xattr name then (Some EOPNOTSUPP, s) else meta_reply (set_xattr ino name v s))"

text \<open>The reply of the two size protocols: the number, what is in the buffer, and the errno.\<close>

definition getxattr_node :: "request \<Rightarrow> int \<Rightarrow> string \<Rightarrow> nat \<Rightarrow> store \<Rightarrow> 32 word \<times> string \<times> errno option" where
  "getxattr_node q ino name cap s =
     (if \<not> is_user_xattr name then (0, [], Some EOPNOTSUPP)
      else (case under_ctx q (get_xattr ino name s) of
          Inl e \<Rightarrow> if e = FMeta ErrNotFound then (0, [], Some ENODATA) else (0, [], Some (fst (log_meta_err e)))
        | Inr v \<Rightarrow> if cap < length v then (word_of_nat (length v), [], Some ERANGE) else (word_of_nat (length v), v, None)))"

definition listxattr_node :: "request \<Rightarrow> int \<Rightarrow> nat \<Rightarrow> store \<Rightarrow> 32 word \<times> string \<times> errno option" where
  "listxattr_node q ino cap s =
     (case under_ctx q (Inr (list_xattrs ino s)) of
        Inl e \<Rightarrow> (0, [], Some (fst (log_meta_err e)))
      | Inr names \<Rightarrow>
          (let len = sum_list (map (\<lambda>n. length n + 1) names) in
           if cap < len then (word_of_nat len, [], Some ERANGE)
           else (word_of_nat len, concat (map (\<lambda>n. n @ [CHR 0x00]) names), None)))"

definition removexattr_node :: "backend \<Rightarrow> int \<Rightarrow> string \<Rightarrow> store \<Rightarrow> errno option \<times> store" where
  "removexattr_node b ino name s =
     (case require_write b of
        Some e \<Rightarrow> (Some e, s)
      | None \<Rightarrow>
          if \<not> is_user_xattr name then (Some EOPNOTSUPP, s)
          else (case remove_xattr ino name s of
              (Inl e, s1) \<Rightarrow> (Some (if e = ErrNotFound then ENODATA else EIO), s1)
            | (Inr _, s1) \<Rightarrow> (None, s1)))"

end
