(* ===== verification/FuseHandles.thy ===== *)
theory FuseHandles
  imports FuseNodes Reader
begin

text \<open>
  The file handles of \<open>internal/fs/handle.go\<close>: reads with seek detection and the hints of the open,
  writes, flush, fsync and release over the handle's writer.
\<close>

section \<open>Interruptions\<close>

text \<open>\<open>interrupted\<close>: the request's context is done, or a context sentinel is in the error's chain.\<close>

definition cache_ctx_err :: "fuse_env \<Rightarrow> cache_err \<Rightarrow> bool" where
  "cache_ctx_err F e = (case e of
      FetchErr g \<Rightarrow> ge_canceled g \<or> fe_ctx_text F (ge_text g)
    | ReadErr g \<Rightarrow> ge_canceled g \<or> fe_ctx_text F (ge_text g)
    | WriteErr g \<Rightarrow> ge_canceled g \<or> fe_ctx_text F (ge_text g)
    | CtxDone \<Rightarrow> True
    | _ \<Rightarrow> False)"

definition read_ctx_err :: "fuse_env \<Rightarrow> read_err \<Rightarrow> bool" where
  "read_ctx_err F e = (case e of RCache c \<Rightarrow> cache_ctx_err F c | RWait _ \<Rightarrow> True | RStage t \<Rightarrow> fe_ctx_text F t | _ \<Rightarrow> False)"

definition up_ctx_err :: "fuse_env \<Rightarrow> up_err \<Rightarrow> bool" where
  "up_ctx_err F e = (case e of UpPack (PackUploadErr t) \<Rightarrow> fe_ctx_text F t | UpCtx \<Rightarrow> True | UpSlot \<Rightarrow> True | UpNet t \<Rightarrow> fe_ctx_text F t | _ \<Rightarrow> False)"

definition write_ctx_err :: "fuse_env \<Rightarrow> write_err \<Rightarrow> bool" where
  "write_ctx_err F e = (case e of WPreload _ c \<Rightarrow> cache_ctx_err F c | WCtx \<Rightarrow> True | WGate _ \<Rightarrow> True | WLost u \<Rightarrow> up_ctx_err F u | _ \<Rightarrow> False)"

definition read_errno :: "fuse_env \<Rightarrow> request \<Rightarrow> read_err \<Rightarrow> errno" where
  "read_errno F q e = (if rq_cancelled q \<or> read_ctx_err F e then EINTR else EIO)"

definition write_errno :: "fuse_env \<Rightarrow> request \<Rightarrow> write_err \<Rightarrow> errno" where
  "write_errno F q e = (if rq_cancelled q \<or> write_ctx_err F e then EINTR else EIO)"

section \<open>Reads\<close>

definition seek_threshold :: int where "seek_threshold = 16777216"

definition is_seek :: "int \<Rightarrow> file_handle \<Rightarrow> bool" where
  "is_seek off h \<longleftrightarrow> fh_last_end h \<ge> 0 \<and> (let gap = off - fh_last_end h in (if gap < 0 then - gap else gap) > seek_threshold)"

definition is_clean :: "file_handle \<Rightarrow> bool" where
  "is_clean h \<longleftrightarrow> fh_chunk_size h > 0 \<and> \<not> fh_dirty h"

text \<open>A request of the kernel has len bytes at off; the reply is the bytes read.\<close>

definition handle_read :: "fuse_env \<Rightarrow> rd_env \<Rightarrow> request \<Rightarrow> int \<Rightarrow> int \<Rightarrow> file_handle \<Rightarrow> rd_world \<Rightarrow> (errno + bytes) \<times> file_handle \<times> rd_world" where
  "handle_read F E q len off h W =
     (case (if is_seek off h \<and> is_clean h then read_at_known_seek E (fh_ino h) len off (fh_chunk_size h) (fh_size h) (fh_sparse h) W
            else if is_seek off h then read_at_known_seek E (fh_ino h) len off 0 0 False W
            else if is_clean h then read_at_known E (fh_ino h) len off (fh_chunk_size h) (fh_size h) (fh_sparse h) W
            else read_at E (fh_ino h) len off W) of
        ((Some e, _), W1) \<Rightarrow> (Inl (read_errno F q e), h, W1)
      | ((None, d), W1) \<Rightarrow> (Inr d, h\<lparr>fh_last_end := off + len\<rparr>, W1))"

text \<open>\<open>Node.Read\<close>: a read without a handle.\<close>

definition node_read :: "fuse_env \<Rightarrow> rd_env \<Rightarrow> request \<Rightarrow> int \<Rightarrow> int \<Rightarrow> int \<Rightarrow> rd_world \<Rightarrow> (errno + bytes) \<times> rd_world" where
  "node_read F E q ino len off W =
     (case read_at E ino len off W of
        ((Some e, _), W1) \<Rightarrow> (Inl (read_errno F q e), W1)
      | ((None, d), W1) \<Rightarrow> (Inr d, W1))"

section \<open>Writes\<close>

definition handle_write :: "fuse_env \<Rightarrow> request \<Rightarrow> bytes \<Rightarrow> int \<Rightarrow> file_handle \<Rightarrow> store \<Rightarrow> (32 word \<times> errno option) \<times> file_handle \<times> store" where
  "handle_write F q data off h s =
     (case fh_writer h of
        None \<Rightarrow> ((0, Some EBADF), h, s)
      | Some w \<Rightarrow>
          (case write_at (fe_write F) data off w s of
             ((Some e, n), w1, s1) \<Rightarrow> ((word_of_int n, Some (write_errno F q e)), h\<lparr>fh_writer := Some w1\<rparr>, s1)
           | ((None, n), w1, s1) \<Rightarrow> ((word_of_int n, None), h\<lparr>fh_writer := Some w1, fh_dirty := True\<rparr>, s1)))"

definition handle_flush :: "fuse_env \<Rightarrow> request \<Rightarrow> file_handle \<Rightarrow> store \<Rightarrow> errno option \<times> file_handle \<times> store" where
  "handle_flush F q h s =
     (case fh_writer h of
        None \<Rightarrow> (None, h, s)
      | Some w \<Rightarrow>
          (case flush_writer (fe_write F) w s of
             (Some e, w1, s1) \<Rightarrow> (Some (write_errno F q e), h\<lparr>fh_writer := Some w1\<rparr>, s1)
           | (None, w1, s1) \<Rightarrow> (None, h\<lparr>fh_writer := Some w1\<rparr>, s1)))"

text \<open>\<open>drain\<close> is what the handle's uploads have done when the last one has ended.\<close>

definition handle_fsync :: "fuse_env \<Rightarrow> (writer \<times> store \<Rightarrow> writer \<times> store) \<Rightarrow> request \<Rightarrow> file_handle \<Rightarrow> store \<Rightarrow> errno option \<times> file_handle \<times> store" where
  "handle_fsync F drain q h s =
     (case fh_writer h of
        None \<Rightarrow> (None, h, s)
      | Some w \<Rightarrow>
          (case sync_writer (fe_write F) drain w s of
             (Some e, w1, s1) \<Rightarrow> (Some (write_errno F q e), h\<lparr>fh_writer := Some w1\<rparr>, s1)
           | (None, w1, s1) \<Rightarrow> (None, h\<lparr>fh_writer := Some w1\<rparr>, s1)))"

definition handle_release :: "file_handle \<Rightarrow> file_handle" where
  "handle_release h = h\<lparr>fh_writer := map_option close_writer (fh_writer h)\<rparr>"

section \<open>Shutdown\<close>

text \<open>
  \<open>Backend.Shutdown\<close>: the packer is closed and its flusher run to its end first, then the pool is
  drained (\<open>wait\<close> is what the uploads in flight have done when the wait ends, in time or not), then
  the pool's context is cancelled.
\<close>

definition be_shutdown :: "(bytes \<Rightarrow> string + int) \<Rightarrow> (pack_req \<Rightarrow> meta_err option) \<Rightarrow> (upool \<Rightarrow> upool) \<Rightarrow> pack_world option \<Rightarrow> upool option
    \<Rightarrow> pack_world option \<times> upool option" where
  "be_shutdown up db wait pk pool =
     (map_option (\<lambda>w. loop_stop up db (w\<lparr>pw_packer := close_packer (pw_packer w)\<rparr>)) pk,
      map_option (\<lambda>p. shutdown (wait p)) pool)"

section \<open>The requests that name a node\<close>

text \<open>The requests of the node interface that may change the store, as one type.\<close>

datatype fuse_req =
    FSetattr int "file_handle option" set_attr_in
  | FCreate int string "32 word"
  | FMkdir int string "32 word"
  | FSymlink int string string
  | FLink int "int option" string
  | FUnlink int string
  | FRmdir int string
  | FRename int string "int option" string "32 word"
  | FSetxattr int string string "32 word"
  | FRemovexattr int string
  | FOpen int "32 word"
  | FWrite bytes int file_handle
  | FFlush file_handle

fun fuse_do :: "fuse_env \<Rightarrow> backend \<Rightarrow> request \<Rightarrow> fuse_req \<Rightarrow> store \<Rightarrow> errno option \<times> store" where
  "fuse_do F b q (FSetattr ino fh x) s = (case setattr_node F b q ino fh x s of (Inl e, _, t) \<Rightarrow> (Some e, t) | (Inr _, _, t) \<Rightarrow> (None, t))"
| "fuse_do F b q (FCreate p n m) s = (case create_node F b q p n m s of (Inl e, t) \<Rightarrow> (Some e, t) | (Inr _, t) \<Rightarrow> (None, t))"
| "fuse_do F b q (FMkdir p n m) s = (case mkdir_node b q p n m s of (Inl e, t) \<Rightarrow> (Some e, t) | (Inr _, t) \<Rightarrow> (None, t))"
| "fuse_do F b q (FSymlink p tg n) s = (case symlink_node b q p tg n s of (Inl e, t) \<Rightarrow> (Some e, t) | (Inr _, t) \<Rightarrow> (None, t))"
| "fuse_do F b q (FLink p tg n) s = (case link_node b p tg n s of (Inl e, t) \<Rightarrow> (Some e, t) | (Inr _, t) \<Rightarrow> (None, t))"
| "fuse_do F b q (FUnlink p n) s = unlink_node b q p n s"
| "fuse_do F b q (FRmdir p n) s = rmdir_node b q p n s"
| "fuse_do F b q (FRename p n np nn fl) s = rename_node b p n np nn fl s"
| "fuse_do F b q (FSetxattr i n v fl) s = setxattr_node b i n v fl s"
| "fuse_do F b q (FRemovexattr i n) s = removexattr_node b i n s"
| "fuse_do F b q (FOpen i fl) s = (case open_node F b q i fl s of (Inl e, t) \<Rightarrow> (Some e, t) | (Inr _, t) \<Rightarrow> (None, t))"
| "fuse_do F b q (FWrite d off h) s = (case handle_write F q d off h s of ((_, e), _, t) \<Rightarrow> (e, t))"
| "fuse_do F b q (FFlush h) s = (case handle_flush F q h s of (e, _, t) \<Rightarrow> (e, t))"

end
