(* ===== verification/FuseProps.thy ===== *)
theory FuseProps
  imports FuseHandles UploadProps MetaProps2 ReaderProps
begin

text \<open>
  What the mount promises: which requests may change the store and how, that the errno says what
  happened, and that the hints, sizes and protocols of the handles agree with the store.
\<close>

section \<open>What a writer does to the store\<close>

text \<open>
  A writer touches the store through four statements and the uploads it waits for.  A reflexive and
  transitive relation that these respect is respected by every operation of the writer.
\<close>

definition waits_keep :: "(store \<Rightarrow> store \<Rightarrow> bool) \<Rightarrow> write_env \<Rightarrow> bool" where
  "waits_keep K E \<longleftrightarrow> (\<forall>idx w s w' t. we_wait E idx (w, s) = Inr (w', t) \<longrightarrow> K s t)"

definition env_keeps :: "(store \<Rightarrow> store \<Rightarrow> bool) \<Rightarrow> fuse_env \<Rightarrow> bool" where
  "env_keeps K F \<longleftrightarrow> waits_keep K (fe_write F) \<and> (\<forall>ino s t. fe_barrier F ino s = Inr t \<longrightarrow> K s t)"

text \<open>The requests on a file's data and attributes, which leave the directory tree alone.\<close>

fun data_request :: "fuse_req \<Rightarrow> bool" where
  "data_request (FSetattr _ _ _) = True"
| "data_request (FOpen _ _) = True"
| "data_request (FWrite _ _ _) = True"
| "data_request (FFlush _) = True"
| "data_request _ = False"

locale store_frame =
  fixes K :: "store \<Rightarrow> store \<Rightarrow> bool"
  assumes refl: "K s s" and trans: "K s t \<Longrightarrow> K t u \<Longrightarrow> K s u"
    and sparse: "K s (snd (set_inode_sparse i s))"
    and chunk_size: "K s (snd (set_inode_chunk_size i z s))"
    and setsize: "K s (snd (set_size now i z s))"
    and above: "K s (snd (delete_chunks_above i j s))"
begin

lemma load: "waits_keep K E \<Longrightarrow> load_for_write E n idx w s = (r, w', t) \<Longrightarrow> K s t"
proof (induction n arbitrary: w s)
  case (Suc n)
  show ?case
  proof (cases "map_of (w_dirty w) idx = None \<and> map_of (w_uploading w) idx \<noteq> None \<and> is_ok (we_wait E idx (w, s))")
    case True
    then obtain w1 s1 where v: "we_wait E idx (w, s) = Inr (w1, s1)" by (auto simp: is_ok_def split: sum.splits)
    have k: "K s s1" using Suc.prems(1) v by (auto simp: waits_keep_def)
    show ?thesis
    proof (cases "w_upload_err w1")
      case None
      then have "load_for_write E n idx w1 s1 = (r, w', t)" using Suc.prems(2) True v by auto
      then show ?thesis using Suc.IH [OF Suc.prems(1)] trans [OF k] by blast
    qed (use Suc.prems(2) True v k in auto)
  qed (use Suc.prems(2) refl in \<open>auto simp: is_ok_def split: option.splits sum.splits if_splits\<close>)
qed (simp add: refl)

lemma mark: "mark_sparse w s = (r, w', t) \<Longrightarrow> K s t"
  using sparse [of s "w_ino w"] by (auto simp: mark_sparse_def refl split: if_splits prod.splits sum.splits)

lemma zero: "waits_keep K E \<Longrightarrow> zero_loop E idxs a b w s = (r, w', t) \<Longrightarrow> K s t"
proof (induction idxs arbitrary: w s)
  case (Cons idx idxs)
  obtain x w1 s1 where l: "load_for_write E (we_fuel E) idx w s = (x, w1, s1)" by (metis prod.collapse)
  have k: "K s s1" using load [OF Cons.prems(1) l] .
  show ?case
  proof (cases x)
    case (Inr d)
    obtain w2 where "zero_loop E idxs a b w2 s1 = (r, w', t)"
      using Cons.prems(2) l Inr by (auto simp: Let_def split: prod.splits)
    then show ?thesis using Cons.IH [OF Cons.prems(1)] k trans by blast
  qed (use Cons.prems l k in auto)
qed (simp add: refl)

lemma gap: "waits_keep K E \<Longrightarrow> write_gap E off w s = (r, w', t) \<Longrightarrow> K s t"
  by (auto simp: write_gap_def materialize_zeros_def refl split: if_splits prod.splits sum.splits intro: zero mark)

lemma wloop: "waits_keep K E \<Longrightarrow> write_loop E idxs cur src n w s = (r, w', t) \<Longrightarrow> K s t"
proof (induction idxs arbitrary: cur src n w s)
  case (Cons idx idxs)
  obtain x w1 s1 where l: "load_for_write E (we_fuel E) idx w s = (x, w1, s1)" by (metis prod.collapse)
  have k: "K s s1" using load [OF Cons.prems(1) l] .
  show ?case
  proof (cases x)
    case (Inr d)
    obtain cur' src' n' w2 where "write_loop E idxs cur' src' n' w2 s1 = (r, w', t)"
      using Cons.prems(2) l Inr by (auto simp: Let_def split: prod.splits)
    then show ?thesis using Cons.IH [OF Cons.prems(1)] k trans by blast
  qed (use Cons.prems l k in auto)
qed (simp add: refl)

lemma promote: "maybe_promote w s = (r, w', t) \<Longrightarrow> K s t"
  using chunk_size [of s "w_ino w"] by (auto simp: maybe_promote_def Let_def refl split: if_splits prod.splits sum.splits) (metis snd_conv)+

lemma writes:
  assumes "waits_keep K E" "write_at E src off w s = (r, w', t)"
  shows "K s t"
proof -
  obtain x w1 s1 where g: "write_gap E off w s = (x, w1, s1)" by (metis prod.collapse)
  have k1: "K s s1" using gap [OF assms(1) g] .
  obtain y w2 s2 where l: "write_loop E [to_int32 (go_div off (w_chunk_sz w1))..to_int32 (go_div (off + blen src - 1) (w_chunk_sz w1))] off src 0 w1 s1 = (y, w2, s2)"
    by (metis prod.collapse)
  have k2: "K s s2" using trans [OF k1 wloop [OF assms(1) l]] .
  obtain z w3 s3 where p: "maybe_promote w2 s2 = (z, w3, s3)" by (metis prod.collapse)
  have k3: "K s s3" using trans [OF k2 promote [OF p]] .
  show ?thesis using assms(2) g l p k1 k2 k3 refl
    by (auto simp: write_at_def split: if_splits sum.splits prod.splits option.splits)
qed

lemma twait: "waits_keep K E \<Longrightarrow> trunc_wait E n lst w s = (r, w', t) \<Longrightarrow> K s t"
proof (induction n arbitrary: w s)
  case (Suc n)
  note p = Suc.prems(2) [unfolded trunc_wait.simps [of E "Suc n"]]
  show ?case
  proof (cases "\<exists>idx d w1 s1. find (\<lambda>(idx, _). idx \<ge> lst) (w_uploading w) = Some (idx, d) \<and> we_wait E idx (w, s) = Inr (w1, s1)")
    case True
    then obtain idx d w1 s1 where v: "find (\<lambda>(idx, _). idx \<ge> lst) (w_uploading w) = Some (idx, d)" "we_wait E idx (w, s) = Inr (w1, s1)" by blast
    have k: "K s s1" using Suc.prems(1) v(2) by (auto simp: waits_keep_def)
    show ?thesis
    proof (cases "w_closed w1")
      case False
      then have "trunc_wait E n lst w1 s1 = (r, w', t)" using p v by (simp del: trunc_wait.simps)
      then show ?thesis using Suc.IH [OF Suc.prems(1)] trans [OF k] by blast
    qed (use p v k in auto)
  next
    case False
    then show ?thesis using p refl by (auto simp del: trunc_wait.simps split: option.splits sum.splits)
  qed
qed (auto simp: refl split: option.splits)

lemma boundary: "waits_keep K E \<Longrightarrow> trunc_boundary E n lst w s = (r, w', t) \<Longrightarrow> K s t"
  by (auto simp: trunc_boundary_def Let_def refl split: if_splits prod.splits sum.splits intro: load)

lemma trunc:
  assumes "waits_keep K E" "WriterBuf.truncate E n w s = (r, w', t)"
  shows "K s t"
proof -
  let ?lst = "if n = 0 then -1 else to_int32 (go_div (n - 1) (w_chunk_sz w))"
  have grow: "K s t" if "n > w_size w" "0 \<le> n" "\<not> w_closed w"
  proof -
    obtain x w1 s1 where m: "mark_sparse w s = (x, w1, s1)" by (metis prod.collapse)
    have k1: "K s s1" using mark [OF m] .
    have "K s1 (snd (set_size (we_now E) (w_ino w1) n s1))" by (rule setsize)
    then show ?thesis using assms(2) that m k1 trans [OF k1]
      by (auto simp: WriterBuf.truncate_def meta_result_def split: sum.splits prod.splits)
  qed
  have shrink: "K s t" if sh: "truncate_shrink E n w s = (r, w', t)"
  proof -
    obtain x w1 s1 where m: "trunc_wait E (we_fuel E) ?lst w s = (x, w1, s1)" by (metis prod.collapse)
    have k1: "K s s1" using twait [OF assms(1) m] .
    obtain y w2 s2 where b: "trunc_boundary E n ?lst (trunc_dirty n ?lst w1) s1 = (y, w2, s2)" by (metis prod.collapse)
    have k2: "K s s2" using trans [OF k1 boundary [OF assms(1) b]] .
    obtain z s3 where d: "delete_chunks_above (w_ino w2) (to_int32 (?lst + 1)) s2 = (z, s3)" by (metis prod.collapse)
    have k3: "K s s3" using trans [OF k2] above [of s2 "w_ino w2" "to_int32 (?lst + 1)"] d by simp
    have "K s3 (snd (set_size (we_now E) (w_ino w2) n s3))" by (rule setsize)
    then show ?thesis using sh m b d k1 k2 k3 trans [OF k3]
      by (auto simp: truncate_shrink_def Let_def meta_result_def split: sum.splits prod.splits)
  qed
  show ?thesis using assms(2) grow shrink refl by (auto simp: WriterBuf.truncate_def split: if_splits)
qed

lemma flush:
  assumes "flush_writer E w s = (r, w', t)"
  shows "K s t"
proof -
  obtain x w1 s1 where p: "maybe_promote (w\<lparr>w_upload_err := None\<rparr>) s = (x, w1, s1)" by (metis prod.collapse)
  have k1: "K s s1" using promote [OF p] .
  obtain y w2 where d: "dispatch_all E (w_order w1) w1 = (y, w2)" by (metis prod.collapse)
  have "K s1 (snd (set_size (we_now E) (w_ino w2) (w_size w2) s1))" by (rule setsize)
  then show ?thesis using assms p d k1 trans [OF k1] refl
    by (auto simp: flush_writer_def Let_def split: if_splits sum.splits prod.splits)
qed

text \<open>The transient writer of a truncation, an open for writing, and the requests on the data of a file.\<close>

lemma opens: "env_keeps K F \<Longrightarrow> open_writer F b ino s = (r, t) \<Longrightarrow> K s t"
  by (auto simp: env_keeps_def open_writer_def refl split: sum.splits)

lemma tnode:
  assumes "env_keeps K F" "truncate_node F b ino n s = (r, t)"
  shows "K s t"
proof (cases "can_write b")
  case True
  have w: "waits_keep K (fe_write F)" using assms(1) by (simp add: env_keeps_def)
  obtain x s1 where o1: "open_writer F b ino s = (x, s1)" by (metis prod.collapse)
  have k1: "K s s1" using opens [OF assms(1) o1] .
  show ?thesis
  proof (cases x)
    case (Inr wr)
    obtain y w2 s2 where tr: "WriterBuf.truncate (fe_write F) n wr s1 = (y, w2, s2)" by (metis prod.collapse)
    have k2: "K s s2" using trans [OF k1 trunc [OF w tr]] .
    obtain z w3 s3 where fl: "flush_writer (fe_write F) w2 s2 = (z, w3, s3)" by (metis prod.collapse)
    have k3: "K s s3" using trans [OF k2 flush [OF fl]] .
    show ?thesis using assms(2) True o1 Inr tr fl k2 k3 by (auto simp: truncate_node_def split: sum.splits option.splits)
  qed (use assms(2) True o1 k1 in \<open>simp add: truncate_node_def\<close>)
qed (use assms(2) refl in \<open>simp add: truncate_node_def\<close>)

lemma opennode:
  assumes "env_keeps K F" "open_node F b q ino flags s = (r, t)"
  shows "K s t"
proof -
  have w: "waits_keep K (fe_write F)" using assms(1) by (simp add: env_keeps_def)
  obtain x s1 where o1: "open_writer F b ino s = (x, s1)" by (metis prod.collapse)
  have k1: "K s s1" using opens [OF assms(1) o1] .
  show ?thesis
  proof (cases x)
    case (Inr wr)
    obtain y w2 s2 where tr: "WriterBuf.truncate (fe_write F) 0 wr s1 = (y, w2, s2)" by (metis prod.collapse)
    have k2: "K s s2" using trans [OF k1 trunc [OF w tr]] .
    show ?thesis using assms(2) o1 Inr tr k1 k2 refl by (auto simp: open_node_def split: sum.splits if_splits)
  qed (use assms(2) o1 k1 refl in \<open>auto simp: open_node_def split: if_splits\<close>)
qed

lemma sasize:
  assumes "env_keeps K F" "setattr_size F b ino fh sz s = (e, fh', t)"
  shows "K s t"
proof -
  have w: "waits_keep K (fe_write F)" using assms(1) by (simp add: env_keeps_def)
  show ?thesis using assms(2) tnode [OF assms(1)] trunc [OF w] refl
    by (auto simp: setattr_size_def split: option.splits prod.splits sum.splits)
qed

lemma setattr:
  assumes "env_keeps K F" "\<And>u. K u (snd (set_attrs now ino (attr_patch x) u))" "setattr_node F b q ino fh x s = (r, fh', t)" "now = rq_now q"
  shows "K s t"
proof (cases "require_write b")
  case None
  obtain y s1 where a: "(if has_attrs x then set_attrs (rq_now q) ino (attr_patch x) s else (Inr (), s)) = (y, s1)" by (metis prod.collapse)
  have k1: "K s s1" using a assms(2) [of s] assms(4) refl by (auto split: if_splits)
  obtain e fh1 s2 where z: "setattr_size F b ino fh (sa_size x) s1 = (e, fh1, s2)" by (metis prod.collapse)
  have "K s s2" using trans [OF k1 sasize [OF assms(1) z]] .
  then show ?thesis using assms(3) None a z k1 by (auto simp: setattr_node_def split: sum.splits option.splits)
qed (use assms(3) refl in \<open>simp add: setattr_node_def\<close>)

lemma hwrite: "env_keeps K F \<Longrightarrow> handle_write F q d off h s = (r, h', t) \<Longrightarrow> K s t"
  using writes [of "fe_write F"] by (auto simp: handle_write_def env_keeps_def refl split: option.splits prod.splits)

lemma hflush: "handle_flush F q h s = (r, h', t) \<Longrightarrow> K s t"
  using flush [of "fe_write F"] by (auto simp: handle_flush_def refl split: option.splits prod.splits)

lemma data:
  assumes "env_keeps K F" "\<And>ino x u. K u (snd (set_attrs (rq_now q) ino (attr_patch x) u))" "data_request r"
  shows "K s (snd (fuse_do F b q r s))"
proof (cases r)
  case (FSetattr ino fh x)
  obtain y fh' t where e: "setattr_node F b q ino fh x s = (y, fh', t)" by (metis prod.collapse)
  show ?thesis using setattr [OF assms(1,2) e HOL.refl] FSetattr e by (simp split: sum.splits)
next
  case (FOpen ino fl)
  obtain y t where e: "open_node F b q ino fl s = (y, t)" by (metis prod.collapse)
  show ?thesis using opennode [OF assms(1) e] FOpen e by (simp split: sum.splits)
next
  case (FWrite d off h)
  obtain y h' t where e: "handle_write F q d off h s = (y, h', t)" by (metis prod.collapse)
  show ?thesis using hwrite [OF assms(1) e] FWrite e by (simp split: prod.splits)
next
  case (FFlush h)
  obtain y h' t where e: "handle_flush F q h s = (y, h', t)" by (metis prod.collapse)
  show ?thesis using hflush [OF e] FFlush e by simp
qed (use assms(3) in simp_all)

end

section \<open>Every request keeps the store well-formed\<close>

definition keeps_wf :: "store \<Rightarrow> store \<Rightarrow> bool" where
  "keeps_wf s t \<longleftrightarrow> (store_wf s \<longrightarrow> store_wf t)"

interpretation wfk: store_frame keeps_wf
  by unfold_locales (auto simp: keeps_wf_def intro: set_inode_sparse_wf set_inode_chunk_size_wf set_size_wf delete_chunks_above_wf)

lemma make_child_wf:
  assumes "store_wf s" "i_nlink c = 0"
  shows "store_wf (snd (make_child q p n c s))"
  using create_child_wf [OF assms(1), of c "rq_now q" p n] assms(2) by (auto simp: make_child_def split: prod.splits sum.splits)

lemma new_child_nlink [simp]: "i_nlink (new_child k m tg cs q) = 0"
  by (simp add: new_child_def)

lemma meta_reply_snd [simp]: "snd (meta_reply r) = snd r"
  by (auto simp: meta_reply_def split: prod.splits sum.splits)

lemma remove_entry_wf: "store_wf s \<Longrightarrow> store_wf (snd (remove_entry b q p n s))"
  by (simp add: remove_entry_def trash_rename_def move_to_trash_def rename_wf unlink_wf)

lemma create_node_wf:
  assumes "store_wf s" "env_keeps keeps_wf F"
  shows "store_wf (snd (create_node F b q p n m s))"
proof -
  obtain r s1 where c: "make_child q p n (new_child KindFile (m OR S_IFREG) [] (be_chunk b) q) s = (r, s1)" by (metis prod.collapse)
  have w1: "store_wf s1" using make_child_wf [OF assms(1), of "new_child KindFile (m OR S_IFREG) [] (be_chunk b) q" q p n] c by simp
  have "store_wf t" if "open_writer F b i s1 = (x, t)" for i x t
    using wfk.opens [OF assms(2) that] w1 by (simp add: keeps_wf_def)
  then show ?thesis using c w1 assms(1) by (auto simp: create_node_def split: sum.splits prod.splits)
qed

lemma link_node_wf: "store_wf s \<Longrightarrow> store_wf (snd (link_node b p tg n s))"
  using link_wf [of s p n] by (auto simp: link_node_def split: option.splits sum.splits prod.splits) (metis snd_conv)+

lemmas request_defs = mkdir_node_def symlink_node_def unlink_node_def rmdir_node_def rename_node_def setxattr_node_def removexattr_node_def


section \<open>Data requests leave the tree alone\<close>

definition same_tree :: "store \<Rightarrow> store \<Rightarrow> bool" where
  "same_tree s t \<longleftrightarrow> ns t = ns s \<and> kinds t = kinds s \<and> st_xattrs t = st_xattrs s \<and>
     (\<forall>ino. map_option i_nlink (row_at i_ino (st_inodes t) ino) = map_option i_nlink (row_at i_ino (st_inodes s) ino))"

lemma same_tree_inode:
  assumes "\<And>i. i_ino (f i) = i_ino i \<and> i_kind (f i) = i_kind i \<and> i_nlink (f i) = i_nlink i"
  shows "same_tree s (upd_inode ino f s)"
  using row_at_upd_inode [of f ino s] assms
  by (auto simp: same_tree_def ns_def kinds_def fun_eq_iff upd_inode_def option.map_comp comp_def)

lemma same_tree_trans: "same_tree s t \<Longrightarrow> same_tree t u \<Longrightarrow> same_tree s u"
  by (simp add: same_tree_def)

lemma same_tree_frame:
  "st_dirents t = st_dirents s \<Longrightarrow> st_xattrs t = st_xattrs s \<Longrightarrow> st_inodes t = st_inodes s \<Longrightarrow> same_tree s t"
  by (simp add: same_tree_def ns_def kinds_def fun_eq_iff)

lemma same_tree_attrs: "same_tree s (snd (set_attrs now i p s))"
proof -
  have "same_tree s (upd_inode i (apply_patch now p) s)" by (rule same_tree_inode) (simp add: apply_patch_def)
  then show ?thesis unfolding set_attrs_state by (rule same_tree_trans) (simp add: same_tree_frame)
qed

lemma same_tree_ops:
  "same_tree s (snd (set_inode_sparse i s))" "same_tree s (snd (set_inode_chunk_size i z s))"
  "same_tree s (snd (set_size now i z s))" "same_tree s (snd (delete_chunks_above i j s))"
proof -
  have f: "same_tree s u \<Longrightarrow> same_tree s (append_journal_tx x u)" "same_tree s u \<Longrightarrow> same_tree s (u\<lparr>st_write_ctr := n\<rparr>)" for u x n
    by (rule same_tree_trans, assumption, rule same_tree_frame, simp_all)+
  show "same_tree s (snd (set_inode_sparse i s))" "same_tree s (snd (set_inode_chunk_size i z s))"
    by (auto simp: set_inode_sparse_def set_inode_chunk_size_def with_tx_def Let_def same_tree_frame intro!: f same_tree_inode split: sum.splits)
  show "same_tree s (snd (set_size now i z s))"
    using same_tree_attrs [of s now i "\<lparr>p_mode = None, p_uid = None, p_gid = None, p_size = Some z, p_mtime = Some now\<rparr>"]
    by (auto simp: set_size_def with_tx_def intro!: f split: prod.splits sum.splits)
  show "same_tree s (snd (delete_chunks_above i j s))" 
    by (rule same_tree_frame) (simp_all add: delete_chunks_above_def exec_with_retry_def Let_def)
qed

interpretation stk: store_frame same_tree
  by unfold_locales (simp_all add: same_tree_frame same_tree_trans same_tree_ops)

text \<open>
  Reading, writing, truncating and changing attributes never touch the tree.  Whatever such a
  request replies and however it fails, every name leads where it did, every inode keeps its kind and
  its link count, and no extended attribute changes, when this is true of the uploads waited for.
\<close>
theorem data_requests_keep_tree:
  assumes "data_request r" "env_keeps same_tree F"
  shows "same_tree s (snd (fuse_do F b q r s))"
  by (rule stk.data [OF assms(2) same_tree_attrs assms(1)])

section \<open>A mount that cannot write\<close>

text \<open>The handles such a mount has given out: \<open>open_node\<close> gives none with a writer.\<close>

fun no_writer :: "fuse_req \<Rightarrow> bool" where
  "no_writer (FWrite _ _ h) = (fh_writer h = None)"
| "no_writer (FFlush h) = (fh_writer h = None)"
| "no_writer _ = True"

text \<open>A mount without an uploader or a cache, or mounted read-only, changes nothing: every request leaves
  the very same store, and every request that wants to change something is refused with \<open>EROFS\<close>
  (\<open>EBADF\<close> for a write on a handle opened for reading); what succeeds is an open for reading or the
  flush of such a handle.  No open gives a handle with a writer.
\<close>
theorem read_only_mount_refuses:
  assumes "\<not> can_write b" "no_writer r"
  shows "snd (fuse_do F b q r s) = s \<and>
    fst (fuse_do F b q r s) = (case r of FOpen ino fl \<Rightarrow> if wants_write fl then Some EROFS else None
      | FWrite d off h \<Rightarrow> Some EBADF | FFlush h \<Rightarrow> None | _ \<Rightarrow> Some EROFS) \<and>
    (\<forall>ino fl h. fst (open_node F b q ino fl s) \<noteq> Inr (Some h))"
proof -
  have e: "require_write b = Some EROFS" using assms(1) by (simp add: require_write_def)
  show ?thesis using assms e
    by (cases r) (simp_all add: request_defs setattr_node_def create_node_def link_node_def open_node_def handle_write_def handle_flush_def)
qed

section \<open>The tree requests against POSIX\<close>

text \<open>
  What the requests on names have to do to the map from (directory, name) to inode, and the errno each
  has to give; \<open>new\<close> is the number of the next inode.
\<close>

definition with_errno :: "meta_err + 'a \<Rightarrow> errno + 'a" where
  "with_errno r = (case r of Inl e \<Rightarrow> Inl (errno_of e) | Inr a \<Rightarrow> Inr a)"

definition posix_unlink :: "ns_map \<Rightarrow> kind_map \<Rightarrow> int \<Rightarrow> string \<Rightarrow> errno + ns_map" where
  "posix_unlink m K p n =
     (case m (p, n) of
        None \<Rightarrow> Inl ENOENT
      | Some c \<Rightarrow> if K c = Some KindDir then Inl EISDIR else Inr (m((p, n) := None)))"

definition posix_rmdir :: "ns_map \<Rightarrow> kind_map \<Rightarrow> int \<Rightarrow> string \<Rightarrow> errno + ns_map" where
  "posix_rmdir m K p n =
     (case m (p, n) of
        None \<Rightarrow> Inl ENOENT
      | Some c \<Rightarrow>
          if K c \<noteq> Some KindDir then Inl ENOTDIR
          else if \<exists>x. m (c, x) \<noteq> None then Inl ENOTEMPTY
          else Inr (m((p, n) := None)))"

definition posix_link :: "ns_map \<Rightarrow> kind_map \<Rightarrow> int \<Rightarrow> string \<Rightarrow> int option \<Rightarrow> errno + ns_map" where
  "posix_link m K p n tgt =
     (case tgt of
        None \<Rightarrow> Inl EXDEV
      | Some t \<Rightarrow> (case spec_link m K p n t of Inl e \<Rightarrow> Inl (if e = ErrIsDir then EPERM else errno_of e) | Inr a \<Rightarrow> Inr a))"

fun posix_request :: "ns_map \<Rightarrow> kind_map \<Rightarrow> int \<Rightarrow> fuse_req \<Rightarrow> errno + ns_map" where
  "posix_request m K new (FMkdir p n _) = with_errno (spec_create m K new p n)"
| "posix_request m K new (FSymlink p _ n) = with_errno (spec_create m K new p n)"
| "posix_request m K new (FLink p tgt n) = posix_link m K p n tgt"
| "posix_request m K new (FUnlink p n) = posix_unlink m K p n"
| "posix_request m K new (FRmdir p n) = posix_rmdir m K p n"
| "posix_request m K new (FRename p n np nn _) =
     (case np of None \<Rightarrow> Inl EXDEV | Some q \<Rightarrow> with_errno (spec_rename m K p n q nn))"
| "posix_request m K new _ = Inr m"

fun tree_request :: "fuse_req \<Rightarrow> bool" where
  "tree_request (FMkdir _ _ _) = True"
| "tree_request (FSymlink _ _ _) = True"
| "tree_request (FLink _ _ _) = True"
| "tree_request (FUnlink _ _) = True"
| "tree_request (FRmdir _ _) = True"
| "tree_request (FRename _ _ _ _ _) = True"
| "tree_request _ = False"

definition fuse_result :: "errno option \<times> store \<Rightarrow> errno + ns_map" where
  "fuse_result r = (case r of (Some e, _) \<Rightarrow> Inl e | (None, t) \<Rightarrow> Inr (ns t))"

text \<open>The reply of an operation of the store, and that its failure leaves no trace.\<close>

definition clean_failure :: "store \<Rightarrow> errno option \<times> store \<Rightarrow> bool" where
  "clean_failure s r \<longleftrightarrow> (fst r \<noteq> None \<longrightarrow> snd r = s)"

lemma fuse_result_reply: "fuse_result (meta_reply r) = with_errno (ns_result r)"
  by (auto simp: fuse_result_def meta_reply_def with_errno_def ns_result_def split: sum.splits prod.splits)

lemma with_tx_clean: "clean_failure s (meta_reply (with_tx f s))"
  by (auto simp: clean_failure_def meta_reply_def with_tx_def split: sum.splits prod.splits)

lemma rename_clean: "clean_failure s (meta_reply (rename p n q m s))"
  using with_tx_clean [of s "rename_tx p n q m"]
  by (auto simp: rename_def clean_failure_def meta_reply_def split: if_splits sum.splits prod.splits)

lemma make_child_ok:
  assumes "store_wf s" "i_nlink c = 0"
  shows "case make_child q p n c s of (Inl e, t) \<Rightarrow> Inl e = with_errno (spec_create (ns s) (kinds s) (st_ino_seq s + 1) p n) \<and> t = s
    | (Inr i, t) \<Rightarrow> Inr (ns t) = with_errno (spec_create (ns s) (kinds s) (st_ino_seq s + 1) p n)"
proof -
  note sp = create_child_refines [OF assms(1), of "rq_now q" p n c]
  obtain r t where c: "create_child (rq_now q) p n c s = (r, t)" by (metis prod.collapse)
  show ?thesis
  proof (cases r)
    case (Inl e)
    then have "t = s" using c by (auto simp: create_child_def with_tx_def split: sum.splits prod.splits)
    then show ?thesis using c Inl sp by (simp add: make_child_def with_errno_def ns_result_def flip: sp)
  next
    case (Inr ino)
    have wf: "store_wf t" using create_child_wf [OF assms(1), of c "rq_now q" p n] assms(2) c by simp
    have ino: "ino = st_ino_seq s + 1" using c Inr
      by (auto simp: create_child_def with_tx_def split: sum.splits prod.splits dest: create_child_tx_Inr(3))
    have n: "Inr (ns t) = spec_create (ns s) (kinds s) ino p n" using c Inr sp ino by (simp add: ns_result_def)
    then have "ns t (p, n) = Some ino" by (auto simp: spec_create_def split: option.splits if_splits)
    then obtain i where "get_inode ino t = Inr i" using ns_child [OF wf] by metis
    then show ?thesis using c Inr ino by (simp add: make_child_def with_errno_def flip: n [unfolded ino])
  qed
qed

lemma link_node_posix:
  assumes "store_wf s" "can_write b"
  shows "case link_node b p tgt n s of (Inl e, t) \<Rightarrow> Inl e = posix_link (ns s) (kinds s) p n tgt \<and> t = s
    | (Inr x, t) \<Rightarrow> Inr (ns t) = posix_link (ns s) (kinds s) p n tgt"
proof (cases tgt)
  case (Some i)
  have rw: "require_write b = None" using assms(2) by (simp add: require_write_def)
  obtain r t where l: "link p n i s = (r, t)" by (metis prod.collapse)
  have sp: "ns_result (r, t) = spec_link (ns s) (kinds s) p n i" using link_refines [OF assms(1), of p n i] l by simp
  show ?thesis
  proof (cases r)
    case (Inl e)
    then have "t = s" using l by (auto simp: link_def with_tx_def split: sum.splits prod.splits)
    then show ?thesis using l Inl sp rw Some by (simp add: link_node_def posix_link_def ns_result_def flip: sp)
  next
    case (Inr u)
    have wf: "store_wf t" using link_wf [OF assms(1), of p n i] l by simp
    have n: "Inr (ns t) = spec_link (ns s) (kinds s) p n i" using sp Inr by (simp add: ns_result_def)
    then have "ns t (p, n) = Some i" by (auto simp: spec_link_def split: option.splits if_splits)
    then obtain x where "get_inode i t = Inr x" using ns_child [OF wf] by metis
    then show ?thesis using l Inr rw Some n by (simp add: link_node_def posix_link_def flip: n)
  qed
qed (use assms(2) in \<open>simp add: link_node_def posix_link_def require_write_def\<close>)

lemma remove_posix:
  assumes "store_wf s" "can_write b" "be_trash_ino b = 0" "\<not> rq_cancelled q"
  shows "fuse_result (unlink_node b q p n s) = posix_unlink (ns s) (kinds s) p n \<and> clean_failure s (unlink_node b q p n s)"
    "fuse_result (rmdir_node b q p n s) = posix_rmdir (ns s) (kinds s) p n \<and> clean_failure s (rmdir_node b q p n s)"
proof -
  have rw: "require_write b = None" using assms(2) by (simp add: require_write_def)
  have u: "fuse_result (meta_reply (unlink p n s)) = with_errno (spec_unlink (ns s) (kinds s) p n)"
    "clean_failure s (meta_reply (unlink p n s))"
    by (simp add: fuse_result_reply unlink_refines [OF assms(1)]) (simp add: unlink_def with_tx_clean)
  show "fuse_result (unlink_node b q p n s) = posix_unlink (ns s) (kinds s) p n \<and> clean_failure s (unlink_node b q p n s)"
    "fuse_result (rmdir_node b q p n s) = posix_rmdir (ns s) (kinds s) p n \<and> clean_failure s (rmdir_node b q p n s)"
  proof (atomize (full), cases "ns s (p, n)")
    case None
    then show "(fuse_result (unlink_node b q p n s) = posix_unlink (ns s) (kinds s) p n \<and> clean_failure s (unlink_node b q p n s)) \<and>
      (fuse_result (rmdir_node b q p n s) = posix_rmdir (ns s) (kinds s) p n \<and> clean_failure s (rmdir_node b q p n s))"
      using ns_no_child [OF assms(1)] rw assms(4)
      by (simp add: request_defs under_ctx_def posix_unlink_def posix_rmdir_def fuse_result_def clean_failure_def log_meta_err_def map_meta_err_def)
  next
    case (Some c)
    obtain i where i: "lookup p n s = Inr i" "i_ino i = c" "kinds s c = Some (i_kind i)" using ns_child [OF assms(1) Some] by metis
    have "c \<noteq> 0" using tree_ok_inode_range [OF store_wf_tree [OF assms(1)], of c] i(3) kinds_ino_in by fastforce
    then have "unlink_node b q p n s = (if i_kind i = KindDir then (Some EISDIR, s) else meta_reply (unlink p n s))"
      "rmdir_node b q p n s = (if i_kind i \<noteq> KindDir then (Some ENOTDIR, s) else meta_reply (unlink p n s))"
      using i rw assms(3,4) by (simp_all add: request_defs under_ctx_def remove_entry_def)
    then show "(fuse_result (unlink_node b q p n s) = posix_unlink (ns s) (kinds s) p n \<and> clean_failure s (unlink_node b q p n s)) \<and>
      (fuse_result (rmdir_node b q p n s) = posix_rmdir (ns s) (kinds s) p n \<and> clean_failure s (rmdir_node b q p n s))"
      using Some i(3) u
      by (auto simp: fuse_result_def clean_failure_def posix_unlink_def posix_rmdir_def spec_unlink_def with_errno_def log_meta_err_def map_meta_err_def)
  qed
qed


section \<open>With the trash on\<close>

lemma trash_rename_result:
  assumes "store_wf s" "p \<noteq> be_trash_ino b" "ns s (be_trash_ino b, unique_name (rq_nanos q) n) = None"
    and "meta_reply (trash_rename b q p n s) = (e, t)"
  shows "st_inodes t = st_inodes s \<and> st_chunks t = st_chunks s \<and> st_xattrs t = st_xattrs s \<and> st_blobs t = st_blobs s \<and>
    (e \<noteq> None \<longrightarrow> t = s) \<and>
    (e = None \<longrightarrow> (\<exists>c. ns s (p, n) = Some c \<and>
       ns t = (ns s)((p, n) := None, (be_trash_ino b, unique_name (rq_nanos q) n) \<mapsto> c)))"
proof -
  let ?tr = "be_trash_ino b" and ?u = "unique_name (rq_nanos q) n"
  have r: "meta_reply (rename p n ?tr ?u s) = (e, t)" using assms(4) by (simp add: trash_rename_def move_to_trash_def)
  show ?thesis
  proof (cases e)
    case (Some x)
    then have "t = s" using rename_clean [of s p n ?tr ?u] r by (auto simp: clean_failure_def)
    then show ?thesis using Some by simp
  next
    case None
    then obtain a where a: "rename p n ?tr ?u s = (Inr a, t)" using r by (auto simp: meta_reply_def split: sum.splits prod.splits)
    have ne: "(p, n) \<noteq> (?tr, ?u)" using assms(2) by simp
    have "Inr (ns t) = spec_rename (ns s) (kinds s) p n ?tr ?u"
      using rename_refines [OF assms(1), of p n ?tr ?u] a by (simp add: ns_result_def)
    then have "\<exists>c. ns s (p, n) = Some c \<and> ns t = (ns s)((p, n) := None, (?tr, ?u) \<mapsto> c)"
      using assms(2,3) by (auto simp: spec_rename_def split: option.splits if_splits)
    then show ?thesis using rename_free_state [OF a assms(3,1) ne] None by simp
  qed
qed

text \<open>C19.  With the trash on, an unlink or a rmdir outside the trash deletes nothing.  Whatever it replies, no
  inode, no chunk row, no extended attribute and no dedup row is touched.  A refusal leaves the
  store as it was, and a success has moved the entry into the trash under the stamped name, provided
  that name was free.
\<close>
theorem trash_on_deletes_nothing:
  assumes "store_wf s" "be_trash_ino b \<noteq> 0" "r = FUnlink p n \<or> r = FRmdir p n" "p \<noteq> be_trash_ino b"
    and "ns s (be_trash_ino b, unique_name (rq_nanos q) n) = None" "fuse_do F b q r s = (e, t)"
  shows "st_inodes t = st_inodes s \<and> st_chunks t = st_chunks s \<and> st_xattrs t = st_xattrs s \<and> st_blobs t = st_blobs s \<and>
    (e \<noteq> None \<longrightarrow> t = s) \<and>
    (e = None \<longrightarrow> (\<exists>c. ns s (p, n) = Some c \<and>
       ns t = (ns s)((p, n) := None, (be_trash_ino b, unique_name (rq_nanos q) n) \<mapsto> c)))"
proof -
  have "t = s \<and> e \<noteq> None \<or> meta_reply (trash_rename b q p n s) = (e, t)"
    using assms(2,3,4,6) by (cases "can_write b") (auto simp: request_defs require_write_def remove_entry_def split: sum.splits if_splits)
  then show ?thesis using trash_rename_result [OF assms(1,4,5)] by blast
qed

text \<open>
  A directory with entries is not refused: it is moved whole into the trash and the reply is success, where
  POSIX wants \<open>ENOTEMPTY\<close>.  The collection of the trash then never removes it, whatever its age.
\<close>

theorem rmdir_trashes_full_directory:
  assumes "store_wf s" "can_write b" "be_trash_ino b = tr" "tr \<noteq> 0" "kinds s tr = Some KindDir" "ns s (p, n) = Some c" "p \<noteq> tr"
    and "kinds s c = Some KindDir" "ns s (c, x) \<noteq> None" "(c, tr) \<notin> (ns_edges (ns s))\<^sup>*" "ns s (tr, unique_name (rq_nanos q) n) = None"
  shows "\<exists>t. rmdir_node b q p n s = (None, t) \<and> store_wf t \<and> ns t (tr, unique_name (rq_nanos q) n) = Some c \<and> full_dir t c \<and>
    (\<forall>m u. gc_once y2020 now tr ttl t = (m, u) \<longrightarrow> ns u (tr, unique_name (rq_nanos q) n) = Some c)"
proof -
  let ?u = "unique_name (rq_nanos q) n"
  obtain i where i: "lookup p n s = Inr i" "i_ino i = c" "kinds s c = Some (i_kind i)" using ns_child [OF assms(1,6)] by metis
  have ne: "c \<noteq> tr" using assms(10) by auto
  have red: "rmdir_node b q p n s = meta_reply (rename p n tr ?u s)"
    using i assms(2-4,7,8) ne by (auto simp: request_defs require_write_def remove_entry_def trash_rename_def move_to_trash_def)
  have sp: "ns_result (rename p n tr ?u s) = Inr ((ns s)((p, n) := None, (tr, ?u) \<mapsto> c))"
    using assms(5-8,10,11) by (auto simp: rename_refines [OF assms(1)] spec_rename_def need_dir_def)
  then obtain a t where t: "rename p n tr ?u s = (Inr a, t)" "ns t = (ns s)((p, n) := None, (tr, ?u) \<mapsto> c)" by (rule ns_result_cases)
  have wf: "store_wf t" using rename_wf [OF assms(1), of p n tr ?u] t(1) by simp
  have nb: "(p, n) \<noteq> (tr, ?u)" using assms(7) by simp
  have "kinds t = kinds s" using rename_free_state [OF t(1) assms(11,1) nb] kinds_cong by blast
  moreover have "c \<noteq> p" using not_own_child [OF assms(1,6)] .
  ultimately have full: "full_dir t c" using assms(8,9) ne t(2) by (auto simp: full_dir_def)
  have there: "ns t (tr, ?u) = Some c" using t(2) by simp
  then show ?thesis using red t(1) wf full gc_keeps_full [OF wf _ there full] by (intro exI [of _ t]) (auto simp: meta_reply_def)
qed

text \<open>
  The trash directory itself is protected from rmdir only: a rename of an empty directory over an empty
  trash replaces it.  Its inode is gone, and from then on an unlink replies \<open>ENOENT\<close> for a file that is there.
\<close>

lemma lost_trash_unlink_says_absent:
  assumes "store_wf s" "can_write b" "\<not> rq_cancelled q" "be_trash_ino b \<noteq> 0" "kinds s (be_trash_ino b) = None"
    and "ns s (p, n) = Some c" "kinds s c = Some KindFile"
  shows "unlink_node b q p n s = (Some ENOENT, s)"
proof -
  let ?u = "unique_name (rq_nanos q) n"
  obtain i where i: "lookup p n s = Inr i" "i_ino i = c" "kinds s c = Some (i_kind i)" using ns_child [OF assms(1,6)] by metis
  have ne: "c \<noteq> be_trash_ino b" "p \<noteq> be_trash_ino b"
    using assms(5,7) dir_of_entry [OF assms(1,6)] by auto
  have red: "unlink_node b q p n s = meta_reply (rename p n (be_trash_ino b) ?u s)"
    using i assms(2-4,7) ne by (auto simp: request_defs require_write_def under_ctx_def remove_entry_def trash_rename_def move_to_trash_def)
  have "ns_result (rename p n (be_trash_ino b) ?u s) = Inl ErrNotFound"
    using assms(5,6) ne by (auto simp: rename_refines [OF assms(1)] spec_rename_def need_dir_def)
  then have "fst (meta_reply (rename p n (be_trash_ino b) ?u s)) = Some ENOENT"
    by (auto simp: ns_result_def meta_reply_def log_meta_err_def map_meta_err_def split: sum.splits prod.splits)
  then show ?thesis using red rename_clean [of s p n "be_trash_ino b" ?u] by (simp add: clean_failure_def prod_eq_iff)
qed

section \<open>Witnesses\<close>

definition fuse_env0 :: fuse_env where
  "fuse_env0 = \<lparr>fe_write = w_env, fe_barrier = (\<lambda>_ s. Inr s), fe_ctx_text = (\<lambda>_. False)\<rparr>"

definition mount0 :: "int \<Rightarrow> bool \<Rightarrow> backend" where
  "mount0 trash ro = \<lparr>be_read_only = ro, be_uploader = True, be_cache = True, be_chunk_size = 0, be_trash_ino = trash\<rparr>"

definition request0 :: request where
  "request0 = \<lparr>rq_caller = Some (1000, 100), rq_cancelled = False, rq_now = 20, rq_nanos = stamp\<rparr>"

lemma fuse_env0_keeps: "(\<And>s. K s s) \<Longrightarrow> env_keeps K fuse_env0"
  by (simp add: env_keeps_def waits_keep_def fuse_env0_def w_env_def)


theorem data_requests_keep_tree_witness:
  "same_tree demo (snd (fuse_do fuse_env0 (mount0 0 False) request0 (FSetattr 3 None \<lparr>sa_mode = Some 0x1FF, sa_uid = None, sa_gid = None, sa_mtime = None, sa_size = Some 10\<rparr>) demo))"
  by (rule data_requests_keep_tree [OF _ fuse_env0_keeps]) (simp_all add: same_tree_def)

theorem read_only_mount_refuses_witness:
  "snd (fuse_do fuse_env0 (mount0 0 True) request0 (FUnlink 1 ''g'') demo) = demo \<and>
   fst (fuse_do fuse_env0 (mount0 0 True) request0 (FUnlink 1 ''g'') demo) = Some EROFS"
  using read_only_mount_refuses [of "mount0 0 True" "FUnlink 1 ''g''" fuse_env0 request0 demo] by (simp add: can_write_def mount0_def)


theorem trash_on_deletes_nothing_witness:
  "fst (fuse_do fuse_env0 (mount0 5 False) request0 (FUnlink 1 ''g'') demo_tr) = None \<and>
   st_inodes (snd (fuse_do fuse_env0 (mount0 5 False) request0 (FUnlink 1 ''g'') demo_tr)) = st_inodes demo_tr \<and>
   ns (snd (fuse_do fuse_env0 (mount0 5 False) request0 (FUnlink 1 ''g'') demo_tr)) (5, unique_name stamp ''g'') = Some 4"
proof -
  obtain e t where r: "fuse_do fuse_env0 (mount0 5 False) request0 (FUnlink 1 ''g'') demo_tr = (e, t)" by (metis prod.collapse)
  have e: "fst (fuse_do fuse_env0 (mount0 5 False) request0 (FUnlink 1 ''g'') demo_tr) = None" by code_simp
  have f: "ns demo_tr (5, unique_name stamp ''g'') = None" "ns demo_tr (1, ''g'') = Some 4" by code_simp+
  show ?thesis
    using trash_on_deletes_nothing [OF demo_tr_wf(1), of "mount0 5 False" "FUnlink 1 ''g''" 1 "''g''" request0 fuse_env0 e t] r e f
    by (simp add: mount0_def request0_def)
qed

text \<open>The rename of an empty directory over the empty trash of the example.\<close>

lemma empty_dir_replaces_trash:
  "let s = snd (mkdir_node (mount0 5 False) request0 1 ''e'' 0 demo_tr); r = rename_node (mount0 5 False) 1 ''e'' (Some 1) TrashDirName 0 s
   in fst r = None \<and> kinds (snd r) 5 = None \<and> fst (unlink_node (mount0 5 False) request0 1 ''g'' (snd r)) = Some ENOENT \<and>
      ns (snd r) (1, ''g'') = Some 4"
  by code_simp

end
