(* ===== verification/FuseData.thy ===== *)
theory FuseData
  imports FuseProps
begin

text \<open>
  What the mount promises of data: an opened handle is a good writer of its file, and a write, a flush
  and a truncation through it do what POSIX says; the numbers of statfs and stat; the size
  protocols of extended attributes; directory listings; and when the hints of a handle are current.
\<close>

section \<open>Sizes of stat and statfs\<close>

lemma uint_of_int: "0 \<le> x \<Longrightarrow> x < 2 ^ 63 \<Longrightarrow> uint (word_of_int x :: 64 word) = x"
  by (simp add: uint_word_of_int)

lemma uint_div_small: "0 \<le> x \<Longrightarrow> x < 2 ^ 63 \<Longrightarrow> 0 < k \<Longrightarrow> k < 2 ^ 16 \<Longrightarrow>
    uint ((word_of_int x + word_of_int (k - 1)) div word_of_int k :: 64 word) = (x + k - 1) div k"
proof -
  assume a: "0 \<le> x" "x < 2 ^ 63" "0 < k" "k < 2 ^ 16"
  have "uint (word_of_int x + word_of_int (k - 1) :: 64 word) = x + k - 1"
    unfolding wi_hom_add using a by (simp add: uint_word_of_int del: wi_hom_add of_int_add of_int_diff)
  moreover have "uint (word_of_int k :: 64 word) = k" using a by (simp add: uint_word_of_int)
  ultimately show ?thesis by (simp add: uint_div)
qed

text \<open>The numbers of stat and statfs never wrap.  For every size and every usage a store can hold (below
  2^63), the block count of a file is its size in units of 512 bytes rounded up, the free blocks and
  free inodes are the fictional totals less what is used, and they stop at zero instead of wrapping
  when more is used than the totals claim.
\<close>
theorem stat_numbers_never_wrap:
  assumes "0 \<le> i_size i" "i_size i < 2 ^ 63" "0 \<le> bytes" "bytes < 2 ^ 63" "0 \<le> inos" "inos < 2 ^ 63"
  shows "uint (at_size (fill_attr i)) = i_size i \<and> uint (at_blocks (fill_attr i)) = (i_size i + 511) div 512 \<and>
    i_size i \<le> 512 * uint (at_blocks (fill_attr i)) \<and> 512 * uint (at_blocks (fill_attr i)) < i_size i + 512 \<and>
    uint (sf_bfree (statfs_node (bytes, inos))) = max 0 (2 ^ 45 - (bytes + 4095) div 4096) \<and>
    uint (sf_ffree (statfs_node (bytes, inos))) = max 0 (2 ^ 32 - inos)"
proof -
  have b: "uint (at_blocks (fill_attr i)) = (i_size i + 511) div 512"
    using uint_div_small [OF assms(1,2), of 512] by (simp add: fill_attr_def)
  have u: "uint ((word_of_int bytes + 4096 - 1) div 4096 :: 64 word) = (bytes + 4095) div 4096"
    using uint_div_small [OF assms(3,4), of 4096] by (simp add: algebra_simps)
  have n: "uint (word_of_int inos :: 64 word) = inos" using uint_of_int [OF assms(5,6)] .
  have sub: "uint (T - (if x > T then T else x)) = max 0 (uint T - uint x)" for T x :: "64 word"
    by (auto simp: word_less_def word_le_def max_def uint_sub_if')
  have c: "uint block_cnt = 2 ^ 45" "uint fake_files = 2 ^ 32" by (simp_all add: block_cnt_def fake_files_def)
  show ?thesis
    using b uint_of_int [OF assms(1,2)] unfolding statfs_node_def Let_def statfs_out.select_convs fst_conv snd_conv sub u n c
    by (simp add: fill_attr_def) linarith
qed

section \<open>Extended attributes\<close>

lemma set_xattr_get:
  assumes "keyed xkey (st_xattrs s)" "has_inode s ino"
  shows "fst (set_xattr ino name v s) = Inr () \<and>
    get_xattr i m (snd (set_xattr ino name v s)) = (if (i, m) = (ino, name) then Inr v else get_xattr i m s)"
  using assms by (auto simp: set_xattr_def ignore_count_def exec_with_retry_def get_xattr_def row_at_upsert)

text \<open>The names of a listing, cut at the NULs.\<close>

fun split_nul :: "string \<Rightarrow> string \<Rightarrow> string list" where
  "split_nul acc [] = []"
| "split_nul acc (c # cs) = (if c = CHR 0x00 then rev acc # split_nul [] cs else split_nul (c # acc) cs)"

lemma split_nul_name: "CHR 0x00 \<notin> set n \<Longrightarrow> split_nul acc (n @ CHR 0x00 # cs) = (rev acc @ n) # split_nul [] cs"
  by (induction n arbitrary: acc) auto

lemma split_nul_concat: "\<forall>n\<in>set xs. CHR 0x00 \<notin> set n \<Longrightarrow> split_nul [] (concat (map (\<lambda>n. n @ [CHR 0x00]) xs)) = xs"
  by (induction xs) (simp_all add: split_nul_name)

text \<open>Extended attributes survive the size protocol of the kernel.  After a setxattr that was accepted, a
  getxattr with an empty buffer answers the length (\<open>ERANGE\<close> unless the value is empty), one with a buffer
  of that length answers exactly the value, and every other attribute reads as before.  A listxattr
  asked the same way answers the names, each ended by a NUL, in order; cut at the NULs they are
  the names of the store, the new one among them.
\<close>
theorem xattr_size_protocol:
  assumes "store_wf s" "has_inode s ino" "can_write b" "\<not> rq_cancelled q" "is_user_xattr name" "int (length v) < 2 ^ 32"
    and "setxattr_node b ino name v flags s = (e, t)"
    and "\<forall>n\<in>set (list_xattrs ino t). CHR 0x00 \<notin> set n" "int (sum_list (map (\<lambda>n. length n + 1) (list_xattrs ino t))) < 2 ^ 32"
  shows "e = None \<and>
    getxattr_node q ino name 0 t = (word_of_nat (length v), [], if v = [] then None else Some ERANGE) \<and>
    getxattr_node q ino name (unat (fst (getxattr_node q ino name 0 t))) t = (word_of_nat (length v), v, None) \<and>
    (\<forall>i m cap. (i, m) \<noteq> (ino, name) \<longrightarrow> getxattr_node q i m cap t = getxattr_node q i m cap s) \<and>
    (\<exists>len buf. listxattr_node q ino (unat (fst (listxattr_node q ino 0 t))) t = (len, buf, None) \<and>
       uint len = int (length buf) \<and> split_nul [] buf = list_xattrs ino t \<and> name \<in> set (split_nul [] buf))"
proof -
  note g = set_xattr_get [OF store_wfD(2) [OF assms(1)] assms(2), where name = name and v = v]
  have t: "e = None" "t = snd (set_xattr ino name v s)"
    using assms(3,5,7) g by (auto simp: setxattr_node_def require_write_def meta_reply_def split: prod.splits sum.splits)
  have get: "get_xattr i m t = (if (i, m) = (ino, name) then Inr v else get_xattr i m s)" for i m using g t by simp
  have len: "unat (word_of_nat n :: 32 word) = n" if "int n < 2 ^ 32" for n
    using that by (simp add: unat_of_nat take_bit_nat_eq_self_iff) 
  let ?ns = "list_xattrs ino t"
  have size: "length (concat (map (\<lambda>n. n @ [CHR 0x00]) ?ns)) = sum_list (map (\<lambda>n. length n + 1) ?ns)"
    by (simp add: length_concat comp_def)
  have lst: "fst (listxattr_node q ino 0 t) = word_of_nat (sum_list (map (\<lambda>n. length n + 1) ?ns))"
    using assms(4) by (simp add: listxattr_node_def under_ctx_def Let_def)
  have mem: "name \<in> set ?ns"
    using get [of ino name] by (force simp: get_xattr_def list_xattrs_def dest: row_at_SomeD split: option.splits)
  have "listxattr_node q ino (unat (fst (listxattr_node q ino 0 t))) t =
      (word_of_nat (sum_list (map (\<lambda>n. length n + 1) ?ns)), concat (map (\<lambda>n. n @ [CHR 0x00]) ?ns), None)"
    using assms(4) unfolding lst len [OF assms(9)] by (simp add: listxattr_node_def under_ctx_def Let_def)
  moreover have "uint (word_of_nat (sum_list (map (\<lambda>n. length n + 1) ?ns)) :: 32 word) = int (sum_list (map (\<lambda>n. length n + 1) ?ns))"
    using len [OF assms(9)] by (simp add: uint_nat)
  ultimately show ?thesis
    using t(1) assms(4,5) len [OF assms(6)] split_nul_concat [OF assms(8)] mem
    by (auto simp: getxattr_node_def under_ctx_def get size)
qed

section \<open>Directory listings\<close>

text \<open>What the kernel gets from n calls of readdirent on one handle, whatever the store is at each.\<close>

fun read_dir_calls :: "request \<Rightarrow> store list \<Rightarrow> dir_handle \<Rightarrow> (errno + dir_entry option) list" where
  "read_dir_calls q [] d = []"
| "read_dir_calls q (s # ss) d = (case readdirent q s d of (r, d1) \<Rightarrow> r # read_dir_calls q ss d1)"

lemma read_dir_stream:
  assumes "dh_ds d = Some es"
  shows "read_dir_calls q ss d = take (length ss) (map (Inr \<circ> Some) es) @ replicate (length ss - length es) (Inr None)"
  using assms
proof (induction ss arbitrary: d es)
  case (Cons s ss)
  show ?case
  proof (cases es)
    case (Cons e es')
    then show ?thesis using Cons.prems Cons.IH [of "d\<lparr>dh_ds := Some es'\<rparr>" es'] by (simp add: readdirent_def dh_ensure_def)
  next
    case Nil
    then show ?thesis using Cons.prems Cons.IH [of d "[]"] by (simp add: readdirent_def dh_ensure_def)
  qed
qed simp

text \<open>
  A directory handle answers one snapshot.  The entries that the calls of readdirent return are
  those of the directory at the first call, each once and in the order of the names, and then the
  end, whatever is created, removed or renamed between the calls.
\<close>
theorem listing_is_one_snapshot:
  assumes "\<not> rq_cancelled q"
  shows "read_dir_calls q (s # ss) (opendir_node ino) =
    (let es = map dir_entry_of (readdir_info ino s) in
     take (Suc (length ss)) (map (Inr \<circ> Some) es) @ replicate (Suc (length ss) - length es) (Inr None))"
proof -
  let ?es = "map dir_entry_of (readdir_info ino s)" and ?d = "opendir_node ino"
  have first: "readdirent q s ?d = readdirent q s (?d\<lparr>dh_ds := Some ?es\<rparr>)"
    using assms by (simp add: readdirent_def dh_ensure_def opendir_node_def readdir_node_def under_ctx_def split: list.splits)
  have "read_dir_calls q (s # ss) ?d = read_dir_calls q (s # ss) (?d\<lparr>dh_ds := Some ?es\<rparr>)"
    unfolding read_dir_calls.simps first ..
  also have "\<dots> = take (length (s # ss)) (map (Inr \<circ> Some) ?es) @ replicate (length (s # ss) - length ?es) (Inr None)"
    by (rule read_dir_stream) simp
  finally show ?thesis by (simp add: Let_def)
qed

section \<open>An opened handle is a good writer\<close>

text \<open>A file whose rows can be fetched, lie below its size and below the chunk limit.\<close>

definition file_readable :: "write_env \<Rightarrow> int \<Rightarrow> store \<Rightarrow> bool" where
  "file_readable E ino s \<longleftrightarrow> (\<exists>i. get_inode ino s = Inr i \<and> 0 < i_chunk_size i \<and> 0 \<le> i_size i \<and> i_size i \<le> 2 ^ 31 * i_chunk_size i \<and>
     (\<forall>idx c. get_chunk ino idx s = Inr c \<longrightarrow> 0 \<le> idx \<and> ch_size c \<le> i_chunk_size i \<and> (ch_size c = 0 \<or> idx * i_chunk_size i + ch_size c \<le> i_size i) \<and>
        (\<exists>d. we_fetch E c = Inr d \<and> blen d = ch_size c)))"

definition disk_byte :: "write_env \<Rightarrow> int \<Rightarrow> int \<Rightarrow> store \<Rightarrow> int \<Rightarrow> 8 word" where
  "disk_byte E ino cs s p = (case stored E ino s (p div cs) of None \<Rightarrow> 0 | Some d \<Rightarrow> bget d (p mod cs))"

lemma no_rows_fuse: "list_chunks ino s = [] \<Longrightarrow> get_chunk ino idx s = Inl ErrNotFound"
proof -
  assume "list_chunks ino s = []"
  then have "{r \<in> set (st_chunks s). c_ino r = ino} = {}" using list_chunks_set [of ino s] by simp
  then have "row_at ckey (st_chunks s) (ino, idx) = None" by (auto simp: row_at_None_iff)
  then show ?thesis by (simp add: get_chunk_def)
qed

lemma new_writer_good:
  assumes "file_readable E ino s" "0 < we_fuel E" "get_inode ino s = Inr i"
  shows "\<exists>w. new_writer ino cs cap s = Inr w \<and> winv E w s \<and> queue_ok w \<and> w_ino w = ino \<and> w_size w = i_size i \<and> w_chunk_sz w = i_chunk_size i \<and>
    w_dirty w = [] \<and> w_order w = [] \<and> w_uploading w = [] \<and> w_upload_err w = None \<and> file_byte E w s = disk_byte E ino (i_chunk_size i) s"
proof -
  have f: "0 < i_chunk_size i" "0 \<le> i_size i" "i_size i \<le> 2 ^ 31 * i_chunk_size i"
    "\<And>idx c. get_chunk ino idx s = Inr c \<Longrightarrow> 0 \<le> idx \<and> ch_size c \<le> i_chunk_size i \<and> (ch_size c = 0 \<or> idx * i_chunk_size i + ch_size c \<le> i_size i) \<and>
        (\<exists>d. we_fetch E c = Inr d \<and> blen d = ch_size c)"
    using assms(1,3) by (auto simp: file_readable_def)
  obtain w where w: "new_writer ino cs cap s = Inr w" and p: "w_ino w = ino" "w_size w = i_size i" "w_chunk_sz w = i_chunk_size i"
    "w_dirty w = []" "w_order w = []" "w_uploading w = []" "w_upload_err w = None" "\<not> w_closed w" "w_dispatched w = (list_chunks ino s \<noteq> [])"
    using assms(3) f(1) by (auto simp: new_writer_def)
  have d: "wdata E w s idx = stored E ino s idx" for idx by (simp add: wdata_def p)
  have st: "0 \<le> idx \<and> blen x \<le> i_chunk_size i \<and> (x = [] \<or> idx * i_chunk_size i + blen x \<le> i_size i)" if "stored E ino s idx = Some x" for idx x
  proof -
    from that obtain c where c: "get_chunk ino idx s = Inr c" "we_fetch E c = Inr x" by (auto simp: stored_def split: sum.splits)
    then show ?thesis using f(4) [OF c(1)] blen_0 [of x] by auto
  qed
  have "has_inode s ino" using assms(3) by (auto simp: get_inode_def has_inode_def split: option.splits)
  then have "winv E w s" using f st no_rows_fuse assms(2) p unfolding winv_def d by auto
  moreover have "file_byte E w s = disk_byte E ino (i_chunk_size i) s" unfolding file_byte_def disk_byte_def d p fun_eq_iff by blast
  ultimately show ?thesis using w p by (auto simp: queue_ok_def)
qed

lemma update_keys [simp]: "fst ` set (AList.update k v xs) = insert k (fst ` set xs)"
  by (auto simp: update_conv' simp flip: dom_map_of_conv_image_fst)

lemma queue_iff: "queue_ok w \<longleftrightarrow> (\<forall>k. map_of (w_dirty w) k \<noteq> None \<longrightarrow> k \<in> set (w_order w))"
  by (auto simp: queue_ok_def simp flip: dom_map_of_conv_image_fst)

text \<open>The queue of a writer lists its dirty chunks, before the first dispatch of a call.\<close>

lemma load_keeps_queue:
  assumes "load_for_write E n idx w s = (r, w', t)" "queue_ok w" "w_uploading w = []"
  shows "queue_ok w' \<and> w_uploading w' = [] \<and> w_upload_err w' = w_upload_err w \<and> w_ino w' = w_ino w \<and> (\<forall>d. r = Inr d \<longrightarrow> idx \<in> set (w_order w'))"
proof (cases n)
  case (Suc m)
  then show ?thesis using assms
    by (auto simp: enter_dirty_def queue_iff update_conv' split: option.splits sum.splits if_splits)
qed (use assms in auto)

lemma set_dirty_queue [simp]:
  "w_order (set_dirty idx d w) = w_order w" "w_upload_err (set_dirty idx d w) = w_upload_err w" "w_ino (set_dirty idx d w) = w_ino w" "w_uploading (set_dirty idx d w) = w_uploading w"
  "queue_ok w \<Longrightarrow> idx \<in> set (w_order w) \<Longrightarrow> queue_ok (set_dirty idx d w)"
  by (auto simp: set_dirty_def queue_iff update_conv')

lemma grow_chunk_queue:
  assumes "grow_chunk need idx d w = (d', w')" "queue_ok w" "idx \<in> set (w_order w)"
  shows "queue_ok w' \<and> w_order w' = w_order w \<and> w_uploading w' = w_uploading w \<and> w_upload_err w' = w_upload_err w \<and> w_ino w' = w_ino w"
  using assms by (auto simp: grow_chunk_def Let_def queue_iff set_dirty_def update_conv' split: if_splits)

lemma zero_loop_queue:
  "zero_loop E idxs a b w s = (r, w', t) \<Longrightarrow> queue_ok w \<Longrightarrow> w_uploading w = [] \<Longrightarrow>
    queue_ok w' \<and> w_uploading w' = [] \<and> w_upload_err w' = w_upload_err w \<and> w_ino w' = w_ino w"
proof (induction idxs arbitrary: w s)
  case (Cons idx idxs)
  obtain x w1 s1 where l: "load_for_write E (we_fuel E) idx w s = (x, w1, s1)" by (metis prod.collapse)
  note q = load_keeps_queue [OF l Cons.prems(2,3)]
  show ?case
  proof (cases x)
    case (Inr d)
    obtain need d1 w2 d2 where g: "grow_chunk need idx d w1 = (d1, w2)" and z: "zero_loop E idxs a b (set_dirty idx d2 w2) s1 = (r, w', t)"
      using Cons.prems(1) l Inr by (auto simp: Let_def split: prod.splits)
    have "queue_ok w2 \<and> w_order w2 = w_order w1 \<and> w_uploading w2 = [] \<and> w_upload_err w2 = w_upload_err w1 \<and> w_ino w2 = w_ino w1" using grow_chunk_queue [OF g] q Inr by auto
    then show ?thesis using Cons.IH [OF z] q Inr by auto
  qed (use Cons.prems l q in auto)
qed simp

lemma gap_queue:
  assumes "write_gap E off w s = (r, w', t)" "queue_ok w" "w_uploading w = []"
  shows "queue_ok w' \<and> w_uploading w' = [] \<and> w_upload_err w' = w_upload_err w \<and> w_ino w' = w_ino w"
  using assms
  by (auto simp: write_gap_def materialize_zeros_def mark_sparse_def queue_iff dest!: zero_loop_queue split: if_splits prod.splits sum.splits)

lemma write_loop_queue:
  "write_loop E idxs cur src n w s = (r, w', t) \<Longrightarrow> queue_ok w \<Longrightarrow> w_uploading w = [] \<Longrightarrow>
    queue_ok w' \<and> w_uploading w' = [] \<and> w_upload_err w' = w_upload_err w \<and> w_ino w' = w_ino w"
proof (induction idxs arbitrary: cur src n w s)
  case (Cons idx idxs)
  obtain x w1 s1 where l: "load_for_write E (we_fuel E) idx w s = (x, w1, s1)" by (metis prod.collapse)
  note q = load_keeps_queue [OF l Cons.prems(2,3)]
  show ?case
  proof (cases x)
    case (Inr d)
    obtain need d1 w2 d2 sz cur' src' n' where g: "grow_chunk need idx d w1 = (d1, w2)"
      and z: "write_loop E idxs cur' src' n' (if cur' > w_size (set_dirty idx d2 w2) then (set_dirty idx d2 w2)\<lparr>w_size := cur'\<rparr> else set_dirty idx d2 w2) s1 = (r, w', t)"
      using Cons.prems(1) l Inr by (auto simp: Let_def split: prod.splits)
    have "queue_ok w2 \<and> w_order w2 = w_order w1 \<and> w_uploading w2 = [] \<and> w_upload_err w2 = w_upload_err w1 \<and> w_ino w2 = w_ino w1" using grow_chunk_queue [OF g] q Inr by auto
    then have "queue_ok (set_dirty idx d2 w2)" "w_uploading (set_dirty idx d2 w2) = []"
      "w_upload_err (set_dirty idx d2 w2) = w_upload_err w" "w_ino (set_dirty idx d2 w2) = w_ino w" using q Inr by simp_all
    then show ?thesis using Cons.IH [OF z] by (auto simp: queue_ok_def split: if_splits)
  qed (use Cons.prems l q in auto)
qed simp

lemma dispatch_queue:
  assumes "dispatch_flush E idx w = (r, w')" "queue_ok w"
  shows "queue_ok w' \<and> w_upload_err w' = w_upload_err w \<and> w_ino w' = w_ino w"
proof (cases "map_of (w_dirty w) idx")
  case None
  then have "k \<noteq> idx" if "map_of (w_dirty w) k = Some d" for k d using that by auto
  then show ?thesis using assms None by (fastforce simp: dispatch_flush_def queue_iff)
next
  case (Some d)
  have "k \<in> set (remove1 idx (w_order w))" if "map_of (w_dirty w) k = Some d" "k \<noteq> idx" for k d
    using that assms(2) by (auto simp: queue_iff)
  then show ?thesis using assms(1) Some by (fastforce simp: dispatch_flush_def Let_def queue_iff update_conv' delete_conv' split: sum.splits if_splits)
qed

lemma eager_queue: "eager_loop E w = (r, w') \<Longrightarrow> queue_ok w \<Longrightarrow> queue_ok w' \<and> w_upload_err w' = w_upload_err w \<and> w_ino w' = w_ino w"
proof (induction E w rule: eager_loop.induct)
  case (1 E w)
  show ?case
  proof (cases "w_dirty_bytes w > w_dirty_cap w \<and> w_order w \<noteq> []")
    case True
    obtain x w1 where d: "dispatch_flush E (hd (w_order w)) w = (x, w1)" by (metis prod.collapse)
    then show ?thesis using 1 True dispatch_queue [OF d] by (auto simp: eager_loop.simps [of E w] split: sum.splits)
  qed (use 1 in \<open>auto simp: eager_loop.simps [of E w]\<close>)
qed

lemma promote_ino: "maybe_promote w s = (r, w', t) \<Longrightarrow> w_ino w' = w_ino w"
  by (auto simp: maybe_promote_def Let_def split: if_splits sum.splits prod.splits)

lemma write_at_queue:
  assumes "write_at E src off w s = ((None, n), w', t)" "queue_ok w" "w_uploading w = []"
  shows "queue_ok w' \<and> w_upload_err w' = w_upload_err w \<and> w_ino w' = w_ino w"
proof -
  obtain x w1 s1 where g: "write_gap E off w s = (x, w1, s1)" by (metis prod.collapse)
  note q1 = gap_queue [OF g assms(2,3)]
  obtain y w2 s2 where l: "write_loop E [to_int32 (go_div off (w_chunk_sz w1))..to_int32 (go_div (off + blen src - 1) (w_chunk_sz w1))] off src 0 w1 s1 = (y, w2, s2)"
    by (metis prod.collapse)
  note q2 = write_loop_queue [OF l] q1
  obtain z w3 s3 where p: "maybe_promote w2 s2 = (z, w3, s3)" by (metis prod.collapse)
  have q3: "z = Inr () \<Longrightarrow> queue_ok w3 \<and> w_upload_err w3 = w_upload_err w \<and> w_ino w3 = w_ino w"
    using promote_keeps_queue [of w2 s2 w3 s3] promote_ino [OF p] p q2 by simp
  obtain v w4 where e: "eager_loop E w3 = (v, w4)" by (metis prod.collapse)
  show ?thesis using assms(1,2) g l p e q3 eager_queue [OF e]
    by (auto simp: write_at_def split: if_splits sum.splits prod.splits option.splits)
qed

lemma trunc_boundary_queue:
  assumes "trunc_boundary E n lst w s = (r, w', t)" "queue_ok w" "w_uploading w = []"
  shows "queue_ok w' \<and> w_upload_err w' = w_upload_err w \<and> w_ino w' = w_ino w"
proof -
  obtain x w1 s1 where l: "load_for_write E (we_fuel E) lst w s = (x, w1, s1)" by (metis prod.collapse)
  note q = load_keeps_queue [OF l assms(2,3)]
  have "queue_ok (v\<lparr>w_dirty_bytes := k\<rparr>) = queue_ok v" for v k by (simp add: queue_ok_def)
  then show ?thesis using assms l q by (auto simp: trunc_boundary_def Let_def split: if_splits sum.splits)
qed

lemma truncate_queue:
  assumes "WriterBuf.truncate E n w s = (Inr (), w', t)" "w_dirty w = []" "w_uploading w = []"
  shows "queue_ok w' \<and> w_upload_err w' = w_upload_err w \<and> w_ino w' = w_ino w"
proof -
  let ?lst = "if n = 0 then -1 else to_int32 (go_div (n - 1) (w_chunk_sz w))"
  have wait: "trunc_wait E m l w s = (Inr (), w, s)" for m l using assms(3) by (cases m) simp_all
  have q0: "queue_ok (trunc_dirty n ?lst w)" "w_uploading (trunc_dirty n ?lst w) = []" "w_upload_err (trunc_dirty n ?lst w) = w_upload_err w"
    "w_ino (trunc_dirty n ?lst w) = w_ino w"
    using assms(2,3) by (simp_all add: trunc_dirty_def Let_def queue_ok_def)
  obtain y w2 s2 where b: "trunc_boundary E n ?lst (trunc_dirty n ?lst w) s = (y, w2, s2)" by (metis prod.collapse)
  note q = trunc_boundary_queue [OF b q0(1,2)]
  have "queue_ok (w2\<lparr>w_size := n\<rparr>)" using q by (simp add: queue_ok_def)
  moreover have "queue_ok (w\<lparr>w_size := n\<rparr>)" "queue_ok (w\<lparr>w_sparse := True, w_size := n\<rparr>)" using assms(2) by (simp_all add: queue_ok_def)
  ultimately show ?thesis using assms(1) wait b q q0(3,4)
    by (auto simp: WriterBuf.truncate_def truncate_shrink_def Let_def mark_sparse_def meta_result_def split: if_splits sum.splits prod.splits)
qed



section \<open>The hints of a handle\<close>

definition hints_current :: "backend \<Rightarrow> file_handle \<Rightarrow> store \<Rightarrow> bool" where
  "hints_current b h s \<longleftrightarrow> \<not> fh_dirty h \<and> (\<exists>i. get_inode (fh_ino h) s = Inr i \<and>
     fh_chunk_size h = (if i_chunk_size i \<le> 0 then be_chunk b else i_chunk_size i) \<and> fh_size h = i_size i \<and> fh_sparse h = i_sparse i)"

lemma be_chunk_pos: "0 < be_chunk b"
  by (simp add: be_chunk_def ChunkSize_def)

lemma with_hints_current:
  assumes "get_inode ino t = Inr i"
  shows "hints_current b (with_hints b (Inr i) (fresh_handle ino w)) t \<and> \<not> is_seek off (with_hints b (Inr i) (fresh_handle ino w)) \<and>
    fh_ino (with_hints b (Inr i) (fresh_handle ino w)) = ino"
  using assms by (simp add: hints_current_def with_hints_def fresh_handle_def is_seek_def)

lemma open_hints:
  assumes "open_node F b q ino fl s = (Inr (Some h), t)" "\<not> rq_cancelled q" "get_inode ino t = Inr i"
  shows "hints_current b h t \<and> \<not> is_seek off h \<and> fh_ino h = ino"
proof -
  have "\<exists>w. h = with_hints b (Inr i) (fresh_handle ino w)"
    using assms by (auto simp: open_node_def under_ctx_def split: if_splits sum.splits prod.splits)
  then show ?thesis using with_hints_current [OF assms(3)] by auto
qed

lemma hinted_read:
  assumes "hints_current b h (rw_store W)" "re_chunk_size E = be_chunk b" "\<not> is_seek off h"
  shows "handle_read F E q len off h W = (case read_at E (fh_ino h) len off W of
      ((Some e, _), W1) \<Rightarrow> (Inl (read_errno F q e), h, W1) | ((None, d), W1) \<Rightarrow> (Inr d, h\<lparr>fh_last_end := off + len\<rparr>, W1))"
proof -
  obtain i where i: "get_inode (fh_ino h) (rw_store W) = Inr i" "fh_chunk_size h = (if i_chunk_size i \<le> 0 then be_chunk b else i_chunk_size i)"
    "fh_size h = i_size i" "fh_sparse h = i_sparse i" "\<not> fh_dirty h" using assms(1) by (auto simp: hints_current_def)
  have c: "fh_chunk_size h > 0" using i(2) be_chunk_pos [of b] by auto
  then have "is_clean h" using i(5) by (simp add: is_clean_def)
  moreover have "read_at_known E (fh_ino h) len off (fh_chunk_size h) (fh_size h) (fh_sparse h) W = read_at E (fh_ino h) len off W"
  proof (cases "len = 0")
    case False
    then show ?thesis using c i(1-4) assms(2) by (simp add: read_at_known_def read_at_def read_inode_def)
  qed (use c in \<open>simp add: read_at_known_def read_at_def read_at_window_def\<close>)
  ultimately show ?thesis using assms(3) by (simp add: handle_read_def)
qed


text \<open>
  The hints are those of the open, and only a write through the same handle makes them stale.  A file is
  opened for reading while it has no rows and chunks of two bytes; its writer promotes it to chunks
  of three bytes and stores two; the open handle still cuts the file at two bytes, and the byte at
  offset 2 it answers is the first one of the second chunk, where the file has the last of the
  first.
\<close>

definition before_promotion :: store where
  "before_promotion = demo\<lparr>st_inodes := map (\<lambda>i. if i_ino i = 3 then i\<lparr>i_size := 6, i_chunk_size := 2\<rparr> else i) (st_inodes demo)\<rparr>"

definition reader_handle :: file_handle where
  "reader_handle = \<lparr>fh_ino = 3, fh_writer = None, fh_chunk_size = 2, fh_size = 6, fh_sparse = False, fh_dirty = False, fh_last_end = -1\<rparr>"

lemma stale_chunk_size_reads_wrong_byte:
  "open_node fuse_env0 (mount0 0 False) request0 3 0 before_promotion = (Inr (Some reader_handle), before_promotion) \<and>
   fst (set_inode_chunk_size 3 3 before_promotion) = Inr () \<and>
   fst (handle_read fuse_env0 rd_env0 request0 1 2 reader_handle (rd_demo 6)) = Inr [1] \<and>
   fst (node_read fuse_env0 rd_env0 request0 3 1 2 (rd_demo 6)) = Inr [3]"
proof (intro conjI)
  show "open_node fuse_env0 (mount0 0 False) request0 3 0 before_promotion = (Inr (Some reader_handle), before_promotion)"
    "fst (set_inode_chunk_size 3 3 before_promotion) = Inr ()" by code_simp+
  show "fst (handle_read fuse_env0 rd_env0 request0 1 2 reader_handle (rd_demo 6)) = Inr [1]" by code_simp
  show "fst (node_read fuse_env0 rd_env0 request0 3 1 2 (rd_demo 6)) = Inr [3]" by code_simp
qed

section \<open>Witnesses\<close>

text \<open>File 3 with two stored bytes, 5 and 6, in chunks of four bytes.\<close>

definition mount_store :: store where
  "mount_store = w_store\<lparr>st_inodes := map (\<lambda>i. if i_ino i = 3 then i\<lparr>i_size := 2, i_chunk_size := 4\<rparr> else i) (st_inodes demo)\<rparr>"

lemma mount_store_file:
  obtains i where "get_inode 3 mount_store = Inr i" "i_size i = 2" "i_chunk_size i = 4"
proof -
  have "is_ok (get_inode 3 mount_store)" "i_size (projr (get_inode 3 mount_store)) = 2" "i_chunk_size (projr (get_inode 3 mount_store)) = 4" by code_simp+
  then show ?thesis using that by (auto simp: is_ok_def split: sum.splits)
qed

lemma mount_store_good: "file_readable w_env 3 mount_store"
proof -
  obtain i where i: "get_inode 3 mount_store = Inr i" "i_size i = 2" "i_chunk_size i = 4" by (rule mount_store_file)
  have "get_chunk 3 j mount_store = get_chunk 3 j w_store" for j by (simp add: get_chunk_def mount_store_def)
  then show ?thesis using i by (simp add: file_readable_def w_open_get w_env_def blen_def split: if_splits)
qed

lemma w_env_gate: "gate_open w_env" "0 < we_fuel w_env"
  by (simp_all add: gate_open_def w_env_def)

theorem stat_numbers_never_wrap_witness:
  "uint (at_blocks (fill_attr (plain_inode KindFile\<lparr>i_size := 513\<rparr>))) = 2 \<and> uint (sf_bfree (statfs_node (2 ^ 60, 5))) = 0 \<and>
   uint (sf_ffree (statfs_node (2 ^ 60, 5))) = 2 ^ 32 - 5"
  using stat_numbers_never_wrap [of "plain_inode KindFile\<lparr>i_size := 513\<rparr>" "2 ^ 60" 5] by simp

definition with_attr :: store where "with_attr = snd (setxattr_node (mount0 0 False) 3 ''user.a'' ''xyz'' 0 demo)"

theorem xattr_size_protocol_witness:
  "fst (setxattr_node (mount0 0 False) 3 ''user.a'' ''xyz'' 0 demo) = None \<and>
   getxattr_node request0 3 ''user.a'' (unat (fst (getxattr_node request0 3 ''user.a'' 0 with_attr))) with_attr = (3, ''xyz'', None)"
proof -
  obtain e t where r: "setxattr_node (mount0 0 False) 3 ''user.a'' ''xyz'' 0 demo = (e, t)" by (metis prod.collapse)
  have t: "t = with_attr" using r by (simp add: with_attr_def)
  have d: "has_inode demo 3" "list_xattrs 3 with_attr = [''user.a'']" by code_simp+
  have m: "can_write (mount0 0 False)" "\<not> rq_cancelled request0" "is_user_xattr ''user.a''" "int (length ''xyz'') < 2 ^ 32"
    by (simp_all add: can_write_def mount0_def request0_def is_user_xattr_def)
  have n: "\<forall>n\<in>set (list_xattrs 3 t). CHR 0x00 \<notin> set n" "int (sum_list (map (\<lambda>n. length n + 1) (list_xattrs 3 t))) < 2 ^ 32"
    unfolding t d(2) by simp_all
  note x = xattr_size_protocol [OF demo_wf(4) d(1) m(1-4) r n]
  have "getxattr_node request0 3 ''user.a'' (unat (fst (getxattr_node request0 3 ''user.a'' 0 t))) t = (word_of_nat (length ''xyz''), ''xyz'', None)"
    using x by blast
  moreover have "word_of_nat (length ''xyz'') = (3 :: 32 word)" by simp
  moreover have "e = None" using x by blast
  ultimately show ?thesis unfolding r t fst_conv by (intro conjI) argo+
qed

theorem listing_is_one_snapshot_witness:
  "read_dir_calls request0 [demo, demo0, demo0] (opendir_node 1) =
   [Inr (Some \<lparr>de_name = ''d'', de_ino = 2, de_mode = S_IFDIR\<rparr>), Inr (Some \<lparr>de_name = ''g'', de_ino = 4, de_mode = S_IFREG\<rparr>), Inr None]"
proof -
  have "map dir_entry_of (readdir_info 1 demo) = [\<lparr>de_name = ''d'', de_ino = 2, de_mode = S_IFDIR\<rparr>, \<lparr>de_name = ''g'', de_ino = 4, de_mode = S_IFREG\<rparr>]"
    by code_simp
  then show ?thesis using listing_is_one_snapshot [of request0 demo "[demo0, demo0]" 1] by (simp add: request0_def)
qed




end
