(* ===== verification/Stats.thy ===== *)
theory Stats
  imports MetaSystem
begin

text \<open>
  The aggregate queries of \<open>internal/meta/stats.go\<close> behind the state page: counts by kind, the chunk
  rows, the journal, and the listing of the settings with its rendering of binary values.
\<close>

record meta_stats =
  ms_inodes :: int
  ms_files :: int
  ms_dirs :: int
  ms_symlinks :: int
  ms_chunk_rows :: int
  ms_distinct_chunks :: int
  ms_distinct_msgs :: int
  ms_chunk_bytes :: int
  ms_blobs :: int
  ms_journal_rows :: int
  ms_journal_unposted :: int
  ms_last_seq :: int
  ms_last_posted :: int

definition kind_count :: "kind \<Rightarrow> store \<Rightarrow> int" where
  "kind_count k s = int (cnt_where (\<lambda>i. i_kind i = k) (st_inodes s))"

text \<open>\<open>COALESCE(MAX(x), 0)\<close>.\<close>

definition max0 :: "int list \<Rightarrow> int" where
  "max0 xs = (case xs of [] \<Rightarrow> 0 | x # rest \<Rightarrow> fold max rest x)"

text \<open>\<open>COUNT(DISTINCT ino || ':' || idx)\<close> counts the texts.\<close>

definition chunk_text :: "chunk_row \<Rightarrow> string" where
  "chunk_text c = fmt_int (c_ino c) @ CHR '':'' # fmt_int (c_idx c)"

definition meta_stats_of :: "store \<Rightarrow> meta_stats" where
  "meta_stats_of s = \<lparr>ms_inodes = sum_list (map (\<lambda>k. kind_count k s) [KindFile, KindDir, KindSymlink]),
     ms_files = kind_count KindFile s, ms_dirs = kind_count KindDir s, ms_symlinks = kind_count KindSymlink s,
     ms_chunk_rows = int (length (st_chunks s)),
     ms_distinct_chunks = int (length (remdups (map chunk_text (st_chunks s)))),
     ms_distinct_msgs = int (length (remdups (map c_msg (st_chunks s)))),
     ms_chunk_bytes = sum_list (map c_size (st_chunks s)),
     ms_blobs = int (length (st_blobs s)),
     ms_journal_rows = int (length (st_journal s)),
     ms_journal_unposted = int (cnt_where (\<lambda>j. j_posted j = None) (st_journal s)),
     ms_last_seq = max0 (map j_seq (st_journal s)),
     ms_last_posted = max0 (map the (filter (\<lambda>p. p \<noteq> None) (map j_posted (st_journal s))))\<rparr>"

section \<open>The dump of the settings\<close>

definition is_printable :: "string \<Rightarrow> bool" where
  "is_printable v \<longleftrightarrow> list_all (\<lambda>c. \<not> (of_char c < (0x20 :: nat) \<or> of_char c > (0x7E :: nat)) \<or> c = CHR 0x0A \<or> c = CHR 0x09) v"

definition hex_digit :: "nat \<Rightarrow> char" where
  "hex_digit n = (if n < 10 then char_of (48 + n) else char_of (87 + n))"

definition hex_text :: "string \<Rightarrow> string" where
  "hex_text v = concat (map (\<lambda>c. [hex_digit (of_char c div 16), hex_digit (of_char c mod 16)]) v)"

text \<open>The ellipsis is one character of three bytes in UTF-8.\<close>

definition render_kv_value :: "string \<Rightarrow> string" where
  "render_kv_value v =
     (if v = [] then []
      else if length v \<le> 96 \<and> is_printable v then v
      else if length v \<le> 16 then ''0x'' @ hex_text v
      else ''0x'' @ hex_text (take 16 v) @ [CHR 0xE2, CHR 0x80, CHR 0xA6] @ '' ('' @ fmt_int (int (length v)) @ '' bytes)'')"

record kv_entry =
  ke_key :: string
  ke_value :: string
  ke_bytes :: int

definition meta_kv_dump :: "store \<Rightarrow> kv_entry list" where
  "meta_kv_dump s = map (\<lambda>r. \<lparr>ke_key = kv_key r, ke_value = render_kv_value (kv_val r), ke_bytes = int (length (kv_val r))\<rparr>)
     (sort_key kv_key (st_kv s))"

section \<open>What the numbers say\<close>

lemma kinds_partition: "int (length is) = sum_list (map (\<lambda>k. int (cnt_where (\<lambda>i. i_kind i = k) is)) [KindFile, KindDir, KindSymlink])"
proof (induction "is")
  case (Cons i "is")
  then show ?case by (cases "i_kind i") (simp_all add: cnt_where_Cons)
qed simp

lemma colon_split: "CHR '':'' \<notin> set a \<Longrightarrow> CHR '':'' \<notin> set c \<Longrightarrow> a @ CHR '':'' # b = c @ CHR '':'' # d \<Longrightarrow> a = c \<and> b = d"
proof (induction a arbitrary: c)
  case Nil
  then show ?case by (cases c) auto
next
  case (Cons x a)
  then show ?case by (cases c) auto
qed

definition row_int64 :: "chunk_row \<Rightarrow> bool" where
  "row_int64 c \<longleftrightarrow> - (2 ^ 63) \<le> c_ino c \<and> c_ino c < 2 ^ 63 \<and> - (2 ^ 63) \<le> c_idx c \<and> c_idx c < 2 ^ 63"

lemma chunk_text_inj:
  assumes "chunk_text c = chunk_text d" "row_int64 c" "row_int64 d"
  shows "ckey c = ckey d"
proof -
  have n: "CHR '':'' \<notin> set (fmt_int n)" for n using fmt_int_chars [of "CHR '':''" n] by (auto simp: is_digit_def)
  have "fmt_int (c_ino c) = fmt_int (c_ino d)" "fmt_int (c_idx c) = fmt_int (c_idx d)"
    using colon_split [OF n n assms(1) [unfolded chunk_text_def]] by simp_all
  then show ?thesis using assms(2,3) fmt_int_inj unfolding row_int64_def by auto
qed

lemma fold_max: "fold max ys (y :: int) = Max (insert y (set ys))"
  by (metis List.finite_set Max.set_eq_fold list.set(2))

lemma max0_Max: "xs \<noteq> [] \<Longrightarrow> max0 xs = Max (set xs)"
  by (cases xs) (simp_all add: max0_def fold_max)

text \<open>
  On a well-formed store the page of numbers is consistent: the kinds add up to the rows of the
  inode table, the distinct chunk slots are the chunk rows (the texts they are counted by cannot
  collide), the unposted ops are those the poster would post, and no row of the journal is
  beyond the last sequence shown, which itself is not beyond the counter.
\<close>
theorem stats_consistent:
  assumes "store_wf s" "list_all row_int64 (st_chunks s)"
  shows "ms_inodes (meta_stats_of s) = int (length (st_inodes s)) \<and>
    ms_distinct_chunks (meta_stats_of s) = ms_chunk_rows (meta_stats_of s) \<and>
    ms_journal_unposted (meta_stats_of s) = int (length (pending_journal s)) \<and>
    (st_journal s \<noteq> [] \<longrightarrow> ms_last_seq (meta_stats_of s) = Max (j_seq ` set (st_journal s)) \<and> ms_last_seq (meta_stats_of s) \<le> st_jnl_seq s)"
proof -
  have d: "distinct (map chunk_text (st_chunks s))"
  proof -
    have k: "distinct (st_chunks s)" "inj_on ckey (set (st_chunks s))" using store_wfD(1) [OF assms(1)] by (simp_all add: keyed_def distinct_map)
    have "inj_on chunk_text (set (st_chunks s))"
    proof (rule inj_onI)
      fix c d assume a: "c \<in> set (st_chunks s)" "d \<in> set (st_chunks s)" "chunk_text c = chunk_text d"
      then have "ckey c = ckey d" using chunk_text_inj assms(2) unfolding list_all_iff by blast
      then show "c = d" using inj_onD [OF k(2) _ a(1,2)] by blast
    qed
    then show ?thesis using k(1) by (simp add: distinct_map)
  qed
  have m: "max0 (map j_seq (st_journal s)) = Max (j_seq ` set (st_journal s))" if "st_journal s \<noteq> []"
    using max0_Max [of "map j_seq (st_journal s)"] that by simp
  have l: "Max (j_seq ` set (st_journal s)) \<le> st_jnl_seq s" if "st_journal s \<noteq> []"
    using that store_wfD(8) [OF assms(1)] by (subst Max_le_iff) auto
  have k: "ms_inodes (meta_stats_of s) = int (length (st_inodes s))"
    unfolding kinds_partition [of "st_inodes s"] by (simp add: meta_stats_of_def kind_count_def)
  show ?thesis
    using k d l m
    by (simp add: meta_stats_of_def distinct_remdups_id pending_journal_def cnt_where_def)
qed

theorem stats_consistent_witness:
  "ms_inodes (meta_stats_of demo) = int (length (st_inodes demo)) \<and> ms_files (meta_stats_of demo) = 2 \<and> ms_dirs (meta_stats_of demo) = 2"
proof (intro conjI)
  have "list_all row_int64 (st_chunks demo)" by code_simp
  then show "ms_inodes (meta_stats_of demo) = int (length (st_inodes demo))" using stats_consistent [OF demo_wf(4)] by blast
  show "ms_files (meta_stats_of demo) = 2" "ms_dirs (meta_stats_of demo) = 2" by code_simp+
qed

end
