(* ===== verification/Gc.thy ===== *)
theory Gc
  imports SnapProps Persist
begin

text \<open>
  The two commands that look at the whole channel against the local database: \<open>telfs gc\<close>
  (\<open>cmdGC\<close> of cmd/telfs/main.go), which deletes the messages nothing refers to any more, and
  \<open>telfs fsck\<close> (cmd/telfs/fsck.go), which downloads every chunk and with \<open>--fix\<close> drops the rows of
  those it could not get.  What they print is left out.  The time a message was posted is the
  parameter \<open>date\<close>, a function of its id; the history and the deletion are those of \<open>Snapshots\<close>.
\<close>

section \<open>Garbage collection\<close>

record gc_opts =
  gc_yes :: bool
  gc_pages :: int
  gc_min_age :: int

record jnl_msg =
  jn_id :: int
  jn_last :: int
  jn_date :: int

record gc_scan =
  gs_orphans :: "int list"
  gs_stale :: "int list"
  gs_chunks :: nat
  gs_snaps :: nat
  gs_young :: nat
  gs_foreign :: nat
  gs_kept :: nat
  gs_journal :: "jnl_msg list"
  gs_min :: int

definition gc_start :: gc_scan where
  "gc_start = \<lparr>gs_orphans = [], gs_stale = [], gs_chunks = 0, gs_snaps = 0, gs_young = 0, gs_foreign = 0, gs_kept = 0,
     gs_journal = [], gs_min = -1\<rparr>"

text \<open>\<open>time.Now().Add(-minAge).Unix()\<close> in nanoseconds since the epoch.\<close>

definition age_cutoff :: "int \<Rightarrow> int \<Rightarrow> int" where
  "age_cutoff now_ns min_age_ns = (now_ns - min_age_ns) div 1000000000"

definition too_young :: "int \<Rightarrow> int \<Rightarrow> bool" where
  "too_young cutoff d = (d > 0 \<and> d > cutoff)"

definition current_snap :: "store \<Rightarrow> int" where
  "current_snap s = (case get_kv KVCurrentMsgID s of
     Inl _ \<Rightarrow> 0 | Inr v \<Rightarrow> (case parse_int v of None \<Rightarrow> 0 | Some i \<Rightarrow> i))"

definition journal_eff :: "journal_caption \<Rightarrow> int" where
  "journal_eff c = (if jc_last c = 0 then jc_seq c else jc_last c)"

definition keep_snap :: "int \<Rightarrow> gc_scan \<Rightarrow> gc_scan" where
  "keep_snap q g = (if gs_min g < 0 \<or> q < gs_min g then g\<lparr>gs_min := q\<rparr> else g)"

definition is_foreign :: "string \<Rightarrow> snapshot_caption \<Rightarrow> bool" where
  "is_foreign uuid c = (sc_uuid c \<noteq> [] \<and> sc_uuid c \<noteq> uuid)"

text \<open>The callback of the walk.\<close>

definition gc_snapshot :: "string \<Rightarrow> int \<Rightarrow> (int \<Rightarrow> int) \<Rightarrow> int \<Rightarrow> int \<Rightarrow> snapshot_caption \<Rightarrow> gc_scan \<Rightarrow> gc_scan" where
  "gc_snapshot uuid cur date cutoff i c g =
     (if is_foreign uuid c then g\<lparr>gs_foreign := gs_foreign g + 1\<rparr>
      else
        (let g1 = g\<lparr>gs_snaps := gs_snaps g + 1\<rparr> in
         if i = cur then keep_snap (sc_seq c) g1
         else if int (gs_snaps g1) \<le> DefaultRetention then keep_snap (sc_seq c) (g1\<lparr>gs_kept := gs_kept g1 + 1\<rparr>)
         else if too_young cutoff (date i) then keep_snap (sc_seq c) (g1\<lparr>gs_young := gs_young g1 + 1\<rparr>)
         else g1\<lparr>gs_stale := gs_stale g1 @ [i]\<rparr>))"

definition gc_visit :: "string \<Rightarrow> int list \<Rightarrow> int \<Rightarrow> (int \<Rightarrow> int) \<Rightarrow> int \<Rightarrow> chan_msg \<Rightarrow> gc_scan \<Rightarrow> gc_scan" where
  "gc_visit uuid referenced cur date cutoff m g =
     (case classify_message m of
        KindUnknown \<Rightarrow> g
      | KindJournal \<Rightarrow>
          (case cm_caption m of
             CapJournal c \<Rightarrow> if jc_uuid c \<noteq> uuid then g
               else g\<lparr>gs_journal := gs_journal g @ [\<lparr>jn_id = cm_id m, jn_last = journal_eff c, jn_date = date (cm_id m)\<rparr>]\<rparr>
           | _ \<Rightarrow> g)
      | KindChunk \<Rightarrow>
          (let g1 = g\<lparr>gs_chunks := gs_chunks g + 1\<rparr> in
           if cm_id m \<in> set referenced then g1
           else if too_young cutoff (date (cm_id m)) then g1\<lparr>gs_young := gs_young g1 + 1\<rparr>
           else g1\<lparr>gs_orphans := gs_orphans g1 @ [cm_id m]\<rparr>)
      | KindSnapshot \<Rightarrow>
          (case cm_caption m of CapSnap c \<Rightarrow> gc_snapshot uuid cur date cutoff (cm_id m) c g | _ \<Rightarrow> g))"

definition stale_journal :: "int \<Rightarrow> gc_scan \<Rightarrow> int list" where
  "stale_journal cutoff g =
     (if gs_min g < 0 then []
      else map jn_id (filter (\<lambda>j. \<not> (jn_last j \<le> 0 \<or> jn_last j > gs_min g) \<and> \<not> too_young cutoff (jn_date j)) (gs_journal g)))"

text \<open>The deletion in batches of 100; the \<open>i\<close>-th request may fail, and ends the loop then.\<close>

function delete_batches :: "(nat \<Rightarrow> string option) \<Rightarrow> nat \<Rightarrow> int list \<Rightarrow> snap_channel \<Rightarrow> (string + unit) \<times> snap_channel" where
  "delete_batches fails i ids ch =
     (if ids = [] then (Inr (), ch)
      else (case delete_channel_messages (fails i) (take 100 ids) ch of
          (Inl e, ch1) \<Rightarrow> (Inl e, ch1)
        | (Inr _, ch1) \<Rightarrow> delete_batches fails (i + 1) (drop 100 ids) ch1))"
  by pat_completeness auto
termination by (relation "measure (\<lambda>(_, _, ids, _). length ids)") auto

declare delete_batches.simps [simp del]

datatype gc_result =
  GcMounted | GcUuid meta_err | GcWalk string | GcWrongChannel nat | GcNothing | GcDryRun gc_scan | GcDelete string | GcDone gc_scan

text \<open>
  \<open>mid\<close> is what others do to the store while the channel is scanned, \<open>later\<close> while messages are
  deleted.  The answer of the final pruning is dropped by the code.
\<close>

record gc_env =
  ge_mounted :: bool
  ge_now :: int
  ge_date :: "int \<Rightarrow> int"
  ge_history :: "chan_msg list \<Rightarrow> int \<Rightarrow> string + chan_msg list"
  ge_mid :: "store \<Rightarrow> store"
  ge_later :: "store \<Rightarrow> store"
  ge_delete :: "nat \<Rightarrow> string option"

definition gc_walk :: "gc_env \<Rightarrow> gc_opts \<Rightarrow> string \<Rightarrow> store \<Rightarrow> snap_channel \<Rightarrow> string + gc_scan" where
  "gc_walk E opt uuid s ch =
     walk_channel_messages (ge_history E (sn_msgs ch)) (gc_pages opt)
       (\<lambda>m g. Next (gc_visit uuid (all_chunk_message_ids s) (current_snap s) (ge_date E) (age_cutoff (ge_now E) (gc_min_age opt)) m g))
       gc_start"

definition gc_targets :: "int \<Rightarrow> gc_scan \<Rightarrow> store \<Rightarrow> int list" where
  "gc_targets cutoff g s1 =
     filter (\<lambda>i. i \<notin> set (all_chunk_message_ids s1)) (gs_orphans g) @ gs_stale g @ stale_journal cutoff g"

definition cmdGC :: "gc_env \<Rightarrow> gc_opts \<Rightarrow> store \<Rightarrow> snap_channel \<Rightarrow> gc_result \<times> store \<times> snap_channel" where
  "cmdGC E opt s ch =
     (if ge_mounted E then (GcMounted, s, ch)
      else (case fs_uuid s of
        Inl e \<Rightarrow> (GcUuid e, s, ch)
      | Inr uuid \<Rightarrow>
          (case gc_walk E opt uuid s ch of
             Inl e \<Rightarrow> (GcWalk e, s, ch)
           | Inr g \<Rightarrow>
               (let cutoff = age_cutoff (ge_now E) (gc_min_age opt) in
                if gs_foreign g > 0 \<and> gs_snaps g = 0 then (GcWrongChannel (gs_foreign g), ge_mid E s, ch)
                else if length (gs_orphans g) + length (gs_stale g) + length (stale_journal cutoff g) = 0 then (GcNothing, ge_mid E s, ch)
                else if \<not> gc_yes opt then (GcDryRun g, ge_mid E s, ch)
                else
                  (let s1 = ge_mid E s in
                   case delete_batches (ge_delete E) 0 (gc_targets cutoff g s1) ch of
                     (Inl e, ch1) \<Rightarrow> (GcDelete e, ge_later E s1, ch1)
                   | (Inr _, ch1) \<Rightarrow> (GcDone g, snd (prune_stale_chunk_blobs (ge_later E s1)), ch1))))))"

section \<open>Integrity walk\<close>

datatype fsck_kind = IssueMissing | IssueDecrypt | IssueSize

record fsck_issue =
  fi_kind :: fsck_kind
  fi_chunk :: chunk
  fi_want :: int
  fi_got :: int

definition fsck_stop :: "int \<Rightarrow> fsck_issue list \<Rightarrow> bool" where
  "fsck_stop stop_on issues = (stop_on > 0 \<and> int (length issues) \<ge> stop_on)"

text \<open>What one chunk is found to be; the download answers for the \<open>i\<close>-th row.\<close>

definition fsck_check :: "aead \<Rightarrow> cipher \<Rightarrow> string + bytes \<Rightarrow> chunk \<Rightarrow> fsck_issue option" where
  "fsck_check A ci buf c =
     (case buf of
        Inl _ \<Rightarrow> Some \<lparr>fi_kind = IssueMissing, fi_chunk = c, fi_want = 0, fi_got = 0\<rparr>
      | Inr wire \<Rightarrow>
          (case cipher_open A ci (ch_ino c) (ch_idx c) wire of
             Inl _ \<Rightarrow> Some \<lparr>fi_kind = IssueDecrypt, fi_chunk = c, fi_want = 0, fi_got = 0\<rparr>
           | Inr body \<Rightarrow>
               if to_int32 (blen body) \<noteq> ch_size c
               then Some \<lparr>fi_kind = IssueSize, fi_chunk = c, fi_want = ch_size c, fi_got = blen body\<rparr>
               else None))"

fun fsck_walk :: "aead \<Rightarrow> cipher \<Rightarrow> (nat \<Rightarrow> int \<Rightarrow> string + bytes) \<Rightarrow> int \<Rightarrow> nat \<Rightarrow> chunk list \<Rightarrow> fsck_issue list \<Rightarrow> fsck_issue list" where
  "fsck_walk A ci dl stop_on i [] issues = issues"
| "fsck_walk A ci dl stop_on i (c # cs) issues =
     (case fsck_check A ci (dl i (ch_msg c)) c of
        None \<Rightarrow> fsck_walk A ci dl stop_on (i + 1) cs issues
      | Some iu \<Rightarrow>
          (let issues' = issues @ [iu] in
           if fsck_stop stop_on issues' then issues' else fsck_walk A ci dl stop_on (i + 1) cs issues'))"

fun fsck_fix :: "fsck_issue list \<Rightarrow> int \<Rightarrow> store \<Rightarrow> int \<times> store" where
  "fsck_fix [] n s = (n, s)"
| "fsck_fix (iu # ius) n s =
     (if fi_kind iu \<noteq> IssueMissing then fsck_fix ius n s
      else (case delete_chunk (ch_ino (fi_chunk iu)) (ch_idx (fi_chunk iu)) s of
          (Inl _, s1) \<Rightarrow> fsck_fix ius n s1
        | (Inr _, s1) \<Rightarrow> fsck_fix ius (n + 1) s1))"

datatype fsck_result = FsckEmpty | FsckKey key_err | FsckOK | FsckReport "fsck_issue list" | FsckFixed "fsck_issue list" int

definition cmdFsck :: "aead \<Rightarrow> key_err + cipher \<Rightarrow> (nat \<Rightarrow> int \<Rightarrow> string + bytes) \<Rightarrow> bool \<Rightarrow> int \<Rightarrow> store \<Rightarrow> fsck_result \<times> store" where
  "cmdFsck A key dl fix_it stop_on s =
     (let chunks = all_chunks s in
      if chunks = [] then (FsckEmpty, s)
      else (case key of
          Inl e \<Rightarrow> (FsckKey e, s)
        | Inr ci \<Rightarrow>
            (let issues = fsck_walk A ci dl stop_on 0 chunks [] in
             if issues = [] then (FsckOK, s)
             else if \<not> fix_it then (FsckReport issues, s)
             else (case fsck_fix issues 0 s of (n, s1) \<Rightarrow> (FsckFixed issues n, s1)))))"

section \<open>What a scan finds\<close>

definition own_snapshot :: "string \<Rightarrow> chan_msg \<Rightarrow> bool" where
  "own_snapshot uuid m = (cm_doc m \<and> (case cm_caption m of CapSnap c \<Rightarrow> \<not> is_foreign uuid c | _ \<Rightarrow> False))"

definition snap_seq :: "chan_msg \<Rightarrow> int" where
  "snap_seq m = (case cm_caption m of CapSnap c \<Rightarrow> sc_seq c | _ \<Rightarrow> 0)"

definition own_journal :: "string \<Rightarrow> chan_msg \<Rightarrow> bool" where
  "own_journal uuid m = (cm_doc m \<and> (case cm_caption m of CapJournal c \<Rightarrow> jc_uuid c = uuid | _ \<Rightarrow> False))"

definition journal_last :: "chan_msg \<Rightarrow> int" where
  "journal_last m = (case cm_caption m of CapJournal c \<Rightarrow> journal_eff c | _ \<Rightarrow> 0)"

lemma walk_page_fold: "walk_page (\<lambda>m g. Next (f m g)) ms g = Go (fold f (filter cm_message ms) g)"
  by (induction ms arbitrary: g) simp_all

lemma gc_walk_fold:
  assumes "honest_history pg (ge_history E (sn_msgs ch)) (sn_msgs ch)" "sorted_ids (sn_msgs ch)" "gc_walk E opt uuid s ch = Inr g" "0 < gc_pages opt"
  obtains xs ys where "sn_msgs ch = xs @ ys" "ys = [] \<or> pg * nat (gc_pages opt) \<le> length xs"
    "g = fold (gc_visit uuid (all_chunk_message_ids s) (current_snap s) (ge_date E) (age_cutoff (ge_now E) (gc_min_age opt)))
      (filter cm_message xs) gc_start"
proof -
  let ?v = "gc_visit uuid (all_chunk_message_ids s) (current_snap s) (ge_date E) (age_cutoff (ge_now E) (gc_min_age opt))"
  let ?e = "scan_pages (nat (gc_pages opt)) (ge_history E (sn_msgs ch)) (walk_page (\<lambda>m g. Next (?v m g))) 0 gc_start"
  note p = walking.scan_whole [OF assms(1,2), where n = "nat (gc_pages opt)" and f = "\<lambda>m g. Next (?v m g)" and a = gc_start,
      unfolded walking.passed_def]
  show ?thesis
  proof (cases ?e)
    case (Exhausted b)
    then show ?thesis using p assms(3,4) that [of "sn_msgs ch" "[]"] by (simp add: gc_walk_def walk_channel_messages_def walk_page_fold)
  next
    case (OutOfPages b)
    then show ?thesis using p assms(3,4) that by (auto simp: gc_walk_def walk_channel_messages_def walk_page_fold)
  qed (use p assms(3,4) in \<open>simp_all add: gc_walk_def walk_channel_messages_def walk_page_fold\<close>)
qed

text \<open>The counters and lists of the scan, one message at a time.\<close>

lemma keep_snap_simps [simp]:
  "gs_orphans (keep_snap q g) = gs_orphans g" "gs_stale (keep_snap q g) = gs_stale g" "gs_snaps (keep_snap q g) = gs_snaps g"
  "gs_journal (keep_snap q g) = gs_journal g" "gs_foreign (keep_snap q g) = gs_foreign g"
  by (simp_all add: keep_snap_def)

lemma keep_snap_min: "0 \<le> q \<Longrightarrow> 0 \<le> gs_min (keep_snap q g) \<and> gs_min (keep_snap q g) \<le> q \<and> (0 \<le> gs_min g \<longrightarrow> gs_min (keep_snap q g) \<le> gs_min g)"
  by (simp add: keep_snap_def)

lemma classify_kinds:
  "classify_message m = KindChunk \<longleftrightarrow> cm_doc m \<and> cm_caption m = CapBlank"
  "classify_message m = KindSnapshot \<longleftrightarrow> cm_doc m \<and> (\<exists>c. cm_caption m = CapSnap c)"
  "classify_message m = KindJournal \<longleftrightarrow> cm_doc m \<and> (\<exists>c. cm_caption m = CapJournal c)"
  by (simp_all add: classify_message_def split: caption.splits)

lemma visit_fields:
  "gs_orphans (gc_visit u rf cur d k m g) = gs_orphans g @
     (if classify_message m = KindChunk \<and> cm_id m \<notin> set rf \<and> \<not> too_young k (d (cm_id m)) then [cm_id m] else [])"
  "gs_snaps (gc_visit u rf cur d k m g) = gs_snaps g + (if own_snapshot u m then 1 else 0)"
  "gs_foreign (gc_visit u rf cur d k m g) = gs_foreign g + (if classify_message m = KindSnapshot \<and> \<not> own_snapshot u m then 1 else 0)"
  "gs_stale (gc_visit u rf cur d k m g) = gs_stale g @
     (if own_snapshot u m \<and> cm_id m \<noteq> cur \<and> 12 \<le> gs_snaps g \<and> \<not> too_young k (d (cm_id m)) then [cm_id m] else [])"
  "gs_journal (gc_visit u rf cur d k m g) = gs_journal g @
     (if own_journal u m then [\<lparr>jn_id = cm_id m, jn_last = journal_last m, jn_date = d (cm_id m)\<rparr>] else [])"
  by (simp_all add: gc_visit_def gc_snapshot_def classify_message_def own_snapshot_def own_journal_def journal_last_def
      DefaultRetention_def Let_def split: caption.split)

lemma visit_min:
  "\<not> own_snapshot u m \<Longrightarrow> gs_min (gc_visit u rf cur d k m g) = gs_min g"
  "own_snapshot u m \<Longrightarrow> cm_id m \<noteq> cur \<and> 12 \<le> gs_snaps g \<and> \<not> too_young k (d (cm_id m)) \<Longrightarrow> gs_min (gc_visit u rf cur d k m g) = gs_min g"
  "own_snapshot u m \<Longrightarrow> \<not> (cm_id m \<noteq> cur \<and> 12 \<le> gs_snaps g \<and> \<not> too_young k (d (cm_id m))) \<Longrightarrow>
     gs_min (gc_visit u rf cur d k m g) = gs_min (keep_snap (snap_seq m) g)"
  by (auto simp: gc_visit_def gc_snapshot_def classify_message_def own_snapshot_def snap_seq_def keep_snap_def
      DefaultRetention_def Let_def split: caption.splits)

text \<open>The whole scan.\<close>

abbreviation gc_found :: "string \<Rightarrow> int list \<Rightarrow> int \<Rightarrow> (int \<Rightarrow> int) \<Rightarrow> int \<Rightarrow> chan_msg list \<Rightarrow> gc_scan" where
  "gc_found u rf cur d k ms \<equiv> fold (gc_visit u rf cur d k) ms gc_start"

lemma scan_lists:
  fixes u rf cur d k
  defines "G \<equiv> gc_found u rf cur d k"
  shows "set (gs_orphans (G ms)) = {cm_id m | m. m \<in> set ms \<and> classify_message m = KindChunk \<and> cm_id m \<notin> set rf \<and> \<not> too_young k (d (cm_id m))}"
    and "gs_snaps (G ms) = length (filter (own_snapshot u) ms)"
    and "gs_foreign (G ms) = length (filter (\<lambda>m. classify_message m = KindSnapshot \<and> \<not> own_snapshot u m) ms)"
    and "set (gs_stale (G ms)) = {cm_id m | m. m \<in> set (drop 12 (filter (own_snapshot u) ms)) \<and> cm_id m \<noteq> cur \<and> \<not> too_young k (d (cm_id m))}"
    and "set (gs_journal (G ms)) = {\<lparr>jn_id = cm_id m, jn_last = journal_last m, jn_date = d (cm_id m)\<rparr> | m. m \<in> set ms \<and> own_journal u m}"
proof (induction ms rule: rev_induct)
  case (snoc m ms)
  have step: "G (ms @ [m]) = gc_visit u rf cur d k m (G ms)" by (simp add: G_def)
  { case 1 show ?case unfolding step visit_fields using snoc(1) by auto
  next case 2 show ?case unfolding step visit_fields using snoc(2) by auto
  next case 3 show ?case unfolding step visit_fields using snoc(3) by auto
  next case 4
    have "drop (12 - n) [m] = (if 12 \<le> n then [m] else [])" for n by (cases "12 - n") auto
    then show ?case unfolding step visit_fields using snoc(2,4) by auto
  next case 5 show ?case unfolding step visit_fields using snoc(5) by auto }
qed (simp_all add: G_def gc_start_def)

text \<open>The least sequence is below that of every snapshot the scan keeps.\<close>

lemma scan_min:
  fixes u rf cur d k
  defines "G \<equiv> gc_found u rf cur d k"
  assumes "\<forall>m\<in>set ms. own_snapshot u m \<longrightarrow> 0 \<le> snap_seq m" "distinct (map cm_id ms)"
  shows "\<forall>m\<in>set ms. own_snapshot u m \<and> cm_id m \<notin> set (gs_stale (G ms)) \<longrightarrow> 0 \<le> gs_min (G ms) \<and> gs_min (G ms) \<le> snap_seq m"
  using assms(2,3)
proof (induction ms rule: rev_induct)
  case (snoc m ms)
  let ?stale = "own_snapshot u m \<and> cm_id m \<noteq> cur \<and> 12 \<le> gs_snaps (G ms) \<and> \<not> too_young k (d (cm_id m))"
  have step: "G (ms @ [m]) = gc_visit u rf cur d k m (G ms)" by (simp add: G_def)
  have IH: "\<forall>x\<in>set ms. own_snapshot u x \<and> cm_id x \<notin> set (gs_stale (G ms)) \<longrightarrow> 0 \<le> gs_min (G ms) \<and> gs_min (G ms) \<le> snap_seq x"
    using snoc by simp
  have st: "gs_stale (G (ms @ [m])) = gs_stale (G ms) @ (if ?stale then [cm_id m] else [])" by (simp add: step visit_fields)
  show ?case
  proof (cases "own_snapshot u m \<and> \<not> ?stale")
    case True
    then have mn: "gs_min (G (ms @ [m])) = gs_min (keep_snap (snap_seq m) (G ms))" using visit_min(3) by (simp add: step)
    have "0 \<le> snap_seq m" using snoc.prems(1) True by simp
    note ks = keep_snap_min [OF this, of "G ms"]
    have "gs_stale (G (ms @ [m])) = gs_stale (G ms)" using st True by auto
    then show ?thesis unfolding mn using IH ks by (auto intro: order_trans)
  next
    case False
    then have "gs_min (G (ms @ [m])) = gs_min (G ms)" by (cases "own_snapshot u m") (simp_all add: step visit_min)
    then show ?thesis using IH st False by auto
  qed
qed simp

section \<open>What is deleted\<close>

lemma delete_messages_msgs:
  "snd (delete_channel_messages f ids ch) = ch \<or>
   fst (delete_channel_messages f ids ch) = Inr () \<and> sn_msgs (snd (delete_channel_messages f ids ch)) = filter (\<lambda>m. cm_id m \<notin> set ids) (sn_msgs ch)"
  by (auto simp: delete_channel_messages_def split: option.split)

lemma delete_messages_ok:
  "fst (delete_channel_messages f ids ch) = Inr () \<Longrightarrow> sn_msgs (snd (delete_channel_messages f ids ch)) = filter (\<lambda>m. cm_id m \<notin> set ids) (sn_msgs ch)"
  by (auto simp: delete_channel_messages_def split: option.splits if_splits)

text \<open>The requests take the ids in their order: what is gone is a prefix, all of it when no request fails.\<close>

lemma delete_batches_prefix:
  "delete_batches f i ids ch = (r, ch') \<Longrightarrow>
     \<exists>n. sn_msgs ch' = filter (\<lambda>m. cm_id m \<notin> set (take n ids)) (sn_msgs ch) \<and> (r = Inr () \<longrightarrow> length ids \<le> n)"
proof (induction f i ids ch arbitrary: r ch' rule: delete_batches.induct)
  case (1 f i ids ch)
  show ?case
  proof (cases "ids = []")
    case True then show ?thesis using 1(2) by (simp add: delete_batches.simps)
  next
    case False
    obtain r1 ch1 where d: "delete_channel_messages (f i) (take 100 ids) ch = (r1, ch1)" by (metis prod.collapse)
    note dm = delete_messages_msgs [of "f i" "take 100 ids" ch, unfolded d snd_conv fst_conv]
    show ?thesis
    proof (cases r1)
      case (Inl e)
      then have "r = Inl e" "sn_msgs ch' = sn_msgs ch" using 1(2) False d dm by (auto simp: delete_batches.simps [of f i ids])
      then show ?thesis by (intro exI [of _ 0]) simp
    next
      case (Inr x)
      then have rest: "delete_batches f (i + 1) (drop 100 ids) ch1 = (r, ch')" using 1(2) False d by (simp add: delete_batches.simps [of f i ids])
      have "sn_msgs ch1 = filter (\<lambda>m. cm_id m \<notin> set (take 100 ids)) (sn_msgs ch)"
        using delete_messages_ok [of "f i" "take 100 ids" ch] d Inr by (simp add: unit_eq)
      moreover obtain n where "sn_msgs ch' = filter (\<lambda>m. cm_id m \<notin> set (take n (drop 100 ids))) (sn_msgs ch1)" "r = Inr () \<longrightarrow> length (drop 100 ids) \<le> n"
        using 1(1) [OF False d [symmetric] Inr rest] by blast
      ultimately show ?thesis by (intro exI [of _ "100 + n"]) (auto simp: take_add intro: filter_cong)
    qed
  qed
qed

lemma gc_targets_spec:
  fixes u rf cur d k ws sm
  defines "g \<equiv> gc_found u rf cur d k ws"
  shows "x \<in> set (gc_targets k g sm) \<longleftrightarrow> (\<exists>m\<in>set ws. cm_id m = x \<and> \<not> too_young k (d x) \<and>
    (classify_message m = KindChunk \<and> x \<notin> set rf \<and> x \<notin> set (all_chunk_message_ids sm) \<or>
     m \<in> set (drop 12 (filter (own_snapshot u) ws)) \<and> x \<noteq> cur \<or>
     own_journal u m \<and> 0 < journal_last m \<and> 0 \<le> gs_min g \<and> journal_last m \<le> gs_min g))"
proof -
  let ?o = "filter (own_snapshot u) ws"
  have drop: "m \<in> set ws" if "m \<in> set (drop 12 ?o)" for m using in_set_dropD [OF that] by simp
  have A: "x \<in> set (filter (\<lambda>i. i \<notin> set (all_chunk_message_ids sm)) (gs_orphans g)) \<longleftrightarrow>
      (\<exists>m\<in>set ws. cm_id m = x \<and> \<not> too_young k (d x) \<and> classify_message m = KindChunk \<and> x \<notin> set rf \<and> x \<notin> set (all_chunk_message_ids sm))"
    unfolding g_def set_filter scan_lists by blast
  have B: "x \<in> set (gs_stale g) \<longleftrightarrow> (\<exists>m\<in>set ws. cm_id m = x \<and> \<not> too_young k (d x) \<and> m \<in> set (drop 12 ?o) \<and> x \<noteq> cur)"
    unfolding g_def scan_lists using drop by blast
  have C: "x \<in> set (stale_journal k g) \<longleftrightarrow> (\<exists>m\<in>set ws. cm_id m = x \<and> \<not> too_young k (d x) \<and>
      own_journal u m \<and> 0 < journal_last m \<and> 0 \<le> gs_min g \<and> journal_last m \<le> gs_min g)"
  proof -
    have "x \<in> set (stale_journal k g) \<longleftrightarrow> (\<exists>j\<in>set (gs_journal g). jn_id j = x \<and> 0 < jn_last j \<and> 0 \<le> gs_min g \<and> jn_last j \<le> gs_min g \<and>
        \<not> too_young k (jn_date j))" by (auto simp: stale_journal_def)
    moreover have "set (gs_journal g) = {\<lparr>jn_id = cm_id m, jn_last = journal_last m, jn_date = d (cm_id m)\<rparr> | m. m \<in> set ws \<and> own_journal u m}"
      by (simp add: g_def scan_lists)
    ultimately show ?thesis by auto
  qed
  show ?thesis unfolding gc_targets_def set_append Un_iff A B C by blast
qed

lemma cmdGC_cases:
  assumes "cmdGC E opt s ch = (r, s', ch')" "fs_uuid s = Inr uuid"
  obtains "ch' = ch" "\<forall>g. r \<noteq> GcDone g"
  | g x where "gc_walk E opt uuid s ch = Inr g" "\<not> (gs_foreign g > 0 \<and> gs_snaps g = 0)"
      "delete_batches (ge_delete E) 0 (gc_targets (age_cutoff (ge_now E) (gc_min_age opt)) g (ge_mid E s)) ch = (x, ch')"
      "(\<exists>g. r = GcDone g) \<longleftrightarrow> x = Inr ()"
proof (cases "gc_walk E opt uuid s ch")
  case (Inl e)
  then show ?thesis using assms that(1) by (auto simp: cmdGC_def split: if_splits)
next
  case (Inr g)
  obtain x ch1 where d: "delete_batches (ge_delete E) 0 (gc_targets (age_cutoff (ge_now E) (gc_min_age opt)) g (ge_mid E s)) ch = (x, ch1)"
    by (metis prod.collapse)
  show ?thesis using assms Inr d that by (cases x) (auto simp: cmdGC_def Let_def split: if_splits)
qed

lemma sorted_ids_unique: "sorted_ids ms \<Longrightarrow> m \<in> set ms \<Longrightarrow> m' \<in> set ms \<Longrightarrow> cm_id m = cm_id m' \<Longrightarrow> m = m'"
  using sorted_ids_distinct by (auto simp: distinct_map dest: inj_onD)

text \<open>What is kept above a message the scan found stale: the twelve newest.\<close>

lemma newer_in_drop:
  assumes "sorted_ids ws" "m \<in> set (drop n (filter p ws))"
  shows "card (set (take n (filter p ws))) = n" "\<forall>k\<in>set (take n (filter p ws)). p k \<and> k \<in> set ws \<and> cm_id m < cm_id k \<and> k \<notin> set (drop n (filter p ws))"
proof -
  have s: "sorted_wrt (\<lambda>m m'. cm_id m' < cm_id m) (take n (filter p ws) @ drop n (filter p ws))"
    using assms(1) by (simp add: sorted_ids_def sorted_wrt_filter)
  have "distinct ws" using sorted_ids_distinct [OF assms(1)] by (simp add: distinct_map)
  then have "distinct (filter p ws)" by simp
  moreover have "n < length (filter p ws)" using assms(2) by (cases "n < length (filter p ws)") auto
  ultimately show "card (set (take n (filter p ws))) = n" by (simp add: distinct_card)
  show "\<forall>k\<in>set (take n (filter p ws)). p k \<and> k \<in> set ws \<and> cm_id m < cm_id k \<and> k \<notin> set (drop n (filter p ws))"
    using s assms(2) unfolding sorted_wrt_append by (fastforce dest: in_set_takeD)
qed

lemma in_take_right: "i \<in> set (take n (xs @ ys)) \<Longrightarrow> i \<notin> set xs \<Longrightarrow> length xs < n"
  by (cases "length xs < n") (auto dest: in_set_takeD)


text \<open>A chunk message carries nothing that says whose it is: as soon as the scan has seen one snapshot of
  this instance, every chunk in its window that is old enough and that no local row points to is deleted,
  although snapshots of another instance on the same channel have been seen too.
\<close>
theorem gc_deletes_foreign_chunks:
  assumes "cmdGC E opt s ch = (GcDone g, s', ch')" "sorted_ids (sn_msgs ch)" "honest_history pg (ge_history E (sn_msgs ch)) (sn_msgs ch)"
    "0 < gc_pages opt" "fs_uuid s = Inr uuid" "m \<in> set (take (pg * nat (gc_pages opt)) (sn_msgs ch))" "cm_message m"
    "classify_message m = KindChunk" "cm_id m \<notin> set (all_chunk_message_ids s)" "cm_id m \<notin> set (all_chunk_message_ids (ge_mid E s))"
    "\<not> too_young (age_cutoff (ge_now E) (gc_min_age opt)) (ge_date E (cm_id m))"
  shows "m \<notin> set (sn_msgs ch')"
proof -
  let ?k = "age_cutoff (ge_now E) (gc_min_age opt)"
  let ?rf = "all_chunk_message_ids s"
  obtain g x where g: "gc_walk E opt uuid s ch = Inr g"
      "delete_batches (ge_delete E) 0 (gc_targets ?k g (ge_mid E s)) ch = (x, ch')" "x = Inr ()"
    using cmdGC_cases [OF assms(1,5)] by metis
  obtain xs ys where x: "sn_msgs ch = xs @ ys" "ys = [] \<or> pg * nat (gc_pages opt) \<le> length xs"
      "g = gc_found uuid ?rf (current_snap s) (ge_date E) ?k (filter cm_message xs)"
    by (rule gc_walk_fold [OF assms(3,2) g(1) assms(4)])
  have "m \<in> set (filter cm_message xs)" using assms(6,7) x(1,2) by (auto dest: in_set_takeD)
  then have "cm_id m \<in> set (gc_targets ?k g (ge_mid E s))" unfolding x(3) gc_targets_spec using assms(8-11) by blast
  moreover obtain n where "sn_msgs ch' = filter (\<lambda>m. cm_id m \<notin> set (take n (gc_targets ?k g (ge_mid E s)))) (sn_msgs ch)"
      "length (gc_targets ?k g (ge_mid E s)) \<le> n"
    using delete_batches_prefix [OF g(2)] g(3) by blast
  ultimately show ?thesis by simp
qed

section \<open>What the integrity walk finds and drops\<close>

lemma fsck_walk_all:
  "stop_on \<le> 0 \<Longrightarrow> fsck_walk A ci dl stop_on i cs acc =
     acc @ List.map_filter (\<lambda>(j, c). fsck_check A ci (dl j (ch_msg c)) c) (zip [i..<i + length cs] cs)"
proof (induction cs arbitrary: i acc)
  case (Cons c cs)
  have "zip [i..<i + length (c # cs)] (c # cs) = (i, c) # zip [Suc i..<Suc i + length cs] cs" by (simp add: upt_rec)
  then show ?case using Cons.IH [OF Cons.prems, of "Suc i"] Cons.prems
    by (simp add: fsck_stop_def map_filter_simps split: option.split)
qed (simp add: map_filter_simps)

lemma delete_chunk_rows: "st_chunks (snd (delete_chunk i j s)) = del_where (\<lambda>r. ckey r = (i, j)) (st_chunks s)"
  by (simp add: delete_chunk_def exec_with_retry_def)

lemma fsck_fix_rows:
  "st_chunks (snd (fsck_fix issues n s)) =
     del_where (\<lambda>r. \<exists>iu\<in>set issues. fi_kind iu = IssueMissing \<and> ckey r = (ch_ino (fi_chunk iu), ch_idx (fi_chunk iu))) (st_chunks s)"
proof (induction issues n s rule: fsck_fix.induct)
  case (1 n s) show ?case by (simp add: del_where_def)
next
  case (2 iu ius n s)
  obtain r s1 where d: "delete_chunk (ch_ino (fi_chunk iu)) (ch_idx (fi_chunk iu)) s = (r, s1)" by (metis prod.collapse)
  have s1: "st_chunks s1 = del_where (\<lambda>r. ckey r = (ch_ino (fi_chunk iu), ch_idx (fi_chunk iu))) (st_chunks s)"
    using delete_chunk_rows [of "ch_ino (fi_chunk iu)" "ch_idx (fi_chunk iu)" s] d by simp
  show ?case
  proof (cases "fi_kind iu = IssueMissing")
    case False then show ?thesis using 2(1) by simp
  next
    case True
    then have "st_chunks (snd (fsck_fix (iu # ius) n s)) =
        del_where (\<lambda>r. \<exists>iu\<in>set ius. fi_kind iu = IssueMissing \<and> ckey r = (ch_ino (fi_chunk iu), ch_idx (fi_chunk iu))) (st_chunks s1)"
      using 2(2,3) d by (cases r) auto
    then show ?thesis unfolding s1 using True by (auto simp: del_where_def intro: filter_cong)
  qed
qed

lemma fsck_fixed:
  assumes "cmdFsck A (Inr ci) dl True stop_on s = (r, s')" "stop_on \<le> 0"
  shows "st_chunks s' = del_where (\<lambda>r. \<exists>j<length (all_chunks s). (\<exists>e. dl j (ch_msg (all_chunks s ! j)) = Inl e) \<and>
      ckey r = (ch_ino (all_chunks s ! j), ch_idx (all_chunks s ! j))) (st_chunks s)"
proof -
  let ?cs = "all_chunks s"
  let ?is = "fsck_walk A ci dl stop_on 0 ?cs []"
  have w: "set ?is = {iu. \<exists>j<length ?cs. fsck_check A ci (dl j (ch_msg (?cs ! j))) (?cs ! j) = Some iu}"
    unfolding fsck_walk_all [OF assms(2)] by (fastforce simp: set_map_filter set_zip)
  have missing: "(\<exists>iu\<in>set ?is. fi_kind iu = IssueMissing \<and> ckey r = (ch_ino (fi_chunk iu), ch_idx (fi_chunk iu))) \<longleftrightarrow>
      (\<exists>j<length ?cs. (\<exists>e. dl j (ch_msg (?cs ! j)) = Inl e) \<and> ckey r = (ch_ino (?cs ! j), ch_idx (?cs ! j)))" for r
    unfolding w by (fastforce simp: fsck_check_def split: sum.splits if_splits)
  obtain n s1 where f: "fsck_fix ?is 0 s = (n, s1)" by (metis prod.collapse)
  have "?cs = [] \<Longrightarrow> st_chunks s' = st_chunks s" "?cs \<noteq> [] \<Longrightarrow> ?is = [] \<Longrightarrow> st_chunks s' = st_chunks s" "?cs \<noteq> [] \<Longrightarrow> ?is \<noteq> [] \<Longrightarrow> s' = s1"
    using assms(1) f by (auto simp: cmdFsck_def Let_def)
  moreover have "st_chunks s1 = del_where (\<lambda>r. \<exists>iu\<in>set ?is. fi_kind iu = IssueMissing \<and> ckey r = (ch_ino (fi_chunk iu), ch_idx (fi_chunk iu))) (st_chunks s)"
    using fsck_fix_rows [of ?is 0 s] f by simp
  moreover have "?is = [] \<Longrightarrow> st_chunks s = del_where (\<lambda>r. \<exists>iu\<in>set ?is. fi_kind iu = IssueMissing \<and> ckey r = (ch_ino (fi_chunk iu), ch_idx (fi_chunk iu))) (st_chunks s)"
    by (simp add: del_where_def)
  moreover have "?cs = [] \<Longrightarrow> ?is = []" by simp
  ultimately show ?thesis unfolding missing by metis
qed

lemma all_chunks_set: "set (all_chunks s) = chunk_of_row ` set (st_chunks s)"
  by (simp add: all_chunks_def)

text \<open>The repair of \<open>fsck\<close> drops exactly the rows of the chunks it could not download.  It asks for no reason:
  a lost connection drops the row of an intact chunk.  A chunk that does not decrypt or has the wrong
  size keeps its row.
\<close>
theorem fsck_drops_what_it_cannot_fetch:
  assumes "cmdFsck A (Inr ci) dl True stop_on s = (r, s')" "stop_on \<le> 0" "keyed ckey (st_chunks s)"
  shows "set (st_chunks s') = {r \<in> set (st_chunks s). \<forall>j<length (all_chunks s). all_chunks s ! j = chunk_of_row r \<longrightarrow> is_ok (dl j (c_msg r))}"
proof -
  have key: "a = chunk_of_row r" if "a \<in> set (all_chunks s)" "r \<in> set (st_chunks s)" "ckey r = (ch_ino a, ch_idx a)" for a r
  proof -
    have "a \<in> chunk_of_row ` set (st_chunks s)" using that(1) by (simp add: all_chunks_set)
    then obtain r' where "r' \<in> set (st_chunks s)" "a = chunk_of_row r'" by blast
    then show ?thesis using keyed_unique [OF assms(3)] that(2,3) by (auto simp: chunk_of_row_def)
  qed
  have ok: "is_ok x \<longleftrightarrow> (\<nexists>e. x = Inl e)" for x :: "string + bytes" by (cases x) auto
  have "(\<exists>j<length (all_chunks s). (\<exists>e. dl j (ch_msg (all_chunks s ! j)) = Inl e) \<and> ckey r = (ch_ino (all_chunks s ! j), ch_idx (all_chunks s ! j))) \<longleftrightarrow>
      \<not> (\<forall>j<length (all_chunks s). all_chunks s ! j = chunk_of_row r \<longrightarrow> is_ok (dl j (c_msg r)))" if "r \<in> set (st_chunks s)" for r
    unfolding ok using key [OF nth_mem that] by (auto simp: chunk_of_row_def) (metis chunk.select_convs)+
  then show ?thesis unfolding fsck_fixed [OF assms(1,2)] del_where_def by auto
qed

text \<open>The walk takes the whole message for the chunk: without a cipher every chunk that shares its message with
  others is reported as having the wrong size, although its bytes are all there.
\<close>
theorem fsck_flags_healthy_packed_chunks:
  assumes "cmdFsck A (Inr NoopCipher) dl False stop_on s = (r, s')" "stop_on \<le> 0"
    "c \<in> set (all_chunks s)" "\<forall>j<length (all_chunks s). all_chunks s ! j = c \<longrightarrow> dl j (ch_msg c) = Inr blob"
    "is_packed c" "ch_size c = ch_pack_size c" "0 \<le> ch_pack_offset c" "ch_pack_offset c + ch_pack_size c \<le> blen blob"
    "ch_pack_size c < blen blob" "blen blob < 2 ^ 31"
  shows "\<exists>issues. r = FsckReport issues \<and> \<lparr>fi_kind = IssueSize, fi_chunk = c, fi_want = ch_size c, fi_got = blen blob\<rparr> \<in> set issues"
proof -
  let ?cs = "all_chunks s"
  let ?is = "fsck_walk A NoopCipher dl stop_on 0 ?cs []"
  obtain j where j: "j < length ?cs" "?cs ! j = c" using assms(3) by (auto simp: in_set_conv_nth)
  have "blen blob \<noteq> ch_size c" "to_int32 (blen blob) = blen blob" using assms(5-10) by (simp_all add: to_int32_id is_packed_def)
  then have "fsck_check A NoopCipher (dl j (ch_msg c)) c = Some \<lparr>fi_kind = IssueSize, fi_chunk = c, fi_want = ch_size c, fi_got = blen blob\<rparr>"
    using assms(4) j by (simp add: fsck_check_def cipher_open_def)
  then have i: "\<lparr>fi_kind = IssueSize, fi_chunk = c, fi_want = ch_size c, fi_got = blen blob\<rparr> \<in> set ?is"
    unfolding fsck_walk_all [OF assms(2)] using j by (force simp: set_map_filter set_zip)
  then have "?is \<noteq> []" "?cs \<noteq> []" using assms(3) by auto
  then have "r = FsckReport ?is" using assms(1) by (auto simp: cmdFsck_def Let_def)
  then show ?thesis using i by blast
qed

section \<open>Witnesses\<close>

text \<open>A channel of two instances; the chunk 2 belongs to the other one.\<close>

abbreviation chunk_msg :: "int \<Rightarrow> chan_msg" where
  "chunk_msg i \<equiv> \<lparr>cm_id = i, cm_message = True, cm_doc = True, cm_caption = CapBlank\<rparr>"

definition shared_channel :: snap_channel where
  "shared_channel = \<lparr>sn_msgs = [\<lparr>cm_id = 9, cm_message = True, cm_doc = True, cm_caption = CapSnap \<lparr>sc_seq = 4, sc_ts = 0, sc_uuid = ''uuid''\<rparr>\<rparr>,
     pin_msg 8, snap_msg 7 3, chunk_msg 2], sn_files = []\<rparr>"

definition gc_demo_env :: gc_env where
  "gc_demo_env = \<lparr>ge_mounted = False, ge_now = 0, ge_date = (\<lambda>_. 0), ge_history = get_history, ge_mid = id, ge_later = id, ge_delete = (\<lambda>_. None)\<rparr>"

definition gc_demo_opts :: gc_opts where "gc_demo_opts = \<lparr>gc_yes = True, gc_pages = 1, gc_min_age = 0\<rparr>"

lemma shared_sorted: "sorted_ids (sn_msgs shared_channel)"
  by (simp add: sorted_ids_def shared_channel_def)

lemma gc_demo_honest: "honest_history 100 (ge_history gc_demo_env (sn_msgs ch)) (sn_msgs ch)"
  by (simp add: gc_demo_env_def get_history_honest)

lemma gc_demo_run: "case fst (cmdGC gc_demo_env gc_demo_opts demo0 shared_channel) of GcDone g \<Rightarrow> gs_orphans g = [2] \<and> gs_foreign g = 1 | _ \<Rightarrow> False"
  by code_simp

lemma gc_demo_store: "fs_uuid demo0 = Inr ''uuid''" "all_chunk_message_ids demo0 = []" "map cm_id (sn_msgs (snd (snd (cmdGC gc_demo_env gc_demo_opts demo0 shared_channel)))) = [9, 8, 7]"
  by code_simp+

lemma gc_demo_done:
  obtains g s' ch' where "cmdGC gc_demo_env gc_demo_opts demo0 shared_channel = (GcDone g, s', ch')" "map cm_id (sn_msgs ch') = [9, 8, 7]" "gs_foreign g = 1"
proof (cases "cmdGC gc_demo_env gc_demo_opts demo0 shared_channel")
  case (fields r s' ch')
  then show ?thesis using gc_demo_run gc_demo_store(3) that by (auto split: gc_result.splits)
qed


lemma gc_deletes_foreign_chunks_witness:
  "\<exists>g s' ch'. cmdGC gc_demo_env gc_demo_opts demo0 shared_channel = (GcDone g, s', ch') \<and> gs_foreign g = 1 \<and> chunk_msg 2 \<notin> set (sn_msgs ch')"
proof -
  obtain g s' ch' where run: "cmdGC gc_demo_env gc_demo_opts demo0 shared_channel = (GcDone g, s', ch')" "gs_foreign g = 1"
    by (rule gc_demo_done)
  have "0 < gc_pages gc_demo_opts" "chunk_msg 2 \<in> set (take (100 * nat (gc_pages gc_demo_opts)) (sn_msgs shared_channel))"
      "classify_message (chunk_msg 2) = KindChunk" "\<not> too_young (age_cutoff (ge_now gc_demo_env) (gc_min_age gc_demo_opts)) (ge_date gc_demo_env (cm_id (chunk_msg 2)))"
    by (simp_all add: gc_demo_opts_def shared_channel_def classify_message_def too_young_def gc_demo_env_def)
  then show ?thesis
    using gc_deletes_foreign_chunks [OF run(1) shared_sorted gc_demo_honest _ gc_demo_store(1), of "chunk_msg 2"] gc_demo_store(2) run
    by (simp add: gc_demo_env_def)
qed

text \<open>Two chunks in one message; the second download fails.\<close>

definition fsck_demo :: store where
  "fsck_demo = demo\<lparr>st_chunks := [\<lparr>c_ino = 3, c_idx = 0, c_msg = 5, c_size = 2, c_pack = Some (0, 2)\<rparr>,
     \<lparr>c_ino = 3, c_idx = 1, c_msg = 5, c_size = 1, c_pack = Some (2, 1)\<rparr>]\<rparr>"

abbreviation fsck_dl :: "nat \<Rightarrow> int \<Rightarrow> string + bytes" where
  "fsck_dl j msg \<equiv> (if j = 0 then Inr [1, 2, 3] else Inl ''connection reset'')"

lemma fsck_demo_chunks: "all_chunks fsck_demo = [\<lparr>ch_ino = 3, ch_idx = 0, ch_msg = 5, ch_size = 2, ch_pack_offset = 0, ch_pack_size = 2\<rparr>,
    \<lparr>ch_ino = 3, ch_idx = 1, ch_msg = 5, ch_size = 1, ch_pack_offset = 2, ch_pack_size = 1\<rparr>]"
  by code_simp

lemma fsck_drops_what_it_cannot_fetch_witness:
  "\<exists>r s'. cmdFsck demo_aead (Inr NoopCipher) fsck_dl True 0 fsck_demo = (r, s') \<and> c_idx ` set (st_chunks s') = {0}"
proof -
  obtain r s' where run: "cmdFsck demo_aead (Inr NoopCipher) fsck_dl True 0 fsck_demo = (r, s')" by (metis prod.collapse)
  have k: "keyed ckey (st_chunks fsck_demo)" by (simp add: keyed_def fsck_demo_def)
  have "set (st_chunks s') = {r \<in> set (st_chunks fsck_demo). \<forall>j<length (all_chunks fsck_demo). all_chunks fsck_demo ! j = chunk_of_row r \<longrightarrow> is_ok (fsck_dl j (c_msg r))}"
    by (rule fsck_drops_what_it_cannot_fetch [OF run order_refl k])
  also have "\<dots> = {\<lparr>c_ino = 3, c_idx = 0, c_msg = 5, c_size = 2, c_pack = Some (0, 2)\<rparr>}"
    unfolding fsck_demo_chunks by (auto simp: fsck_demo_def chunk_of_row_def less_Suc_eq)
  finally show ?thesis using run by (intro exI [of _ r] exI [of _ s']) simp
qed

lemma fsck_flags_healthy_packed_chunks_witness:
  "\<exists>r s' issues. cmdFsck demo_aead (Inr NoopCipher) (\<lambda>_ _. Inr [1, 2, 3]) False 0 fsck_demo = (r, s') \<and> r = FsckReport issues \<and> fi_got ` set issues \<supseteq> {3}"
proof -
  obtain r s' where run: "cmdFsck demo_aead (Inr NoopCipher) (\<lambda>_ _. Inr [1, 2, 3]) False 0 fsck_demo = (r, s')" by (metis prod.collapse)
  let ?c = "\<lparr>ch_ino = 3, ch_idx = 1, ch_msg = 5, ch_size = 1, ch_pack_offset = 2, ch_pack_size = 1\<rparr>"
  have "?c \<in> set (all_chunks fsck_demo)" by (simp add: fsck_demo_chunks)
  then obtain issues where "r = FsckReport issues" "\<lparr>fi_kind = IssueSize, fi_chunk = ?c, fi_want = 1, fi_got = 3\<rparr> \<in> set issues"
    using fsck_flags_healthy_packed_chunks [OF run order_refl, of ?c "[1, 2, 3]"] by (auto simp: is_packed_def blen_def)
  then show ?thesis using run by force
qed

end
