(* ===== verification/Prefetch.thy ===== *)
theory Prefetch
  imports Cache MetaTables "HOL-Library.AList"
begin

text \<open>
  Reading ahead inside packed blobs (\<open>internal/chunk/blobprefetch.go\<close>) and the splitting of a stream
  into chunks (\<open>internal/chunk/chunker.go\<close>).  The prefetcher keeps, per message, the byte ranges a span
  has covered; a miss outside them is queued, and the worker downloads one range of the blob and
  lands the extents it decodes in the cache of \<open>Cache\<close>.  The ranged download, the cancellation and what
  other goroutines do to the cache meanwhile are parameters.
\<close>

section \<open>The spans\<close>

definition DefaultBlobPrefetchBudget :: int where "DefaultBlobPrefetchBudget = 4194304"
definition blobPrefetchMaxExtents :: nat where "blobPrefetchMaxExtents = 2048"

text \<open>A half-open range, and a queued span: message and offset.\<close>

type_synonym interval = "int \<times> int"
type_synonym blob_span = "int \<times> int"

record prefetcher =
  bp_budget :: int
  bp_queue :: "blob_span list"
  bp_covered :: "(int \<times> interval list) list"

definition new_blob_prefetcher :: "int \<Rightarrow> prefetcher" where
  "new_blob_prefetcher budget = \<lparr>bp_budget = (if budget \<le> 0 then DefaultBlobPrefetchBudget else budget), bp_queue = [], bp_covered = []\<rparr>"

definition covered_at :: "int \<Rightarrow> prefetcher \<Rightarrow> interval list" where
  "covered_at msg p = (case map_of (bp_covered p) msg of None \<Rightarrow> [] | Some ivs \<Rightarrow> ivs)"

definition provisional :: "int \<Rightarrow> prefetcher \<Rightarrow> interval" where
  "provisional off p = (off, off + bp_budget p)"

definition add_covered :: "int \<Rightarrow> interval \<Rightarrow> prefetcher \<Rightarrow> prefetcher" where
  "add_covered msg iv p =
     (let ivs0 = covered_at msg p @ [iv];
          ivs = (if length ivs0 > 16 then drop (length ivs0 - 16) ivs0 else ivs0);
          base = (if length (bp_covered p) > 64 then [] else bp_covered p)
      in p\<lparr>bp_covered := AList.update msg ivs base\<rparr>)"

definition remove_covered :: "int \<Rightarrow> interval \<Rightarrow> prefetcher \<Rightarrow> prefetcher" where
  "remove_covered msg iv p =
     (if iv \<in> set (covered_at msg p) then p\<lparr>bp_covered := AList.update msg (remove1 iv (covered_at msg p)) (bp_covered p)\<rparr> else p)"

definition replace_covered :: "int \<Rightarrow> interval \<Rightarrow> interval \<Rightarrow> prefetcher \<Rightarrow> prefetcher" where
  "replace_covered msg prov actual p =
     (let p1 = remove_covered msg prov p in if snd actual > fst actual then add_covered msg actual p1 else p1)"

text \<open>
  \<open>Note\<close> in its two critical sections: covering the miss, and the send that may find the queue full.
  The first answers whether a span is to be sent.
\<close>

definition note_cover :: "int \<Rightarrow> int \<Rightarrow> prefetcher \<Rightarrow> bool \<times> prefetcher" where
  "note_cover msg off p =
     (if list_ex (\<lambda>iv. off \<ge> fst iv \<and> off < snd iv) (covered_at msg p) then (False, p)
      else (True, add_covered msg (provisional off p) p))"

definition note_send :: "int \<Rightarrow> int \<Rightarrow> prefetcher \<Rightarrow> prefetcher" where
  "note_send msg off p =
     (if length (bp_queue p) < 32 then p\<lparr>bp_queue := bp_queue p @ [(msg, off)]\<rparr>
      else remove_covered msg (provisional off p) p)"

definition take_span :: "prefetcher \<Rightarrow> (blob_span \<times> prefetcher) option" where
  "take_span p = (case bp_queue p of [] \<Rightarrow> None | sp # rest \<Rightarrow> Some (sp, p\<lparr>bp_queue := rest\<rparr>))"

section \<open>One span\<close>

definition chunk_key :: "chunk \<Rightarrow> ckey" where "chunk_key c = Key (ch_ino c) (ch_idx c)"

definition span_todo :: "int \<Rightarrow> cache \<Rightarrow> chunk list \<Rightarrow> chunk list" where
  "span_todo limit c rows =
     filter (\<lambda>r. \<not> (ch_pack_size r \<le> 0 \<or> ch_pack_offset r + ch_pack_size r > limit) \<and> \<not> cache_has (chunk_key r) c) rows"

text \<open>\<open>raw[lo:hi]\<close>; out of range it panics.\<close>

definition go_slice :: "bytes \<Rightarrow> int \<Rightarrow> int \<Rightarrow> bytes option" where
  "go_slice b lo hi = (if 0 \<le> lo \<and> lo \<le> hi \<and> hi \<le> blen b then Some (take (nat (hi - lo)) (drop (nat lo) b)) else None)"

text \<open>
  Landing the extents: \<open>mid i\<close> is what others do to the cache before the \<open>i\<close>-th one, \<open>stop i\<close> the context.
  None is the panic of the slice.
\<close>

fun land_extents :: "cache_cfg \<Rightarrow> (nat \<Rightarrow> attempt_env) \<Rightarrow> (nat \<Rightarrow> cache \<Rightarrow> cache) \<Rightarrow> (nat \<Rightarrow> bool) \<Rightarrow> int \<Rightarrow> bytes \<Rightarrow> nat \<Rightarrow> chunk list
    \<Rightarrow> nat \<Rightarrow> cache \<Rightarrow> (nat \<times> cache) option" where
  "land_extents cfg env mid stop start wire i [] warmed c = Some (warmed, c)"
| "land_extents cfg env mid stop start wire i (r # rs) warmed c =
     (if stop i then Some (warmed, c)
      else
        (let c1 = mid i c in
         if cache_has (chunk_key r) c1 then land_extents cfg env mid stop start wire (i + 1) rs warmed c1
         else
           (let rel = ch_pack_offset r - start in
            case go_slice wire rel (rel + ch_pack_size r) of
              None \<Rightarrow> None
            | Some w \<Rightarrow>
                (case decode_wire cfg (chunk_key r) w of
                   Inl _ \<Rightarrow> land_extents cfg env mid stop start wire (i + 1) rs warmed c1
                 | Inr d \<Rightarrow>
                     (case put_decoded (env i) (chunk_key r) d c1 of
                        (Inl _, c2) \<Rightarrow> land_extents cfg env mid stop start wire (i + 1) rs warmed c2
                      | (Inr _, c2) \<Rightarrow> land_extents cfg env mid stop start wire (i + 1) rs (warmed + 1) c2)))))"

record span_env =
  sp_rows :: "string + chunk list"
  sp_fetch :: "ckey \<Rightarrow> int \<Rightarrow> int \<Rightarrow> int \<Rightarrow> go_err + bytes"
  sp_put :: "nat \<Rightarrow> attempt_env"
  sp_mid :: "nat \<Rightarrow> cache \<Rightarrow> cache"
  sp_stop :: "nat \<Rightarrow> bool"

text \<open>The query of \<open>fetchSpan\<close>, when it succeeds.\<close>

definition span_rows :: "store \<Rightarrow> blob_span \<Rightarrow> chunk list" where
  "span_rows s sp = packed_extents_from (fst sp) (snd sp) blobPrefetchMaxExtents s"

definition fetch_span :: "cache_cfg \<Rightarrow> span_env \<Rightarrow> blob_span \<Rightarrow> prefetcher \<Rightarrow> cache \<Rightarrow> (prefetcher \<times> cache) option" where
  "fetch_span cfg E sp p c =
     (let msg = fst sp; off = snd sp; prov = provisional off p in
      case sp_rows E of
        Inl _ \<Rightarrow> Some (replace_covered msg prov (0, 0) p, c)
      | Inr rows \<Rightarrow>
          (let todo = span_todo (off + bp_budget p) c rows in
           if length todo < 2 then Some (p, c)
           else
             (let start = ch_pack_offset (hd todo);
                  fin = ch_pack_offset (last todo) + ch_pack_size (last todo) in
              case sp_fetch E (chunk_key (hd todo)) msg start (fin - start) of
                Inl _ \<Rightarrow> Some (replace_covered msg prov (0, 0) p, c)
              | Inr wire \<Rightarrow>
                  if blen wire < fin - start then Some (replace_covered msg prov (0, 0) p, c)
                  else map_option (\<lambda>(_, c1). (replace_covered msg prov (off, fin) p, c1))
                    (land_extents cfg (sp_put E) (sp_mid E) (sp_stop E) start wire 0 todo 0 c))))"

section \<open>The chunker\<close>

text \<open>A reader: the bytes it still gives, and how it ends, with EOF or another error.\<close>

record stream =
  rd_data :: bytes
  rd_err :: "string option"

datatype chunk_end = EOF | ReadErrd string

record chunker =
  ck_rd :: stream
  ck_size :: int
  ck_done :: bool

definition chunkerDefault :: int where "chunkerDefault = 4194304"

definition new_chunker :: "stream \<Rightarrow> int \<Rightarrow> chunker" where
  "new_chunker rd n = \<lparr>ck_rd = rd, ck_size = (if n \<le> 0 then chunkerDefault else n), ck_done = False\<rparr>"

text \<open>\<open>io.ReadFull\<close> and the branches of \<open>Next\<close> on its outcome.\<close>

definition chunker_next :: "chunker \<Rightarrow> (chunk_end + bytes) \<times> chunker" where
  "chunker_next k =
     (if ck_done k then (Inl EOF, k)
      else
        (let n = nat (ck_size k); d = rd_data (ck_rd k); k1 = k\<lparr>ck_rd := (ck_rd k)\<lparr>rd_data := drop n d\<rparr>\<rparr> in
         if n \<le> length d then (Inr (take n d), k1)
         else (case rd_err (ck_rd k) of
             Some e \<Rightarrow> (Inl (ReadErrd e), k1)
           | None \<Rightarrow> if d = [] then (Inl EOF, k1\<lparr>ck_done := True\<rparr>) else (Inr d, k1\<lparr>ck_done := True\<rparr>))))"

text \<open>The loop of a caller: chunks until the end.\<close>

function chunk_all :: "chunker \<Rightarrow> bytes list \<times> chunk_end" where
  "chunk_all k =
     (if ck_size k \<le> 0 then ([], EOF)
      else (case chunker_next k of
        (Inl e, _) \<Rightarrow> ([], e)
      | (Inr b, k1) \<Rightarrow> (case chunk_all k1 of (bs, e) \<Rightarrow> (b # bs, e))))"
  by pat_completeness auto
termination
  by (relation "measure (\<lambda>k. length (rd_data (ck_rd k)) + (if ck_done k then 0 else 1))")
    (auto simp: chunker_next_def Let_def split: if_splits option.splits)

declare chunk_all.simps [simp del]

section \<open>Memory\<close>

text \<open>The steps of the prefetcher in any order: callers of \<open>Note\<close> and the worker interleave freely.\<close>

inductive pf_step :: "prefetcher \<Rightarrow> prefetcher \<Rightarrow> bool" where
  cover: "pf_step p (snd (note_cover msg off p))"
| send: "pf_step p (note_send msg off p)"
| recv: "take_span p = Some (sp, p') \<Longrightarrow> pf_step p p'"
| covered: "pf_step p (replace_covered msg prov actual p)"

inductive pf_reach :: "int \<Rightarrow> prefetcher \<Rightarrow> bool" for budget where
  new: "pf_reach budget (new_blob_prefetcher budget)"
| step: "pf_reach budget p \<Longrightarrow> pf_step p p' \<Longrightarrow> pf_reach budget p'"

inductive_cases pf_stepE: "pf_step p p'"

definition pf_bounded :: "prefetcher \<Rightarrow> bool" where
  "pf_bounded p \<longleftrightarrow> length (bp_queue p) \<le> 32 \<and> length (bp_covered p) \<le> 65 \<and> (\<forall>e\<in>set (bp_covered p). length (snd e) \<le> 16)"

lemma length_alist_update: "length (AList.update k v es) = (if k \<in> fst ` set es then length es else length es + 1)"
  by (induction es) auto

lemma set_alist_update: "e \<in> set (AList.update k v es) \<Longrightarrow> e = (k, v) \<or> e \<in> set es"
  by (induction es) (auto split: if_splits)

lemma covered_at_bounded: "pf_bounded p \<Longrightarrow> length (covered_at msg p) \<le> 16"
  by (auto simp: pf_bounded_def covered_at_def split: option.split dest!: map_of_SomeD)

lemma covered_at_Some: "x \<in> set (covered_at msg p) \<Longrightarrow> msg \<in> fst ` set (bp_covered p)"
  by (cases "map_of (bp_covered p) msg") (auto simp: covered_at_def dest!: map_of_SomeD intro: rev_image_eqI)

lemma add_covered_bounded:
  assumes "pf_bounded p"
  shows "pf_bounded (add_covered msg iv p)"
  using assms covered_at_bounded [OF assms, of msg]
  by (auto simp: pf_bounded_def add_covered_def Let_def length_alist_update dest!: set_alist_update)

lemma remove_covered_bounded:
  assumes "pf_bounded p"
  shows "pf_bounded (remove_covered msg iv p)"
proof -
  have "length (remove1 iv (covered_at msg p)) \<le> 16" using covered_at_bounded [OF assms, of msg] by (auto simp: length_remove1)
  then show ?thesis using assms covered_at_Some [of iv msg p]
    by (auto simp: pf_bounded_def remove_covered_def length_alist_update dest!: set_alist_update)
qed

lemma pf_step_bounded: "pf_step p p' \<Longrightarrow> pf_bounded p \<Longrightarrow> pf_bounded p'"
proof (elim pf_stepE)
  fix msg off assume b: "pf_bounded p" and p: "p' = note_send msg off p"
  show "pf_bounded p'"
  proof (cases "length (bp_queue p) < 32")
    case True then show ?thesis using b p by (simp add: note_send_def pf_bounded_def)
  qed (use b p remove_covered_bounded in \<open>simp add: note_send_def\<close>)
qed (auto simp: note_cover_def take_span_def replace_covered_def Let_def pf_bounded_def [of "_\<lparr>bp_queue := _\<rparr>"]
    add_covered_bounded remove_covered_bounded split: list.splits, auto simp: pf_bounded_def)

text \<open>However many misses are noted and in whatever order the calls and the worker interleave, the
  prefetcher keeps at most 32 queued spans, 65 messages and 16 ranges of each.
\<close>
theorem prefetch_memory_bounded:
  assumes "pf_reach budget p"
  shows "length (bp_queue p) \<le> 32 \<and> length (bp_covered p) \<le> 65 \<and> (\<forall>msg. length (covered_at msg p) \<le> 16)"
proof -
  have "pf_bounded p" using assms
    by (induction rule: pf_reach.induct) (auto simp: pf_bounded_def new_blob_prefetcher_def dest: pf_step_bounded [unfolded pf_bounded_def])
  then show ?thesis using covered_at_bounded by (auto simp: pf_bounded_def)
qed

section \<open>What a span puts into the cache\<close>

text \<open>The extents of the blob decode to the content of their chunks, and the ranged download is exact.\<close>

definition blob_holds :: "(ckey \<Rightarrow> bytes) \<Rightarrow> cache_cfg \<Rightarrow> bytes \<Rightarrow> chunk list \<Rightarrow> bool" where
  "blob_holds D cfg blob rows \<longleftrightarrow> (\<forall>r\<in>set rows. \<forall>w d. go_slice blob (ch_pack_offset r) (ch_pack_offset r + ch_pack_size r) = Some w \<longrightarrow>
     decode_wire cfg (chunk_key r) w = Inr d \<longrightarrow> d = D (chunk_key r))"

definition exact_fetch :: "bytes \<Rightarrow> span_env \<Rightarrow> bool" where
  "exact_fetch blob E \<longleftrightarrow> (\<forall>k msg off n b. sp_fetch E k msg off n = Inr b \<longrightarrow> b = take (nat n) (drop (nat off) blob))"

definition others_coherent :: "(ckey \<Rightarrow> bytes) \<Rightarrow> span_env \<Rightarrow> bool" where
  "others_coherent D E \<longleftrightarrow> (\<forall>i c. coherent D c \<and> cache_ok c \<longrightarrow> coherent D (sp_mid E i c) \<and> cache_ok (sp_mid E i c))"

text \<open>Extents begin and end in the same order, as the packer lays them out (two rows may share one extent).\<close>

definition extents_ordered :: "chunk list \<Rightarrow> bool" where
  "extents_ordered rows \<longleftrightarrow> sorted_wrt (\<lambda>a b. ch_pack_offset a \<le> ch_pack_offset b \<and> ch_pack_offset a + ch_pack_size a \<le> ch_pack_offset b + ch_pack_size b) rows \<and>
     (\<forall>r\<in>set rows. 0 \<le> ch_pack_offset r)"

lemma slice_of_range:
  assumes "0 \<le> start" "start \<le> lo" "lo < hi" "hi \<le> fin" "fin - start \<le> blen (take (nat (fin - start)) (drop (nat start) blob))"
  shows "go_slice (take (nat (fin - start)) (drop (nat start) blob)) (lo - start) (hi - start) = go_slice blob lo hi"
    "go_slice (take (nat (fin - start)) (drop (nat start) blob)) (lo - start) (hi - start) \<noteq> None"
proof -
  let ?w = "take (nat (fin - start)) (drop (nat start) blob)"
  have "nat (fin - start) \<le> length blob - nat start" using assms(5) by (simp add: blen_def nat_le_iff)
  then have len: "fin \<le> blen blob" using assms(1-4) by (simp add: blen_def)
  have "take (nat (hi - start - (lo - start))) (drop (nat (lo - start)) ?w) = take (nat (hi - lo)) (drop (nat lo) blob)"
  proof -
    have "nat (lo - start) + nat start = nat lo" "nat (hi - lo) \<le> nat (fin - start) - nat (lo - start)" using assms by linarith+
    then show ?thesis by (simp add: drop_take min_absorb1)
  qed
  moreover have "hi - start \<le> blen ?w" using assms(4,5) by linarith
  ultimately show "go_slice ?w (lo - start) (hi - start) = go_slice blob lo hi" "go_slice ?w (lo - start) (hi - start) \<noteq> None"
    using assms len by (simp_all add: go_slice_def)
qed

lemma put_decoded_ok: "coherent D c \<Longrightarrow> cache_ok c \<Longrightarrow> d = D k \<Longrightarrow> put_decoded E k d c = (r, c') \<Longrightarrow> coherent D c' \<and> cache_ok c'"
  using store_decoded_ok [of D c d k E r c'] by (simp add: put_decoded_def split: if_splits)

lemma land_extents_ok:
  assumes "others_coherent D E"
    "\<forall>r\<in>set rs. \<exists>w. go_slice wire (ch_pack_offset r - start) (ch_pack_offset r - start + ch_pack_size r) = Some w \<and>
       (\<forall>d. decode_wire cfg (chunk_key r) w = Inr d \<longrightarrow> d = D (chunk_key r))"
    "coherent D c" "cache_ok c"
  shows "\<exists>n c'. land_extents cfg (sp_put E) (sp_mid E) (sp_stop E) start wire i rs warmed c = Some (n, c') \<and> coherent D c' \<and> cache_ok c'"
  using assms(2-4)
proof (induction rs arbitrary: i warmed c)
  case (Cons r rs)
  let ?c = "sp_mid E i c"
  have c1: "coherent D ?c" "cache_ok ?c" using assms(1) Cons.prems(2,3) by (auto simp: others_coherent_def)
  obtain w where w: "go_slice wire (ch_pack_offset r - start) (ch_pack_offset r - start + ch_pack_size r) = Some w"
      "\<forall>d. decode_wire cfg (chunk_key r) w = Inr d \<longrightarrow> d = D (chunk_key r)" using Cons.prems(1) by auto
  have rest: "\<forall>r\<in>set rs. \<exists>w. go_slice wire (ch_pack_offset r - start) (ch_pack_offset r - start + ch_pack_size r) = Some w \<and>
       (\<forall>d. decode_wire cfg (chunk_key r) w = Inr d \<longrightarrow> d = D (chunk_key r))" using Cons.prems(1) by simp
  show ?case
  proof (cases "sp_stop E i \<or> cache_has (chunk_key r) ?c")
    case True
    then show ?thesis using Cons.IH [OF rest c1] Cons.prems(2,3) by (auto simp: Let_def)
  next
    case False
    show ?thesis
    proof (cases "decode_wire cfg (chunk_key r) w")
      case (Inl e)
      then show ?thesis using Cons.IH [OF rest c1] w(1) False by (simp add: Let_def)
    next
      case (Inr d)
      obtain x c2 where put: "put_decoded (sp_put E i) (chunk_key r) d ?c = (x, c2)" by (metis prod.collapse)
      have "coherent D c2" "cache_ok c2" using put_decoded_ok [OF c1 _ put] w(2) Inr by auto
      then show ?thesis using Cons.IH [OF rest] put w(1) Inr False by (cases x) (simp_all add: Let_def)
    qed
  qed
qed simp

lemma ordered_ends:
  assumes "extents_ordered rs" "r \<in> set rs"
  shows "0 \<le> ch_pack_offset (hd rs)" "ch_pack_offset (hd rs) \<le> ch_pack_offset r"
    "ch_pack_offset r + ch_pack_size r \<le> ch_pack_offset (last rs) + ch_pack_size (last rs)"
proof -
  have ne: "rs \<noteq> []" using assms(2) by auto
  show "0 \<le> ch_pack_offset (hd rs)" using assms(1) ne by (simp add: extents_ordered_def)
  have s: "sorted_wrt (\<lambda>a b. ch_pack_offset a \<le> ch_pack_offset b \<and> ch_pack_offset a + ch_pack_size a \<le> ch_pack_offset b + ch_pack_size b) rs"
    using assms(1) by (simp add: extents_ordered_def)
  show "ch_pack_offset (hd rs) \<le> ch_pack_offset r" using s assms(2) ne by (cases rs) auto
  have "rs = butlast rs @ [last rs]" using ne by simp
  then have "sorted_wrt (\<lambda>a b. ch_pack_offset a \<le> ch_pack_offset b \<and> ch_pack_offset a + ch_pack_size a \<le> ch_pack_offset b + ch_pack_size b) (butlast rs @ [last rs])"
    "r \<in> set (butlast rs @ [last rs])" using s assms(2) by simp_all
  then show "ch_pack_offset r + ch_pack_size r \<le> ch_pack_offset (last rs) + ch_pack_size (last rs)"
    unfolding sorted_wrt_append by auto
qed

text \<open>C29.  Over a coherent cache a span ends without a panic and leaves the cache coherent, whatever is cancelled,
  fails, or is done to the cache by coherent others meanwhile.
\<close>
theorem prefetch_keeps_cache_coherent:
  assumes "sp_rows E = Inr (span_rows s sp)" "extents_ordered (span_rows s sp)" "blob_holds D cfg blob (span_rows s sp)"
    "exact_fetch blob E" "others_coherent D E" "coherent D c" "cache_ok c"
  shows "\<exists>p' c'. fetch_span cfg E sp p c = Some (p', c') \<and> coherent D c' \<and> cache_ok c'"
proof -
  let ?todo = "span_todo (snd sp + bp_budget p) c (span_rows s sp)"
  let ?start = "ch_pack_offset (hd ?todo)" and ?fin = "ch_pack_offset (last ?todo) + ch_pack_size (last ?todo)"
  have ord: "extents_ordered ?todo" using assms(2) by (auto simp: extents_ordered_def span_todo_def sorted_wrt_filter)
  have pos: "0 < ch_pack_size r \<and> r \<in> set (span_rows s sp)" if "r \<in> set ?todo" for r using that by (auto simp: span_todo_def)
  show ?thesis
  proof (cases "length ?todo < 2")
    case True then show ?thesis using assms(1,6,7) by (simp add: fetch_span_def Let_def)
  next
    case many: False
    show ?thesis
    proof (cases "sp_fetch E (chunk_key (hd ?todo)) (fst sp) ?start (?fin - ?start)")
      case (Inl e) then show ?thesis using assms(1,6,7) many by (simp add: fetch_span_def Let_def)
    next
      case (Inr wire)
      then have wire: "wire = take (nat (?fin - ?start)) (drop (nat ?start) blob)" using assms(4) by (auto simp: exact_fetch_def)
      show ?thesis
      proof (cases "blen wire < ?fin - ?start")
        case True then show ?thesis using Inr assms(1,6,7) many by (simp add: fetch_span_def Let_def)
      next
        case False
        have "\<exists>w. go_slice wire (ch_pack_offset r - ?start) (ch_pack_offset r - ?start + ch_pack_size r) = Some w \<and>
            (\<forall>d. decode_wire cfg (chunk_key r) w = Inr d \<longrightarrow> d = D (chunk_key r))" if r: "r \<in> set ?todo" for r
        proof -
          note sl = slice_of_range [OF ordered_ends(1,2) [OF ord r] _ ordered_ends(3) [OF ord r], of blob, folded wire]
          have "ch_pack_offset r < ch_pack_offset r + ch_pack_size r" "?fin - ?start \<le> blen wire" using pos [OF r] False by auto
          note sl = sl [OF this]
          have e: "ch_pack_offset r - ?start + ch_pack_size r = ch_pack_offset r + ch_pack_size r - ?start" by simp
          show ?thesis unfolding e using sl assms(3) pos [OF r] unfolding blob_holds_def by (metis not_None_eq)
        qed
        then obtain n c' where "land_extents cfg (sp_put E) (sp_mid E) (sp_stop E) ?start wire 0 ?todo 0 c = Some (n, c')" "coherent D c'" "cache_ok c'"
          using land_extents_ok [OF assms(5) _ assms(6,7)] by blast
        then show ?thesis using Inr False assms(1) many by (simp add: fetch_span_def Let_def)
      qed
    qed
  qed
qed

section \<open>Stale landings\<close>

text \<open>Two extents of message 9; while they are downloaded a write replaces the first chunk and the cache forgets it.\<close>

definition two_extents :: "chunk list" where
  "two_extents = [\<lparr>ch_ino = 5, ch_idx = 0, ch_msg = 9, ch_size = 2, ch_pack_offset = 0, ch_pack_size = 2\<rparr>,
     \<lparr>ch_ino = 5, ch_idx = 1, ch_msg = 9, ch_size = 1, ch_pack_offset = 2, ch_pack_size = 1\<rparr>]"

definition overwrite_env :: "bool \<Rightarrow> span_env" where
  "overwrite_env ow = \<lparr>sp_rows = Inr two_extents, sp_fetch = (\<lambda>_ _ off n. Inr (take (nat n) (drop (nat off) [1, 2, 3]))), sp_put = demo_env 0,
     sp_mid = (\<lambda>i c. if ow \<and> i = 0 then snd (cache_invalidate (Key 5 0) c) else c), sp_stop = (\<lambda>_. False)\<rparr>"

lemma overwritten_lookup:
  "case fetch_span demo_cfg (overwrite_env True) (9, 0) (new_blob_prefetcher 100) demo_cache of
     Some (p', c') \<Rightarrow> mem_lookup (dk_mem c') (Key 5 0) = Some [1, 2] | None \<Rightarrow> False"
  by code_simp

text \<open>A chunk that is overwritten while a span holding its old bytes is on the way is put into the cache as it
  was: after the span every read of it is answered from memory with the old bytes, whatever the channel
  and the chunk map say.
\<close>
theorem prefetch_serves_overwritten_chunk:
  "\<exists>p' c'. fetch_span demo_cfg (overwrite_env True) (9, 0) (new_blob_prefetcher 100) demo_cache = Some (p', c') \<and>
     (\<forall>cfg env msg po ps. fst (cache_get cfg env (Key 5 0) msg po ps c') = Inr [1, 2])"
proof -
  obtain p' c' where f: "fetch_span demo_cfg (overwrite_env True) (9, 0) (new_blob_prefetcher 100) demo_cache = Some (p', c')"
      "mem_lookup (dk_mem c') (Key 5 0) = Some [1, 2]"
    using overwritten_lookup by (auto split: option.splits)
  have "fst (cache_get cfg env (Key 5 0) msg po ps c') = Inr [1, 2]" for cfg env msg po ps
  proof -
    obtain m where "mc_get (Key 5 0) (dk_mem c') = (Some [1, 2], m)" using mc_get_fst [of "Key 5 0" "dk_mem c'"] f(2) by (metis prod.collapse)
    then show ?thesis by (simp add: cache_get_def)
  qed
  then show ?thesis using f(1) by blast
qed

section \<open>The chunks of a stream\<close>

lemma chunk_all_spec:
  assumes "0 < n" "ck_size k = int n" "\<not> ck_done k" "chunk_all k = (bs, e)" "d = rd_data (ck_rd k)"
  shows "(case rd_err (ck_rd k) of None \<Rightarrow> concat bs = d \<and> e = EOF | Some m \<Rightarrow> concat bs = take (n * (length d div n)) d \<and> e = ReadErrd m) \<and>
    (\<forall>b\<in>set bs. b \<noteq> [] \<and> length b \<le> n) \<and> (\<forall>b\<in>set (butlast bs). length b = n)"
  using assms(2-)
proof (induction "length d" arbitrary: k d bs rule: less_induct)
  case less
  have size: "\<not> ck_size k \<le> 0" using less.prems(1) assms(1) by simp
  show ?case
  proof (cases "n \<le> length d")
    case True
    let ?k = "k\<lparr>ck_rd := (ck_rd k)\<lparr>rd_data := drop n d\<rparr>\<rparr>"
    have nx: "chunker_next k = (Inr (take n d), ?k)" using True less.prems by (simp add: chunker_next_def Let_def)
    obtain bs' where bs': "chunk_all ?k = (bs', e)" "bs = take n d # bs'"
      using less.prems(3) size nx by (auto simp: chunk_all.simps [of k] split: prod.splits)
    have shorter: "length (drop n d) < length d" using True assms(1) by simp
    have kk: "ck_size ?k = int n" "\<not> ck_done ?k" "drop n d = rd_data (ck_rd ?k)" "rd_err (ck_rd ?k) = rd_err (ck_rd k)"
      using less.prems(1,2) by simp_all
    have IH: "(case rd_err (ck_rd k) of None \<Rightarrow> concat bs' = drop n d \<and> e = EOF
        | Some m \<Rightarrow> concat bs' = take (n * (length (drop n d) div n)) (drop n d) \<and> e = ReadErrd m) \<and>
      (\<forall>b\<in>set bs'. b \<noteq> [] \<and> length b \<le> n) \<and> (\<forall>b\<in>set (butlast bs'). length b = n)"
      by (rule less.hyps [OF shorter kk(1,2) bs'(1) kk(3), unfolded kk(4)])
    have t: "take n d @ take (n * (length (drop n d) div n)) (drop n d) = take (n * (length d div n)) d"
    proof -
      define q where "q = (length d - n) div n"
      have "length d div n = Suc q" using True assms(1) by (simp add: le_div_geq q_def)
      then have l: "n * (length d div n) = n + n * q" "n * (length (drop n d) div n) = n * q" by (simp_all add: q_def)
      show ?thesis unfolding l take_add ..
    qed
    show ?thesis using IH bs'(2) True assms(1) t by (auto split: option.splits)
  next
    case False
    then have small: "length d div n = 0" by simp
    show ?thesis
    proof (cases "rd_err (ck_rd k)")
      case (Some m)
      then have "bs = [] \<and> e = ReadErrd m" using False less.prems size
        by (simp add: chunk_all.simps [of k] chunker_next_def Let_def)
      then show ?thesis using Some small by simp
    next
      case None
      show ?thesis
      proof (cases "d = []")
        case True
        then have "bs = [] \<and> e = EOF" using None False less.prems size by (simp add: chunk_all.simps [of k] chunker_next_def Let_def)
        then show ?thesis using None True by simp
      next
        case ne: False
        let ?k = "k\<lparr>ck_rd := (ck_rd k)\<lparr>rd_data := drop n d\<rparr>, ck_done := True\<rparr>"
        have "chunk_all ?k = ([], EOF)" using size by (simp add: chunk_all.simps [of ?k] chunker_next_def)
        then have "bs = [d] \<and> e = EOF" using None False ne less.prems size by (simp add: chunk_all.simps [of k] chunker_next_def Let_def)
        then show ?thesis using None ne False by simp
      qed
    qed
  qed
qed

text \<open>The chunks of a stream are the stream: put together they give its bytes, all but the last are of full
  size and none is empty; a reader that fails loses only the incomplete chunk at its end.
\<close>
theorem chunker_splits_stream:
  assumes "chunk_all (new_chunker rd n) = (bs, e)"
  defines "sz \<equiv> nat (if n \<le> 0 then chunkerDefault else n)"
  shows "(case rd_err rd of None \<Rightarrow> concat bs = rd_data rd \<and> e = EOF
      | Some m \<Rightarrow> concat bs = take (sz * (length (rd_data rd) div sz)) (rd_data rd) \<and> e = ReadErrd m) \<and>
    (\<forall>b\<in>set bs. b \<noteq> [] \<and> length b \<le> sz) \<and> (\<forall>b\<in>set (butlast bs). length b = sz)"
proof -
  have a: "0 < sz" "ck_size (new_chunker rd n) = int sz" "\<not> ck_done (new_chunker rd n)"
    by (auto simp: sz_def new_chunker_def chunkerDefault_def)
  have rd: "ck_rd (new_chunker rd n) = rd" by (simp add: new_chunker_def)
  show ?thesis by (rule chunk_all_spec [OF a assms(1) refl, unfolded rd])
qed

section \<open>Witnesses\<close>

lemma prefetch_memory_bounded_witness:
  "length (bp_queue (note_send 9 0 (new_blob_prefetcher 100))) \<le> 32"
proof -
  have "pf_reach 100 (note_send 9 0 (new_blob_prefetcher 100))" by (rule pf_reach.step [OF pf_reach.new pf_step.send])
  from prefetch_memory_bounded [OF this] show ?thesis by blast
qed

lemma prefetch_keeps_cache_coherent_witness:
  "\<exists>s p' c'. fetch_span demo_cfg ((overwrite_env False)\<lparr>sp_rows := Inr (span_rows s (9, 0))\<rparr>) (9, 0) (new_blob_prefetcher 100) demo_cache = Some (p', c') \<and>
     coherent (\<lambda>k. if key_idx k = 0 then [1, 2] else [3]) c' \<and> span_rows s (9, 0) = two_extents"
proof -
  define s :: store where "s = empty_store\<lparr>st_chunks := map row_of_chunk two_extents\<rparr>"
  let ?D = "\<lambda>k. if key_idx k = 0 then [1, 2] else [3 :: byte]"
  let ?E = "(overwrite_env False)\<lparr>sp_rows := Inr (span_rows s (9, 0))\<rparr>"
  have rows: "span_rows s (9, 0) = two_extents"
    by (simp add: s_def span_rows_def packed_extents_from_def two_extents_def row_of_chunk_def chunk_of_row_def nullable_pack_fields_def blobPrefetchMaxExtents_def)
  have "extents_ordered two_extents" by (simp add: extents_ordered_def two_extents_def)
  moreover have "blob_holds ?D demo_cfg [1, 2, 3] two_extents"
    by (simp add: blob_holds_def two_extents_def go_slice_def decode_wire_def demo_cfg_def cipher_open_def decompress_chunk_def chunk_key_def blen_def)
  moreover have "exact_fetch [1, 2, 3] ?E" "others_coherent ?D ?E" by (auto simp: exact_fetch_def others_coherent_def overwrite_env_def)
  ultimately obtain p' c' where "fetch_span demo_cfg ?E (9, 0) (new_blob_prefetcher 100) demo_cache = Some (p', c')" "coherent ?D c'"
    using prefetch_keeps_cache_coherent [of ?E s "(9, 0)" ?D demo_cfg "[1, 2, 3]" demo_cache "new_blob_prefetcher 100"] demo_cache_ok rows by auto
  then show ?thesis using rows by blast
qed

lemma chunker_splits_stream_witness:
  "concat (fst (chunk_all (new_chunker \<lparr>rd_data = [1, 2, 3], rd_err = None\<rparr> 2))) = [1, 2, 3]"
proof -
  obtain bs e where "chunk_all (new_chunker \<lparr>rd_data = [1, 2, 3], rd_err = None\<rparr> 2) = (bs, e)" by (metis prod.collapse)
  then show ?thesis using chunker_splits_stream [of "\<lparr>rd_data = [1, 2, 3], rd_err = None\<rparr>" 2 bs e] by simp
qed

end
