(* ===== verification/MountCtl.thy ===== *)
theory MountCtl
  imports Persist
begin

text \<open>
  Finding and stopping mount daemons through \<open>/proc\<close> (\<open>internal/mountctl/mountctl.go\<close>).  A host is what
  \<open>/proc\<close> shows at the time of a call: the lines of \<open>/proc/mounts\<close> and, per process, its command line and
  environment as the kernel gives them, NUL-separated.  Signals and the fusermount helper are
  answers.  The start time and the log file of a process are only displayed; they are parameters.
\<close>

section \<open>Text\<close>

text \<open>\<open>strings.Fields\<close>, \<open>strings.Split\<close> on one character, \<open>strings.TrimRight\<close> and \<open>filepath.Base\<close>.\<close>

fun fields_acc :: "string \<Rightarrow> string \<Rightarrow> string list" where
  "fields_acc acc [] = (if acc = [] then [] else [rev acc])"
| "fields_acc acc (c # cs) =
     (if is_space c then (if acc = [] then fields_acc [] cs else rev acc # fields_acc [] cs) else fields_acc (c # acc) cs)"

definition text_fields :: "string \<Rightarrow> string list" where "text_fields s = fields_acc [] s"

fun split_on :: "char \<Rightarrow> string \<Rightarrow> string \<Rightarrow> string list" where
  "split_on x acc [] = [rev acc]"
| "split_on x acc (c # cs) = (if c = x then rev acc # split_on x [] cs else split_on x (c # acc) cs)"

definition trim_right :: "char \<Rightarrow> string \<Rightarrow> string" where
  "trim_right x s = rev (dropWhile (\<lambda>c. c = x) (rev s))"

definition base_name :: "string \<Rightarrow> string" where
  "base_name path =
     (if path = [] then ''.''
      else
        (let p = trim_right (CHR ''/'') path in
         if p = [] then ''/'' else rev (takeWhile (\<lambda>c. c \<noteq> CHR ''/'') (rev p))))"

section \<open>The host\<close>

record proc_entry =
  px_name :: string
  px_cmdline :: "string option"
  px_environ :: "string option"

record host =
  ho_mounts :: "string list option"
  ho_procs :: "proc_entry list option"
  ho_alive :: "int \<Rightarrow> bool"

definition scan_proc_mounts :: "host \<Rightarrow> string list" where
  "scan_proc_mounts h =
     (case ho_mounts h of
        None \<Rightarrow> []
      | Some ls \<Rightarrow> map (\<lambda>l. text_fields l ! 1) (filter (\<lambda>l. length (text_fields l) \<ge> 3 \<and> text_fields l ! 2 = ''fuse.telfs'') ls))"

definition is_mounted :: "host \<Rightarrow> string \<Rightarrow> bool" where
  "is_mounted h mp = (mp \<in> set (scan_proc_mounts h))"

definition argv_of :: "string \<Rightarrow> string list" where
  "argv_of cmdline = split_on (CHR 0x00) [] (trim_right (CHR 0x00) cmdline)"

definition is_daemon_of :: "string \<Rightarrow> proc_entry \<Rightarrow> bool" where
  "is_daemon_of mp e =
     (px_name e \<noteq> [] \<and> is_digit (hd (px_name e)) \<and>
      (case px_cmdline e of
         None \<Rightarrow> False
       | Some cl \<Rightarrow>
           (let argv = argv_of cl in
            length argv \<ge> 2 \<and> base_name (hd argv) = ''telfs'' \<and> ''mount'' \<in> set (tl argv) \<and> last argv = mp)))"

definition pid_of :: "string \<Rightarrow> int option" where
  "pid_of name = map_option fst (scan_int (2 ^ 63) name)"

definition find_daemon_pid :: "host \<Rightarrow> string \<Rightarrow> int option" where
  "find_daemon_pid h mp =
     (case ho_procs h of
        None \<Rightarrow> None
      | Some es \<Rightarrow>
          (case List.map_filter (\<lambda>e. if is_daemon_of mp e then pid_of (px_name e) else None) es of [] \<Rightarrow> None | pid # _ \<Rightarrow> Some pid))"

definition environ_of :: "host \<Rightarrow> int \<Rightarrow> string option" where
  "environ_of h pid = (case ho_procs h of None \<Rightarrow> None
     | Some es \<Rightarrow> (case find (\<lambda>e. px_name e = fmt_int pid) es of None \<Rightarrow> None | Some e \<Rightarrow> px_environ e))"

definition read_env_var :: "host \<Rightarrow> int \<Rightarrow> string \<Rightarrow> string" where
  "read_env_var h pid key =
     (case environ_of h pid of
        None \<Rightarrow> []
      | Some b \<Rightarrow>
          (case find (\<lambda>kv. prefix (key @ ''='') kv) (split_on (CHR 0x00) [] b) of
             None \<Rightarrow> [] | Some kv \<Rightarrow> drop (length key + 1) kv))"

definition find_by_profile :: "host \<Rightarrow> string \<Rightarrow> (int \<times> string) option" where
  "find_by_profile h profile =
     (if profile = [] then None
      else
        (case List.map_filter (\<lambda>mp. case find_daemon_pid h mp of None \<Rightarrow> None
              | Some pid \<Rightarrow> if read_env_var h pid ''TELFS_PROFILE'' = profile then Some (pid, mp) else None) (scan_proc_mounts h) of
           [] \<Rightarrow> None | r # _ \<Rightarrow> Some r))"

section \<open>Unmounting and stopping\<close>

datatype ctl_err = LazyFailed string | SurvivedKill int | StillMounted string

text \<open>\<open>polite\<close> and \<open>lazy\<close>: whether the two forms of fusermount succeed.\<close>

definition lazy_unmount :: "bool \<Rightarrow> string \<Rightarrow> ctl_err option" where
  "lazy_unmount lazy mp = (if lazy then None else Some (LazyFailed mp))"

definition unmount :: "host \<Rightarrow> bool \<Rightarrow> bool \<Rightarrow> string \<Rightarrow> ctl_err option" where
  "unmount h polite lazy mp = (if \<not> is_mounted h mp then None else if polite then None else lazy_unmount lazy mp)"

text \<open>The polls of \<open>waitPidGone\<close>: whether the process is gone and whether the deadline has passed; None is still waiting.\<close>

fun wait_pid_gone :: "(bool \<times> bool) list \<Rightarrow> bool option" where
  "wait_pid_gone [] = None"
| "wait_pid_gone ((gone, late) # ps) = (if gone then Some True else if late then Some False else wait_pid_gone ps)"

text \<open>\<open>h\<close> is the host after the process is gone.  The signals sent are part of the result.\<close>

datatype signal = SIGTERM | SIGKILL

definition stop_daemon :: "int \<Rightarrow> string \<Rightarrow> (bool \<times> bool) list \<Rightarrow> (bool \<times> bool) list \<Rightarrow> host \<Rightarrow> bool \<Rightarrow> (ctl_err option \<times> signal list) option" where
  "stop_daemon pid mp polls kill_polls h lazy =
     (let finish = (\<lambda>sigs. if mp \<noteq> [] \<and> is_mounted h mp \<and> lazy_unmount lazy mp \<noteq> None then (Some (StillMounted mp), sigs) else (None, sigs)) in
      if pid \<le> 0 then Some (finish [])
      else (case wait_pid_gone polls of
          None \<Rightarrow> None
        | Some True \<Rightarrow> Some (finish [SIGTERM])
        | Some False \<Rightarrow> (case wait_pid_gone kill_polls of
              None \<Rightarrow> None
            | Some False \<Rightarrow> Some (Some (SurvivedKill pid), [SIGTERM, SIGKILL])
            | Some True \<Rightarrow> Some (finish [SIGTERM, SIGKILL]))))"

section \<open>What the scans find\<close>

lemma split_on_word: "x \<notin> set n \<Longrightarrow> split_on x acc (n @ x # cs) = (rev acc @ n) # split_on x [] cs"
  by (induction n arbitrary: acc) auto

lemma split_on_end: "x \<notin> set n \<Longrightarrow> split_on x acc n = [rev acc @ n]"
  by (induction n arbitrary: acc) auto

text \<open>The NUL-separated form the kernel gives.\<close>

definition nul_joined :: "string list \<Rightarrow> string" where
  "nul_joined ws = concat (map (\<lambda>w. w @ [CHR 0x00]) ws)"

lemma split_joined: "\<forall>w\<in>set ws. CHR 0x00 \<notin> set w \<Longrightarrow> split_on (CHR 0x00) [] (nul_joined ws) = ws @ ['''']"
  by (induction ws) (simp_all add: nul_joined_def split_on_word)

lemma trim_joined:
  assumes "w \<noteq> []" "CHR 0x00 \<notin> set w"
  shows "trim_right (CHR 0x00) (nul_joined (ws @ [w])) = concat (map (\<lambda>w. w @ [CHR 0x00]) ws) @ w"
proof -
  obtain v c where v: "w = v @ [c]" using assms(1) by (metis append_butlast_last_id)
  then show ?thesis using assms(2) by (auto simp: nul_joined_def trim_right_def)
qed

lemma argv_joined:
  assumes "\<forall>w\<in>set ws. CHR 0x00 \<notin> set w" "w \<noteq> []" "CHR 0x00 \<notin> set w"
  shows "argv_of (nul_joined (ws @ [w])) = ws @ [w]"
  unfolding argv_of_def trim_joined [OF assms(2,3)] using assms(1)
  by (induction ws) (simp_all add: split_on_word split_on_end [OF assms(3)])

lemma env_joined:
  assumes "environ_of h pid = Some (nul_joined vars)" "\<forall>v\<in>set vars. CHR 0x00 \<notin> set v" "\<forall>v\<in>set vars. \<not> prefix (key @ ''='') v"
  shows "read_env_var h pid key = []"
proof -
  have "find (\<lambda>kv. prefix (key @ ''='') kv) (vars @ ['''']) = None" using assms(3) by (auto simp: find_None_iff)
  then show ?thesis using assms(1) split_joined [OF assms(2)] by (simp add: read_env_var_def)
qed

text \<open>
  A daemon is found by its own command line, whatever its flags, if the mount point is the last
  argument.
\<close>

lemma daemon_found:
  assumes "px_cmdline e = Some (nul_joined (exe # args @ [mp]))" "base_name exe = ''telfs''" "''mount'' \<in> set args"
    "\<forall>w\<in>set (exe # args). CHR 0x00 \<notin> set w" "mp \<noteq> []" "CHR 0x00 \<notin> set mp" "px_name e \<noteq> []" "is_digit (hd (px_name e))"
  shows "is_daemon_of mp e"
proof -
  have "argv_of (nul_joined (exe # args @ [mp])) = exe # args @ [mp]" using argv_joined [of "exe # args" mp] assms(4-6) by simp
  then show ?thesis using assms by (simp add: is_daemon_of_def Let_def)
qed

text \<open>Stopping a daemon ends without an error only when the daemon is gone and its mount point is not mounted any
  more or was just detached; it is killed only after it let the whole timeout pass.
\<close>
theorem stop_daemon_leaves_nothing:
  assumes "stop_daemon pid mp polls kill_polls h lazy = Some (r, sigs)" "0 < pid"
  shows "(r = None \<longrightarrow> (\<exists>late. (True, late) \<in> set (polls @ kill_polls)) \<and> (mp = [] \<or> \<not> is_mounted h mp \<or> lazy)) \<and>
    (SIGKILL \<in> set sigs \<longrightarrow> (False, True) \<in> set polls) \<and> (\<exists>more. sigs = SIGTERM # more)"
proof -
  have T: "wait_pid_gone ps = Some True \<Longrightarrow> \<exists>late. (True, late) \<in> set ps" for ps
    by (induction ps rule: wait_pid_gone.induct) (auto split: if_splits)
  have F: "wait_pid_gone ps = Some False \<Longrightarrow> (False, True) \<in> set ps" for ps
    by (induction ps rule: wait_pid_gone.induct) (auto split: if_splits)
  show ?thesis
  proof (cases "wait_pid_gone polls")
    case None then show ?thesis using assms by (simp add: stop_daemon_def Let_def)
  next
    case (Some g)
    show ?thesis
    proof (cases g)
      case True
      then show ?thesis using assms Some T [of polls] by (auto simp: stop_daemon_def lazy_unmount_def Let_def split: if_splits)
    next
      case False
      then obtain g' where "wait_pid_gone kill_polls = Some g'" using assms Some by (cases "wait_pid_gone kill_polls") (simp_all add: stop_daemon_def Let_def)
      then show ?thesis using assms Some False F [of polls] T [of kill_polls]
        by (cases g') (auto simp: stop_daemon_def lazy_unmount_def Let_def split: if_splits)
    qed
  qed
qed

lemma stop_daemon_leaves_nothing_witness:
  "stop_daemon 7 ''/m'' [(False, False), (False, True)] [(True, False)] \<lparr>ho_mounts = None, ho_procs = None, ho_alive = (\<lambda>_. False)\<rparr> False
     = Some (None, [SIGTERM, SIGKILL]) \<and> (False, True) \<in> set [(False, False), (False, True)]"
proof -
  have run: "stop_daemon 7 ''/m'' [(False, False), (False, True)] [(True, False)] \<lparr>ho_mounts = None, ho_procs = None, ho_alive = (\<lambda>_. False)\<rparr> False
     = Some (None, [SIGTERM, SIGKILL])"
    by (simp add: stop_daemon_def is_mounted_def scan_proc_mounts_def)
  then show ?thesis using stop_daemon_leaves_nothing [OF run] by simp
qed

end
