(* ===== verification/Supervisor.thy ===== *)
theory Supervisor
  imports MountCtl "HOL-Library.AList"
begin

text \<open>
  The supervisor of mount daemons behind the web UI (\<open>internal/web/supervisor.go\<close>).  A \<open>MountProcess\<close>
  is shared by pointer: it carries a reference, and the closing of its \<open>done\<close> channel and its exit error
  are kept by reference in the supervisor.  The map is an association list keyed by profile.  Every
  function below is one critical section of the code's mutex or a composition of them.
\<close>

section \<open>State\<close>

record mount_process =
  mp_ref :: nat
  mp_profile :: string
  mp_mountpoint :: string
  mp_log :: string
  mp_started :: int
  mp_adopted :: bool
  mp_pid :: int
  mp_cmd :: bool

record supervisor =
  sv_procs :: "(string \<times> mount_process) list"
  sv_closed :: "nat list"
  sv_exit :: "(nat \<times> string) list"
  sv_next :: nat

definition new_supervisor :: supervisor where
  "new_supervisor = \<lparr>sv_procs = [], sv_closed = [], sv_exit = [], sv_next = 0\<rparr>"

definition is_done :: "supervisor \<Rightarrow> mount_process \<Rightarrow> bool" where
  "is_done sv m = (mp_ref m \<in> set (sv_closed sv))"

definition mark_done :: "nat \<Rightarrow> supervisor \<Rightarrow> supervisor" where
  "mark_done r sv = (if r \<in> set (sv_closed sv) then sv else sv\<lparr>sv_closed := r # sv_closed sv\<rparr>)"

definition dead_adopted :: "host \<Rightarrow> mount_process \<Rightarrow> bool" where
  "dead_adopted h m = (mp_adopted m \<and> mp_pid m > 0 \<and> \<not> ho_alive h (mp_pid m))"

definition proc_status :: "host \<Rightarrow> mount_process option \<Rightarrow> supervisor \<Rightarrow> string \<times> supervisor" where
  "proc_status h om sv =
     (case om of
        None \<Rightarrow> (''stopped'', sv)
      | Some m \<Rightarrow>
          if is_done sv m then
            ((case map_of (sv_exit sv) (mp_ref m) of Some e \<Rightarrow> ''exited: '' @ e | None \<Rightarrow> ''exited''), sv)
          else if dead_adopted h m then (''exited'', mark_done (mp_ref m) sv)
          else (''running'', sv))"

section \<open>Reconcile\<close>

definition prune_procs :: "host \<Rightarrow> supervisor \<Rightarrow> supervisor" where
  "prune_procs h sv =
     (let gone = filter (\<lambda>(_, m). \<not> is_done sv m \<and> dead_adopted h m) (sv_procs sv)
      in (fold (\<lambda>(_, m). mark_done (mp_ref m)) gone sv)
           \<lparr>sv_procs := filter (\<lambda>(_, m). \<not> is_done sv m \<and> \<not> dead_adopted h m) (sv_procs sv)\<rparr>)"

text \<open>\<open>started\<close> and \<open>log_of\<close> are the start time and the log file read for display.\<close>

definition adopt_from_proc :: "host \<Rightarrow> (int \<Rightarrow> int) \<Rightarrow> (int \<Rightarrow> string) \<Rightarrow> nat \<Rightarrow> string \<Rightarrow> mount_process option" where
  "adopt_from_proc h started log_of ref mountpoint =
     (case find_daemon_pid h mountpoint of
        None \<Rightarrow> None
      | Some pid \<Rightarrow> Some \<lparr>mp_ref = ref, mp_profile = read_env_var h pid ''TELFS_PROFILE'', mp_mountpoint = mountpoint, mp_log = log_of pid,
          mp_started = started pid, mp_adopted = True, mp_pid = pid, mp_cmd = False\<rparr>)"

definition adopt_mount :: "host \<Rightarrow> (int \<Rightarrow> int) \<Rightarrow> (int \<Rightarrow> string) \<Rightarrow> string \<Rightarrow> supervisor \<Rightarrow> supervisor" where
  "adopt_mount h started log_of mountpoint sv =
     (case adopt_from_proc h started log_of (sv_next sv) mountpoint of
        None \<Rightarrow> sv
      | Some m \<Rightarrow>
          (let key = (if mp_profile m = [] then ''adopted:'' @ mountpoint else mp_profile m);
               sv1 = sv\<lparr>sv_next := sv_next sv + 1\<rparr>
           in if map_of (sv_procs sv) key \<noteq> None then sv1
              else sv1\<lparr>sv_procs := AList.update key (m\<lparr>mp_profile := key\<rparr>) (sv_procs sv)\<rparr>))"

definition reconcile :: "host \<Rightarrow> (int \<Rightarrow> int) \<Rightarrow> (int \<Rightarrow> string) \<Rightarrow> supervisor \<Rightarrow> supervisor" where
  "reconcile h started log_of sv =
     (let sv1 = prune_procs h sv;
          tracked = map (mp_mountpoint \<circ> snd) (sv_procs sv1)
      in fold (adopt_mount h started log_of) (filter (\<lambda>mp. mp \<notin> set tracked) (scan_proc_mounts h)) sv1)"

text \<open>\<open>List\<close> and \<open>Get\<close> after the reconciliation; the profiles listed are distinct, so the exchange sort is a sort.\<close>

definition sup_list :: "supervisor \<Rightarrow> mount_process list" where
  "sup_list sv = sort_key mp_profile (map snd (sv_procs sv))"

definition sup_get :: "string \<Rightarrow> supervisor \<Rightarrow> mount_process option" where
  "sup_get profile sv = map_of (sv_procs sv) profile"

definition external_mounts :: "host \<Rightarrow> supervisor \<Rightarrow> string list" where
  "external_mounts h sv = filter (\<lambda>mp. mp \<notin> mp_mountpoint ` snd ` set (sv_procs sv)) (scan_proc_mounts h)"

section \<open>Start\<close>

record start_opts =
  so_profile :: string
  so_mountpoint :: string
  so_passphrase :: string
  so_readonly :: bool
  so_allow_other :: bool
  so_debug :: bool
  so_metrics :: string

datatype start_err = NoProfile | NoMountpoint | AlreadyMounted bool string | StatFailed string | NotDir | LogFailed string | SpawnFailed string

definition DefaultMetricsAddr :: string where "DefaultMetricsAddr = ''127.0.0.1:9090''"

definition mount_args :: "start_opts \<Rightarrow> string list" where
  "mount_args o1 = [''mount''] @ (if so_readonly o1 then [''--readonly''] else []) @ (if so_allow_other o1 then [''--allow-other''] else []) @
     (if so_debug o1 then [''--debug''] else []) @
     [''--metrics-addr'', if so_metrics o1 = [] then DefaultMetricsAddr else so_metrics o1, so_mountpoint o1]"

definition scrub_env :: "string list \<Rightarrow> string list \<Rightarrow> string list" where
  "scrub_env env keys = filter (\<lambda>e. \<not> list_ex (\<lambda>k. prefix (k @ ''='') e) keys) env"

definition child_env :: "string list \<Rightarrow> start_opts \<Rightarrow> string list" where
  "child_env env o1 = scrub_env env [''TELFS_PROFILE'', ''TELFS_PASSPHRASE''] @
     (if so_profile o1 \<noteq> [] \<and> so_profile o1 \<noteq> ''(default)'' then [''TELFS_PROFILE='' @ so_profile o1] else []) @
     (if so_passphrase o1 \<noteq> [] then [''TELFS_PASSPHRASE='' @ so_passphrase o1] else [])"

definition mount_log_path :: "string \<Rightarrow> string \<Rightarrow> string" where
  "mount_log_path runtime_dir profile =
     (if runtime_dir = [] then ''/tmp'' else runtime_dir) @ ''/telfs-web-'' @ (if profile = [] then ''default'' else profile) @ ''.log''"

definition reserve_start :: "start_opts \<Rightarrow> int \<Rightarrow> supervisor \<Rightarrow> (start_err + mount_process) \<times> supervisor" where
  "reserve_start o1 now sv =
     (let ph = \<lparr>mp_ref = sv_next sv, mp_profile = so_profile o1, mp_mountpoint = so_mountpoint o1, mp_log = [], mp_started = now,
                mp_adopted = False, mp_pid = 0, mp_cmd = False\<rparr>;
          sv1 = sv\<lparr>sv_next := sv_next sv + 1\<rparr>
      in case map_of (sv_procs sv) (so_profile o1) of
           None \<Rightarrow> (Inr ph, sv1\<lparr>sv_procs := AList.update (so_profile o1) ph (sv_procs sv)\<rparr>)
         | Some ex \<Rightarrow>
             if is_done sv ex then (Inr ph, sv1\<lparr>sv_procs := AList.update (so_profile o1) ph (AList.delete (so_profile o1) (sv_procs sv))\<rparr>)
             else (Inl (AlreadyMounted (mp_adopted ex) (mp_mountpoint ex)), sv1))"

definition unreserve :: "mount_process \<Rightarrow> supervisor \<Rightarrow> supervisor" where
  "unreserve ph sv =
     mark_done (mp_ref ph)
       (case map_of (sv_procs sv) (mp_profile ph) of
          Some m \<Rightarrow> if mp_ref m = mp_ref ph then sv\<lparr>sv_procs := AList.delete (mp_profile ph) (sv_procs sv)\<rparr> else sv
        | None \<Rightarrow> sv)"

definition register_child :: "mount_process \<Rightarrow> string \<Rightarrow> int \<Rightarrow> int \<Rightarrow> supervisor \<Rightarrow> mount_process \<times> supervisor" where
  "register_child ph log pid now sv =
     (let m = ph\<lparr>mp_ref := sv_next sv, mp_log := log, mp_started := now, mp_pid := pid, mp_cmd := True\<rparr>
      in (m, mark_done (mp_ref ph) (sv\<lparr>sv_next := sv_next sv + 1, sv_procs := AList.update (mp_profile ph) m (sv_procs sv)\<rparr>)))"

text \<open>The goroutine that waits for the child.\<close>

definition child_exited :: "nat \<Rightarrow> string option \<Rightarrow> supervisor \<Rightarrow> supervisor" where
  "child_exited r err sv = mark_done r (case err of None \<Rightarrow> sv | Some e \<Rightarrow> sv\<lparr>sv_exit := (r, e) # sv_exit sv\<rparr>)"

text \<open>What the spawn meets: stat of the mount point (an error, or whether it is a directory), the log file, the child.\<close>

record spawn_env =
  se_stat :: "string + bool"
  se_log :: "string option"
  se_child :: "string + int"
  se_wait :: "supervisor \<Rightarrow> supervisor"

definition start_mount :: "host \<Rightarrow> (int \<Rightarrow> int) \<Rightarrow> (int \<Rightarrow> string) \<Rightarrow> spawn_env \<Rightarrow> string \<Rightarrow> int \<Rightarrow> start_opts \<Rightarrow> supervisor
    \<Rightarrow> (start_err + mount_process) \<times> supervisor" where
  "start_mount h started log_of E runtime_dir now o1 sv =
     (if trim_space (so_profile o1) = [] then (Inl NoProfile, sv)
      else if trim_space (so_mountpoint o1) = [] then (Inl NoMountpoint, sv)
      else (case reserve_start o1 now (reconcile h started log_of sv) of
          (Inl e, sv1) \<Rightarrow> (Inl e, sv1)
        | (Inr ph, sv1) \<Rightarrow>
            (let sv2 = se_wait E sv1 in
             case se_stat E of
               Inl e \<Rightarrow> (Inl (StatFailed e), unreserve ph sv2)
             | Inr False \<Rightarrow> (Inl NotDir, unreserve ph sv2)
             | Inr True \<Rightarrow>
                 (case se_log E of
                    Some e \<Rightarrow> (Inl (LogFailed e), unreserve ph sv2)
                  | None \<Rightarrow>
                      (case se_child E of
                         Inl e \<Rightarrow> (Inl (SpawnFailed e), unreserve ph sv2)
                       | Inr pid \<Rightarrow> (case register_child ph (mount_log_path runtime_dir (so_profile o1)) pid now sv2 of (m, sv3) \<Rightarrow> (Inr m, sv3)))))))"

section \<open>Stop\<close>

datatype stop_err = NotTracked string | MountRemains string | KillFailed string

definition ensure_unmounted :: "host \<Rightarrow> bool \<Rightarrow> string \<Rightarrow> stop_err option" where
  "ensure_unmounted h lazy mp =
     (if mp = [] \<or> \<not> is_mounted h mp then None else if lazy_unmount lazy mp \<noteq> None then Some (MountRemains mp) else None)"

text \<open>
  The polls of \<open>waitForExit\<close>: whether \<open>done\<close> is closed, whether the tick finds an adopted process dead, and
  whether the deadline has passed.  The second result is whether the wait itself closed \<open>done\<close>.
\<close>

fun wait_for_exit :: "mount_process \<Rightarrow> (bool \<times> bool \<times> bool) list \<Rightarrow> (bool \<times> bool) option" where
  "wait_for_exit m [] = None"
| "wait_for_exit m ((closed, dead, late) # ps) =
     (if closed then Some (True, False)
      else if mp_adopted m \<and> mp_pid m > 0 \<and> dead then Some (True, True)
      else if late then Some (False, False)
      else wait_for_exit m ps)"

text \<open>\<open>h1\<close> is the host after the wait.\<close>

definition stop_mount :: "host \<Rightarrow> (int \<Rightarrow> int) \<Rightarrow> (int \<Rightarrow> string) \<Rightarrow> (bool \<times> bool \<times> bool) list \<Rightarrow> (supervisor \<Rightarrow> supervisor) \<Rightarrow> host \<Rightarrow> bool
    \<Rightarrow> string \<Rightarrow> supervisor \<Rightarrow> (stop_err option \<times> supervisor) option" where
  "stop_mount h started log_of polls others h1 lazy profile sv =
     (let sv1 = reconcile h started log_of sv in
      case map_of (sv_procs sv1) profile of
        None \<Rightarrow> Some (Some (NotTracked profile), sv1)
      | Some m \<Rightarrow>
          if is_done sv1 m then Some (ensure_unmounted h1 lazy (mp_mountpoint m), sv1)
          else (case wait_for_exit m polls of
              None \<Rightarrow> None
            | Some (True, marks) \<Rightarrow>
                (let sv2 = (if marks then mark_done (mp_ref m) (others sv1) else others sv1)
                 in Some (ensure_unmounted h1 lazy (mp_mountpoint m), sv2))
            | Some (False, _) \<Rightarrow>
                if \<not> lazy \<and> is_mounted h1 (mp_mountpoint m) then Some (Some (KillFailed (mp_mountpoint m)), others sv1)
                else Some (None, mark_done (mp_ref m) (others sv1))))"

datatype external_err = ExtEmpty | ExtSupervised string | ExtNotMounted string | ExtCtl ctl_err

definition unmount_external :: "host \<Rightarrow> bool \<Rightarrow> bool \<Rightarrow> string \<Rightarrow> supervisor \<Rightarrow> external_err option" where
  "unmount_external h polite lazy mountpoint sv =
     (let mp = trim_space mountpoint in
      if mp = [] then Some ExtEmpty
      else if mp \<in> mp_mountpoint ` snd ` set (sv_procs sv) then Some (ExtSupervised mp)
      else if mp \<notin> set (scan_proc_mounts h) then Some (ExtNotMounted mp)
      else map_option ExtCtl (unmount h polite lazy mp))"

section \<open>Concurrent starts\<close>

text \<open>
  The critical sections of any number of requests in any order, with the reservations not yet decided
  and the children that run, as (reference, profile).  \<open>Stop\<close> appears by its effects on an adopted process
  and on a child, whose death is \<open>exited\<close>; its effect on a reservation is looked at separately below.
\<close>

record sup_world =
  wd_sup :: supervisor
  wd_starting :: "(nat \<times> string) list"
  wd_running :: "(nat \<times> string) list"

inductive sup_step :: "sup_world \<Rightarrow> sup_world \<Rightarrow> bool" where
  reserved: "reserve_start o1 now (wd_sup W) = (Inr ph, sv) \<Longrightarrow>
    sup_step W (W\<lparr>wd_sup := sv, wd_starting := (mp_ref ph, mp_profile ph) # wd_starting W\<rparr>)"
| refused: "reserve_start o1 now (wd_sup W) = (Inl e, sv) \<Longrightarrow> sup_step W (W\<lparr>wd_sup := sv\<rparr>)"
| failed: "(mp_ref ph, mp_profile ph) \<in> set (wd_starting W) \<Longrightarrow>
    sup_step W (W\<lparr>wd_sup := unreserve ph (wd_sup W), wd_starting := remove1 (mp_ref ph, mp_profile ph) (wd_starting W)\<rparr>)"
| spawned: "(mp_ref ph, mp_profile ph) \<in> set (wd_starting W) \<Longrightarrow> \<not> mp_adopted ph \<Longrightarrow> register_child ph log pid now (wd_sup W) = (m, sv) \<Longrightarrow>
    sup_step W (W\<lparr>wd_sup := sv, wd_starting := remove1 (mp_ref ph, mp_profile ph) (wd_starting W),
      wd_running := (mp_ref m, mp_profile m) # wd_running W\<rparr>)"
| exited: "(r, p) \<in> set (wd_running W) \<Longrightarrow>
    sup_step W (W\<lparr>wd_sup := child_exited r err (wd_sup W), wd_running := remove1 (r, p) (wd_running W)\<rparr>)"
| pruned: "sup_step W (W\<lparr>wd_sup := prune_procs h (wd_sup W)\<rparr>)"
| adopted: "sup_step W (W\<lparr>wd_sup := adopt_mount h started log_of mountpoint (wd_sup W)\<rparr>)"
| seen: "om = map_of (sv_procs (wd_sup W)) k \<Longrightarrow> sup_step W (W\<lparr>wd_sup := snd (proc_status h om (wd_sup W))\<rparr>)"
| stopped: "m \<in> snd ` set (sv_procs (wd_sup W)) \<Longrightarrow> mp_adopted m \<Longrightarrow> sup_step W (W\<lparr>wd_sup := mark_done (mp_ref m) (wd_sup W)\<rparr>)"

inductive sup_reach :: "sup_world \<Rightarrow> bool" where
  boot: "sup_reach \<lparr>wd_sup = new_supervisor, wd_starting = [], wd_running = []\<rparr>"
| step: "sup_reach W \<Longrightarrow> sup_step W W' \<Longrightarrow> sup_reach W'"

inductive_cases sup_stepE: "sup_step W W'"

text \<open>A reservation or a child holds the slot of its profile.\<close>

definition holds_slot :: "supervisor \<Rightarrow> nat \<times> string \<Rightarrow> bool" where
  "holds_slot sv a \<longleftrightarrow> (\<exists>m. map_of (sv_procs sv) (snd a) = Some m \<and> mp_ref m = fst a \<and> \<not> mp_adopted m \<and> fst a \<notin> set (sv_closed sv))"

definition refs_ok :: "supervisor \<Rightarrow> bool" where
  "refs_ok sv \<longleftrightarrow> distinct (map fst (sv_procs sv)) \<and> distinct (map (mp_ref \<circ> snd) (sv_procs sv)) \<and>
     (\<forall>e\<in>set (sv_procs sv). mp_ref (snd e) < sv_next sv) \<and> (\<forall>r\<in>set (sv_closed sv). r < sv_next sv)"

definition sup_inv :: "sup_world \<Rightarrow> bool" where
  "sup_inv W \<longleftrightarrow> refs_ok (wd_sup W) \<and> (\<forall>a\<in>set (wd_starting W) \<union> set (wd_running W). holds_slot (wd_sup W) a) \<and>
     distinct (map snd (wd_starting W @ wd_running W))"

lemma mark_done_simps [simp]: "sv_procs (mark_done r sv) = sv_procs sv" "set (sv_closed (mark_done r sv)) = insert r (set (sv_closed sv))"
  "sv_next (mark_done r sv) = sv_next sv"
  by (auto simp: mark_done_def)

lemma child_exited_simps [simp]: "sv_procs (child_exited r err sv) = sv_procs sv" "set (sv_closed (child_exited r err sv)) = insert r (set (sv_closed sv))"
  "sv_next (child_exited r err sv) = sv_next sv"
  by (auto simp: child_exited_def split: option.split)

lemma fold_mark_simps: "sv_procs (fold (\<lambda>(_, m). mark_done (mp_ref m)) es sv) = sv_procs sv"
  "set (sv_closed (fold (\<lambda>(_, m). mark_done (mp_ref m)) es sv)) = (mp_ref \<circ> snd) ` set es \<union> set (sv_closed sv)"
  "sv_next (fold (\<lambda>(_, m). mark_done (mp_ref m)) es sv) = sv_next sv"
  by (induction es arbitrary: sv) auto

lemma in_set_update: "e \<in> set (AList.update k v es) \<Longrightarrow> e = (k, v) \<or> e \<in> set es"
  by (induction es) (auto split: if_splits)

lemma refs_unique: "refs_ok sv \<Longrightarrow> e \<in> set (sv_procs sv) \<Longrightarrow> e' \<in> set (sv_procs sv) \<Longrightarrow> mp_ref (snd e) = mp_ref (snd e') \<Longrightarrow> e = e'"
  unfolding refs_ok_def distinct_map inj_on_def by (metis comp_apply)

lemma update_refs:
  assumes "refs_ok sv" "mp_ref m = sv_next sv" "sv_next sv' = sv_next sv + 1" "set (sv_closed sv') \<subseteq> insert r (set (sv_closed sv))" "r < sv_next sv + 1"
    "sv_procs sv' = AList.update k m (sv_procs sv)"
  shows "refs_ok sv'"
proof -
  have d: "distinct (map (mp_ref \<circ> snd) (AList.update k m es))"
    if "distinct (map fst es)" "distinct (map (mp_ref \<circ> snd) es)" "\<forall>e\<in>set es. mp_ref (snd e) < mp_ref m" for es
    using that by (induction es) (auto dest!: in_set_update)
  have "mp_ref (snd e) < sv_next sv'" if "e \<in> set (sv_procs sv')" for e
    using in_set_update [of e k m "sv_procs sv"] that assms(1-3,6) by (auto simp: refs_ok_def)
  moreover have "distinct (map fst (sv_procs sv'))" "distinct (map (mp_ref \<circ> snd) (sv_procs sv'))"
    using d [of "sv_procs sv"] distinct_update [of "sv_procs sv" k m] assms(1,2,6) by (auto simp: refs_ok_def)
  moreover have "\<forall>r\<in>set (sv_closed sv'). r < sv_next sv'" using assms(1,3-5) by (auto simp: refs_ok_def less_Suc_eq)
  ultimately show ?thesis unfolding refs_ok_def by blast
qed

lemma delete_refs: "refs_ok sv \<Longrightarrow> refs_ok (sv\<lparr>sv_procs := AList.delete k (sv_procs sv)\<rparr>)"
  unfolding refs_ok_def by (auto simp: AList.delete_eq distinct_map_filter)

text \<open>The slots a section leaves alone, and the invariant of each section.\<close>

lemma reserve_inv:
  assumes "refs_ok sv" "reserve_start o1 now sv = (r, sv')"
  shows "refs_ok sv' \<and> (\<forall>a. holds_slot sv a \<longrightarrow> holds_slot sv' a) \<and>
    (\<forall>ph. r = Inr ph \<longrightarrow> holds_slot sv' (mp_ref ph, mp_profile ph) \<and> (\<forall>a. holds_slot sv a \<longrightarrow> snd a \<noteq> mp_profile ph))"
proof -
  let ?k = "so_profile o1"
  define ph where "ph = \<lparr>mp_ref = sv_next sv, mp_profile = so_profile o1, mp_mountpoint = so_mountpoint o1, mp_log = [], mp_started = now,
                mp_adopted = False, mp_pid = 0, mp_cmd = False\<rparr>"
  have fresh: "sv_next sv \<notin> set (sv_closed sv)" using assms(1) by (auto simp: refs_ok_def)
  show ?thesis
  proof (cases "\<exists>ex. map_of (sv_procs sv) ?k = Some ex \<and> \<not> is_done sv ex")
    case True
    then have "sv' = sv\<lparr>sv_next := sv_next sv + 1\<rparr>" "\<exists>e. r = Inl e" using assms(2) by (auto simp: reserve_start_def Let_def)
    then show ?thesis using assms(1) by (auto simp: refs_ok_def holds_slot_def)
  next
    case False
    obtain es where es: "sv' = sv\<lparr>sv_next := sv_next sv + 1, sv_procs := AList.update ?k ph es\<rparr>" "r = Inr ph"
        "es = sv_procs sv \<or> es = AList.delete ?k (sv_procs sv)"
      using assms(2) False by (auto simp: reserve_start_def Let_def ph_def split: option.splits if_splits)
    have look: "map_of (sv_procs sv') k = (if k = ?k then Some ph else map_of (sv_procs sv) k)" for k
      using es(1,3) by (auto simp: update_conv' delete_conv')
    have other: "snd a \<noteq> ?k" if "holds_slot sv a" for a using False that by (auto simp: holds_slot_def is_done_def)
    have "refs_ok (sv\<lparr>sv_procs := es\<rparr>)" using es(3) assms(1) delete_refs by auto
    from update_refs [OF this, of ph sv' 0 ?k] have "refs_ok sv'" using es(1) by (auto simp: ph_def)
    moreover have "\<forall>a. holds_slot sv a \<longrightarrow> holds_slot sv' a" using look other es(1) by (auto simp: holds_slot_def)
    moreover have "holds_slot sv' (mp_ref ph, mp_profile ph)" using look [of ?k] es(1) fresh by (simp add: holds_slot_def ph_def)
    moreover have "\<forall>a. holds_slot sv a \<longrightarrow> snd a \<noteq> mp_profile ph" using other by (auto simp: ph_def)
    ultimately show ?thesis unfolding es(2) by simp
  qed
qed

lemma close_other:
  assumes "refs_ok sv" "r < sv_next sv"
  shows "refs_ok (mark_done r sv)" "holds_slot sv a \<Longrightarrow> fst a \<noteq> r \<Longrightarrow> holds_slot (mark_done r sv) a"
  using assms by (auto simp: refs_ok_def holds_slot_def)

lemma slot_in: "holds_slot sv a \<Longrightarrow> \<exists>m. (snd a, m) \<in> set (sv_procs sv) \<and> mp_ref m = fst a \<and> \<not> mp_adopted m"
  by (auto simp: holds_slot_def dest: map_of_SomeD)

lemma slot_ref: "refs_ok sv \<Longrightarrow> holds_slot sv a \<Longrightarrow> fst a < sv_next sv"
  using slot_in by (fastforce simp: refs_ok_def)

lemma slots_differ: "refs_ok sv \<Longrightarrow> holds_slot sv a \<Longrightarrow> holds_slot sv b \<Longrightarrow> snd a \<noteq> snd b \<Longrightarrow> fst a \<noteq> fst b"
  using slot_in [of sv a] slot_in [of sv b] refs_unique [of sv] by fastforce

lemma unreserve_inv:
  assumes "refs_ok sv" "holds_slot sv (mp_ref ph, mp_profile ph)"
  shows "refs_ok (unreserve ph sv)" "holds_slot sv a \<Longrightarrow> snd a \<noteq> mp_profile ph \<Longrightarrow> holds_slot (unreserve ph sv) a"
proof -
  let ?sv = "sv\<lparr>sv_procs := AList.delete (mp_profile ph) (sv_procs sv)\<rparr>"
  have u: "unreserve ph sv = mark_done (mp_ref ph) ?sv" using assms(2) by (auto simp: unreserve_def holds_slot_def)
  have r: "refs_ok ?sv" "mp_ref ph < sv_next ?sv" using delete_refs [OF assms(1)] slot_ref [OF assms] by auto
  then show "refs_ok (unreserve ph sv)" unfolding u by (rule close_other(1))
  show "holds_slot (unreserve ph sv) a" if "holds_slot sv a" "snd a \<noteq> mp_profile ph"
  proof -
    have "holds_slot ?sv a" using that by (auto simp: holds_slot_def delete_conv')
    then show ?thesis unfolding u using close_other(2) [OF r] slots_differ [OF assms(1) that(1) assms(2)] that(2) by simp
  qed
qed

lemma register_inv:
  assumes "refs_ok sv" "holds_slot sv (mp_ref ph, mp_profile ph)" "\<not> mp_adopted ph" "register_child ph log pid now sv = (m, sv')"
  shows "refs_ok sv'" "mp_profile m = mp_profile ph" "holds_slot sv' (mp_ref m, mp_profile m)"
    "holds_slot sv a \<Longrightarrow> snd a \<noteq> mp_profile ph \<Longrightarrow> holds_slot sv' a"
proof -
  have m: "m = ph\<lparr>mp_ref := sv_next sv, mp_log := log, mp_started := now, mp_pid := pid, mp_cmd := True\<rparr>"
    and s: "sv' = mark_done (mp_ref ph) (sv\<lparr>sv_next := sv_next sv + 1, sv_procs := AList.update (mp_profile ph) m (sv_procs sv)\<rparr>)"
    using assms(4) by (auto simp: register_child_def Let_def)
  have r: "mp_ref ph < sv_next sv" using slot_ref [OF assms(1,2)] by simp
  have fresh: "sv_next sv \<notin> set (sv_closed sv)" using assms(1) by (auto simp: refs_ok_def)
  show "refs_ok sv'" by (rule update_refs [OF assms(1), of m sv' "mp_ref ph" "mp_profile ph"]) (use m s r in auto)
  show "mp_profile m = mp_profile ph" by (simp add: m)
  show "holds_slot sv' (mp_ref m, mp_profile m)" using r fresh assms(3) by (simp add: s m holds_slot_def update_conv')
  show "holds_slot sv' a" if "holds_slot sv a" "snd a \<noteq> mp_profile ph"
    using that slots_differ [OF assms(1) that(1) assms(2)] by (auto simp: s holds_slot_def update_conv')
qed

lemma prune_inv:
  assumes "refs_ok sv"
  shows "refs_ok (prune_procs h sv)" "holds_slot sv a \<Longrightarrow> holds_slot (prune_procs h sv) a"
proof -
  show "refs_ok (prune_procs h sv)"
    using assms unfolding refs_ok_def by (auto simp: prune_procs_def Let_def fold_mark_simps distinct_map_filter)
  assume a: "holds_slot sv a"
  then obtain m where m: "map_of (sv_procs sv) (snd a) = Some m" "mp_ref m = fst a" "\<not> mp_adopted m" "fst a \<notin> set (sv_closed sv)"
    by (auto simp: holds_slot_def)
  have "map_of (filter (\<lambda>(_, m). \<not> is_done sv m \<and> \<not> dead_adopted h m) (sv_procs sv)) (snd a) = Some m"
    using map_of_filter_in [OF m(1), of "\<lambda>_ m. \<not> is_done sv m \<and> \<not> dead_adopted h m"] m by (simp add: is_done_def dead_adopted_def)
  moreover have "fst a \<notin> (mp_ref \<circ> snd) ` set (filter (\<lambda>(_, m). \<not> is_done sv m \<and> dead_adopted h m) (sv_procs sv))"
  proof
    assume "fst a \<in> (mp_ref \<circ> snd) ` set (filter (\<lambda>(_, m). \<not> is_done sv m \<and> dead_adopted h m) (sv_procs sv))"
    then obtain k m' where "(k, m') \<in> set (sv_procs sv)" "mp_adopted m'" "mp_ref m' = fst a" by (auto simp: dead_adopted_def)
    then show False using refs_unique [OF assms map_of_SomeD [OF m(1)], of "(k, m')"] m by auto
  qed
  ultimately show "holds_slot (prune_procs h sv) a" using m by (auto simp: holds_slot_def prune_procs_def Let_def fold_mark_simps)
qed

lemma adopt_inv:
  assumes "refs_ok sv"
  shows "refs_ok (adopt_mount h st lg mp sv) \<and> (holds_slot sv a \<longrightarrow> holds_slot (adopt_mount h st lg mp sv) a)"
proof (cases "adopt_from_proc h st lg (sv_next sv) mp")
  case None then show ?thesis using assms by (simp add: adopt_mount_def)
next
  case (Some m)
  let ?key = "if mp_profile m = [] then ''adopted:'' @ mp else mp_profile m"
  have ref: "mp_ref m = sv_next sv" using Some by (auto simp: adopt_from_proc_def split: option.splits)
  show ?thesis
  proof (cases "map_of (sv_procs sv) ?key")
    case None
    let ?sv = "adopt_mount h st lg mp sv"
    have s: "?sv = sv\<lparr>sv_next := sv_next sv + 1, sv_procs := AList.update ?key (m\<lparr>mp_profile := ?key\<rparr>) (sv_procs sv)\<rparr>"
      using Some None by (simp add: adopt_mount_def Let_def)
    have "refs_ok ?sv" unfolding s by (rule update_refs [OF assms, of "m\<lparr>mp_profile := ?key\<rparr>" _ 0 ?key]) (use ref in auto)
    moreover have "holds_slot sv a \<longrightarrow> holds_slot ?sv a" using None unfolding s by (auto simp: holds_slot_def update_conv')
    ultimately show ?thesis by blast
  next
    case (Some x)
    then have "adopt_mount h st lg mp sv = sv\<lparr>sv_next := sv_next sv + 1\<rparr>" using \<open>adopt_from_proc _ _ _ _ _ = Some m\<close> by (simp add: adopt_mount_def Let_def)
    then show ?thesis using assms by (auto simp: refs_ok_def holds_slot_def)
  qed
qed

lemma remove1_parts:
  assumes "distinct (map snd (xs @ ys))" "a \<in> set xs"
  shows "distinct (map snd (remove1 a xs @ ys))" "b \<in> set (remove1 a xs) \<union> set ys \<Longrightarrow> b \<in> set xs \<union> set ys \<and> snd b \<noteq> snd a"
proof -
  obtain us vs where x: "xs = us @ a # vs" "a \<notin> set us" using split_list_first [OF assms(2)] by blast
  then have r: "remove1 a xs = us @ vs" by (simp add: remove1_append)
  show "distinct (map snd (remove1 a xs @ ys))" using assms(1) [unfolded x(1)] unfolding r by auto
  show "b \<in> set (remove1 a xs) \<union> set ys \<Longrightarrow> b \<in> set xs \<union> set ys \<and> snd b \<noteq> snd a"
    using assms(1) [unfolded x(1)] unfolding r by (auto simp: x(1)) (metis imageI)+
qed

lemma sup_invI:
  "refs_ok sv \<Longrightarrow> (\<And>a. a \<in> set st \<union> set ru \<Longrightarrow> holds_slot sv a) \<Longrightarrow> distinct (map snd (st @ ru)) \<Longrightarrow>
   sup_inv (W\<lparr>wd_sup := sv, wd_starting := st, wd_running := ru\<rparr>)"
  by (simp add: sup_inv_def)

lemma close_adopted:
  assumes "refs_ok sv" "m \<in> snd ` set (sv_procs sv)" "mp_adopted m" "holds_slot sv a"
  shows "refs_ok (mark_done (mp_ref m) sv)" "holds_slot (mark_done (mp_ref m) sv) a"
proof -
  obtain k where k: "(k, m) \<in> set (sv_procs sv)" using assms(2) by auto
  then have r: "mp_ref m < sv_next sv" using assms(1) by (auto simp: refs_ok_def)
  show "refs_ok (mark_done (mp_ref m) sv)" by (rule close_other(1) [OF assms(1) r])
  obtain m' where m': "(snd a, m') \<in> set (sv_procs sv)" "mp_ref m' = fst a" "\<not> mp_adopted m'" using slot_in [OF assms(4)] by blast
  have "fst a \<noteq> mp_ref m" using refs_unique [OF assms(1) k m'(1)] m' assms(3) by auto
  then show "holds_slot (mark_done (mp_ref m) sv) a" by (rule close_other(2) [OF assms(1) r assms(4)])
qed

lemma close_adopted_refs: "refs_ok sv \<Longrightarrow> m \<in> snd ` set (sv_procs sv) \<Longrightarrow> refs_ok (mark_done (mp_ref m) sv)"
  by (rule close_other(1)) (auto simp: refs_ok_def)

lemma exited_simps: "refs_ok (child_exited r err sv) = refs_ok (mark_done r sv)" "holds_slot (child_exited r err sv) a = holds_slot (mark_done r sv) a"
  by (simp_all add: refs_ok_def holds_slot_def)

lemma sup_step_inv:
  assumes "sup_step W W'" "sup_inv W"
  shows "sup_inv W'"
proof -
  let ?acts = "set (wd_starting W) \<union> set (wd_running W)"
  have i: "refs_ok (wd_sup W)" "\<And>a. a \<in> ?acts \<Longrightarrow> holds_slot (wd_sup W) a" "distinct (map snd (wd_starting W @ wd_running W))"
    using assms(2) by (simp_all add: sup_inv_def)
  have keep: "sup_inv (W\<lparr>wd_sup := sv\<rparr>)" if "refs_ok sv" "\<forall>a\<in>?acts. holds_slot sv a" for sv
    using that i(3) by (simp add: sup_inv_def)
  show ?thesis
    using assms(1)
  proof (cases rule: sup_step.cases)
    case (reserved o1 now ph sv)
    note r = reserve_inv [OF i(1) reserved(2)]
    have "\<forall>a\<in>?acts. snd a \<noteq> mp_profile ph" using r i(2) by blast
    then have "mp_profile ph \<notin> snd ` ?acts" by (metis imageE)
    then have "distinct (map snd (((mp_ref ph, mp_profile ph) # wd_starting W) @ wd_running W))" using i(3) by (simp add: image_Un)
    moreover have "\<forall>a\<in>?acts. holds_slot sv a" using r i(2) by blast
    ultimately show ?thesis unfolding reserved(1) using r by (simp add: sup_inv_def)
  next
    case (refused o1 now e sv)
    then show ?thesis using reserve_inv [OF i(1) refused(2)] i(2) keep by blast
  next
    case (failed ph)
    note u = unreserve_inv [OF i(1) i(2) [OF UnI1 [OF failed(2)]]]
    note d = remove1_parts [OF i(3) failed(2)]
    have "holds_slot (unreserve ph (wd_sup W)) b" if "b \<in> set (remove1 (mp_ref ph, mp_profile ph) (wd_starting W)) \<union> set (wd_running W)" for b
      using d(2) [OF that] u(2) [OF i(2)] by simp
    then show ?thesis unfolding failed(1) using u(1) d(1) by (simp add: sup_inv_def)
  next
    case (spawned ph log pid now m sv)
    note u = register_inv [OF i(1) i(2) [OF UnI1 [OF spawned(2)]] spawned(3,4)]
    note d = remove1_parts [OF i(3) spawned(2)]
    have o: "holds_slot sv b \<and> snd b \<noteq> mp_profile m" if "b \<in> set (remove1 (mp_ref ph, mp_profile ph) (wd_starting W)) \<union> set (wd_running W)" for b
      using d(2) [OF that] u(4) [OF i(2)] u(2) by simp
    let ?st = "remove1 (mp_ref ph, mp_profile ph) (wd_starting W)"
    have n: "mp_profile m \<notin> snd ` (set ?st \<union> set (wd_running W))" using o by (metis imageE)
    have "distinct (map snd (?st @ (mp_ref m, mp_profile m) # wd_running W))" using d(1) n by (simp add: image_Un)
    moreover have "holds_slot sv b" if "b \<in> set ?st \<union> set ((mp_ref m, mp_profile m) # wd_running W)" for b
    proof -
      have "b = (mp_ref m, mp_profile m) \<or> b \<in> set ?st \<union> set (wd_running W)" using that by auto
      then show ?thesis using o u(3) by blast
    qed
    ultimately show ?thesis unfolding spawned(1) using u(1) unfolding sup_inv_def by simp
  next
    case (exited r p err)
    have d0: "distinct (map snd (wd_running W @ wd_starting W))" using i(3) by auto
    note d = remove1_parts [OF d0 exited(2)]
    have rp: "holds_slot (wd_sup W) (r, p)" using i(2) exited(2) by blast
    note r = slot_ref [OF i(1) rp, simplified]
    have "holds_slot (mark_done r (wd_sup W)) b" if "b \<in> set (remove1 (r, p) (wd_running W)) \<union> set (wd_starting W)" for b
    proof -
      have b: "b \<in> ?acts" "snd b \<noteq> p" using d(2) [OF that] by auto
      then have "fst b \<noteq> r" using slots_differ [OF i(1) i(2) rp] by simp
      then show ?thesis by (rule close_other(2) [OF i(1) r i(2) [OF b(1)]])
    qed
    moreover have "distinct (map snd (wd_starting W @ remove1 (r, p) (wd_running W)))" using d(1) by auto
    ultimately show ?thesis unfolding exited(1) using close_other(1) [OF i(1) r] by (auto simp: sup_inv_def exited_simps)
  next
    case (pruned h)
    then show ?thesis using prune_inv [OF i(1)] i(2) keep by blast
  next
    case (adopted h started log_of mountpoint)
    then show ?thesis using adopt_inv [OF i(1)] i(2) keep by blast
  next
    case (seen om k h)
    show ?thesis
    proof (cases "snd (proc_status h om (wd_sup W)) = wd_sup W")
      case True
      then show ?thesis using i seen by (simp add: sup_inv_def)
    next
      case False
      then obtain m where m: "om = Some m" "dead_adopted h m" "snd (proc_status h om (wd_sup W)) = mark_done (mp_ref m) (wd_sup W)"
        by (auto simp: proc_status_def split: option.splits if_splits)
      have "m \<in> snd ` set (sv_procs (wd_sup W))" using m(1) seen(2) map_of_SomeD [of "sv_procs (wd_sup W)" k m] by force
      note k = this
      have ad: "mp_adopted m" using m(2) by (simp add: dead_adopted_def)
      have "\<forall>a\<in>?acts. holds_slot (mark_done (mp_ref m) (wd_sup W)) a" using close_adopted(2) [OF i(1) k ad i(2)] by simp
      then show ?thesis unfolding seen(1) m(3) by (rule keep [OF close_adopted_refs [OF i(1) k]])
    qed
  next
    case (stopped m)
    have "\<forall>a\<in>?acts. holds_slot (mark_done (mp_ref m) (wd_sup W)) a" using close_adopted(2) [OF i(1) stopped(2,3) i(2)] by simp
    then show ?thesis unfolding stopped(1) by (rule keep [OF close_adopted_refs [OF i(1) stopped(2)]])
  qed
qed

text \<open>C27.  However requests to start, stop and look interleave with the daemons' exits and the adoption of others,
  no two starts in progress and no two running children of the supervisor are ever of one profile.
\<close>
theorem one_child_per_profile:
  assumes "sup_reach W"
  shows "distinct (map snd (wd_starting W @ wd_running W))"
proof -
  have "sup_inv W" using assms
  proof (induction rule: sup_reach.induct)
    case boot show ?case by (simp add: sup_inv_def refs_ok_def new_supervisor_def)
  qed (rule sup_step_inv)
  then show ?thesis by (simp add: sup_inv_def)
qed

section \<open>Two ways round the guard\<close>

text \<open>A daemon that was started for the active profile, without \<open>TELFS_PROFILE\<close> in its environment, is adopted under
  its mount point: the supervisor then grants a second daemon of the same profile.
\<close>
theorem active_profile_daemon_not_recognised:
  assumes "\<forall>mp\<in>set (scan_proc_mounts h). \<forall>pid. find_daemon_pid h mp = Some pid \<longrightarrow> read_env_var h pid ''TELFS_PROFILE'' = []"
    "\<not> prefix ''adopted:'' (so_profile o1)"
  shows "\<exists>ph sv. reserve_start o1 now (reconcile h started log_of new_supervisor) = (Inr ph, sv) \<and> mp_profile ph = so_profile o1"
proof -
  have "map_of (sv_procs (fold (adopt_mount h started log_of) mps sv)) (so_profile o1) = None"
    if "set mps \<subseteq> set (scan_proc_mounts h)" "map_of (sv_procs sv) (so_profile o1) = None" for mps sv
    using that
  proof (induction mps arbitrary: sv)
    case (Cons mp mps)
    have "map_of (sv_procs (adopt_mount h started log_of mp sv)) (so_profile o1) = None"
    proof (cases "find_daemon_pid h mp")
      case None then show ?thesis using Cons.prems(2) by (simp add: adopt_mount_def adopt_from_proc_def)
    next
      case (Some pid)
      moreover have "mp \<in> set (scan_proc_mounts h)" using Cons.prems(1) by simp
      ultimately have "read_env_var h pid ''TELFS_PROFILE'' = []" using assms(1) by blast
      moreover have "''adopted:'' @ mp \<noteq> so_profile o1" using assms(2) by (metis prefixI)
      ultimately show ?thesis using Cons.prems(2) Some by (simp add: adopt_mount_def adopt_from_proc_def Let_def update_conv')
    qed
    then show ?case using Cons by simp
  qed simp
  then have "map_of (sv_procs (reconcile h started log_of new_supervisor)) (so_profile o1) = None"
    by (simp add: reconcile_def prune_procs_def new_supervisor_def Let_def)
  then show ?thesis by (simp add: reserve_start_def Let_def)
qed

text \<open>A stop that finds a start still in progress and waits in vain releases its reservation: another start of the
  profile is granted while the first may still spawn its daemon.
\<close>
theorem stop_releases_a_start_in_progress:
  assumes "reserve_start o1 now sv = (Inr ph, sv1)" "refs_ok sv" "scan_proc_mounts h = []" "wait_for_exit ph polls = Some (False, marks)"
  shows "\<exists>sv2 ph2 sv3. stop_mount h started log_of polls id h True (so_profile o1) sv1 = Some (None, sv2) \<and>
    reserve_start o1 now sv2 = (Inr ph2, sv3) \<and> mp_ref ph2 \<noteq> mp_ref ph"
proof -
  note r = reserve_inv [OF assms(2,1)]
  have ph: "mp_profile ph = so_profile o1" "\<not> mp_adopted ph" "map_of (sv_procs sv1) (so_profile o1) = Some ph"
    using assms(1) by (auto simp: reserve_start_def Let_def update_conv' split: option.splits if_splits)
  have slot: "mp_ref ph \<notin> set (sv_closed sv1)" using r ph(1,3) by (auto simp: holds_slot_def)
  let ?sv = "prune_procs h sv1"
  have rec: "reconcile h started log_of sv1 = ?sv" using assms(3) by (simp add: reconcile_def Let_def)
  have p: "holds_slot ?sv (mp_ref ph, so_profile o1)" "refs_ok ?sv" using prune_inv [where sv = sv1 and h = h] r ph(1) by auto
  have at: "map_of (sv_procs ?sv) (so_profile o1) = Some ph"
    using map_of_filter_in [OF ph(3), of "\<lambda>_ m. \<not> is_done sv1 m \<and> \<not> dead_adopted h m"] ph(2) slot
    by (simp add: prune_procs_def Let_def is_done_def dead_adopted_def)
  let ?sv2 = "mark_done (mp_ref ph) ?sv"
  have "stop_mount h started log_of polls id h True (so_profile o1) sv1 = Some (None, ?sv2)"
    using at p(1) assms(4) by (simp add: stop_mount_def rec Let_def is_done_def holds_slot_def)
  moreover have "\<exists>ph2 sv3. reserve_start o1 now ?sv2 = (Inr ph2, sv3) \<and> mp_ref ph2 = sv_next ?sv"
    using at by (simp add: reserve_start_def Let_def is_done_def)
  moreover have "mp_ref ph \<noteq> sv_next ?sv" using slot_ref [OF p(2,1)] by simp
  ultimately show ?thesis by metis
qed

section \<open>Witnesses\<close>

abbreviation work_opts :: start_opts where
  "work_opts \<equiv> \<lparr>so_profile = ''work'', so_mountpoint = ''/m'', so_passphrase = [], so_readonly = False, so_allow_other = False, so_debug = False, so_metrics = []\<rparr>"

lemma one_child_per_profile_witness:
  "distinct (map snd ([(0, ''work'')] @ ([] :: (nat \<times> string) list))) \<and> sup_reach
     \<lparr>wd_sup = snd (reserve_start work_opts 5 new_supervisor), wd_starting = [(0, ''work'')], wd_running = []\<rparr>"
proof -
  obtain ph sv where r: "reserve_start work_opts 5 new_supervisor = (Inr ph, sv)" "mp_ref ph = 0" "mp_profile ph = ''work''"
    by (simp add: reserve_start_def new_supervisor_def Let_def)
  have "sup_step \<lparr>wd_sup = new_supervisor, wd_starting = [], wd_running = []\<rparr>
      (\<lparr>wd_sup = new_supervisor, wd_starting = [], wd_running = []\<rparr>\<lparr>wd_sup := sv, wd_starting := (mp_ref ph, mp_profile ph) # []\<rparr>)"
    using sup_step.reserved [of work_opts 5 "\<lparr>wd_sup = new_supervisor, wd_starting = [], wd_running = []\<rparr>" ph sv] r(1) by simp
  from sup_reach.step [OF boot this] have "sup_reach \<lparr>wd_sup = snd (reserve_start work_opts 5 new_supervisor), wd_starting = [(0, ''work'')], wd_running = []\<rparr>"
    using r by simp
  with one_child_per_profile [OF this] show ?thesis by simp
qed

text \<open>\<open>telfs mount /m\<close> from a shell: the environment has a home directory only.\<close>

definition cli_host :: host where
  "cli_host = \<lparr>ho_mounts = Some [''telfs /m fuse.telfs rw 0 0''],
     ho_procs = Some [\<lparr>px_name = ''71'', px_cmdline = Some (nul_joined [''/bin/telfs'', ''mount'', ''/m'']), px_environ = Some (nul_joined [''HOME=/root''])\<rparr>],
     ho_alive = (\<lambda>_. True)\<rparr>"

lemma cli_host_scan: "scan_proc_mounts cli_host = [''/m'']" "find_daemon_pid cli_host ''/m'' = Some 71" "read_env_var cli_host 71 ''TELFS_PROFILE'' = []"
  by code_simp+

lemma active_profile_daemon_not_recognised_witness:
  "find_daemon_pid cli_host ''/m'' = Some 71 \<and> (\<exists>ph sv. reserve_start work_opts 5 (reconcile cli_host id (\<lambda>_. []) new_supervisor) = (Inr ph, sv))"
proof -
  have "\<forall>mp\<in>set (scan_proc_mounts cli_host). \<forall>pid. find_daemon_pid cli_host mp = Some pid \<longrightarrow> read_env_var cli_host pid ''TELFS_PROFILE'' = []"
    using cli_host_scan by simp
  from active_profile_daemon_not_recognised [OF this, of work_opts 5 id "\<lambda>_. []"] show ?thesis using cli_host_scan(2) by auto
qed

lemma stop_releases_a_start_in_progress_witness:
  "\<exists>sv2 ph2 sv3. stop_mount \<lparr>ho_mounts = None, ho_procs = None, ho_alive = (\<lambda>_. True)\<rparr> id (\<lambda>_. []) [(False, False, False), (False, False, True)] id
     \<lparr>ho_mounts = None, ho_procs = None, ho_alive = (\<lambda>_. True)\<rparr> True ''work'' (snd (reserve_start work_opts 5 new_supervisor)) = Some (None, sv2) \<and>
     reserve_start work_opts 5 sv2 = (Inr ph2, sv3)"
proof -
  obtain ph sv where r: "reserve_start work_opts 5 new_supervisor = (Inr ph, sv)" "\<not> mp_adopted ph"
    by (simp add: reserve_start_def new_supervisor_def Let_def)
  have "refs_ok new_supervisor" by (simp add: refs_ok_def new_supervisor_def)
  moreover have "scan_proc_mounts \<lparr>ho_mounts = None, ho_procs = None, ho_alive = (\<lambda>_. True)\<rparr> = []" by (simp add: scan_proc_mounts_def)
  moreover have "wait_for_exit ph [(False, False, False), (False, False, True)] = Some (False, False)" using r(2) by simp
  ultimately show ?thesis using stop_releases_a_start_in_progress [OF r(1)] r(1) by fastforce
qed

end
