(* ===== verification/Session.thy ===== *)
theory Session
  imports Cache
begin

text \<open>
  The session with Telegram (\<open>internal/tg/session.go\<close>, \<open>channel.go\<close>): which channel is bound, the
  cache of document references with its expiry, whole and ranged downloads with the one retry for
  an expired reference, and uploads with their retries under one random id.  The RPCs of the gotd client
  are answers given to the functions; times are in nanoseconds.  A writer given by a caller is a
  buffer, so what is written is the result.
\<close>

section \<open>The bound channel\<close>

record channel_config =
  cc_id :: int
  cc_hash :: int
  cc_title :: string
  cc_username :: string

record channel_info =
  ci_id :: int
  ci_hash :: int
  ci_title :: string
  ci_username :: string
  ci_creator :: bool
  ci_can_post :: bool

datatype tg_err =
  NotConnected | NoChannel | TgRpc string | TgText string | ZeroId | NotChannelId int | NotInDialogs int | NoPostRight int
| SaveFailed string | CtxEnded

definition require_channel :: "channel_config \<Rightarrow> tg_err option" where
  "require_channel c = (if cc_id c = 0 \<or> cc_hash c = 0 then Some NoChannel else None)"

definition channel_peer :: "channel_config \<Rightarrow> tg_err + (int \<times> int)" where
  "channel_peer c = (case require_channel c of Some e \<Rightarrow> Inl e | None \<Rightarrow> Inr (cc_id c, cc_hash c))"

text \<open>\<open>strconv.FormatInt(-id, 10)\<close> on int64, and the marked form taken apart as text.\<close>

definition normalize_channel_id :: "int \<Rightarrow> tg_err + int" where
  "normalize_channel_id id1 =
     (if id1 > 0 then Inr id1
      else if id1 = 0 then Inl ZeroId
      else
        (let s = fmt_int (to_int64 (- id1)) in
         if \<not> prefix ''100'' s \<or> length s \<le> 3 then Inl (NotChannelId id1)
         else (case parse_int (drop 3 s) of None \<Rightarrow> Inl (NotChannelId id1) | Some v \<Rightarrow> Inr v)))"

text \<open>A dialog is a channel, with whether it was left, its creator flag and the right to post; or another chat.\<close>

datatype chat = ChatChannel int int string string bool bool bool | OtherChat

definition list_channels :: "chat list \<Rightarrow> channel_info list" where
  "list_channels chats = List.map_filter (\<lambda>c. case c of
     ChatChannel i h t u left creator post \<Rightarrow>
       (if left then None else Some \<lparr>ci_id = i, ci_hash = h, ci_title = t, ci_username = u, ci_creator = creator, ci_can_post = creator \<or> post\<rparr>)
   | OtherChat \<Rightarrow> None) chats"

definition resolve_channel :: "tg_err + chat list \<Rightarrow> int \<Rightarrow> tg_err + channel_info" where
  "resolve_channel dialogs id1 =
     (case normalize_channel_id id1 of
        Inl e \<Rightarrow> Inl e
      | Inr nid \<Rightarrow> (case dialogs of
            Inl e \<Rightarrow> Inl e
          | Inr chats \<Rightarrow> (case find (\<lambda>c. ci_id c = nid) (list_channels chats) of None \<Rightarrow> Inl (NotInDialogs nid) | Some c \<Rightarrow> Inr c)))"

definition config_of :: "channel_info \<Rightarrow> channel_config" where
  "config_of i = \<lparr>cc_id = ci_id i, cc_hash = ci_hash i, cc_title = ci_title i, cc_username = ci_username i\<rparr>"

text \<open>\<open>SetChannel\<close>: the configuration is changed before it is saved.\<close>

definition set_channel :: "string option \<Rightarrow> tg_err + chat list \<Rightarrow> int \<Rightarrow> int \<Rightarrow> channel_config \<Rightarrow> (tg_err + channel_info) \<times> channel_config" where
  "set_channel save dialogs id1 access_hash c =
     (let found = (if access_hash \<noteq> 0 then
            (case normalize_channel_id id1 of Inl e \<Rightarrow> Inl e
             | Inr nid \<Rightarrow> Inr \<lparr>ci_id = nid, ci_hash = access_hash, ci_title = ''channel-'' @ fmt_int nid, ci_username = [], ci_creator = False, ci_can_post = True\<rparr>)
          else (case resolve_channel dialogs id1 of Inl e \<Rightarrow> Inl e
             | Inr i \<Rightarrow> if \<not> ci_can_post i then Inl (NoPostRight (ci_id i)) else Inr i))
      in case found of
           Inl e \<Rightarrow> (Inl e, c)
         | Inr i \<Rightarrow> (case save of Some e \<Rightarrow> (Inl (SaveFailed e), config_of i) | None \<Rightarrow> (Inr i, config_of i)))"

section \<open>Documents\<close>

record tg_doc =
  td_id :: int
  td_hash :: int
  td_ref :: int

datatype tg_media = NoMedia | DocMedia "tg_doc option"
datatype tg_message = TgMessage int tg_media string | TgEmpty int | TgService int
datatype msgs_answer = MsgsErr tg_err | MsgsOdd | MsgsGot "tg_message list"

record session =
  ss_channel :: channel_config
  ss_docs :: "(int \<times> (tg_doc \<times> int)) list"
  ss_swept :: "int option"

definition docCacheTTL :: int where "docCacheTTL = 1200000000000"

text \<open>What one call meets: whether a client is bound, the clock, the answer to \<open>channels.getMessages\<close>.\<close>

record call_env =
  cl_api :: bool
  cl_now :: int
  cl_msgs :: msgs_answer

fun find_message :: "int \<Rightarrow> tg_message list \<Rightarrow> tg_err + (tg_media \<times> string)" where
  "find_message i [] = Inl (TgText ''not found in channel'')"
| "find_message i (TgMessage j md t # ms) = (if j = i then Inr (md, t) else find_message i ms)"
| "find_message i (TgEmpty j # ms) = Inl (TgText ''is empty (deleted?)'')"
| "find_message i (TgService j # ms) = find_message i ms"

definition get_message :: "call_env \<Rightarrow> int \<Rightarrow> session \<Rightarrow> tg_err + (tg_media \<times> string)" where
  "get_message E msg S =
     (case channel_peer (ss_channel S) of
        Inl e \<Rightarrow> Inl e
      | Inr _ \<Rightarrow>
          if \<not> cl_api E then Inl NotConnected
          else (case cl_msgs E of MsgsErr e \<Rightarrow> Inl e | MsgsOdd \<Rightarrow> Inl (TgText ''unexpected messages response'') | MsgsGot ms \<Rightarrow> find_message msg ms))"

definition get_message_text :: "call_env \<Rightarrow> int \<Rightarrow> session \<Rightarrow> tg_err + string" where
  "get_message_text E msg S = (case get_message E msg S of Inl e \<Rightarrow> Inl e | Inr (_, t) \<Rightarrow> Inr t)"

definition sweep_doc_cache :: "int \<Rightarrow> session \<Rightarrow> session" where
  "sweep_doc_cache now S =
     (if (case ss_swept S of None \<Rightarrow> False | Some last1 \<Rightarrow> now - last1 < docCacheTTL) then S
      else S\<lparr>ss_swept := Some now, ss_docs := filter (\<lambda>e. \<not> now - snd (snd e) \<ge> docCacheTTL) (ss_docs S)\<rparr>)"

definition refresh_document :: "call_env \<Rightarrow> int \<Rightarrow> session \<Rightarrow> (tg_err + tg_doc) \<times> session" where
  "refresh_document E msg S =
     (case get_message E msg S of
        Inl e \<Rightarrow> (Inl e, S)
      | Inr (NoMedia, _) \<Rightarrow> (Inl (TgText ''has no document''), S)
      | Inr (DocMedia None, _) \<Rightarrow> (Inl (TgText ''document is not a tg.Document''), S)
      | Inr (DocMedia (Some d), _) \<Rightarrow>
          (Inr d, sweep_doc_cache (cl_now E) (S\<lparr>ss_docs := AList.update msg (d, cl_now E) (ss_docs S)\<rparr>)))"

definition fetch_document :: "call_env \<Rightarrow> int \<Rightarrow> session \<Rightarrow> (tg_err + tg_doc) \<times> session" where
  "fetch_document E msg S =
     (case map_of (ss_docs S) msg of
        Some (d, at) \<Rightarrow> if cl_now E - at < docCacheTTL then (Inr d, S) else refresh_document E msg S
      | None \<Rightarrow> refresh_document E msg S)"

definition invalidate_document :: "int \<Rightarrow> session \<Rightarrow> session" where
  "invalidate_document msg S = S\<lparr>ss_docs := AList.delete msg (ss_docs S)\<rparr>"

text \<open>
  Both downloads have one shape: stream with the reference at hand, and once more with a fresh one if it
  has expired.  \<open>E 0\<close> is met by the first lookup, \<open>E 1\<close> by the refresh; \<open>stream i\<close> is the \<open>i\<close>-th stream.
\<close>

definition ref_expired :: "tg_err \<Rightarrow> bool" where "ref_expired e = (e = TgRpc ''FILE_REFERENCE_EXPIRED'')"

definition with_document :: "(nat \<Rightarrow> call_env) \<Rightarrow> (nat \<Rightarrow> tg_doc \<Rightarrow> tg_err + bytes) \<Rightarrow> int \<Rightarrow> session \<Rightarrow> (tg_err + bytes) \<times> session" where
  "with_document E stream msg S =
     (case fetch_document (E 0) msg S of
        (Inl e, S1) \<Rightarrow> (Inl e, S1)
      | (Inr d, S1) \<Rightarrow>
          (case stream 0 d of
             Inr b \<Rightarrow> (Inr b, S1)
           | Inl e \<Rightarrow>
               if \<not> ref_expired e then (Inl e, S1)
               else (case refresh_document (E 1) msg (invalidate_document msg S1) of
                   (Inl e2, S2) \<Rightarrow> (Inl e2, S2)
                 | (Inr d2, S2) \<Rightarrow> (stream 1 d2, S2))))"

text \<open>The whole document: gotd's parallel downloader writes parts at their offsets into a growing buffer.\<close>

definition write_at_buf :: "bytes \<Rightarrow> int \<Rightarrow> bytes \<Rightarrow> bytes" where
  "write_at_buf p off b =
     (let fin = nat off + length p;
          g = (if fin > length b then b @ replicate (fin - length b) 0 else b)
      in take (nat off) g @ p @ drop fin g)"

definition stream_document :: "bool \<Rightarrow> (tg_doc \<Rightarrow> tg_err + (int \<times> bytes) list) \<Rightarrow> tg_doc \<Rightarrow> tg_err + bytes" where
  "stream_document api parts d =
     (if \<not> api then Inl NotConnected
      else (case parts d of Inl e \<Rightarrow> Inl e | Inr ws \<Rightarrow> Inr (fold (\<lambda>(off, p). write_at_buf p off) ws [])))"

definition download_document :: "(nat \<Rightarrow> call_env) \<Rightarrow> (nat \<Rightarrow> tg_doc \<Rightarrow> tg_err + (int \<times> bytes) list) \<Rightarrow> int \<Rightarrow> session \<Rightarrow> (tg_err + bytes) \<times> session" where
  "download_document E parts msg S = with_document E (\<lambda>i. stream_document (cl_api (E i)) (parts i)) msg S"

section \<open>Ranges\<close>

definition rangePartSize :: int where "rangePartSize = 1048576"
definition rangeAlignment :: int where "rangeAlignment = 4096"

type_synonym range_part = "int \<times> int"

lemma go_div_boundary: "cur < go_div cur 1048576 * 1048576 + 1048576"
proof (cases "0 \<le> cur")
  case True
  have "cur mod 1048576 < 1048576" "cur = cur div 1048576 * 1048576 + cur mod 1048576" by simp_all
  then show ?thesis using True by simp
next
  case False
  have "0 \<le> (- cur) mod 1048576" "- cur = (- cur) div 1048576 * 1048576 + (- cur) mod 1048576" by simp_all
  then show ?thesis using False by (simp add: go_div_def)
qed

function plan_range_parts :: "int \<Rightarrow> int \<Rightarrow> range_part list" where
  "plan_range_parts cur fin =
     (if fin \<le> cur then []
      else
        (let limit0 = (if cur + rangePartSize > fin then fin - cur else rangePartSize);
             boundary = (go_div cur 1048576 + 1) * 1048576;
             limit = (if cur + limit0 > boundary then boundary - cur else limit0)
         in (cur, limit) # plan_range_parts (cur + limit) fin))"
  by pat_completeness auto
termination
  by (relation "measure (\<lambda>(cur, fin). nat (fin - cur))") (auto simp: rangePartSize_def Let_def distrib_right go_div_boundary)

declare plan_range_parts.simps [simp del]

text \<open>The stitching of the parts fetched; \<open>first\<close> marks the first part and \<open>lead\<close> is its surplus.\<close>

primrec stitch :: "bool \<Rightarrow> int \<Rightarrow> (range_part \<times> bytes) list \<Rightarrow> int \<Rightarrow> bytes" where
  "stitch first lead [] wanted = []"
| "stitch first lead (e # rest) wanted = (case e of (p, b) \<Rightarrow>
     (if first \<and> lead > 0 \<and> blen b \<le> lead then stitch False lead rest wanted
      else
        (let b1 = (if first \<and> lead > 0 then drop (nat lead) b else b);
             b2 = (if blen b1 > wanted then take (nat wanted) b1 else b1)
         in if b2 = [] then []
            else if wanted - blen b2 \<le> 0 then b2
            else if blen b < snd p then b2
            else b2 @ stitch False lead rest (wanted - blen b2))))"

text \<open>Of several failing parts the group reports one, chosen by \<open>pick\<close>.\<close>

definition stream_range :: "bool \<Rightarrow> (tg_err list \<Rightarrow> tg_err) \<Rightarrow> (tg_doc \<Rightarrow> int \<Rightarrow> int \<Rightarrow> tg_err + bytes) \<Rightarrow> int \<Rightarrow> int \<Rightarrow> tg_doc \<Rightarrow> tg_err + bytes" where
  "stream_range api pick get_file offset len d =
     (if \<not> api then Inl NotConnected
      else
        (let aligned_start = go_div offset rangeAlignment * rangeAlignment;
             aligned_end = go_div (offset + len + rangeAlignment - 1) rangeAlignment * rangeAlignment;
             parts = plan_range_parts aligned_start aligned_end;
             got = map (\<lambda>p. get_file d (fst p) (snd p)) parts;
             errs = List.map_filter (\<lambda>r. case r of Inl e \<Rightarrow> Some e | Inr _ \<Rightarrow> None) got
         in if parts = [] then Inr []
            else if errs \<noteq> [] then Inl (if length parts = 1 then hd errs else pick errs)
            else Inr (stitch True (offset - aligned_start) (zip parts (map projr got)) len)))"

definition download_range :: "(nat \<Rightarrow> call_env) \<Rightarrow> (tg_err list \<Rightarrow> tg_err) \<Rightarrow> (nat \<Rightarrow> tg_doc \<Rightarrow> int \<Rightarrow> int \<Rightarrow> tg_err + bytes) \<Rightarrow> int \<Rightarrow> int \<Rightarrow> int \<Rightarrow> session
    \<Rightarrow> (tg_err + bytes) \<times> session" where
  "download_range E pick get_file msg offset len S =
     (if len \<le> 0 then (Inr [], S)
      else with_document E (\<lambda>i. stream_range (cl_api (E i)) pick (get_file i) offset len) msg S)"

section \<open>Uploads\<close>

datatype tg_update = UpdMessageID int int | UpdNewChannelMessage "int option" | UpdNewMessage "int option" | UpdOther
datatype tg_updates = ShortSent int | UpdatesList "tg_update list" | UpdatesCombined "tg_update list" | UpdatesOdd

fun id_from_update :: "tg_update \<Rightarrow> int option" where
  "id_from_update (UpdNewChannelMessage m) = m"
| "id_from_update (UpdNewMessage m) = m"
| "id_from_update _ = None"

definition find_id_by_random_id :: "tg_update list \<Rightarrow> int \<Rightarrow> tg_err + int" where
  "find_id_by_random_id us rid =
     (case find (\<lambda>u. case u of UpdMessageID i r \<Rightarrow> r = rid | _ \<Rightarrow> False) us of
        Some (UpdMessageID i r) \<Rightarrow> Inr i
      | _ \<Rightarrow> (case List.map_filter id_from_update us of [] \<Rightarrow> Inl (TgText ''no UpdateMessageID'') | i # _ \<Rightarrow> Inr i))"

definition extract_new_message_id :: "tg_updates \<Rightarrow> int \<Rightarrow> tg_err + int" where
  "extract_new_message_id u rid =
     (case u of
        ShortSent i \<Rightarrow> Inr i
      | UpdatesList us \<Rightarrow> find_id_by_random_id us rid
      | UpdatesCombined us \<Rightarrow> find_id_by_random_id us rid
      | UpdatesOdd \<Rightarrow> Inl (TgText ''no new-message update in response''))"

text \<open>
  The server is a parameter: \<open>send\<close> posts a media message under a random id and gives its message id.
  How an attempt goes: no client, the parts fail, the send is refused, its answer is lost, or it is answered with
  the updates given.
\<close>

datatype send_attempt = NoClient | PartsFail string | SendRefused string | AckLost string | Acked "int \<Rightarrow> tg_updates"

type_synonym 'v send = "int \<Rightarrow> bytes \<Rightarrow> string \<Rightarrow> 'v \<Rightarrow> int \<times> 'v"

definition try_upload_once :: "'v send \<Rightarrow> send_attempt \<Rightarrow> bytes \<Rightarrow> string \<Rightarrow> int \<Rightarrow> 'v \<Rightarrow> (tg_err + int) \<times> 'v" where
  "try_upload_once send a body cap rid V =
     (case a of
        NoClient \<Rightarrow> (Inl NotConnected, V)
      | PartsFail e \<Rightarrow> (Inl (TgText e), V)
      | SendRefused e \<Rightarrow> (Inl (TgText e), V)
      | AckLost e \<Rightarrow> (Inl (TgText e), snd (send rid body cap V))
      | Acked upd \<Rightarrow> (case send rid body cap V of (i, V1) \<Rightarrow> (extract_new_message_id (upd i) rid, V1)))"

definition is_retriable_upload_err :: "bool \<Rightarrow> tg_err \<Rightarrow> bool" where
  "is_retriable_upload_err ctx_done e =
     (\<not> ctx_done \<and>
      (e = NotConnected \<or>
       (case e of TgText s \<Rightarrow> list_ex (contains s) [''engine forcibly closed'', ''connection reset'', ''i/o timeout'', ''broken pipe'', ''unexpected EOF'']
        | _ \<Rightarrow> False)))"

definition uploadMaxAttempts :: nat where "uploadMaxAttempts = 4"
definition tgDocumentCap :: int where "tgDocumentCap = 2147483648"

text \<open>
  The loop over attempts numbered from 1; the pause before attempt \<open>k > 1\<close> takes \<open>2 ^ (k - 2)\<close> seconds unless the
  context ends it.  \<open>ue_others\<close> is what others do to the channel before attempt \<open>k\<close>.
\<close>

record 'v post_env =
  ue_send :: "'v send"
  ue_attempt :: "nat \<Rightarrow> send_attempt"
  ue_pause_ended :: "nat \<Rightarrow> bool"
  ue_ctx_done :: "nat \<Rightarrow> bool"
  ue_others :: "nat \<Rightarrow> 'v \<Rightarrow> 'v"

definition upload_pause :: "nat \<Rightarrow> int" where "upload_pause k = 2 ^ (k - 2)"

function upload_attempts :: "'v post_env \<Rightarrow> bytes \<Rightarrow> string \<Rightarrow> int \<Rightarrow> nat \<Rightarrow> tg_err \<Rightarrow> 'v \<Rightarrow> (tg_err + int) \<times> 'v" where
  "upload_attempts E body cap rid k last_err V =
     (if k > uploadMaxAttempts then (Inl last_err, V)
      else if k > 1 \<and> ue_pause_ended E k then (Inl CtxEnded, V)
      else (case try_upload_once (ue_send E) (ue_attempt E k) body cap rid (ue_others E k V) of
          (Inr i, V1) \<Rightarrow> (Inr i, V1)
        | (Inl e, V1) \<Rightarrow>
            if \<not> is_retriable_upload_err (ue_ctx_done E k) e then (Inl e, V1)
            else upload_attempts E body cap rid (k + 1) e V1))"
  by pat_completeness auto
termination by (relation "measure (\<lambda>(_, _, _, _, k, _, _). Suc uploadMaxAttempts - k)") auto

declare upload_attempts.simps [simp del]

definition upload_document :: "'v post_env \<Rightarrow> channel_config \<Rightarrow> string + bytes \<Rightarrow> string \<Rightarrow> string + int \<Rightarrow> 'v \<Rightarrow> (tg_err + int) \<times> 'v" where
  "upload_document E c reader cap rnd V =
     (case channel_peer c of
        Inl e \<Rightarrow> (Inl e, V)
      | Inr _ \<Rightarrow> (case reader of
          Inl e \<Rightarrow> (Inl (TgText e), V)
        | Inr body \<Rightarrow>
            if blen body \<ge> tgDocumentCap then (Inl (TgText ''over the document cap''), V)
            else (case rnd of
                Inl e \<Rightarrow> (Inl (TgText e), V)
              | Inr rid \<Rightarrow> upload_attempts E body cap rid 1 NotConnected V)))"

text \<open>A plain text message, sent once; \<open>post\<close> is the answer of \<open>messages.sendMessage\<close>.\<close>

definition post_message :: "call_env \<Rightarrow> string + int \<Rightarrow> (string \<Rightarrow> int \<Rightarrow> tg_err + tg_updates) \<Rightarrow> string \<Rightarrow> session \<Rightarrow> tg_err + int" where
  "post_message E rnd post text1 S =
     (case channel_peer (ss_channel S) of
        Inl e \<Rightarrow> Inl e
      | Inr _ \<Rightarrow> (case rnd of
          Inl e \<Rightarrow> Inl (TgText e)
        | Inr rid \<Rightarrow>
            if \<not> cl_api E then Inl NotConnected
            else (case post text1 rid of Inl e \<Rightarrow> Inl e | Inr upd \<Rightarrow> extract_new_message_id upd rid)))"

section \<open>What a range download asks for\<close>

lemma plan_done: "fin \<le> cur \<Longrightarrow> plan_range_parts cur fin = []"
  by (simp add: plan_range_parts.simps [of cur])

lemma plan_step:
  assumes "cur < fin" "0 \<le> cur"
  obtains limit where "plan_range_parts cur fin = (cur, limit) # plan_range_parts (cur + limit) fin" "0 < limit" "limit \<le> 1048576"
    "cur + limit \<le> fin" "cur div 1048576 = (cur + limit - 1) div 1048576"
    "limit = fin - cur \<or> limit = 1048576 \<or> cur + limit = (cur div 1048576 + 1) * 1048576"
proof -
  define bd where "bd = (cur div 1048576 + 1) * 1048576"
  define limit0 where "limit0 = (if cur + rangePartSize > fin then fin - cur else rangePartSize)"
  define limit where "limit = (if cur + limit0 > bd then bd - cur else limit0)"
  have eq: "plan_range_parts cur fin = (cur, limit) # plan_range_parts (cur + limit) fin"
    using assms by (simp add: plan_range_parts.simps [of cur] Let_def limit_def limit0_def bd_def)
  have bd: "cur < bd" "bd - 1048576 \<le> cur" unfolding bd_def by (simp_all add: distrib_right)
  have l: "0 < limit" "limit \<le> 1048576" "cur + limit \<le> fin" "cur + limit \<le> bd"
    using assms bd by (auto simp: limit_def limit0_def rangePartSize_def)
  have "(cur + limit - 1) div 1048576 = cur div 1048576"
  proof -
    have "bd - 1048576 \<le> cur + limit - 1" "cur + limit - 1 < bd" using l(1,4) bd by linarith+
    then show ?thesis unfolding bd_def by (intro int_div_pos_eq [of _ _ _ "cur + limit - 1 - cur div 1048576 * 1048576"]) (simp_all add: distrib_right)
  qed
  moreover have "limit = fin - cur \<or> limit = 1048576 \<or> cur + limit = bd" by (auto simp: limit_def limit0_def rangePartSize_def)
  ultimately show ?thesis using that eq l unfolding bd_def by metis
qed

lemma parts_legal:
  assumes "0 \<le> start" "4096 dvd start" "4096 dvd fin" "start \<le> fin"
  shows "(\<forall>(off, lim)\<in>set (plan_range_parts start fin). 4096 dvd off \<and> 4096 dvd lim \<and> 0 < lim \<and> lim \<le> 1048576 \<and>
      off div 1048576 = (off + lim - 1) div 1048576) \<and>
    foldl (\<lambda>pos (off, lim). if off = pos then pos + lim else -1) start (plan_range_parts start fin) = fin"
  using assms
proof (induction "nat (fin - start)" arbitrary: start rule: less_induct)
  case (less cur)
  show ?case
  proof (cases "cur < fin")
    case False
    then show ?thesis using less(5) by (simp add: plan_done)
  next
    case True
    define limit where "limit = snd (hd (plan_range_parts cur fin))"
    have l: "plan_range_parts cur fin = (cur, limit) # plan_range_parts (cur + limit) fin" "0 < limit" "limit \<le> 1048576"
      "cur + limit \<le> fin" "cur div 1048576 = (cur + limit - 1) div 1048576"
      "limit = fin - cur \<or> limit = 1048576 \<or> cur + limit = (cur div 1048576 + 1) * 1048576"
      using plan_step [OF True less(2)] unfolding limit_def by (metis list.sel(1) snd_conv)+
    have al: "4096 dvd limit"
      using l(6)
    proof (elim disjE)
      assume "limit = fin - cur" then show ?thesis using less(3,4) by simp
    next
      assume "cur + limit = (cur div 1048576 + 1) * 1048576"
      then have "limit = (cur div 1048576 + 1) * 1048576 - cur" by simp
      moreover have "4096 dvd (cur div 1048576 + 1) * (1048576 :: int)" by (rule dvd_mult) simp
      ultimately show ?thesis using less(3) by simp
    qed simp
    have IH: "(\<forall>(off, lim)\<in>set (plan_range_parts (cur + limit) fin). 4096 dvd off \<and> 4096 dvd lim \<and> 0 < lim \<and> lim \<le> 1048576 \<and>
        off div 1048576 = (off + lim - 1) div 1048576) \<and>
      foldl (\<lambda>pos (off, lim). if off = pos then pos + lim else -1) (cur + limit) (plan_range_parts (cur + limit) fin) = fin"
      by (rule less(1)) (use l(2,4) less(2-4) al True in auto)
    show ?thesis unfolding l(1) using IH l(2,3,5) al less(3) by simp
  qed
qed

text \<open>C31.  Every request of a ranged download obeys Telegram's rules: aligned to 4 KiB, not empty, at most 1 MiB and within
  one MiB; and the requests follow each other without gap from the aligned start to the aligned end.
\<close>
theorem range_parts_are_legal:
  assumes "0 \<le> start" "4096 dvd start" "4096 dvd fin" "start \<le> fin"
  shows "(\<forall>(off, lim)\<in>set (plan_range_parts start fin). 4096 dvd off \<and> 4096 dvd lim \<and> 0 < lim \<and> lim \<le> 1048576 \<and>
      off div 1048576 = (off + lim - 1) div 1048576) \<and>
    foldl (\<lambda>pos (off, lim). if off = pos then pos + lim else -1) start (plan_range_parts start fin) = fin"
  using assms by (rule parts_legal)

theorem range_parts_are_legal_witness:
  "plan_range_parts 4096 2097152 \<noteq> [] \<and>
   foldl (\<lambda>pos (off, lim). if off = pos then pos + lim else -1) 4096 (plan_range_parts 4096 2097152) = (2097152 :: int)"
proof -
  have "plan_range_parts 4096 2097152 \<noteq> []" by (simp add: plan_range_parts.simps [of 4096] Let_def)
  moreover have "foldl (\<lambda>pos (off, lim). if off = pos then pos + lim else -1) 4096 (plan_range_parts 4096 2097152) = (2097152 :: int)"
    using range_parts_are_legal [of 4096 2097152] by simp
  ultimately show ?thesis ..
qed

section \<open>Ranges come out exact\<close>

definition part_of :: "bytes \<Rightarrow> int \<Rightarrow> int \<Rightarrow> bytes" where
  "part_of doc off n = take (nat n) (drop (nat off) doc)"

abbreviation exact_parts :: "bytes \<Rightarrow> range_part list \<Rightarrow> (range_part \<times> bytes) list" where
  "exact_parts doc ps \<equiv> map (\<lambda>p. (p, part_of doc (fst p) (snd p))) ps"

lemma plan_from: "p \<in> set (plan_range_parts cur fin) \<Longrightarrow> 0 \<le> cur \<Longrightarrow> cur \<le> fst p"
proof (induction "nat (fin - cur)" arbitrary: cur rule: less_induct)
  case (less cur)
  show ?case
  proof (cases "cur < fin")
    case True
    obtain limit where l: "plan_range_parts cur fin = (cur, limit) # plan_range_parts (cur + limit) fin" "0 < limit"
      using plan_step [OF True less(3)] by metis
    have "p = (cur, limit) \<or> p \<in> set (plan_range_parts (cur + limit) fin)" using less(2) l(1) by simp
    then show ?thesis using less(1) [of "cur + limit"] l(2) less(3) True by fastforce
  qed (use less(2) in \<open>simp add: plan_done\<close>)
qed

lemma stitch_empty: "\<forall>r\<in>set rs. snd r = [] \<Longrightarrow> stitch False lead rs wanted = []"
  by (cases rs) (auto simp: Let_def split: prod.splits)

lemma stitch_exact:
  assumes "0 \<le> cur" "0 \<le> lead" "first \<or> lead = 0" "0 < wanted" "cur + lead + wanted \<le> fin"
    "first \<Longrightarrow> lead < snd (hd (plan_range_parts cur fin))"
  shows "stitch first lead (exact_parts doc (plan_range_parts cur fin)) wanted = part_of doc (cur + lead) wanted"
  using assms
proof (induction "nat (fin - cur)" arbitrary: cur lead first wanted rule: less_induct)
  case (less cur lead first wanted)
  have "cur < fin" using less.prems by linarith
  from plan_step [OF this less.prems(1)] obtain limit where l:
    "plan_range_parts cur fin = (cur, limit) # plan_range_parts (cur + limit) fin" "0 < limit" "cur + limit \<le> fin" by metis
  have lead: "lead < limit" using less.prems(3,6) l by auto
  let ?rest = "exact_parts doc (plan_range_parts (cur + limit) fin)"
  let ?b = "part_of doc cur limit" and ?X = "drop (nat (cur + lead)) doc" and ?b1 = "part_of doc (cur + lead) (limit - lead)"
  have b1: "(if first \<and> lead > 0 then drop (nat lead) ?b else ?b) = ?b1"
  proof -
    have "drop (nat lead) (take (nat limit) (drop (nat cur) doc)) = take (nat limit - nat lead) (drop (nat lead + nat cur) doc)"
      by (simp add: drop_take)
    moreover have "nat limit - nat lead = nat (limit - lead)" "nat lead + nat cur = nat (cur + lead)" using less.prems(1,2) lead by auto
    ultimately show ?thesis using less.prems(2,3) by (auto simp: part_of_def)
  qed
  have ends: "?X = [] \<or> blen ?b \<ge> lead + 1" "blen ?b < limit \<Longrightarrow> ?b1 = ?X" "blen ?b < limit \<Longrightarrow> drop (nat (cur + limit)) doc = []"
    "blen ?b \<le> limit" "blen ?b \<ge> limit \<Longrightarrow> blen ?b1 = limit - lead"
    using less.prems(1,2) lead by (auto simp: part_of_def blen_def)
  have step: "stitch first lead (exact_parts doc (plan_range_parts cur fin)) wanted =
     (if first \<and> lead > 0 \<and> blen ?b \<le> lead then stitch False lead ?rest wanted
      else (let b2 = (if blen ?b1 > wanted then take (nat wanted) ?b1 else ?b1)
         in if b2 = [] then [] else if wanted - blen b2 \<le> 0 then b2 else if blen ?b < limit then b2
            else b2 @ stitch False lead ?rest (wanted - blen b2)))"
    unfolding l(1) list.map(2) fst_conv snd_conv stitch.simps prod.case b1 Let_def ..
  show ?case
  proof (cases "first \<and> lead > 0 \<and> blen ?b \<le> lead")
    case True
    then have "?X = []" using ends(1) by auto
    then have short: "length doc \<le> nat (cur + lead)" by simp
    have "part_of doc (fst p) (snd p) = []" if "p \<in> set (plan_range_parts (cur + limit) fin)" for p
      using plan_from [OF that] less.prems(1) l(2) lead short by (simp add: part_of_def)
    then have "stitch False lead ?rest wanted = []" by (intro stitch_empty) auto
    moreover have "part_of doc (cur + lead) wanted = []" using \<open>?X = []\<close> by (simp add: part_of_def)
    ultimately show ?thesis unfolding step using True by simp
  next
    case False
    let ?b2 = "if blen ?b1 > wanted then take (nat wanted) ?b1 else ?b1"
    have w: "0 < nat wanted" using less.prems(4) by simp
    consider (none) "?b2 = []" | (full) "?b2 \<noteq> []" "wanted \<le> blen ?b2" | (eof) "?b2 \<noteq> []" "blen ?b2 < wanted" "blen ?b < limit"
      | (more) "?b2 \<noteq> []" "blen ?b2 < wanted" "limit \<le> blen ?b" by linarith
    then show ?thesis
    proof cases
      case none
      then have "?b1 = []" using w by (auto split: if_splits)
      then have "?X = []" using lead by (auto simp: part_of_def)
      then have "part_of doc (cur + lead) wanted = []" by (simp add: part_of_def)
      then show ?thesis unfolding step Let_def if_not_P [OF False] if_P [OF none] by simp
    next
      case full
      then have "nat wanted \<le> length ?b1" using w by (auto simp: blen_def split: if_splits)
      moreover have "length ?b1 \<le> nat (limit - lead)" by (simp add: part_of_def)
      ultimately have "nat wanted \<le> nat (limit - lead)" by (rule le_trans)
      then have "take (nat wanted) ?b1 = part_of doc (cur + lead) wanted" by (simp add: part_of_def min_def)
      moreover have "?b2 = take (nat wanted) ?b1" using full(2) by (auto simp: blen_def)
      ultimately show ?thesis using full unfolding step Let_def if_not_P [OF False] by simp
    next
      case eof
      have "?b2 = ?X" using ends(2) [OF eof(3)] eof(2) by (auto simp: blen_def split: if_splits)
      moreover have "part_of doc (cur + lead) wanted = ?X" using calculation eof(2) by (simp add: part_of_def blen_def)
      ultimately show ?thesis using eof unfolding step Let_def if_not_P [OF False] by simp
    next
      case more
      have b2: "?b2 = ?b1" using more(2) by (auto simp: blen_def split: if_splits)
      then have len: "blen ?b1 = limit - lead" "limit - lead < wanted" using ends(5) more by auto
      have "stitch False 0 ?rest (wanted - (limit - lead)) = part_of doc (cur + limit + 0) (wanted - (limit - lead))"
        by (rule less.hyps) (use less.prems l len lead in auto)
      moreover have "stitch False lead rs v = stitch False 0 rs v" for rs v
        by (induction rs arbitrary: v) (auto simp: Let_def)
      moreover have "?b1 @ part_of doc (cur + limit) (wanted - (limit - lead)) = part_of doc (cur + lead) wanted"
      proof -
        have "nat wanted = nat (limit - lead) + nat (wanted - (limit - lead))" "nat (cur + limit) = nat (limit - lead) + nat (cur + lead)"
          using len(2) lead less.prems(1,2) by auto
        then show ?thesis by (simp add: part_of_def take_add)
      qed
      ultimately show ?thesis using more b2 len unfolding step Let_def if_not_P [OF False] by simp
    qed
  qed
qed

definition honest_file :: "bytes \<Rightarrow> (tg_doc \<Rightarrow> int \<Rightarrow> int \<Rightarrow> tg_err + bytes) \<Rightarrow> bool" where
  "honest_file doc get_file \<longleftrightarrow> (\<forall>d off n b. get_file d off n = Inr b \<longrightarrow> b = part_of doc off n)"

lemma align_down: "0 \<le> x \<Longrightarrow> 0 \<le> go_div x rangeAlignment * rangeAlignment \<and> go_div x rangeAlignment * rangeAlignment \<le> x \<and>
    x < go_div x rangeAlignment * rangeAlignment + 4096 \<and> 4096 dvd go_div x rangeAlignment * rangeAlignment"
  by (auto simp: rangeAlignment_def)

lemma map_filter_errs: "List.map_filter (\<lambda>r. case r of Inl e \<Rightarrow> Some e | Inr _ \<Rightarrow> None) rs = [] \<Longrightarrow> \<forall>r\<in>set rs. is_ok r"
  by (induction rs) (auto simp: List.map_filter_simps split: sum.splits)

lemma stream_range_exact:
  assumes "0 \<le> offset" "0 < len" "honest_file doc get_file"
  shows "stream_range api pick get_file offset len d = Inr b \<Longrightarrow> b = part_of doc offset len"
    and "api \<Longrightarrow> \<forall>off n. is_ok (get_file d off n) \<Longrightarrow> is_ok (stream_range api pick get_file offset len d)"
proof -
  define lo where "lo = go_div offset rangeAlignment * rangeAlignment"
  define hi where "hi = go_div (offset + len + rangeAlignment - 1) rangeAlignment * rangeAlignment"
  let ?parts = "plan_range_parts lo hi"
  let ?got = "map (\<lambda>p. get_file d (fst p) (snd p)) ?parts"
  have lo: "0 \<le> lo" "lo \<le> offset" "offset < lo + 4096" "4096 dvd lo" using align_down [OF assms(1)] by (auto simp: lo_def)
  have "0 \<le> offset + len + rangeAlignment - 1" using assms(1,2) by (simp add: rangeAlignment_def)
  note u = align_down [OF this, folded hi_def]
  have hi: "offset + len \<le> hi" "4096 dvd hi" using u by (simp_all add: rangeAlignment_def)
  have lt: "lo < hi" using lo(2) hi(1) assms(2) by simp
  obtain limit where l: "?parts = (lo, limit) # plan_range_parts (lo + limit) hi" "0 < limit" using plan_step [OF lt lo(1)] by metis
  have "4096 dvd limit" using parts_legal [OF lo(1,4) hi(2)] lt l(1) by simp
  then have first: "offset - lo < snd (hd ?parts)" using l lo(3) zdvd_imp_le [of 4096 limit] by simp
  have ne: "?parts \<noteq> []" using l(1) by simp
  have st: "stream_range api pick get_file offset len d = (if \<not> api then Inl NotConnected
      else if List.map_filter (\<lambda>r. case r of Inl e \<Rightarrow> Some e | Inr _ \<Rightarrow> None) ?got \<noteq> []
        then Inl (if length ?parts = 1 then hd (List.map_filter (\<lambda>r. case r of Inl e \<Rightarrow> Some e | Inr _ \<Rightarrow> None) ?got)
          else pick (List.map_filter (\<lambda>r. case r of Inl e \<Rightarrow> Some e | Inr _ \<Rightarrow> None) ?got))
        else Inr (stitch True (offset - lo) (zip ?parts (map projr ?got)) len))"
    unfolding stream_range_def Let_def lo_def [symmetric] hi_def [symmetric] using ne by simp
  show "b = part_of doc offset len" if r: "stream_range api pick get_file offset len d = Inr b"
  proof -
    have none: "List.map_filter (\<lambda>r. case r of Inl e \<Rightarrow> Some e | Inr _ \<Rightarrow> None) ?got = []" using r st by (auto split: if_splits)
    have "projr (get_file d (fst p) (snd p)) = part_of doc (fst p) (snd p)" if "p \<in> set ?parts" for p
    proof -
      have "is_ok (get_file d (fst p) (snd p))" using map_filter_errs [OF none] that by auto
      then show ?thesis using assms(3) by (auto simp: honest_file_def elim: is_okE)
    qed
    then have "zip ?parts (map projr ?got) = exact_parts doc ?parts" by (simp add: zip_map2 zip_same_conv_map)
    moreover have "b = stitch True (offset - lo) (zip ?parts (map projr ?got)) len" using r st none by (auto split: if_splits)
    ultimately show ?thesis
      using stitch_exact [OF lo(1), of "offset - lo" True len hi doc] lo hi assms(2) first by simp
  qed
  show "is_ok (stream_range api pick get_file offset len d)" if "api" "\<forall>off n. is_ok (get_file d off n)"
  proof -
    have "\<exists>v. get_file d (fst p) (snd p) = Inr v" for p using that(2) by (metis is_okE)
    then have "List.map_filter (\<lambda>r. case r of Inl e \<Rightarrow> Some e | Inr _ \<Rightarrow> None) (map (\<lambda>p. get_file d (fst p) (snd p)) ps) = []" for ps
      by (induction ps) (auto simp: List.map_filter_simps split: sum.splits, metis Inl_Inr_False)
    then show ?thesis unfolding st using that(1) by simp
  qed
qed

text \<open>C16.  A ranged download gives exactly the bytes asked for, or those the document has of them, however they are
  split over requests and wherever they lie; it gives them when its calls are answered, and also when the
  cached reference turns out expired and the message gives a fresh one.
\<close>
theorem range_download_exact:
  assumes "download_range E pick get_file msg offset len S = (r, S')" "0 \<le> offset" "0 < len" "\<forall>i. honest_file doc (get_file i)"
    "fetch_document (E 0) msg S = (Inr d, S1)"
  shows "(\<forall>b. r = Inr b \<longrightarrow> b = part_of doc offset len) \<and>
    (cl_api (E 0) \<and> (\<forall>off n. is_ok (get_file 0 d off n)) \<longrightarrow> is_ok r) \<and>
    (stream_range (cl_api (E 0)) pick (get_file 0) offset len d = Inl (TgRpc ''FILE_REFERENCE_EXPIRED'') \<and>
       (\<exists>d2 S2. refresh_document (E 1) msg (invalidate_document msg S1) = (Inr d2, S2) \<and> (\<forall>off n. is_ok (get_file 1 d2 off n))) \<and>
       cl_api (E 1) \<longrightarrow> is_ok r)"
proof -
  note ex = stream_range_exact [OF assms(2,3)]
  have h: "honest_file doc (get_file i)" for i using assms(4) by blast
  have w: "with_document E (\<lambda>i. stream_range (cl_api (E i)) pick (get_file i) offset len) msg S = (r, S')"
    using assms(1,3) by (simp add: download_range_def)
  show ?thesis
  proof (intro conjI allI impI)
    fix b assume "r = Inr b"
    then show "b = part_of doc offset len"
      using w assms(5) ex(1) [OF h] by (auto simp: with_document_def split: sum.splits if_splits prod.splits)
  next
    assume "cl_api (E 0) \<and> (\<forall>off n. is_ok (get_file 0 d off n))"
    then obtain v where "stream_range (cl_api (E 0)) pick (get_file 0) offset len d = Inr v" using ex(2) [OF h [of 0]] by (metis is_okE)
    then have "r = Inr v" using w assms(5) by (auto simp: with_document_def)
    then show "is_ok r" by simp
  next
    assume a: "stream_range (cl_api (E 0)) pick (get_file 0) offset len d = Inl (TgRpc ''FILE_REFERENCE_EXPIRED'') \<and>
       (\<exists>d2 S2. refresh_document (E 1) msg (invalidate_document msg S1) = (Inr d2, S2) \<and> (\<forall>off n. is_ok (get_file 1 d2 off n))) \<and> cl_api (E 1)"
    then obtain d2 S2 where d2: "refresh_document (E 1) msg (invalidate_document msg S1) = (Inr d2, S2)" "\<forall>off n. is_ok (get_file 1 d2 off n)" by blast
    have "is_ok (stream_range (cl_api (E 1)) pick (get_file 1) offset len d2)" using ex(2) [OF h [of 1]] a d2(2) by blast
    then show "is_ok r" using w assms(5) a d2(1) by (auto simp: with_document_def ref_expired_def)
  qed
qed

definition one_file :: "bytes \<Rightarrow> tg_doc \<Rightarrow> int \<Rightarrow> int \<Rightarrow> tg_err + bytes" where
  "one_file doc = (\<lambda>d off n. if td_ref d = 7 then Inr (part_of doc off n) else Inl (TgRpc ''FILE_REFERENCE_EXPIRED''))"

definition stale_session :: session where
  "stale_session = \<lparr>ss_channel = \<lparr>cc_id = 5, cc_hash = 6, cc_title = [], cc_username = []\<rparr>,
     ss_docs = [(3, (\<lparr>td_id = 1, td_hash = 2, td_ref = 4\<rparr>, 0))], ss_swept = Some 0\<rparr>"

definition fresh_call :: call_env where
  "fresh_call = \<lparr>cl_api = True, cl_now = 1, cl_msgs = MsgsGot [TgMessage 3 (DocMedia (Some \<lparr>td_id = 1, td_hash = 2, td_ref = 7\<rparr>)) []]\<rparr>"

lemma stale_range: "stream_range True hd (one_file [1, 2, 3, 4]) 1 2 \<lparr>td_id = 1, td_hash = 2, td_ref = 4\<rparr> = Inl (TgRpc ''FILE_REFERENCE_EXPIRED'')"
  by (simp add: stream_range_def one_file_def rangeAlignment_def rangePartSize_def plan_range_parts.simps [of 0] plan_done Let_def List.map_filter_simps)

theorem range_download_exact_witness:
  "\<exists>S'. download_range (\<lambda>_. fresh_call) hd (\<lambda>_. one_file [1, 2, 3, 4]) 3 1 2 stale_session = (Inr [2, 3], S')"
proof -
  obtain r S' where d: "download_range (\<lambda>_. fresh_call) hd (\<lambda>_. one_file [1, 2, 3, 4]) 3 1 2 stale_session = (r, S')" by fastforce
  have h: "\<forall>i. honest_file [1, 2, 3, 4] (one_file [1, 2, 3, 4])" by (simp add: honest_file_def one_file_def)
  have f: "fetch_document fresh_call 3 stale_session = (Inr \<lparr>td_id = 1, td_hash = 2, td_ref = 4\<rparr>, stale_session)"
    by (simp add: fetch_document_def stale_session_def fresh_call_def docCacheTTL_def)
  have g: "\<exists>d2 S2. refresh_document fresh_call 3 (invalidate_document 3 stale_session) = (Inr d2, S2) \<and> (\<forall>off n. is_ok (one_file [1, 2, 3, 4] d2 off n))"
    by (simp add: refresh_document_def get_message_def channel_peer_def require_channel_def invalidate_document_def stale_session_def fresh_call_def one_file_def)
  have "is_ok r" "\<forall>b. r = Inr b \<longrightarrow> b = part_of [1, 2, 3, 4] 1 2"
    using range_download_exact [OF d _ _ h f] stale_range g by (simp_all add: fresh_call_def)
  then show ?thesis using d by (auto simp: part_of_def elim!: is_okE)
qed

end
