(* ===== verification/SessionProps.thy ===== *)
theory SessionProps
  imports Session
begin

text \<open>
  What an upload leaves in the channel when its attempts fail half-way, and how a marked channel id is read.
\<close>

section \<open>An upload posts one message\<close>

text \<open>What the server holds, and what Telegram promises of the random id: a second send under it makes no second message.\<close>

record sent_msg =
  sm_id :: int
  sm_rid :: int
  sm_body :: bytes
  sm_caption :: string

definition random_id_dedups :: "'v send \<Rightarrow> ('v \<Rightarrow> sent_msg list) \<Rightarrow> bool" where
  "random_id_dedups send posts \<longleftrightarrow> (\<forall>rid body cap V. case send rid body cap V of (i, V1) \<Rightarrow>
     (case filter (\<lambda>m. sm_rid m = rid) (posts V) of
        [] \<Rightarrow> posts V1 = posts V @ [\<lparr>sm_id = i, sm_rid = rid, sm_body = body, sm_caption = cap\<rparr>]
      | m # _ \<Rightarrow> i = sm_id m \<and> posts V1 = posts V))"

text \<open>An answer names the message made for the random id, and no other for it.\<close>

definition honest_ack :: "int \<Rightarrow> send_attempt \<Rightarrow> bool" where
  "honest_ack rid a \<longleftrightarrow> (\<forall>upd. a = Acked upd \<longrightarrow> (\<forall>i. \<exists>us. upd i = UpdatesList us \<and> UpdMessageID i rid \<in> set us \<and>
     (\<forall>j. UpdMessageID j rid \<in> set us \<longrightarrow> j = i)))"

lemma id_found:
  assumes "UpdMessageID i rid \<in> set us" "\<forall>j. UpdMessageID j rid \<in> set us \<longrightarrow> j = i"
  shows "find_id_by_random_id us rid = Inr i"
proof -
  have "\<exists>u. find (\<lambda>u. case u of UpdMessageID i r \<Rightarrow> r = rid | _ \<Rightarrow> False) us = Some u"
    using assms(1) by (fastforce simp: find_None_iff simp flip: not_None_eq)
  then obtain u where u: "find (\<lambda>u. case u of UpdMessageID i r \<Rightarrow> r = rid | _ \<Rightarrow> False) us = Some u" ..
  then obtain n where "n < length us" "u = us ! n" and P: "case u of UpdMessageID i r \<Rightarrow> r = rid | _ \<Rightarrow> False"
    unfolding find_Some_iff by blast
  then have in_us: "u \<in> set us" by simp
  have "u = UpdMessageID i rid" by (rule tg_update.exhaust [of u]) (use assms(2) P in_us in auto)
  then show ?thesis using u by (simp add: find_id_by_random_id_def)
qed

abbreviation posted :: "int \<Rightarrow> sent_msg list \<Rightarrow> sent_msg list" where
  "posted rid ms \<equiv> filter (\<lambda>m. sm_rid m = rid) ms"

lemma send_posts:
  fixes posts :: "'v \<Rightarrow> sent_msg list"
  assumes "random_id_dedups send posts" "send rid body cap V = (i, V1)" "posted rid (posts V) = [] \<or>
      (\<exists>j. posted rid (posts V) = [\<lparr>sm_id = j, sm_rid = rid, sm_body = body, sm_caption = cap\<rparr>])"
  shows "posted rid (posts V1) = [\<lparr>sm_id = i, sm_rid = rid, sm_body = body, sm_caption = cap\<rparr>]"
proof -
  have "case send rid body cap V of (i, V1) \<Rightarrow>
     (case posted rid (posts V) of
        [] \<Rightarrow> posts V1 = posts V @ [\<lparr>sm_id = i, sm_rid = rid, sm_body = body, sm_caption = cap\<rparr>]
      | m # _ \<Rightarrow> i = sm_id m \<and> posts V1 = posts V)"
    using assms(1) unfolding random_id_dedups_def by (elim allE)
  then have "case posted rid (posts V) of
        [] \<Rightarrow> posts V1 = posts V @ [\<lparr>sm_id = i, sm_rid = rid, sm_body = body, sm_caption = cap\<rparr>]
      | m # _ \<Rightarrow> i = sm_id m \<and> posts V1 = posts V"
    unfolding assms(2) prod.case .
  then show ?thesis using assms(3) by auto
qed

lemma attempts_post_once:
  fixes posts :: "'v \<Rightarrow> sent_msg list"
  assumes "random_id_dedups (ue_send E) posts" "\<forall>k V. posted rid (posts (ue_others E k V)) = posted rid (posts V)" "\<forall>k. honest_ack rid (ue_attempt E k)"
    "posted rid (posts V) = [] \<or> (\<exists>j. posted rid (posts V) = [\<lparr>sm_id = j, sm_rid = rid, sm_body = body, sm_caption = cap\<rparr>])"
    "upload_attempts E body cap rid k err V = (r, V')"
  shows "(posted rid (posts V') = [] \<or> (\<exists>j. posted rid (posts V') = [\<lparr>sm_id = j, sm_rid = rid, sm_body = body, sm_caption = cap\<rparr>])) \<and>
    (\<forall>i. r = Inr i \<longrightarrow> posted rid (posts V') = [\<lparr>sm_id = i, sm_rid = rid, sm_body = body, sm_caption = cap\<rparr>])"
  using assms(4,5)
proof (induction "Suc uploadMaxAttempts - k" arbitrary: k err V rule: less_induct)
  case (less k err V)
  consider (over) "k > uploadMaxAttempts" | (ended) "k \<le> uploadMaxAttempts" "k > 1 \<and> ue_pause_ended E k"
    | (run) "k \<le> uploadMaxAttempts" "\<not> (k > 1 \<and> ue_pause_ended E k)" by linarith
  then show ?case
  proof cases
    case run
    obtain x V1 where t: "try_upload_once (ue_send E) (ue_attempt E k) body cap rid (ue_others E k V) = (x, V1)" by fastforce
    obtain i V2 where s: "ue_send E rid body cap (ue_others E k V) = (i, V2)" by fastforce
    have pre: "posted rid (posts (ue_others E k V)) = [] \<or>
        (\<exists>j. posted rid (posts (ue_others E k V)) = [\<lparr>sm_id = j, sm_rid = rid, sm_body = body, sm_caption = cap\<rparr>])"
      using less.prems(1) assms(2) by simp
    note sent = send_posts [OF assms(1) s pre]
    have V1: "posted rid (posts V1) = [] \<or> (\<exists>j. posted rid (posts V1) = [\<lparr>sm_id = j, sm_rid = rid, sm_body = body, sm_caption = cap\<rparr>])"
      using t pre sent s by (auto simp: try_upload_once_def split: send_attempt.splits)
    have ok: "posted rid (posts V1) = [\<lparr>sm_id = j, sm_rid = rid, sm_body = body, sm_caption = cap\<rparr>]" if "x = Inr j" for j
    proof -
      have "\<exists>upd. ue_attempt E k = Acked upd" using t \<open>x = Inr j\<close> by (auto simp: try_upload_once_def split: send_attempt.splits)
      then obtain upd where u: "ue_attempt E k = Acked upd" ..
      obtain us where us: "upd i = UpdatesList us" "UpdMessageID i rid \<in> set us" "\<forall>l. UpdMessageID l rid \<in> set us \<longrightarrow> l = i"
        using assms(3) u unfolding honest_ack_def by blast
      show ?thesis using t that u us(1) id_found [OF us(2,3)] s sent by (simp add: try_upload_once_def extract_new_message_id_def)
    qed
    note eq = less.prems(2) [unfolded upload_attempts.simps [of E body cap rid k] t]
    show ?thesis
    proof (cases x)
      case (Inr j)
      then show ?thesis using eq run ok [OF Inr] by auto
    next
      case (Inl e)
      show ?thesis
      proof (cases "is_retriable_upload_err (ue_ctx_done E k) e")
        case True
        then have "upload_attempts E body cap rid (k + 1) e V1 = (r, V')" using eq run Inl by auto
        then show ?thesis using less.hyps [of "k + 1" V1 e] V1 run(1) by simp
      qed (use eq run Inl V1 in auto)
    qed
  qed (use less.prems in \<open>auto simp: upload_attempts.simps [of E body cap rid k]\<close>)
qed

text \<open>C17.  However many attempts are made, lost or refused, an upload leaves at most one message under its random id, with the body and
  caption asked for; and the id it gives is that message's.
\<close>
theorem upload_posts_once:
  assumes "random_id_dedups (ue_send E) posts" "\<forall>k V. posted rid (posts (ue_others E k V)) = posted rid (posts V)" "\<forall>k. honest_ack rid (ue_attempt E k)"
    "posted rid (posts V) = []" "upload_document E c (Inr body) cap (Inr rid) V = (r, V')"
  shows "length (posted rid (posts V')) \<le> 1 \<and>
    (\<forall>i. r = Inr i \<longrightarrow> posted rid (posts V') = [\<lparr>sm_id = i, sm_rid = rid, sm_body = body, sm_caption = cap\<rparr>])"
proof (cases "is_ok (channel_peer c) \<and> \<not> blen body \<ge> tgDocumentCap")
  case True
  then have "upload_attempts E body cap rid 1 NotConnected V = (r, V')"
    using assms(5) by (auto simp: upload_document_def split: sum.splits)
  then show ?thesis using attempts_post_once [OF assms(1-3), of V body cap 1 NotConnected r V'] assms(4) by auto
next
  case False
  then show ?thesis using assms(4,5) by (auto simp: upload_document_def split: sum.splits if_splits)
qed

text \<open>A server for the witness: a list of messages, the next id being its length.\<close>

definition list_send :: "sent_msg list send" where
  "list_send rid body cap V =
     (case filter (\<lambda>m. sm_rid m = rid) V of m # _ \<Rightarrow> (sm_id m, V)
      | [] \<Rightarrow> (int (length V), V @ [\<lparr>sm_id = int (length V), sm_rid = rid, sm_body = body, sm_caption = cap\<rparr>]))"

theorem upload_posts_once_witness:
  "let E = \<lparr>ue_send = list_send, ue_attempt = (\<lambda>k. if k = 1 then AckLost ''unexpected EOF'' else Acked (\<lambda>i. UpdatesList [UpdMessageID i 9])),
       ue_pause_ended = (\<lambda>_. False), ue_ctx_done = (\<lambda>_. False), ue_others = (\<lambda>_ V. V)\<rparr>;
       out = upload_document E \<lparr>cc_id = 5, cc_hash = 6, cc_title = [], cc_username = []\<rparr> (Inr [1, 2]) ''c'' (Inr 9) []
   in fst out = Inr 0 \<and> length (posted 9 (snd out)) \<le> 1"
proof -
  let ?E = "\<lparr>ue_send = list_send, ue_attempt = (\<lambda>k. if k = 1 then AckLost ''unexpected EOF'' else Acked (\<lambda>i. UpdatesList [UpdMessageID i 9])),
       ue_pause_ended = (\<lambda>_. False), ue_ctx_done = (\<lambda>_. False), ue_others = (\<lambda>_ V. V)\<rparr>"
  let ?out = "upload_document ?E \<lparr>cc_id = 5, cc_hash = 6, cc_title = [], cc_username = []\<rparr> (Inr [1, 2]) ''c'' (Inr 9) []"
  have d: "random_id_dedups (ue_send ?E) (\<lambda>V. V)" by (auto simp: random_id_dedups_def list_send_def split: list.splits)
  have h: "\<forall>k. honest_ack 9 (ue_attempt ?E k)" by (simp add: honest_ack_def)
  have out: "?out = (fst ?out, snd ?out)" by simp
  have "length (posted 9 (snd ?out)) \<le> 1" by (rule upload_posts_once [OF d _ h _ out, THEN conjunct1]) simp_all
  moreover have "fst ?out = Inr 0" by code_simp
  ultimately show ?thesis by (simp add: Let_def)
qed

section \<open>The channel's id\<close>

text \<open>A channel given in the marked form, -100 before the decimal id, is found under that id.\<close>
theorem marked_ids_resolve:
  assumes "0 < i" "i < 10 ^ 15" "fmt_int (- m) = ''100'' @ fmt_int i" "- (2 ^ 63) < m"
  shows "normalize_channel_id m = Inr i"
proof -
  have "m < 0"
  proof (rule ccontr)
    assume "\<not> m < 0"
    then have "m = 0 \<or> hd (fmt_int (- m)) = CHR ''-''" by (simp add: fmt_int_def)
    then show False using assms(3) by (auto simp: fmt_int_def fmt_nat.simps)
  qed
  moreover have "fmt_int i \<noteq> []" using fmt_int_last [of i] by auto
  ultimately show ?thesis
    using assms parse_fmt_int [of i] by (simp add: normalize_channel_id_def to_int64_id Let_def)
qed

end
