(* ===== verification/Tracker.thy ===== *)
theory Tracker
  imports Strconv Lru "HOL-Library.AList" "HOL-Library.Multiset" "HOL-Library.Sublist"
begin

text \<open>
  The record of the RPCs a daemon issues (\<open>internal/tg/tracker.go\<close>): the ring of recent requests shown to the
  operator, and the counts read by the adaptive rate limiter and the watchdog, which must not
  depend on the ring.  A call holds the lock throughout, so a run is a sequence of calls.  Times are nanoseconds,
  None the zero time; counts are unbounded.
\<close>

section \<open>State\<close>

record rpc_request =
  rq_id :: int
  rq_method :: string
  rq_started :: int
  rq_duration :: int
  rq_bytes :: int
  rq_err :: string
  rq_in_flight :: bool
  rq_flood :: int

record method_totals =
  mc_method :: string
  mc_ok :: int
  mc_err :: int
  mc_flood :: int
  mc_bytes :: int

record pending_rpc =
  pr_method :: string
  pr_started :: int
  pr_tx :: int

record tracker =
  tk_ring :: "rpc_request list"
  tk_head :: nat
  tk_cap :: nat
  tk_seq :: int
  tk_pending :: "(int \<times> pending_rpc) list"
  tk_ok :: int
  tk_errs :: int
  tk_bytes :: int
  tk_tx :: int
  tk_rx :: int
  tk_by_method :: "(string \<times> method_totals) list"
  tk_in_flight :: int
  tk_last_ok :: "int option"
  tk_last_err :: "int option"
  tk_flood_until :: "int option"
  tk_last_err_text :: string

definition no_request :: rpc_request where
  "no_request = \<lparr>rq_id = 0, rq_method = [], rq_started = 0, rq_duration = 0, rq_bytes = 0, rq_err = [], rq_in_flight = False, rq_flood = 0\<rparr>"

definition new_tracker :: "int \<Rightarrow> tracker" where
  "new_tracker capacity =
     (let c = (if capacity \<le> 0 then 64 else nat capacity)
      in \<lparr>tk_ring = replicate c no_request, tk_head = 0, tk_cap = c, tk_seq = 0, tk_pending = [], tk_ok = 0, tk_errs = 0, tk_bytes = 0,
          tk_tx = 0, tk_rx = 0, tk_by_method = [], tk_in_flight = 0, tk_last_ok = None, tk_last_err = None, tk_flood_until = None,
          tk_last_err_text = []\<rparr>)"

section \<open>Operations\<close>

definition tracker_begin :: "int \<Rightarrow> string \<Rightarrow> int \<Rightarrow> tracker \<Rightarrow> int \<times> tracker" where
  "tracker_begin now meth tx T =
     (let i = tk_seq T + 1;
          r = no_request\<lparr>rq_id := i, rq_method := meth, rq_started := now, rq_bytes := tx, rq_in_flight := True\<rparr>
      in (i, T\<lparr>tk_seq := i, tk_in_flight := tk_in_flight T + 1,
               tk_pending := AList.update i \<lparr>pr_method = meth, pr_started = now, pr_tx = tx\<rparr> (tk_pending T),
               tk_ring := (tk_ring T)[tk_head T := r], tk_head := (tk_head T + 1) mod tk_cap T\<rparr>))"

definition payload :: "int \<Rightarrow> int \<Rightarrow> int" where
  "payload tx rx = (if rx > 0 \<and> rx > tx then rx else tx)"

fun update_row :: "int \<Rightarrow> (rpc_request \<Rightarrow> rpc_request) \<Rightarrow> rpc_request list \<Rightarrow> rpc_request list" where
  "update_row i f [] = []"
| "update_row i f (r # rs) = (if rq_id r = i then f r # rs else r # update_row i f rs)"

definition zero_count :: "string \<Rightarrow> method_totals" where
  "zero_count m = \<lparr>mc_method = m, mc_ok = 0, mc_err = 0, mc_flood = 0, mc_bytes = 0\<rparr>"

definition tracker_end :: "int \<Rightarrow> int \<Rightarrow> string option \<Rightarrow> int \<Rightarrow> int \<Rightarrow> tracker \<Rightarrow> tracker" where
  "tracker_end now i err flood_wait rx T =
     (let T0 = T\<lparr>tk_in_flight := (if tk_in_flight T - 1 < 0 then 0 else tk_in_flight T - 1)\<rparr>
      in case map_of (tk_pending T0) i of
           None \<Rightarrow> T0
         | Some p \<Rightarrow>
             (let tx = pr_tx p;
                  mc = (case map_of (tk_by_method T0) (pr_method p) of None \<Rightarrow> zero_count (pr_method p) | Some c \<Rightarrow> c);
                  pay = payload tx rx;
                  mc1 = mc\<lparr>mc_bytes := mc_bytes mc + pay\<rparr>;
                  mc2 = (case err of
                      None \<Rightarrow> mc1\<lparr>mc_ok := mc_ok mc1 + 1\<rparr>
                    | Some _ \<Rightarrow> mc1\<lparr>mc_err := mc_err mc1 + 1, mc_flood := mc_flood mc1 + (if flood_wait > 0 then 1 else 0)\<rparr>);
                  T1 = T0\<lparr>tk_pending := AList.delete i (tk_pending T0), tk_by_method := AList.update (pr_method p) mc2 (tk_by_method T0),
                          tk_bytes := tk_bytes T0 + pay, tk_tx := tk_tx T0 + tx, tk_rx := tk_rx T0 + rx\<rparr>;
                  T2 = (case err of
                      None \<Rightarrow> T1\<lparr>tk_last_ok := Some now, tk_ok := tk_ok T1 + 1\<rparr>
                    | Some e \<Rightarrow> T1\<lparr>tk_last_err := Some now, tk_last_err_text := e, tk_errs := tk_errs T1 + 1,
                        tk_flood_until := (if flood_wait > 0 \<and> (case tk_flood_until T1 of None \<Rightarrow> True | Some u \<Rightarrow> now + flood_wait > u)
                          then Some (now + flood_wait) else tk_flood_until T1)\<rparr>);
                  done_row = (\<lambda>r. r\<lparr>rq_duration := now - pr_started p, rq_in_flight := False, rq_flood := flood_wait,
                      rq_bytes := (if rx > 0 \<and> rx > tx then rx else rq_bytes r),
                      rq_err := (case err of None \<Rightarrow> rq_err r | Some e \<Rightarrow> e)\<rparr>)
              in T2\<lparr>tk_ring := update_row i done_row (tk_ring T2)\<rparr>))"

definition snapshot_requests :: "tracker \<Rightarrow> rpc_request list" where
  "snapshot_requests T = filter (\<lambda>r. rq_id r \<noteq> 0) (map (\<lambda>i. tk_ring T ! ((tk_head T + i) mod tk_cap T)) [0..<tk_cap T])"

text \<open>The insertion sort of the snapshot; the order in which the map is walked is that of the list.\<close>

fun move_left :: "method_totals \<Rightarrow> method_totals list \<Rightarrow> method_totals list" where
  "move_left m [] = [m]"
| "move_left m (y # ys) = (if mc_ok m + mc_err m > mc_ok y + mc_err y then y # move_left m ys else m # y # ys)"

definition snapshot_methods :: "tracker \<Rightarrow> method_totals list" where
  "snapshot_methods T = foldl (\<lambda>acc m. rev (move_left m (rev acc))) [] (map snd (tk_by_method T))"

text \<open>What is persisted of the tracker, before and after JSON.\<close>

record tracker_state =
  ts_ok :: int
  ts_err :: int
  ts_bytes :: int
  ts_tx :: int
  ts_rx :: int
  ts_per_method :: "(string \<times> method_totals) list"
  ts_updated :: int

definition marshal_state :: "int \<Rightarrow> tracker \<Rightarrow> tracker_state" where
  "marshal_state now_unix T = \<lparr>ts_ok = tk_ok T, ts_err = tk_errs T, ts_bytes = tk_bytes T, ts_tx = tk_tx T, ts_rx = tk_rx T,
     ts_per_method = tk_by_method T, ts_updated = now_unix\<rparr>"

definition seed_method :: "string \<times> method_totals \<Rightarrow> (string \<times> method_totals) list \<Rightarrow> (string \<times> method_totals) list" where
  "seed_method e ms = (case map_of ms (fst e) of
       None \<Rightarrow> AList.update (fst e) ((snd e)\<lparr>mc_method := fst e\<rparr>) ms
     | Some cur \<Rightarrow> AList.update (fst e) (cur\<lparr>mc_ok := mc_ok cur + mc_ok (snd e), mc_err := mc_err cur + mc_err (snd e),
         mc_flood := mc_flood cur + mc_flood (snd e), mc_bytes := mc_bytes cur + mc_bytes (snd e)\<rparr>) ms)"

definition seed_state :: "string + tracker_state \<Rightarrow> tracker \<Rightarrow> string option \<times> tracker" where
  "seed_state parsed T =
     (case parsed of
        Inl e \<Rightarrow> (Some e, T)
      | Inr st \<Rightarrow> (None, T\<lparr>tk_ok := tk_ok T + ts_ok st, tk_errs := tk_errs T + ts_err st, tk_bytes := tk_bytes T + ts_bytes st,
          tk_tx := tk_tx T + ts_tx st, tk_rx := tk_rx T + ts_rx st, tk_by_method := fold seed_method (ts_per_method st) (tk_by_method T)\<rparr>))"

text \<open>The answer to a download, as its decoder; what the middleware makes of a call and its outcome.\<close>

datatype decoder = NoDecoder | UploadFile bytes | UploadFileBox "bytes option" | OtherDecoder

fun response_payload_size :: "decoder \<Rightarrow> int" where
  "response_payload_size (UploadFile b) = blen b"
| "response_payload_size (UploadFileBox (Some b)) = blen b"
| "response_payload_size _ = 0"

fun scan_flood_marker :: "string \<Rightarrow> string \<Rightarrow> int option" where
  "scan_flood_marker [] marker = None"
| "scan_flood_marker (c # cs) marker =
     (if length marker < length (c # cs) then
        (let n = foldl (\<lambda>n d. to_int64 (n * 10 + digit_val d)) 0 (takeWhile is_digit (drop (length marker) (c # cs)))
         in if prefix marker (c # cs) \<and> n > 0 then Some (to_int64 (n * 1000000000)) else scan_flood_marker cs marker)
      else None)"

text \<open>An error with what \<open>tgerr.AsFloodWait\<close> says of it and its text.\<close>

definition as_flood_wait :: "(int option \<times> string) option \<Rightarrow> int option" where
  "as_flood_wait err =
     (case err of
        None \<Rightarrow> None
      | Some (Some d, _) \<Rightarrow> Some d
      | Some (None, s) \<Rightarrow>
          (case scan_flood_marker s ''FLOOD_WAIT_'' of Some d \<Rightarrow> Some d | None \<Rightarrow> scan_flood_marker s ''FLOOD_PREMIUM_WAIT_''))"

definition finish_call :: "int \<Rightarrow> int \<Rightarrow> (int option \<times> string) option \<Rightarrow> decoder \<Rightarrow> tracker \<Rightarrow> tracker" where
  "finish_call now i err out T =
     tracker_end now i (map_option snd err) (case as_flood_wait err of None \<Rightarrow> 0 | Some d \<Rightarrow> d)
       (if err = None then response_payload_size out else 0) T"

section \<open>Runs\<close>

text \<open>Calls of the tracker in the order they take the lock: a request begins, or the one of that id ends.\<close>

datatype tracker_call = Begun int string int | Ended int int "(int option \<times> string) option" decoder

fun tracker_step :: "tracker_call \<Rightarrow> tracker \<Rightarrow> tracker" where
  "tracker_step (Begun now m tx) T = snd (tracker_begin now m tx T)"
| "tracker_step (Ended now i err out) T = finish_call now i err out T"

text \<open>What happened, kept in full: how many requests began, which are open, and each that ended with its outcome.\<close>

record finished =
  fi_method :: string
  fi_tx :: int
  fi_rx :: int
  fi_ok :: bool
  fi_flood :: bool

type_synonym call_log = "int \<times> (int \<times> string \<times> int) list \<times> finished list"

fun log_step :: "tracker_call \<Rightarrow> call_log \<Rightarrow> call_log" where
  "log_step (Begun now m tx) (n, opn, fin) = (n + 1, (n + 1, m, tx) # opn, fin)"
| "log_step (Ended now i err out) (n, opn, fin) =
     (case map_of opn i of
        None \<Rightarrow> (n, opn, fin)
      | Some (m, tx) \<Rightarrow> (n, filter (\<lambda>e. fst e \<noteq> i) opn,
          \<lparr>fi_method = m, fi_tx = tx, fi_rx = (if err = None then response_payload_size out else 0), fi_ok = (err = None),
           fi_flood = (err \<noteq> None \<and> (\<exists>d\<in>set_option (as_flood_wait err). d > 0))\<rparr> # fin))"

definition count_of :: "string \<Rightarrow> finished list \<Rightarrow> method_totals" where
  "count_of m fs = (let mine = filter (\<lambda>f. fi_method f = m) fs
     in \<lparr>mc_method = m, mc_ok = int (length (filter fi_ok mine)), mc_err = int (length (filter (\<lambda>f. \<not> fi_ok f) mine)),
         mc_flood = int (length (filter fi_flood mine)), mc_bytes = (\<Sum>f\<leftarrow>mine. payload (fi_tx f) (fi_rx f))\<rparr>)"

text \<open>The counts of the tracker are those of the log.\<close>

definition accounts :: "tracker \<Rightarrow> call_log \<Rightarrow> bool" where
  "accounts T L \<longleftrightarrow> (case L of (n, opn, fin) \<Rightarrow>
     tk_seq T = n \<and> 0 \<le> n \<and> (\<forall>i. map_option (\<lambda>p. (pr_method p, pr_tx p)) (map_of (tk_pending T) i) = map_of opn i) \<and>
     (\<forall>e\<in>set opn. fst e \<le> n) \<and>
     tk_ok T = int (length (filter fi_ok fin)) \<and> tk_errs T = int (length (filter (\<lambda>f. \<not> fi_ok f) fin)) \<and>
     tk_bytes T = (\<Sum>f\<leftarrow>fin. payload (fi_tx f) (fi_rx f)) \<and> tk_tx T = (\<Sum>f\<leftarrow>fin. fi_tx f) \<and> tk_rx T = (\<Sum>f\<leftarrow>fin. fi_rx f) \<and>
     (\<forall>m. map_of (tk_by_method T) m = (if \<exists>f\<in>set fin. fi_method f = m then Some (count_of m fin) else None)))"

lemma count_of_Nil: "count_of m [] = zero_count m"
  by (simp add: count_of_def zero_count_def)

lemma count_of_none: "\<not> (\<exists>f\<in>set fs. fi_method f = m) \<Longrightarrow> count_of m fs = zero_count m"
  by (simp add: count_of_def zero_count_def filter_empty_conv)

lemma count_of_Cons: "count_of m (f # fs) =
    (if fi_method f = m then (count_of m fs)\<lparr>mc_bytes := payload (fi_tx f) (fi_rx f) + mc_bytes (count_of m fs),
        mc_ok := mc_ok (count_of m fs) + (if fi_ok f then 1 else 0), mc_err := mc_err (count_of m fs) + (if fi_ok f then 0 else 1),
        mc_flood := mc_flood (count_of m fs) + (if fi_flood f then 1 else 0)\<rparr>
     else count_of m fs)"
  by (simp add: count_of_def Let_def)

lemma accounts_begin:
  assumes "accounts T (n, opn, fin)"
  shows "accounts (snd (tracker_begin now m tx T)) (n + 1, (n + 1, m, tx) # opn, fin)"
  using assms by (auto simp: accounts_def tracker_begin_def Let_def update_conv')

lemma filter_key_lookup: "map_of (filter (\<lambda>e. fst e \<noteq> i) xs) j = (if j = i then None else map_of xs j)"
  by (induction xs) auto

text \<open>The fields of the tracker after a pending request ended.\<close>

lemma tracker_end_fields:
  assumes "map_of (tk_pending T) i = Some p"
  defines "mc \<equiv> (case map_of (tk_by_method T) (pr_method p) of None \<Rightarrow> zero_count (pr_method p) | Some c \<Rightarrow> c)"
  shows "tk_seq (tracker_end now i err fw rx T) = tk_seq T"
    and "tk_pending (tracker_end now i err fw rx T) = AList.delete i (tk_pending T)"
    and "tk_ok (tracker_end now i err fw rx T) = tk_ok T + (if err = None then 1 else 0)"
    and "tk_errs (tracker_end now i err fw rx T) = tk_errs T + (if err = None then 0 else 1)"
    and "tk_bytes (tracker_end now i err fw rx T) = tk_bytes T + payload (pr_tx p) rx"
    and "tk_tx (tracker_end now i err fw rx T) = tk_tx T + pr_tx p"
    and "tk_rx (tracker_end now i err fw rx T) = tk_rx T + rx"
    and "tk_by_method (tracker_end now i err fw rx T) = AList.update (pr_method p)
      (mc\<lparr>mc_bytes := mc_bytes mc + payload (pr_tx p) rx, mc_ok := mc_ok mc + (if err = None then 1 else 0),
          mc_err := mc_err mc + (if err = None then 0 else 1), mc_flood := mc_flood mc + (if err \<noteq> None \<and> fw > 0 then 1 else 0)\<rparr>) (tk_by_method T)"
  unfolding tracker_end_def mc_def using assms(1) by (cases err; simp add: Let_def)+

lemma accounts_end:
  assumes "accounts T (n, opn, fin)"
  shows "accounts (finish_call now i err out T) (log_step (Ended now i err out) (n, opn, fin))"
proof (cases "map_of (tk_pending T) i")
  case None
  then have "map_of opn i = None" using assms by (auto simp: accounts_def dest: spec [of _ i])
  then show ?thesis using None assms by (simp add: accounts_def finish_call_def tracker_end_def Let_def)
next
  case (Some p)
  have opn: "map_of opn i = Some (pr_method p, pr_tx p)" using Some assms by (auto simp: accounts_def dest: spec [of _ i])
  let ?m = "pr_method p"
  have mc: "(case map_of (tk_by_method T) ?m of None \<Rightarrow> zero_count ?m | Some c \<Rightarrow> c) = count_of ?m fin"
    using assms count_of_none [of fin ?m] by (auto simp: accounts_def)
  note fields = tracker_end_fields [OF Some, unfolded mc]
  define rx where "rx = (if err = None then response_payload_size out else 0)"
  define fw where "fw = (case as_flood_wait err of None \<Rightarrow> 0 | Some d \<Rightarrow> d)"
  define f where "f = \<lparr>fi_method = ?m, fi_tx = pr_tx p, fi_rx = rx, fi_ok = (err = None), fi_flood = (err \<noteq> None \<and> fw > 0)\<rparr>"
  have flood: "(\<exists>d\<in>set_option (as_flood_wait err). d > 0) = (fw > 0)" by (simp add: fw_def split: option.splits)
  have log: "log_step (Ended now i err out) (n, opn, fin) = (n, filter (\<lambda>e. fst e \<noteq> i) opn, f # fin)"
    by (simp add: opn f_def rx_def flood)
  have fin: "finish_call now i err out T = tracker_end now i (map_option snd err) fw rx T"
    by (simp add: finish_call_def rx_def fw_def)
  have parts: "tk_seq T = n" "0 \<le> n" "\<And>j. map_option (\<lambda>p. (pr_method p, pr_tx p)) (map_of (tk_pending T) j) = map_of opn j"
    "\<forall>e\<in>set opn. fst e \<le> n" "tk_ok T = int (length (filter fi_ok fin))" "tk_errs T = int (length (filter (\<lambda>f. \<not> fi_ok f) fin))"
    "tk_bytes T = (\<Sum>f\<leftarrow>fin. payload (fi_tx f) (fi_rx f))" "tk_tx T = (\<Sum>f\<leftarrow>fin. fi_tx f)" "tk_rx T = (\<Sum>f\<leftarrow>fin. fi_rx f)"
    "\<And>m. map_of (tk_by_method T) m = (if \<exists>f\<in>set fin. fi_method f = m then Some (count_of m fin) else None)"
    using assms unfolding accounts_def by auto
  show ?thesis unfolding log fin accounts_def prod.case fields
  proof (intro conjI allI)
    fix j show "map_option (\<lambda>p. (pr_method p, pr_tx p)) (map_of (AList.delete i (tk_pending T)) j) = map_of (filter (\<lambda>e. fst e \<noteq> i) opn) j"
      using parts(3) [of j] by (simp add: delete_conv' filter_key_lookup)
  next
    fix m show "map_of (AList.update ?m ((count_of ?m fin)\<lparr>mc_bytes := mc_bytes (count_of ?m fin) + payload (pr_tx p) rx,
        mc_ok := mc_ok (count_of ?m fin) + (if map_option snd err = None then 1 else 0),
        mc_err := mc_err (count_of ?m fin) + (if map_option snd err = None then 0 else 1),
        mc_flood := mc_flood (count_of ?m fin) + (if map_option snd err \<noteq> None \<and> fw > 0 then 1 else 0)\<rparr>) (tk_by_method T)) m =
      (if \<exists>f\<in>set (f # fin). fi_method f = m then Some (count_of m (f # fin)) else None)"
      using parts(10) [of m] by (simp add: update_conv' count_of_Cons f_def add.commute)
  qed (use parts in \<open>simp_all add: f_def\<close>)
qed

lemma accounts_step: "accounts T L \<Longrightarrow> accounts (tracker_step c T) (log_step c L)"
  by (cases L; cases c) (simp_all only: tracker_step.simps log_step.simps(1) accounts_begin accounts_end)

lemma accounts_run: "accounts T L \<Longrightarrow> accounts (fold tracker_step cs T) (fold log_step cs L)"
  by (induction cs arbitrary: T L) (simp_all add: accounts_step)

lemma accounts_new: "accounts (new_tracker c) (0, [], [])"
  by (simp add: accounts_def new_tracker_def Let_def)


section \<open>The ring\<close>

text \<open>Slot \<open>i\<close> from the head on holds the request \<open>cap - i\<close> before the next, if so many began.\<close>

definition ring_ok :: "tracker \<Rightarrow> bool" where
  "ring_ok T \<longleftrightarrow> 0 < tk_cap T \<and> length (tk_ring T) = tk_cap T \<and> 0 \<le> tk_seq T \<and> tk_head T < tk_cap T \<and>
     (\<forall>i<tk_cap T. rq_id (tk_ring T ! ((tk_head T + i) mod tk_cap T)) = max 0 (tk_seq T + 1 + int i - int (tk_cap T)))"

lemma length_update_row [simp]: "length (update_row i f rs) = length rs"
  by (induction rs) auto

lemma update_row_ids: "(\<And>r. rq_id (f r) = rq_id r) \<Longrightarrow> map rq_id (update_row i f rs) = map rq_id rs"
  by (induction rs) auto

lemma ring_ok_cong: "ring_ok T \<Longrightarrow> map rq_id (tk_ring T') = map rq_id (tk_ring T) \<Longrightarrow> tk_cap T' = tk_cap T \<Longrightarrow> tk_head T' = tk_head T \<Longrightarrow>
    tk_seq T' = tk_seq T \<Longrightarrow> ring_ok T'"
  unfolding ring_ok_def by (metis (no_types, lifting) length_map mod_less_divisor nth_map)

lemma ring_end: "ring_ok T \<Longrightarrow> ring_ok (tracker_end now i err fw rx T)"
  by (erule ring_ok_cong) (auto simp: tracker_end_def Let_def update_row_ids split: option.splits)

lemma ring_begin:
  assumes "ring_ok T"
  shows "ring_ok (snd (tracker_begin now m tx T))"
proof -
  let ?c = "tk_cap T" and ?h = "tk_head T" and ?T = "snd (tracker_begin now m tx T)"
  have c: "0 < ?c" "length (tk_ring T) = ?c" "0 \<le> tk_seq T" "?h < ?c"
    and old: "\<And>i. i < ?c \<Longrightarrow> rq_id (tk_ring T ! ((?h + i) mod ?c)) = max 0 (tk_seq T + 1 + int i - int ?c)"
    using assms by (auto simp: ring_ok_def)
  have "rq_id (tk_ring ?T ! ((tk_head ?T + i) mod ?c)) = max 0 (tk_seq ?T + 1 + int i - int ?c)" if "i < ?c" for i
  proof -
    have at: "(tk_head ?T + i) mod ?c = (?h + Suc i) mod ?c" by (simp add: tracker_begin_def Let_def mod_simps)
    show ?thesis
    proof (cases "Suc i = ?c")
      case True
      then have "(?h + Suc i) mod ?c = ?h" using c(4) by simp
      then show ?thesis using c True at by (simp add: tracker_begin_def Let_def)
    next
      case False
      then have "Suc i < ?c" using that by simp
      moreover have "(?h + Suc i) mod ?c \<noteq> ?h"
      proof
        assume "(?h + Suc i) mod ?c = ?h"
        then have "?c dvd Suc i" using c(4) by (metis add_diff_cancel_left' mod_eq_dvd_iff_nat le_add1 mod_less)
        then show False using \<open>Suc i < ?c\<close> by (auto dest: dvd_imp_le)
      qed
      ultimately show ?thesis using old [of "Suc i"] at by (simp add: tracker_begin_def Let_def)
    qed
  qed
  then show ?thesis using c by (simp add: ring_ok_def tracker_begin_def Let_def)
qed

lemma ring_step: "ring_ok T \<Longrightarrow> ring_ok (tracker_step k T)"
  by (cases k) (simp_all add: ring_begin ring_end finish_call_def)

lemma ring_run: "ring_ok T \<Longrightarrow> ring_ok (fold tracker_step cs T)"
  by (induction cs arbitrary: T) (simp_all add: ring_step)

lemma ring_new: "ring_ok (new_tracker c)"
  by (auto simp: ring_ok_def new_tracker_def Let_def no_request_def)

lemma ring_shows:
  assumes "ring_ok T"
  shows "map rq_id (snapshot_requests T) = [max 1 (tk_seq T + 1 - int (tk_cap T)) .. tk_seq T]"
proof -
  have "map rq_id (snapshot_requests T) = filter (\<lambda>i. i \<noteq> 0) (map (\<lambda>i. rq_id (tk_ring T ! ((tk_head T + i) mod tk_cap T))) [0..<tk_cap T])"
    by (simp add: snapshot_requests_def filter_map comp_def)
  also have "map (\<lambda>i. rq_id (tk_ring T ! ((tk_head T + i) mod tk_cap T))) [0..<tk_cap T] = map (\<lambda>i. max 0 (tk_seq T + 1 + int i - int (tk_cap T))) [0..<tk_cap T]"
    using assms by (intro map_cong) (auto simp: ring_ok_def)
  also have "filter (\<lambda>i. i \<noteq> 0) (map (\<lambda>i. max 0 (s + 1 + int i - int c)) [0..<c]) = [max 1 (s + 1 - int c) .. s]" if "0 \<le> s" for s c
  proof (induction c)
    case (Suc c)
    have "map (\<lambda>i. max 0 (s + 1 + int i - int (Suc c))) [0..<Suc c] = max 0 (s - int c) # map (\<lambda>i. max 0 (s + 1 + int i - int c)) [0..<c]"
      by (simp add: map_upt_Suc algebra_simps del: upt_Suc)
    moreover have "[s - int c..s] = (s - int c) # [s + 1 - int c..s]" using upto_rec1 [of "s - int c" s] by (simp add: algebra_simps)
    ultimately show ?case using Suc that by (cases "s - int c > 0") (simp_all add: max_def)
  qed (use that in simp)
  finally show ?thesis using assms by (simp add: ring_ok_def)
qed

text \<open>What the operator is shown is the latest requests, in the order they began, as many as the ring holds.\<close>
theorem tracker_shows_latest:
  "let T = fold tracker_step cs (new_tracker c)
   in map rq_id (snapshot_requests T) = [max 1 (tk_seq T + 1 - int (tk_cap T)) .. tk_seq T]"
  unfolding Let_def by (intro ring_shows ring_run ring_new)

section \<open>Totals over restarts\<close>

lemma fold_seed_fresh:
  "distinct (map fst es) \<Longrightarrow> set (map fst es) \<inter> set (map fst ms) = {} \<Longrightarrow> (\<forall>e\<in>set es. mc_method (snd e) = fst e) \<Longrightarrow>
   fold seed_method es ms = ms @ es"
proof (induction es arbitrary: ms)
  case (Cons e es)
  have fresh: "fst e \<notin> fst ` set ms" using Cons.prems(2) by auto
  then have "map_of ms (fst e) = None" by (simp add: map_of_eq_None_iff)
  moreover have "AList.update k v ms = ms @ [(k, v)]" if "k \<notin> fst ` set ms" for k v
    using that by (induction ms) auto
  ultimately have "seed_method e ms = ms @ [e]" using fresh Cons.prems(3) by (cases e) (auto simp: seed_method_def)
  then show ?case using Cons by simp
qed simp

definition methods_ok :: "tracker \<Rightarrow> bool" where
  "methods_ok T \<longleftrightarrow> distinct (map fst (tk_by_method T)) \<and> (\<forall>e\<in>set (tk_by_method T). mc_method (snd e) = fst e)"

lemma set_update_key: "e \<in> set (AList.update k v ms) \<Longrightarrow> e = (k, v) \<or> e \<in> set ms"
  by (induction ms) (auto split: if_splits)

lemma methods_end: "methods_ok T \<Longrightarrow> methods_ok (tracker_end now i err fw rx T)"
  unfolding methods_ok_def
  by (auto simp: tracker_end_def Let_def zero_count_def distinct_update dest!: set_update_key dest: map_of_SomeD split: option.splits)

lemma methods_run: "methods_ok T \<Longrightarrow> methods_ok (fold tracker_step cs T)"
proof (induction cs arbitrary: T)
  case (Cons k cs)
  have "methods_ok (tracker_step k T)"
    using Cons.prems by (cases k) (simp_all add: finish_call_def methods_end, simp add: methods_ok_def tracker_begin_def Let_def)
  then show ?case using Cons.IH by simp
qed simp

text \<open>A tracker seeded with what another run left counts on from it: right after the seed its totals and its methods are the old ones.\<close>
theorem seed_restores_totals:
  "let T = fold tracker_step cs (new_tracker c); F = snd (seed_state (Inr (marshal_state u T)) (new_tracker d))
   in tk_by_method F = tk_by_method T \<and> tk_ok F = tk_ok T \<and> tk_errs F = tk_errs T \<and> tk_bytes F = tk_bytes T \<and>
      tk_tx F = tk_tx T \<and> tk_rx F = tk_rx T"
proof -
  have m: "methods_ok (fold tracker_step cs (new_tracker c))"
    by (rule methods_run) (simp add: methods_ok_def new_tracker_def Let_def)
  have "fold seed_method (tk_by_method (fold tracker_step cs (new_tracker c))) [] = tk_by_method (fold tracker_step cs (new_tracker c))"
    using fold_seed_fresh [of "tk_by_method (fold tracker_step cs (new_tracker c))" "[]"] m by (simp add: methods_ok_def)
  then show ?thesis by (simp add: seed_state_def marshal_state_def new_tracker_def Let_def)
qed

section \<open>The order of the methods\<close>

lemma move_left_set: "mset (move_left m ys) = add_mset m (mset ys)"
  by (induction ys) auto

lemma move_left_sorted: "sorted_wrt (\<lambda>a b. mc_ok a + mc_err a \<le> mc_ok b + mc_err b) ys \<Longrightarrow>
    sorted_wrt (\<lambda>a b. mc_ok a + mc_err a \<le> mc_ok b + mc_err b) (move_left m ys)"
proof (induction ys)
  case (Cons y ys)
  have "set (move_left m ys) = insert m (set ys)" using arg_cong [OF move_left_set [of m ys], of set_mset] by simp
  then show ?case using Cons by (auto; fastforce)
qed simp

lemma methods_sorted_mset: "mset (foldl (\<lambda>acc m. rev (move_left m (rev acc))) acc ms) = mset acc + mset ms"
  by (induction ms arbitrary: acc) (simp_all add: move_left_set)

lemma methods_sorted: "sorted_wrt (\<lambda>a b. mc_ok a + mc_err a \<le> mc_ok b + mc_err b) (rev acc) \<Longrightarrow>
    sorted_wrt (\<lambda>a b. mc_ok a + mc_err a \<le> mc_ok b + mc_err b) (rev (foldl (\<lambda>acc m. rev (move_left m (rev acc))) acc ms))"
  by (induction ms arbitrary: acc) (simp_all add: move_left_sorted)

text \<open>The methods come out with the most used first, every one of them once.\<close>
theorem methods_most_used_first:
  "mset (snapshot_methods T) = mset (map snd (tk_by_method T)) \<and>
   sorted_wrt (\<lambda>a b. mc_ok b + mc_err b \<le> mc_ok a + mc_err a) (snapshot_methods T)"
  using methods_sorted_mset [of "[]" "map snd (tk_by_method T)"] methods_sorted [of "[]" "map snd (tk_by_method T)"]
  by (simp add: snapshot_methods_def sorted_wrt_rev)

end
