(* ===== verification/Config.thy ===== *)
theory Config
  imports Session MountCtl
begin

text \<open>
  Profiles on disk: the paths, the active profile, the configuration file and its atomic
  replacement (\<open>internal/config/config.go\<close>).  A disk maps clean absolute paths to what stands there;
  the roots taken from the environment are clean, so joining adds a slash.  Any
  call to the system may fail, as the environment says; the TOML codec is a parameter.
\<close>

section \<open>The disk\<close>

datatype fnode = FDir | FFile string

type_synonym disk = "string \<Rightarrow> fnode option"

datatype os_err = NotExist string | OsFault string

record os_env =
  os_getenv :: "string \<Rightarrow> string"
  os_home :: "string option"
  os_fault :: "string \<Rightarrow> string \<Rightarrow> string option"
  os_short :: "string \<Rightarrow> nat"

definition join_path :: "string \<Rightarrow> string \<Rightarrow> string" where "join_path a b = a @ ''/'' @ b"

definition os_stat :: "os_env \<Rightarrow> string \<Rightarrow> disk \<Rightarrow> os_err + fnode" where
  "os_stat E p d = (case os_fault E ''stat'' p of Some e \<Rightarrow> Inl (OsFault e)
     | None \<Rightarrow> (case d p of None \<Rightarrow> Inl (NotExist p) | Some n \<Rightarrow> Inr n))"

definition os_read_file :: "os_env \<Rightarrow> string \<Rightarrow> disk \<Rightarrow> os_err + string" where
  "os_read_file E p d = (case os_fault E ''read'' p of Some e \<Rightarrow> Inl (OsFault e)
     | None \<Rightarrow> (case d p of None \<Rightarrow> Inl (NotExist p) | Some FDir \<Rightarrow> Inl (OsFault ''is a directory'') | Some (FFile c) \<Rightarrow> Inr c))"

definition dirs_of :: "string \<Rightarrow> string list" where
  "dirs_of p = map (\<lambda>n. take n p) (filter (\<lambda>n. p ! n = CHR ''/'') [1..<length p]) @ [p]"

definition os_mkdir_all :: "os_env \<Rightarrow> string \<Rightarrow> disk \<Rightarrow> os_err option \<times> disk" where
  "os_mkdir_all E p d = (case os_fault E ''mkdir'' p of Some e \<Rightarrow> (Some (OsFault e), d)
     | None \<Rightarrow>
         if list_ex (\<lambda>q. d q \<noteq> None \<and> d q \<noteq> Some FDir) (dirs_of p) then (Some (OsFault ''not a directory''), d)
         else (None, fold (\<lambda>q d. d(q \<mapsto> FDir)) (dirs_of p) d))"

definition parent_dir :: "string \<Rightarrow> string" where
  "parent_dir p = rev (drop 1 (dropWhile (\<lambda>c. c \<noteq> CHR ''/'') (rev p)))"

text \<open>\<open>O_CREATE|O_TRUNC\<close>, and what is written to the file opened: all of it, or some and an error.\<close>

definition os_create :: "os_env \<Rightarrow> string \<Rightarrow> disk \<Rightarrow> os_err option \<times> disk" where
  "os_create E p d = (case os_fault E ''open'' p of Some e \<Rightarrow> (Some (OsFault e), d)
     | None \<Rightarrow> if d p = Some FDir then (Some (OsFault ''is a directory''), d)
               else if parent_dir p \<noteq> [] \<and> d (parent_dir p) = None then (Some (NotExist p), d)
               else (None, d(p \<mapsto> FFile [])))"

definition os_put :: "os_env \<Rightarrow> string \<Rightarrow> string \<Rightarrow> disk \<Rightarrow> os_err option \<times> disk" where
  "os_put E p body d = (case os_fault E ''write'' p of Some e \<Rightarrow> (Some (OsFault e), d(p \<mapsto> FFile (take (os_short E p) body)))
     | None \<Rightarrow> (map_option OsFault (os_fault E ''close'' p), d(p \<mapsto> FFile body)))"

definition os_write_file :: "os_env \<Rightarrow> string \<Rightarrow> string \<Rightarrow> disk \<Rightarrow> os_err option \<times> disk" where
  "os_write_file E p body d = (case os_create E p d of (Some e, d1) \<Rightarrow> (Some e, d1) | (None, d1) \<Rightarrow> os_put E p body d1)"

definition os_remove :: "os_env \<Rightarrow> string \<Rightarrow> disk \<Rightarrow> os_err option \<times> disk" where
  "os_remove E p d = (case os_fault E ''remove'' p of Some e \<Rightarrow> (Some (OsFault e), d)
     | None \<Rightarrow> if d p = None then (Some (NotExist p), d) else (None, d(p := None)))"

definition os_rename :: "os_env \<Rightarrow> string \<Rightarrow> string \<Rightarrow> disk \<Rightarrow> os_err option \<times> disk" where
  "os_rename E p q d = (case os_fault E ''rename'' p of Some e \<Rightarrow> (Some (OsFault e), d)
     | None \<Rightarrow> if d p = None then (Some (NotExist p), d)
               else if d q = Some FDir then (Some (OsFault ''file exists''), d)
               else (None, d(q := d p, p := None)))"

definition os_remove_all :: "os_env \<Rightarrow> string \<Rightarrow> disk \<Rightarrow> os_err option \<times> disk" where
  "os_remove_all E p d = (case os_fault E ''removeall'' p of Some e \<Rightarrow> (Some (OsFault e), d)
     | None \<Rightarrow> (None, (\<lambda>q. if q = p \<or> prefix (p @ ''/'') q then None else d q)))"

section \<open>Paths and the active profile\<close>

datatype cfg_err =
  CfgOs os_err | NoHome | NoActiveProfile | EmptyName | BadNameChar string | DecodeFailed string | EncodeFailed string | BadEnv string string
| MissingApi "string list" | NoChannelSet

definition xdg_config_home :: "os_env \<Rightarrow> cfg_err + string" where
  "xdg_config_home E =
     (let x = trim_space (os_getenv E ''XDG_CONFIG_HOME'') in
      if x \<noteq> [] then Inr (join_path x ''telfs'')
      else (case os_home E of None \<Rightarrow> Inl NoHome | Some h \<Rightarrow> Inr (join_path (join_path h ''.config'') ''telfs'')))"

definition profiles_root :: "os_env \<Rightarrow> cfg_err + string" where
  "profiles_root E = (case xdg_config_home E of Inl e \<Rightarrow> Inl e | Inr r \<Rightarrow> Inr (join_path r ''profiles''))"

definition name_char :: "char \<Rightarrow> bool" where
  "name_char c = (97 \<le> (of_char c :: int) \<and> (of_char c :: int) \<le> 122 \<or> 65 \<le> (of_char c :: int) \<and> (of_char c :: int) \<le> 90 \<or>
     is_digit c \<or> c = CHR ''-'' \<or> c = CHR ''_'')"

definition validate_profile_name :: "string \<Rightarrow> cfg_err option" where
  "validate_profile_name n = (if n = [] then Some EmptyName else if list_all name_char n then None else Some (BadNameChar n))"

definition profile_dir :: "os_env \<Rightarrow> string \<Rightarrow> cfg_err + string" where
  "profile_dir E n =
     (case validate_profile_name n of
        Some e \<Rightarrow> Inl e
      | None \<Rightarrow> (case profiles_root E of Inl e \<Rightarrow> Inl e | Inr r \<Rightarrow> Inr (join_path r n)))"

definition active_path :: "string \<Rightarrow> string" where "active_path root = join_path root ''active''"

definition read_active_profile :: "os_env \<Rightarrow> disk \<Rightarrow> string option" where
  "read_active_profile E d =
     (case xdg_config_home E of
        Inl _ \<Rightarrow> None
      | Inr root \<Rightarrow>
          (case os_read_file E (active_path root) d of
             Inl _ \<Rightarrow> None
           | Inr b \<Rightarrow>
               (let n = trim_space b in
                if n = [] \<or> validate_profile_name n \<noteq> None then None
                else (case profile_dir E n of
                    Inl _ \<Rightarrow> None
                  | Inr dir \<Rightarrow> (case os_stat E dir d of Inl _ \<Rightarrow> None | Inr _ \<Rightarrow> Some n)))))"

definition default_dir :: "os_env \<Rightarrow> disk \<Rightarrow> cfg_err + string" where
  "default_dir E d =
     (let n = trim_space (os_getenv E ''TELFS_PROFILE'') in
      if n \<noteq> [] then profile_dir E n
      else (case read_active_profile E d of Some n \<Rightarrow> profile_dir E n | None \<Rightarrow> Inl NoActiveProfile))"

definition active_profile :: "os_env \<Rightarrow> disk \<Rightarrow> string" where
  "active_profile E d =
     (let n = trim_space (os_getenv E ''TELFS_PROFILE'') in
      if n \<noteq> [] then n else (case read_active_profile E d of Some n \<Rightarrow> n | None \<Rightarrow> []))"

definition clear_active_profile :: "os_env \<Rightarrow> disk \<Rightarrow> cfg_err option \<times> disk" where
  "clear_active_profile E d =
     (case xdg_config_home E of
        Inl e \<Rightarrow> (Some e, d)
      | Inr root \<Rightarrow>
          (case os_remove E (active_path root) d of
             (Some (NotExist _), d1) \<Rightarrow> (None, d1)
           | (Some e, d1) \<Rightarrow> (Some (CfgOs e), d1)
           | (None, d1) \<Rightarrow> (None, d1)))"

definition set_active_profile :: "os_env \<Rightarrow> string \<Rightarrow> disk \<Rightarrow> cfg_err option \<times> disk" where
  "set_active_profile E n d =
     (case validate_profile_name n of
        Some e \<Rightarrow> (Some e, d)
      | None \<Rightarrow>
          (case xdg_config_home E of
             Inl e \<Rightarrow> (Some e, d)
           | Inr root \<Rightarrow>
               (case os_mkdir_all E root d of
                  (Some e, d1) \<Rightarrow> (Some (CfgOs e), d1)
                | (None, d1) \<Rightarrow> (case os_write_file E (active_path root) (n @ [CHR 0x0A]) d1 of (r, d2) \<Rightarrow> (map_option CfgOs r, d2)))))"

section \<open>The configuration file\<close>

record identity =
  id_user :: int
  id_username :: string
  id_is_bot :: bool

record tel_config =
  cf_api_id :: int
  cf_api_hash :: string
  cf_phone :: string
  cf_dc :: int
  cf_identity :: "identity option"
  cf_channel :: channel_config
  cf_cache_cap :: string
  cf_data_dir :: string

definition no_channel :: channel_config where
  "no_channel = \<lparr>cc_id = 0, cc_hash = 0, cc_title = [], cc_username = []\<rparr>"

definition blank_config :: "string \<Rightarrow> tel_config" where
  "blank_config dir = \<lparr>cf_api_id = 0, cf_api_hash = [], cf_phone = [], cf_dc = 0, cf_identity = None,
     cf_channel = no_channel, cf_cache_cap = [], cf_data_dir = dir\<rparr>"

definition identity_label :: "identity option \<Rightarrow> string" where
  "identity_label i =
     (case i of
        None \<Rightarrow> []
      | Some x \<Rightarrow> (if id_username x = [] then ''id='' @ fmt_int (id_user x) else ''@'' @ id_username x) @
          '' ('' @ (if id_is_bot x then ''bot'' else ''user'') @ '')'')"

definition config_path :: "tel_config \<Rightarrow> string" where "config_path c = join_path (cf_data_dir c) ''config.toml''"
definition session_path :: "tel_config \<Rightarrow> string" where "session_path c = join_path (cf_data_dir c) ''session.json''"
definition db_path :: "tel_config \<Rightarrow> string" where "db_path c = join_path (cf_data_dir c) ''db.sqlite''"
definition cache_path :: "tel_config \<Rightarrow> string" where "cache_path c = join_path (cf_data_dir c) ''cache''"

definition has_session :: "os_env \<Rightarrow> tel_config \<Rightarrow> disk \<Rightarrow> bool" where
  "has_session E c d = is_ok (os_stat E (session_path c) d)"

text \<open>The overrides of the environment, in order; a number that does not parse ends the load.\<close>

definition env_number :: "os_env \<Rightarrow> string \<Rightarrow> (int \<Rightarrow> tel_config \<Rightarrow> tel_config) \<Rightarrow> tel_config \<Rightarrow> cfg_err + tel_config" where
  "env_number E key upd c =
     (let v = trim_space (os_getenv E key) in
      if v = [] then Inr c else (case parse_int v of None \<Rightarrow> Inl (BadEnv key v) | Some i \<Rightarrow> Inr (upd i c)))"

definition env_text :: "os_env \<Rightarrow> string \<Rightarrow> (string \<Rightarrow> tel_config \<Rightarrow> tel_config) \<Rightarrow> tel_config \<Rightarrow> tel_config" where
  "env_text E key upd c = (let v = trim_space (os_getenv E key) in if v = [] then c else upd v c)"

definition apply_env :: "os_env \<Rightarrow> tel_config \<Rightarrow> cfg_err + tel_config" where
  "apply_env E c =
     (case env_number E ''TELFS_API_ID'' (\<lambda>i c. c\<lparr>cf_api_id := i\<rparr>) c of
        Inl e \<Rightarrow> Inl e
      | Inr c1 \<Rightarrow>
          env_number E ''TELFS_DC'' (\<lambda>i c. c\<lparr>cf_dc := i\<rparr>)
            (env_text E ''TELFS_PHONE'' (\<lambda>v c. c\<lparr>cf_phone := v\<rparr>)
              (env_text E ''TELFS_API_HASH'' (\<lambda>v c. c\<lparr>cf_api_hash := v\<rparr>) c1)))"

type_synonym decode_toml = "string \<Rightarrow> tel_config \<Rightarrow> string + tel_config"

definition load_from_dir :: "os_env \<Rightarrow> decode_toml \<Rightarrow> string \<Rightarrow> disk \<Rightarrow> (cfg_err + tel_config) \<times> disk" where
  "load_from_dir E dec dir d =
     (case os_mkdir_all E dir d of
        (Some e, d1) \<Rightarrow> (Inl (CfgOs e), d1)
      | (None, d1) \<Rightarrow>
          (let c = blank_config dir;
               read = (case os_stat E (config_path c) d1 of
                   Inr _ \<Rightarrow> (case os_read_file E (config_path c) d1 of
                       Inl e \<Rightarrow> Inl (CfgOs e)
                     | Inr body \<Rightarrow> (case dec body c of Inl e \<Rightarrow> Inl (DecodeFailed e) | Inr c1 \<Rightarrow> Inr c1))
                 | Inl (NotExist _) \<Rightarrow> Inr c
                 | Inl e \<Rightarrow> Inl (CfgOs e))
           in (case read of Inl e \<Rightarrow> Inl e | Inr c1 \<Rightarrow> apply_env E (c1\<lparr>cf_data_dir := dir\<rparr>), d1)))"

definition load_config :: "os_env \<Rightarrow> decode_toml \<Rightarrow> disk \<Rightarrow> (cfg_err + tel_config) \<times> disk" where
  "load_config E dec d = (case default_dir E d of Inl e \<Rightarrow> (Inl e, d) | Inr dir \<Rightarrow> load_from_dir E dec dir d)"

definition save_config :: "os_env \<Rightarrow> (tel_config \<Rightarrow> string + string) \<Rightarrow> tel_config \<Rightarrow> disk \<Rightarrow> cfg_err option \<times> disk" where
  "save_config E enc c d =
     (case os_mkdir_all E (cf_data_dir c) d of
        (Some e, d1) \<Rightarrow> (Some (CfgOs e), d1)
      | (None, d1) \<Rightarrow>
          (let tmp = config_path c @ ''.tmp'' in
           case os_create E tmp d1 of
             (Some e, d2) \<Rightarrow> (Some (CfgOs e), d2)
           | (None, d2) \<Rightarrow>
               (case enc c of
                  Inl e \<Rightarrow> (Some (EncodeFailed e), snd (os_remove E tmp d2))
                | Inr body \<Rightarrow>
                    (case os_put E tmp body d2 of
                       (Some e, d3) \<Rightarrow> (Some (CfgOs e), snd (os_remove E tmp d3))
                     | (None, d3) \<Rightarrow> (case os_rename E tmp (config_path c) d3 of (r, d4) \<Rightarrow> (map_option CfgOs r, d4))))))"

definition require_api :: "tel_config \<Rightarrow> cfg_err option" where
  "require_api c =
     (let missing = (if cf_api_id c = 0 then [''api_id''] else []) @ (if cf_api_hash c = [] then [''api_hash''] else [])
      in if missing = [] then None else Some (MissingApi missing))"

definition config_require_channel :: "tel_config \<Rightarrow> cfg_err option" where
  "config_require_channel c = (if cc_id (cf_channel c) = 0 \<or> cc_hash (cf_channel c) = 0 then Some NoChannelSet else None)"

section \<open>A profile's directory\<close>

lemma name_char_slash: "name_char c \<Longrightarrow> c \<noteq> CHR ''/'' \<and> c \<noteq> CHR ''.'' \<and> \<not> is_space c"
  by (auto simp: name_char_def is_space_def is_digit_def)

lemma profile_dir_ok:
  assumes "profile_dir E n = Inr dir"
  obtains root where "profiles_root E = Inr root" "dir = root @ CHR ''/'' # n" "n \<noteq> []" "\<forall>c\<in>set n. name_char c"
proof -
  have v: "validate_profile_name n = None" using assms by (simp add: profile_dir_def split: option.splits)
  then have n: "n \<noteq> []" "\<forall>c\<in>set n. name_char c" by (simp_all add: validate_profile_name_def list_all_iff split: if_splits)
  show ?thesis using assms v n that by (cases "profiles_root E") (simp_all add: profile_dir_def join_path_def)
qed

text \<open>Whatever name is given, the directory used is a direct child of the profiles root: no name climbs out of it.\<close>
theorem profile_dir_is_a_child:
  assumes "profile_dir E n = Inr dir"
  shows "\<exists>root. profiles_root E = Inr root \<and> dir = root @ ''/'' @ n \<and> n \<noteq> [] \<and> CHR ''/'' \<notin> set n \<and> n \<noteq> ''.'' \<and> n \<noteq> ''..'' \<and>
    parent_dir dir = root"
proof -
  obtain root where r: "profiles_root E = Inr root" "dir = root @ CHR ''/'' # n" "n \<noteq> []" "\<forall>c\<in>set n. name_char c"
    using profile_dir_ok [OF assms] .
  have n: "\<forall>c\<in>set n. c \<noteq> CHR ''/'' \<and> c \<noteq> CHR ''.''" using r(4) name_char_slash by blast
  have "dropWhile (\<lambda>c. c \<noteq> CHR ''/'') (rev n @ CHR ''/'' # rev root) = CHR ''/'' # rev root"
    using n by (subst dropWhile_append2) simp_all
  then have "parent_dir dir = root" unfolding parent_dir_def r(2) by simp
  moreover have "CHR ''.'' \<notin> set n" using n by blast
  then have "n \<noteq> ''.''" "n \<noteq> ''..''" by auto
  moreover have "CHR ''/'' \<notin> set n" using n by blast
  ultimately show ?thesis using r(1-3) by simp
qed

section \<open>Saving and loading\<close>

lemma dirs_of_short: "q \<in> set (dirs_of p) \<Longrightarrow> length q \<le> length p"
  by (auto simp: dirs_of_def)

lemma fold_dirs: "fold (\<lambda>q d. d(q \<mapsto> FDir)) qs d p = (if p \<in> set qs then Some FDir else d p)"
  by (induction qs arbitrary: d) auto

lemma mkdir_all_spec:
  assumes "os_mkdir_all E p d = (r, d1)"
  shows "q \<notin> set (dirs_of p) \<Longrightarrow> d1 q = d q" "r = None \<Longrightarrow> q \<in> set (dirs_of p) \<Longrightarrow> d1 q = Some FDir"
    "d q \<noteq> None \<Longrightarrow> d1 q = d q"
  using assms by (fastforce simp: os_mkdir_all_def fold_dirs Bex_set [symmetric] split: option.splits if_splits)+

lemma mkdir_all_longer: "os_mkdir_all E p d = (r, d1) \<Longrightarrow> length p < length q \<Longrightarrow> d1 q = d q"
  using mkdir_all_spec(1) dirs_of_short by (metis not_le)

lemma config_path_longer: "length (cf_data_dir c) < length (config_path c)"
  by (simp add: config_path_def join_path_def)

lemma config_tmp_differs [simp]: "config_path c @ ''.tmp'' \<noteq> config_path c"
  by simp

lemma save_effect:
  assumes "save_config E enc c d = (r, d')"
  shows "(case r of
      None \<Rightarrow> (\<exists>body. enc c = Inr body \<and> d' (config_path c) = Some (FFile body)) \<and> d' (config_path c @ ''.tmp'') = None
    | Some _ \<Rightarrow> d' (config_path c) = d (config_path c)) \<and>
    (\<forall>p. length (cf_data_dir c) < length p \<longrightarrow> p \<noteq> config_path c \<longrightarrow> p \<noteq> config_path c @ ''.tmp'' \<longrightarrow> d' p = d p)"
proof -
  let ?p = "config_path c" and ?t = "config_path c @ ''.tmp''"
  obtain r1 d1 where m: "os_mkdir_all E (cf_data_dir c) d = (r1, d1)" by fastforce
  note keep = mkdir_all_longer [OF m]
  have at: "d1 ?p = d ?p" by (rule keep) (rule config_path_longer)
  obtain r2 d2 where o2: "os_create E ?t d1 = (r2, d2)" by fastforce
  have d2: "q \<noteq> ?t \<Longrightarrow> d2 q = d1 q" for q using o2 by (auto simp: os_create_def split: option.splits if_splits)
  have rm: "q \<noteq> ?t \<Longrightarrow> snd (os_remove E ?t x) q = x q" for q x by (simp add: os_remove_def split: option.splits)
  have put: "q \<noteq> ?t \<Longrightarrow> snd (os_put E ?t body x) q = x q" for q x body by (simp add: os_put_def split: option.splits)
  show ?thesis
  proof (cases r1)
    case (Some e)
    then show ?thesis using assms m at keep by (auto simp: save_config_def)
  next
    case None
    show ?thesis
    proof (cases r2)
      case (Some e)
      then show ?thesis using assms m None o2 d2 at keep by (auto simp: save_config_def Let_def)
    next
      case None2: None
      show ?thesis
      proof (cases "enc c")
        case (Inl e)
        then show ?thesis using assms m None o2 None2 d2 rm at keep by (auto simp: save_config_def Let_def)
      next
        case (Inr body)
        obtain r3 d3 where p3: "os_put E ?t body d2 = (r3, d3)" by fastforce
        have d3: "q \<noteq> ?t \<Longrightarrow> d3 q = d2 q" for q using put [of q body d2] p3 by simp
        show ?thesis
        proof (cases r3)
          case (Some e)
          then show ?thesis using assms m None o2 None2 Inr p3 d3 d2 rm at keep by (auto simp: save_config_def Let_def)
        next
          case None3: None
          have body: "d3 ?t = Some (FFile body)" using p3 None3 by (auto simp: os_put_def split: option.splits)
          obtain r4 d4 where p4: "os_rename E ?t ?p d3 = (r4, d4)" by fastforce
          have "r = map_option CfgOs r4" "d' = d4" using assms m None o2 None2 Inr p3 None3 p4 by (simp_all add: save_config_def Let_def)
          then show ?thesis using p4 body d3 d2 at keep Inr by (auto simp: os_rename_def split: option.splits if_splits)
        qed
      qed
    qed
  qed
qed

text \<open>C30.  Whatever fails while a configuration is saved, the file that was there stands untouched; and if the save reports success
  the file is the whole new configuration and no temporary file is left.  No other file is touched.
\<close>
theorem config_save_is_atomic:
  assumes "save_config E enc c d = (r, d')"
  shows "(case r of
      None \<Rightarrow> (\<exists>body. enc c = Inr body \<and> d' (config_path c) = Some (FFile body)) \<and> d' (config_path c @ ''.tmp'') = None
    | Some _ \<Rightarrow> d' (config_path c) = d (config_path c)) \<and>
    (\<forall>p. length (cf_data_dir c) < length p \<longrightarrow> p \<noteq> config_path c \<longrightarrow> p \<noteq> config_path c @ ''.tmp'' \<longrightarrow> d' p = d p)"
  using assms by (rule save_effect)

text \<open>What a saved configuration decodes to, as the TOML codec promises: all but the directory, which is not stored.\<close>

definition toml_round_trips :: "(tel_config \<Rightarrow> string + string) \<Rightarrow> decode_toml \<Rightarrow> bool" where
  "toml_round_trips enc dec \<longleftrightarrow> (\<forall>c body. enc c = Inr body \<longrightarrow> (\<forall>b. \<exists>x. dec body (blank_config b) = Inr (c\<lparr>cf_data_dir := x\<rparr>)))"

definition no_overrides :: "os_env \<Rightarrow> bool" where
  "no_overrides E \<longleftrightarrow> (\<forall>k\<in>{''TELFS_API_ID'', ''TELFS_API_HASH'', ''TELFS_PHONE'', ''TELFS_DC''}. trim_space (os_getenv E k) = [])"

lemma apply_no_overrides: "no_overrides E \<Longrightarrow> apply_env E c = Inr c"
  by (simp add: no_overrides_def apply_env_def env_number_def env_text_def)

lemma dirs_of_self: "p \<in> set (dirs_of p)"
  by (simp add: dirs_of_def)

lemma mkdir_all_again:
  assumes "os_mkdir_all E p d = (None, d1)" "\<forall>q\<in>set (dirs_of p). d2 q = d1 q" "os_fault E ''mkdir'' p = None"
  shows "os_mkdir_all E p d2 = (None, d2)"
proof -
  have "d2 q = Some FDir" if "q \<in> set (dirs_of p)" for q using mkdir_all_spec(2) [OF assms(1) refl that] assms(2) that by simp
  moreover from this have "fold (\<lambda>q d. d(q \<mapsto> FDir)) (dirs_of p) d2 = d2" by (auto simp: fold_dirs)
  ultimately show ?thesis using assms(3) by (auto simp: os_mkdir_all_def list_ex_iff)
qed

lemma save_then_load:
  assumes "save_config E enc c d = (None, d')" "toml_round_trips enc dec" "no_overrides E"
    "os_fault E ''stat'' (config_path c) = None" "os_fault E ''read'' (config_path c) = None"
  shows "load_from_dir E dec (cf_data_dir c) d' = (Inr c, d')"
proof -
  let ?dir = "cf_data_dir c"
  have "\<exists>d1. os_mkdir_all E ?dir d = (None, d1)" using assms(1) by (auto simp: save_config_def split: prod.splits option.splits)
  then obtain d1 where m: "os_mkdir_all E ?dir d = (None, d1)" ..
  have f: "os_fault E ''mkdir'' ?dir = None" using m by (auto simp: os_mkdir_all_def split: option.splits)
  have at: "(\<exists>body. enc c = Inr body \<and> d' (config_path c) = Some (FFile body))"
    using assms(1) by (auto simp: save_config_def Let_def os_rename_def os_put_def split: prod.splits option.splits sum.splits if_splits)
  then obtain body where b: "enc c = Inr body" "d' (config_path c) = Some (FFile body)" by blast
  have short: "length q \<le> length ?dir \<Longrightarrow> d' q = d1 q" for q
  proof -
    assume "length q \<le> length ?dir"
    then have "q \<noteq> config_path c" "q \<noteq> config_path c @ ''.tmp''" using config_path_longer [of c] by auto
    then show ?thesis using assms(1) m
      by (auto simp: save_config_def Let_def os_rename_def os_put_def os_create_def split: prod.splits option.splits sum.splits if_splits)
  qed
  have again: "os_mkdir_all E ?dir d' = (None, d')"
    by (rule mkdir_all_again [OF m _ f]) (use short dirs_of_short in blast)
  obtain x where x: "dec body (blank_config ?dir) = Inr (c\<lparr>cf_data_dir := x\<rparr>)" using assms(2) b(1) unfolding toml_round_trips_def by blast
  have path: "config_path (blank_config ?dir) = config_path c" by (simp add: config_path_def blank_config_def)
  have same: "c\<lparr>cf_data_dir := x, cf_data_dir := cf_data_dir c\<rparr> = c" by simp
  show ?thesis using again b(2) x assms(3-5)
    by (simp add: load_from_dir_def Let_def path os_stat_def os_read_file_def apply_no_overrides same)
qed

text \<open>A configuration that was saved is the one loaded from its directory, as long as the environment overrides nothing.\<close>
theorem config_save_load:
  assumes "save_config E enc c d = (None, d')" "toml_round_trips enc dec" "no_overrides E"
    "os_fault E ''stat'' (config_path c) = None" "os_fault E ''read'' (config_path c) = None"
  shows "load_from_dir E dec (cf_data_dir c) d' = (Inr c, d')"
  using assms by (rule save_then_load)

section \<open>Choosing a profile\<close>

lemma trim_name: "\<forall>c\<in>set n. name_char c \<Longrightarrow> trim_space (n @ [CHR 0x0A]) = n"
proof -
  assume n: "\<forall>c\<in>set n. name_char c"
  have nl: "is_space (CHR 0x0A)" by (simp add: is_space_def)
  have "\<forall>c\<in>set n. \<not> is_space c" using n name_char_slash by blast
  then have "trim_space n = n" by (rule trim_space_id)
  moreover have "dropWhile is_space (n @ [CHR 0x0A]) = (if n = [] then [] else n @ [CHR 0x0A])"
    using \<open>\<forall>c\<in>set n. \<not> is_space c\<close> nl by (cases n) auto
  ultimately show ?thesis using \<open>\<forall>c\<in>set n. \<not> is_space c\<close> nl by (cases n) (auto simp: trim_space_def)
qed

text \<open>The profile chosen with \<open>profile use\<close> is the one later commands work in, unless the environment names another; once its directory
  is gone it is no longer chosen.
\<close>
theorem chosen_profile_is_used:
  assumes "set_active_profile E n d = (None, d')" "trim_space (os_getenv E ''TELFS_PROFILE'') = []" "profile_dir E n = Inr dir"
    "\<forall>op p. os_fault E op p = None"
  shows "active_profile E d' = (if d' dir = None then [] else n) \<and>
    default_dir E d' = (if d' dir = None then Inl NoActiveProfile else Inr dir)"
proof -
  obtain root where r: "xdg_config_home E = Inr root" and v: "validate_profile_name n = None"
    using assms(1) by (auto simp: set_active_profile_def split: option.splits sum.splits)
  have n: "\<forall>c\<in>set n. name_char c" "n \<noteq> []" using v by (auto simp: validate_profile_name_def list_all_iff split: if_splits)
  have "d' (active_path root) = Some (FFile (n @ [CHR 0x0A]))"
    using assms(1,4) r v by (auto simp: set_active_profile_def os_write_file_def os_put_def split: prod.splits option.splits)
  then have "os_read_file E (active_path root) d' = Inr (n @ [CHR 0x0A])" using assms(4) by (simp add: os_read_file_def)
  then have "read_active_profile E d' = (if d' dir = None then None else Some n)"
    using r trim_name [OF n(1)] n(2) v assms(3,4) by (auto simp: read_active_profile_def Let_def os_stat_def split: option.splits)
  then show ?thesis using assms(2,3) by (simp add: active_profile_def default_dir_def Let_def)
qed

section \<open>A concrete disk\<close>

definition plain_env :: os_env where
  "plain_env = \<lparr>os_getenv = (\<lambda>k. if k = ''XDG_CONFIG_HOME'' then ''/x'' else []), os_home = None, os_fault = (\<lambda>_ _. None), os_short = (\<lambda>_. 0)\<rparr>"

definition plain_disk :: disk where
  "plain_disk = (\<lambda>p. if p \<in> {''/x'', ''/x/telfs'', ''/x/telfs/profiles'', ''/x/telfs/profiles/a''} then Some FDir else None)"

definition plain_config :: tel_config where
  "plain_config = (blank_config ''/x/telfs/profiles/a'')\<lparr>cf_phone := ''1''\<rparr>"

definition plain_enc :: "tel_config \<Rightarrow> string + string" where
  "plain_enc c = (if c = plain_config then Inr ''t'' else Inl ''not encoded'')"

theorem profile_dir_is_a_child_witness:
  "profile_dir plain_env ''a'' = Inr ''/x/telfs/profiles/a'' \<and> parent_dir ''/x/telfs/profiles/a'' = ''/x/telfs/profiles''"
proof -
  have d: "profile_dir plain_env ''a'' = Inr ''/x/telfs/profiles/a''" by code_simp
  have "profiles_root plain_env = Inr ''/x/telfs/profiles''" by code_simp
  then show ?thesis using d profile_dir_is_a_child [OF d] by simp
qed

theorem config_save_is_atomic_witness:
  "\<exists>d'. save_config plain_env plain_enc plain_config plain_disk = (None, d') \<and>
     d' ''/x/telfs/profiles/a/config.toml'' = Some (FFile ''t'') \<and> d' ''/x/telfs/profiles/a/config.toml.tmp'' = None"
proof -
  obtain r d' where s: "save_config plain_env plain_enc plain_config plain_disk = (r, d')" by fastforce
  have "fst (save_config plain_env plain_enc plain_config plain_disk) = None" by code_simp
  then have r: "r = None" using s by simp
  have p: "config_path plain_config = ''/x/telfs/profiles/a/config.toml''" by code_simp
  show ?thesis using config_save_is_atomic [OF s] s r by (auto simp: p plain_enc_def)
qed

lemma plain_toml: "toml_round_trips plain_enc (\<lambda>_ _. Inr plain_config)"
  unfolding toml_round_trips_def plain_enc_def
proof (intro allI impI)
  fix c body b assume "(if c = plain_config then Inr ''t'' else Inl ''not encoded'') = (Inr body :: string + string)"
  then have "c = plain_config" by (simp split: if_splits)
  then have "c\<lparr>cf_data_dir := cf_data_dir c\<rparr> = plain_config" by simp
  then show "\<exists>x. Inr plain_config = (Inr (c\<lparr>cf_data_dir := x\<rparr>) :: string + tel_config)" by metis
qed

theorem config_save_load_witness:
  "load_from_dir plain_env (\<lambda>_ _. Inr plain_config) (cf_data_dir plain_config) (snd (save_config plain_env plain_enc plain_config plain_disk)) =
    (Inr plain_config, snd (save_config plain_env plain_enc plain_config plain_disk))"
proof -
  have "fst (save_config plain_env plain_enc plain_config plain_disk) = None" by code_simp
  then have s: "save_config plain_env plain_enc plain_config plain_disk = (None, snd (save_config plain_env plain_enc plain_config plain_disk))"
    by (simp add: prod_eq_iff)
  have "no_overrides plain_env" by (simp add: no_overrides_def plain_env_def trim_space_def)
  then show ?thesis by (intro config_save_load [OF s plain_toml]) (simp_all add: plain_env_def)
qed

theorem chosen_profile_is_used_witness:
  "default_dir plain_env (snd (set_active_profile plain_env ''a'' plain_disk)) = Inr ''/x/telfs/profiles/a''"
proof -
  have "fst (set_active_profile plain_env ''a'' plain_disk) = None" by code_simp
  then have s: "set_active_profile plain_env ''a'' plain_disk = (None, snd (set_active_profile plain_env ''a'' plain_disk))"
    by (simp add: prod_eq_iff)
  have "profile_dir plain_env ''a'' = Inr ''/x/telfs/profiles/a''" by code_simp
  moreover have "snd (set_active_profile plain_env ''a'' plain_disk) ''/x/telfs/profiles/a'' = Some FDir" by code_simp
  ultimately show ?thesis using chosen_profile_is_used [OF s] by (simp add: plain_env_def trim_space_def)
qed

end
