(* ===== verification/Profiles.thy ===== *)
theory Profiles
  imports Config Supervisor "HOL-Library.Countable"
begin

text \<open>
  The \<open>telfs profile\<close> commands (\<open>cmd/telfs/profile.go\<close>): list, create, delete, reset-auth, use, export and import of a profile, over the
  disk and the environment of \<open>Config\<close> and the host of \<open>MountCtl\<close>.  Arguments come parsed and what is printed is
  left out; tar and gzip are parameters.
\<close>

section \<open>Commands\<close>

datatype prof_err =
  PrCfg cfg_err | PrOs os_err | PrExists string | PrNotFound string | PrDaemon int string | PrAborted | PrUninitialized string
| PrUnzip string | PrTar string | PrIncomplete "string list"

text \<open>The listing: the names with the mark of the active one, and whether to say that none is active.  \<open>entries\<close> is the answer of the directory read.\<close>

definition profile_list :: "os_env \<Rightarrow> os_err + (string \<times> bool) list \<Rightarrow> disk \<Rightarrow> prof_err + ((bool \<times> string) list \<times> bool)" where
  "profile_list E entries d =
     (case profiles_root E of
        Inl e \<Rightarrow> Inl (PrCfg e)
      | Inr _ \<Rightarrow>
          (case entries of
             Inl (NotExist _) \<Rightarrow> Inr ([], False)
           | Inl e \<Rightarrow> Inl (PrOs e)
           | Inr es \<Rightarrow>
               (let names = sort (map fst (filter (\<lambda>e. snd e \<and> validate_profile_name (fst e) = None) es)) in
                if names = [] then Inr ([], False)
                else (let act = active_profile E d in Inr (map (\<lambda>n. (n = act, n)) names, act = [])))))"

definition profile_create :: "os_env \<Rightarrow> string \<Rightarrow> disk \<Rightarrow> prof_err option \<times> disk" where
  "profile_create E n d =
     (case profile_dir E n of
        Inl e \<Rightarrow> (Some (PrCfg e), d)
      | Inr dir \<Rightarrow>
          if is_ok (os_stat E dir d) then (Some (PrExists n), d)
          else (case os_mkdir_all E dir d of (r, d1) \<Rightarrow> (map_option PrOs r, d1)))"

definition gone :: "os_env \<Rightarrow> string \<Rightarrow> disk \<Rightarrow> bool" where
  "gone E p d = (case os_stat E p d of Inl (NotExist _) \<Rightarrow> True | _ \<Rightarrow> False)"

definition profile_delete :: "os_env \<Rightarrow> host \<Rightarrow> bool \<Rightarrow> string \<Rightarrow> disk \<Rightarrow> prof_err option \<times> disk" where
  "profile_delete E h force n d =
     (case profile_dir E n of
        Inl e \<Rightarrow> (Some (PrCfg e), d)
      | Inr dir \<Rightarrow>
          if gone E dir d then (Some (PrNotFound n), d)
          else (case find_by_profile h n of
              Some (pid, mp) \<Rightarrow> (Some (PrDaemon pid mp), d)
            | None \<Rightarrow>
                if \<not> force then (Some PrAborted, d)
                else
                  (let was_active = (active_profile E d = n) in
                   case os_remove_all E dir d of
                     (Some e, d1) \<Rightarrow> (Some (PrOs e), d1)
                   | (None, d1) \<Rightarrow>
                       if was_active then (case clear_active_profile E d1 of (r, d2) \<Rightarrow> (map_option PrCfg r, d2)) else (None, d1))))"

definition profile_reset_auth ::
    "os_env \<Rightarrow> (tel_config \<Rightarrow> string + string) \<Rightarrow> decode_toml \<Rightarrow> host \<Rightarrow> bool \<Rightarrow> string \<Rightarrow> disk \<Rightarrow> prof_err option \<times> disk" where
  "profile_reset_auth E enc dec h force n d =
     (case profile_dir E n of
        Inl e \<Rightarrow> (Some (PrCfg e), d)
      | Inr dir \<Rightarrow>
          if gone E dir d then (Some (PrNotFound n), d)
          else (case find_by_profile h n of
              Some (pid, mp) \<Rightarrow> (Some (PrDaemon pid mp), d)
            | None \<Rightarrow>
                (case load_from_dir E dec dir d of
                   (Inl e, d1) \<Rightarrow> (Some (PrCfg e), d1)
                 | (Inr c, d1) \<Rightarrow>
                     if \<not> force then (Some PrAborted, d1)
                     else
                       (case os_remove E (session_path c) d1 of
                          (Some (OsFault e), d2) \<Rightarrow> (Some (PrOs (OsFault e)), d2)
                        | (_, d2) \<Rightarrow>
                            (case save_config E enc (c\<lparr>cf_phone := [], cf_identity := None, cf_channel := no_channel\<rparr>) d2 of
                               (r, d3) \<Rightarrow> (map_option PrCfg r, d3))))))"

definition profile_use :: "os_env \<Rightarrow> string \<Rightarrow> disk \<Rightarrow> prof_err option \<times> disk" where
  "profile_use E n d =
     (case profile_dir E n of
        Inl e \<Rightarrow> (Some (PrCfg e), d)
      | Inr dir \<Rightarrow>
          if gone E dir d then (Some (PrNotFound n), d)
          else (case set_active_profile E n d of (r, d1) \<Rightarrow> (map_option PrCfg r, d1)))"

section \<open>Bundles\<close>

definition bundle_files :: "string list" where
  "bundle_files = [''config.toml'', ''session.json'', ''db.sqlite'']"

definition resolve_profile_src :: "os_env \<Rightarrow> string \<Rightarrow> disk \<Rightarrow> cfg_err + string" where
  "resolve_profile_src E n d = (if n = [] then default_dir E d else profile_dir E n)"

text \<open>The entries of the archive up to the first file that cannot be read, and the error there.\<close>

fun tar_add_files :: "os_env \<Rightarrow> string \<Rightarrow> disk \<Rightarrow> string list \<Rightarrow> (string \<times> string) list \<times> os_err option" where
  "tar_add_files E src d [] = ([], None)"
| "tar_add_files E src d (f # fs) =
     (case os_stat E (join_path src f) d of
        Inl e \<Rightarrow> ([], Some e)
      | Inr _ \<Rightarrow>
          (case os_read_file E (join_path src f) d of
             Inl e \<Rightarrow> ([], Some e)
           | Inr body \<Rightarrow> (case tar_add_files E src d fs of (es, r) \<Rightarrow> ((f, body) # es, r))))"

definition profile_export :: "os_env \<Rightarrow> ((string \<times> string) list \<Rightarrow> string) \<Rightarrow> string \<Rightarrow> string \<Rightarrow> disk \<Rightarrow> prof_err option \<times> disk" where
  "profile_export E pack n out d =
     (case resolve_profile_src E n d of
        Inl e \<Rightarrow> (Some (PrCfg e), d)
      | Inr src \<Rightarrow>
          (case find (\<lambda>f. \<not> is_ok (os_stat E (join_path src f) d)) bundle_files of
             Some f \<Rightarrow> (Some (PrUninitialized f), d)
           | None \<Rightarrow>
               (case os_create E out d of
                  (Some e, d1) \<Rightarrow> (Some (PrOs e), d1)
                | (None, d1) \<Rightarrow>
                    (case tar_add_files E src d1 bundle_files of (es, bad) \<Rightarrow>
                       (case os_put E out (pack es) d1 of (r, d2) \<Rightarrow>
                          (case bad of Some e \<Rightarrow> (Some (PrOs e), d2) | None \<Rightarrow> (map_option PrOs r, d2)))))))"

text \<open>What the archive reader gives: a file, a file cut short by an error, or an error at a header.\<close>

datatype tar_item = TarFile string string | TarCut string string string | TarBad string

definition trim_prefix :: "string \<Rightarrow> string \<Rightarrow> string" where
  "trim_prefix p s = (if prefix p s then drop (length p) s else s)"

fun import_items :: "os_env \<Rightarrow> string \<Rightarrow> tar_item list \<Rightarrow> string list \<Rightarrow> disk \<Rightarrow> (prof_err + string list) \<times> disk" where
  "import_items E dst [] got d = (Inr got, d)"
| "import_items E dst (TarBad e # its) got d = (Inl (PrTar e), d)"
| "import_items E dst (TarCut nm part e # its) got d =
     (let n = trim_prefix ''./'' nm in
      if n \<notin> set bundle_files then (Inl (PrTar e), d)
      else (case os_write_file E (join_path dst n) part d of (r, d1) \<Rightarrow> (Inl (case r of Some x \<Rightarrow> PrOs x | None \<Rightarrow> PrTar e), d1)))"
| "import_items E dst (TarFile nm body # its) got d =
     (let n = trim_prefix ''./'' nm in
      if n \<notin> set bundle_files then import_items E dst its got d
      else (case os_write_file E (join_path dst n) body d of
          (Some x, d1) \<Rightarrow> (Inl (PrOs x), d1)
        | (None, d1) \<Rightarrow> import_items E dst its (List.insert n got) d1))"

definition profile_import ::
    "os_env \<Rightarrow> (string \<Rightarrow> string + tar_item list) \<Rightarrow> bool \<Rightarrow> string \<Rightarrow> string \<Rightarrow> disk \<Rightarrow> prof_err option \<times> disk" where
  "profile_import E unpack force n bundle d =
     (case profile_dir E n of
        Inl e \<Rightarrow> (Some (PrCfg e), d)
      | Inr dst \<Rightarrow>
          if is_ok (os_stat E dst d) \<and> \<not> force then (Some (PrExists n), d)
          else
            (case os_mkdir_all E dst d of
               (Some e, d1) \<Rightarrow> (Some (PrOs e), d1)
             | (None, d1) \<Rightarrow>
                 (case os_read_file E bundle d1 of
                    Inl e \<Rightarrow> (Some (PrOs e), d1)
                  | Inr b \<Rightarrow>
                      (case unpack b of
                         Inl e \<Rightarrow> (Some (PrUnzip e), d1)
                       | Inr its \<Rightarrow>
                           (case import_items E dst its [] d1 of
                              (Inl e, d2) \<Rightarrow> (Some e, d2)
                            | (Inr got, d2) \<Rightarrow>
                                (let missing = filter (\<lambda>f. f \<notin> set got) bundle_files in
                                 (if length got \<noteq> length bundle_files then Some (PrIncomplete missing) else None, d2)))))))"

section \<open>Imports\<close>

definition targets :: "string \<Rightarrow> string set" where
  "targets dst = join_path dst ` set bundle_files"

lemma write_file_elsewhere: "os_write_file E p body d = (r, d1) \<Longrightarrow> q \<noteq> p \<Longrightarrow> d1 q = d q"
  by (auto simp: os_write_file_def os_create_def os_put_def split: prod.splits option.splits if_splits)

lemma write_file_there: "os_write_file E p body d = (None, d1) \<Longrightarrow> d1 p = Some (FFile body)"
  by (auto simp: os_write_file_def os_put_def split: prod.splits option.splits)

lemma import_items_elsewhere: "import_items E dst items got d = (r, d1) \<Longrightarrow> q \<notin> targets dst \<Longrightarrow> d1 q = d q"
proof (induction E dst items got d arbitrary: r d1 rule: import_items.induct)
  case (3 E dst nm part e items got d)
  show ?case
  proof (cases "trim_prefix ''./'' nm \<in> set bundle_files")
    case True
    then have ne: "q \<noteq> join_path dst (trim_prefix ''./'' nm)" using 3(2) by (auto simp: targets_def)
    obtain r2 d2 where w: "os_write_file E (join_path dst (trim_prefix ''./'' nm)) part d = (r2, d2)" by fastforce
    then show ?thesis using 3(1) True write_file_elsewhere [OF w ne] by (simp add: Let_def)
  qed (use 3 in \<open>simp add: Let_def\<close>)
next
  case (4 E dst nm body items got d)
  show ?case
  proof (cases "trim_prefix ''./'' nm \<in> set bundle_files")
    case True
    then have ne: "q \<noteq> join_path dst (trim_prefix ''./'' nm)" using 4(4) by (auto simp: targets_def)
    obtain r2 d2 where w: "os_write_file E (join_path dst (trim_prefix ''./'' nm)) body d = (r2, d2)" by fastforce
    have "d2 q = d q" using write_file_elsewhere [OF w] ne by blast
    then show ?thesis using 4(2) [OF refl _ w [symmetric], of r d1] 4(3,4) True w by (auto simp: Let_def split: option.splits)
  qed (use 4 in \<open>simp add: Let_def\<close>)
qed auto

text \<open>The content of the last entry of a name.\<close>

fun last_entry :: "tar_item list \<Rightarrow> string \<Rightarrow> string option" where
  "last_entry [] f = None"
| "last_entry (TarFile nm body # its) f =
     (case last_entry its f of Some b \<Rightarrow> Some b | None \<Rightarrow> if trim_prefix ''./'' nm = f then Some body else None)"
| "last_entry (_ # its) f = last_entry its f"

lemma join_path_below: "join_path p f \<noteq> p" "p \<noteq> join_path p f"
  by (simp_all add: join_path_def)

lemma join_path_inj: "join_path a x = join_path a y \<longleftrightarrow> x = y"
  by (simp add: join_path_def)

lemma import_items_result:
  "import_items E dst items got d = (Inr got', d1) \<Longrightarrow> f \<in> set bundle_files \<Longrightarrow>
   d1 (join_path dst f) = (case last_entry items f of Some b \<Rightarrow> Some (FFile b) | None \<Rightarrow> d (join_path dst f)) \<and>
   (f \<in> set got' \<longleftrightarrow> f \<in> set got \<or> last_entry items f \<noteq> None)"
proof (induction E dst items got d arbitrary: d1 rule: import_items.induct)
  case (4 E dst nm body items got d)
  show ?case
  proof (cases "trim_prefix ''./'' nm \<in> set bundle_files")
    case True
    obtain r2 d2 where w: "os_write_file E (join_path dst (trim_prefix ''./'' nm)) body d = (r2, d2)" by fastforce
    have "r2 = None" and rest: "import_items E dst items (List.insert (trim_prefix ''./'' nm) got) d2 = (Inr got', d1)"
      using 4(3) True w by (auto simp: Let_def split: option.splits)
    note IH = 4(2) [OF refl _ w [symmetric] \<open>r2 = None\<close> rest 4(4)]
    have "d2 (join_path dst f) = (if trim_prefix ''./'' nm = f then Some (FFile body) else d (join_path dst f))"
      using write_file_there [of E _ body d d2] write_file_elsewhere [OF w, of "join_path dst f"] w \<open>r2 = None\<close> by (auto simp: join_path_inj)
    then show ?thesis using IH True by (auto split: option.splits)
  next
    case False
    then have "trim_prefix ''./'' nm \<noteq> f" using 4(4) by blast
    then show ?thesis using 4(1) [OF refl] False 4(3,4) by (auto simp: Let_def split: option.splits)
  qed
qed (auto simp: Let_def split: if_splits prod.splits)

lemma import_items_got:
  "import_items E dst items got d = (Inr got', d1) \<Longrightarrow>
   (set got \<subseteq> set bundle_files \<longrightarrow> set got' \<subseteq> set bundle_files) \<and> (distinct got \<longrightarrow> distinct got')"
proof (induction E dst items got d arbitrary: d1 rule: import_items.induct)
  case (4 E dst nm body items got d)
  show ?case
  proof (cases "trim_prefix ''./'' nm \<in> set bundle_files")
    case True
    obtain r2 d2 where w: "os_write_file E (join_path dst (trim_prefix ''./'' nm)) body d = (r2, d2)" by fastforce
    have "r2 = None" and rest: "import_items E dst items (List.insert (trim_prefix ''./'' nm) got) d2 = (Inr got', d1)"
      using 4(3) True w by (auto simp: Let_def split: option.splits)
    show ?thesis using 4(2) [OF refl _ w [symmetric] \<open>r2 = None\<close> rest] True by auto
  qed (use 4 in \<open>auto simp: Let_def\<close>)
qed (auto simp: Let_def split: if_splits prod.splits)

lemma import_effect:
  assumes "profile_import E unpack force n bundle d = (r, d')" "profile_dir E n = Inr dst"
  shows "(\<forall>q. q \<notin> targets dst \<longrightarrow> q \<notin> set (dirs_of dst) \<longrightarrow> d' q = d q) \<and>
    (r = None \<longrightarrow> (\<exists>d1 b items. os_read_file E bundle d1 = Inr b \<and> unpack b = Inr items \<and> snd (os_mkdir_all E dst d) = d1 \<and>
       (\<forall>f\<in>set bundle_files. \<exists>body. last_entry items f = Some body \<and> d' (join_path dst f) = Some (FFile body))))"
proof -
  obtain r1 d1 where m: "os_mkdir_all E dst d = (r1, d1)" by fastforce
  note keep = mkdir_all_spec(1) [OF m]
  show ?thesis
  proof (cases "r1 = None \<and> \<not> (is_ok (os_stat E dst d) \<and> \<not> force) \<and> (\<exists>b items. os_read_file E bundle d1 = Inr b \<and> unpack b = Inr items)")
    case False
    then show ?thesis using assms m keep by (auto simp: profile_import_def split: if_splits option.splits sum.splits)
  next
    case True
    then obtain b items where b: "os_read_file E bundle d1 = Inr b" "unpack b = Inr items" by blast
    obtain x d2 where i: "import_items E dst items [] d1 = (x, d2)" by fastforce
    have d': "d' = d2" using assms m True b i by (auto simp: profile_import_def Let_def split: sum.splits)
    have "\<exists>body. last_entry items f = Some body \<and> d' (join_path dst f) = Some (FFile body)" if "r = None" "f \<in> set bundle_files" for f
    proof -
      note rn = that(1)
      obtain got where got: "x = Inr got" "length got = length bundle_files"
        using assms m True b i rn by (auto simp: profile_import_def Let_def split: sum.splits if_splits)
      have sub: "set got \<subseteq> set bundle_files" and "distinct got"
        using import_items_got [OF i [unfolded got(1)]] by simp_all
      then have "set got = set bundle_files"
        using got(2) by (intro card_subset_eq) (simp_all add: distinct_card bundle_files_def)
      then show ?thesis using import_items_result [OF i [unfolded got(1)] that(2)] that(2) d' by auto
    qed
    then have "\<exists>d1 b items. os_read_file E bundle d1 = Inr b \<and> unpack b = Inr items \<and> snd (os_mkdir_all E dst d) = d1 \<and>
       (\<forall>f\<in>set bundle_files. \<exists>body. last_entry items f = Some body \<and> d' (join_path dst f) = Some (FFile body))" if "r = None"
      using that b m by (intro exI conjI) auto
    moreover have "q \<notin> targets dst \<Longrightarrow> q \<notin> set (dirs_of dst) \<Longrightarrow> d' q = d q" for q
      using import_items_elsewhere [OF i] keep d' by simp
    ultimately show ?thesis by blast
  qed
qed

lemmas import_success = import_effect [THEN conjunct2, THEN mp, OF _ _ refl]

text \<open>An import touches nothing but the three files of the profile and the directories above them, whatever names
  the archive holds; and when it succeeds each of the three holds the archive's last entry of that name.
\<close>
theorem import_stays_in_the_profile:
  assumes "profile_import E unpack force n bundle d = (r, d')" "profile_dir E n = Inr dst"
  shows "(\<forall>q. q \<notin> targets dst \<longrightarrow> q \<notin> set (dirs_of dst) \<longrightarrow> d' q = d q) \<and>
    (r = None \<longrightarrow> (\<exists>d1 b items. os_read_file E bundle d1 = Inr b \<and> unpack b = Inr items \<and> snd (os_mkdir_all E dst d) = d1 \<and>
       (\<forall>f\<in>set bundle_files. \<exists>body. last_entry items f = Some body \<and> d' (join_path dst f) = Some (FFile body))))"
  using assms by (rule import_effect)

section \<open>Export and import\<close>

lemma stat_read: "os_read_file E p d = Inr b \<Longrightarrow> d p = Some (FFile b)"
  by (auto simp: os_read_file_def split: option.splits fnode.splits)

lemma tar_add_all: "tar_add_files E src d fs = (es, None) \<Longrightarrow>
    map fst es = fs \<and> (\<forall>(f, b)\<in>set es. d (join_path src f) = Some (FFile b))"
proof (induction fs arbitrary: es)
  case (Cons f fs)
  then obtain b es1 where "os_read_file E (join_path src f) d = Inr b" "tar_add_files E src d fs = (es1, None)" "es = (f, b) # es1"
    by (auto split: sum.splits prod.splits)
  then show ?case using Cons.IH stat_read by fastforce
qed simp

lemma last_entry_files: "distinct (map fst es) \<Longrightarrow> (\<forall>f\<in>set (map fst es). \<not> prefix ''./'' f) \<Longrightarrow>
    last_entry (map (\<lambda>(f, b). TarFile f b) es) f = map_of es f"
proof (induction es)
  case (Cons e es)
  obtain g b where e: "e = (g, b)" by fastforce
  have "map_of es g = None" using Cons.prems(1) e by (simp add: map_of_eq_None_iff)
  then show ?case using Cons e by (auto simp: trim_prefix_def split: option.splits)
qed simp

text \<open>What is exported from one profile and imported into another is the same three files, byte for byte, provided the archive
  codec gives back the entries it packed.
\<close>
theorem export_import_round_trip:
  assumes "profile_export E pack a out d = (None, d1)" "resolve_profile_src E a d = Inr src" "\<forall>f\<in>set bundle_files. out \<noteq> join_path src f"
    "profile_import E unpack force b out d1 = (None, d2)" "profile_dir E b = Inr dst" "out \<notin> set (dirs_of dst)"
    "\<forall>es. unpack (pack es) = Inr (map (\<lambda>(f, c). TarFile f c) es)"
  shows "\<forall>f\<in>set bundle_files. \<exists>c. d (join_path src f) = Some (FFile c) \<and> d2 (join_path dst f) = Some (FFile c)"
proof
  fix f assume f: "f \<in> set bundle_files"
  obtain e0 da where c: "os_create E out d = (e0, da)" by fastforce
  have x: "e0 = None \<and> (\<exists>es. tar_add_files E src da bundle_files = (es, None) \<and> os_put E out (pack es) da = (None, d1))"
    using assms(1,2) c by (auto simp: profile_export_def split: option.splits prod.splits)
  then obtain es where es: "tar_add_files E src da bundle_files = (es, None)" "os_put E out (pack es) da = (None, d1)" by blast
  have da: "q \<noteq> out \<Longrightarrow> da q = d q" for q using c by (auto simp: os_create_def split: option.splits if_splits)
  note all = tar_add_all [OF es(1)]
  have dist: "distinct (map fst es)" "\<forall>f\<in>set (map fst es). \<not> prefix ''./'' f" using all by (simp_all add: bundle_files_def)
  obtain c where "(f, c) \<in> set es" using all f by (metis (no_types, lifting) imageE list.set_map prod.collapse)
  then have c: "map_of es f = Some c" "d (join_path src f) = Some (FFile c)" using dist(1) all da assms(3) f by fastforce+
  have out: "d1 out = Some (FFile (pack es))" using es(2) by (auto simp: os_put_def split: option.splits)
  from import_success [OF assms(4,5)] obtain d3 bb items where i: "os_read_file E out d3 = Inr bb" "unpack bb = Inr items"
    "snd (os_mkdir_all E dst d1) = d3"
    "\<forall>f\<in>set bundle_files. \<exists>body. last_entry items f = Some body \<and> d2 (join_path dst f) = Some (FFile body)" by blast
  have "d3 out = d1 out" using mkdir_all_spec(1) [of E dst d1 _ d3 out] i(3) assms(6) by (metis prod.collapse)
  then have "bb = pack es" using stat_read [OF i(1)] out by simp
  then have "items = map (\<lambda>(f, c). TarFile f c) es" using i(2) assms(7) by simp
  then show "\<exists>c. d (join_path src f) = Some (FFile c) \<and> d2 (join_path dst f) = Some (FFile c)"
    using last_entry_files [OF dist, of f] c i(4) f by force
qed

section \<open>What the commands lose\<close>

text \<open>Importing an incomplete archive over a profile reports the archive as incomplete, after the files it does hold have replaced
  those of the profile.
\<close>
theorem incomplete_import_overwrites:
  assumes "profile_dir E n = Inr dst" "\<forall>op p. os_fault E op p = None" "\<forall>q\<in>set (dirs_of dst). d q = Some FDir" "d bundle = Some (FFile arch)"
    "unpack arch = Inr [TarFile ''config.toml'' body]" "d (join_path dst ''config.toml'') = Some (FFile old)" "parent_dir (join_path dst ''config.toml'') = dst"
  shows "\<exists>d'. profile_import E unpack True n bundle d = (Some (PrIncomplete [''session.json'', ''db.sqlite'']), d') \<and>
    d' (join_path dst ''config.toml'') = Some (FFile body)"
proof -
  have "fold (\<lambda>q d. d(q \<mapsto> FDir)) (dirs_of dst) d = d" using assms(3) by (auto simp: fold_dirs)
  then have m: "os_mkdir_all E dst d = (None, d)" using assms(2,3) by (auto simp: os_mkdir_all_def list_ex_iff)
  have "d dst = Some FDir" using assms(3) dirs_of_self by blast
  then have w: "os_write_file E (join_path dst ''config.toml'') body d = (None, d(join_path dst ''config.toml'' \<mapsto> FFile body))"
    using assms(2,6,7) by (simp add: os_write_file_def os_create_def os_put_def)
  show ?thesis using assms(1,2,4,5) m w
    by (simp add: profile_import_def os_read_file_def trim_prefix_def bundle_files_def Let_def)
qed

lemma no_env_no_daemon: "n \<noteq> [] \<Longrightarrow> \<forall>mp\<in>set (scan_proc_mounts h). \<forall>pid. find_daemon_pid h mp = Some pid \<longrightarrow> read_env_var h pid ''TELFS_PROFILE'' = [] \<Longrightarrow>
    find_by_profile h n = None"
proof -
  assume n: "n \<noteq> []" and a: "\<forall>mp\<in>set (scan_proc_mounts h). \<forall>pid. find_daemon_pid h mp = Some pid \<longrightarrow> read_env_var h pid ''TELFS_PROFILE'' = []"
  have "List.map_filter (\<lambda>mp. case find_daemon_pid h mp of None \<Rightarrow> None
      | Some pid \<Rightarrow> if read_env_var h pid ''TELFS_PROFILE'' = n then Some (pid, mp) else None) ms = []"
    if "\<forall>mp\<in>set ms. \<forall>pid. find_daemon_pid h mp = Some pid \<longrightarrow> read_env_var h pid ''TELFS_PROFILE'' = []" for ms
    using that n by (induction ms) (auto simp: List.map_filter_simps split: option.splits)
  then show ?thesis using a n by (simp add: find_by_profile_def)
qed

text \<open>A daemon that serves the active profile without \<open>TELFS_PROFILE\<close> in its environment does not stop the profile from being deleted
  under it: the guard looks at that variable only.
\<close>
theorem delete_under_a_live_daemon:
  assumes "profile_dir E n = Inr dir" "d dir = Some FDir" "\<forall>op p. os_fault E op p = None" "xdg_config_home E = Inr root"
    "mp \<in> set (scan_proc_mounts h)" "find_daemon_pid h mp = Some pid"
    "\<forall>mp\<in>set (scan_proc_mounts h). \<forall>pid. find_daemon_pid h mp = Some pid \<longrightarrow> read_env_var h pid ''TELFS_PROFILE'' = []"
  shows "\<exists>d'. profile_delete E h True n d = (None, d') \<and> d' dir = None \<and> (\<forall>f. d' (join_path dir f) = None)"
proof -
  have "n \<noteq> []" using profile_dir_ok [OF assms(1)] by metis
  then have none: "find_by_profile h n = None" using no_env_no_daemon assms(7) by blast
  have "\<not> gone E dir d" using assms(2,3) by (simp add: gone_def os_stat_def)
  let ?d1 = "\<lambda>q. if q = dir \<or> prefix (dir @ ''/'') q then None else d q"
  have "snd (clear_active_profile E ?d1) q = (if q = active_path root then None else ?d1 q)" "fst (clear_active_profile E ?d1) = None" for q
    using assms(3,4) by (auto simp: clear_active_profile_def os_remove_def)
  note clr = this
  have pre: "prefix (dir @ ''/'') (join_path dir f)" for f by (simp add: join_path_def)
  show ?thesis
  proof (cases "active_profile E d = n")
    case True
    then have "profile_delete E h True n d = (None, snd (clear_active_profile E ?d1))"
      using assms(1,3) none \<open>\<not> gone E dir d\<close> clr(2) by (simp add: profile_delete_def os_remove_all_def prod.case_eq_if)
    moreover have "snd (clear_active_profile E ?d1) dir = None" "snd (clear_active_profile E ?d1) (join_path dir f) = None" for f
      unfolding clr(1) using pre [of f] by simp_all
    ultimately show ?thesis by blast
  next
    case False
    then have "profile_delete E h True n d = (None, ?d1)"
      using assms(1,3) none \<open>\<not> gone E dir d\<close> by (simp add: profile_delete_def os_remove_all_def)
    then show ?thesis using pre by simp
  qed
qed

text \<open>Deleting a profile named by \<open>TELFS_PROFILE\<close> drops the selection of another profile that is still there.\<close>
theorem delete_drops_other_selection:
  assumes "profile_dir E n = Inr dir" "d dir = Some FDir" "\<forall>op p. os_fault E op p = None" "find_by_profile h n = None"
    "trim_space (os_getenv E ''TELFS_PROFILE'') = n" "read_active_profile E d = Some other" "other \<noteq> n" "profile_delete E h True n d = (r, d')"
  shows "r = None \<and> read_active_profile E d' = None"
proof -
  obtain root where root: "xdg_config_home E = Inr root"
    using assms(6) by (cases "xdg_config_home E") (simp_all add: read_active_profile_def)
  have "n \<noteq> []" using profile_dir_ok [OF assms(1)] by metis
  then have act: "active_profile E d = n" using assms(5) by (simp add: active_profile_def Let_def)
  have "\<not> gone E dir d" using assms(2,3) by (simp add: gone_def os_stat_def)
  let ?d1 = "\<lambda>q. if q = dir \<or> prefix (dir @ ''/'') q then None else d q"
  have "snd (clear_active_profile E ?d1) (active_path root) = None" "fst (clear_active_profile E ?d1) = None"
    using assms(3) root by (auto simp: clear_active_profile_def os_remove_def)
  moreover have "profile_delete E h True n d = (map_option PrCfg (fst (clear_active_profile E ?d1)), snd (clear_active_profile E ?d1))"
    using assms(1,3,4) act \<open>\<not> gone E dir d\<close> by (simp add: profile_delete_def os_remove_all_def prod.case_eq_if)
  ultimately show ?thesis using assms(3,8) root by (simp add: read_active_profile_def os_read_file_def)
qed

section \<open>Changing the account\<close>

lemma load_data_dir:
  assumes "load_from_dir E dec dir d = (Inr c, d1)" "no_overrides E"
  shows "cf_data_dir c = dir"
  using assms by (auto simp: load_from_dir_def Let_def apply_no_overrides split: prod.splits option.splits sum.splits)

lemma load_disk: "load_from_dir E dec dir d = (r, d1) \<Longrightarrow> d1 = snd (os_mkdir_all E dir d)"
  by (auto simp: load_from_dir_def Let_def split: prod.splits option.splits)

text \<open>A reset of the account leaves a profile whose session is gone and whose configuration is the old one without phone,
  identity and channel; the database is not touched.
\<close>
theorem reset_auth_forgets_the_account:
  assumes "profile_reset_auth E enc dec h force n d = (None, d')" "profile_dir E n = Inr dir" "toml_round_trips enc dec" "no_overrides E"
    "\<forall>op p. os_fault E op p = None"
  shows "\<exists>c. fst (load_from_dir E dec dir d) = Inr c \<and>
     fst (load_from_dir E dec dir d') = Inr (c\<lparr>cf_phone := [], cf_identity := None, cf_channel := no_channel\<rparr>) \<and>
     d' (join_path dir ''session.json'') = None \<and> d' (join_path dir ''db.sqlite'') = d (join_path dir ''db.sqlite'')"
proof -
  obtain c d1 where l: "load_from_dir E dec dir d = (Inr c, d1)"
    using assms(1,2) by (auto simp: profile_reset_auth_def split: if_splits option.splits prod.splits sum.splits)
  have dir: "cf_data_dir c = dir" by (rule load_data_dir [OF l assms(4)])
  let ?c = "c\<lparr>cf_phone := [], cf_identity := None, cf_channel := no_channel\<rparr>"
  obtain x d2 where rm: "os_remove E (session_path c) d1 = (x, d2)" by fastforce
  have d2: "d2 (session_path c) = None" "q \<noteq> session_path c \<Longrightarrow> d2 q = d1 q" for q
    using rm assms(5) by (auto simp: os_remove_def split: if_splits)
  have sv: "save_config E enc ?c d2 = (None, d')"
    using assms(1,2,5) l rm by (auto simp: profile_reset_auth_def os_remove_def split: if_splits option.splits prod.splits)
  have other: "d' (join_path dir f) = d2 (join_path dir f)" if "f \<noteq> ''config.toml''" "f \<noteq> ''config.toml.tmp''" for f
    using save_effect [OF sv] that dir by (simp add: config_path_def join_path_def)
  have "d1 (join_path dir ''db.sqlite'') = d (join_path dir ''db.sqlite'')"
    using load_disk [OF l] mkdir_all_longer [of E dir d "fst (os_mkdir_all E dir d)" d1 "join_path dir ''db.sqlite''"] by (simp add: join_path_def)
  moreover have "d' (join_path dir ''db.sqlite'') = d1 (join_path dir ''db.sqlite'')" "d' (join_path dir ''session.json'') = None"
    using other [of "''db.sqlite''"] other [of "''session.json''"] d2 dir by (simp_all add: session_path_def join_path_inj)
  moreover have "load_from_dir E dec dir d' = (Inr ?c, d')" using save_then_load [OF sv assms(3,4)] assms(5) dir by simp
  ultimately show ?thesis using l by auto
qed

section \<open>Concrete profiles\<close>

definition two_profiles :: disk where
  "two_profiles = (\<lambda>p. if p \<in> {''/x'', ''/x/telfs'', ''/x/telfs/profiles'', ''/x/telfs/profiles/a'', ''/x/telfs/profiles/b''} then Some FDir
     else if p = ''/x/telfs/profiles/a/config.toml'' then Some (FFile ''t'')
     else if p = ''/x/telfs/profiles/a/session.json'' then Some (FFile ''s'')
     else if p = ''/x/telfs/profiles/a/db.sqlite'' then Some (FFile ''d'')
     else if p = ''/x/telfs/active'' then Some (FFile ''b'')
     else if p = ''/o'' then Some (FFile ''archive'') else None)"

definition evil_items :: "tar_item list" where
  "evil_items = [TarFile ''./config.toml'' ''n'', TarFile ''../../evil'' ''x'', TarFile ''session.json'' ''m'', TarFile ''db.sqlite'' ''e'']"

definition tar_pack :: "(string \<times> string) list \<Rightarrow> string" where "tar_pack es = replicate (to_nat es) CHR ''x''"

definition tar_unpack :: "string \<Rightarrow> string + tar_item list" where
  "tar_unpack b = Inr (map (\<lambda>(f, c). TarFile f c) (from_nat (length b)))"

lemma dir_a: "profile_dir plain_env ''a'' = Inr ''/x/telfs/profiles/a''"
  by code_simp

lemma no_faults: "\<forall>op p. os_fault plain_env op p = None"
  by (simp add: plain_env_def)

lemma two_profiles_dirs: "\<forall>q\<in>set (dirs_of ''/x/telfs/profiles/a''). two_profiles q = Some FDir"
  by code_simp

theorem import_stays_in_the_profile_witness:
  "\<exists>d'. profile_import plain_env (\<lambda>_. Inr evil_items) True ''a'' ''/o'' two_profiles = (None, d') \<and> d' ''/o'' = Some (FFile ''archive'') \<and>
     d' ''/x/telfs/profiles/a/../../evil'' = None"
proof -
  have "fst (profile_import plain_env (\<lambda>_. Inr evil_items) True ''a'' ''/o'' two_profiles) = None" by code_simp
  then obtain d' where i: "profile_import plain_env (\<lambda>_. Inr evil_items) True ''a'' ''/o'' two_profiles = (None, d')" by (metis prod.collapse)
  have "''/o'' \<notin> targets ''/x/telfs/profiles/a'' \<and> ''/o'' \<notin> set (dirs_of ''/x/telfs/profiles/a'')" by code_simp
  moreover have "''/x/telfs/profiles/a/../../evil'' \<notin> targets ''/x/telfs/profiles/a'' \<and>
      ''/x/telfs/profiles/a/../../evil'' \<notin> set (dirs_of ''/x/telfs/profiles/a'')" by code_simp
  ultimately show ?thesis using i import_stays_in_the_profile [OF i dir_a] by (simp add: two_profiles_def)
qed

theorem export_import_round_trip_witness:
  "\<exists>d1 d2. profile_export plain_env tar_pack ''a'' ''/o'' two_profiles = (None, d1) \<and>
     profile_import plain_env tar_unpack True ''b'' ''/o'' d1 = (None, d2) \<and> d2 ''/x/telfs/profiles/b/db.sqlite'' = Some (FFile ''d'')"
proof -
  have codec: "\<forall>es. tar_unpack (tar_pack es) = Inr (map (\<lambda>(f, c). TarFile f c) es)" by (simp add: tar_unpack_def tar_pack_def)
  let ?es = "[(''config.toml'', ''t''), (''session.json'', ''s''), (''db.sqlite'', ''d'')]"
  define d1 where "d1 = two_profiles(''/o'' \<mapsto> FFile (tar_pack ?es))"
  have src: "resolve_profile_src plain_env ''a'' two_profiles = Inr ''/x/telfs/profiles/a''" by (simp add: resolve_profile_src_def dir_a)
  have cr: "os_create plain_env ''/o'' two_profiles = (None, two_profiles(''/o'' \<mapsto> FFile []))"
    by (simp add: os_create_def plain_env_def two_profiles_def parent_dir_def)
  have ta: "tar_add_files plain_env ''/x/telfs/profiles/a'' (two_profiles(''/o'' \<mapsto> FFile [])) bundle_files = (?es, None)" by code_simp
  have fd: "find (\<lambda>f. \<not> is_ok (os_stat plain_env (join_path ''/x/telfs/profiles/a'' f) two_profiles)) bundle_files = None" by code_simp
  have ex: "profile_export plain_env tar_pack ''a'' ''/o'' two_profiles = (None, d1)"
    by (simp add: profile_export_def src fd cr ta os_put_def no_faults d1_def)
  have dir_b: "profile_dir plain_env ''b'' = Inr ''/x/telfs/profiles/b''" by code_simp
  have nd: "''/o'' \<notin> set (dirs_of ''/x/telfs/profiles/b'')" by code_simp
  have "\<forall>q\<in>set (dirs_of ''/x/telfs/profiles/b''). two_profiles q = Some FDir" by code_simp
  then have dirs: "\<forall>q\<in>set (dirs_of ''/x/telfs/profiles/b''). d1 q = Some FDir" using nd by (auto simp: d1_def)
  then have "fold (\<lambda>q d. d(q \<mapsto> FDir)) (dirs_of ''/x/telfs/profiles/b'') d1 = d1" by (auto simp: fold_dirs)
  then have mk: "os_mkdir_all plain_env ''/x/telfs/profiles/b'' d1 = (None, d1)" using dirs no_faults by (auto simp: os_mkdir_all_def list_ex_iff)
  have rd: "os_read_file plain_env ''/o'' d1 = Inr (tar_pack ?es)" using no_faults by (simp add: os_read_file_def d1_def)
  let ?b = "''/x/telfs/profiles/b''"
  have wr: "os_write_file plain_env (join_path ?b f) body d = (None, d(join_path ?b f \<mapsto> FFile body))"
    if "d ?b = Some FDir" "d (join_path ?b f) \<noteq> Some FDir" "parent_dir (join_path ?b f) = ?b" for f body d
    using that no_faults by (simp add: os_write_file_def os_create_def os_put_def)
  have par: "\<forall>f\<in>set bundle_files. parent_dir (join_path ?b f) = ?b \<and> two_profiles (join_path ?b f) = None \<and> join_path ?b f \<noteq> ''/o'' \<and> join_path ?b f \<noteq> ?b"
    by code_simp
  have at: "d1 ?b = Some FDir" using dirs dirs_of_self by blast
  have free: "\<forall>f\<in>set bundle_files. d1 (join_path ?b f) = None" using par by (simp add: d1_def)
  have "\<exists>d2. import_items plain_env ?b (map (\<lambda>(f, c). TarFile f c) ?es) [] d1 = (Inr (rev bundle_files), d2)"
    using par free by (simp add: wr at bundle_files_def trim_prefix_def join_path_inj join_path_below Let_def)
  then obtain d2 where "import_items plain_env ?b (map (\<lambda>(f, c). TarFile f c) ?es) [] d1 = (Inr (rev bundle_files), d2)" ..
  then have "fst (profile_import plain_env tar_unpack True ''b'' ''/o'' d1) = None"
    by (simp add: profile_import_def dir_b mk rd codec)
  then obtain d2 where im: "profile_import plain_env tar_unpack True ''b'' ''/o'' d1 = (None, d2)" by (metis prod.collapse)
  have "\<forall>f\<in>set bundle_files. ''/o'' \<noteq> join_path ''/x/telfs/profiles/a'' f" by code_simp
  from export_import_round_trip [OF ex src this im dir_b nd codec]
  have "d2 ''/x/telfs/profiles/b/db.sqlite'' = two_profiles ''/x/telfs/profiles/a/db.sqlite''" by (auto simp: bundle_files_def join_path_def)
  then show ?thesis using ex im by (simp add: two_profiles_def)
qed

theorem incomplete_import_overwrites_witness:
  "\<exists>d'. profile_import plain_env (\<lambda>_. Inr [TarFile ''config.toml'' ''n'']) True ''a'' ''/o'' two_profiles =
      (Some (PrIncomplete [''session.json'', ''db.sqlite'']), d') \<and> d' ''/x/telfs/profiles/a/config.toml'' = Some (FFile ''n'')"
proof -
  have "two_profiles ''/o'' = Some (FFile ''archive'')" by code_simp
  moreover have "two_profiles (join_path ''/x/telfs/profiles/a'' ''config.toml'') = Some (FFile ''t'')" by code_simp
  moreover have "parent_dir (join_path ''/x/telfs/profiles/a'' ''config.toml'') = ''/x/telfs/profiles/a''" by code_simp
  ultimately show ?thesis
    using incomplete_import_overwrites [OF dir_a no_faults two_profiles_dirs, of "''/o''" "''archive''" "\<lambda>_. Inr [TarFile ''config.toml'' ''n'']" "''n''" "''t''"]
    by (simp add: join_path_def)
qed

theorem delete_under_a_live_daemon_witness:
  "find_daemon_pid cli_host ''/m'' = Some 71 \<and> (\<exists>d'. profile_delete plain_env cli_host True ''a'' two_profiles = (None, d') \<and> d' ''/x/telfs/profiles/a'' = None)"
proof -
  have x: "xdg_config_home plain_env = Inr ''/x/telfs''" by code_simp
  have a: "two_profiles ''/x/telfs/profiles/a'' = Some FDir" by code_simp
  show ?thesis
    using delete_under_a_live_daemon [where d = two_profiles and mp = "''/m''" and h = cli_host and pid = 71, OF dir_a a no_faults x] cli_host_scan by auto
qed

definition env_a :: os_env where
  "env_a = plain_env\<lparr>os_getenv := (\<lambda>k. if k = ''XDG_CONFIG_HOME'' then ''/x'' else if k = ''TELFS_PROFILE'' then ''a'' else [])\<rparr>"

theorem delete_drops_other_selection_witness:
  "read_active_profile env_a two_profiles = Some ''b'' \<and>
   read_active_profile env_a (snd (profile_delete env_a \<lparr>ho_mounts = None, ho_procs = None, ho_alive = (\<lambda>_. False)\<rparr> True ''a'' two_profiles)) = None"
proof -
  let ?h = "\<lparr>ho_mounts = None, ho_procs = None, ho_alive = (\<lambda>_. False)\<rparr>"
  have h: "find_by_profile ?h ''a'' = None" by (simp add: find_by_profile_def scan_proc_mounts_def List.map_filter_simps)
  have p: "profile_dir env_a ''a'' = Inr ''/x/telfs/profiles/a''" by code_simp
  have a: "two_profiles ''/x/telfs/profiles/a'' = Some FDir" by code_simp
  have f: "\<forall>op p. os_fault env_a op p = None" by (simp add: env_a_def plain_env_def)
  have t: "trim_space (os_getenv env_a ''TELFS_PROFILE'') = ''a''" by code_simp
  have r: "read_active_profile env_a two_profiles = Some ''b''" by code_simp
  show ?thesis
    using delete_drops_other_selection [OF p a f h t r, of "fst (profile_delete env_a ?h True ''a'' two_profiles)" "snd (profile_delete env_a ?h True ''a'' two_profiles)"] r
    by simp
qed

definition reset_config :: tel_config where
  "reset_config = plain_config\<lparr>cf_phone := [], cf_identity := None, cf_channel := no_channel\<rparr>"

definition reset_enc :: "tel_config \<Rightarrow> string + string" where
  "reset_enc c = (if c = plain_config then Inr ''t'' else if c = reset_config then Inr ''u'' else Inl ''not encoded'')"

definition reset_dec :: decode_toml where
  "reset_dec b c = (if b = ''t'' then Inr plain_config else Inr reset_config)"

theorem reset_auth_forgets_the_account_witness:
  "\<exists>d'. profile_reset_auth plain_env reset_enc reset_dec \<lparr>ho_mounts = None, ho_procs = None, ho_alive = (\<lambda>_. False)\<rparr> True ''a'' two_profiles = (None, d') \<and>
     d' ''/x/telfs/profiles/a/session.json'' = None \<and> d' ''/x/telfs/profiles/a/db.sqlite'' = Some (FFile ''d'')"
proof -
  let ?r = "profile_reset_auth plain_env reset_enc reset_dec \<lparr>ho_mounts = None, ho_procs = None, ho_alive = (\<lambda>_. False)\<rparr> True ''a'' two_profiles"
  have "fst ?r = None" by code_simp
  then have r: "?r = (None, snd ?r)" by (metis prod.collapse)
  have codec: "toml_round_trips reset_enc reset_dec"
    unfolding toml_round_trips_def
  proof (intro allI impI)
    fix c body b assume "reset_enc c = Inr body"
    then have "reset_dec body (blank_config b) = Inr (c\<lparr>cf_data_dir := cf_data_dir c\<rparr>)"
      by (auto simp: reset_enc_def reset_dec_def split: if_splits)
    then show "\<exists>x. reset_dec body (blank_config b) = Inr (c\<lparr>cf_data_dir := x\<rparr>)" ..
  qed
  have "no_overrides plain_env" by (simp add: no_overrides_def plain_env_def trim_space_def)
  from reset_auth_forgets_the_account [OF r dir_a codec this no_faults] show ?thesis
    using r by (auto simp: join_path_def two_profiles_def)
qed

end
