(* ===== verification/Spec2Isabelle.thy ===== *)
theory Spec2Isabelle
  imports MetaProps MetaProps2 Retry Recovery ReaderProps Pacing SnapProps FuseData Stats
    Gc Prefetch Supervisor SessionProps Tracker Profiles
begin

text \<open>
  TelFS is a FUSE file system (Go, module \<open>telfs\<close>) that keeps file content as encrypted, compressed
  chunks in messages of a Telegram channel and its metadata in a local SQLite database.  This
  library models the program's own logic, translated from the sources under src/, and proves what
  the parts promise.

  How the parts interact.  A request of the kernel reaches a node or an open file (\<open>internal/fs\<close>), which
  turns it into operations of the metadata store (\<open>internal/meta\<close>), the writer and the reader
  (\<open>internal/chunk\<close>) and maps their errors to errnos.  A write goes to the writer (writer.go), which
  buffers dirty chunks, reserves a slot of the upload pool (pool.go, pending.go) and, at a flush,
  hands each chunk to an upload: encode (codec, then AES-GCM of \<open>internal/crypto\<close>), ask the
  dedup index, then pack (packer.go) or send directly with retries (upload_retry.go), and store the
  row of the chunk in the metadata store.  An upload that fails is put back or
  staged on disk (persist.go) for the recovery at the next mount.  A read goes to the reader
  (reader.go): row, cache (cache.go, memcache.go), staged wire; a miss in a packed blob wakes the
  prefetcher (blobprefetch.go).  A deletion may be a move into the trash (\<open>internal/trash\<close>).  Every change
  of the name space appends to a journal in the same transaction; the poster and the snapshot manager
  (\<open>internal/snapshot\<close>) put journal batches and images of the database into the channel, from which a
  mount on an empty disk recovers (cmd/telfs/main.go); garbage collection and fsck compare channel and chunk map.  All calls to
  Telegram go through the session of \<open>internal/tg\<close>, past the rate limiter, the flood-wait middleware and the
  tracker.  Daemons, one per profile, are found and stopped through /proc (\<open>internal/mountctl\<close>) and supervised by
  the web server (\<open>internal/web/supervisor.go\<close>).

  Theories, in import order.
  \<^item> \<open>Prelude\<close>: Go's integer operations, lists and maps shared by the rest; \<open>Strconv\<close>: decimal text.
  \<^item> \<open>MetaStore\<close>, \<open>InodeOps\<close>, \<open>Namespace\<close>: the tables of store.go as one record \<open>store\<close> (rows as
    records, tables as lists or maps), transactions as functions into \<open>error + 'a\<close> whose failure
    leaves the store as it was, the inode and directory operations of inode.go and dirent.go with
    their guards and journal appends.  \<open>is_ancestor\<close> walks parent links with as much fuel as there are
    rows, which \<open>ancestor_walk_decides\<close> shows to be enough on every reachable store.
  \<^item> \<open>TreeInv\<close>, \<open>MetaInv\<close>: the tree invariant and \<open>store_wf\<close>, kept by every operation;
    \<open>NamespaceSpec\<close>: the operations refine those of an abstract finite map from (parent, name) to
    inode.
  \<^item> \<open>MetaTables\<close>: xattrs, chunk rows, dedup index, blob index, journal (xattr.go, chunk.go,
    journal.go); \<open>Settings\<close>: the kv-backed settings of store.go.
  \<^item> \<open>Replay\<close>, \<open>ReplaySim\<close>: replay.go and a simulation between a live run and the replay of its
    journal, \<open>ReplayTwice\<close>: copies of an op in the replayed list are harmless; \<open>Repair\<close>: repair.go; \<open>Stats\<close>: stats.go; \<open>MetaSystem\<close>: the store as a transition system, one step per public
    operation, and its reachable states; \<open>MetaProps\<close>, \<open>MetaProps2\<close>: the properties of all these.
  \<^item> \<open>Retry\<close>: the retry loops around SQLite (10 attempts) and around an upload (5 attempts): the
    bounds are those of the code, the loops recurse on the attempts left.
  \<^item> \<open>Pool\<close>: pending barrier and upload pool as step relations with invariants.
  \<^item> \<open>Lru\<close>, \<open>Crypto\<close>, \<open>Persist\<close>, \<open>Cache\<close>: the LRU lists of memcache.go and cache.go; ciphers, key
    wrapping, codecs and the payload pipeline; the staging directory and its file names; the disk
    cache with its fetch loop (3 attempts, as in the code).
  \<^item> \<open>Packer\<close>: the aggregation queue, its flush and its loop, as a transition system.
  \<^item> \<open>WriterBuf\<close>, \<open>WriterSpec\<close>: the write buffer of writer.go (writes, truncation, re-cut on a
    change of chunk size) and its refinement of a file of bytes.
  \<^item> \<open>Upload\<close>, \<open>UploadProps\<close>: one upload from dispatch to row, with every failure branch, Flush, Sync
    and Close; \<open>Recovery\<close>: the requeueing of staged wires at startup (cmd/telfs/main.go).
  \<^item> \<open>Reader\<close>, \<open>ReaderProps\<close>: reads and what they promise.
  \<^item> \<open>Pacing\<close>: rate limiter, flood waits and the adaptive controller of \<open>internal/tg\<close>; \<open>Tracker\<close>: the record
    of RPCs they read, with exact counts and a ring for display.
  \<^item> \<open>ChannelLog\<close>, \<open>ScanProps\<close>: messages, captions and the page walks of journal.go, snapshot.go and walk.go of
    \<open>internal/tg\<close>; \<open>Wal\<close>, \<open>WalProps\<close>: the journal poster and the recovery of a database from the channel; together
    with \<open>ReplaySim\<close> they give that a recovery rebuilds the store the posted journal describes.
  \<^item> \<open>Keys\<close>: passphrase, wrapped data key and its rotation; \<open>Envelope\<close>: the header of an encrypted snapshot;
    \<open>Snapshots\<close>, \<open>SnapProps\<close>: the snapshot manager, retention, restore.
  \<^item> \<open>Trash\<close>: moving into the trash and its collection; \<open>FuseNodes\<close>, \<open>FuseHandles\<close>: the node callbacks
    of fs.go and the file handles of handle.go; \<open>FuseProps\<close>, \<open>FuseData\<close>: what requests do to tree and content.
  \<^item> \<open>Prefetch\<close>: the prefetcher of packed blobs and the splitting of a stream into chunks.
  \<^item> \<open>Gc\<close>: \<open>telfs gc\<close> and \<open>telfs fsck\<close>.
  \<^item> \<open>Session\<close>, \<open>SessionProps\<close>: channel binding, document cache, downloads and uploads of session.go.
  \<^item> \<open>MountCtl\<close>, \<open>Supervisor\<close>: daemons in /proc and the web server's table of mounts, with concurrent starts as a
    step relation.
  \<^item> \<open>Config\<close>, \<open>Profiles\<close>: the configuration on disk and the profile commands.

  Bounds and fuel.  Page walks take the page limits of the code (2000 pages for the journal, 200 to find a snapshot, 50 for a
  collection) and stop earlier at a page without progress, so they end on any history; the retry loops recurse on the attempts left
  (uploads of the session: 4); the plan of a ranged download and all queues recurse on a measure and are total.

  Interfaces are locales interpreted on the model's own definitions in the theory of the component
  that provides them; the properties rest on the facts of the interpretations.

  Parameters.  SQLite's failures, the channel, SHA-256, the codecs, AES-GCM's block functions, clocks,
  contexts and the interleaving points at which the code releases a lock are arguments of the
  definitions; where a property needs a law of theirs (a decoder inverts its encoder, an open accepts
  only what was sealed under the same key and associated data) it is a named hypothesis, and the
  witness of the property instantiates it.

  Integers: offsets, sizes, inode and sequence numbers are \<open>int\<close>; where the code converts to a
  narrower type or may wrap, the conversion is written out (\<open>to_int32\<close> and its kin in Prelude).

  Not modelled.  The handlers and templates of the web UI (\<open>internal/web\<close> but the supervisor), flag parsing, wiring and
  reporting of the commands (\<open>cmd/telfs\<close>), metrics, the set-up of the go-fuse server, the construction and login of the gotd client,
  and the sizes parsed from text (\<open>ParseHumanBytes\<close>, floating point): library calls, I/O and presentation.
  Log lines and counters for display are left out everywhere.
\<close>

end
